(* ===== verification/Prelude.thy ===== *)
theory Prelude
  imports Main "HOL-Library.Word"
begin

unbundle bit_operations_syntax

section \<open>Shared vocabulary of the development\<close>

text \<open>
  The theory collects what every component uses: names for the C integer types, the
  machine-word constants the sources test flag words with, the C truth value of an
  \<^verbatim>\<open>int\<close> or of a masked flag word, and generic facts on lists and words.  The
  collections \<open>flag_simps\<close>, \<open>wf_intros\<close> and \<open>trans_simps\<close> gather the rewrite and
  introduction rules that the component theories add to.
\<close>

named_theorems flag_simps "masks and flag tests written out"
named_theorems wf_intros "preservation of the components' well-formedness invariants"
named_theorems trans_simps "one-step rewrite rules of the state machines"

type_synonym byte = "8 word"
type_synonym u32 = "32 word"
type_synonym u64 = "64 word"

text \<open>
  \<open>flag w m\<close> is the C condition \<^verbatim>\<open>(w & m) != 0\<close>, also where the source writes
  \<^verbatim>\<open>w & m\<close> as a truth value.
\<close>

definition flag :: "'a::len word \<Rightarrow> 'a word \<Rightarrow> bool" where
  "flag w m \<longleftrightarrow> w AND m \<noteq> 0"

lemma flag_zero [simp, flag_simps]: "\<not> flag 0 m" "\<not> flag w 0"
  by (simp_all add: flag_def)

lemma flag_or: "flag w (m OR n) \<longleftrightarrow> flag w m \<or> flag w n"
  by (auto simp: flag_def bit_eq_iff bit_simps)

text \<open>Big-endian reading of a byte string as a number.\<close>

definition be_val :: "byte list \<Rightarrow> nat" where
  "be_val bs = foldl (\<lambda>a b. 256 * a + unat b) 0 bs"

lemma be_val_Nil [simp]: "be_val [] = 0"
  by (simp add: be_val_def)

lemma be_val_snoc [simp]: "be_val (bs @ [b]) = 256 * be_val bs + unat b"
  by (simp add: be_val_def)

lemma be_val_append: "be_val (xs @ ys) = be_val xs * 256 ^ length ys + be_val ys"
proof (induction ys rule: rev_induct)
  case Nil
  then show ?case by simp
next
  case (snoc y ys)
  have "be_val (xs @ ys @ [y]) = 256 * be_val (xs @ ys) + unat y"
    by (metis append_assoc be_val_snoc)
  also have "\<dots> = be_val xs * 256 ^ length (ys @ [y]) + be_val (ys @ [y])"
    by (simp add: snoc algebra_simps)
  finally show ?case .
qed

lemma be_val_Cons: "be_val (b # bs) = unat b * 256 ^ length bs + be_val bs"
  using be_val_append [of "[b]" bs] by (simp add: be_val_def)

lemma unat_byte_less: "unat (b :: byte) < 256"
  using unsigned_less [of b] by simp

lemma unat_byte_bound [simp]: "256 \<le> n \<Longrightarrow> unat (b :: byte) < n"
  using unat_byte_less [of b] by linarith

lemma be_val_less: "be_val bs < 256 ^ length bs"
proof (induction bs rule: rev_induct)
  case Nil
  then show ?case by simp
next
  case (snoc b bs)
  then have "256 * be_val bs + unat b < 256 * 256 ^ length bs"
    using unat_byte_less [of b] by linarith
  then show ?case by simp
qed

lemma be_val_replicate_zero [simp]: "be_val (replicate n 0) = 0"
  by (induction n) (simp_all add: be_val_Cons)

lemma be_val_split: "be_val bs = be_val (take n bs) * 256 ^ (length bs - n) + be_val (drop n bs)"
  using be_val_append [of "take n bs" "drop n bs"] by simp

text \<open>Shifting a byte into a machine word, the step of every big-endian reader of the sources.\<close>

lemma unat_shift_in_byte:
  fixes l :: "'a::len word" and b :: byte
  assumes "256 * unat l + unat b < 2 ^ LENGTH('a)" and "8 \<le> LENGTH('a)"
  shows "unat (push_bit 8 l OR ucast b) = 256 * unat l + unat b"
proof -
  have "push_bit 8 l AND ucast b = 0"
    by (rule bit_word_eqI) (auto simp: bit_simps dest: bit_imp_le_length)
  then have "push_bit 8 l OR ucast b = push_bit 8 l + ucast b"
    by (simp add: disjunctive_add_eq_or)
  moreover have "unat b < 2 ^ LENGTH('a)" using assms(1) by linarith
  then have "unat (ucast b :: 'a word) = unat b"
    by (simp add: unsigned_ucast_eq take_bit_nat_eq_self_iff)
  ultimately have "unat (push_bit 8 l OR ucast b) = (256 * unat l + unat b) mod 2 ^ LENGTH('a)"
    by (simp add: push_bit_eq_mult unat_word_ariths mult.commute take_bit_eq_mod mod_simps)
  then show ?thesis using assms(1) by simp
qed

lemma unat_foldl_bytes:
  "8 * length bs \<le> LENGTH('a) \<Longrightarrow>
    unat (foldl (\<lambda>l x. push_bit 8 l OR ucast x) (0 :: 'a::len word) bs) = be_val bs"
proof (induction bs rule: rev_induct)
  case Nil
  then show ?case by simp
next
  case (snoc b bs)
  have "be_val (bs @ [b]) < 2 ^ (8 * length (bs @ [b]))"
    using be_val_less [of "bs @ [b]"] by (simp only: power_mult) simp
  also have "\<dots> \<le> 2 ^ LENGTH('a)" using snoc.prems by (intro power_increasing) simp_all
  finally show ?case using snoc by (simp add: unat_shift_in_byte)
qed

text \<open>The \<open>n\<close> low bytes of a number, most significant first.\<close>

fun be_bytes :: "nat \<Rightarrow> nat \<Rightarrow> byte list" where
  "be_bytes 0 v = []"
| "be_bytes (Suc n) v = be_bytes n (v div 256) @ [of_nat v]"

lemma be_bytes_numeral [simp]:
  "be_bytes (numeral n) v = be_bytes (pred_numeral n) (v div 256) @ [of_nat v]"
  by (simp only: numeral_eq_Suc [of n] be_bytes.simps)

lemma length_be_bytes [simp]: "length (be_bytes n v) = n"
  by (induction n arbitrary: v) simp_all

lemma be_val_be_bytes [simp]: "be_val (be_bytes n v) = v mod 256 ^ n"
proof (induction n arbitrary: v)
  case 0
  then show ?case by simp
next
  case (Suc n)
  have "unat (of_nat v :: byte) = v mod 256" by (simp add: unsigned_of_nat take_bit_eq_mod)
  with Suc show ?case by (simp add: mod_mult2_eq)
qed

text \<open>Unsigned \<^verbatim>\<open>size_t\<close> arithmetic on a 64-bit platform: it wraps.\<close>

abbreviation (input) SIZE_MAX :: nat where "SIZE_MAX \<equiv> 2 ^ 64 - 1"

definition usub :: "nat \<Rightarrow> nat \<Rightarrow> nat" where
  "usub a b = (a + 2 ^ 64 - b mod 2 ^ 64) mod 2 ^ 64"

definition uadd :: "nat \<Rightarrow> nat \<Rightarrow> nat" where
  "uadd a b = (a + b) mod 2 ^ 64"

lemma usub_le [simp]: "b \<le> a \<Longrightarrow> a \<le> SIZE_MAX \<Longrightarrow> usub a b = a - b"
  by (simp add: usub_def mod_if)

lemma uadd_fits [simp]: "a + b \<le> SIZE_MAX \<Longrightarrow> uadd a b = a + b"
  by (simp add: uadd_def)

text \<open>A slice of a list, and overwriting a slice in place (the model of \<^verbatim>\<open>memcpy\<close>).\<close>

definition chunk :: "nat \<Rightarrow> nat \<Rightarrow> 'a list \<Rightarrow> 'a list" where
  "chunk i n xs = take n (drop i xs)"

definition overwrite :: "nat \<Rightarrow> 'a list \<Rightarrow> 'a list \<Rightarrow> 'a list" where
  "overwrite i ys xs = take i xs @ ys @ drop (i + length ys) xs"

lemma length_chunk [simp]: "length (chunk i n xs) = min n (length xs - i)"
  by (simp add: chunk_def)

lemma length_overwrite [simp]:
  "i + length ys \<le> length xs \<Longrightarrow> length (overwrite i ys xs) = length xs"
  by (simp add: overwrite_def)

lemma chunk_overwrite_same:
  "i + length ys \<le> length xs \<Longrightarrow> n = length ys \<Longrightarrow> chunk i n (overwrite i ys xs) = ys"
  by (simp add: chunk_def overwrite_def)

lemma take_overwrite_before [simp]:
  "k \<le> i \<Longrightarrow> i \<le> length xs \<Longrightarrow> take k (overwrite i ys xs) = take k xs"
  by (simp add: overwrite_def)

lemma take_overwrite_beyond:
  assumes "i + length ys \<le> n" and "n \<le> length xs"
  shows "take n (overwrite i ys xs) = overwrite i ys (take n xs)"
proof -
  have "n - (i + length ys) = n - i - length ys" by simp
  with assms show ?thesis by (simp add: overwrite_def drop_take min_absorb2 min_absorb1)
qed

lemma drop_overwrite_after [simp]:
  assumes "i + length ys \<le> k" and "k \<le> length xs"
  shows "drop k (overwrite i ys xs) = drop k xs"
proof -
  have "k - i - length ys + (i + length ys) = k" using assms by simp
  then show ?thesis using assms by (simp add: overwrite_def)
qed

lemma nth_overwrite:
  "off + length ys \<le> length xs \<Longrightarrow> i < length xs \<Longrightarrow>
    overwrite off ys xs ! i = (if off \<le> i \<and> i < off + length ys then ys ! (i - off) else xs ! i)"
  by (auto simp: overwrite_def nth_append min_def)

lemma chunk_0_take: "chunk 0 n xs = take n xs"
  by (simp add: chunk_def)

lemma chunk_split: "m \<le> n \<Longrightarrow> chunk 0 n xs = chunk 0 m xs @ chunk m (n - m) xs"
  by (simp add: chunk_def) (metis add_diff_inverse_nat not_less take_add)

end
