(* ===== verification/Bitmap.thy ===== *)
theory Bitmap
  imports Prelude
begin

unbundle bit_operations_syntax

section \<open>The DTLS replay window\<close>

text \<open>
  Model of \<^verbatim>\<open>ssl/record/dtls1_bitmap.c\<close>: the 64-bit sequence numbers in network byte
  order, the saturating difference \<^verbatim>\<open>satsub64be\<close>, the replay check and the window update.
  The window is an \<^verbatim>\<open>unsigned long\<close>, 32 or 64 bits wide depending on the platform, so
  the model is polymorphic in the width \<^typ>\<open>'n\<close> of the word; the results hold for every width
  up to 128, the value at which the difference saturates.  The abstract specification is the
  set of sequence numbers received so far.
\<close>

subsection \<open>Model\<close>

record 'w dtls1_bitmap =
  bitmap_map :: 'w
  max_seq_num :: "byte list"

text \<open>What the two functions touch of the record layer: the sequence number of the record just
  read and the one stored in its \<^verbatim>\<open>SSL3_RECORD\<close>.\<close>

record record_layer =
  read_sequence :: "byte list"
  rrec_seq_num :: "byte list"

definition SSL3_RECORD_set_seq_num :: "record_layer \<Rightarrow> byte list \<Rightarrow> record_layer" where
  "SSL3_RECORD_set_seq_num r seq = r\<lparr>rrec_seq_num := seq\<rparr>"

definition n2l8 :: "byte list \<Rightarrow> u64" where
  "n2l8 c =
     (let l = push_bit 56 (ucast (c ! 0) :: u64);
          l = l OR push_bit 48 (ucast (c ! 1));
          l = l OR push_bit 40 (ucast (c ! 2));
          l = l OR push_bit 32 (ucast (c ! 3));
          l = l OR push_bit 24 (ucast (c ! 4));
          l = l OR push_bit 16 (ucast (c ! 5));
          l = l OR push_bit 8 (ucast (c ! 6))
      in l OR ucast (c ! 7))"

text \<open>\<open>ret\<close> is the difference of the two unsigned values stored into an \<^verbatim>\<open>int64_t\<close>.\<close>

definition satsub64be :: "byte list \<Rightarrow> byte list \<Rightarrow> int" where
  "satsub64be v1 v2 =
     (let l1 = n2l8 v1; l2 = n2l8 v2; ret = sint (l1 - l2)
      in if l1 > l2 \<and> ret < 0 then 128
         else if l2 > l1 \<and> ret > 0 then - 128
         else if ret > 128 then 128
         else if ret < - 128 then - 128
         else ret)"

definition dtls1_record_replay_check ::
  "record_layer \<Rightarrow> ('n::len word) dtls1_bitmap \<Rightarrow> bool \<times> record_layer" where
  "dtls1_record_replay_check rl bitmap =
     (let seq = read_sequence rl; cmp = satsub64be seq (max_seq_num bitmap)
      in if cmp > 0 then (True, SSL3_RECORD_set_seq_num rl seq)
         else let shift = nat (- cmp)
           in if shift \<ge> LENGTH('n) then (False, rl)
              else if flag (bitmap_map bitmap) (push_bit shift 1) then (False, rl)
              else (True, SSL3_RECORD_set_seq_num rl seq))"

definition dtls1_record_bitmap_update ::
  "record_layer \<Rightarrow> ('n::len word) dtls1_bitmap \<Rightarrow> ('n word) dtls1_bitmap" where
  "dtls1_record_bitmap_update rl bitmap =
     (let seq = read_sequence rl; cmp = satsub64be seq (max_seq_num bitmap)
      in if cmp > 0 then
           let shift = nat cmp
           in bitmap\<lparr>bitmap_map := (if shift < LENGTH('n) then push_bit shift (bitmap_map bitmap) OR 1 else 1),
                     max_seq_num := seq\<rparr>
         else
           let shift = nat (- cmp)
           in if shift < LENGTH('n)
              then bitmap\<lparr>bitmap_map := bitmap_map bitmap OR push_bit shift 1\<rparr> else bitmap)"

text \<open>
  The order in which the record layer uses the two: a record is checked when it arrives
  (\<^verbatim>\<open>dtls1_get_record\<close>) and, when it was not rejected, the window is updated after its MAC has
  been verified (\<^verbatim>\<open>dtls1_process_record\<close>).  \<open>replay_run\<close> takes the records that pass the MAC in
  their order of arrival and returns which of them were delivered.
\<close>

fun replay_run ::
  "('n::len word) dtls1_bitmap \<Rightarrow> byte list list \<Rightarrow> byte list list \<times> ('n word) dtls1_bitmap" where
  "replay_run bm [] = ([], bm)"
| "replay_run bm (seq # seqs) =
     (let rl = \<lparr>read_sequence = seq, rrec_seq_num = []\<rparr>
      in if fst (dtls1_record_replay_check rl bm)
         then let (acc, bm') = replay_run (dtls1_record_bitmap_update rl bm) seqs in (seq # acc, bm')
         else replay_run bm seqs)"

definition bitmap_init :: "('n::len word) dtls1_bitmap" where
  "bitmap_init = \<lparr>bitmap_map = 0, max_seq_num = replicate 8 0\<rparr>"

subsection \<open>Sequence numbers are read in network byte order\<close>

lemma n2l8_fold:
  "n2l8 [a, b, c, d, e, f, g, h] =
     foldl (\<lambda>l x. push_bit 8 l OR ucast x) 0 [a, b, c, d, e, f, g, h]"
  by (simp add: n2l8_def Let_def or.assoc)

lemma unat_n2l8: "length bs = 8 \<Longrightarrow> unat (n2l8 bs) = be_val bs"
proof -
  assume len: "length bs = 8"
  then obtain a b c d e f g h where bs: "bs = [a, b, c, d, e, f, g, h]"
    by (auto simp: length_Suc_conv numeral_eq_Suc)
  show ?thesis
    using unat_foldl_bytes [of bs, where 'a = 64] len unfolding bs by (simp add: n2l8_fold del: foldl_Cons)
qed

subsection \<open>The saturating difference\<close>

lemma wrap_mod_cases:
  fixes d :: int
  assumes "- (2 ^ 64) < d" and "d < 2 ^ 64"
  shows "(d + 2 ^ 63) mod 2 ^ 64 - 2 ^ 63 =
    (if d < - (2 ^ 63) then d + 2 ^ 64 else if d < 2 ^ 63 then d else d - 2 ^ 64)"
proof -
  consider "d < - (2 ^ 63)" | "- (2 ^ 63) \<le> d" "d < 2 ^ 63" | "2 ^ 63 \<le> d" by linarith
  then show ?thesis
  proof cases
    case 1
    have "(d + 2 ^ 63) mod 2 ^ 64 = (d + 2 ^ 63 + 2 ^ 64) mod 2 ^ 64" by (rule mod_add_self2 [symmetric])
    also have "\<dots> = d + 2 ^ 63 + 2 ^ 64" using 1 assms(1) by (intro mod_pos_pos_trivial) simp_all
    finally show ?thesis using 1 by simp
  next
    case 2
    then have "(d + 2 ^ 63) mod 2 ^ 64 = d + 2 ^ 63" by (intro mod_pos_pos_trivial) simp_all
    with 2 show ?thesis by simp
  next
    case 3
    have "(d + 2 ^ 63) mod 2 ^ 64 = (d + 2 ^ 63 - 2 ^ 64) mod 2 ^ 64" by (rule minus_mod_self2 [symmetric])
    also have "\<dots> = d + 2 ^ 63 - 2 ^ 64" using 3 assms(2) by (intro mod_pos_pos_trivial) simp_all
    finally show ?thesis using 3 by simp
  qed
qed

lemma sint_minus_u64:
  fixes a b :: u64
  assumes "d = uint a - uint b"
  shows "sint (a - b) =
    (if d < - (2 ^ 63) then d + 2 ^ 64 else if d < 2 ^ 63 then d else d - 2 ^ 64)"
proof -
  have "uint a < 2 ^ 64" "uint b < 2 ^ 64"
    using unsigned_less [of a, where 'a = int] unsigned_less [of b, where 'a = int] by simp_all
  moreover have "0 \<le> uint a" "0 \<le> uint b" by simp_all
  ultimately have "- (2 ^ 64) < d" "d < 2 ^ 64" unfolding assms by linarith+
  moreover have "sint (a - b) = (d + 2 ^ 63) mod 2 ^ 64 - 2 ^ 63"
    unfolding assms
    by (simp add: sint_uint uint_word_ariths signed_take_bit_eq_take_bit_shift
        take_bit_eq_mod mod_simps)
  ultimately show ?thesis using wrap_mod_cases [of d] by presburger
qed

lemma satsub64be_cases:
  assumes "length v1 = 8" and "length v2 = 8"
  shows satsub64be_newer:
      "be_val v2 < be_val v1 \<Longrightarrow> satsub64be v1 v2 = int (min 128 (be_val v1 - be_val v2))"
    and satsub64be_older:
      "be_val v1 \<le> be_val v2 \<Longrightarrow> satsub64be v1 v2 = - int (min 128 (be_val v2 - be_val v1))"
proof -
  have d: "int (be_val v1) - int (be_val v2) = uint (n2l8 v1) - uint (n2l8 v2)"
    using assms by (simp flip: unat_n2l8)
  have lt: "n2l8 v1 < n2l8 v2 \<longleftrightarrow> be_val v1 < be_val v2"
    "n2l8 v2 < n2l8 v1 \<longleftrightarrow> be_val v2 < be_val v1"
    using assms by (simp_all add: word_less_nat_alt unat_n2l8)
  have bounds: "be_val v1 < 2 ^ 64" "be_val v2 < 2 ^ 64"
    using be_val_less [of v1] be_val_less [of v2] assms by simp_all
  show "satsub64be v1 v2 = int (min 128 (be_val v1 - be_val v2))" if "be_val v2 < be_val v1"
    using that bounds by (cases "be_val v1 - be_val v2 < 2 ^ 63")
      (auto simp: satsub64be_def Let_def sint_minus_u64 [OF d] lt)
  show "satsub64be v1 v2 = - int (min 128 (be_val v2 - be_val v1))" if "be_val v1 \<le> be_val v2"
    using that bounds by (cases "be_val v2 - be_val v1 \<le> 2 ^ 63")
      (auto simp: satsub64be_def Let_def sint_minus_u64 [OF d] lt)
qed

subsection \<open>The window as a set of received sequence numbers\<close>

text \<open>
  \<open>window_inv bm S\<close>: the bitmap records the maximum of \<open>S\<close> (0 when nothing was received), and bit \<open>i\<close> of
  the bitmap says whether the number \<open>i\<close> below the maximum is in \<open>S\<close>.
\<close>

definition window_inv :: "('n::len word) dtls1_bitmap \<Rightarrow> nat set \<Rightarrow> bool" where
  "window_inv bm S \<longleftrightarrow> length (max_seq_num bm) = 8 \<and>
     (\<forall>n \<in> S. n \<le> be_val (max_seq_num bm)) \<and>
     (if S = {} then be_val (max_seq_num bm) = 0 else be_val (max_seq_num bm) \<in> S) \<and>
     (\<forall>i < LENGTH('n). i \<le> be_val (max_seq_num bm) \<longrightarrow>
        (bit (bitmap_map bm) i \<longleftrightarrow> be_val (max_seq_num bm) - i \<in> S))"

lemma window_inv_init [wf_intros]: "window_inv bitmap_init {}"
  by (simp add: window_inv_def bitmap_init_def)

lemma flag_push_bit_1: "i < LENGTH('n) \<Longrightarrow> flag w (push_bit i 1) = bit (w :: 'n::len word) i"
  by (simp add: flag_def and_exp_eq_0_iff_not_bit push_bit_eq_mult)

lemma replay_check_spec:
  fixes bm :: "('n::len word) dtls1_bitmap"
  assumes inv: "window_inv bm S" and w: "LENGTH('n) \<le> 128" and "length (read_sequence rl) = 8"
  shows "fst (dtls1_record_replay_check rl bm) \<longleftrightarrow>
    be_val (max_seq_num bm) < be_val (read_sequence rl) \<or>
    be_val (max_seq_num bm) - be_val (read_sequence rl) < LENGTH('n) \<and>
      be_val (read_sequence rl) \<notin> S"
proof -
  let ?m = "be_val (max_seq_num bm)" and ?q = "be_val (read_sequence rl)"
  have len: "length (max_seq_num bm) = 8" using inv by (simp add: window_inv_def)
  note older = satsub64be_older [OF assms(3) len] and newer = satsub64be_newer [OF assms(3) len]
  consider "?m < ?q" | "?q \<le> ?m" "?m - ?q < LENGTH('n)" | "?q \<le> ?m" "LENGTH('n) \<le> ?m - ?q"
    by linarith
  then show ?thesis
  proof cases
    case 1
    then show ?thesis by (simp add: dtls1_record_replay_check_def Let_def newer)
  next
    case 2
    then have "bit (bitmap_map bm) (?m - ?q) \<longleftrightarrow> ?q \<in> S" "min 128 (?m - ?q) = ?m - ?q"
      using inv w by (auto simp: window_inv_def)
    with 2 show ?thesis
      by (simp add: dtls1_record_replay_check_def Let_def older flag_push_bit_1
          del: push_bit_of_1 of_nat_diff)
  next
    case 3
    then show ?thesis using w
      by (simp add: dtls1_record_replay_check_def Let_def older)
  qed
qed

lemma bitmap_update_older:
  fixes bm :: "('n::len word) dtls1_bitmap"
  assumes "length (max_seq_num bm) = 8" and "length (read_sequence rl) = 8" and "LENGTH('n) \<le> 128"
    and "be_val (read_sequence rl) \<le> be_val (max_seq_num bm)"
  shows "dtls1_record_bitmap_update rl bm =
    (let shift = be_val (max_seq_num bm) - be_val (read_sequence rl)
     in if shift < LENGTH('n)
        then bm\<lparr>bitmap_map := bitmap_map bm OR push_bit shift 1\<rparr> else bm)"
  using assms by (auto simp: dtls1_record_bitmap_update_def Let_def satsub64be_older min_def
      simp del: of_nat_diff)

lemma bitmap_update_newer:
  fixes bm :: "('n::len word) dtls1_bitmap"
  assumes "length (max_seq_num bm) = 8" and "length (read_sequence rl) = 8" and "LENGTH('n) \<le> 128"
    and "be_val (max_seq_num bm) < be_val (read_sequence rl)"
  shows "dtls1_record_bitmap_update rl bm =
    (let shift = be_val (read_sequence rl) - be_val (max_seq_num bm)
     in bm\<lparr>bitmap_map := (if shift < LENGTH('n) then push_bit shift (bitmap_map bm) OR 1 else 1),
           max_seq_num := read_sequence rl\<rparr>)"
  using assms by (auto simp: dtls1_record_bitmap_update_def Let_def satsub64be_newer min_def
      simp del: of_nat_diff)

lemma window_inv_update [wf_intros]:
  fixes bm :: "('n::len word) dtls1_bitmap"
  assumes inv: "window_inv bm S" and w: "LENGTH('n) \<le> 128" and len: "length (read_sequence rl) = 8"
  shows "window_inv (dtls1_record_bitmap_update rl bm) (insert (be_val (read_sequence rl)) S)"
proof -
  let ?m = "be_val (max_seq_num bm)" and ?q = "be_val (read_sequence rl)"
  have lm: "length (max_seq_num bm) = 8" using inv by (simp add: window_inv_def)
  show ?thesis
  proof (cases "?m < ?q")
    case True
    have above: "n \<le> ?q" if "n \<in> S" for n using inv True that by (fastforce simp: window_inv_def)
    have "bit (if ?q - ?m < LENGTH('n) then push_bit (?q - ?m) (bitmap_map bm) OR 1 else 1) i \<longleftrightarrow>
        ?q - i \<in> insert ?q S" if i: "i < LENGTH('n)" "i \<le> ?q" for i
    proof (cases "i = 0 \<or> i < ?q - ?m")
      case True
      have "?q - i \<notin> S" if "i \<noteq> 0"
        using True that inv \<open>?m < ?q\<close> by (fastforce simp: window_inv_def)
      with True i \<open>?m < ?q\<close> show ?thesis by (auto simp: bit_simps)
    next
      case False
      then have "i - (?q - ?m) < LENGTH('n)" "i - (?q - ?m) \<le> ?m" "?m - (i - (?q - ?m)) = ?q - i"
        using i \<open>?m < ?q\<close> by auto
      then have "bit (bitmap_map bm) (i - (?q - ?m)) \<longleftrightarrow> ?q - i \<in> S"
        using inv by (auto simp: window_inv_def)
      with False i show ?thesis by (auto simp: bit_simps)
    qed
    with True show ?thesis
      using above by (simp add: window_inv_def bitmap_update_newer [OF lm len w] Let_def len)
  next
    case False
    then have le: "?q \<le> ?m" by simp
    have "bit (bitmap_map bm OR push_bit (?m - ?q) 1) i \<longleftrightarrow> ?m - i \<in> insert ?q S"
      if "i < LENGTH('n)" "i \<le> ?m" "?m - ?q < LENGTH('n)" for i
      using inv that le by (auto simp: window_inv_def bit_simps)
    moreover have "?m - i \<noteq> ?q" if "LENGTH('n) \<le> ?m - ?q" "i < LENGTH('n)" "i \<le> ?m" for i
      using that by simp
    ultimately show ?thesis
      using inv le by (auto simp: window_inv_def bitmap_update_older [OF lm len w le] Let_def split: if_splits)
  qed
qed

subsection \<open>No record is delivered twice\<close>

lemma replay_run_window:
  fixes bm :: "('n::len word) dtls1_bitmap"
  assumes "window_inv bm S" and "LENGTH('n) \<le> 128" and "\<forall>q \<in> set seqs. length q = 8"
  shows "distinct (List.map be_val (fst (replay_run bm seqs))) \<and>
    be_val ` set (fst (replay_run bm seqs)) \<inter> S = {} \<and>
    window_inv (snd (replay_run bm seqs)) (S \<union> be_val ` set (fst (replay_run bm seqs)))"
  using assms
proof (induction seqs arbitrary: bm S)
  case Nil
  then show ?case by simp
next
  case (Cons q seqs)
  let ?rl = "\<lparr>read_sequence = q, rrec_seq_num = []\<rparr>"
  have len: "length (read_sequence ?rl) = 8" using Cons.prems(3) by simp
  show ?case
  proof (cases "fst (dtls1_record_replay_check ?rl bm)")
    case True
    have "be_val q \<notin> S"
      using True Cons.prems(1) replay_check_spec [OF Cons.prems(1,2) len]
      by (auto simp: window_inv_def)
    moreover have "window_inv (dtls1_record_bitmap_update ?rl bm) (insert (be_val q) S)"
      using window_inv_update [OF Cons.prems(1,2) len] by simp
    note Cons.IH [OF this Cons.prems(2)]
    ultimately show ?thesis
      using True Cons.prems(3) by (force simp: Let_def split: prod.split)
  next
    case False
    then show ?thesis using Cons.IH [OF Cons.prems(1,2)] Cons.prems(3) by simp
  qed
qed

text \<open>
  C20. Whatever records arrive and in whatever order, starting from a cleared window no DTLS
  sequence number is delivered twice.
\<close>

theorem replay_never_twice:
  assumes "\<forall>q \<in> set seqs. length q = 8" and "LENGTH('n::len) \<le> 128"
  shows "distinct (List.map be_val (fst (replay_run (bitmap_init :: ('n word) dtls1_bitmap) seqs)))"
  using replay_run_window [OF window_inv_init assms(2,1)] by simp

theorem replay_never_twice_witness:
  "distinct (List.map be_val (fst (replay_run (bitmap_init :: u64 dtls1_bitmap)
     [[0,0,0,0,0,0,0,1], [0,0,0,0,0,0,0,1], [0,0,0,0,0,0,1,0]])))"
  by (rule replay_never_twice) simp_all

text \<open>
  C21. After any run of the record layer, the replay check accepts a record exactly when its
  sequence number was not delivered before and no delivered one is a whole window (the width of
  the bitmap) or more ahead of it.
\<close>

theorem replay_check_accepts_iff:
  fixes bm :: "('n::len word) dtls1_bitmap"
  assumes "\<forall>q \<in> set seqs. length q = 8" and "length (read_sequence rl) = 8" and "LENGTH('n) \<le> 128"
    and run: "replay_run bitmap_init seqs = (delivered, bm)"
  shows "fst (dtls1_record_replay_check rl bm) \<longleftrightarrow>
    be_val (read_sequence rl) \<notin> be_val ` set delivered \<and>
    (\<forall>d \<in> set delivered. be_val d < be_val (read_sequence rl) + LENGTH('n))"
proof -
  have inv: "window_inv bm (be_val ` set delivered)"
    using replay_run_window [OF window_inv_init assms(3,1)] run by simp
  then have max: "\<forall>d \<in> set delivered. be_val d \<le> be_val (max_seq_num bm)"
    "delivered = [] \<Longrightarrow> be_val (max_seq_num bm) = 0"
    "delivered \<noteq> [] \<Longrightarrow> \<exists>d \<in> set delivered. be_val d = be_val (max_seq_num bm)"
    by (auto simp: window_inv_def split: if_splits)
  show ?thesis
    unfolding replay_check_spec [OF inv assms(3,2)]
    using max by (cases "delivered = []") force+
qed

theorem replay_check_accepts_iff_witness:
  "fst (dtls1_record_replay_check
      \<lparr>read_sequence = [0,0,0,0,0,0,0,1], rrec_seq_num = []\<rparr> (bitmap_init :: u32 dtls1_bitmap))"
  using replay_check_accepts_iff
    [of "[]" "\<lparr>read_sequence = [0,0,0,0,0,0,0,1], rrec_seq_num = []\<rparr>" "[]"
        "bitmap_init :: u32 dtls1_bitmap"]
  by simp

end
