(* ===== verification/Buffer.thy ===== *)
theory Buffer
  imports Prelude
begin

section \<open>Growable buffers\<close>

text \<open>
  Model of \<^verbatim>\<open>crypto/buffer/buffer.c\<close>.  A \<^verbatim>\<open>BUF_MEM\<close> is a record with the block it owns
  (\<open>None\<close> for a null pointer), the length in use, the size of the block and the flags.  The
  allocator is a parameter \<open>alloc\<close>: asked for \<open>n\<close> bytes it returns a block or fails, and the block's
  initial contents are arbitrary.  The only thing the buffer relies on is \<open>alloc_ok\<close>: a block that
  is handed out has the size that was asked for.
\<close>

subsection \<open>Model\<close>

type_synonym allocator = "nat \<Rightarrow> byte list option"

definition alloc_ok :: "allocator \<Rightarrow> bool" where
  "alloc_ok alloc \<longleftrightarrow> (\<forall>n b. alloc n = Some b \<longrightarrow> length b = n)"

record buf_mem =
  buf_length :: nat
  buf_data :: "byte list option"
  buf_max :: nat
  buf_flags :: u64

abbreviation BUF_MEM_FLAG_SECURE :: u64 where "BUF_MEM_FLAG_SECURE \<equiv> 1"

abbreviation LIMIT_BEFORE_EXPANSION :: nat where "LIMIT_BEFORE_EXPANSION \<equiv> 0x5ffffffc"

text \<open>\<^verbatim>\<open>OPENSSL_zalloc\<close> of the structure either fails or gives an all-zero one.\<close>

definition BUF_MEM_new :: "bool \<Rightarrow> buf_mem option" where
  "BUF_MEM_new ok =
     (if ok then Some \<lparr>buf_length = 0, buf_data = None, buf_max = 0, buf_flags = 0\<rparr> else None)"

definition BUF_MEM_new_ex :: "bool \<Rightarrow> u64 \<Rightarrow> buf_mem option" where
  "BUF_MEM_new_ex ok flags =
     (case BUF_MEM_new ok of None \<Rightarrow> None | Some ret \<Rightarrow> Some (ret\<lparr>buf_flags := flags\<rparr>))"

text \<open>\<^verbatim>\<open>OPENSSL_realloc\<close> and \<^verbatim>\<open>OPENSSL_clear_realloc\<close>: a new block that starts with the old
  contents; on failure the old block is kept.\<close>

definition realloc_block :: "allocator \<Rightarrow> byte list option \<Rightarrow> nat \<Rightarrow> byte list option" where
  "realloc_block alloc old n =
     (case alloc n of None \<Rightarrow> None
      | Some b \<Rightarrow> (case old of None \<Rightarrow> Some b | Some d \<Rightarrow> Some (take n d @ drop (length d) b)))"

text \<open>Secure memory is never resized in place: the bytes in use are copied to a new block, and the
  old one is cleared and freed.\<close>

definition sec_alloc_realloc :: "allocator \<Rightarrow> buf_mem \<Rightarrow> nat \<Rightarrow> byte list option \<times> buf_mem" where
  "sec_alloc_realloc alloc str len =
     (case alloc len of None \<Rightarrow> (None, str)
      | Some ret \<Rightarrow>
         (case buf_data str of None \<Rightarrow> (Some ret, str)
          | Some d \<Rightarrow> (Some (overwrite 0 (take (buf_length str) d) ret), str\<lparr>buf_data := None\<rparr>)))"

definition zero_fill :: "nat \<Rightarrow> nat \<Rightarrow> byte list \<Rightarrow> byte list" where
  "zero_fill i n d = overwrite i (replicate n 0) d"

text \<open>The part that \<^verbatim>\<open>BUF_MEM_grow\<close> and \<^verbatim>\<open>BUF_MEM_grow_clean\<close> share: a larger block is needed.\<close>

definition buf_expand :: "allocator \<Rightarrow> buf_mem \<Rightarrow> nat \<Rightarrow> nat \<times> buf_mem" where
  "buf_expand alloc str len =
     (if len > LIMIT_BEFORE_EXPANSION then (0, str)
      else let n = (len + 3) div 3 * 4;
               (ret, str) = (if flag (buf_flags str) BUF_MEM_FLAG_SECURE
                             then sec_alloc_realloc alloc str n
                             else (realloc_block alloc (buf_data str) n, str))
           in case ret of None \<Rightarrow> (0, str)
              | Some d \<Rightarrow>
                 (len, str\<lparr>buf_data := Some (zero_fill (buf_length str) (len - buf_length str) d),
                            buf_max := n, buf_length := len\<rparr>))"

definition BUF_MEM_grow :: "allocator \<Rightarrow> buf_mem \<Rightarrow> nat \<Rightarrow> nat \<times> buf_mem" where
  "BUF_MEM_grow alloc str len =
     (if buf_length str \<ge> len then (len, str\<lparr>buf_length := len\<rparr>)
      else if buf_max str \<ge> len then
        (len, str\<lparr>buf_data := map_option (zero_fill (buf_length str) (len - buf_length str)) (buf_data str),
                   buf_length := len\<rparr>)
      else buf_expand alloc str len)"

definition BUF_MEM_grow_clean :: "allocator \<Rightarrow> buf_mem \<Rightarrow> nat \<Rightarrow> nat \<times> buf_mem" where
  "BUF_MEM_grow_clean alloc str len =
     (if buf_length str \<ge> len then
        (len, str\<lparr>buf_data := map_option (zero_fill len (buf_length str - len)) (buf_data str),
                   buf_length := len\<rparr>)
      else if buf_max str \<ge> len then
        (len, str\<lparr>buf_data := map_option (zero_fill (buf_length str) (len - buf_length str)) (buf_data str),
                   buf_length := len\<rparr>)
      else buf_expand alloc str len)"

text \<open>\<^verbatim>\<open>BUF_reverse\<close> with a source buffer copies it backwards; without one it swaps the two ends of
  \<open>out\<close> inwards.\<close>

fun swap_ends :: "nat \<Rightarrow> nat \<Rightarrow> nat \<Rightarrow> byte list \<Rightarrow> byte list" where
  "swap_ends 0 lo hi out = out"
| "swap_ends (Suc i) lo hi out =
     (let c = out ! hi; out = out[hi := out ! lo]; out = out[lo := c]
      in swap_ends i (Suc lo) (hi - 1) out)"

fun copy_backwards :: "byte list \<Rightarrow> nat \<Rightarrow> byte list \<Rightarrow> byte list" where
  "copy_backwards [] q out = out"
| "copy_backwards (b # inb) q out = copy_backwards inb (q - 1) (out[q := b])"

definition BUF_reverse :: "byte list \<Rightarrow> byte list option \<Rightarrow> nat \<Rightarrow> byte list" where
  "BUF_reverse out inb sz =
     (case inb of
        Some b \<Rightarrow> copy_backwards (take sz b) (sz - 1) out
      | None \<Rightarrow> swap_ends (sz div 2) 0 (sz - 1) out)"

subsection \<open>Invariant and contents\<close>

definition buf_wf :: "buf_mem \<Rightarrow> bool" where
  "buf_wf str \<longleftrightarrow>
     (case buf_data str of
        None \<Rightarrow> buf_max str = 0 \<and> buf_length str = 0
      | Some d \<Rightarrow> length d = buf_max str \<and> buf_length str \<le> buf_max str)"

definition buf_contents :: "buf_mem \<Rightarrow> byte list" where
  "buf_contents str = (case buf_data str of None \<Rightarrow> [] | Some d \<Rightarrow> take (buf_length str) d)"

lemma length_buf_contents [simp]: "buf_wf str \<Longrightarrow> length (buf_contents str) = buf_length str"
  by (auto simp: buf_wf_def buf_contents_def split: option.splits)

lemma BUF_MEM_new_wf [wf_intros]: "BUF_MEM_new ok = Some str \<Longrightarrow> buf_wf str \<and> buf_contents str = []"
  by (auto simp: BUF_MEM_new_def buf_wf_def buf_contents_def split: if_splits)

lemma take_zero_fill:
  "i + n \<le> length d \<Longrightarrow> take (i + n) (zero_fill i n d) = take i d @ replicate n 0"
  by (simp add: zero_fill_def overwrite_def)

lemma length_zero_fill [simp]: "i + n \<le> length d \<Longrightarrow> length (zero_fill i n d) = length d"
  by (simp add: zero_fill_def)

lemma take_zero_fill_before [simp]: "k \<le> i \<Longrightarrow> i \<le> length d \<Longrightarrow> take k (zero_fill i n d) = take k d"
  by (simp add: zero_fill_def)

lemma expand_size:
  assumes "len \<le> LIMIT_BEFORE_EXPANSION"
  shows "len \<le> (len + 3) div 3 * 4 \<and> (len + 3) div 3 * 4 < 2 ^ 31"
  using assms by simp linarith

lemma realloc_block_spec:
  assumes "alloc_ok alloc" and "buf_wf str" and "buf_max str \<le> n"
    and "realloc_block alloc (buf_data str) n = Some d"
  shows "length d = n \<and> take (buf_length str) d = buf_contents str"
proof (cases "buf_data str")
  case None
  with assms show ?thesis
    by (auto simp: realloc_block_def alloc_ok_def buf_wf_def buf_contents_def split: option.splits)
next
  case (Some old)
  with assms show ?thesis
    by (auto simp: realloc_block_def alloc_ok_def buf_wf_def buf_contents_def split: option.splits)
qed

lemma sec_alloc_realloc_spec:
  assumes "alloc_ok alloc" and "buf_wf str" and "buf_max str \<le> n"
    and "sec_alloc_realloc alloc str n = (Some d, str1)"
  shows "length d = n \<and> take (buf_length str) d = buf_contents str \<and>
    buf_length str1 = buf_length str \<and> buf_flags str1 = buf_flags str"
proof (cases "buf_data str")
  case None
  with assms show ?thesis
    by (auto simp: sec_alloc_realloc_def alloc_ok_def buf_wf_def buf_contents_def split: option.splits)
next
  case (Some old)
  with assms show ?thesis
    by (auto simp: sec_alloc_realloc_def alloc_ok_def buf_wf_def buf_contents_def overwrite_def
        split: option.splits)
qed

lemma buf_expanded:
  assumes "length d = n" and "take (buf_length str) d = buf_contents str" and "buf_length str < len" "len \<le> n"
    and "str' = str1\<lparr>buf_data := Some (zero_fill (buf_length str) (len - buf_length str) d),
           buf_max := n, buf_length := len\<rparr>"
  shows "buf_wf str' \<and> buf_length str' = len \<and> buf_flags str' = buf_flags str1 \<and>
    buf_contents str' = buf_contents str @ replicate (len - buf_length str) 0"
  using assms take_zero_fill [of "buf_length str" "len - buf_length str" d]
  by (simp add: buf_wf_def buf_contents_def)

lemma buf_expand_spec:
  assumes ok: "alloc_ok alloc" "buf_wf str" and len: "buf_length str < len" "buf_max str < len"
    and r: "buf_expand alloc str len = (r, str')"
  shows "r = 0 \<and> str' = str \<or>
    r = len \<and> buf_wf str' \<and> buf_length str' = len \<and> buf_flags str' = buf_flags str \<and>
      buf_contents str' = buf_contents str @ replicate (len - buf_length str) 0"
proof (cases "len \<le> LIMIT_BEFORE_EXPANSION")
  case False
  with r show ?thesis by (simp add: buf_expand_def)
next
  case lim: True
  let ?n = "(len + 3) div 3 * 4"
  have n: "len \<le> ?n" "buf_max str \<le> ?n" using expand_size [OF lim] len by auto
  show ?thesis
  proof (cases "flag (buf_flags str) BUF_MEM_FLAG_SECURE")
    case True
    obtain ret str1 where sec: "sec_alloc_realloc alloc str ?n = (ret, str1)" by fastforce
    show ?thesis
    proof (cases ret)
      case None
      with sec have "str1 = str" by (auto simp: sec_alloc_realloc_def split: option.splits)
      with r True sec None lim show ?thesis by (simp add: buf_expand_def Let_def)
    next
      case (Some d)
      note d = sec_alloc_realloc_spec [OF ok n(2) sec [unfolded Some]]
      with buf_expanded [of d ?n str len, OF _ _ len(1) n(1)] r True sec Some lim show ?thesis
        by (auto simp: buf_expand_def Let_def)
    qed
  next
    case False
    show ?thesis
    proof (cases "realloc_block alloc (buf_data str) ?n")
      case None
      with r False lim show ?thesis by (simp add: buf_expand_def Let_def)
    next
      case (Some d)
      note d = realloc_block_spec [OF ok n(2) Some]
      with buf_expanded [of d ?n str len, OF _ _ len(1) n(1)] r False Some lim show ?thesis
        by (auto simp: buf_expand_def Let_def)
    qed
  qed
qed

text \<open>
  The contract of a grow operation: it fails and changes nothing, or the buffer has exactly the
  length asked for, starts with the old contents (cut off when it shrinks) and is zero beyond them.
\<close>

locale grow_contract =
  fixes grow :: "allocator \<Rightarrow> buf_mem \<Rightarrow> nat \<Rightarrow> nat \<times> buf_mem"
  assumes grow_cases: "alloc_ok alloc \<Longrightarrow> buf_wf str \<Longrightarrow> grow alloc str len = (r, str') \<Longrightarrow>
      r = 0 \<and> str' = str \<or>
      r = len \<and> buf_wf str' \<and> buf_length str' = len \<and> buf_flags str' = buf_flags str \<and>
        buf_contents str' = take len (buf_contents str @ replicate (len - buf_length str) 0)"
    and grow_fits: "len \<le> buf_max str \<Longrightarrow> fst (grow alloc str len) = len"
begin

lemma grow_wf: "alloc_ok alloc \<Longrightarrow> buf_wf str \<Longrightarrow> buf_wf (snd (grow alloc str len))"
  using grow_cases [of alloc str len] by (metis prod.collapse)

lemma grow_success:
  assumes "alloc_ok alloc" and "buf_wf str" and "grow alloc str len = (r, str')" and "r \<noteq> 0"
  shows "r = len" "buf_wf str'" "buf_length str' = len"
    "buf_contents str' = take len (buf_contents str @ replicate (len - buf_length str) 0)"
  using grow_cases [OF assms(1-3)] assms(4) by auto

lemma grow_twice:
  assumes "alloc_ok alloc" and "buf_wf str" and "buf_length str \<le> len" and "len \<le> len'"
    and "grow alloc str len = (r, str1)" and "r \<noteq> 0" and "grow alloc str1 len' = (r', str2)" and "r' \<noteq> 0"
  shows "buf_contents str2 = buf_contents str @ replicate (len' - buf_length str) 0"
proof -
  note s1 = grow_success [OF assms(1,2,5,6)]
  note s2 = grow_success [OF assms(1) s1(2) assms(7,8)]
  have "replicate (len - buf_length str) 0 @ replicate (len' - len) (0 :: byte) =
      replicate (len' - buf_length str) 0"
    using assms(3,4) by (simp flip: replicate_add)
  then show ?thesis using s1 s2 assms(2-4) by simp
qed

end

interpretation bg: grow_contract BUF_MEM_grow
proof unfold_locales
  fix alloc str len r str'
  assume a: "alloc_ok alloc" "buf_wf str" "BUF_MEM_grow alloc str len = (r, str')"
  consider "len \<le> buf_length str" | "buf_length str < len" "len \<le> buf_max str"
    | "buf_length str < len" "buf_max str < len" by linarith
  then show "r = 0 \<and> str' = str \<or>
      r = len \<and> buf_wf str' \<and> buf_length str' = len \<and> buf_flags str' = buf_flags str \<and>
        buf_contents str' = take len (buf_contents str @ replicate (len - buf_length str) 0)"
  proof cases
    case 1
    with a show ?thesis
      by (auto simp: BUF_MEM_grow_def buf_wf_def buf_contents_def min_def split: option.splits)
  next
    case 2
    with a show ?thesis
      using take_zero_fill [of "buf_length str" "len - buf_length str"]
      by (auto simp: BUF_MEM_grow_def buf_wf_def buf_contents_def split: option.splits)
  next
    case 3
    with a buf_expand_spec [OF a(1,2) 3] show ?thesis by (simp add: BUF_MEM_grow_def)
  qed
qed (simp add: BUF_MEM_grow_def)

interpretation bgc: grow_contract BUF_MEM_grow_clean
proof unfold_locales
  fix alloc str len r str'
  assume a: "alloc_ok alloc" "buf_wf str" "BUF_MEM_grow_clean alloc str len = (r, str')"
  consider "len \<le> buf_length str" | "buf_length str < len" "len \<le> buf_max str"
    | "buf_length str < len" "buf_max str < len" by linarith
  then show "r = 0 \<and> str' = str \<or>
      r = len \<and> buf_wf str' \<and> buf_length str' = len \<and> buf_flags str' = buf_flags str \<and>
        buf_contents str' = take len (buf_contents str @ replicate (len - buf_length str) 0)"
  proof cases
    case 1
    with a show ?thesis
      by (auto simp: BUF_MEM_grow_clean_def buf_wf_def buf_contents_def min_def split: option.splits)
  next
    case 2
    with a show ?thesis
      using take_zero_fill [of "buf_length str" "len - buf_length str"]
      by (auto simp: BUF_MEM_grow_clean_def buf_wf_def buf_contents_def split: option.splits)
  next
    case 3
    with a buf_expand_spec [OF a(1,2) 3] show ?thesis by (simp add: BUF_MEM_grow_clean_def)
  qed
qed (simp add: BUF_MEM_grow_clean_def)

subsection \<open>Byte reversal\<close>

lemma nth_swap_ends:
  assumes "lo + 2 * i \<le> Suc hi" and "hi < length out" and "k < length out"
  shows "swap_ends i lo hi out ! k =
    (if lo \<le> k \<and> k < lo + i \<or> hi < k + i \<and> k \<le> hi then out ! (lo + hi - k) else out ! k)"
  using assms
proof (induction i arbitrary: lo hi out)
  case 0
  then show ?case by auto
next
  case (Suc i)
  let ?out = "out[hi := out ! lo, lo := out ! hi]"
  have IH: "swap_ends i (Suc lo) (hi - 1) ?out ! k =
      (if Suc lo \<le> k \<and> k < Suc lo + i \<or> hi - 1 < k + i \<and> k \<le> hi - 1
       then ?out ! (Suc lo + (hi - 1) - k) else ?out ! k)"
    using Suc.prems by (intro Suc.IH) auto
  have idx: "Suc lo + (hi - 1) - k = lo + hi - k" using Suc.prems(1) by simp
  show ?case using Suc.prems unfolding swap_ends.simps Let_def IH idx
    by (auto simp: nth_list_update)
qed

lemma length_swap_ends [simp]: "length (swap_ends i lo hi out) = length out"
  by (induction i arbitrary: lo hi out) (simp_all add: Let_def)

lemma length_copy_backwards [simp]: "length (copy_backwards b q out) = length out"
  by (induction b arbitrary: q out) simp_all

lemma nth_copy_backwards:
  assumes "length b \<le> Suc q" and "q < length out" and "k < length out"
  shows "copy_backwards b q out ! k = (if q < k + length b \<and> k \<le> q then b ! (q - k) else out ! k)"
  using assms
proof (induction b arbitrary: q out)
  case Nil
  then show ?case by auto
next
  case (Cons x b)
  show ?case
  proof (cases q)
    case 0
    with Cons.prems show ?thesis by auto
  next
    case (Suc p)
    then have "copy_backwards b p (out[q := x]) ! k =
        (if p < k + length b \<and> k \<le> p then b ! (p - k) else out[q := x] ! k)"
      using Cons.prems by (intro Cons.IH) auto
    with Cons.prems Suc show ?thesis by (auto simp: nth_list_update nth_Cons')
  qed
qed

lemma BUF_reverse_copy:
  assumes "sz \<le> length b" and "sz \<le> length out"
  shows "BUF_reverse out (Some b) sz = rev (take sz b) @ drop sz out"
proof (cases "sz = 0")
  case True
  then show ?thesis by (simp add: BUF_reverse_def)
next
  case False
  then have idx: "sz - Suc 0 < k + sz \<and> k \<le> sz - Suc 0 \<longleftrightarrow> k < sz" for k by arith
  show ?thesis
  proof (rule nth_equalityI)
    fix k assume "k < length (BUF_reverse out (Some b) sz)"
    with False assms show "BUF_reverse out (Some b) sz ! k = (rev (take sz b) @ drop sz out) ! k"
      by (simp add: BUF_reverse_def nth_copy_backwards idx nth_append rev_nth)
  qed (use assms in \<open>simp add: BUF_reverse_def\<close>)
qed

lemma BUF_reverse_in_place:
  assumes "sz \<le> length out"
  shows "BUF_reverse out None sz = rev (take sz out) @ drop sz out"
proof (cases "sz = 0")
  case True
  then show ?thesis by (simp add: BUF_reverse_def)
next
  case False
  show ?thesis
  proof (rule nth_equalityI)
    fix k assume "k < length (BUF_reverse out None sz)"
    then have k: "k < length out" by (simp add: BUF_reverse_def)
    have "sz - 1 - k = k" if "\<not> k < sz div 2" "\<not> sz - 1 < k + sz div 2" "k < sz" using that by arith
    with k False assms show "BUF_reverse out None sz ! k = (rev (take sz out) @ drop sz out) ! k"
      by (auto simp: BUF_reverse_def nth_swap_ends nth_append rev_nth)
  qed (use assms in \<open>simp add: BUF_reverse_def\<close>)
qed

subsection \<open>Properties\<close>

text \<open>
  Growing a well-formed buffer either fails and leaves it as it was, or leaves a well-formed
  buffer of exactly the requested length that starts with the old contents (cut off when it shrinks)
  and is zero beyond them; a request that fits the block never fails.
\<close>

theorem BUF_MEM_grow_correct:
  assumes "alloc_ok alloc" and "buf_wf str" and "BUF_MEM_grow alloc str len = (r, str')"
  shows "(r = 0 \<and> str' = str \<or>
      r = len \<and> buf_wf str' \<and> buf_length str' = len \<and> buf_flags str' = buf_flags str \<and>
        buf_contents str' = take len (buf_contents str @ replicate (len - buf_length str) 0)) \<and>
    (len \<le> buf_max str \<longrightarrow> r = len)"
  using bg.grow_cases [OF assms] bg.grow_fits [of len str alloc] assms(3) by auto

definition sample_mem :: buf_mem where
  "sample_mem = \<lparr>buf_length = 2, buf_data = Some [7, 8, 9, 9], buf_max = 4, buf_flags = 0\<rparr>"

lemma sample_mem_wf: "buf_wf sample_mem" "alloc_ok (\<lambda>n. Some (replicate n 1))"
  by (simp_all add: buf_wf_def sample_mem_def alloc_ok_def)

lemma sample_grow_ok: "fst (BUF_MEM_grow (\<lambda>n. Some (replicate n 1)) sample_mem 6) = 6"
  by (simp add: sample_mem_def BUF_MEM_grow_def buf_expand_def realloc_block_def Let_def)

theorem BUF_MEM_grow_correct_witness:
  "buf_contents (snd (BUF_MEM_grow (\<lambda>n. Some (replicate n 1)) sample_mem 6)) = [7, 8, 0, 0, 0, 0]"
  using BUF_MEM_grow_correct [OF sample_mem_wf(2,1) prod.collapse [symmetric], of 6] sample_grow_ok
  by (simp add: buf_contents_def sample_mem_def numeral_eq_Suc)



text \<open>
  \<^verbatim>\<open>BUF_reverse\<close> reverses: with a source it writes the source backwards, in place it reverses the
  first \<^verbatim>\<open>size\<close> bytes, and bytes beyond \<^verbatim>\<open>size\<close> stay.
\<close>

theorem BUF_reverse_correct:
  assumes "sz \<le> length out" and "sz \<le> length b"
  shows "BUF_reverse out (Some b) sz = rev (take sz b) @ drop sz out \<and>
    BUF_reverse out None sz = rev (take sz out) @ drop sz out \<and>
    BUF_reverse (BUF_reverse out None sz) None sz = out"
proof -
  have 1: "BUF_reverse out None sz = rev (take sz out) @ drop sz out"
    using BUF_reverse_in_place [OF assms(1)] .
  moreover have "BUF_reverse (rev (take sz out) @ drop sz out) None sz = out"
    using BUF_reverse_in_place [of sz "rev (take sz out) @ drop sz out"] assms(1) by simp
  ultimately show ?thesis using BUF_reverse_copy [OF assms(2,1)] by simp
qed

theorem BUF_reverse_correct_witness:
  "BUF_reverse [1, 2, 3, 4] None 3 = [3, 2, 1, 4]"
  using BUF_reverse_correct [of 3 "[1, 2, 3, 4]" "[0, 0, 0]"] by simp

end
