(* ===== verification/Alerts.thy ===== *)
theory Alerts
  imports Prelude
begin

section \<open>Alert codes\<close>

text \<open>
  Model of \<^verbatim>\<open>ssl3_alert_code\<close> (\<^verbatim>\<open>ssl/s3_enc.c\<close>), \<^verbatim>\<open>tls1_alert_code\<close> (\<^verbatim>\<open>ssl/t1_enc.c\<close>) and
  \<^verbatim>\<open>tls13_alert_code\<close> (\<^verbatim>\<open>ssl/tls13_enc.c\<close>): the alert description that is put on the wire for the
  one the library raised, or \<open>-1\<close> when no alert is sent.  A \<^verbatim>\<open>switch\<close> is a table from the case
  label to the returned value.
\<close>

abbreviation (input) SSL_AD_NO_ALERT :: int where "SSL_AD_NO_ALERT \<equiv> - 1"
abbreviation (input) SSL_AD_CLOSE_NOTIFY :: int where "SSL_AD_CLOSE_NOTIFY \<equiv> 0"
abbreviation (input) SSL_AD_UNEXPECTED_MESSAGE :: int where "SSL_AD_UNEXPECTED_MESSAGE \<equiv> 10"
abbreviation (input) SSL_AD_BAD_RECORD_MAC :: int where "SSL_AD_BAD_RECORD_MAC \<equiv> 20"
abbreviation (input) SSL_AD_DECRYPTION_FAILED :: int where "SSL_AD_DECRYPTION_FAILED \<equiv> 21"
abbreviation (input) SSL_AD_RECORD_OVERFLOW :: int where "SSL_AD_RECORD_OVERFLOW \<equiv> 22"
abbreviation (input) SSL_AD_DECOMPRESSION_FAILURE :: int where "SSL_AD_DECOMPRESSION_FAILURE \<equiv> 30"
abbreviation (input) SSL_AD_HANDSHAKE_FAILURE :: int where "SSL_AD_HANDSHAKE_FAILURE \<equiv> 40"
abbreviation (input) SSL_AD_NO_CERTIFICATE :: int where "SSL_AD_NO_CERTIFICATE \<equiv> 41"
abbreviation (input) SSL_AD_BAD_CERTIFICATE :: int where "SSL_AD_BAD_CERTIFICATE \<equiv> 42"
abbreviation (input) SSL_AD_UNSUPPORTED_CERTIFICATE :: int where "SSL_AD_UNSUPPORTED_CERTIFICATE \<equiv> 43"
abbreviation (input) SSL_AD_CERTIFICATE_REVOKED :: int where "SSL_AD_CERTIFICATE_REVOKED \<equiv> 44"
abbreviation (input) SSL_AD_CERTIFICATE_EXPIRED :: int where "SSL_AD_CERTIFICATE_EXPIRED \<equiv> 45"
abbreviation (input) SSL_AD_CERTIFICATE_UNKNOWN :: int where "SSL_AD_CERTIFICATE_UNKNOWN \<equiv> 46"
abbreviation (input) SSL_AD_ILLEGAL_PARAMETER :: int where "SSL_AD_ILLEGAL_PARAMETER \<equiv> 47"
abbreviation (input) SSL_AD_UNKNOWN_CA :: int where "SSL_AD_UNKNOWN_CA \<equiv> 48"
abbreviation (input) SSL_AD_ACCESS_DENIED :: int where "SSL_AD_ACCESS_DENIED \<equiv> 49"
abbreviation (input) SSL_AD_DECODE_ERROR :: int where "SSL_AD_DECODE_ERROR \<equiv> 50"
abbreviation (input) SSL_AD_DECRYPT_ERROR :: int where "SSL_AD_DECRYPT_ERROR \<equiv> 51"
abbreviation (input) SSL_AD_EXPORT_RESTRICTION :: int where "SSL_AD_EXPORT_RESTRICTION \<equiv> 60"
abbreviation (input) SSL_AD_PROTOCOL_VERSION :: int where "SSL_AD_PROTOCOL_VERSION \<equiv> 70"
abbreviation (input) SSL_AD_INSUFFICIENT_SECURITY :: int where "SSL_AD_INSUFFICIENT_SECURITY \<equiv> 71"
abbreviation (input) SSL_AD_INTERNAL_ERROR :: int where "SSL_AD_INTERNAL_ERROR \<equiv> 80"
abbreviation (input) SSL_AD_INAPPROPRIATE_FALLBACK :: int where "SSL_AD_INAPPROPRIATE_FALLBACK \<equiv> 86"
abbreviation (input) SSL_AD_USER_CANCELLED :: int where "SSL_AD_USER_CANCELLED \<equiv> 90"
abbreviation (input) SSL_AD_NO_RENEGOTIATION :: int where "SSL_AD_NO_RENEGOTIATION \<equiv> 100"
abbreviation (input) SSL_AD_MISSING_EXTENSION :: int where "SSL_AD_MISSING_EXTENSION \<equiv> 109"
abbreviation (input) SSL_AD_UNSUPPORTED_EXTENSION :: int where "SSL_AD_UNSUPPORTED_EXTENSION \<equiv> 110"
abbreviation (input) SSL_AD_CERTIFICATE_UNOBTAINABLE :: int where "SSL_AD_CERTIFICATE_UNOBTAINABLE \<equiv> 111"
abbreviation (input) SSL_AD_UNRECOGNIZED_NAME :: int where "SSL_AD_UNRECOGNIZED_NAME \<equiv> 112"
abbreviation (input) SSL_AD_BAD_CERTIFICATE_STATUS_RESPONSE :: int where
  "SSL_AD_BAD_CERTIFICATE_STATUS_RESPONSE \<equiv> 113"
abbreviation (input) SSL_AD_BAD_CERTIFICATE_HASH_VALUE :: int where "SSL_AD_BAD_CERTIFICATE_HASH_VALUE \<equiv> 114"
abbreviation (input) SSL_AD_UNKNOWN_PSK_IDENTITY :: int where "SSL_AD_UNKNOWN_PSK_IDENTITY \<equiv> 115"
abbreviation (input) SSL_AD_CERTIFICATE_REQUIRED :: int where "SSL_AD_CERTIFICATE_REQUIRED \<equiv> 116"
abbreviation (input) SSL_AD_NO_APPLICATION_PROTOCOL :: int where "SSL_AD_NO_APPLICATION_PROTOCOL \<equiv> 120"

subsection \<open>Model\<close>

definition switch :: "(int \<times> int) list \<Rightarrow> int \<Rightarrow> int" where
  "switch table code = (case map_of table code of Some v \<Rightarrow> v | None \<Rightarrow> - 1)"

definition tls1_alert_code :: "int \<Rightarrow> int" where
  "tls1_alert_code = switch
    [(SSL_AD_CLOSE_NOTIFY, 0), (SSL_AD_UNEXPECTED_MESSAGE, 10), (SSL_AD_BAD_RECORD_MAC, 20),
     (SSL_AD_DECRYPTION_FAILED, 21), (SSL_AD_RECORD_OVERFLOW, 22), (SSL_AD_DECOMPRESSION_FAILURE, 30),
     (SSL_AD_HANDSHAKE_FAILURE, 40), (SSL_AD_NO_CERTIFICATE, - 1), (SSL_AD_BAD_CERTIFICATE, 42),
     (SSL_AD_UNSUPPORTED_CERTIFICATE, 43), (SSL_AD_CERTIFICATE_REVOKED, 44),
     (SSL_AD_CERTIFICATE_EXPIRED, 45), (SSL_AD_CERTIFICATE_UNKNOWN, 46), (SSL_AD_ILLEGAL_PARAMETER, 47),
     (SSL_AD_UNKNOWN_CA, 48), (SSL_AD_ACCESS_DENIED, 49), (SSL_AD_DECODE_ERROR, 50),
     (SSL_AD_DECRYPT_ERROR, 51), (SSL_AD_EXPORT_RESTRICTION, 60), (SSL_AD_PROTOCOL_VERSION, 70),
     (SSL_AD_INSUFFICIENT_SECURITY, 71), (SSL_AD_INTERNAL_ERROR, 80), (SSL_AD_USER_CANCELLED, 90),
     (SSL_AD_NO_RENEGOTIATION, 100), (SSL_AD_UNSUPPORTED_EXTENSION, 110),
     (SSL_AD_CERTIFICATE_UNOBTAINABLE, 111), (SSL_AD_UNRECOGNIZED_NAME, 112),
     (SSL_AD_BAD_CERTIFICATE_STATUS_RESPONSE, 113), (SSL_AD_BAD_CERTIFICATE_HASH_VALUE, 114),
     (SSL_AD_UNKNOWN_PSK_IDENTITY, 115), (SSL_AD_INAPPROPRIATE_FALLBACK, 86),
     (SSL_AD_NO_APPLICATION_PROTOCOL, 120), (SSL_AD_CERTIFICATE_REQUIRED, SSL_AD_HANDSHAKE_FAILURE)]"

definition tls13_alert_code :: "int \<Rightarrow> int" where
  "tls13_alert_code code =
     (if code = SSL_AD_MISSING_EXTENSION \<or> code = SSL_AD_CERTIFICATE_REQUIRED then code
      else tls1_alert_code code)"

definition ssl3_alert_code :: "int \<Rightarrow> int" where
  "ssl3_alert_code = switch
    [(SSL_AD_CLOSE_NOTIFY, 0), (SSL_AD_UNEXPECTED_MESSAGE, 10), (SSL_AD_BAD_RECORD_MAC, 20),
     (SSL_AD_DECRYPTION_FAILED, 20), (SSL_AD_RECORD_OVERFLOW, 20), (SSL_AD_DECOMPRESSION_FAILURE, 30),
     (SSL_AD_HANDSHAKE_FAILURE, 40), (SSL_AD_NO_CERTIFICATE, 41), (SSL_AD_BAD_CERTIFICATE, 42),
     (SSL_AD_UNSUPPORTED_CERTIFICATE, 43), (SSL_AD_CERTIFICATE_REVOKED, 44),
     (SSL_AD_CERTIFICATE_EXPIRED, 45), (SSL_AD_CERTIFICATE_UNKNOWN, 46), (SSL_AD_ILLEGAL_PARAMETER, 47),
     (SSL_AD_UNKNOWN_CA, 42), (SSL_AD_ACCESS_DENIED, 40), (SSL_AD_DECODE_ERROR, 40),
     (SSL_AD_DECRYPT_ERROR, 40), (SSL_AD_EXPORT_RESTRICTION, 40), (SSL_AD_PROTOCOL_VERSION, 40),
     (SSL_AD_INSUFFICIENT_SECURITY, 40), (SSL_AD_INTERNAL_ERROR, 40), (SSL_AD_USER_CANCELLED, 40),
     (SSL_AD_NO_RENEGOTIATION, - 1), (SSL_AD_UNSUPPORTED_EXTENSION, 40),
     (SSL_AD_CERTIFICATE_UNOBTAINABLE, 40), (SSL_AD_UNRECOGNIZED_NAME, 40),
     (SSL_AD_BAD_CERTIFICATE_STATUS_RESPONSE, 40), (SSL_AD_BAD_CERTIFICATE_HASH_VALUE, 40),
     (SSL_AD_UNKNOWN_PSK_IDENTITY, 115), (SSL_AD_INAPPROPRIATE_FALLBACK, 86),
     (SSL_AD_NO_APPLICATION_PROTOCOL, 120), (SSL_AD_CERTIFICATE_REQUIRED, SSL_AD_HANDSHAKE_FAILURE)]"

subsection \<open>What reaches the wire\<close>

lemma switch_range: "switch table code \<in> insert (- 1) (snd ` set table)"
  by (force simp: switch_def split: option.splits dest: map_of_SomeD)

lemma tls1_alert_code_byte: "tls1_alert_code code = - 1 \<or> 0 \<le> tls1_alert_code code \<and> tls1_alert_code code < 256"
  using switch_range [of _ code] unfolding tls1_alert_code_def by fastforce

lemma tls13_alert_code_byte:
  "tls13_alert_code code = - 1 \<or> 0 \<le> tls13_alert_code code \<and> tls13_alert_code code < 256"
  using tls1_alert_code_byte [of code] by (auto simp: tls13_alert_code_def)

lemma ssl3_alert_code_byte: "ssl3_alert_code code = - 1 \<or> 0 \<le> ssl3_alert_code code \<and> ssl3_alert_code code < 256"
  using switch_range [of _ code] unfolding ssl3_alert_code_def by fastforce

text \<open>
  From TLS 1.0 on an alert keeps its code except that \<^verbatim>\<open>certificate_required\<close>, which only exists in
  TLS 1.3, goes out as \<^verbatim>\<open>handshake_failure\<close>; mapping a code twice is mapping it once.
\<close>

lemma tls1_alert_code_id:
  "tls1_alert_code code = code \<or> tls1_alert_code code = - 1 \<or>
   code = SSL_AD_CERTIFICATE_REQUIRED \<and> tls1_alert_code code = SSL_AD_HANDSHAKE_FAILURE"
  by (simp add: tls1_alert_code_def switch_def)

lemma ssl3_alert_code_idem: "ssl3_alert_code (ssl3_alert_code code) = ssl3_alert_code code"
proof -
  have "ssl3_alert_code code \<in> {- 1, 0, 10, 20, 30, 40, 41, 42, 43, 44, 45, 46, 47, 86, 115, 120}"
    using switch_range [of _ code] unfolding ssl3_alert_code_def by fastforce
  then show ?thesis by (auto simp: ssl3_alert_code_def switch_def)
qed

end
