(* ===== verification/Pqueue.thy ===== *)
theory Pqueue
  imports Prelude
begin

section \<open>Priority queues\<close>

text \<open>
  Model of \<^verbatim>\<open>ssl/pqueue.c\<close>.  The queue is a singly linked list; the model keeps the chain of its
  nodes as a list, and a pointer to a node as its position in the chain, so that a client can update
  the data of the node it found.  \<open>None\<close> stands for a null pointer.  The member \<^verbatim>\<open>count\<close> of the source is
  never used and is left out.

  The locale \<open>keyed_queue\<close> is the contract the DTLS handshake layer relies on: a finite map from
  priorities to data that hands out its entries in ascending order.
\<close>

subsection \<open>Model\<close>

text \<open>The sign of \<^verbatim>\<open>memcmp\<close>: lexicographic comparison of unsigned bytes.\<close>

fun memcmp :: "byte list \<Rightarrow> byte list \<Rightarrow> nat \<Rightarrow> int" where
  "memcmp (x # xs) (y # ys) (Suc n) = (if x < y then - 1 else if y < x then 1 else memcmp xs ys n)"
| "memcmp xs ys n = 0"

record 'a pitem =
  priority :: "byte list"
  item_data :: 'a

type_synonym 'a pqueue = "'a pitem list"

definition pitem_new :: "byte list \<Rightarrow> 'a \<Rightarrow> bool \<Rightarrow> 'a pitem option" where
  "pitem_new prio64be d ok = (if ok then Some \<lparr>priority = prio64be, item_data = d\<rparr> else None)"

text \<open>The loop of \<^verbatim>\<open>pqueue_insert\<close>; the result is the null pointer for a duplicate.\<close>

fun pqueue_insert :: "'a pqueue \<Rightarrow> 'a pitem \<Rightarrow> 'a pitem option \<times> 'a pqueue" where
  "pqueue_insert [] item = (Some item, [item])"
| "pqueue_insert (x # xs) item =
     (let c = memcmp (priority x) (priority item) 8 in
      if c > 0 then (Some item, item # x # xs)
      else if c = 0 then (None, x # xs)
      else let (r, xs') = pqueue_insert xs item in (r, x # xs'))"

definition pqueue_peek :: "'a pqueue \<Rightarrow> 'a pitem option" where
  "pqueue_peek pq = (case pq of [] \<Rightarrow> None | x # _ \<Rightarrow> Some x)"

definition pqueue_pop :: "'a pqueue \<Rightarrow> 'a pitem option \<times> 'a pqueue" where
  "pqueue_pop pq = (case pq of [] \<Rightarrow> (None, []) | x # xs \<Rightarrow> (Some x, xs))"

text \<open>The loop of \<^verbatim>\<open>pqueue_find\<close> leaves out the last node, which is compared after it.\<close>

fun pqueue_find :: "'a pqueue \<Rightarrow> byte list \<Rightarrow> nat option" where
  "pqueue_find [] p = None"
| "pqueue_find [x] p = (if memcmp (priority x) p 8 = 0 then Some 0 else None)"
| "pqueue_find (x # y # xs) p =
     (if memcmp (priority x) p 8 = 0 then Some 0 else map_option Suc (pqueue_find (y # xs) p))"

text \<open>An iterator is the chain that is still to be visited.\<close>

definition pqueue_iterator :: "'a pqueue \<Rightarrow> 'a pitem list" where
  "pqueue_iterator pq = pq"

definition pqueue_next :: "'a pitem list \<Rightarrow> 'a pitem option \<times> 'a pitem list" where
  "pqueue_next it = (case it of [] \<Rightarrow> (None, []) | x # xs \<Rightarrow> (Some x, xs))"

fun pqueue_size :: "'a pqueue \<Rightarrow> nat" where
  "pqueue_size [] = 0"
| "pqueue_size (x # xs) = Suc (pqueue_size xs)"

text \<open>Writing through the pointer that \<^verbatim>\<open>pqueue_find\<close> returned.\<close>

definition pqueue_set :: "'a pqueue \<Rightarrow> nat \<Rightarrow> 'a \<Rightarrow> 'a pqueue" where
  "pqueue_set pq i d = pq[i := (pq ! i)\<lparr>item_data := d\<rparr>]"

subsection \<open>Comparison of priorities\<close>

lemma memcmp_be_val:
  "length xs = n \<Longrightarrow> length ys = n \<Longrightarrow>
     (memcmp xs ys n < 0 \<longleftrightarrow> be_val xs < be_val ys) \<and> (memcmp xs ys n = 0 \<longleftrightarrow> xs = ys) \<and>
     (memcmp xs ys n > 0 \<longleftrightarrow> be_val xs > be_val ys)"
proof (induction n arbitrary: xs ys)
  case 0
  then show ?case by simp
next
  case (Suc n)
  obtain x xs' y ys' where e: "xs = x # xs'" "ys = y # ys'" "length xs' = n" "length ys' = n"
    using Suc.prems by (metis length_Suc_conv)
  have lt: "be_val (a # as) < be_val (b # bs)"
    if "a < b" "length as = n" "length bs = n" for a b :: byte and as bs
  proof -
    have "unat a * 256 ^ n + 256 ^ n \<le> unat b * 256 ^ n"
      using that(1) by (metis Suc_leI mult_Suc add.commute mult_le_mono1 word_less_nat_alt)
    then show ?thesis using be_val_less [of as] that(2,3) by (simp add: be_val_Cons)
  qed
  consider "x < y" | "y < x" | "x = y" by (rule linorder_cases)
  then show ?case
  proof cases
    case 1
    then show ?thesis using lt [of x y xs' ys'] e by auto
  next
    case 2
    then show ?thesis using lt [of y x ys' xs'] e by (auto simp: less_le)
  next
    case 3
    then show ?thesis using Suc.IH [OF e(3,4)] e by (simp add: be_val_Cons)
  qed
qed

lemma be_val_inj: "length xs = length ys \<Longrightarrow> be_val xs = be_val ys \<longleftrightarrow> xs = ys"
  using memcmp_be_val [of xs "length ys" ys] by (metis less_irrefl linorder_neqE)

subsection \<open>Invariant and abstraction\<close>

definition prio :: "'a pitem \<Rightarrow> nat" where
  "prio x = be_val (priority x)"

definition pqueue_wf :: "'a pqueue \<Rightarrow> bool" where
  "pqueue_wf pq \<longleftrightarrow> (\<forall>x \<in> set pq. length (priority x) = 8) \<and> sorted_wrt (<) (map prio pq)"

definition pqueue_map :: "'a pqueue \<Rightarrow> nat \<rightharpoonup> 'a" where
  "pqueue_map pq = map_of (map (\<lambda>x. (prio x, item_data x)) pq)"

lemma pqueue_wf_Nil [simp]: "pqueue_wf []"
  by (simp add: pqueue_wf_def)

lemma pqueue_wf_Cons:
  "pqueue_wf (x # pq) \<longleftrightarrow> length (priority x) = 8 \<and> (\<forall>y \<in> set pq. prio x < prio y) \<and> pqueue_wf pq"
  by (auto simp: pqueue_wf_def)

lemma pqueue_map_Nil [simp]: "pqueue_map [] = Map.empty"
  by (simp add: pqueue_map_def)

lemma pqueue_map_Cons: "pqueue_map (x # pq) = (pqueue_map pq)(prio x \<mapsto> item_data x)"
  by (simp add: pqueue_map_def)

lemma dom_pqueue_map: "dom (pqueue_map pq) = prio ` set pq"
  by (simp add: pqueue_map_def dom_map_of_conv_image_fst image_image)

lemma pqueue_map_None: "pqueue_map pq k = None \<longleftrightarrow> k \<notin> prio ` set pq"
  using dom_pqueue_map [of pq] by auto

lemma memcmp_prio:
  assumes "length (priority x) = 8" and "length p = 8"
  shows "memcmp (priority x) p 8 < 0 \<longleftrightarrow> prio x < be_val p" "memcmp (priority x) p 8 = 0 \<longleftrightarrow> prio x = be_val p"
    "memcmp (priority x) p 8 > 0 \<longleftrightarrow> prio x > be_val p"
  using memcmp_be_val [OF assms] be_val_inj [of "priority x" p] assms by (simp_all add: prio_def)

lemma pqueue_insert_set:
  "set (snd (pqueue_insert pq item)) \<subseteq> insert item (set pq)"
  by (induction pq item rule: pqueue_insert.induct) (auto simp: Let_def split: prod.splits)

lemma pqueue_insert_ok:
  assumes "pqueue_wf pq" and "length (priority item) = 8"
  shows "pqueue_wf (snd (pqueue_insert pq item)) \<and>
    pqueue_insert pq item = (if pqueue_map pq (prio item) = None
       then (Some item, snd (pqueue_insert pq item)) else (None, pq)) \<and>
    pqueue_map (snd (pqueue_insert pq item)) = (if pqueue_map pq (prio item) = None
       then (pqueue_map pq)(prio item \<mapsto> item_data item) else pqueue_map pq)"
  using assms
proof (induction pq)
  case Nil
  then show ?case by (simp add: pqueue_map_def pqueue_wf_def)
next
  case (Cons x pq)
  note wf = Cons.prems(1) [unfolded pqueue_wf_Cons]
  note cmp = memcmp_prio [of x "priority item", folded prio_def]
  have IH: "pqueue_wf (snd (pqueue_insert pq item))"
    "pqueue_insert pq item = (if pqueue_map pq (prio item) = None
       then (Some item, snd (pqueue_insert pq item)) else (None, pq))"
    "pqueue_map (snd (pqueue_insert pq item)) = (if pqueue_map pq (prio item) = None
       then (pqueue_map pq)(prio item \<mapsto> item_data item) else pqueue_map pq)"
    using Cons.IH wf Cons.prems(2) by blast+
  consider "prio x > prio item" | "prio x = prio item" | "prio x < prio item" by linarith
  then show ?case
  proof cases
    case 1
    then have "pqueue_map pq (prio item) = None" using wf by (force simp: pqueue_map_None)
    with 1 wf Cons.prems show ?thesis
      by (auto simp: cmp Let_def pqueue_map_Cons pqueue_wf_Cons)
  next
    case 2
    then show ?thesis using wf Cons.prems by (simp add: cmp Let_def pqueue_map_Cons)
  next
    case 3
    then have eq: "pqueue_insert (x # pq) item =
        (fst (pqueue_insert pq item), x # snd (pqueue_insert pq item))"
      using wf Cons.prems cmp(1,3) by (simp add: Let_def case_prod_beta not_less_iff_gr_or_eq)
    have "pqueue_wf (x # snd (pqueue_insert pq item))"
      using IH(1) wf 3 pqueue_insert_set [of pq item] by (auto simp: pqueue_wf_Cons)
    moreover have "fst (pqueue_insert pq item) = (if pqueue_map pq (prio item) = None then Some item else None)"
      by (subst IH(2)) simp
    moreover have "pqueue_map pq (prio item) \<noteq> None \<Longrightarrow> snd (pqueue_insert pq item) = pq"
      by (subst IH(2)) auto
    ultimately show ?thesis using IH(3) 3 unfolding eq by (auto simp: pqueue_map_Cons fun_upd_twist)
  qed
qed

lemma pqueue_find_ok:
  assumes "pqueue_wf pq" and "length p = 8"
  shows "case pqueue_find pq p of
      None \<Rightarrow> pqueue_map pq (be_val p) = None
    | Some i \<Rightarrow> i < length pq \<and> prio (pq ! i) = be_val p \<and> pqueue_map pq (be_val p) = Some (item_data (pq ! i))"
  using assms
proof (induction pq p rule: pqueue_find.induct)
  case (1 p)
  then show ?case by simp
next
  case (2 x p)
  then show ?case by (auto simp: memcmp_prio pqueue_map_Cons pqueue_wf_Cons)
next
  case (3 x y xs p)
  note wf = "3.prems"(1) [unfolded pqueue_wf_Cons [of x]]
  show ?case
  proof (cases "prio x = be_val p")
    case True
    then show ?thesis using wf 3 by (simp add: memcmp_prio pqueue_map_Cons [of x])
  next
    case False
    then have "memcmp (priority x) p 8 \<noteq> 0" using wf 3 by (simp add: memcmp_prio)
    with False 3 wf show ?thesis by (auto simp: pqueue_map_Cons [of x] split: option.splits)
  qed
qed

lemma pqueue_set_ok:
  assumes "pqueue_wf pq" and "i < length pq"
  shows "pqueue_wf (pqueue_set pq i d)"
    and "pqueue_map (pqueue_set pq i d) = (pqueue_map pq)(prio (pq ! i) \<mapsto> d)"
proof -
  have p: "map prio (pqueue_set pq i d) = map prio pq"
    using assms(2) by (intro nth_equalityI) (auto simp: pqueue_set_def nth_list_update prio_def)
  have "map priority (pqueue_set pq i d) = map priority pq"
    using assms(2) by (intro nth_equalityI) (auto simp: pqueue_set_def nth_list_update)
  then have "priority ` set (pqueue_set pq i d) = priority ` set pq" by (metis set_map)
  then have "\<forall>x \<in> set (pqueue_set pq i d). length (priority x) = 8"
    using assms(1) unfolding pqueue_wf_def by (metis (no_types, lifting) imageE imageI)
  with p assms(1) show "pqueue_wf (pqueue_set pq i d)" by (simp add: pqueue_wf_def)
  show "pqueue_map (pqueue_set pq i d) = (pqueue_map pq)(prio (pq ! i) \<mapsto> d)"
    using assms
  proof (induction pq arbitrary: i)
    case (Cons x pq)
    then show ?case
    proof (cases i)
      case 0
      then show ?thesis by (auto simp: pqueue_set_def pqueue_map_Cons prio_def)
    next
      case (Suc j)
      have "prio x \<noteq> prio (pq ! j)" using Cons.prems Suc by (auto simp: pqueue_wf_Cons)
      moreover have "pqueue_map (pqueue_set pq j d) = (pqueue_map pq)(prio (pq ! j) \<mapsto> d)"
        using Cons.prems Suc by (intro Cons.IH) (simp_all add: pqueue_wf_Cons)
      ultimately show ?thesis using Suc
        by (auto simp: pqueue_set_def pqueue_map_Cons fun_eq_iff)
    qed
  qed simp
qed

lemma pqueue_size_ok: "pqueue_wf pq \<Longrightarrow> pqueue_size pq = card (dom (pqueue_map pq))"
proof -
  have "pqueue_size pq = length pq" by (induction pq) simp_all
  moreover assume "pqueue_wf pq"
  then have "distinct (map prio pq)"
    by (simp add: pqueue_wf_def strict_sorted_iff)
  ultimately show ?thesis by (simp add: dom_pqueue_map distinct_card flip: set_map)
qed

lemma pqueue_pop_ok:
  assumes "pqueue_wf pq"
  shows "case pqueue_pop pq of
      (None, pq') \<Rightarrow> pqueue_map pq = Map.empty \<and> pq' = pq
    | (Some x, pq') \<Rightarrow> pqueue_wf pq' \<and> pqueue_map pq (prio x) = Some (item_data x) \<and>
        (\<forall>k \<in> dom (pqueue_map pq). prio x \<le> k) \<and> pqueue_map pq' = (pqueue_map pq)(prio x := None)"
proof (cases pq)
  case (Cons x xs)
  then have "pqueue_map xs (prio x) = None" using assms by (auto simp: pqueue_map_None pqueue_wf_Cons)
  then show ?thesis using Cons assms
    by (auto simp: pqueue_pop_def dom_pqueue_map pqueue_map_Cons pqueue_wf_Cons fun_upd_idem less_imp_le)
qed (simp add: pqueue_pop_def)

subsection \<open>The contract of a queue with unique priorities\<close>

locale keyed_queue =
  fixes ins :: "'q \<Rightarrow> 'i \<Rightarrow> 'i option \<times> 'q" and find_key :: "'q \<Rightarrow> 'k \<Rightarrow> 'p option"
    and update :: "'q \<Rightarrow> 'p \<Rightarrow> 'a \<Rightarrow> 'q" and del_min :: "'q \<Rightarrow> 'i option \<times> 'q"
    and content :: "'q \<Rightarrow> 'p \<Rightarrow> 'a" and item_key :: "'i \<Rightarrow> nat" and key_val :: "'k \<Rightarrow> nat"
    and item_val :: "'i \<Rightarrow> 'a" and invar :: "'q \<Rightarrow> bool" and good_item :: "'i \<Rightarrow> bool" and good_key :: "'k \<Rightarrow> bool"
    and entries :: "'q \<Rightarrow> nat \<rightharpoonup> 'a"
  assumes invar_ins: "invar q \<Longrightarrow> good_item i \<Longrightarrow> invar (snd (ins q i))"
    and ins_new: "invar q \<Longrightarrow> good_item i \<Longrightarrow> entries q (item_key i) = None \<Longrightarrow>
      fst (ins q i) = Some i \<and> entries (snd (ins q i)) = (entries q)(item_key i \<mapsto> item_val i)"
    and ins_dup: "invar q \<Longrightarrow> good_item i \<Longrightarrow> entries q (item_key i) \<noteq> None \<Longrightarrow> ins q i = (None, q)"
    and find_none: "invar q \<Longrightarrow> good_key k \<Longrightarrow> find_key q k = None \<longleftrightarrow> entries q (key_val k) = None"
    and find_some: "invar q \<Longrightarrow> good_key k \<Longrightarrow> find_key q k = Some p \<Longrightarrow>
      entries q (key_val k) = Some (content q p) \<and> invar (update q p d) \<and>
      entries (update q p d) = (entries q)(key_val k \<mapsto> d)"
    and del_min_none: "invar q \<Longrightarrow> del_min q = (None, q') \<Longrightarrow> entries q = Map.empty \<and> q' = q"
    and del_min_some: "invar q \<Longrightarrow> del_min q = (Some i, q') \<Longrightarrow>
      invar q' \<and> entries q (item_key i) = Some (item_val i) \<and> (\<forall>k \<in> dom (entries q). item_key i \<le> k) \<and>
      entries q' = (entries q)(item_key i := None)"
begin

lemma ins_all:
  assumes "invar q" and "\<And>i. i \<in> set is \<Longrightarrow> good_item i" and "distinct (map item_key is)"
    and "\<And>i. i \<in> set is \<Longrightarrow> entries q (item_key i) = None"
  shows "invar (foldl (\<lambda>q i. snd (ins q i)) q is) \<and>
    entries (foldl (\<lambda>q i. snd (ins q i)) q is) = entries q ++ map_of (map (\<lambda>i. (item_key i, item_val i)) is)"
  using assms
proof (induction "is" arbitrary: q)
  case (Cons i "is")
  note new = ins_new [of q i]
  have "invar (foldl (\<lambda>q i. snd (ins q i)) (snd (ins q i)) is) \<and>
    entries (foldl (\<lambda>q i. snd (ins q i)) (snd (ins q i)) is) =
      entries (snd (ins q i)) ++ map_of (map (\<lambda>i. (item_key i, item_val i)) is)"
    using Cons.prems new by (intro Cons.IH) (auto intro: invar_ins simp: image_iff)
  moreover have "item_key i \<notin> dom (map_of (map (\<lambda>i. (item_key i, item_val i)) is))"
    using Cons.prems(3) by (auto simp: dom_map_of_conv_image_fst image_iff)
  ultimately show ?case using new Cons.prems
    by (simp add: map_add_upd_left fun_upd_def map_add_def) (auto simp: fun_eq_iff split: option.splits)
qed simp

text \<open>The smallest entry that was inserted is the next one handed out.\<close>

lemma del_min_least:
  assumes "invar q" and "good_item i" and "\<And>k. k \<in> dom (entries q) \<Longrightarrow> item_key i < k"
    and "del_min (snd (ins q i)) = (Some j, q')"
  shows "item_key j = item_key i \<and> item_val j = item_val i \<and> entries q' = entries q"
proof -
  have none: "entries q (item_key i) = None" using assms(3) by (metis domIff less_irrefl)
  note new = ins_new [OF assms(1,2) none]
  note d = del_min_some [OF invar_ins [OF assms(1,2)] assms(4)]
  have "item_key j \<le> item_key i" using d new by auto
  moreover have "item_key j \<in> insert (item_key i) (dom (entries q))"
    using d new by (metis domI dom_fun_upd option.distinct(1))
  ultimately have "item_key j = item_key i" using assms(3) by (metis insertE leD)
  then show ?thesis using d new none by (auto simp: fun_upd_idem)
qed

end

interpretation pq: keyed_queue pqueue_insert pqueue_find pqueue_set pqueue_pop "\<lambda>q i. item_data (q ! i)"
  prio be_val item_data pqueue_wf "\<lambda>i. length (priority i) = 8" "\<lambda>k. length k = 8" pqueue_map
proof (unfold_locales, goal_cases)
  case (1 q i)
  then show ?case using pqueue_insert_ok by blast
next
  case (2 q i)
  then show ?case using pqueue_insert_ok [of q i] by (metis fst_conv)
next
  case (3 q i)
  then show ?case using pqueue_insert_ok [of q i] by presburger
next
  case (4 q k)
  then show ?case using pqueue_find_ok [of q k] by (auto split: option.splits)
next
  case (5 q k p d)
  then show ?case using pqueue_find_ok [of q k] pqueue_set_ok [of q p d] by simp
next
  case (6 q q')
  then show ?case using pqueue_pop_ok [of q] by simp
next
  case (7 q i q')
  then show ?case using pqueue_pop_ok [of q] by simp
qed

subsection \<open>Order of iteration\<close>

fun pqueue_visit :: "nat \<Rightarrow> 'a pitem list \<Rightarrow> 'a pitem list" where
  "pqueue_visit 0 it = []"
| "pqueue_visit (Suc n) it =
     (case pqueue_next it of (None, _) \<Rightarrow> [] | (Some x, it) \<Rightarrow> x # pqueue_visit n it)"

lemma pqueue_visit_all: "length it \<le> n \<Longrightarrow> pqueue_visit n it = it"
  by (induction n arbitrary: it) (auto simp: pqueue_next_def split: list.splits)

lemma pqueue_insert_mset:
  "fst (pqueue_insert pq i) \<noteq> None \<Longrightarrow> set (snd (pqueue_insert pq i)) = insert i (set pq)"
  by (induction pq i rule: pqueue_insert.induct) (auto simp: Let_def split: prod.splits if_splits)

lemma pqueue_insert_all_set:
  assumes "pqueue_wf q" and "\<And>i. i \<in> set is \<Longrightarrow> length (priority i) = 8" and "distinct (map prio is)"
    and "\<And>i. i \<in> set is \<Longrightarrow> pqueue_map q (prio i) = None"
  shows "set (foldl (\<lambda>q i. snd (pqueue_insert q i)) q is) = set q \<union> set is"
  using assms
proof (induction "is" arbitrary: q)
  case (Cons i "is")
  note new = pq.ins_new [of q i]
  have "set (foldl (\<lambda>q i. snd (pqueue_insert q i)) (snd (pqueue_insert q i)) is) =
      set (snd (pqueue_insert q i)) \<union> set is"
    using Cons.prems new by (intro Cons.IH) (auto intro: pq.invar_ins simp: image_iff)
  then show ?case using pqueue_insert_mset [of q i] new Cons.prems by auto
qed simp

text \<open>
  A priority queue hands out its items in the order of their priorities whatever the order of
  insertion: inserting items with distinct priorities one by one into an empty queue and following
  the iterator visits exactly these items, sorted by priority, and the size is their number.
\<close>

theorem pqueue_sorts:
  assumes "\<And>i. i \<in> set is \<Longrightarrow> length (priority i) = 8" and "distinct (map prio is)"
  shows "pqueue_visit (length is) (pqueue_iterator (foldl (\<lambda>q i. snd (pqueue_insert q i)) [] is)) =
      sort_key prio is \<and>
    pqueue_size (foldl (\<lambda>q i. snd (pqueue_insert q i)) [] is) = length is"
proof -
  define q where "q = foldl (\<lambda>q i. snd (pqueue_insert q i)) [] is"
  have wf: "pqueue_wf q" using pq.ins_all [of "[]" "is"] assms by (simp add: q_def)
  have st: "set q = set is" using pqueue_insert_all_set [of "[]" "is"] assms by (simp add: q_def)
  have d: "distinct (map prio q)" and so: "sorted (map prio q)"
    using wf by (simp_all add: pqueue_wf_def strict_sorted_iff)
  have len: "length q = length is"
    using d assms(2) st by (metis distinct_card length_map set_map)
  have "q = sort_key prio is"
  proof (rule map_sorted_distinct_set_unique [of prio])
    show "inj_on prio (set q \<union> set (sort_key prio is))" using d st by (simp add: distinct_map)
    show "distinct (map prio (sort_key prio is))"
      using assms(2) by (simp add: distinct_map)
  qed (use so d st in simp_all)
  moreover have "pqueue_size q = length q" for q :: "'a pqueue" by (induction q) simp_all
  ultimately show ?thesis using len by (simp add: pqueue_visit_all pqueue_iterator_def flip: q_def)
qed

theorem pqueue_sorts_witness:
  "pqueue_visit 2 (foldl (\<lambda>q i. snd (pqueue_insert q i)) []
      [\<lparr>priority = [0, 0, 0, 0, 0, 0, 1, 0], item_data = True\<rparr>, \<lparr>priority = [0, 0, 0, 0, 0, 0, 0, 7], item_data = False\<rparr>]) =
    [\<lparr>priority = [0, 0, 0, 0, 0, 0, 0, 7], item_data = False\<rparr>, \<lparr>priority = [0, 0, 0, 0, 0, 0, 1, 0], item_data = True\<rparr>]"
proof -
  let ?a = "\<lparr>priority = [0, 0, 0, 0, 0, 0, 1, 0], item_data = True\<rparr>"
    and ?b = "\<lparr>priority = [0, 0, 0, 0, 0, 0, 0, 7], item_data = False\<rparr>"
  have p: "prio ?a = 256" "prio ?b = 7" by (simp_all add: prio_def be_val_def)
  have l: "length [?a, ?b] = 2" and s: "sort_key prio [?a, ?b] = [?b, ?a]" using p by simp_all
  have "pqueue_visit (length [?a, ?b]) (pqueue_iterator (foldl (\<lambda>q i. snd (pqueue_insert q i)) [] [?a, ?b])) =
      sort_key prio [?a, ?b]"
    by (rule conjunct1 [OF pqueue_sorts]) (use p in auto)
  then show ?thesis unfolding pqueue_iterator_def l s .
qed

end
