(* ===== verification/Dtls_Frag.thy ===== *)
theory Dtls_Frag
  imports Pqueue Buffer
begin

unbundle bit_operations_syntax

section \<open>DTLS handshake fragments\<close>

text \<open>
  The data of DTLS handshake fragmentation: the message header of \<^verbatim>\<open>ssl/ssl_local.h\<close> with its wire
  format, and the reassembly bitmask of \<^verbatim>\<open>ssl/statem/statem_dtls.c\<close>, one bit for every byte of the
  message, with the macros that mark a range and test for completeness.

  The two central lemmas read the bitmask as a set of offsets: marking adds exactly the offsets of
  the range, and the completeness test holds exactly when every offset of the message is marked.
\<close>

subsection \<open>Headers\<close>

text \<open>The member \<open>saved_retransmit_state\<close> is \<open>None\<close> where the source has the all-zero structure.\<close>

record 'r hm_header =
  hm_type :: byte
  msg_len :: nat
  hm_seq :: nat
  frag_off :: nat
  frag_len :: nat
  is_ccs :: bool
  saved_retransmit_state :: "'r option"

record 'r hm_fragment =
  msg_header :: "'r hm_header"
  fragment :: "byte list"
  reassembly :: "byte list option"

definition hm_header_zero :: "'r hm_header" where
  "hm_header_zero = \<lparr>hm_type = 0, msg_len = 0, hm_seq = 0, frag_off = 0, frag_len = 0, is_ccs = False,
                     saved_retransmit_state = None\<rparr>"

definition n2s :: "byte list \<Rightarrow> nat" where
  "n2s c = unat (push_bit 8 (ucast (c ! 0) :: u32) OR ucast (c ! 1))"

definition s2n :: "nat \<Rightarrow> byte list" where
  "s2n s = [of_nat (drop_bit 8 s AND 0xff), of_nat (s AND 0xff)]"

definition n2l3 :: "byte list \<Rightarrow> nat" where
  "n2l3 c = unat (push_bit 16 (ucast (c ! 0) :: u64) OR push_bit 8 (ucast (c ! 1)) OR ucast (c ! 2))"

definition l2n3 :: "nat \<Rightarrow> byte list" where
  "l2n3 l = [of_nat (drop_bit 16 l AND 0xff), of_nat (drop_bit 8 l AND 0xff), of_nat (l AND 0xff)]"

definition dtls1_write_message_header :: "'r hm_header \<Rightarrow> byte list" where
  "dtls1_write_message_header h =
     [hm_type h] @ l2n3 (msg_len h) @ s2n (hm_seq h) @ l2n3 (frag_off h) @ l2n3 (frag_len h)"

definition dtls1_get_message_header :: "byte list \<Rightarrow> 'r hm_header" where
  "dtls1_get_message_header d =
     hm_header_zero\<lparr>hm_type := d ! 0, msg_len := n2l3 (drop 1 d), hm_seq := n2s (drop 4 d),
                    frag_off := n2l3 (drop 6 d), frag_len := n2l3 (drop 9 d)\<rparr>"

lemma n2s_be_val: "n2s (a # b # r) = be_val [a, b]"
  using unat_foldl_bytes [of "[a, b]", where 'a = 32] by (simp add: n2s_def)

lemma n2l3_be_val: "n2l3 (a # b # c # r) = be_val [a, b, c]"
  using unat_foldl_bytes [of "[a, b, c]", where 'a = 64]
  by (simp add: n2l3_def push_bit_or or.assoc)

lemma of_nat_low_byte: "(of_nat (n AND 0xff) :: byte) = of_nat n"
proof -
  have "n AND 0xff = n mod 256" using take_bit_eq_mask [of 8 n] by (simp add: take_bit_eq_mod mask_eq_exp_minus_1)
  then show ?thesis by (simp add: word_of_nat_eq_iff take_bit_eq_mod)
qed

lemma s2n_be_bytes: "s2n v = be_bytes 2 v"
  by (simp add: s2n_def of_nat_low_byte drop_bit_eq_div)

lemma l2n3_be_bytes: "l2n3 v = be_bytes 3 v"
  by (simp add: l2n3_def of_nat_low_byte drop_bit_eq_div flip: div_mult2_eq)

lemma n2l3_l2n3 [simp]: "n2l3 (l2n3 v @ r) = v mod 2 ^ 24"
proof -
  obtain a b c where e: "l2n3 v = [a, b, c]" by (simp add: l2n3_def)
  have "n2l3 (l2n3 v @ r) = be_val (l2n3 v)" using n2l3_be_val [of a b c r] by (simp add: e)
  then show ?thesis by (simp add: l2n3_be_bytes del: be_bytes_numeral)
qed

lemma n2s_s2n [simp]: "n2s (s2n v @ r) = v mod 2 ^ 16"
proof -
  obtain a b where e: "s2n v = [a, b]" by (simp add: s2n_def)
  have "n2s (s2n v @ r) = be_val (s2n v)" using n2s_be_val [of a b r] by (simp add: e)
  then show ?thesis by (simp add: s2n_be_bytes del: be_bytes_numeral)
qed

lemma length_l2n3 [simp]: "length (l2n3 v) = 3" and length_s2n [simp]: "length (s2n v) = 2"
  by (simp_all add: l2n3_def s2n_def)

lemma length_write_message_header [simp]: "length (dtls1_write_message_header h) = 12"
  by (simp add: dtls1_write_message_header_def)

definition hm_header_ok :: "'r hm_header \<Rightarrow> bool" where
  "hm_header_ok h \<longleftrightarrow>
     msg_len h < 2 ^ 24 \<and> hm_seq h < 2 ^ 16 \<and> frag_off h < 2 ^ 24 \<and> frag_len h < 2 ^ 24"

lemma get_write_message_header:
  assumes "hm_header_ok h"
  shows "dtls1_get_message_header (dtls1_write_message_header h @ r) =
    h\<lparr>is_ccs := False, saved_retransmit_state := None\<rparr>"
proof -
  let ?w = "dtls1_write_message_header h @ r"
  have d: "drop 1 ?w = l2n3 (msg_len h) @ s2n (hm_seq h) @ l2n3 (frag_off h) @ l2n3 (frag_len h) @ r"
    by (simp add: dtls1_write_message_header_def)
  have "drop 4 ?w = drop 3 (drop 1 ?w)" "drop 6 ?w = drop 5 (drop 1 ?w)" "drop 9 ?w = drop 8 (drop 1 ?w)"
    by simp_all
  then have "drop 4 ?w = s2n (hm_seq h) @ l2n3 (frag_off h) @ l2n3 (frag_len h) @ r"
    "drop 6 ?w = l2n3 (frag_off h) @ l2n3 (frag_len h) @ r" "drop 9 ?w = l2n3 (frag_len h) @ r"
    unfolding d by simp_all
  moreover have "?w ! 0 = hm_type h" by (simp add: dtls1_write_message_header_def)
  ultimately show ?thesis using assms unfolding dtls1_get_message_header_def d
    by (simp add: hm_header_ok_def hm_header_zero_def)
qed

subsection \<open>The reassembly bitmask\<close>

definition RSMBLY_BITMASK_SIZE :: "nat \<Rightarrow> nat" where
  "RSMBLY_BITMASK_SIZE n = (n + 7) div 8"

definition bitmask_start_values :: "byte list" where
  "bitmask_start_values = [0xff, 0xfe, 0xfc, 0xf8, 0xf0, 0xe0, 0xc0, 0x80]"

definition bitmask_end_values :: "byte list" where
  "bitmask_end_values = [0xff, 0x01, 0x03, 0x07, 0x0f, 0x1f, 0x3f, 0x7f]"

definition or_byte :: "nat \<Rightarrow> byte \<Rightarrow> byte list \<Rightarrow> byte list" where
  "or_byte i v bm = bm[i := bm ! i OR v]"

definition RSMBLY_BITMASK_MARK :: "byte list \<Rightarrow> nat \<Rightarrow> nat \<Rightarrow> byte list" where
  "RSMBLY_BITMASK_MARK bm start fin =
     (if fin - start \<le> 8 then
        foldl (\<lambda>bm ii. or_byte (ii div 8) (push_bit (ii mod 8) 1) bm) bm [start..<fin]
      else
        let bm = or_byte (start div 8) (bitmask_start_values ! (start mod 8)) bm;
            bm = foldl (\<lambda>bm ii. bm[ii := 0xff]) bm [start div 8 + 1..<(fin - 1) div 8]
        in or_byte ((fin - 1) div 8) (bitmask_end_values ! (fin mod 8)) bm)"

definition RSMBLY_BITMASK_IS_COMPLETE :: "byte list \<Rightarrow> nat \<Rightarrow> bool" where
  "RSMBLY_BITMASK_IS_COMPLETE bm n \<longleftrightarrow>
     bm ! ((n - 1) div 8) = bitmask_end_values ! (n mod 8) \<and>
     list_all (\<lambda>ii. bm ! ii = 0xff) (rev [0..<(n - 1) div 8])"

definition marked :: "byte list \<Rightarrow> nat \<Rightarrow> bool" where
  "marked bm i \<longleftrightarrow> i < 8 * length bm \<and> bit (bm ! (i div 8)) (i mod 8)"

lemma bit_start_values: "k < 8 \<Longrightarrow> j < 8 \<Longrightarrow> bit (bitmask_start_values ! k) j \<longleftrightarrow> k \<le> j"
proof -
  have "\<forall>k \<in> set [0..<8]. \<forall>j \<in> set [0..<8]. bit (bitmask_start_values ! k) j \<longleftrightarrow> k \<le> j"
    by (simp add: bitmask_start_values_def upt_rec numeral_nat)
  then show "k < 8 \<Longrightarrow> j < 8 \<Longrightarrow> ?thesis" by simp
qed

lemma bit_end_values: "k < 8 \<Longrightarrow> j < 8 \<Longrightarrow> bit (bitmask_end_values ! k) j \<longleftrightarrow> k = 0 \<or> j < k"
proof -
  have "\<forall>k \<in> set [0..<8]. \<forall>j \<in> set [0..<8]. bit (bitmask_end_values ! k) j \<longleftrightarrow> k = 0 \<or> j < k"
    by (simp add: bitmask_end_values_def upt_rec numeral_nat)
  then show "k < 8 \<Longrightarrow> j < 8 \<Longrightarrow> ?thesis" by simp
qed

lemma bit_0xff: "bit (0xff :: byte) j \<longleftrightarrow> j < 8"
proof -
  have "(0xff :: byte) = - 1" by simp
  then show ?thesis by (simp only: bit_minus_1_iff) simp
qed

lemma length_or_byte [simp]: "length (or_byte i v bm) = length bm"
  by (simp add: or_byte_def)

lemma marked_or_byte:
  "i < length bm \<Longrightarrow> marked (or_byte i v bm) j \<longleftrightarrow> marked bm j \<or> (j div 8 = i \<and> bit v (j mod 8))"
  by (auto simp: marked_def or_byte_def nth_list_update bit_or_iff)

lemma marked_fill:
  "b \<le> length bm \<Longrightarrow>
    length (foldl (\<lambda>bm ii. bm[ii := 0xff]) bm [a..<b]) = length bm \<and>
    (marked (foldl (\<lambda>bm ii. bm[ii := 0xff]) bm [a..<b]) j \<longleftrightarrow> marked bm j \<or> (a \<le> j div 8 \<and> j div 8 < b))"
proof (induction b)
  case (Suc b)
  show ?case
  proof (cases "a \<le> b")
    case True
    define bm' where "bm' = foldl (\<lambda>bm ii. bm[ii := 0xff]) bm [a..<b]"
    have IH: "length bm' = length bm" "marked bm' j \<longleftrightarrow> marked bm j \<or> (a \<le> j div 8 \<and> j div 8 < b)"
      using Suc by (simp_all add: bm'_def)
    have "marked (bm'[b := 0xff]) j \<longleftrightarrow> marked bm' j \<or> j div 8 = b"
      using Suc.prems IH(1) bit_0xff [of "j mod 8"] by (auto simp: marked_def nth_list_update)
    then show ?thesis using True IH by (auto simp flip: bm'_def simp: less_Suc_eq)
  qed auto
qed (simp add: marked_def)

lemma marked_bits:
  "b \<le> 8 * length bm \<Longrightarrow>
    length (foldl (\<lambda>bm ii. or_byte (ii div 8) (push_bit (ii mod 8) 1) bm) bm [a..<b]) = length bm \<and>
    (marked (foldl (\<lambda>bm ii. or_byte (ii div 8) (push_bit (ii mod 8) 1) bm) bm [a..<b]) j \<longleftrightarrow>
      marked bm j \<or> (a \<le> j \<and> j < b))"
proof (induction b)
  case (Suc b)
  show ?case
  proof (cases "a \<le> b")
    case True
    define bm' where "bm' = foldl (\<lambda>bm ii. or_byte (ii div 8) (push_bit (ii mod 8) 1) bm) bm [a..<b]"
    have IH: "length bm' = length bm" "marked bm' j \<longleftrightarrow> marked bm j \<or> (a \<le> j \<and> j < b)"
      using Suc by (simp_all add: bm'_def)
    have "bit (push_bit (b mod 8) (1 :: byte)) (j mod 8) \<longleftrightarrow> j mod 8 = b mod 8"
      by (simp add: bit_push_bit_iff bit_1_iff del: push_bit_of_1) linarith
    moreover have "j div 8 = b div 8 \<and> j mod 8 = b mod 8 \<longleftrightarrow> j = b"
      by (metis div_mult_mod_eq)
    ultimately have "marked (or_byte (b div 8) (push_bit (b mod 8) 1) bm') j \<longleftrightarrow> marked bm' j \<or> j = b"
      using Suc.prems IH(1) by (subst marked_or_byte) auto
    then show ?thesis using True IH
      by (auto simp flip: bm'_def simp: less_Suc_eq simp del: push_bit_of_1)
  qed auto
qed (simp add: marked_def)

lemma mod_8_pred: "0 < n \<Longrightarrow> n mod 8 = 0 \<and> (n - 1) mod 8 = 7 \<or> n mod 8 = Suc ((n - 1) mod 8)" for n :: nat
  by (cases n) (simp_all add: mod_Suc)

lemma byte_range:
  fixes a r c d x y :: nat
  assumes "a < c" and "r < 8" and "d < 8" and "y < 8"
  shows "(x = a \<and> r \<le> y) \<or> (a + 1 \<le> x \<and> x < c) \<or> (x = c \<and> y \<le> d) \<longleftrightarrow>
    8 * a + r \<le> 8 * x + y \<and> 8 * x + y < 8 * c + d + 1"
  using assms by (cases x a rule: linorder_cases; cases x c rule: linorder_cases) auto

lemma bitmask_mark:
  assumes "start < fin" and "fin \<le> 8 * length bm"
  shows "length (RSMBLY_BITMASK_MARK bm start fin) = length bm"
    and "marked (RSMBLY_BITMASK_MARK bm start fin) j \<longleftrightarrow> marked bm j \<or> (start \<le> j \<and> j < fin)"
proof -
  have "length (RSMBLY_BITMASK_MARK bm start fin) = length bm \<and>
    (marked (RSMBLY_BITMASK_MARK bm start fin) j \<longleftrightarrow> marked bm j \<or> (start \<le> j \<and> j < fin))"
  proof (cases "fin - start \<le> 8")
    case True
    then show ?thesis using marked_bits [OF assms(2)] by (simp add: RSMBLY_BITMASK_MARK_def)
  next
    case False
    define b1 where "b1 = or_byte (start div 8) (bitmask_start_values ! (start mod 8)) bm"
    define b2 where "b2 = foldl (\<lambda>bm ii. bm[ii := 0xff]) b1 [start div 8 + 1..<(fin - 1) div 8]"
    have lt: "start div 8 < (fin - 1) div 8" "(fin - 1) div 8 < length bm" using False assms by linarith+
    have m1: "length b1 = length bm" "marked b1 j \<longleftrightarrow> marked bm j \<or> (j div 8 = start div 8 \<and> start mod 8 \<le> j mod 8)"
      using lt by (auto simp: b1_def marked_or_byte bit_start_values)
    have m2: "length b2 = length bm" "marked b2 j \<longleftrightarrow> marked b1 j \<or> (start div 8 + 1 \<le> j div 8 \<and> j div 8 < (fin - 1) div 8)"
      using marked_fill [of "(fin - 1) div 8" b1 "start div 8 + 1" j] lt m1(1) by (simp_all add: b2_def)
    have e: "RSMBLY_BITMASK_MARK bm start fin = or_byte ((fin - 1) div 8) (bitmask_end_values ! (fin mod 8)) b2"
      using False by (simp add: RSMBLY_BITMASK_MARK_def Let_def b1_def b2_def)
    have "marked (RSMBLY_BITMASK_MARK bm start fin) j \<longleftrightarrow>
        marked b2 j \<or> (j div 8 = (fin - 1) div 8 \<and> (fin mod 8 = 0 \<or> j mod 8 < fin mod 8))"
      using lt m2(1) unfolding e by (simp add: marked_or_byte bit_end_values)
    also have "\<dots> \<longleftrightarrow> marked bm j \<or> (start \<le> j \<and> j < fin)"
    proof -
      have "fin mod 8 = 0 \<or> j mod 8 < fin mod 8 \<longleftrightarrow> j mod 8 \<le> (fin - 1) mod 8"
        using mod_8_pred [of fin] assms(1) mod_less_divisor [of 8 j] by linarith
      moreover have "start = 8 * (start div 8) + start mod 8" "j = 8 * (j div 8) + j mod 8"
        "fin = 8 * ((fin - 1) div 8) + (fin - 1) mod 8 + 1" using assms(1) by simp_all
      ultimately have "(j div 8 = start div 8 \<and> start mod 8 \<le> j mod 8) \<or>
          (start div 8 + 1 \<le> j div 8 \<and> j div 8 < (fin - 1) div 8) \<or>
          (j div 8 = (fin - 1) div 8 \<and> (fin mod 8 = 0 \<or> j mod 8 < fin mod 8)) \<longleftrightarrow> start \<le> j \<and> j < fin"
        using byte_range [OF lt(1), of "start mod 8" "(fin - 1) mod 8" "j mod 8" "j div 8"] by simp
      then show ?thesis unfolding m2(2) m1(2) by (simp only: disj_assoc)
    qed
    finally show ?thesis using m2(1) by (simp add: e)
  qed
  then show "length (RSMBLY_BITMASK_MARK bm start fin) = length bm"
    "marked (RSMBLY_BITMASK_MARK bm start fin) j \<longleftrightarrow> marked bm j \<or> (start \<le> j \<and> j < fin)" by simp_all
qed

definition bitmask_ok :: "byte list \<Rightarrow> nat \<Rightarrow> bool" where
  "bitmask_ok bm n \<longleftrightarrow> length bm = RSMBLY_BITMASK_SIZE n \<and> (\<forall>i. marked bm i \<longrightarrow> i < n)"

lemma bitmask_complete:
  assumes "bitmask_ok bm n" and "0 < n"
  shows "RSMBLY_BITMASK_IS_COMPLETE bm n \<longleftrightarrow> (\<forall>i < n. marked bm i)"
proof -
  have len: "length bm = Suc ((n - 1) div 8)" and top: "\<And>i. marked bm i \<Longrightarrow> i < n"
    using assms by (auto simp: bitmask_ok_def RSMBLY_BITMASK_SIZE_def)
  define q where "q = (n - 1) div 8"
  have byte_eq: "bm ! k = v \<longleftrightarrow> (\<forall>j < 8. marked bm (8 * k + j) \<longleftrightarrow> bit v j)" if "k \<le> q" for k v
    using that by (auto simp: marked_def len q_def intro!: bit_word_eqI)
  have low: "bm ! k = 0xff \<longleftrightarrow> (\<forall>j < 8. marked bm (8 * k + j))" if "k \<le> q" for k
    using byte_eq [OF that] bit_0xff by metis
  have high: "bm ! q = bitmask_end_values ! (n mod 8) \<longleftrightarrow> (\<forall>j < 8. 8 * q + j < n \<longrightarrow> marked bm (8 * q + j))"
  proof -
    have "bit (bitmask_end_values ! (n mod 8)) j \<longleftrightarrow> 8 * q + j < n" if "j < 8" for j
    proof -
      have "n = 8 * q + (n - 1) mod 8 + 1" using assms(2) by (simp add: q_def)
      then show ?thesis using that mod_8_pred [OF assms(2)] bit_end_values [of "n mod 8" j] by simp linarith
    qed
    then show ?thesis using byte_eq [of q] top by auto
  qed
  have "RSMBLY_BITMASK_IS_COMPLETE bm n \<longleftrightarrow>
      (\<forall>j < 8. 8 * q + j < n \<longrightarrow> marked bm (8 * q + j)) \<and> (\<forall>k < q. \<forall>j < 8. marked bm (8 * k + j))"
    unfolding RSMBLY_BITMASK_IS_COMPLETE_def q_def [symmetric] high
    using low [OF less_imp_le] by (auto simp: list_all_iff simp del: upt_conv_Nil)
  also have "\<dots> \<longleftrightarrow> (\<forall>i < n. marked bm i)"
  proof (intro iffI allI impI)
    fix i assume h: "(\<forall>j < 8. 8 * q + j < n \<longrightarrow> marked bm (8 * q + j)) \<and> (\<forall>k < q. \<forall>j < 8. marked bm (8 * k + j))"
      and "i < n"
    then have "i div 8 \<le> q" unfolding q_def by simp
    then show "marked bm i"
      using h \<open>i < n\<close> by (metis le_neq_implies_less mod_less_divisor mult_div_mod_eq zero_less_numeral)
  qed (use assms(2) in \<open>auto simp: q_def\<close>)
  finally show ?thesis .
qed

lemma bitmask_ok_new: "bitmask_ok (replicate (RSMBLY_BITMASK_SIZE n) 0) n"
  by (auto simp: bitmask_ok_def marked_def)

lemma bitmask_ok_mark:
  assumes "bitmask_ok bm n" and "start < fin" and "fin \<le> n"
  shows "bitmask_ok (RSMBLY_BITMASK_MARK bm start fin) n"
    and "marked (RSMBLY_BITMASK_MARK bm start fin) j \<longleftrightarrow> marked bm j \<or> (start \<le> j \<and> j < fin)"
proof -
  have "fin \<le> 8 * length bm" using assms by (auto simp: bitmask_ok_def RSMBLY_BITMASK_SIZE_def)
  note m = bitmask_mark [OF assms(2) this]
  then show "bitmask_ok (RSMBLY_BITMASK_MARK bm start fin) n" using assms by (auto simp: bitmask_ok_def)
  show "marked (RSMBLY_BITMASK_MARK bm start fin) j \<longleftrightarrow> marked bm j \<or> (start \<le> j \<and> j < fin)" by (rule m)
qed

end
