(* ===== verification/Statem_Base.thy ===== *)
theory Statem_Base
  imports Buffer Alerts Dtls_Frag
begin

unbundle bit_operations_syntax

section \<open>State of a TLS connection and its handshake state machine\<close>

text \<open>
  The data of \<^verbatim>\<open>ssl/statem/statem.h\<close>, \<^verbatim>\<open>ssl/statem/statem_local.h\<close> and of the members of the
  \<^verbatim>\<open>SSL\<close> object that the handshake state machine reads or writes (\<^verbatim>\<open>ssl/ssl_local.h\<close>), the alert
  codes, \<^verbatim>\<open>ossl_statem_fatal\<close>, and the helpers of \<^verbatim>\<open>statem_lib.c\<close>, \<^verbatim>\<open>s3_msg.c\<close> and \<^verbatim>\<open>s3_lib.c\<close>
  that the state machine calls.

  What the machine calls outside these files (the record layer, the crypto, the construction and
  processing of the individual messages, the application's callbacks) is a parameter: a record
  \<open>env\<close> of functions on the connection.  The component \<open>world\<close> of the connection stands for
  everything those functions keep for themselves.

  The model fixes the configuration of the package's own build: compression and SCTP are disabled,
  next-protocol negotiation, PSK and SRP are enabled.
\<close>

subsection \<open>Enumerations\<close>

datatype ossl_handshake_state =
    TLS_ST_BEFORE | TLS_ST_OK
  | DTLS_ST_CR_HELLO_VERIFY_REQUEST | TLS_ST_CR_SRVR_HELLO | TLS_ST_CR_CERT
  | TLS_ST_CR_CERT_STATUS | TLS_ST_CR_KEY_EXCH | TLS_ST_CR_CERT_REQ | TLS_ST_CR_SRVR_DONE
  | TLS_ST_CR_SESSION_TICKET | TLS_ST_CR_CHANGE | TLS_ST_CR_FINISHED
  | TLS_ST_CW_CLNT_HELLO | TLS_ST_CW_CERT | TLS_ST_CW_KEY_EXCH | TLS_ST_CW_CERT_VRFY
  | TLS_ST_CW_CHANGE | TLS_ST_CW_NEXT_PROTO | TLS_ST_CW_FINISHED
  | TLS_ST_SW_HELLO_REQ | TLS_ST_SR_CLNT_HELLO | DTLS_ST_SW_HELLO_VERIFY_REQUEST
  | TLS_ST_SW_SRVR_HELLO | TLS_ST_SW_CERT | TLS_ST_SW_KEY_EXCH | TLS_ST_SW_CERT_REQ
  | TLS_ST_SW_SRVR_DONE | TLS_ST_SR_CERT | TLS_ST_SR_KEY_EXCH | TLS_ST_SR_CERT_VRFY
  | TLS_ST_SR_NEXT_PROTO | TLS_ST_SR_CHANGE | TLS_ST_SR_FINISHED | TLS_ST_SW_SESSION_TICKET
  | TLS_ST_SW_CERT_STATUS | TLS_ST_SW_CHANGE | TLS_ST_SW_FINISHED
  | TLS_ST_SW_ENCRYPTED_EXTENSIONS | TLS_ST_CR_ENCRYPTED_EXTENSIONS | TLS_ST_CR_CERT_VRFY
  | TLS_ST_SW_CERT_VRFY | TLS_ST_CR_HELLO_REQ | TLS_ST_SW_KEY_UPDATE | TLS_ST_CW_KEY_UPDATE
  | TLS_ST_SR_KEY_UPDATE | TLS_ST_CR_KEY_UPDATE | TLS_ST_EARLY_DATA
  | TLS_ST_PENDING_EARLY_DATA_END | TLS_ST_CW_END_OF_EARLY_DATA | TLS_ST_SR_END_OF_EARLY_DATA

datatype work_state =
  WORK_ERROR | WORK_FINISHED_STOP | WORK_FINISHED_CONTINUE | WORK_MORE_A | WORK_MORE_B | WORK_MORE_C

datatype write_tran = WRITE_TRAN_ERROR | WRITE_TRAN_CONTINUE | WRITE_TRAN_FINISHED

datatype msg_flow_state =
  MSG_FLOW_UNINITED | MSG_FLOW_ERROR | MSG_FLOW_READING | MSG_FLOW_WRITING | MSG_FLOW_FINISHED

datatype read_state_t = READ_STATE_HEADER | READ_STATE_BODY | READ_STATE_POST_PROCESS

datatype write_state_t =
  WRITE_STATE_TRANSITION | WRITE_STATE_PRE_WORK | WRITE_STATE_SEND | WRITE_STATE_POST_WORK

datatype enc_write_states =
  ENC_WRITE_STATE_VALID | ENC_WRITE_STATE_INVALID | ENC_WRITE_STATE_WRITE_PLAIN_ALERTS

datatype enc_read_states = ENC_READ_STATE_VALID | ENC_READ_STATE_ALLOW_PLAIN_ALERTS

datatype msg_process_return =
  MSG_PROCESS_ERROR | MSG_PROCESS_FINISHED_READING | MSG_PROCESS_CONTINUE_PROCESSING
| MSG_PROCESS_CONTINUE_READING

datatype ssl_early_data_state =
  SSL_EARLY_DATA_NONE | SSL_EARLY_DATA_CONNECT_RETRY | SSL_EARLY_DATA_CONNECTING
| SSL_EARLY_DATA_WRITE_RETRY | SSL_EARLY_DATA_WRITING | SSL_EARLY_DATA_WRITE_FLUSH
| SSL_EARLY_DATA_UNAUTH_WRITING | SSL_EARLY_DATA_FINISHED_WRITING | SSL_EARLY_DATA_ACCEPT_RETRY
| SSL_EARLY_DATA_ACCEPTING | SSL_EARLY_DATA_READ_RETRY | SSL_EARLY_DATA_READING
| SSL_EARLY_DATA_FINISHED_READING

datatype ssl_hrr = SSL_HRR_NONE | SSL_HRR_PENDING | SSL_HRR_COMPLETE

datatype ssl_pha_state =
  SSL_PHA_NONE | SSL_PHA_EXT_SENT | SSL_PHA_EXT_RECEIVED | SSL_PHA_REQUEST_PENDING | SSL_PHA_REQUESTED

text \<open>The reasons and functions that the modelled code passes to \<^verbatim>\<open>SSLfatal\<close>.\<close>

datatype ssl_func =
  SSL_F_STATE_MACHINE | SSL_F_READ_STATE_MACHINE | SSL_F_WRITE_STATE_MACHINE
| SSL_F_OSSL_STATEM_CLIENT_READ_TRANSITION | SSL_F_OSSL_STATEM_CLIENT13_WRITE_TRANSITION
| SSL_F_OSSL_STATEM_CLIENT_WRITE_TRANSITION | SSL_F_OSSL_STATEM_CLIENT_CONSTRUCT_MESSAGE
| SSL_F_OSSL_STATEM_CLIENT_PROCESS_MESSAGE | SSL_F_OSSL_STATEM_CLIENT_POST_PROCESS_MESSAGE
| SSL_F_OSSL_STATEM_SERVER_READ_TRANSITION | SSL_F_OSSL_STATEM_SERVER13_WRITE_TRANSITION
| SSL_F_OSSL_STATEM_SERVER_WRITE_TRANSITION | SSL_F_OSSL_STATEM_SERVER_PRE_WORK
| SSL_F_OSSL_STATEM_SERVER_CONSTRUCT_MESSAGE | SSL_F_OSSL_STATEM_SERVER_PROCESS_MESSAGE
| SSL_F_OSSL_STATEM_SERVER_POST_PROCESS_MESSAGE | SSL_F_TLS_SETUP_HANDSHAKE
| SSL_F_TLS_FINISH_HANDSHAKE | SSL_F_SSL_CHOOSE_CLIENT_VERSION
| SSL_F_TLS_CONSTRUCT_CTOS_SUPPORTED_VERSIONS | SSL_F_TLS_PARSE_STOC_SUPPORTED_VERSIONS
| SSL_F_TLS_CONSTRUCT_STOC_SUPPORTED_VERSIONS | SSL_F_DTLS1_PREPROCESS_FRAGMENT
| SSL_F_DTLS_GET_REASSEMBLED_MESSAGE | SSL_F_DTLS1_RETRANSMIT_MESSAGE | SSL_F_DTLS1_READ_FAILED
| SSL_F_DTLS1_CHECK_TIMEOUT_NUM | SSL_F_DTLS_CONSTRUCT_CHANGE_CIPHER_SPEC

datatype ssl_reason =
  SSL_R_UNEXPECTED_MESSAGE | ERR_R_INTERNAL_ERROR | SSL_R_BAD_HANDSHAKE_STATE
| SSL_R_PEER_DID_NOT_RETURN_A_CERTIFICATE | SSL_R_MISSING_FATAL | SSL_R_EXCESSIVE_MESSAGE_SIZE
| ERR_R_BUF_LIB | SSL_R_NO_CIPHERS_AVAILABLE | ERR_R_SHOULD_NOT_HAVE_BEEN_CALLED
| SSL_R_VERSION_TOO_LOW | SSL_R_VERSION_TOO_HIGH | SSL_R_UNSUPPORTED_PROTOCOL
| SSL_R_AT_LEAST_TLS_1_2_NEEDED_IN_SUITEB_MODE | SSL_R_WRONG_SSL_VERSION | SSL_R_LENGTH_MISMATCH
| SSL_R_BAD_LEGACY_VERSION | SSL_R_INAPPROPRIATE_FALLBACK | SSL_R_NO_PROTOCOLS_AVAILABLE
| SSL_R_BAD_PROTOCOL_VERSION_NUMBER | SSL_R_BAD_CHANGE_CIPHER_SPEC | SSL_R_BAD_LENGTH
| SSL_R_READ_TIMEOUT_EXPIRED

subsection \<open>Constants\<close>

abbreviation (input) SSL3_VERSION :: int where "SSL3_VERSION \<equiv> 0x0300"
abbreviation (input) TLS1_VERSION :: int where "TLS1_VERSION \<equiv> 0x0301"
abbreviation (input) TLS1_1_VERSION :: int where "TLS1_1_VERSION \<equiv> 0x0302"
abbreviation (input) TLS1_2_VERSION :: int where "TLS1_2_VERSION \<equiv> 0x0303"
abbreviation (input) TLS1_3_VERSION :: int where "TLS1_3_VERSION \<equiv> 0x0304"
abbreviation (input) TLS_ANY_VERSION :: int where "TLS_ANY_VERSION \<equiv> 0x10000"
abbreviation (input) DTLS1_VERSION :: int where "DTLS1_VERSION \<equiv> 0xFEFF"
abbreviation (input) DTLS1_2_VERSION :: int where "DTLS1_2_VERSION \<equiv> 0xFEFD"
abbreviation (input) DTLS_ANY_VERSION :: int where "DTLS_ANY_VERSION \<equiv> 0x1FFFF"
abbreviation (input) DTLS1_BAD_VER :: int where "DTLS1_BAD_VER \<equiv> 0x0100"
abbreviation (input) SSL3_VERSION_MAJOR :: int where "SSL3_VERSION_MAJOR \<equiv> 3"

abbreviation (input) SSL3_MT_DUMMY :: int where "SSL3_MT_DUMMY \<equiv> - 1"
abbreviation (input) SSL3_MT_HELLO_REQUEST :: int where "SSL3_MT_HELLO_REQUEST \<equiv> 0"
abbreviation (input) SSL3_MT_CLIENT_HELLO :: int where "SSL3_MT_CLIENT_HELLO \<equiv> 1"
abbreviation (input) SSL3_MT_SERVER_HELLO :: int where "SSL3_MT_SERVER_HELLO \<equiv> 2"
abbreviation (input) DTLS1_MT_HELLO_VERIFY_REQUEST :: int where "DTLS1_MT_HELLO_VERIFY_REQUEST \<equiv> 3"
abbreviation (input) SSL3_MT_NEWSESSION_TICKET :: int where "SSL3_MT_NEWSESSION_TICKET \<equiv> 4"
abbreviation (input) SSL3_MT_END_OF_EARLY_DATA :: int where "SSL3_MT_END_OF_EARLY_DATA \<equiv> 5"
abbreviation (input) SSL3_MT_ENCRYPTED_EXTENSIONS :: int where "SSL3_MT_ENCRYPTED_EXTENSIONS \<equiv> 8"
abbreviation (input) SSL3_MT_CERTIFICATE :: int where "SSL3_MT_CERTIFICATE \<equiv> 11"
abbreviation (input) SSL3_MT_SERVER_KEY_EXCHANGE :: int where "SSL3_MT_SERVER_KEY_EXCHANGE \<equiv> 12"
abbreviation (input) SSL3_MT_CERTIFICATE_REQUEST :: int where "SSL3_MT_CERTIFICATE_REQUEST \<equiv> 13"
abbreviation (input) SSL3_MT_SERVER_DONE :: int where "SSL3_MT_SERVER_DONE \<equiv> 14"
abbreviation (input) SSL3_MT_CERTIFICATE_VERIFY :: int where "SSL3_MT_CERTIFICATE_VERIFY \<equiv> 15"
abbreviation (input) SSL3_MT_CLIENT_KEY_EXCHANGE :: int where "SSL3_MT_CLIENT_KEY_EXCHANGE \<equiv> 16"
abbreviation (input) SSL3_MT_FINISHED :: int where "SSL3_MT_FINISHED \<equiv> 20"
abbreviation (input) SSL3_MT_CERTIFICATE_STATUS :: int where "SSL3_MT_CERTIFICATE_STATUS \<equiv> 22"
abbreviation (input) SSL3_MT_KEY_UPDATE :: int where "SSL3_MT_KEY_UPDATE \<equiv> 24"
abbreviation (input) SSL3_MT_NEXT_PROTO :: int where "SSL3_MT_NEXT_PROTO \<equiv> 67"
abbreviation (input) SSL3_MT_CHANGE_CIPHER_SPEC :: int where "SSL3_MT_CHANGE_CIPHER_SPEC \<equiv> 0x0101"

abbreviation (input) SSL_kRSA :: u32 where "SSL_kRSA \<equiv> 0x1"
abbreviation (input) SSL_kDHE :: u32 where "SSL_kDHE \<equiv> 0x2"
abbreviation (input) SSL_kECDHE :: u32 where "SSL_kECDHE \<equiv> 0x4"
abbreviation (input) SSL_kPSK :: u32 where "SSL_kPSK \<equiv> 0x8"
abbreviation (input) SSL_kSRP :: u32 where "SSL_kSRP \<equiv> 0x20"
abbreviation (input) SSL_kRSAPSK :: u32 where "SSL_kRSAPSK \<equiv> 0x40"
abbreviation (input) SSL_kECDHEPSK :: u32 where "SSL_kECDHEPSK \<equiv> 0x80"
abbreviation (input) SSL_kDHEPSK :: u32 where "SSL_kDHEPSK \<equiv> 0x100"
abbreviation (input) SSL_PSK :: u32 where "SSL_PSK \<equiv> SSL_kPSK OR SSL_kRSAPSK OR SSL_kECDHEPSK OR SSL_kDHEPSK"
abbreviation (input) SSL_aRSA :: u32 where "SSL_aRSA \<equiv> 0x1"
abbreviation (input) SSL_aNULL :: u32 where "SSL_aNULL \<equiv> 0x4"
abbreviation (input) SSL_aPSK :: u32 where "SSL_aPSK \<equiv> 0x10"
abbreviation (input) SSL_aSRP :: u32 where "SSL_aSRP \<equiv> 0x40"

abbreviation (input) SSL_OP_COOKIE_EXCHANGE :: u32 where "SSL_OP_COOKIE_EXCHANGE \<equiv> 0x2000"
abbreviation (input) SSL_OP_ENABLE_MIDDLEBOX_COMPAT :: u32 where "SSL_OP_ENABLE_MIDDLEBOX_COMPAT \<equiv> 0x100000"
abbreviation (input) SSL_OP_NO_QUERY_MTU :: u32 where "SSL_OP_NO_QUERY_MTU \<equiv> 0x1000"
abbreviation (input) SSL_OP_NO_TLSv1 :: u32 where "SSL_OP_NO_TLSv1 \<equiv> 0x04000000"
abbreviation (input) SSL_OP_NO_TLSv1_1 :: u32 where "SSL_OP_NO_TLSv1_1 \<equiv> 0x10000000"
abbreviation (input) SSL_OP_NO_TLSv1_2 :: u32 where "SSL_OP_NO_TLSv1_2 \<equiv> 0x08000000"
abbreviation (input) SSL_OP_NO_TLSv1_3 :: u32 where "SSL_OP_NO_TLSv1_3 \<equiv> 0x20000000"
abbreviation (input) SSL_OP_NO_DTLSv1 :: u32 where "SSL_OP_NO_DTLSv1 \<equiv> 0x04000000"
abbreviation (input) SSL_OP_NO_DTLSv1_2 :: u32 where "SSL_OP_NO_DTLSv1_2 \<equiv> 0x08000000"
abbreviation (input) SSL_MODE_SEND_CLIENTHELLO_TIME :: u32 where "SSL_MODE_SEND_CLIENTHELLO_TIME \<equiv> 0x20"
abbreviation (input) SSL_MODE_SEND_SERVERHELLO_TIME :: u32 where "SSL_MODE_SEND_SERVERHELLO_TIME \<equiv> 0x40"
abbreviation (input) SSL_MODE_SEND_FALLBACK_SCSV :: u32 where "SSL_MODE_SEND_FALLBACK_SCSV \<equiv> 0x80"
abbreviation (input) SSL_METHOD_NO_SUITEB :: u32 where "SSL_METHOD_NO_SUITEB \<equiv> 2"
abbreviation (input) SSL_CERT_FLAG_SUITEB_128_LOS :: u32 where "SSL_CERT_FLAG_SUITEB_128_LOS \<equiv> 0x30000"
abbreviation (input) SSL_VERIFY_PEER :: u32 where "SSL_VERIFY_PEER \<equiv> 1"
abbreviation (input) SSL_VERIFY_FAIL_IF_NO_PEER_CERT :: u32 where "SSL_VERIFY_FAIL_IF_NO_PEER_CERT \<equiv> 2"
abbreviation (input) SSL_VERIFY_CLIENT_ONCE :: u32 where "SSL_VERIFY_CLIENT_ONCE \<equiv> 4"
abbreviation (input) SSL_VERIFY_POST_HANDSHAKE :: u32 where "SSL_VERIFY_POST_HANDSHAKE \<equiv> 8"
abbreviation (input) TLS1_FLAGS_SKIP_CERT_VERIFY :: u32 where "TLS1_FLAGS_SKIP_CERT_VERIFY \<equiv> 0x10"
abbreviation (input) TLS1_FLAGS_STATELESS :: u32 where "TLS1_FLAGS_STATELESS \<equiv> 0x800"
abbreviation (input) SSL_ENC_FLAG_EXPLICIT_IV :: u32 where "SSL_ENC_FLAG_EXPLICIT_IV \<equiv> 0x1"
abbreviation (input) SSL_ENC_FLAG_SIGALGS :: u32 where "SSL_ENC_FLAG_SIGALGS \<equiv> 0x2"
abbreviation (input) SSL_ENC_FLAG_SHA256_PRF :: u32 where "SSL_ENC_FLAG_SHA256_PRF \<equiv> 0x4"
abbreviation (input) SSL_ENC_FLAG_TLS1_2_CIPHERS :: u32 where "SSL_ENC_FLAG_TLS1_2_CIPHERS \<equiv> 0x10"
abbreviation (input) SSL_ENC_FLAG_DTLS :: u32 where "SSL_ENC_FLAG_DTLS \<equiv> 0x8"
abbreviation (input) SSL_SENT_SHUTDOWN :: u32 where "SSL_SENT_SHUTDOWN \<equiv> 1"

abbreviation (input) SSL_KEY_UPDATE_NONE :: int where "SSL_KEY_UPDATE_NONE \<equiv> - 1"
abbreviation (input) SSL_EARLY_DATA_NOT_SENT :: int where "SSL_EARLY_DATA_NOT_SENT \<equiv> 0"
abbreviation (input) SSL_EARLY_DATA_REJECTED :: int where "SSL_EARLY_DATA_REJECTED \<equiv> 1"
abbreviation (input) SSL_EARLY_DATA_ACCEPTED :: int where "SSL_EARLY_DATA_ACCEPTED \<equiv> 2"
abbreviation (input) SSL_NOTHING :: int where "SSL_NOTHING \<equiv> 1"
abbreviation (input) SSL_WRITING :: int where "SSL_WRITING \<equiv> 2"
abbreviation (input) SSL_READING :: int where "SSL_READING \<equiv> 3"

abbreviation (input) SSL3_RT_MAX_PLAIN_LENGTH :: nat where "SSL3_RT_MAX_PLAIN_LENGTH \<equiv> 16384"
abbreviation (input) SSL3_RT_MAX_ENCRYPTED_LENGTH :: nat where "SSL3_RT_MAX_ENCRYPTED_LENGTH \<equiv> 16704"
abbreviation (input) DTLS1_HM_HEADER_LENGTH :: nat where "DTLS1_HM_HEADER_LENGTH \<equiv> 12"
abbreviation (input) DTLS1_CCS_HEADER_LENGTH :: nat where "DTLS1_CCS_HEADER_LENGTH \<equiv> 1"
abbreviation (input) DTLS1_RT_HEADER_LENGTH :: nat where "DTLS1_RT_HEADER_LENGTH \<equiv> 13"
abbreviation (input) DTLS1_HM_BAD_FRAGMENT :: int where "DTLS1_HM_BAD_FRAGMENT \<equiv> - 2"
abbreviation (input) DTLS1_HM_FRAGMENT_RETRY :: int where "DTLS1_HM_FRAGMENT_RETRY \<equiv> - 3"
abbreviation (input) DTLS1_TMO_READ_COUNT :: nat where "DTLS1_TMO_READ_COUNT \<equiv> 2"
abbreviation (input) DTLS1_TMO_ALERT_COUNT :: nat where "DTLS1_TMO_ALERT_COUNT \<equiv> 12"
abbreviation (input) SSL3_MT_CCS :: byte where "SSL3_MT_CCS \<equiv> 1"
abbreviation (input) SSL3_HM_HEADER_LENGTH :: nat where "SSL3_HM_HEADER_LENGTH \<equiv> 4"

abbreviation (input) SSL3_CC_EARLY :: u32 where "SSL3_CC_EARLY \<equiv> 0x40"
abbreviation (input) SSL3_CC_HANDSHAKE :: u32 where "SSL3_CC_HANDSHAKE \<equiv> 0x80"
abbreviation (input) SSL3_CC_APPLICATION :: u32 where "SSL3_CC_APPLICATION \<equiv> 0x100"
abbreviation (input) SSL3_CC_WRITE :: u32 where "SSL3_CC_WRITE \<equiv> 0x2"
abbreviation (input) SSL3_CHANGE_CIPHER_CLIENT_WRITE :: u32 where "SSL3_CHANGE_CIPHER_CLIENT_WRITE \<equiv> 0x12"
abbreviation (input) SSL3_CHANGE_CIPHER_SERVER_READ :: u32 where "SSL3_CHANGE_CIPHER_SERVER_READ \<equiv> 0x21"
abbreviation (input) SSL3_CHANGE_CIPHER_SERVER_WRITE :: u32 where "SSL3_CHANGE_CIPHER_SERVER_WRITE \<equiv> 0x22"


abbreviation (input) SSL3_RT_CHANGE_CIPHER_SPEC :: int where "SSL3_RT_CHANGE_CIPHER_SPEC \<equiv> 20"
abbreviation (input) SSL3_RT_ALERT :: int where "SSL3_RT_ALERT \<equiv> 21"
abbreviation (input) SSL3_RT_HANDSHAKE :: int where "SSL3_RT_HANDSHAKE \<equiv> 22"
abbreviation (input) SSL3_AL_WARNING :: int where "SSL3_AL_WARNING \<equiv> 1"
abbreviation (input) SSL3_AL_FATAL :: int where "SSL3_AL_FATAL \<equiv> 2"
abbreviation (input) SSL_CB_HANDSHAKE_START :: int where "SSL_CB_HANDSHAKE_START \<equiv> 0x10"
abbreviation (input) SSL_CB_HANDSHAKE_DONE :: int where "SSL_CB_HANDSHAKE_DONE \<equiv> 0x20"
abbreviation (input) SSL_CB_WRITE_ALERT :: int where "SSL_CB_WRITE_ALERT \<equiv> 0x4008"
abbreviation (input) SSL_CB_ACCEPT_LOOP :: int where "SSL_CB_ACCEPT_LOOP \<equiv> 0x2001"
abbreviation (input) SSL_CB_ACCEPT_EXIT :: int where "SSL_CB_ACCEPT_EXIT \<equiv> 0x2002"
abbreviation (input) SSL_CB_CONNECT_LOOP :: int where "SSL_CB_CONNECT_LOOP \<equiv> 0x1001"
abbreviation (input) SSL_CB_CONNECT_EXIT :: int where "SSL_CB_CONNECT_EXIT \<equiv> 0x1002"

subsection \<open>The connection\<close>

text \<open>
  The members of \<^verbatim>\<open>struct ssl_st\<close> (and of the structures it owns) that the state machine uses.
  C booleans held in \<^verbatim>\<open>int\<close> members and bit fields are \<open>bool\<close> where the code only stores 0 and 1;
  \<open>cert_req\<close> keeps its values 0, 1 and 2.  A cipher is identified by its table entry.
\<close>

record ssl_cipher =
  cipher_id :: u32
  algorithm_mkey :: u32
  algorithm_auth :: u32
  min_tls :: int
  max_tls :: int
  min_dtls :: int
  max_dtls :: int

record ossl_statem =
  flow_state :: msg_flow_state
  write_state :: write_state_t
  write_state_work :: work_state
  read_state :: read_state_t
  read_state_first_init :: bool
  read_state_work :: work_state
  hand_state :: ossl_handshake_state
  request_state :: ossl_handshake_state
  in_init :: bool
  in_handshake :: int
  cleanuphand :: bool
  no_cert_verify :: bool
  use_timer :: bool
  enc_write_state :: enc_write_states
  enc_read_state :: enc_read_states

record ssl3_state =
  s3_flags :: u32
  cert_req :: int
  cert_request :: bool
  new_cipher :: "ssl_cipher option"
  message_size :: nat
  message_type :: int
  npn_seen :: bool
  in_read_app_data :: int
  num_renegotiations :: int
  total_renegotiations :: int
  s3_renegotiate :: bool
  previous_server_finished_len :: nat
  change_cipher_spec :: bool
  finish_md_len :: nat
  peer_finish_md_len :: nat
  alert_dispatch :: bool
  send_alert :: "byte \<times> byte"
  client_random :: "byte list"
  server_random :: "byte list"

record ssl_ext =
  extflags :: "nat list"
  ticket_expected :: bool
  status_expected :: bool
  ext_early_data :: int
  session_secret_cb :: bool

record ssl_session =
  session_tick :: bool
  session_peer :: bool
  session_cipher :: "ssl_cipher option"
  compress_meth :: nat

text \<open>
  The DTLS part.  Cryptographic contexts are pointers to objects of another component; a pointer is a
  number, and \<open>None\<close> is the null pointer.  The write state that a retransmission reinstates refers to a
  session by its value.
\<close>

record retransmit_state =
  rs_enc_write_ctx :: "nat option"
  rs_write_hash :: "nat option"
  rs_compress :: "nat option"
  rs_session_set :: bool
  rs_session :: ssl_session
  rs_epoch :: nat

type_synonym msg_hdr = "retransmit_state hm_header"
type_synonym msg_frag = "retransmit_state hm_fragment"

record d1_state =
  handshake_write_seq :: nat
  next_handshake_write_seq :: nat
  handshake_read_seq :: nat
  buffered_messages :: "msg_frag pqueue"
  sent_messages :: "msg_frag pqueue"
  link_mtu :: nat
  mtu :: nat
  w_msg_hdr :: msg_hdr
  r_msg_hdr :: msg_hdr
  read_timeouts :: nat
  write_timeouts :: nat
  num_alerts :: nat
  next_timeout :: "int \<times> int"
  timeout_duration_us :: nat
  retransmitting :: bool
  has_timer_cb :: bool

text \<open>
  The members for writing: the contexts of the current write state, the largest fragment, how much of
  \<^verbatim>\<open>s->init_buf\<close> is written, and the write epoch of the DTLS record layer with its sequence numbers.
\<close>

record write_side =
  enc_write_ctx :: "nat option"
  write_hash :: "nat option"
  compress :: "nat option"
  max_send_fragment :: nat
  init_off :: nat
  w_epoch :: nat
  write_sequence :: "byte list"
  last_write_sequence :: "byte list"
  curr_write_sequence :: "byte list"

text \<open>The statistics counters of the two contexts a connection may refer to.\<close>

datatype ssl_stat =
  Ctx_sess_accept_renegotiate | Ctx_sess_accept_good
| Session_ctx_sess_accept | Session_ctx_sess_connect | Session_ctx_sess_connect_renegotiate
| Session_ctx_sess_hit | Session_ctx_sess_connect_good

datatype handshake_fn = No_handshake_func | ossl_statem_accept_fn | ossl_statem_connect_fn

text \<open>The method table: its version, flags and mask, the flags and alert translation of its \<^verbatim>\<open>ssl3_enc\<close>.\<close>

record ssl_meth =
  method_version :: int
  method_flags :: u32
  method_mask :: u32
  enc_flags :: u32
  alert_value :: "int \<Rightarrow> int"

record ssl_conn =
  version :: int
  meth :: ssl_meth
  server :: bool
  hit :: bool
  shutdown :: u32
  early_data_state :: ssl_early_data_state
  hello_retry_request :: ssl_hrr
  options :: u32
  mode :: u32
  min_proto_version :: int
  max_proto_version :: int
  client_version :: int
  ctx_method_version :: int
  cert_flags :: u32
  renegotiate :: bool
  new_session :: bool
  key_update :: int
  post_handshake_auth :: ssl_pha_state
  cookie_verified :: bool
  psk_identity_hint :: bool
  verify_mode :: u32
  certreqs_sent :: int
  num_tickets :: nat
  sent_tickets :: nat
  max_early_data :: u32
  max_cert_list :: nat
  rwstate :: int
  first_packet :: bool
  handshake_func :: handshake_fn


text \<open>
  \<open>session_set\<close> says whether \<^verbatim>\<open>s->session\<close> is a pointer to a session; \<open>init_msg\<close> is the offset of
  \<^verbatim>\<open>s->init_msg\<close> in the block of \<^verbatim>\<open>s->init_buf\<close>; \<open>errs\<close> is the thread's error queue, newest first.
\<close>

record 'w ssl = ssl_conn +
  statem :: ossl_statem
  s3 :: ssl3_state
  ext :: ssl_ext
  session_set :: bool
  session :: ssl_session
  d1 :: d1_state
  wside :: write_side
  init_buf :: "buf_mem option"
  init_msg :: nat
  init_num :: nat
  counters :: "ssl_stat \<Rightarrow> nat"
  errs :: "(ssl_func \<times> ssl_reason) list"
  world :: 'w

text \<open>Updating one member of a structure the connection owns.\<close>

abbreviation upd_st :: "(ossl_statem \<Rightarrow> ossl_statem) \<Rightarrow> 'w ssl \<Rightarrow> 'w ssl" where
  "upd_st f s \<equiv> s\<lparr>statem := f (statem s)\<rparr>"
abbreviation upd_s3 :: "(ssl3_state \<Rightarrow> ssl3_state) \<Rightarrow> 'w ssl \<Rightarrow> 'w ssl" where
  "upd_s3 f s \<equiv> s\<lparr>s3 := f (s3 s)\<rparr>"

abbreviation upd_d1 :: "(d1_state \<Rightarrow> d1_state) \<Rightarrow> 'w ssl \<Rightarrow> 'w ssl" where
  "upd_d1 f s \<equiv> s\<lparr>d1 := f (d1 s)\<rparr>"

definition set_hand_state :: "ossl_handshake_state \<Rightarrow> 'w ssl \<Rightarrow> 'w ssl" where
  "set_hand_state h s = upd_st (\<lambda>st. st\<lparr>hand_state := h\<rparr>) s"

definition set_use_timer :: "bool \<Rightarrow> 'w ssl \<Rightarrow> 'w ssl" where
  "set_use_timer b s = upd_st (\<lambda>st. st\<lparr>use_timer := b\<rparr>) s"

definition tsan_counter :: "ssl_stat \<Rightarrow> 'w ssl \<Rightarrow> 'w ssl" where
  "tsan_counter c s = s\<lparr>counters := (counters s)(c := counters s c + 1)\<rparr>"

subsection \<open>What the state machine calls\<close>

text \<open>
  \<open>io\<close>: calls that see the connection as \<^verbatim>\<open>const\<close> or not at all (BIO, record layer output, timers,
  the application's callbacks, the session cache).  \<open>call\<close>: calls that may change the connection.
  \<open>query\<close>: calls that only read it.  \<open>construct\<close>, \<open>process\<close>, \<open>post_process\<close>: the functions that
  build and consume the individual handshake messages.  \<open>read_bytes n\<close> is the method's
  \<^verbatim>\<open>ssl_read_bytes\<close> for handshake data: the result, the type of the record and the at most \<open>n\<close> bytes
  delivered; \<open>write_bytes\<close> is \<^verbatim>\<open>dtls1_write_bytes\<close>: the result and the number of bytes written.
\<close>

datatype io_op =
  BIO_flush | do_write int "byte list" | info_callback int int | msg_callback int "byte list"
| SSL_CTX_remove_session | ssl_update_cache_server | ssl_update_cache_client
| clear_sys_error | BIO_clear_retry_flags | BIO_set_retry_read | msg_callback_in int "byte list"
| gettimeofday | timer_cb nat | BIO_dgram_set_next_timeout int int | BIO_dgram_query_mtu
| BIO_dgram_set_mtu nat | BIO_dgram_get_fallback_mtu | BIO_dgram_mtu_exceeded | BIO_set_flags_read

datatype query =
  RECORD_LAYER_write_pending | RECORD_LAYER_read_pending | has_info_callback | has_msg_callback
| session_cache_client | ssl_security_version | SSL_get_error_0 | get_last_sys_error
| BUF_MEM_new_ok | ssl_security_secop_version int | has_servername_cb | has_psk_server_callback
| RECORD_LAYER_get_rrec_length | BIO_wpending | BIO_dgram_get_mtu_overhead | cipher_is_aead
| mac_size_of_write_hash | cipher_is_cbc | cipher_block_size | has_psk_find_session_cb | has_cert_cb | ssl_has_cert nat | ecc_private_key | tls_check_sigalg_curve

datatype callee =
  ssl3_init_finished_mac | ssl_free_wbio_buffer | ssl3_cleanup_key_block
| tls13_change_cipher_state u32 | change_cipher_state u32 | setup_key_block | generate_master_secret
| tls_client_key_exchange_post_work | dtls1_reset_seq_numbers u32
| tls13_save_handshake_digest_for_pha | tls13_restore_handshake_digest_for_pha
| tls13_update_key bool | SSL_clear | ssl3_setup_buffers | ssl_init_wbio_buffer
| WPACKET_init_and_set_handshake_header int | ssl_close_construct_packet int
| ssl3_finish_mac "byte list" | ssl3_take_mac | ssl3_do_write int | call_dtls1_do_write int | ssl_do_write

datatype construct_fn =
  dtls_construct_change_cipher_spec | tls_construct_change_cipher_spec | tls_construct_client_hello
| tls_construct_end_of_early_data | tls_construct_client_certificate
| tls_construct_client_key_exchange | tls_construct_cert_verify | tls_construct_next_proto
| tls_construct_finished | tls_construct_key_update | dtls_construct_hello_verify_request
| tls_construct_server_hello | tls_construct_server_certificate | tls_construct_server_key_exchange
| tls_construct_certificate_request | tls_construct_server_done | tls_construct_new_session_ticket
| tls_construct_cert_status | tls_construct_encrypted_extensions

datatype process_fn =
  tls_process_server_hello | dtls_process_hello_verify | tls_process_server_certificate
| tls_process_cert_verify | tls_process_cert_status | tls_process_key_exchange
| tls_process_certificate_request | tls_process_server_done | tls_process_change_cipher_spec
| tls_process_new_session_ticket | tls_process_finished | tls_process_hello_req
| tls_process_encrypted_extensions | tls_process_key_update | tls_process_client_hello
| tls_process_end_of_early_data | tls_process_client_certificate | tls_process_client_key_exchange
| tls_process_next_proto

datatype post_process_fn =
  tls_prepare_client_certificate | tls_post_process_client_hello
| tls_post_process_client_key_exchange

record 'w env =
  io :: "io_op \<Rightarrow> 'w \<Rightarrow> int \<times> 'w"
  query :: "query \<Rightarrow> 'w ssl \<Rightarrow> int"
  call :: "callee \<Rightarrow> 'w ssl \<Rightarrow> int \<times> 'w ssl"
  construct :: "construct_fn \<Rightarrow> 'w ssl \<Rightarrow> int \<times> 'w ssl"
  process :: "process_fn \<Rightarrow> nat \<Rightarrow> 'w ssl \<Rightarrow> msg_process_return \<times> 'w ssl"
  post_process :: "post_process_fn \<Rightarrow> work_state \<Rightarrow> 'w ssl \<Rightarrow> work_state \<times> 'w ssl"
  get_header :: "'w ssl \<Rightarrow> (int \<times> int) \<times> 'w ssl"
  get_body :: "'w ssl \<Rightarrow> (int \<times> nat) \<times> 'w ssl"
  get_dtls :: "'w ssl \<Rightarrow> (int \<times> int \<times> nat) \<times> 'w ssl"
  read_bytes :: "nat \<Rightarrow> 'w ssl \<Rightarrow> (int \<times> int \<times> byte list) \<times> 'w ssl"
  write_bytes :: "int \<Rightarrow> byte list \<Rightarrow> 'w ssl \<Rightarrow> (int \<times> nat) \<times> 'w ssl"
  SSL_get_ciphers :: "'w ssl \<Rightarrow> ssl_cipher list"
  heap :: allocator

definition do_io :: "'w env \<Rightarrow> io_op \<Rightarrow> 'w ssl \<Rightarrow> int \<times> 'w ssl" where
  "do_io e opn s = (let (r, w) = io e opn (world s) in (r, s\<lparr>world := w\<rparr>))"

end
