(* ===== verification/Proto_Version.thy ===== *)
theory Proto_Version
  imports Statem_Base
begin

unbundle bit_operations_syntax

section \<open>Protocol versions\<close>

text \<open>
  The predicates of \<^verbatim>\<open>ssl_local.h\<close> on the protocol in use, the methods of \<^verbatim>\<open>ssl/methods.c\<close> that the version
  tables list, and the functions of \<^verbatim>\<open>ssl/statem/statem_lib.c\<close> that say which versions a connection may use.
  The build has all protocol versions except SSL 3.0.  The terminating entry of a table is the end of
  its list.  The security callback and the server's certificates are queries of the environment.
\<close>

subsection \<open>Protocol in use\<close>

definition SSL_IS_DTLS :: "'w ssl \<Rightarrow> bool" where
  "SSL_IS_DTLS s \<longleftrightarrow> flag (enc_flags (meth s)) SSL_ENC_FLAG_DTLS"

definition SSL_IS_TLS13 :: "'w ssl \<Rightarrow> bool" where
  "SSL_IS_TLS13 s \<longleftrightarrow>
     \<not> SSL_IS_DTLS s \<and> method_version (meth s) \<ge> TLS1_3_VERSION \<and>
     method_version (meth s) \<noteq> TLS_ANY_VERSION"

definition SSL_TREAT_AS_TLS13 :: "'w ssl \<Rightarrow> bool" where
  "SSL_TREAT_AS_TLS13 s \<longleftrightarrow>
     SSL_IS_TLS13 s \<or> early_data_state s = SSL_EARLY_DATA_CONNECTING \<or>
     early_data_state s = SSL_EARLY_DATA_CONNECT_RETRY \<or>
     early_data_state s = SSL_EARLY_DATA_WRITING \<or>
     early_data_state s = SSL_EARLY_DATA_WRITE_RETRY \<or>
     hello_retry_request s = SSL_HRR_PENDING"

definition SSL_IS_FIRST_HANDSHAKE :: "'w ssl \<Rightarrow> bool" where
  "SSL_IS_FIRST_HANDSHAKE s \<longleftrightarrow> finish_md_len (s3 s) = 0 \<or> peer_finish_md_len (s3 s) = 0"

definition dtls_ver_ordinal :: "int \<Rightarrow> int" where
  "dtls_ver_ordinal v = (if v = DTLS1_BAD_VER then 0xff00 else v)"

definition DTLS_VERSION_GE :: "int \<Rightarrow> int \<Rightarrow> bool" where
  "DTLS_VERSION_GE v1 v2 \<longleftrightarrow> dtls_ver_ordinal v1 \<le> dtls_ver_ordinal v2"

definition DTLS_VERSION_LT :: "int \<Rightarrow> int \<Rightarrow> bool" where
  "DTLS_VERSION_LT v1 v2 \<longleftrightarrow> dtls_ver_ordinal v1 > dtls_ver_ordinal v2"

definition DTLS_VERSION_GT :: "int \<Rightarrow> int \<Rightarrow> bool" where
  "DTLS_VERSION_GT v1 v2 \<longleftrightarrow> dtls_ver_ordinal v1 < dtls_ver_ordinal v2"

definition DTLS_VERSION_LE :: "int \<Rightarrow> int \<Rightarrow> bool" where
  "DTLS_VERSION_LE v1 v2 \<longleftrightarrow> dtls_ver_ordinal v1 \<ge> dtls_ver_ordinal v2"

subsection \<open>Methods\<close>

text \<open>A client's and a server's method of one version differ only in entry points that are not
  represented here.\<close>

definition tlsv1_3_method :: ssl_meth where
  "tlsv1_3_method = \<lparr>method_version = TLS1_3_VERSION, method_flags = 0, method_mask = SSL_OP_NO_TLSv1_3,
     enc_flags = SSL_ENC_FLAG_SIGALGS OR SSL_ENC_FLAG_SHA256_PRF, alert_value = tls13_alert_code\<rparr>"

definition tlsv1_2_method :: ssl_meth where
  "tlsv1_2_method = \<lparr>method_version = TLS1_2_VERSION, method_flags = 0, method_mask = SSL_OP_NO_TLSv1_2,
     enc_flags = SSL_ENC_FLAG_EXPLICIT_IV OR SSL_ENC_FLAG_SIGALGS OR SSL_ENC_FLAG_SHA256_PRF OR
       SSL_ENC_FLAG_TLS1_2_CIPHERS, alert_value = tls1_alert_code\<rparr>"

definition tlsv1_1_method :: ssl_meth where
  "tlsv1_1_method = \<lparr>method_version = TLS1_1_VERSION, method_flags = SSL_METHOD_NO_SUITEB,
     method_mask = SSL_OP_NO_TLSv1_1, enc_flags = SSL_ENC_FLAG_EXPLICIT_IV, alert_value = tls1_alert_code\<rparr>"

definition tlsv1_method :: ssl_meth where
  "tlsv1_method = \<lparr>method_version = TLS1_VERSION, method_flags = SSL_METHOD_NO_SUITEB,
     method_mask = SSL_OP_NO_TLSv1, enc_flags = 0, alert_value = tls1_alert_code\<rparr>"

definition dtlsv1_2_method :: ssl_meth where
  "dtlsv1_2_method = \<lparr>method_version = DTLS1_2_VERSION, method_flags = 0, method_mask = SSL_OP_NO_DTLSv1_2,
     enc_flags = SSL_ENC_FLAG_DTLS OR SSL_ENC_FLAG_EXPLICIT_IV OR SSL_ENC_FLAG_SIGALGS OR
       SSL_ENC_FLAG_SHA256_PRF OR SSL_ENC_FLAG_TLS1_2_CIPHERS, alert_value = tls1_alert_code\<rparr>"

definition dtlsv1_method :: ssl_meth where
  "dtlsv1_method = \<lparr>method_version = DTLS1_VERSION, method_flags = SSL_METHOD_NO_SUITEB,
     method_mask = SSL_OP_NO_DTLSv1, enc_flags = SSL_ENC_FLAG_DTLS OR SSL_ENC_FLAG_EXPLICIT_IV,
     alert_value = tls1_alert_code\<rparr>"

definition dtls_bad_ver_client_method :: ssl_meth where
  "dtls_bad_ver_client_method = dtlsv1_method\<lparr>method_version := DTLS1_BAD_VER\<rparr>"

record version_info =
  vi_version :: int
  cmeth :: "ssl_meth option"
  smeth :: "ssl_meth option"

definition tls_version_table :: "version_info list" where
  "tls_version_table =
     [\<lparr>vi_version = TLS1_3_VERSION, cmeth = Some tlsv1_3_method, smeth = Some tlsv1_3_method\<rparr>,
      \<lparr>vi_version = TLS1_2_VERSION, cmeth = Some tlsv1_2_method, smeth = Some tlsv1_2_method\<rparr>,
      \<lparr>vi_version = TLS1_1_VERSION, cmeth = Some tlsv1_1_method, smeth = Some tlsv1_1_method\<rparr>,
      \<lparr>vi_version = TLS1_VERSION, cmeth = Some tlsv1_method, smeth = Some tlsv1_method\<rparr>,
      \<lparr>vi_version = SSL3_VERSION, cmeth = None, smeth = None\<rparr>]"

definition dtls_version_table :: "version_info list" where
  "dtls_version_table =
     [\<lparr>vi_version = DTLS1_2_VERSION, cmeth = Some dtlsv1_2_method, smeth = Some dtlsv1_2_method\<rparr>,
      \<lparr>vi_version = DTLS1_VERSION, cmeth = Some dtlsv1_method, smeth = Some dtlsv1_method\<rparr>,
      \<lparr>vi_version = DTLS1_BAD_VER, cmeth = Some dtls_bad_ver_client_method, smeth = None\<rparr>]"

subsection \<open>Which versions are allowed\<close>

definition version_cmp :: "'w ssl \<Rightarrow> int \<Rightarrow> int \<Rightarrow> int" where
  "version_cmp s a b =
     (if a = b then 0
      else if \<not> SSL_IS_DTLS s then if a < b then - 1 else 1
      else if DTLS_VERSION_LT a b then - 1 else 1)"

definition tls1_suiteb :: "'w ssl \<Rightarrow> bool" where
  "tls1_suiteb s \<longleftrightarrow> flag (cert_flags s) SSL_CERT_FLAG_SUITEB_128_LOS"

definition ssl_method_error :: "'w env \<Rightarrow> 'w ssl \<Rightarrow> ssl_meth \<Rightarrow> ssl_reason option" where
  "ssl_method_error e s method =
     (let version = method_version method in
      if (min_proto_version s \<noteq> 0 \<and> version_cmp s version (min_proto_version s) < 0) \<or>
         query e (ssl_security_secop_version version) s = 0 then Some SSL_R_VERSION_TOO_LOW
      else if max_proto_version s \<noteq> 0 \<and> version_cmp s version (max_proto_version s) > 0
      then Some SSL_R_VERSION_TOO_HIGH
      else if flag (options s) (method_mask method) then Some SSL_R_UNSUPPORTED_PROTOCOL
      else if flag (method_flags method) SSL_METHOD_NO_SUITEB \<and> tls1_suiteb s
      then Some SSL_R_AT_LEAST_TLS_1_2_NEEDED_IN_SUITEB_MODE
      else None)"

abbreviation (input) SSL_PKEY_DSA_SIGN :: nat where "SSL_PKEY_DSA_SIGN \<equiv> 2"
abbreviation (input) SSL_PKEY_ECC :: nat where "SSL_PKEY_ECC \<equiv> 3"
abbreviation (input) SSL_PKEY_GOST01 :: nat where "SSL_PKEY_GOST01 \<equiv> 4"
abbreviation (input) SSL_PKEY_GOST12_256 :: nat where "SSL_PKEY_GOST12_256 \<equiv> 5"
abbreviation (input) SSL_PKEY_GOST12_512 :: nat where "SSL_PKEY_GOST12_512 \<equiv> 6"
abbreviation (input) SSL_PKEY_NUM :: nat where "SSL_PKEY_NUM \<equiv> 9"

text \<open>One round of the loop over the certificate slots: does slot \<open>i\<close> settle the question?\<close>

definition tls13_cert_slot :: "'w env \<Rightarrow> 'w ssl \<Rightarrow> nat \<Rightarrow> bool" where
  "tls13_cert_slot e s i \<longleftrightarrow>
     i \<notin> {SSL_PKEY_DSA_SIGN, SSL_PKEY_GOST01, SSL_PKEY_GOST12_256, SSL_PKEY_GOST12_512} \<and>
     query e (ssl_has_cert i) s \<noteq> 0 \<and>
     (i \<noteq> SSL_PKEY_ECC \<or> query e ecc_private_key s \<noteq> 0 \<and> query e tls_check_sigalg_curve s \<noteq> 0)"

definition is_tls13_capable :: "'w env \<Rightarrow> 'w ssl \<Rightarrow> bool" where
  "is_tls13_capable e s \<longleftrightarrow>
     query e has_servername_cb s \<noteq> 0 \<or> query e has_psk_server_callback s \<noteq> 0 \<or>
     query e has_psk_find_session_cb s \<noteq> 0 \<or> query e has_cert_cb s \<noteq> 0 \<or>
     list_ex (tls13_cert_slot e s) [0..<SSL_PKEY_NUM]"

text \<open>\<open>ssl_version_supported\<close> yields the result and what it stores through \<open>meth\<close>, if anything.\<close>

fun supported_loop :: "'w env \<Rightarrow> 'w ssl \<Rightarrow> int \<Rightarrow> version_info list \<Rightarrow> bool \<times> ssl_meth option" where
  "supported_loop e s ver [] = (False, None)"
| "supported_loop e s ver (vent # vents) =
     (if version_cmp s ver (vi_version vent) \<le> 0 then
        (case cmeth vent of
           None \<Rightarrow> supported_loop e s ver vents
         | Some m \<Rightarrow>
             if version_cmp s ver (vi_version vent) = 0 \<and> ssl_method_error e s m = None \<and>
                (\<not> server s \<or> ver \<noteq> TLS1_3_VERSION \<or> is_tls13_capable e s)
             then (True, Some m) else supported_loop e s ver vents)
      else (False, None))"

definition ssl_version_supported :: "'w env \<Rightarrow> 'w ssl \<Rightarrow> int \<Rightarrow> bool \<times> ssl_meth option" where
  "ssl_version_supported e s ver =
     (if method_version (meth s) = TLS_ANY_VERSION then supported_loop e s ver tls_version_table
      else if method_version (meth s) = DTLS_ANY_VERSION then supported_loop e s ver dtls_version_table
      else (version_cmp s ver (version s) = 0, None))"

fun highest_server_version :: "'w env \<Rightarrow> 'w ssl \<Rightarrow> version_info list \<Rightarrow> int option" where
  "highest_server_version e s [] = None"
| "highest_server_version e s (vent # vents) =
     (case smeth vent of
        None \<Rightarrow> highest_server_version e s vents
      | Some m \<Rightarrow> if ssl_method_error e s m = None then Some (vi_version vent)
                  else highest_server_version e s vents)"

definition ssl_check_version_downgrade :: "'w env \<Rightarrow> 'w ssl \<Rightarrow> bool" where
  "ssl_check_version_downgrade e s \<longleftrightarrow>
     version s = ctx_method_version s \<or>
     ctx_method_version s = TLS_ANY_VERSION \<and> highest_server_version e s tls_version_table = Some (version s) \<or>
     ctx_method_version s = DTLS_ANY_VERSION \<and> highest_server_version e s dtls_version_table = Some (version s)"

text \<open>The result says whether the bound is acceptable; the new bound comes with it.\<close>

definition ssl_set_version_bound :: "int \<Rightarrow> int \<Rightarrow> int \<Rightarrow> bool \<times> int" where
  "ssl_set_version_bound method_ver ver bound =
     (if ver = 0 then (True, ver)
      else
        let valid_tls = ver \<ge> SSL3_VERSION \<and> ver \<le> TLS1_3_VERSION;
            valid_dtls = DTLS_VERSION_LE ver DTLS1_2_VERSION \<and> DTLS_VERSION_GE ver DTLS1_BAD_VER
        in if \<not> valid_tls \<and> \<not> valid_dtls then (False, bound)
           else if method_ver = TLS_ANY_VERSION then (True, if valid_tls then ver else bound)
           else if method_ver = DTLS_ANY_VERSION then (True, if valid_dtls then ver else bound)
           else (True, bound))"

datatype downgrade = DOWNGRADE_NONE | DOWNGRADE_TO_1_2 | DOWNGRADE_TO_1_1

definition check_for_downgrade :: "'w env \<Rightarrow> 'w ssl \<Rightarrow> int \<Rightarrow> downgrade" where
  "check_for_downgrade e s vers =
     (if vers = TLS1_2_VERSION \<and> fst (ssl_version_supported e s TLS1_3_VERSION) then DOWNGRADE_TO_1_2
      else if \<not> SSL_IS_DTLS s \<and> vers < TLS1_2_VERSION \<and> fst (ssl_version_supported e s TLS1_2_VERSION)
      then DOWNGRADE_TO_1_1
      else DOWNGRADE_NONE)"

subsection \<open>The contiguous range of versions\<close>

record min_max =
  mm_version :: int
  mm_min :: int
  mm_hole :: bool
  mm_tmp_real :: int
  mm_real :: int

definition min_max_step :: "'w env \<Rightarrow> 'w ssl \<Rightarrow> bool \<Rightarrow> version_info \<Rightarrow> min_max \<Rightarrow> min_max" where
  "min_max_step e s want_real vent mm =
     (case cmeth vent of
        None \<Rightarrow> mm\<lparr>mm_hole := True, mm_tmp_real := 0\<rparr>
      | Some method \<Rightarrow>
          let mm = (if mm_hole mm \<and> mm_tmp_real mm = 0 then mm\<lparr>mm_tmp_real := vi_version vent\<rparr> else mm)
          in if ssl_method_error e s method \<noteq> None then mm\<lparr>mm_hole := True\<rparr>
             else if \<not> mm_hole mm then mm\<lparr>mm_min := method_version method\<rparr>
             else
               let mm = (if want_real \<and> mm_tmp_real mm \<noteq> 0 then mm\<lparr>mm_real := mm_tmp_real mm\<rparr> else mm)
               in mm\<lparr>mm_version := method_version method, mm_min := method_version method, mm_hole := False\<rparr>)"

definition min_max_loop :: "'w env \<Rightarrow> 'w ssl \<Rightarrow> bool \<Rightarrow> version_info list \<Rightarrow> min_max" where
  "min_max_loop e s want_real table =
     fold (min_max_step e s want_real) table
       \<lparr>mm_version = 0, mm_min = 0, mm_hole = True, mm_tmp_real = 0, mm_real = 0\<rparr>"

text \<open>The minimum, the maximum and, if \<open>want_real\<close> says that the caller passes \<open>real_max\<close>, its value.\<close>

definition ssl_get_min_max_version ::
  "'w env \<Rightarrow> 'w ssl \<Rightarrow> bool \<Rightarrow> ssl_reason + int \<times> int \<times> int" where
  "ssl_get_min_max_version e s want_real =
     (let range = (\<lambda>table. let mm = min_max_loop e s want_real table
                    in if mm_version mm = 0 then Inl SSL_R_NO_PROTOCOLS_AVAILABLE
                       else Inr (mm_min mm, mm_version mm, mm_real mm))
      in if method_version (meth s) = TLS_ANY_VERSION then range tls_version_table
         else if method_version (meth s) = DTLS_ANY_VERSION then range dtls_version_table
         else if want_real then Inl ERR_R_INTERNAL_ERROR
         else Inr (version s, version s, 0))"

definition ssl_set_client_hello_version :: "'w env \<Rightarrow> 'w ssl \<Rightarrow> ssl_reason option \<times> 'w ssl" where
  "ssl_set_client_hello_version e s =
     (if \<not> SSL_IS_FIRST_HANDSHAKE s then (None, s)
      else case ssl_get_min_max_version e s False of
        Inl r \<Rightarrow> (Some r, s)
      | Inr (ver_min, ver_max, _) \<Rightarrow>
          let s = s\<lparr>version := ver_max\<rparr>;
              ver_max = (if \<not> SSL_IS_DTLS s \<and> ver_max > TLS1_2_VERSION then TLS1_2_VERSION else ver_max)
          in (None, s\<lparr>client_version := ver_max\<rparr>))"

subsection \<open>What the range is\<close>

text \<open>A TLS version is enabled when its method passes \<^verbatim>\<open>ssl_method_error\<close>.\<close>

definition tls_method_of :: "int \<Rightarrow> ssl_meth option" where
  "tls_method_of v =
     (if v = TLS1_3_VERSION then Some tlsv1_3_method else if v = TLS1_2_VERSION then Some tlsv1_2_method
      else if v = TLS1_1_VERSION then Some tlsv1_1_method else if v = TLS1_VERSION then Some tlsv1_method else None)"

definition tls_enabled :: "'w env \<Rightarrow> 'w ssl \<Rightarrow> int \<Rightarrow> bool" where
  "tls_enabled e s v \<longleftrightarrow> (case tls_method_of v of None \<Rightarrow> False | Some m \<Rightarrow> ssl_method_error e s m = None)"

text \<open>A connection that uses the version-flexible TLS method.\<close>

definition tls_flexible :: "'w ssl \<Rightarrow> bool" where
  "tls_flexible s \<longleftrightarrow> method_version (meth s) = TLS_ANY_VERSION \<and> \<not> SSL_IS_DTLS s"

lemma method_versions [simp]:
  "method_version tlsv1_3_method = TLS1_3_VERSION" "method_version tlsv1_2_method = TLS1_2_VERSION"
  "method_version tlsv1_1_method = TLS1_1_VERSION" "method_version tlsv1_method = TLS1_VERSION"
  by (simp_all add: tlsv1_3_method_def tlsv1_2_method_def tlsv1_1_method_def tlsv1_method_def)

lemma tls_enabled_range: "tls_enabled e s v \<Longrightarrow> TLS1_VERSION \<le> v \<and> v \<le> TLS1_3_VERSION"
  by (auto simp: tls_enabled_def tls_method_of_def split: if_splits)

lemma min_max_step_simps:
  "cmeth vent = None \<Longrightarrow> min_max_step e s wr vent mm = mm\<lparr>mm_hole := True, mm_tmp_real := 0\<rparr>"
  "cmeth vent = Some m \<Longrightarrow> ssl_method_error e s m = Some r \<Longrightarrow> min_max_step e s wr vent mm =
     mm\<lparr>mm_hole := True, mm_tmp_real := if mm_hole mm \<and> mm_tmp_real mm = 0 then vi_version vent else mm_tmp_real mm\<rparr>"
  "cmeth vent = Some m \<Longrightarrow> ssl_method_error e s m = None \<Longrightarrow> \<not> mm_hole mm \<Longrightarrow>
     min_max_step e s wr vent mm = mm\<lparr>mm_min := method_version m\<rparr>"
  "cmeth vent = Some m \<Longrightarrow> ssl_method_error e s m = None \<Longrightarrow> mm_hole mm \<Longrightarrow> mm_tmp_real mm = t \<Longrightarrow>
     vi_version vent \<noteq> 0 \<Longrightarrow>
     min_max_step e s wr vent mm =
       \<lparr>mm_version = method_version m, mm_min = method_version m, mm_hole = False,
        mm_tmp_real = if t = 0 then vi_version vent else t,
        mm_real = if wr then if t = 0 then vi_version vent else t else mm_real mm\<rparr>"
  by (simp_all add: min_max_step_def Let_def)

text \<open>The range as a function of which of the four versions are enabled.\<close>

definition tls_range :: "bool \<Rightarrow> bool \<Rightarrow> bool \<Rightarrow> bool \<Rightarrow> int \<times> int" where
  "tls_range a3 a2 a1 a0 =
     (let top = (if a3 then 772 else 771)
      in if a0 then (769, if a1 then if a2 then top else 770 else 769)
         else if a1 then (770, if a2 then top else 770)
         else if a2 then (771, top) else if a3 then (772, 772) else (0, 0))"

lemma min_max_tls:
  "(mm_min (min_max_loop e s wr tls_version_table), mm_version (min_max_loop e s wr tls_version_table)) =
   tls_range (tls_enabled e s 772) (tls_enabled e s 771) (tls_enabled e s 770) (tls_enabled e s 769)"
  by (cases "ssl_method_error e s tlsv1_3_method"; cases "ssl_method_error e s tlsv1_2_method";
      cases "ssl_method_error e s tlsv1_1_method"; cases "ssl_method_error e s tlsv1_method")
    (simp_all add: min_max_loop_def tls_version_table_def min_max_step_simps tls_range_def
      tls_enabled_def tls_method_of_def)

text \<open>The range runs from the lowest enabled version up to the first disabled one.\<close>

lemma tls_min_max:
  assumes "tls_flexible s" and "ssl_get_min_max_version e s wr = Inr (mn, mx, r)"
  shows "tls_enabled e s mn" and "mn \<le> mx" and "\<And>v. mn \<le> v \<Longrightarrow> v \<le> mx \<Longrightarrow> tls_enabled e s v"
    and "\<And>v. v < mn \<Longrightarrow> \<not> tls_enabled e s v" and "\<not> tls_enabled e s (mx + 1)"
proof -
  have only: "tls_enabled e s v \<Longrightarrow> v = 772 \<or> v = 771 \<or> v = 770 \<or> v = 769" for v
    by (auto simp: tls_enabled_def tls_method_of_def split: if_splits)
  let ?mm = "min_max_loop e s wr tls_version_table"
  have "mm_version ?mm \<noteq> 0" "mn = mm_min ?mm" "mx = mm_version ?mm"
    using assms by (auto simp: tls_flexible_def ssl_get_min_max_version_def Let_def split: if_splits)
  then have r: "(mn, mx) = tls_range (tls_enabled e s 772) (tls_enabled e s 771) (tls_enabled e s 770) (tls_enabled e s 769)"
    and nz: "mx \<noteq> 0" by (simp_all add: min_max_tls)
  have *: "tls_enabled e s mn \<and> mn \<le> mx \<and> \<not> tls_enabled e s (mx + 1) \<and> 769 \<le> mn \<and> mx \<le> 772 \<and>
    (\<forall>v \<in> {772, 771, 770, 769}. (mn \<le> v \<and> v \<le> mx \<longrightarrow> tls_enabled e s v) \<and> (v < mn \<longrightarrow> \<not> tls_enabled e s v))"
    using r nz only [of 773] by (auto simp: tls_range_def Let_def split: if_splits)
  then show "tls_enabled e s mn" "mn \<le> mx" "\<not> tls_enabled e s (mx + 1)" by auto
  show "tls_enabled e s v" if "mn \<le> v" "v \<le> mx" for v
  proof -
    have "v = 772 \<or> v = 771 \<or> v = 770 \<or> v = 769" using * that by linarith
    then show ?thesis using * that by auto
  qed
  show "\<not> tls_enabled e s v" if "v < mn" for v using * that only [of v] by blast
qed

end
