(* ===== verification/Dtls_Timer.thy ===== *)
theory Dtls_Timer
  imports Statem_Base
begin

section \<open>The retransmission timer and the queues of DTLS\<close>

text \<open>
  The part of \<^verbatim>\<open>ssl/d1_lib.c\<close> that the state machine calls directly: clearing the two message queues,
  and starting, stopping, reading and doubling the retransmission timer.  A \<^verbatim>\<open>struct timeval\<close> is the
  pair of its seconds and microseconds; the clock is the call \<open>gettimeofday\<close>, whose result is the
  number of microseconds since the epoch.
\<close>

subsection \<open>Queues\<close>

lemma pqueue_pop_Cons [simp]: "pqueue_pop (x # xs) = (Some x, xs)"
  by (simp add: pqueue_pop_def)

text \<open>The loops pop until the queue is empty.\<close>

fun pop_all :: "'a pqueue \<Rightarrow> 'a pqueue" where
  "pop_all [] = []"
| "pop_all (x # xs) = pop_all (snd (pqueue_pop (x # xs)))"

definition dtls1_clear_received_buffer :: "'w ssl \<Rightarrow> 'w ssl" where
  "dtls1_clear_received_buffer s = upd_d1 (\<lambda>d. d\<lparr>buffered_messages := pop_all (buffered_messages d)\<rparr>) s"

definition dtls1_clear_sent_buffer :: "'w ssl \<Rightarrow> 'w ssl" where
  "dtls1_clear_sent_buffer s = upd_d1 (\<lambda>d. d\<lparr>sent_messages := pop_all (sent_messages d)\<rparr>) s"

lemma pop_all_Nil [simp]: "pop_all q = []"
  by (induction q) simp_all

subsection \<open>Timer\<close>

definition get_current_time :: "'w env \<Rightarrow> 'w ssl \<Rightarrow> (int \<times> int) \<times> 'w ssl" where
  "get_current_time e s = (let (t, s) = do_io e gettimeofday s in ((t div 1000000, t mod 1000000), s))"

text \<open>\<^verbatim>\<open>unsigned int\<close> arithmetic wraps at 32 bits.\<close>

definition run_timer_cb :: "'w env \<Rightarrow> nat \<Rightarrow> 'w ssl \<Rightarrow> 'w ssl" where
  "run_timer_cb e us s =
     (let (r, s) = do_io e (timer_cb us) s
      in upd_d1 (\<lambda>d. d\<lparr>timeout_duration_us := nat (r mod 2 ^ 32)\<rparr>) s)"

definition dtls1_start_timer :: "'w env \<Rightarrow> 'w ssl \<Rightarrow> 'w ssl" where
  "dtls1_start_timer e s =
     (let s = (if next_timeout (d1 s) = (0, 0) then
                 (if has_timer_cb (d1 s) then run_timer_cb e 0 s
                  else upd_d1 (\<lambda>d. d\<lparr>timeout_duration_us := 1000000\<rparr>) s)
               else s);
          ((now_sec, now_usec), s) = get_current_time e s;
          sec = timeout_duration_us (d1 s) div 1000000;
          usec = timeout_duration_us (d1 s) - sec * 1000000;
          tv_sec = now_sec + int sec;
          tv_usec = now_usec + int usec;
          tv = (if tv_usec \<ge> 1000000 then (tv_sec + 1, tv_usec - 1000000) else (tv_sec, tv_usec));
          s = upd_d1 (\<lambda>d. d\<lparr>next_timeout := tv\<rparr>) s
      in snd (do_io e (BIO_dgram_set_next_timeout (fst tv) (snd tv)) s))"

definition dtls1_get_timeout :: "'w env \<Rightarrow> 'w ssl \<Rightarrow> (int \<times> int) option \<times> 'w ssl" where
  "dtls1_get_timeout e s =
     (let (nsec, nusec) = next_timeout (d1 s) in
      if nsec = 0 \<and> nusec = 0 then (None, s)
      else
        let ((sec, usec), s) = get_current_time e s in
        if nsec < sec \<or> nsec = sec \<and> nusec \<le> usec then (Some (0, 0), s)
        else
          let lsec = nsec - sec; lusec = nusec - usec;
              (lsec, lusec) = (if lusec < 0 then (lsec - 1, lusec + 1000000) else (lsec, lusec))
          in if lsec = 0 \<and> lusec < 15000 then (Some (0, 0), s) else (Some (lsec, lusec), s))"

definition dtls1_is_timer_expired :: "'w env \<Rightarrow> 'w ssl \<Rightarrow> bool \<times> 'w ssl" where
  "dtls1_is_timer_expired e s =
     (let (r, s) = dtls1_get_timeout e s in
      case r of None \<Rightarrow> (False, s)
      | Some (sec, usec) \<Rightarrow> if sec > 0 \<or> usec > 0 then (False, s) else (True, s))"

definition dtls1_double_timeout :: "'w env \<Rightarrow> 'w ssl \<Rightarrow> 'w ssl" where
  "dtls1_double_timeout e s =
     (let us = timeout_duration_us (d1 s) * 2 mod 2 ^ 32;
          s = upd_d1 (\<lambda>d. d\<lparr>timeout_duration_us := (if us > 60000000 then 60000000 else us)\<rparr>) s
      in dtls1_start_timer e s)"

definition dtls1_stop_timer :: "'w env \<Rightarrow> 'w ssl \<Rightarrow> 'w ssl" where
  "dtls1_stop_timer e s =
     (let s = upd_d1 (\<lambda>d. d\<lparr>read_timeouts := 0, write_timeouts := 0, num_alerts := 0, next_timeout := (0, 0),
                              timeout_duration_us := 1000000\<rparr>) s;
          s = snd (do_io e (BIO_dgram_set_next_timeout 0 0) s)
      in dtls1_clear_sent_buffer s)"

subsection \<open>What the operations leave alone, and what they compute\<close>

lemma do_io_eq: "do_io e opn s = (fst (io e opn (world s)), s\<lparr>world := snd (io e opn (world s))\<rparr>)"
  by (simp add: do_io_def split: prod.split)

text \<open>Two connections that differ at most in their DTLS part and in what other components keep.\<close>

definition same_but_d1 :: "'w ssl \<Rightarrow> 'w ssl \<Rightarrow> bool" where
  "same_but_d1 s s' \<longleftrightarrow> (\<exists>d w. s' = s\<lparr>d1 := d, world := w\<rparr>)"

lemma same_but_d1_fields:
  assumes "same_but_d1 s s'"
  shows "statem s' = statem s" "s3 s' = s3 s" "init_buf s' = init_buf s" "version s' = version s"
    "meth s' = meth s" "server s' = server s" "errs s' = errs s" "init_num s' = init_num s"
    "options s' = options s" "wside s' = wside s"
  using assms by (auto simp: same_but_d1_def)

lemma same_but_d1_refl [simp]: "same_but_d1 s s"
  unfolding same_but_d1_def by (rule exI [of _ "d1 s"], rule exI [of _ "world s"]) simp

lemma same_but_d1I: "same_but_d1 s (s\<lparr>d1 := d, world := w\<rparr>)" "same_but_d1 s (s\<lparr>world := w, d1 := d\<rparr>)"
    "same_but_d1 s (s\<lparr>d1 := d\<rparr>)" "same_but_d1 s (s\<lparr>world := w\<rparr>)"
proof -
  have "s\<lparr>d1 := d\<rparr> = s\<lparr>d1 := d, world := world s\<rparr>" "s\<lparr>world := w\<rparr> = s\<lparr>d1 := d1 s, world := w\<rparr>"
    "s\<lparr>world := w, d1 := d\<rparr> = s\<lparr>d1 := d, world := w\<rparr>" by simp_all
  then show "same_but_d1 s (s\<lparr>d1 := d, world := w\<rparr>)" "same_but_d1 s (s\<lparr>world := w, d1 := d\<rparr>)"
    "same_but_d1 s (s\<lparr>d1 := d\<rparr>)" "same_but_d1 s (s\<lparr>world := w\<rparr>)"
    unfolding same_but_d1_def by metis+
qed

lemma same_but_d1_trans:
  assumes "same_but_d1 s t" and "same_but_d1 t u"
  shows "same_but_d1 s u"
proof -
  obtain d w d' w' where "t = s\<lparr>d1 := d, world := w\<rparr>" "u = t\<lparr>d1 := d', world := w'\<rparr>"
    using assms unfolding same_but_d1_def by blast
  then have "u = s\<lparr>d1 := d', world := w'\<rparr>" by simp
  then show ?thesis unfolding same_but_d1_def by blast
qed

lemma same_but_d1_io [simp]: "same_but_d1 s (snd (do_io e opn s))" "same_but_d1 s (upd_d1 f s)"
  by (simp_all add: do_io_eq same_but_d1I)

lemma same_but_d1_get_current_time [simp]: "same_but_d1 s (snd (get_current_time e s))"
  by (simp add: get_current_time_def Let_def split_beta)

lemma same_but_d1_timer [simp]:
  "same_but_d1 s (dtls1_clear_sent_buffer s)" "same_but_d1 s (dtls1_clear_received_buffer s)"
  "same_but_d1 s (run_timer_cb e us s)"
  "same_but_d1 s (dtls1_start_timer e s)" "same_but_d1 s (dtls1_stop_timer e s)"
  "same_but_d1 s (dtls1_double_timeout e s)" "same_but_d1 s (snd (dtls1_get_timeout e s))"
  "same_but_d1 s (snd (dtls1_is_timer_expired e s))"
proof -
  show c: "same_but_d1 s (dtls1_clear_sent_buffer s)" "same_but_d1 s (dtls1_clear_received_buffer s)" for s :: "'a ssl"
    by (simp_all add: dtls1_clear_sent_buffer_def dtls1_clear_received_buffer_def)
  show cb: "same_but_d1 s (run_timer_cb e us s)" for us and s :: "'a ssl"
    by (auto simp: run_timer_cb_def Let_def split_beta intro: same_but_d1_trans [OF same_but_d1_io])
  show st: "same_but_d1 s (dtls1_start_timer e s)" for s :: "'a ssl"
    by (auto simp: dtls1_start_timer_def Let_def split_beta cb intro!: same_but_d1_trans [OF _ same_but_d1_io(1)]
        same_but_d1_trans [OF _ same_but_d1_io(2)] same_but_d1_trans [OF _ same_but_d1_get_current_time])
  show "same_but_d1 s (dtls1_stop_timer e s)"
    by (auto simp: dtls1_stop_timer_def Let_def intro!: same_but_d1_trans [OF _ c(1)]
        same_but_d1_trans [OF _ same_but_d1_io(1)] same_but_d1I)
  show "same_but_d1 s (dtls1_double_timeout e s)"
    by (auto simp: dtls1_double_timeout_def Let_def intro!: same_but_d1_trans [OF _ st])
  show g: "same_but_d1 s (snd (dtls1_get_timeout e s))"
    by (simp add: dtls1_get_timeout_def Let_def split_beta)
  show "same_but_d1 s (snd (dtls1_is_timer_expired e s))"
    using g by (simp add: dtls1_is_timer_expired_def Let_def split_beta split: option.split)
qed

lemma timer_statem [simp]:
  "statem (dtls1_clear_sent_buffer s) = statem s" "statem (dtls1_clear_received_buffer s) = statem s"
  "statem (dtls1_start_timer e s) = statem s" "statem (dtls1_stop_timer e s) = statem s"
  by (rule same_but_d1_fields, simp)+

text \<open>A \<^verbatim>\<open>struct timeval\<close> in microseconds.\<close>

definition tv_us :: "int \<times> int \<Rightarrow> int" where
  "tv_us tv = fst tv * 1000000 + snd tv"

definition tv_ok :: "int \<times> int \<Rightarrow> bool" where
  "tv_ok tv \<longleftrightarrow> 0 \<le> snd tv \<and> snd tv < 1000000"

definition clock :: "'w env \<Rightarrow> 'w ssl \<Rightarrow> int" where
  "clock e s = fst (io e gettimeofday (world s))"

lemma start_timer_running:
  assumes "next_timeout (d1 s) \<noteq> (0, 0)"
  shows "tv_us (next_timeout (d1 (dtls1_start_timer e s))) = clock e s + int (timeout_duration_us (d1 s))"
    and "tv_ok (next_timeout (d1 (dtls1_start_timer e s)))"
    and "d1 (dtls1_start_timer e s) = (d1 s)\<lparr>next_timeout := next_timeout (d1 (dtls1_start_timer e s))\<rparr>"
  using assms
  by (auto simp: dtls1_start_timer_def get_current_time_def Let_def split_beta do_io_eq tv_us_def tv_ok_def clock_def
      of_nat_diff zdiv_int)

lemma timer_expired_eq:
  assumes "next_timeout (d1 s) \<noteq> (0, 0)" and "tv_ok (next_timeout (d1 s))"
  shows "fst (dtls1_is_timer_expired e s) \<longleftrightarrow> tv_us (next_timeout (d1 s)) < clock e s + 15000 \<or>
    tv_us (next_timeout (d1 s)) \<le> clock e s"
proof -
  obtain ns nu where n: "next_timeout (d1 s) = (ns, nu)" by fastforce
  obtain ts tu where t: "clock e s div 1000000 = ts" "clock e s mod 1000000 = tu" by simp
  have "clock e s = ts * 1000000 + tu" "0 \<le> tu" "tu < 1000000" unfolding t [symmetric] by simp_all
  moreover have "fst (dtls1_is_timer_expired e s) \<longleftrightarrow>
      (ns < ts \<or> ns = ts \<and> nu \<le> tu \<or> (if nu < tu then ns - ts = 1 \<and> nu - tu + 1000000 < 15000 else ns = ts \<and> nu - tu < 15000))"
    using assms(1) t n calculation assms(2)
    by (auto simp: dtls1_is_timer_expired_def dtls1_get_timeout_def get_current_time_def Let_def do_io_eq clock_def
        tv_ok_def split: if_splits)
  ultimately show ?thesis using assms n unfolding tv_us_def tv_ok_def by auto
qed

end
