(* ===== verification/Statem_Lib.thy ===== *)
theory Statem_Lib
  imports Proto_Version Dtls_Timer
begin

unbundle bit_operations_syntax

section \<open>Helpers of the handshake state machine\<close>

text \<open>
  Alerts (\<^verbatim>\<open>ssl/s3_msg.c\<close>,
  \<^verbatim>\<open>ssl/d1_msg.c\<close>); the accessors and \<^verbatim>\<open>ossl_statem_fatal\<close> of \<^verbatim>\<open>ssl/statem/statem.c\<close>;
  \<^verbatim>\<open>ssl3_renegotiate_check\<close> of \<^verbatim>\<open>ssl/s3_lib.c\<close>; \<^verbatim>\<open>tls_setup_handshake\<close> and
  \<^verbatim>\<open>tls_finish_handshake\<close> of \<^verbatim>\<open>ssl/statem/statem_lib.c\<close>.  The lemmas say which parts of the
  connection these helpers leave alone and that \<^verbatim>\<open>ossl_statem_fatal\<close> always ends in the error
  state.
\<close>

subsection \<open>State machine accessors\<close>

definition SSL_get_state :: "'w ssl \<Rightarrow> ossl_handshake_state" where
  "SSL_get_state s = hand_state (statem s)"

definition SSL_in_init :: "'w ssl \<Rightarrow> bool" where
  "SSL_in_init s = in_init (statem s)"

definition SSL_is_init_finished :: "'w ssl \<Rightarrow> bool" where
  "SSL_is_init_finished s \<longleftrightarrow> \<not> in_init (statem s) \<and> hand_state (statem s) = TLS_ST_OK"

definition SSL_in_before :: "'w ssl \<Rightarrow> bool" where
  "SSL_in_before s \<longleftrightarrow>
     hand_state (statem s) = TLS_ST_BEFORE \<and> flow_state (statem s) = MSG_FLOW_UNINITED"

definition ossl_statem_clear :: "'w ssl \<Rightarrow> 'w ssl" where
  "ossl_statem_clear s = upd_st (\<lambda>st. st\<lparr>flow_state := MSG_FLOW_UNINITED, hand_state := TLS_ST_BEFORE,
     in_init := True, no_cert_verify := False\<rparr>) s"

definition ossl_statem_set_renegotiate :: "'w ssl \<Rightarrow> 'w ssl" where
  "ossl_statem_set_renegotiate s =
     upd_st (\<lambda>st. st\<lparr>in_init := True, request_state := TLS_ST_SW_HELLO_REQ\<rparr>) s"

definition ossl_statem_in_error :: "'w ssl \<Rightarrow> bool" where
  "ossl_statem_in_error s \<longleftrightarrow> flow_state (statem s) = MSG_FLOW_ERROR"

definition ossl_statem_set_in_init :: "bool \<Rightarrow> 'w ssl \<Rightarrow> 'w ssl" where
  "ossl_statem_set_in_init b s = upd_st (\<lambda>st. st\<lparr>in_init := b\<rparr>) s"

definition ossl_statem_get_in_handshake :: "'w ssl \<Rightarrow> int" where
  "ossl_statem_get_in_handshake s = in_handshake (statem s)"

definition ossl_statem_set_in_handshake :: "bool \<Rightarrow> 'w ssl \<Rightarrow> 'w ssl" where
  "ossl_statem_set_in_handshake inhand s =
     upd_st (\<lambda>st. st\<lparr>in_handshake := (if inhand then in_handshake st + 1 else in_handshake st - 1)\<rparr>) s"

definition ossl_statem_skip_early_data :: "'w ssl \<Rightarrow> bool" where
  "ossl_statem_skip_early_data s =
     (if ext_early_data (ext s) \<noteq> SSL_EARLY_DATA_REJECTED then False
      else if \<not> server s \<or> hand_state (statem s) \<noteq> TLS_ST_EARLY_DATA \<or>
              hello_retry_request s = SSL_HRR_COMPLETE then False
      else True)"

definition ossl_statem_check_finish_init :: "int \<Rightarrow> 'w ssl \<Rightarrow> 'w ssl" where
  "ossl_statem_check_finish_init sending s =
     (let hs = hand_state (statem s) in
      if sending = - 1 then
        (if hs = TLS_ST_PENDING_EARLY_DATA_END \<or> hs = TLS_ST_EARLY_DATA then
           (let s = ossl_statem_set_in_init True s in
            if early_data_state s = SSL_EARLY_DATA_WRITE_RETRY
            then s\<lparr>early_data_state := SSL_EARLY_DATA_FINISHED_WRITING\<rparr> else s)
         else s)
      else if \<not> server s then
        (if sending \<noteq> 0 \<and> (hs = TLS_ST_PENDING_EARLY_DATA_END \<or> hs = TLS_ST_EARLY_DATA) \<and>
              early_data_state s \<noteq> SSL_EARLY_DATA_WRITING \<or>
            sending = 0 \<and> hs = TLS_ST_EARLY_DATA then
           (let s = ossl_statem_set_in_init True s in
            if sending \<noteq> 0 \<and> early_data_state s = SSL_EARLY_DATA_WRITE_RETRY
            then s\<lparr>early_data_state := SSL_EARLY_DATA_FINISHED_WRITING\<rparr> else s)
         else s)
      else
        (if early_data_state s = SSL_EARLY_DATA_FINISHED_READING \<and> hs = TLS_ST_EARLY_DATA
         then ossl_statem_set_in_init True s else s))"

definition ossl_statem_set_hello_verify_done :: "'w ssl \<Rightarrow> 'w ssl" where
  "ossl_statem_set_hello_verify_done s =
     upd_st (\<lambda>st. st\<lparr>flow_state := MSG_FLOW_UNINITED, in_init := True,
                      hand_state := TLS_ST_SR_CLNT_HELLO\<rparr>) s"

definition ossl_statem_app_data_allowed :: "'w ssl \<Rightarrow> bool" where
  "ossl_statem_app_data_allowed s =
     (let st = statem s in
      if flow_state st = MSG_FLOW_UNINITED then False
      else if in_read_app_data (s3 s) = 0 \<or> total_renegotiations (s3 s) = 0 then False
      else if server s then hand_state st = TLS_ST_BEFORE \<or> hand_state st = TLS_ST_SR_CLNT_HELLO
      else hand_state st = TLS_ST_CW_CLNT_HELLO)"

definition ossl_statem_export_allowed :: "'w ssl \<Rightarrow> bool" where
  "ossl_statem_export_allowed s \<longleftrightarrow>
     previous_server_finished_len (s3 s) \<noteq> 0 \<and> hand_state (statem s) \<noteq> TLS_ST_SW_FINISHED"

definition ossl_statem_export_early_allowed :: "'w ssl \<Rightarrow> bool" where
  "ossl_statem_export_early_allowed s \<longleftrightarrow>
     ext_early_data (ext s) = SSL_EARLY_DATA_ACCEPTED \<or>
     \<not> server s \<and> ext_early_data (ext s) \<noteq> SSL_EARLY_DATA_NOT_SENT"

subsection \<open>Alerts and fatal errors\<close>

definition notify :: "'w env \<Rightarrow> int \<Rightarrow> int \<Rightarrow> 'w ssl \<Rightarrow> 'w ssl" where
  "notify e wher ret s =
     (if query e has_info_callback s \<noteq> 0 then snd (do_io e (info_callback wher ret) s) else s)"

text \<open>\<^verbatim>\<open>ssl3_dispatch_alert\<close> and \<^verbatim>\<open>dtls1_dispatch_alert\<close> differ only in the record layer function
  that they hand the two bytes to.\<close>

definition dispatch_alert :: "'w env \<Rightarrow> 'w ssl \<Rightarrow> int \<times> 'w ssl" where
  "dispatch_alert e s =
     (let s = upd_s3 (\<lambda>x. x\<lparr>alert_dispatch := False\<rparr>) s;
          bytes = [fst (send_alert (s3 s)), snd (send_alert (s3 s))];
          (i, s) = do_io e (do_write SSL3_RT_ALERT bytes) s
      in if i \<le> 0 then (i, upd_s3 (\<lambda>x. x\<lparr>alert_dispatch := True\<rparr>) s)
         else let s = snd (do_io e BIO_flush s);
                  s = (if query e has_msg_callback s \<noteq> 0
                       then snd (do_io e (msg_callback SSL3_RT_ALERT bytes) s) else s)
              in (i, notify e SSL_CB_WRITE_ALERT (int (be_val bytes)) s))"

definition ssl3_send_alert :: "'w env \<Rightarrow> int \<Rightarrow> int \<Rightarrow> 'w ssl \<Rightarrow> int \<times> 'w ssl" where
  "ssl3_send_alert e level desc s =
     (let desc = (if SSL_TREAT_AS_TLS13 s then tls13_alert_code desc else alert_value (meth s) desc);
          desc = (if version s = SSL3_VERSION \<and> desc = SSL_AD_PROTOCOL_VERSION
                  then SSL_AD_HANDSHAKE_FAILURE else desc)
      in if desc < 0 then (- 1, s)
         else let s = (if level = SSL3_AL_FATAL \<and> session_set s
                       then snd (do_io e SSL_CTX_remove_session s) else s);
                  s = upd_s3 (\<lambda>x. x\<lparr>alert_dispatch := True,
                                    send_alert := (word_of_int level, word_of_int desc)\<rparr>) s
              in if query e RECORD_LAYER_write_pending s = 0 then dispatch_alert e s else (- 1, s))"

definition ERR_put_error :: "ssl_func \<Rightarrow> ssl_reason \<Rightarrow> 'w ssl \<Rightarrow> 'w ssl" where
  "ERR_put_error func reason s = s\<lparr>errs := (func, reason) # errs s\<rparr>"

definition ossl_statem_fatal :: "'w env \<Rightarrow> int \<Rightarrow> ssl_func \<Rightarrow> ssl_reason \<Rightarrow> 'w ssl \<Rightarrow> 'w ssl" where
  "ossl_statem_fatal e al func reason s =
     (let s = ERR_put_error func reason s in
      if in_init (statem s) \<and> flow_state (statem s) = MSG_FLOW_ERROR then s
      else let s = upd_st (\<lambda>st. st\<lparr>in_init := True, flow_state := MSG_FLOW_ERROR\<rparr>) s
           in if al \<noteq> SSL_AD_NO_ALERT \<and> enc_write_state (statem s) \<noteq> ENC_WRITE_STATE_INVALID
              then snd (ssl3_send_alert e SSL3_AL_FATAL al s) else s)"

definition check_fatal :: "'w env \<Rightarrow> ssl_func \<Rightarrow> 'w ssl \<Rightarrow> 'w ssl" where
  "check_fatal e f s =
     (if \<not> (in_init (statem s) \<and> flow_state (statem s) = MSG_FLOW_ERROR)
      then ossl_statem_fatal e SSL_AD_INTERNAL_ERROR f SSL_R_MISSING_FATAL s else s)"

definition statem_flush :: "'w env \<Rightarrow> 'w ssl \<Rightarrow> bool \<times> 'w ssl" where
  "statem_flush e s =
     (let s = s\<lparr>rwstate := SSL_WRITING\<rparr>; (r, s) = do_io e BIO_flush s
      in if r \<le> 0 then (False, s) else (True, s\<lparr>rwstate := SSL_NOTHING\<rparr>))"

definition ssl3_renegotiate_check :: "'w env \<Rightarrow> bool \<Rightarrow> 'w ssl \<Rightarrow> bool \<times> 'w ssl" where
  "ssl3_renegotiate_check e initok s =
     (if s3_renegotiate (s3 s) then
        (if query e RECORD_LAYER_read_pending s = 0 \<and> query e RECORD_LAYER_write_pending s = 0 \<and>
            (initok \<or> \<not> SSL_in_init s) then
           (True, upd_s3 (\<lambda>x. x\<lparr>s3_renegotiate := False, num_renegotiations := num_renegotiations x + 1,
                                 total_renegotiations := total_renegotiations x + 1\<rparr>)
                    (ossl_statem_set_renegotiate s))
         else (False, s))
      else (False, s))"

subsection \<open>Start and end of a handshake\<close>

definition cipher_usable :: "'w ssl \<Rightarrow> int \<Rightarrow> ssl_cipher \<Rightarrow> bool" where
  "cipher_usable s ver_max c =
     (if SSL_IS_DTLS s
      then DTLS_VERSION_GE ver_max (min_dtls c) \<and> DTLS_VERSION_LE ver_max (max_dtls c)
      else ver_max \<ge> min_tls c \<and> ver_max \<le> max_tls c)"

definition tls_setup_handshake :: "'w env \<Rightarrow> 'w ssl \<Rightarrow> bool \<times> 'w ssl" where
  "tls_setup_handshake e s =
     (let (r, s) = call e ssl3_init_finished_mac s in
      if r = 0 then (False, s)
      else
        let s = s\<lparr>ext := (ext s)\<lparr>extflags := map (\<lambda>_. 0) (extflags (ext s))\<rparr>\<rparr> in
        if server s then
          (case ssl_get_min_max_version e s False of
             Inl _ \<Rightarrow> (False, ossl_statem_fatal e SSL_AD_INTERNAL_ERROR SSL_F_TLS_SETUP_HANDSHAKE
                               ERR_R_INTERNAL_ERROR s)
           | Inr (ver_min, ver_max, _) \<Rightarrow>
              if \<not> list_ex (cipher_usable s ver_max) (SSL_get_ciphers e s) then
                (False, ossl_statem_fatal e SSL_AD_HANDSHAKE_FAILURE SSL_F_TLS_SETUP_HANDSHAKE
                          SSL_R_NO_CIPHERS_AVAILABLE s)
              else if SSL_IS_FIRST_HANDSHAKE s then (True, tsan_counter Session_ctx_sess_accept s)
              else (True, upd_s3 (\<lambda>x. x\<lparr>cert_request := False\<rparr>)
                            (tsan_counter Ctx_sess_accept_renegotiate s)))
        else
          let s = (if SSL_IS_FIRST_HANDSHAKE s then tsan_counter Session_ctx_sess_connect s
                   else tsan_counter Session_ctx_sess_connect_renegotiate s);
              s = upd_s3 (\<lambda>x. x\<lparr>client_random := replicate 32 0\<rparr>) s;
              s = s\<lparr>hit := False\<rparr>;
              s = upd_s3 (\<lambda>x. x\<lparr>cert_req := 0\<rparr>) s
          in (True, if SSL_IS_DTLS s then set_use_timer True s else s))"

text \<open>The block of \<^verbatim>\<open>tls_finish_handshake\<close> under \<^verbatim>\<open>if (cleanuphand)\<close>.\<close>

definition finish_cleanup :: "'w env \<Rightarrow> 'w ssl \<Rightarrow> 'w ssl" where
  "finish_cleanup e s =
     (let s = s\<lparr>renegotiate := False, new_session := False\<rparr>;
          s = upd_st (\<lambda>st. st\<lparr>cleanuphand := False\<rparr>) s;
          s = s\<lparr>ext := (ext s)\<lparr>ticket_expected := False\<rparr>\<rparr>;
          s = snd (call e ssl3_cleanup_key_block s);
          s = (if server s then
                 let s = (if SSL_IS_TLS13 s then s else snd (do_io e ssl_update_cache_server s));
                     s = tsan_counter Ctx_sess_accept_good s
                 in s\<lparr>handshake_func := ossl_statem_accept_fn\<rparr>
               else
                 let s = (if SSL_IS_TLS13 s then
                            (if query e session_cache_client s \<noteq> 0
                             then snd (do_io e SSL_CTX_remove_session s) else s)
                          else snd (do_io e ssl_update_cache_client s));
                     s = (if hit s then tsan_counter Session_ctx_sess_hit s else s);
                     s = s\<lparr>handshake_func := ossl_statem_connect_fn\<rparr>
                 in tsan_counter Session_ctx_sess_connect_good s)
      in if SSL_IS_DTLS s
         then dtls1_clear_received_buffer
                (s\<lparr>d1 := (d1 s)\<lparr>handshake_read_seq := 0, handshake_write_seq := 0,
                                  next_handshake_write_seq := 0\<rparr>\<rparr>)
         else s)"

definition tls_finish_handshake ::
  "'w env \<Rightarrow> work_state \<Rightarrow> bool \<Rightarrow> bool \<Rightarrow> 'w ssl \<Rightarrow> work_state \<times> 'w ssl" where
  "tls_finish_handshake e wst clearbufs stop s =
     (let cleanup = cleanuphand (statem s);
          (freed, s) =
            (if clearbufs then
               let s = (if \<not> SSL_IS_DTLS s then s\<lparr>init_buf := None\<rparr> else s);
                   (r, s) = call e ssl_free_wbio_buffer s
               in if r = 0 then (False, s) else (True, s\<lparr>init_num := 0\<rparr>)
             else (True, s))
      in if \<not> freed then
           (WORK_ERROR, ossl_statem_fatal e SSL_AD_INTERNAL_ERROR SSL_F_TLS_FINISH_HANDSHAKE
                          ERR_R_INTERNAL_ERROR s)
         else
           let s = (if SSL_IS_TLS13 s \<and> \<not> server s \<and> post_handshake_auth s = SSL_PHA_REQUESTED
                    then s\<lparr>post_handshake_auth := SSL_PHA_EXT_SENT\<rparr> else s);
               s = (if cleanup then finish_cleanup e s else s);
               s = ossl_statem_set_in_init False s;
               s = (if cleanup \<or> \<not> SSL_IS_TLS13 s \<or> SSL_IS_FIRST_HANDSHAKE s
                    then notify e SSL_CB_HANDSHAKE_DONE 1 s else s)
           in if \<not> stop then (WORK_FINISHED_CONTINUE, ossl_statem_set_in_init True s)
              else (WORK_FINISHED_STOP, s))"

subsection \<open>Shared pieces of the transition functions\<close>

text \<open>The key exchange and authentication masks of \<^verbatim>\<open>s->s3->tmp.new_cipher\<close>, which is set whenever
  these are evaluated: the ServerHello has been processed.\<close>

definition new_cipher_mkey :: "'w ssl \<Rightarrow> u32" where
  "new_cipher_mkey s = (case new_cipher (s3 s) of Some c \<Rightarrow> algorithm_mkey c | None \<Rightarrow> 0)"

definition new_cipher_auth :: "'w ssl \<Rightarrow> u32" where
  "new_cipher_auth s = (case new_cipher (s3 s) of Some c \<Rightarrow> algorithm_auth c | None \<Rightarrow> 0)"

text \<open>\<open>goto_state\<close> is \<^verbatim>\<open>st->hand_state = h; return 1;\<close>; falling out of the \<^verbatim>\<open>switch\<close> is \<open>(False, s)\<close>.\<close>

definition goto_state :: "ossl_handshake_state \<Rightarrow> 'w ssl \<Rightarrow> bool \<times> 'w ssl" where
  "goto_state h s = (True, set_hand_state h s)"

definition on_message :: "int \<Rightarrow> int \<Rightarrow> ossl_handshake_state \<Rightarrow> 'w ssl \<Rightarrow> bool \<times> 'w ssl" where
  "on_message mt expected h s = (if mt = expected then goto_state h s else (False, s))"

text \<open>The code after \<^verbatim>\<open>err:\<close>, which the two read transition functions share but for the function
  code in the error.\<close>

definition read_transition_err :: "'w env \<Rightarrow> ssl_func \<Rightarrow> int \<Rightarrow> 'w ssl \<Rightarrow> 'w ssl" where
  "read_transition_err e f mt s =
     (if SSL_IS_DTLS s \<and> mt = SSL3_MT_CHANGE_CIPHER_SPEC then
        let s = s\<lparr>init_num := 0\<rparr>; s = s\<lparr>rwstate := SSL_READING\<rparr>;
            s = snd (do_io e BIO_clear_retry_flags s)
        in snd (do_io e BIO_set_retry_read s)
      else ossl_statem_fatal e SSL_AD_UNEXPECTED_MESSAGE f SSL_R_UNEXPECTED_MESSAGE s)"

text \<open>\<open>cont h s\<close> is \<^verbatim>\<open>st->hand_state = h; return WRITE_TRAN_CONTINUE;\<close>, and \<open>tran_error\<close> the internal
  error of the \<^verbatim>\<open>default\<close> cases.\<close>

definition cont :: "ossl_handshake_state \<Rightarrow> 'w ssl \<Rightarrow> write_tran \<times> 'w ssl" where
  "cont h s = (WRITE_TRAN_CONTINUE, set_hand_state h s)"

definition tran_error :: "'w env \<Rightarrow> ssl_func \<Rightarrow> 'w ssl \<Rightarrow> write_tran \<times> 'w ssl" where
  "tran_error e f s =
     (WRITE_TRAN_ERROR, ossl_statem_fatal e SSL_AD_INTERNAL_ERROR f ERR_R_INTERNAL_ERROR s)"

text \<open>\<open>step_ok r\<close> continues with the next statement when the call \<open>r\<close> succeeded and otherwise is
  \<^verbatim>\<open>return WORK_ERROR\<close>.\<close>

definition step_ok :: "int \<times> 'w ssl \<Rightarrow> ('w ssl \<Rightarrow> work_state \<times> 'w ssl) \<Rightarrow> work_state \<times> 'w ssl" where
  "step_ok r f = (if fst r = 0 then (WORK_ERROR, snd r) else f (snd r))"

definition finished_continue :: "'w ssl \<Rightarrow> work_state \<times> 'w ssl" where
  "finished_continue s = (WORK_FINISHED_CONTINUE, s)"

definition key_update_post :: "'w env \<Rightarrow> 'w ssl \<Rightarrow> work_state \<times> 'w ssl" where
  "key_update_post e s =
     (let (ok, s) = statem_flush e s in
      if \<not> ok then (WORK_MORE_A, s) else step_ok (call e (tls13_update_key True) s) finished_continue)"

text \<open>The result of \<^verbatim>\<open>construct_message\<close>: \<open>None\<close> for the return value 0, otherwise the construction
  function (\<open>None\<close> for a null pointer) and the message type.\<close>

type_synonym confunc_mt = "(construct_fn option \<times> int) option"

definition confunc :: "construct_fn \<Rightarrow> int \<Rightarrow> 'w ssl \<Rightarrow> confunc_mt \<times> 'w ssl" where
  "confunc f mt s = (Some (Some f, mt), s)"

definition construct_bad_state :: "'w env \<Rightarrow> ssl_func \<Rightarrow> 'w ssl \<Rightarrow> confunc_mt \<times> 'w ssl" where
  "construct_bad_state e f s =
     (None, ossl_statem_fatal e SSL_AD_INTERNAL_ERROR f SSL_R_BAD_HANDSHAKE_STATE s)"

definition ccs_construct :: "'w ssl \<Rightarrow> construct_fn" where
  "ccs_construct s =
     (if SSL_IS_DTLS s then dtls_construct_change_cipher_spec else tls_construct_change_cipher_spec)"

definition process_bad_state :: "'w env \<Rightarrow> ssl_func \<Rightarrow> 'w ssl \<Rightarrow> msg_process_return \<times> 'w ssl" where
  "process_bad_state e f s =
     (MSG_PROCESS_ERROR, ossl_statem_fatal e SSL_AD_INTERNAL_ERROR f ERR_R_INTERNAL_ERROR s)"

definition post_process_bad_state :: "'w env \<Rightarrow> ssl_func \<Rightarrow> 'w ssl \<Rightarrow> work_state \<times> 'w ssl" where
  "post_process_bad_state e f s =
     (WORK_ERROR, ossl_statem_fatal e SSL_AD_INTERNAL_ERROR f ERR_R_INTERNAL_ERROR s)"

subsection \<open>What the helpers leave alone\<close>

text \<open>
  \<open>alert_frame s s'\<close>: \<open>s'\<close> is \<open>s\<close> up to the pending alert, the error queue and the outside world.
\<close>

definition alert_blank :: "'w ssl \<Rightarrow> 'w ssl" where
  "alert_blank s =
     s\<lparr>s3 := (s3 s)\<lparr>alert_dispatch := False, send_alert := (0, 0)\<rparr>, errs := [], world := undefined\<rparr>"

definition alert_frame :: "'w ssl \<Rightarrow> 'w ssl \<Rightarrow> bool" where
  "alert_frame s s' \<longleftrightarrow> alert_blank s' = alert_blank s"

lemma alert_frame_refl [simp]: "alert_frame s s"
  by (simp add: alert_frame_def)

lemma alert_frame_trans [trans]: "alert_frame s s1 \<Longrightarrow> alert_frame s1 s2 \<Longrightarrow> alert_frame s s2"
  by (simp add: alert_frame_def)

lemma alert_frame_updates [simp]:
  "alert_frame s (s\<lparr>world := w\<rparr>)" "alert_frame s (s\<lparr>errs := c\<rparr>)"
  "alert_frame s (s\<lparr>s3 := (s3 s)\<lparr>alert_dispatch := a\<rparr>\<rparr>)"
  "alert_frame s (s\<lparr>s3 := (s3 s)\<lparr>alert_dispatch := a, send_alert := b\<rparr>\<rparr>)"
  by (simp_all add: alert_frame_def alert_blank_def)

lemma alert_frame_do_io [simp]: "alert_frame s (snd (do_io e opn s))"
  by (simp add: do_io_eq)

lemma alert_frame_notify [simp]: "alert_frame s (notify e wher ret s)"
  by (simp add: notify_def)

lemma alert_frame_steps:
  assumes "alert_frame s t"
  shows "alert_frame s (snd (do_io e opn t))" "alert_frame s (notify e wher ret t)"
    "alert_frame s (upd_s3 (\<lambda>x. x\<lparr>alert_dispatch := a\<rparr>) t)"
    "alert_frame s (upd_s3 (\<lambda>x. x\<lparr>alert_dispatch := a, send_alert := b\<rparr>) t)"
  using alert_frame_trans [OF assms] by simp_all

lemma dispatch_alert_frame: "alert_frame s (snd (dispatch_alert e s))"
proof -
  have "snd (if b then (i, x) else (j, y)) = (if b then x else y)" for b and i j :: int and x y :: "'a ssl" by simp
  then show ?thesis
    unfolding dispatch_alert_def Let_def split_beta by (simp only: if_split) (auto intro!: alert_frame_steps)
qed

lemma ssl3_send_alert_frame: "alert_frame s (snd (ssl3_send_alert e level desc s))"
proof -
  have "alert_frame s (snd (dispatch_alert e s1))" if "alert_frame s s1" for s1
    by (rule alert_frame_trans [OF that dispatch_alert_frame])
  then show ?thesis
    by (auto simp: ssl3_send_alert_def Let_def do_io_eq alert_frame_def alert_blank_def)
qed

lemma alert_frame_fields:
  assumes "alert_frame s s'"
  shows "statem s' = statem s" "version s' = version s" "meth s' = meth s" "server s' = server s"
    "hit s' = hit s" "session s' = session s" "ext s' = ext s" "init_num s' = init_num s"
    "early_data_state s' = early_data_state s" "hello_retry_request s' = hello_retry_request s"
    "post_handshake_auth s' = post_handshake_auth s" "init_buf s' = init_buf s"
proof -
  have *: "f s' = f s" if "\<And>x. f (alert_blank x) = f x" for f :: "'a ssl \<Rightarrow> 'b"
    using assms that unfolding alert_frame_def by metis
  show "statem s' = statem s" "version s' = version s" "meth s' = meth s" "server s' = server s"
    "hit s' = hit s" "session s' = session s" "ext s' = ext s" "init_num s' = init_num s"
    "early_data_state s' = early_data_state s" "hello_retry_request s' = hello_retry_request s"
    "post_handshake_auth s' = post_handshake_auth s" "init_buf s' = init_buf s"
    by (rule *, simp add: alert_blank_def)+
qed

text \<open>\<^verbatim>\<open>ossl_statem_fatal\<close> always ends in the error state, keeps the handshake state, and queues the
  error.\<close>

lemma ossl_statem_fatal_frame:
  "alert_frame (upd_st (\<lambda>st. st\<lparr>in_init := True, flow_state := MSG_FLOW_ERROR\<rparr>) s)
     (ossl_statem_fatal e al func reason s)"
proof -
  let ?err = "\<lambda>s. upd_st (\<lambda>st. st\<lparr>in_init := True, flow_state := MSG_FLOW_ERROR\<rparr>) s"
  have 1: "alert_frame (?err s) (?err (ERR_put_error func reason s))"
    by (simp add: ERR_put_error_def alert_frame_def alert_blank_def)
  show ?thesis
  proof (cases "in_init (statem s) \<and> flow_state (statem s) = MSG_FLOW_ERROR")
    case True
    then have "ossl_statem_fatal e al func reason s = ERR_put_error func reason s"
      by (simp add: ossl_statem_fatal_def Let_def ERR_put_error_def)
    moreover have "?err (ERR_put_error func reason s) = ERR_put_error func reason s"
      using True by (simp add: ERR_put_error_def)
    ultimately show ?thesis using 1 by simp
  next
    case False
    then have "ossl_statem_fatal e al func reason s \<in>
        {?err (ERR_put_error func reason s),
         snd (ssl3_send_alert e SSL3_AL_FATAL al (?err (ERR_put_error func reason s)))}"
      by (simp add: ossl_statem_fatal_def Let_def ERR_put_error_def)
    then show ?thesis using 1 alert_frame_trans [OF 1 ssl3_send_alert_frame] by fastforce
  qed
qed

lemma ossl_statem_fatal_fields [simp]:
  "statem (ossl_statem_fatal e al func reason s) =
     (statem s)\<lparr>in_init := True, flow_state := MSG_FLOW_ERROR\<rparr>"
  "meth (ossl_statem_fatal e al func reason s) = meth s"
  "server (ossl_statem_fatal e al func reason s) = server s"
  "hit (ossl_statem_fatal e al func reason s) = hit s"
  "version (ossl_statem_fatal e al func reason s) = version s"
  using alert_frame_fields [OF ossl_statem_fatal_frame [of s e al func reason]] by simp_all

lemma check_fatal_fields [simp]:
  "flow_state (statem (check_fatal e f s)) = MSG_FLOW_ERROR"
  "in_init (statem (check_fatal e f s))"
  "hand_state (statem (check_fatal e f s)) = hand_state (statem s)"
  by (auto simp: check_fatal_def)

lemma SSL_IS_DTLS_cong: "meth s = meth s' \<Longrightarrow> SSL_IS_DTLS s = SSL_IS_DTLS s'"
  by (simp add: SSL_IS_DTLS_def)

lemma SSL_IS_TLS13_cong: "meth s = meth s' \<Longrightarrow> SSL_IS_TLS13 s = SSL_IS_TLS13 s'"
  by (simp add: SSL_IS_TLS13_def SSL_IS_DTLS_cong [of s s'])

lemma set_hand_state_fields [simp]:
  "hand_state (statem (set_hand_state h s)) = h"
  "flow_state (statem (set_hand_state h s)) = flow_state (statem s)"
  "in_init (statem (set_hand_state h s)) = in_init (statem s)"
  "meth (set_hand_state h s) = meth s" "hit (set_hand_state h s) = hit s"
  "version (set_hand_state h s) = version s" "s3 (set_hand_state h s) = s3 s"
  "ext (set_hand_state h s) = ext s" "session (set_hand_state h s) = session s"
  "server (set_hand_state h s) = server s"
  by (simp_all add: set_hand_state_def)

text \<open>A refused message either is an out-of-order ChangeCipherSpec on a datagram connection, which is
  dropped, or puts the connection into the error state.\<close>

lemma read_transition_err_cases:
  "SSL_IS_DTLS s \<and> mt = SSL3_MT_CHANGE_CIPHER_SPEC \<and> statem (read_transition_err e f mt s) = statem s \<or>
   \<not> (SSL_IS_DTLS s \<and> mt = SSL3_MT_CHANGE_CIPHER_SPEC) \<and>
     statem (read_transition_err e f mt s) = (statem s)\<lparr>in_init := True, flow_state := MSG_FLOW_ERROR\<rparr>"
  by (simp add: read_transition_err_def Let_def do_io_eq)

lemma goto_state_simps [simp]:
  "goto_state h s = (r, s') \<longleftrightarrow> r \<and> s' = set_hand_state h s"
  by (auto simp: goto_state_def)

lemma on_message_True:
  "on_message mt m h s = (True, s') \<longleftrightarrow> mt = m \<and> s' = set_hand_state h s"
  by (auto simp: on_message_def goto_state_def)

lemma on_message_False: "on_message mt m h s = (False, s') \<longleftrightarrow> mt \<noteq> m \<and> s' = s"
  by (auto simp: on_message_def goto_state_def)

lemmas on_message_simps = on_message_True on_message_False

lemma set_hand_state_TLS13 [simp]: "SSL_IS_TLS13 (set_hand_state h s) = SSL_IS_TLS13 s"
  by (rule SSL_IS_TLS13_cong) simp

lemma set_hand_state_DTLS [simp]: "SSL_IS_DTLS (set_hand_state h s) = SSL_IS_DTLS s"
  by (rule SSL_IS_DTLS_cong) simp

lemma cont_simps [simp]: "cont h s = (w, s') \<longleftrightarrow> w = WRITE_TRAN_CONTINUE \<and> s' = set_hand_state h s"
  by (auto simp: cont_def)

lemma tran_error_Continue [simp]: "tran_error e f s \<noteq> (WRITE_TRAN_CONTINUE, s')"
  by (simp add: tran_error_def)

lemma tran_error_Finished [simp]: "tran_error e f s \<noteq> (WRITE_TRAN_FINISHED, s')"
  by (simp add: tran_error_def)

lemma tls_finish_handshake_stop:
  "tls_finish_handshake e wst clearbufs True s \<noteq> (WORK_FINISHED_CONTINUE, s')"
  by (simp add: tls_finish_handshake_def Let_def split_beta)

lemma set_hand_state_cipher [simp]:
  "new_cipher_auth (set_hand_state h s) = new_cipher_auth s"
  "new_cipher_mkey (set_hand_state h s) = new_cipher_mkey s"
  by (simp_all add: new_cipher_auth_def new_cipher_mkey_def)

subsection \<open>Flights\<close>

text \<open>
  \<open>reads tr keeps s mts s'\<close>: starting in \<open>s\<close>, the messages \<open>mts\<close> are accepted one after the other by
  the read transition \<open>tr\<close>; after each of them the code that processes the message may change the
  connection, as long as \<open>keeps\<close> holds between what it got and what it left.

  \<open>writes tr con keeps s mts s'\<close>: starting in \<open>s\<close>, the write transition \<open>tr\<close> goes through states for
  which \<open>con\<close> names the message types \<open>mts\<close>, until it reports that the flight is finished.
\<close>

inductive reads :: "(int \<Rightarrow> 'w ssl \<Rightarrow> bool \<times> 'w ssl) \<Rightarrow> ('w ssl \<Rightarrow> 'w ssl \<Rightarrow> bool) \<Rightarrow>
    'w ssl \<Rightarrow> int list \<Rightarrow> 'w ssl \<Rightarrow> bool"
  for tr keeps where
  reads_Nil: "reads tr keeps s [] s"
| reads_Cons: "tr mt s = (True, s1) \<Longrightarrow> keeps s1 s2 \<Longrightarrow> reads tr keeps s2 mts s' \<Longrightarrow>
    reads tr keeps s (mt # mts) s'"

inductive_simps reads_Nil_iff: "reads tr keeps s [] s'"
inductive_simps reads_Cons_iff: "reads tr keeps s (mt # mts) s'"

lemma reads_append:
  "reads tr keeps s (xs @ ys) s' \<longleftrightarrow> (\<exists>s1. reads tr keeps s xs s1 \<and> reads tr keeps s1 ys s')"
  by (induction xs arbitrary: s) (auto simp: reads_Nil_iff reads_Cons_iff)

lemma reads_moves:
  assumes "reads tr keeps s mts s'" and "hand_state (statem s) \<noteq> hand_state (statem s')"
  obtains mt mts1 s1 s2 where "mts = mt # mts1" "tr mt s = (True, s1)" "keeps s1 s2"
    "reads tr keeps s2 mts1 s'"
  using assms by (cases mts) (auto simp: reads_Nil_iff reads_Cons_iff)

inductive writes :: "('w ssl \<Rightarrow> write_tran \<times> 'w ssl) \<Rightarrow> ('w ssl \<Rightarrow> confunc_mt) \<Rightarrow>
    ('w ssl \<Rightarrow> 'w ssl \<Rightarrow> bool) \<Rightarrow> 'w ssl \<Rightarrow> int list \<Rightarrow> 'w ssl \<Rightarrow> bool"
  for tr con keeps where
  writes_Finished: "tr s = (WRITE_TRAN_FINISHED, s') \<Longrightarrow> writes tr con keeps s [] s'"
| writes_Continue: "tr s = (WRITE_TRAN_CONTINUE, s1) \<Longrightarrow> con s1 = Some (f, mt) \<Longrightarrow> keeps s1 s2 \<Longrightarrow>
    writes tr con keeps s2 mts s' \<Longrightarrow> writes tr con keeps s (mt # mts) s'"

inductive_cases writes_cases: "writes tr con keeps s mts s'"

lemma writes_step:
  assumes "tr s = (WRITE_TRAN_CONTINUE, s1)" and "con s1 = Some (f, mt)" and "writes tr con keeps s mts s'"
  obtains mts' s2 where "mts = mt # mts'" "keeps s1 s2" "writes tr con keeps s2 mts' s'"
  using assms(3) by (rule writes_cases) (use assms(1,2) in auto)

lemma writes_stop:
  assumes "tr s = (WRITE_TRAN_FINISHED, s1)" and "writes tr con keeps s mts s'"
  shows "mts = [] \<and> s' = s1"
  using assms(2) by (rule writes_cases) (use assms(1) in auto)

subsection \<open>The two sides\<close>

text \<open>
  The function pointers that \<^verbatim>\<open>read_state_machine\<close> and \<^verbatim>\<open>write_state_machine\<close> choose by
  \<^verbatim>\<open>s->server\<close>, and the contract under which the message flow uses them:

  \<^item> a message that is refused leads to the error state, or is a datagram ChangeCipherSpec that is
    dropped without touching the state machine;
  \<^item> every state that reading a message leads to has a function that processes the message;
  \<^item> every state that a write transition leads to has a message to send, unless the work before it
    ends the handshake;
  \<^item> when there is no message the connection is in the error state;
  \<^item> the limit on the size of the next message does not depend on the progress of reading it.
\<close>

record 'w side =
  read_transition :: "'w env \<Rightarrow> int \<Rightarrow> 'w ssl \<Rightarrow> bool \<times> 'w ssl"
  max_message_size :: "'w ssl \<Rightarrow> nat"
  process_message :: "'w env \<Rightarrow> nat \<Rightarrow> 'w ssl \<Rightarrow> msg_process_return \<times> 'w ssl"
  post_process_message :: "'w env \<Rightarrow> work_state \<Rightarrow> 'w ssl \<Rightarrow> work_state \<times> 'w ssl"
  write_transition :: "'w env \<Rightarrow> 'w ssl \<Rightarrow> write_tran \<times> 'w ssl"
  pre_work :: "'w env \<Rightarrow> work_state \<Rightarrow> 'w ssl \<Rightarrow> work_state \<times> 'w ssl"
  post_work :: "'w env \<Rightarrow> work_state \<Rightarrow> 'w ssl \<Rightarrow> work_state \<times> 'w ssl"
  construct_message :: "'w env \<Rightarrow> 'w ssl \<Rightarrow> confunc_mt \<times> 'w ssl"

locale handshake_side =
  fixes sd :: "'w side"
  assumes read_rejects: "read_transition sd e mt s = (False, s') \<Longrightarrow>
      ossl_statem_in_error s' \<or>
      SSL_IS_DTLS s \<and> mt = SSL3_MT_CHANGE_CIPHER_SPEC \<and> statem s' = statem s"
    and read_has_handler: "read_transition sd e mt s = (True, s1) \<Longrightarrow>
      hand_state (statem s2) = hand_state (statem s1) \<Longrightarrow>
      \<exists>f. process_message sd e len s2 = process e f len s2"
    and write_has_message: "write_transition sd e s = (WRITE_TRAN_CONTINUE, s1) \<Longrightarrow>
      pre_work sd e wst s1 = (WORK_FINISHED_CONTINUE, s2) \<Longrightarrow>
      hand_state (statem s2) = hand_state (statem s1) \<Longrightarrow> fst (construct_message sd e s2) \<noteq> None"
    and construct_fails: "construct_message sd e s = (None, s') \<Longrightarrow> ossl_statem_in_error s'"
    and max_size_frame: "max_message_size sd (upd_st (\<lambda>st. st\<lparr>read_state := r\<rparr>) s) = max_message_size sd s"
      "max_message_size sd (s\<lparr>init_buf := b\<rparr>) = max_message_size sd s"

end
