(* ===== verification/Statem_Clnt.thy ===== *)
theory Statem_Clnt
  imports Statem_Lib
begin

unbundle bit_operations_syntax

section \<open>The client's side of the handshake\<close>

text \<open>
  Model of the transition, work and dispatch functions of \<^verbatim>\<open>ssl/statem/statem_clnt.c\<close>.  Each
  function takes the environment and the connection and returns the C return value with the changed
  connection.  A \<^verbatim>\<open>switch\<close> is a \<open>case\<close> expression; a label that another case falls through to is a
  definition of its own, and so is the code after \<^verbatim>\<open>err:\<close>.
\<close>

subsection \<open>Read transitions\<close>

definition cert_req_allowed :: "'w ssl \<Rightarrow> bool" where
  "cert_req_allowed s =
     (if version s > SSL3_VERSION \<and> flag (new_cipher_auth s) SSL_aNULL \<or>
         flag (new_cipher_auth s) (SSL_aSRP OR SSL_aPSK) then False else True)"

definition key_exchange_expected :: "'w ssl \<Rightarrow> bool" where
  "key_exchange_expected s =
     (if flag (new_cipher_mkey s) (SSL_kDHE OR SSL_kECDHE OR SSL_kDHEPSK OR SSL_kECDHEPSK OR SSL_kSRP)
      then True else False)"

definition client13_ok_read :: "'w env \<Rightarrow> int \<Rightarrow> 'w ssl \<Rightarrow> bool \<times> 'w ssl" where
  "client13_ok_read e mt s =
     (if mt = SSL3_MT_NEWSESSION_TICKET then goto_state TLS_ST_CR_SESSION_TICKET s
      else if mt = SSL3_MT_KEY_UPDATE then goto_state TLS_ST_CR_KEY_UPDATE s
      else if mt = SSL3_MT_CERTIFICATE_REQUEST then
        (if \<not> SSL_IS_DTLS s \<and> post_handshake_auth s = SSL_PHA_EXT_SENT then
           let s = s\<lparr>post_handshake_auth := SSL_PHA_REQUESTED\<rparr>;
               (r, s) = call e tls13_restore_handshake_digest_for_pha s
           in if r = 0 then (False, s) else goto_state TLS_ST_CR_CERT_REQ s
         else (False, s))
      else (False, s))"

definition ossl_statem_client13_read_transition :: "'w env \<Rightarrow> int \<Rightarrow> 'w ssl \<Rightarrow> bool \<times> 'w ssl" where
  "ossl_statem_client13_read_transition e mt s =
     (case hand_state (statem s) of
        TLS_ST_CW_CLNT_HELLO \<Rightarrow> on_message mt SSL3_MT_SERVER_HELLO TLS_ST_CR_SRVR_HELLO s
      | TLS_ST_CR_SRVR_HELLO \<Rightarrow>
          on_message mt SSL3_MT_ENCRYPTED_EXTENSIONS TLS_ST_CR_ENCRYPTED_EXTENSIONS s
      | TLS_ST_CR_ENCRYPTED_EXTENSIONS \<Rightarrow>
          (if hit s then on_message mt SSL3_MT_FINISHED TLS_ST_CR_FINISHED s
           else if mt = SSL3_MT_CERTIFICATE_REQUEST then goto_state TLS_ST_CR_CERT_REQ s
           else on_message mt SSL3_MT_CERTIFICATE TLS_ST_CR_CERT s)
      | TLS_ST_CR_CERT_REQ \<Rightarrow> on_message mt SSL3_MT_CERTIFICATE TLS_ST_CR_CERT s
      | TLS_ST_CR_CERT \<Rightarrow> on_message mt SSL3_MT_CERTIFICATE_VERIFY TLS_ST_CR_CERT_VRFY s
      | TLS_ST_CR_CERT_VRFY \<Rightarrow> on_message mt SSL3_MT_FINISHED TLS_ST_CR_FINISHED s
      | TLS_ST_OK \<Rightarrow> client13_ok_read e mt s
      | _ \<Rightarrow> (False, s))"

text \<open>The cases of \<^verbatim>\<open>ossl_statem_client_read_transition\<close> that are entered by falling through, last
  one first.\<close>

definition cr_cert_req_case :: "int \<Rightarrow> 'w ssl \<Rightarrow> bool \<times> 'w ssl" where
  "cr_cert_req_case mt s = on_message mt SSL3_MT_SERVER_DONE TLS_ST_CR_SRVR_DONE s"

definition cr_key_exch_case :: "int \<Rightarrow> 'w ssl \<Rightarrow> bool \<times> 'w ssl" where
  "cr_key_exch_case mt s =
     (if mt = SSL3_MT_CERTIFICATE_REQUEST then
        (if cert_req_allowed s then goto_state TLS_ST_CR_CERT_REQ s else (False, s))
      else cr_cert_req_case mt s)"

definition cr_cert_status_case :: "int \<Rightarrow> 'w ssl \<Rightarrow> bool \<times> 'w ssl" where
  "cr_cert_status_case mt s =
     (let ske_expected = key_exchange_expected s in
      if ske_expected \<or> flag (new_cipher_mkey s) SSL_PSK \<and> mt = SSL3_MT_SERVER_KEY_EXCHANGE then
        (if mt = SSL3_MT_SERVER_KEY_EXCHANGE then goto_state TLS_ST_CR_KEY_EXCH s else (False, s))
      else cr_key_exch_case mt s)"

definition cr_cert_case :: "int \<Rightarrow> 'w ssl \<Rightarrow> bool \<times> 'w ssl" where
  "cr_cert_case mt s =
     (if status_expected (ext s) \<and> mt = SSL3_MT_CERTIFICATE_STATUS
      then goto_state TLS_ST_CR_CERT_STATUS s else cr_cert_status_case mt s)"

definition cr_srvr_hello_case :: "int \<Rightarrow> 'w ssl \<Rightarrow> bool \<times> 'w ssl" where
  "cr_srvr_hello_case mt s =
     (if hit s then
        (if ticket_expected (ext s)
         then on_message mt SSL3_MT_NEWSESSION_TICKET TLS_ST_CR_SESSION_TICKET s
         else on_message mt SSL3_MT_CHANGE_CIPHER_SPEC TLS_ST_CR_CHANGE s)
      else if SSL_IS_DTLS s \<and> mt = DTLS1_MT_HELLO_VERIFY_REQUEST
        then goto_state DTLS_ST_CR_HELLO_VERIFY_REQUEST s
      else if version s \<ge> TLS1_VERSION \<and> session_secret_cb (ext s) \<and> session_tick (session s) \<and>
              mt = SSL3_MT_CHANGE_CIPHER_SPEC
        then goto_state TLS_ST_CR_CHANGE (s\<lparr>hit := True\<rparr>)
      else if \<not> flag (new_cipher_auth s) (SSL_aNULL OR SSL_aSRP OR SSL_aPSK)
        then on_message mt SSL3_MT_CERTIFICATE TLS_ST_CR_CERT s
      else
        let ske_expected = key_exchange_expected s in
        if ske_expected \<or> flag (new_cipher_mkey s) SSL_PSK \<and> mt = SSL3_MT_SERVER_KEY_EXCHANGE
        then on_message mt SSL3_MT_SERVER_KEY_EXCHANGE TLS_ST_CR_KEY_EXCH s
        else if mt = SSL3_MT_CERTIFICATE_REQUEST \<and> cert_req_allowed s
        then goto_state TLS_ST_CR_CERT_REQ s
        else on_message mt SSL3_MT_SERVER_DONE TLS_ST_CR_SRVR_DONE s)"

definition client_read_switch :: "int \<Rightarrow> 'w ssl \<Rightarrow> bool \<times> 'w ssl" where
  "client_read_switch mt s =
     (case hand_state (statem s) of
        TLS_ST_CW_CLNT_HELLO \<Rightarrow>
          (if mt = SSL3_MT_SERVER_HELLO then goto_state TLS_ST_CR_SRVR_HELLO s
           else if SSL_IS_DTLS s
           then on_message mt DTLS1_MT_HELLO_VERIFY_REQUEST DTLS_ST_CR_HELLO_VERIFY_REQUEST s
           else (False, s))
      | TLS_ST_EARLY_DATA \<Rightarrow> on_message mt SSL3_MT_SERVER_HELLO TLS_ST_CR_SRVR_HELLO s
      | TLS_ST_CR_SRVR_HELLO \<Rightarrow> cr_srvr_hello_case mt s
      | TLS_ST_CR_CERT \<Rightarrow> cr_cert_case mt s
      | TLS_ST_CR_CERT_STATUS \<Rightarrow> cr_cert_status_case mt s
      | TLS_ST_CR_KEY_EXCH \<Rightarrow> cr_key_exch_case mt s
      | TLS_ST_CR_CERT_REQ \<Rightarrow> cr_cert_req_case mt s
      | TLS_ST_CW_FINISHED \<Rightarrow>
          (if ticket_expected (ext s)
           then on_message mt SSL3_MT_NEWSESSION_TICKET TLS_ST_CR_SESSION_TICKET s
           else on_message mt SSL3_MT_CHANGE_CIPHER_SPEC TLS_ST_CR_CHANGE s)
      | TLS_ST_CR_SESSION_TICKET \<Rightarrow> on_message mt SSL3_MT_CHANGE_CIPHER_SPEC TLS_ST_CR_CHANGE s
      | TLS_ST_CR_CHANGE \<Rightarrow> on_message mt SSL3_MT_FINISHED TLS_ST_CR_FINISHED s
      | TLS_ST_OK \<Rightarrow> on_message mt SSL3_MT_HELLO_REQUEST TLS_ST_CR_HELLO_REQ s
      | _ \<Rightarrow> (False, s))"

definition ossl_statem_client_read_transition :: "'w env \<Rightarrow> int \<Rightarrow> 'w ssl \<Rightarrow> bool \<times> 'w ssl" where
  "ossl_statem_client_read_transition e mt s =
     (let (ok, s) = (if SSL_IS_TLS13 s then ossl_statem_client13_read_transition e mt s
                     else client_read_switch mt s)
      in if ok then (True, s)
         else (False, read_transition_err e SSL_F_OSSL_STATEM_CLIENT_READ_TRANSITION mt s))"

subsection \<open>Write transitions\<close>

definition cw_cert_or_finished :: "'w ssl \<Rightarrow> write_tran \<times> 'w ssl" where
  "cw_cert_or_finished s = cont (if cert_req (s3 s) \<noteq> 0 then TLS_ST_CW_CERT else TLS_ST_CW_FINISHED) s"

definition ossl_statem_client13_write_transition :: "'w env \<Rightarrow> 'w ssl \<Rightarrow> write_tran \<times> 'w ssl" where
  "ossl_statem_client13_write_transition e s =
     (case hand_state (statem s) of
        TLS_ST_CR_CERT_REQ \<Rightarrow>
          (if post_handshake_auth s = SSL_PHA_REQUESTED then cont TLS_ST_CW_CERT s
           else if \<not> flag (shutdown s) SSL_SENT_SHUTDOWN
           then tran_error e SSL_F_OSSL_STATEM_CLIENT13_WRITE_TRANSITION s
           else cont TLS_ST_OK s)
      | TLS_ST_CR_FINISHED \<Rightarrow>
          (if early_data_state s = SSL_EARLY_DATA_WRITE_RETRY \<or>
              early_data_state s = SSL_EARLY_DATA_FINISHED_WRITING
           then cont TLS_ST_PENDING_EARLY_DATA_END s
           else if flag (options s) SSL_OP_ENABLE_MIDDLEBOX_COMPAT \<and> hello_retry_request s = SSL_HRR_NONE
           then cont TLS_ST_CW_CHANGE s
           else cw_cert_or_finished s)
      | TLS_ST_PENDING_EARLY_DATA_END \<Rightarrow>
          (if ext_early_data (ext s) = SSL_EARLY_DATA_ACCEPTED then cont TLS_ST_CW_END_OF_EARLY_DATA s
           else cw_cert_or_finished s)
      | TLS_ST_CW_END_OF_EARLY_DATA \<Rightarrow> cw_cert_or_finished s
      | TLS_ST_CW_CHANGE \<Rightarrow> cw_cert_or_finished s
      | TLS_ST_CW_CERT \<Rightarrow>
          cont (if cert_req (s3 s) = 1 then TLS_ST_CW_CERT_VRFY else TLS_ST_CW_FINISHED) s
      | TLS_ST_CW_CERT_VRFY \<Rightarrow> cont TLS_ST_CW_FINISHED s
      | TLS_ST_CR_KEY_UPDATE \<Rightarrow> cont TLS_ST_OK s
      | TLS_ST_CW_KEY_UPDATE \<Rightarrow> cont TLS_ST_OK s
      | TLS_ST_CR_SESSION_TICKET \<Rightarrow> cont TLS_ST_OK s
      | TLS_ST_CW_FINISHED \<Rightarrow> cont TLS_ST_OK s
      | TLS_ST_OK \<Rightarrow>
          (if key_update s \<noteq> SSL_KEY_UPDATE_NONE then cont TLS_ST_CW_KEY_UPDATE s
           else (WRITE_TRAN_FINISHED, s))
      | _ \<Rightarrow> tran_error e SSL_F_OSSL_STATEM_CLIENT13_WRITE_TRANSITION s)"

definition cw_key_exch_next :: "'w ssl \<Rightarrow> ossl_handshake_state" where
  "cw_key_exch_next s =
     (let h = (if cert_req (s3 s) = 1 then TLS_ST_CW_CERT_VRFY else TLS_ST_CW_CHANGE)
      in if flag (s3_flags (s3 s)) TLS1_FLAGS_SKIP_CERT_VERIFY then TLS_ST_CW_CHANGE else h)"

definition cw_change_next :: "'w ssl \<Rightarrow> ossl_handshake_state" where
  "cw_change_next s =
     (if hello_retry_request s = SSL_HRR_PENDING then TLS_ST_CW_CLNT_HELLO
      else if early_data_state s = SSL_EARLY_DATA_CONNECTING then TLS_ST_EARLY_DATA
      else if \<not> SSL_IS_DTLS s \<and> npn_seen (s3 s) then TLS_ST_CW_NEXT_PROTO else TLS_ST_CW_FINISHED)"

definition cr_hello_req_write :: "'w env \<Rightarrow> 'w ssl \<Rightarrow> write_tran \<times> 'w ssl" where
  "cr_hello_req_write e s =
     (let (now, s) = ssl3_renegotiate_check e True s in
      if now then
        let (ok, s) = tls_setup_handshake e s
        in if \<not> ok then (WRITE_TRAN_ERROR, s) else cont TLS_ST_CW_CLNT_HELLO s
      else cont TLS_ST_OK s)"

definition client12_write_transition :: "'w env \<Rightarrow> 'w ssl \<Rightarrow> write_tran \<times> 'w ssl" where
  "client12_write_transition e s =
     (case hand_state (statem s) of
        TLS_ST_OK \<Rightarrow> (if \<not> renegotiate s then (WRITE_TRAN_FINISHED, s) else cont TLS_ST_CW_CLNT_HELLO s)
      | TLS_ST_BEFORE \<Rightarrow> cont TLS_ST_CW_CLNT_HELLO s
      | TLS_ST_CW_CLNT_HELLO \<Rightarrow>
          (if early_data_state s = SSL_EARLY_DATA_CONNECTING then
             cont (if flag (options s) SSL_OP_ENABLE_MIDDLEBOX_COMPAT then TLS_ST_CW_CHANGE
                   else TLS_ST_EARLY_DATA) s
           else (WRITE_TRAN_FINISHED, s))
      | TLS_ST_CR_SRVR_HELLO \<Rightarrow>
          cont (if flag (options s) SSL_OP_ENABLE_MIDDLEBOX_COMPAT \<and>
                   early_data_state s \<noteq> SSL_EARLY_DATA_FINISHED_WRITING
                then TLS_ST_CW_CHANGE else TLS_ST_CW_CLNT_HELLO) s
      | TLS_ST_EARLY_DATA \<Rightarrow> (WRITE_TRAN_FINISHED, s)
      | DTLS_ST_CR_HELLO_VERIFY_REQUEST \<Rightarrow> cont TLS_ST_CW_CLNT_HELLO s
      | TLS_ST_CR_SRVR_DONE \<Rightarrow>
          cont (if cert_req (s3 s) \<noteq> 0 then TLS_ST_CW_CERT else TLS_ST_CW_KEY_EXCH) s
      | TLS_ST_CW_CERT \<Rightarrow> cont TLS_ST_CW_KEY_EXCH s
      | TLS_ST_CW_KEY_EXCH \<Rightarrow> cont (cw_key_exch_next s) s
      | TLS_ST_CW_CERT_VRFY \<Rightarrow> cont TLS_ST_CW_CHANGE s
      | TLS_ST_CW_CHANGE \<Rightarrow> cont (cw_change_next s) s
      | TLS_ST_CW_NEXT_PROTO \<Rightarrow> cont TLS_ST_CW_FINISHED s
      | TLS_ST_CW_FINISHED \<Rightarrow> (if hit s then cont TLS_ST_OK s else (WRITE_TRAN_FINISHED, s))
      | TLS_ST_CR_FINISHED \<Rightarrow> cont (if hit s then TLS_ST_CW_CHANGE else TLS_ST_OK) s
      | TLS_ST_CR_HELLO_REQ \<Rightarrow> cr_hello_req_write e s
      | _ \<Rightarrow> tran_error e SSL_F_OSSL_STATEM_CLIENT_WRITE_TRANSITION s)"

definition ossl_statem_client_write_transition :: "'w env \<Rightarrow> 'w ssl \<Rightarrow> write_tran \<times> 'w ssl" where
  "ossl_statem_client_write_transition e s =
     (if SSL_IS_TLS13 s then ossl_statem_client13_write_transition e s
      else client12_write_transition e s)"

subsection \<open>Work before and after sending a message\<close>

definition ossl_statem_client_pre_work :: "'w env \<Rightarrow> work_state \<Rightarrow> 'w ssl \<Rightarrow> work_state \<times> 'w ssl" where
  "ossl_statem_client_pre_work e wst s =
     (case hand_state (statem s) of
        TLS_ST_CW_CLNT_HELLO \<Rightarrow>
          (let s = s\<lparr>shutdown := 0\<rparr> in
           if SSL_IS_DTLS s then
             let (r, s) = call e ssl3_init_finished_mac s
             in if r = 0 then (WORK_ERROR, s) else (WORK_FINISHED_CONTINUE, s)
           else (WORK_FINISHED_CONTINUE, s))
      | TLS_ST_CW_CHANGE \<Rightarrow>
          (WORK_FINISHED_CONTINUE, if SSL_IS_DTLS s \<and> hit s then set_use_timer False s else s)
      | TLS_ST_PENDING_EARLY_DATA_END \<Rightarrow>
          (if early_data_state s = SSL_EARLY_DATA_FINISHED_WRITING \<or>
              early_data_state s = SSL_EARLY_DATA_NONE
           then (WORK_FINISHED_CONTINUE, s)
           else tls_finish_handshake e wst False True s)
      | TLS_ST_EARLY_DATA \<Rightarrow> tls_finish_handshake e wst False True s
      | TLS_ST_OK \<Rightarrow> tls_finish_handshake e wst True True s
      | _ \<Rightarrow> (WORK_FINISHED_CONTINUE, s))"

definition cw_clnt_hello_post :: "'w env \<Rightarrow> 'w ssl \<Rightarrow> work_state \<times> 'w ssl" where
  "cw_clnt_hello_post e s =
     (let fin = (\<lambda>s. finished_continue (if SSL_IS_DTLS s then s\<lparr>first_packet := True\<rparr> else s)) in
      if early_data_state s = SSL_EARLY_DATA_CONNECTING \<and> max_early_data s > 0 then
        (if \<not> flag (options s) SSL_OP_ENABLE_MIDDLEBOX_COMPAT then
           step_ok (call e (tls13_change_cipher_state (SSL3_CC_EARLY OR SSL3_CHANGE_CIPHER_CLIENT_WRITE)) s)
             fin
         else fin s)
      else let (ok, s) = statem_flush e s in if \<not> ok then (WORK_MORE_A, s) else fin s)"

definition cw_change_post :: "'w env \<Rightarrow> 'w ssl \<Rightarrow> work_state \<times> 'w ssl" where
  "cw_change_post e s =
     (if SSL_IS_TLS13 s \<or> hello_retry_request s = SSL_HRR_PENDING then finished_continue s
      else if early_data_state s = SSL_EARLY_DATA_CONNECTING \<and> max_early_data s > 0 then
        step_ok (call e (tls13_change_cipher_state (SSL3_CC_EARLY OR SSL3_CHANGE_CIPHER_CLIENT_WRITE)) s)
          finished_continue
      else
        let s = s\<lparr>session := (session s)\<lparr>session_cipher := new_cipher (s3 s), compress_meth := 0\<rparr>\<rparr> in
        step_ok (call e setup_key_block s) (\<lambda>s.
        step_ok (call e (change_cipher_state SSL3_CHANGE_CIPHER_CLIENT_WRITE) s) (\<lambda>s.
        finished_continue
          (if SSL_IS_DTLS s then snd (call e (dtls1_reset_seq_numbers SSL3_CC_WRITE) s) else s))))"

definition cw_finished_post :: "'w env \<Rightarrow> 'w ssl \<Rightarrow> work_state \<times> 'w ssl" where
  "cw_finished_post e s =
     (let (ok, s) = statem_flush e s in
      if \<not> ok then (WORK_MORE_B, s)
      else if SSL_IS_TLS13 s then
        step_ok (call e tls13_save_handshake_digest_for_pha s) (\<lambda>s.
        if post_handshake_auth s \<noteq> SSL_PHA_REQUESTED then
          step_ok (call e (change_cipher_state (SSL3_CC_APPLICATION OR SSL3_CHANGE_CIPHER_CLIENT_WRITE)) s)
            finished_continue
        else finished_continue s)
      else finished_continue s)"

definition ossl_statem_client_post_work :: "'w env \<Rightarrow> work_state \<Rightarrow> 'w ssl \<Rightarrow> work_state \<times> 'w ssl" where
  "ossl_statem_client_post_work e wst s =
     (let s = s\<lparr>init_num := 0\<rparr> in
      case hand_state (statem s) of
        TLS_ST_CW_CLNT_HELLO \<Rightarrow> cw_clnt_hello_post e s
      | TLS_ST_CW_END_OF_EARLY_DATA \<Rightarrow> finished_continue (s\<lparr>wside := (wside s)\<lparr>enc_write_ctx := None\<rparr>\<rparr>)
      | TLS_ST_CW_KEY_EXCH \<Rightarrow> step_ok (call e tls_client_key_exchange_post_work s) finished_continue
      | TLS_ST_CW_CHANGE \<Rightarrow> cw_change_post e s
      | TLS_ST_CW_FINISHED \<Rightarrow> cw_finished_post e s
      | TLS_ST_CW_KEY_UPDATE \<Rightarrow> key_update_post e s
      | _ \<Rightarrow> finished_continue s)"

subsection \<open>Dispatch on the handshake state\<close>

definition ossl_statem_client_construct_message :: "'w env \<Rightarrow> 'w ssl \<Rightarrow> confunc_mt \<times> 'w ssl" where
  "ossl_statem_client_construct_message e s =
     (case hand_state (statem s) of
        TLS_ST_CW_CHANGE \<Rightarrow> confunc (ccs_construct s) SSL3_MT_CHANGE_CIPHER_SPEC s
      | TLS_ST_CW_CLNT_HELLO \<Rightarrow> confunc tls_construct_client_hello SSL3_MT_CLIENT_HELLO s
      | TLS_ST_CW_END_OF_EARLY_DATA \<Rightarrow>
          confunc tls_construct_end_of_early_data SSL3_MT_END_OF_EARLY_DATA s
      | TLS_ST_PENDING_EARLY_DATA_END \<Rightarrow> (Some (None, SSL3_MT_DUMMY), s)
      | TLS_ST_CW_CERT \<Rightarrow> confunc tls_construct_client_certificate SSL3_MT_CERTIFICATE s
      | TLS_ST_CW_KEY_EXCH \<Rightarrow> confunc tls_construct_client_key_exchange SSL3_MT_CLIENT_KEY_EXCHANGE s
      | TLS_ST_CW_CERT_VRFY \<Rightarrow> confunc tls_construct_cert_verify SSL3_MT_CERTIFICATE_VERIFY s
      | TLS_ST_CW_NEXT_PROTO \<Rightarrow> confunc tls_construct_next_proto SSL3_MT_NEXT_PROTO s
      | TLS_ST_CW_FINISHED \<Rightarrow> confunc tls_construct_finished SSL3_MT_FINISHED s
      | TLS_ST_CW_KEY_UPDATE \<Rightarrow> confunc tls_construct_key_update SSL3_MT_KEY_UPDATE s
      | _ \<Rightarrow> construct_bad_state e SSL_F_OSSL_STATEM_CLIENT_CONSTRUCT_MESSAGE s)"

definition ossl_statem_client_max_message_size :: "'w ssl \<Rightarrow> nat" where
  "ossl_statem_client_max_message_size s =
     (case hand_state (statem s) of
        TLS_ST_CR_SRVR_HELLO \<Rightarrow> 20000
      | DTLS_ST_CR_HELLO_VERIFY_REQUEST \<Rightarrow> 258
      | TLS_ST_CR_CERT \<Rightarrow> max_cert_list s
      | TLS_ST_CR_CERT_VRFY \<Rightarrow> SSL3_RT_MAX_PLAIN_LENGTH
      | TLS_ST_CR_CERT_STATUS \<Rightarrow> SSL3_RT_MAX_PLAIN_LENGTH
      | TLS_ST_CR_KEY_EXCH \<Rightarrow> 102400
      | TLS_ST_CR_CERT_REQ \<Rightarrow> max_cert_list s
      | TLS_ST_CR_SRVR_DONE \<Rightarrow> 0
      | TLS_ST_CR_CHANGE \<Rightarrow> (if version s = DTLS1_BAD_VER then 3 else 1)
      | TLS_ST_CR_SESSION_TICKET \<Rightarrow> SSL3_RT_MAX_PLAIN_LENGTH
      | TLS_ST_CR_FINISHED \<Rightarrow> 64
      | TLS_ST_CR_ENCRYPTED_EXTENSIONS \<Rightarrow> 20000
      | TLS_ST_CR_KEY_UPDATE \<Rightarrow> 1
      | _ \<Rightarrow> 0)"

text \<open>The message is the first \<open>len\<close> bytes at \<open>init_msg\<close>: the packet that the handler gets.\<close>

definition ossl_statem_client_process_message ::
  "'w env \<Rightarrow> nat \<Rightarrow> 'w ssl \<Rightarrow> msg_process_return \<times> 'w ssl" where
  "ossl_statem_client_process_message e len s =
     (case hand_state (statem s) of
        TLS_ST_CR_SRVR_HELLO \<Rightarrow> process e tls_process_server_hello len s
      | DTLS_ST_CR_HELLO_VERIFY_REQUEST \<Rightarrow> process e dtls_process_hello_verify len s
      | TLS_ST_CR_CERT \<Rightarrow> process e tls_process_server_certificate len s
      | TLS_ST_CR_CERT_VRFY \<Rightarrow> process e tls_process_cert_verify len s
      | TLS_ST_CR_CERT_STATUS \<Rightarrow> process e tls_process_cert_status len s
      | TLS_ST_CR_KEY_EXCH \<Rightarrow> process e tls_process_key_exchange len s
      | TLS_ST_CR_CERT_REQ \<Rightarrow> process e tls_process_certificate_request len s
      | TLS_ST_CR_SRVR_DONE \<Rightarrow> process e tls_process_server_done len s
      | TLS_ST_CR_CHANGE \<Rightarrow> process e tls_process_change_cipher_spec len s
      | TLS_ST_CR_SESSION_TICKET \<Rightarrow> process e tls_process_new_session_ticket len s
      | TLS_ST_CR_FINISHED \<Rightarrow> process e tls_process_finished len s
      | TLS_ST_CR_HELLO_REQ \<Rightarrow> process e tls_process_hello_req len s
      | TLS_ST_CR_ENCRYPTED_EXTENSIONS \<Rightarrow> process e tls_process_encrypted_extensions len s
      | TLS_ST_CR_KEY_UPDATE \<Rightarrow> process e tls_process_key_update len s
      | _ \<Rightarrow> process_bad_state e SSL_F_OSSL_STATEM_CLIENT_PROCESS_MESSAGE s)"

definition ossl_statem_client_post_process_message ::
  "'w env \<Rightarrow> work_state \<Rightarrow> 'w ssl \<Rightarrow> work_state \<times> 'w ssl" where
  "ossl_statem_client_post_process_message e wst s =
     (case hand_state (statem s) of
        TLS_ST_CR_CERT_VRFY \<Rightarrow> post_process e tls_prepare_client_certificate wst s
      | TLS_ST_CR_CERT_REQ \<Rightarrow> post_process e tls_prepare_client_certificate wst s
      | _ \<Rightarrow> post_process_bad_state e SSL_F_OSSL_STATEM_CLIENT_POST_PROCESS_MESSAGE s)"

subsection \<open>What the client accepts\<close>

lemma client_read_True:
  "ossl_statem_client_read_transition e mt s = (True, s') \<longleftrightarrow>
     (if SSL_IS_TLS13 s then ossl_statem_client13_read_transition e mt s
      else client_read_switch mt s) = (True, s')"
  by (auto simp: ossl_statem_client_read_transition_def Let_def split: prod.splits if_splits)

lemma client_read_False:
  assumes "ossl_statem_client_read_transition e mt s = (False, s')"
  obtains s1 where
    "(if SSL_IS_TLS13 s then ossl_statem_client13_read_transition e mt s
      else client_read_switch mt s) = (False, s1)"
    "s' = read_transition_err e SSL_F_OSSL_STATEM_CLIENT_READ_TRANSITION mt s1"
  using assms by (auto simp: ossl_statem_client_read_transition_def Let_def split: prod.splits if_splits)

lemma client_read_switch_False: "client_read_switch mt s = (False, s') \<Longrightarrow> s' = s"
  by (auto simp: client_read_switch_def cr_srvr_hello_case_def cr_cert_case_def cr_cert_status_case_def
      cr_key_exch_case_def cr_cert_req_case_def on_message_False Let_def
      split: ossl_handshake_state.splits if_splits)

text \<open>In TLS 1.3 between the ServerHello and the Finished only the handshake state moves.\<close>

definition keeps13 :: "'w ssl \<Rightarrow> 'w ssl \<Rightarrow> bool" where
  "keeps13 s s' \<longleftrightarrow>
     hand_state (statem s') = hand_state (statem s) \<and> meth s' = meth s \<and> hit s' = hit s"

lemma keeps13_TLS13: "keeps13 s s' \<Longrightarrow> SSL_IS_TLS13 s' = SSL_IS_TLS13 s"
  by (rule SSL_IS_TLS13_cong) (simp add: keeps13_def)

lemma keeps13_refl [simp]: "keeps13 s s"
  by (simp add: keeps13_def)

text \<open>The message sequences that lead from a state to the server's Finished: the specification of the
  server's flight, for a resumed and a full handshake.\<close>

definition flights13 :: "bool \<Rightarrow> ossl_handshake_state \<Rightarrow> int list list" where
  "flights13 resumed h =
     (let auth = [SSL3_MT_CERTIFICATE, SSL3_MT_CERTIFICATE_VERIFY, SSL3_MT_FINISHED];
          after_ee = (if resumed then [[SSL3_MT_FINISHED]]
                      else [auth, SSL3_MT_CERTIFICATE_REQUEST # auth])
      in case h of
           TLS_ST_CR_FINISHED \<Rightarrow> [[]]
         | TLS_ST_CR_CERT_VRFY \<Rightarrow> [[SSL3_MT_FINISHED]]
         | TLS_ST_CR_CERT \<Rightarrow> [tl auth]
         | TLS_ST_CR_CERT_REQ \<Rightarrow> [auth]
         | TLS_ST_CR_ENCRYPTED_EXTENSIONS \<Rightarrow> after_ee
         | TLS_ST_CR_SRVR_HELLO \<Rightarrow> map ((#) SSL3_MT_ENCRYPTED_EXTENSIONS) after_ee
         | _ \<Rightarrow> [])"

lemma flights13_step:
  assumes "SSL_IS_TLS13 s" and "ossl_statem_client_read_transition e mt s = (True, s1)"
    and "flights13 (hit s) (hand_state (statem s)) \<noteq> []"
  shows "flights13 (hit s) (hand_state (statem s1)) \<noteq> []" "hit s1 = hit s" "meth s1 = meth s"
    "mts \<in> set (flights13 (hit s) (hand_state (statem s1))) \<Longrightarrow>
      mt # mts \<in> set (flights13 (hit s) (hand_state (statem s)))"
  using assms
  by (auto simp: client_read_True ossl_statem_client13_read_transition_def flights13_def on_message_True Let_def
      split: ossl_handshake_state.splits if_splits)

lemma reads_client13:
  assumes "reads (ossl_statem_client_read_transition e) keeps13 s mts s'"
    and "hand_state (statem s') = TLS_ST_CR_FINISHED" and "SSL_IS_TLS13 s"
    and "flights13 (hit s) (hand_state (statem s)) \<noteq> []"
  shows "mts \<in> set (flights13 (hit s) (hand_state (statem s)))"
  using assms
proof (induction rule: reads.induct)
  case (reads_Nil s)
  then show ?case by (simp add: flights13_def)
next
  case (reads_Cons mt s s1 s2 mts s')
  note st = flights13_step [OF reads_Cons.prems(2) reads_Cons.hyps(1) reads_Cons.prems(3)]
  have k: "hand_state (statem s2) = hand_state (statem s1)" "hit s2 = hit s" "SSL_IS_TLS13 s2"
    using reads_Cons.hyps(2) st(2,3) reads_Cons.prems(2) SSL_IS_TLS13_cong [of s2 s]
    by (auto simp: keeps13_def)
  show ?case using reads_Cons.IH [OF reads_Cons.prems(1) k(3)] k(1,2) st(1,4) by simp
qed

lemma reads_client13_complete:
  assumes "SSL_IS_TLS13 s" and "mts \<in> set (flights13 (hit s) (hand_state (statem s)))"
  shows "\<exists>s'. reads (ossl_statem_client_read_transition e) keeps13 s mts s' \<and>
    hand_state (statem s') = TLS_ST_CR_FINISHED"
  using assms
proof (induction mts arbitrary: s)
  case Nil
  then show ?case
    by (auto simp: flights13_def reads_Nil_iff Let_def split: ossl_handshake_state.splits if_splits)
next
  case (Cons mt mts)
  obtain s1 where s1: "ossl_statem_client_read_transition e mt s = (True, s1)" "SSL_IS_TLS13 s1"
      "mts \<in> set (flights13 (hit s1) (hand_state (statem s1)))"
    using Cons.prems
    by (auto simp: client_read_True ossl_statem_client13_read_transition_def flights13_def on_message_def Let_def
        goto_state_def split: ossl_handshake_state.splits if_splits)
  from Cons.IH [OF s1(2,3)] show ?case 
    using reads_Cons [of "ossl_statem_client_read_transition e" mt s s1 keeps13 s1] s1(1) by auto
qed

text \<open>Up to TLS 1.2 the server's flight after its ServerHello depends on the cipher suite.\<close>

definition keeps12 :: "'w ssl \<Rightarrow> 'w ssl \<Rightarrow> bool" where
  "keeps12 s s' \<longleftrightarrow>
     hand_state (statem s') = hand_state (statem s) \<and> meth s' = meth s \<and> hit s' = hit s \<and>
     version s' = version s \<and> new_cipher (s3 s') = new_cipher (s3 s) \<and> ext s' = ext s"

lemma keeps12_refl [simp]: "keeps12 s s"
  by (simp add: keeps12_def)

lemma keeps12_params:
  assumes "keeps12 s s'"
  shows "SSL_IS_TLS13 s' = SSL_IS_TLS13 s" "SSL_IS_DTLS s' = SSL_IS_DTLS s"
    "new_cipher_auth s' = new_cipher_auth s" "new_cipher_mkey s' = new_cipher_mkey s"
    "cert_req_allowed s' = cert_req_allowed s" "key_exchange_expected s' = key_exchange_expected s"
    "hand_state (statem s') = hand_state (statem s)" "hit s' = hit s" "ext s' = ext s"
  using assms SSL_IS_TLS13_cong [of s' s] SSL_IS_DTLS_cong [of s' s]
  by (simp_all add: keeps12_def cert_req_allowed_def key_exchange_expected_def new_cipher_auth_def
      new_cipher_mkey_def)

lemma set_hand_state_params [simp]:
  "cert_req_allowed (set_hand_state h s) = cert_req_allowed s"
  "key_exchange_expected (set_hand_state h s) = key_exchange_expected s"
  by (simp_all add: cert_req_allowed_def key_exchange_expected_def)

text \<open>What the negotiated parameters say about the parts of the flight: a Certificate is sent, a
  CertificateStatus may follow it, a ServerKeyExchange is required, or is optional, and a
  CertificateRequest is allowed.\<close>

record suite =
  sends_cert :: bool
  status_may :: bool
  ske_must :: bool
  ske_may :: bool
  req_may :: bool

definition suite_of :: "'w ssl \<Rightarrow> suite" where
  "suite_of s =
     \<lparr>sends_cert = \<not> flag (new_cipher_auth s) (SSL_aNULL OR SSL_aSRP OR SSL_aPSK),
      status_may = status_expected (ext s),
      ske_must = key_exchange_expected s,
      ske_may = flag (new_cipher_mkey s) SSL_PSK,
      req_may = cert_req_allowed s\<rparr>"

definition flights_req :: "suite \<Rightarrow> int list list" where
  "flights_req p =
     [SSL3_MT_SERVER_DONE] #
     (if req_may p then [[SSL3_MT_CERTIFICATE_REQUEST, SSL3_MT_SERVER_DONE]] else [])"

definition flights_ske :: "suite \<Rightarrow> int list list" where
  "flights_ske p =
     (if ske_must p then [] else flights_req p) @
     (if ske_must p \<or> ske_may p then map ((#) SSL3_MT_SERVER_KEY_EXCHANGE) (flights_req p) else [])"

definition flights_status :: "suite \<Rightarrow> int list list" where
  "flights_status p =
     flights_ske p @
     (if status_may p then map ((#) SSL3_MT_CERTIFICATE_STATUS) (flights_ske p) else [])"

definition flights12 :: "suite \<Rightarrow> ossl_handshake_state \<Rightarrow> int list list" where
  "flights12 p h =
     (case h of
        TLS_ST_CR_SRVR_DONE \<Rightarrow> [[]]
      | TLS_ST_CR_CERT_REQ \<Rightarrow> [[SSL3_MT_SERVER_DONE]]
      | TLS_ST_CR_KEY_EXCH \<Rightarrow> flights_req p
      | TLS_ST_CR_CERT_STATUS \<Rightarrow> flights_ske p
      | TLS_ST_CR_CERT \<Rightarrow> flights_status p
      | TLS_ST_CR_SRVR_HELLO \<Rightarrow>
          (if sends_cert p then map ((#) SSL3_MT_CERTIFICATE) (flights_status p) else flights_ske p)
      | _ \<Rightarrow> [])"

lemma suite_of_simps [simp]:
  "sends_cert (suite_of s) \<longleftrightarrow> \<not> flag (new_cipher_auth s) (SSL_aNULL OR SSL_aSRP OR SSL_aPSK)"
  "status_may (suite_of s) = status_expected (ext s)"
  "ske_must (suite_of s) = key_exchange_expected s"
  "ske_may (suite_of s) = flag (new_cipher_mkey s) SSL_PSK"
  "req_may (suite_of s) = cert_req_allowed s"
  "suite_of (set_hand_state h s) = suite_of s"
  by (simp_all add: suite_of_def)

lemma suite_of_cong: "keeps12 s s' \<Longrightarrow> suite_of s' = suite_of s"
  using keeps12_params [of s s'] by (simp add: suite_of_def)

lemma flights12_states:
  "flights12 p h \<noteq> [] \<Longrightarrow>
    h \<in> {TLS_ST_CR_SRVR_DONE, TLS_ST_CR_CERT_REQ, TLS_ST_CR_KEY_EXCH, TLS_ST_CR_CERT_STATUS,
         TLS_ST_CR_CERT, TLS_ST_CR_SRVR_HELLO}"
  by (cases h) (simp_all add: flights12_def)

lemma flights_nonempty: "flights_req p \<noteq> []" "flights_ske p \<noteq> []" "flights_status p \<noteq> []"
  by (simp_all add: flights_req_def flights_ske_def flights_status_def)

text \<open>No resumption decided by the next message: neither EAP-FAST's callback nor a datagram
  HelloVerifyRequest.\<close>

definition plain_full :: "'w ssl \<Rightarrow> bool" where
  "plain_full s \<longleftrightarrow> \<not> SSL_IS_TLS13 s \<and> \<not> SSL_IS_DTLS s \<and> \<not> hit s \<and> \<not> session_secret_cb (ext s)"

lemmas cr_cases = cr_srvr_hello_case_def cr_cert_case_def cr_cert_status_case_def cr_key_exch_case_def
  cr_cert_req_case_def

lemma flights12_step:
  assumes "plain_full s" and "client_read_switch mt s = (True, s1)"
    and "flights12 (suite_of s) (hand_state (statem s)) \<noteq> []"
  shows "(\<exists>h. s1 = set_hand_state h s \<and> flights12 (suite_of s) h \<noteq> [] \<and>
      (\<forall>mts \<in> set (flights12 (suite_of s) h). mt # mts \<in> set (flights12 (suite_of s) (hand_state (statem s)))))"
proof -
  note d = client_read_switch_def on_message_True flights12_def plain_full_def flights_nonempty
  from flights12_states [OF assms(3)] consider "hand_state (statem s) = TLS_ST_CR_SRVR_DONE"
    | "hand_state (statem s) = TLS_ST_CR_CERT_REQ" | "hand_state (statem s) = TLS_ST_CR_KEY_EXCH"
    | "hand_state (statem s) = TLS_ST_CR_CERT_STATUS" | "hand_state (statem s) = TLS_ST_CR_CERT"
    | "hand_state (statem s) = TLS_ST_CR_SRVR_HELLO" by blast
  then show ?thesis
  proof cases
    case 1
    with assms show ?thesis by (simp add: d)
  next
    case 2
    with assms show ?thesis by (intro exI [of _ TLS_ST_CR_SRVR_DONE]) (simp add: d cr_cases)
  next
    case 3
    with assms show ?thesis
      by (intro exI [of _ "if mt = SSL3_MT_SERVER_DONE then TLS_ST_CR_SRVR_DONE else TLS_ST_CR_CERT_REQ"])
        (auto simp: d cr_cases flights_req_def split: if_splits)
  next
    case 4
    with assms show ?thesis
      by (intro exI [of _ "if mt = SSL3_MT_SERVER_DONE then TLS_ST_CR_SRVR_DONE
            else if mt = SSL3_MT_SERVER_KEY_EXCHANGE then TLS_ST_CR_KEY_EXCH else TLS_ST_CR_CERT_REQ"])
        (auto simp: d cr_cases flights_req_def flights_ske_def Let_def split: if_splits)
  next
    case 5
    with assms show ?thesis
      by (intro exI [of _ "if mt = SSL3_MT_SERVER_DONE then TLS_ST_CR_SRVR_DONE
            else if mt = SSL3_MT_SERVER_KEY_EXCHANGE then TLS_ST_CR_KEY_EXCH
            else if mt = SSL3_MT_CERTIFICATE_STATUS then TLS_ST_CR_CERT_STATUS else TLS_ST_CR_CERT_REQ"])
        (auto simp: d cr_cases flights_req_def flights_ske_def flights_status_def Let_def split: if_splits)
  next
    case 6
    with assms show ?thesis
      by (intro exI [of _ "if mt = SSL3_MT_SERVER_DONE then TLS_ST_CR_SRVR_DONE
            else if mt = SSL3_MT_SERVER_KEY_EXCHANGE then TLS_ST_CR_KEY_EXCH
            else if mt = SSL3_MT_CERTIFICATE then TLS_ST_CR_CERT else TLS_ST_CR_CERT_REQ"])
        (auto simp: d cr_cases flights_req_def flights_ske_def Let_def split: if_splits)
  qed
qed

lemma reads_client12:
  assumes "reads (ossl_statem_client_read_transition e) keeps12 s mts s'"
    and "hand_state (statem s') = TLS_ST_CR_SRVR_DONE" and "plain_full s"
    and "flights12 (suite_of s) (hand_state (statem s)) \<noteq> []"
  shows "mts \<in> set (flights12 (suite_of s) (hand_state (statem s)))"
  using assms
proof (induction rule: reads.induct)
  case (reads_Nil s)
  then show ?case by (simp add: flights12_def)
next
  case (reads_Cons mt s s1 s2 mts s')
  have "client_read_switch mt s = (True, s1)"
    using reads_Cons.hyps(1) reads_Cons.prems(2) by (simp add: client_read_True plain_full_def)
  from flights12_step [OF reads_Cons.prems(2) this reads_Cons.prems(3)] obtain h where
    h: "s1 = set_hand_state h s" "flights12 (suite_of s) h \<noteq> []"
      "\<forall>mts \<in> set (flights12 (suite_of s) h). mt # mts \<in> set (flights12 (suite_of s) (hand_state (statem s)))"
    by blast
  note k = keeps12_params [OF reads_Cons.hyps(2)] suite_of_cong [OF reads_Cons.hyps(2)]
  have "plain_full s2" using reads_Cons.prems(2) k h(1) by (simp add: plain_full_def)
  with reads_Cons.IH reads_Cons.prems(1) k h show ?case by simp
qed

lemma plain_full_set_hand_state [simp]: "plain_full (set_hand_state h s) = plain_full s"
  by (simp add: plain_full_def)

lemma flights12_accepted:
  assumes "plain_full s" and "mt # mts \<in> set (flights12 (suite_of s) (hand_state (statem s)))"
  shows "\<exists>s1. client_read_switch mt s = (True, s1) \<and> plain_full s1 \<and>
    mts \<in> set (flights12 (suite_of s1) (hand_state (statem s1)))"
proof -
  note d = client_read_switch_def on_message_def flights12_def goto_state_def cr_cases Let_def
  have pf: "\<not> SSL_IS_DTLS s" "\<not> hit s" "\<not> session_secret_cb (ext s)"
    using assms(1) by (auto simp: plain_full_def)
  have ne: "flights12 (suite_of s) (hand_state (statem s)) \<noteq> []" using assms(2) by auto
  from flights12_states [OF ne] consider "hand_state (statem s) = TLS_ST_CR_SRVR_DONE"
    | "hand_state (statem s) = TLS_ST_CR_CERT_REQ" | "hand_state (statem s) = TLS_ST_CR_KEY_EXCH"
    | "hand_state (statem s) = TLS_ST_CR_CERT_STATUS" | "hand_state (statem s) = TLS_ST_CR_CERT"
    | "hand_state (statem s) = TLS_ST_CR_SRVR_HELLO" by blast
  then show ?thesis
  proof cases
    case 1
    with assms(2) show ?thesis by (simp add: d)
  next
    case 2
    with assms show ?thesis by (simp add: d)
  next
    case 3
    with assms show ?thesis by (auto simp: d flights_req_def split: if_splits)
  next
    case 4
    with assms show ?thesis by (auto simp: d flights_req_def flights_ske_def split: if_splits)
  next
    case 5
    with assms show ?thesis
      by (auto simp: d flights_req_def flights_ske_def flights_status_def split: if_splits)
  next
    case 6
    with assms pf show ?thesis by (auto simp: d flights_req_def flights_ske_def split: if_splits)
  qed
qed

lemma Nil_flights12: "[] \<in> set (flights12 p h) \<Longrightarrow> h = TLS_ST_CR_SRVR_DONE"
  by (cases h)
    (auto simp: flights12_def flights_req_def flights_ske_def flights_status_def split: if_splits)

lemma reads_client12_complete:
  assumes "plain_full s" and "mts \<in> set (flights12 (suite_of s) (hand_state (statem s)))"
  shows "\<exists>s'. reads (ossl_statem_client_read_transition e) keeps12 s mts s' \<and>
    hand_state (statem s') = TLS_ST_CR_SRVR_DONE"
  using assms
proof (induction mts arbitrary: s)
  case Nil
  then have "hand_state (statem s) = TLS_ST_CR_SRVR_DONE" by (simp add: Nil_flights12)
  then show ?case by (auto simp: reads_Nil_iff)
next
  case (Cons mt mts)
  from flights12_accepted [OF Cons.prems] obtain s1 where
    s1: "client_read_switch mt s = (True, s1)" "plain_full s1"
      "mts \<in> set (flights12 (suite_of s1) (hand_state (statem s1)))" by blast
  then have "ossl_statem_client_read_transition e mt s = (True, s1)"
    using Cons.prems(1) by (simp add: client_read_True plain_full_def)
  with Cons.IH [OF s1(2,3)] show ?case
    using reads_Cons [of "ossl_statem_client_read_transition e" mt s s1 keeps12 s1] by auto
qed

subsection \<open>Refused and accepted messages\<close>

lemma client13_read_False:
  assumes "ossl_statem_client13_read_transition e mt s = (False, s1)" and "mt \<noteq> SSL3_MT_CERTIFICATE_REQUEST"
  shows "s1 = s"
  using assms
  by (auto simp: ossl_statem_client13_read_transition_def client13_ok_read_def on_message_False Let_def
      split: ossl_handshake_state.splits if_splits)

lemma client_read_rejects:
  assumes "ossl_statem_client_read_transition e mt s = (False, s')"
  shows "ossl_statem_in_error s' \<or>
    SSL_IS_DTLS s \<and> mt = SSL3_MT_CHANGE_CIPHER_SPEC \<and> statem s' = statem s"
proof -
  from client_read_False [OF assms] obtain s1 where
    s1: "(if SSL_IS_TLS13 s then ossl_statem_client13_read_transition e mt s
      else client_read_switch mt s) = (False, s1)"
    and s': "s' = read_transition_err e SSL_F_OSSL_STATEM_CLIENT_READ_TRANSITION mt s1" by blast
  show ?thesis
  proof (cases "mt = SSL3_MT_CHANGE_CIPHER_SPEC")
    case True
    with s1 have "s1 = s"
      using client13_read_False [of e mt s s1] client_read_switch_False [of mt s s1]
      by (auto split: if_splits)
    with s' show ?thesis
      using read_transition_err_cases [of s mt e SSL_F_OSSL_STATEM_CLIENT_READ_TRANSITION]
      by (auto simp: ossl_statem_in_error_def)
  next
    case False
    with s' show ?thesis
      using read_transition_err_cases [of s1 mt e SSL_F_OSSL_STATEM_CLIENT_READ_TRANSITION]
      by (auto simp: ossl_statem_in_error_def)
  qed
qed

lemma client_read_has_handler:
  assumes "ossl_statem_client_read_transition e mt s = (True, s1)"
    and "hand_state (statem s2) = hand_state (statem s1)"
  shows "\<exists>f. ossl_statem_client_process_message e len s2 = process e f len s2"
  using assms
  by (auto simp: client_read_True ossl_statem_client13_read_transition_def client13_ok_read_def
      client_read_switch_def cr_cases on_message_True Let_def split_beta
      ossl_statem_client_process_message_def
      split: ossl_handshake_state.splits if_splits)

definition cw_states :: "ossl_handshake_state list" where
  "cw_states =
     [TLS_ST_CW_CLNT_HELLO, TLS_ST_CW_CERT, TLS_ST_CW_KEY_EXCH, TLS_ST_CW_CERT_VRFY, TLS_ST_CW_CHANGE,
      TLS_ST_CW_NEXT_PROTO, TLS_ST_CW_FINISHED, TLS_ST_CW_KEY_UPDATE, TLS_ST_CW_END_OF_EARLY_DATA,
      TLS_ST_PENDING_EARLY_DATA_END]"

lemma client13_write_states:
  assumes "ossl_statem_client13_write_transition e s = (WRITE_TRAN_CONTINUE, s1)"
  shows "hand_state (statem s1) \<in> set (TLS_ST_OK # cw_states)"
  using assms
  by (auto simp: ossl_statem_client13_write_transition_def cw_cert_or_finished_def cw_states_def
      split: ossl_handshake_state.splits if_splits)

lemma client12_write_states:
  assumes "client12_write_transition e s = (WRITE_TRAN_CONTINUE, s1)"
  shows "hand_state (statem s1) \<in> set (TLS_ST_OK # TLS_ST_EARLY_DATA # cw_states)"
  using assms
  by (auto simp: client12_write_transition_def cw_key_exch_next_def cw_change_next_def
      cr_hello_req_write_def cw_states_def Let_def split_beta
      split: ossl_handshake_state.splits if_splits)

lemma client_write_states:
  assumes "ossl_statem_client_write_transition e s = (WRITE_TRAN_CONTINUE, s1)"
  shows "hand_state (statem s1) \<in> set (TLS_ST_OK # TLS_ST_EARLY_DATA # cw_states)"
  using assms client13_write_states [of e s s1] client12_write_states [of e s s1]
  by (auto simp: ossl_statem_client_write_transition_def split: if_splits)

lemma client_write_has_message:
  assumes "ossl_statem_client_write_transition e s = (WRITE_TRAN_CONTINUE, s1)"
    and "ossl_statem_client_pre_work e wst s1 = (WORK_FINISHED_CONTINUE, s2)"
    and "hand_state (statem s2) = hand_state (statem s1)"
  shows "fst (ossl_statem_client_construct_message e s2) \<noteq> None"
proof -
  have "hand_state (statem s1) \<noteq> TLS_ST_OK" "hand_state (statem s1) \<noteq> TLS_ST_EARLY_DATA"
    using assms(2) by (auto simp: ossl_statem_client_pre_work_def tls_finish_handshake_stop)
  then have "hand_state (statem s2) \<in> set cw_states"
    using client_write_states [OF assms(1)] assms(3) by simp
  then show ?thesis
    by (auto simp: cw_states_def ossl_statem_client_construct_message_def confunc_def)
qed

subsection \<open>The client's side of the contract\<close>

definition client_side :: "'w side" where
  "client_side =
     \<lparr>read_transition = ossl_statem_client_read_transition,
      max_message_size = ossl_statem_client_max_message_size,
      process_message = ossl_statem_client_process_message,
      post_process_message = ossl_statem_client_post_process_message,
      write_transition = ossl_statem_client_write_transition,
      pre_work = ossl_statem_client_pre_work,
      post_work = ossl_statem_client_post_work,
      construct_message = ossl_statem_client_construct_message\<rparr>"

lemma client_construct_fails:
  "ossl_statem_client_construct_message e s = (None, s') \<Longrightarrow> ossl_statem_in_error s'"
  by (auto simp: ossl_statem_client_construct_message_def construct_bad_state_def confunc_def
      ossl_statem_in_error_def split: ossl_handshake_state.splits)

interpretation cl: handshake_side client_side
proof unfold_locales
  fix e :: "'a env" and mt s s'
  assume "read_transition client_side e mt s = (False, s')"
  then show "ossl_statem_in_error s' \<or>
      SSL_IS_DTLS s \<and> mt = SSL3_MT_CHANGE_CIPHER_SPEC \<and> statem s' = statem s"
    using client_read_rejects by (simp add: client_side_def)
next
  fix e :: "'a env" and mt s s1 and s2 :: "'a ssl" and len
  assume "read_transition client_side e mt s = (True, s1)" "hand_state (statem s2) = hand_state (statem s1)"
  then show "\<exists>f. process_message client_side e len s2 = process e f len s2"
    using client_read_has_handler by (simp add: client_side_def)
next
  fix e :: "'a env" and s s1 and s2 :: "'a ssl" and wst
  assume "write_transition client_side e s = (WRITE_TRAN_CONTINUE, s1)"
    "pre_work client_side e wst s1 = (WORK_FINISHED_CONTINUE, s2)" "hand_state (statem s2) = hand_state (statem s1)"
  then show "fst (construct_message client_side e s2) \<noteq> None"
    using client_write_has_message by (simp add: client_side_def)
next
  fix e :: "'a env" and s s'
  assume "construct_message client_side e s = (None, s')"
  then show "ossl_statem_in_error s'"
    using client_construct_fails by (simp add: client_side_def)
qed (simp_all add: client_side_def ossl_statem_client_max_message_size_def
    split: ossl_handshake_state.split)

end
