(* ===== verification/Statem_Srvr.thy ===== *)
theory Statem_Srvr
  imports Statem_Lib
begin

unbundle bit_operations_syntax

section \<open>The server's side of the handshake\<close>

text \<open>
  Model of the transition, work and dispatch functions of \<^verbatim>\<open>ssl/statem/statem_srvr.c\<close>, with the
  conventions of the client's theory.
\<close>

subsection \<open>Read transitions\<close>

definition sr_cert_or_finished :: "int \<Rightarrow> 'w ssl \<Rightarrow> bool \<times> 'w ssl" where
  "sr_cert_or_finished mt s =
     (if cert_request (s3 s) then on_message mt SSL3_MT_CERTIFICATE TLS_ST_SR_CERT s
      else on_message mt SSL3_MT_FINISHED TLS_ST_SR_FINISHED s)"

definition ossl_statem_server13_read_transition :: "int \<Rightarrow> 'w ssl \<Rightarrow> bool \<times> 'w ssl" where
  "ossl_statem_server13_read_transition mt s =
     (case hand_state (statem s) of
        TLS_ST_EARLY_DATA \<Rightarrow>
          (if hello_retry_request s = SSL_HRR_PENDING
           then on_message mt SSL3_MT_CLIENT_HELLO TLS_ST_SR_CLNT_HELLO s
           else if ext_early_data (ext s) = SSL_EARLY_DATA_ACCEPTED
           then on_message mt SSL3_MT_END_OF_EARLY_DATA TLS_ST_SR_END_OF_EARLY_DATA s
           else sr_cert_or_finished mt s)
      | TLS_ST_SR_END_OF_EARLY_DATA \<Rightarrow> sr_cert_or_finished mt s
      | TLS_ST_SW_FINISHED \<Rightarrow> sr_cert_or_finished mt s
      | TLS_ST_SR_CERT \<Rightarrow>
          (if \<not> session_peer (session s) then on_message mt SSL3_MT_FINISHED TLS_ST_SR_FINISHED s
           else on_message mt SSL3_MT_CERTIFICATE_VERIFY TLS_ST_SR_CERT_VRFY s)
      | TLS_ST_SR_CERT_VRFY \<Rightarrow> on_message mt SSL3_MT_FINISHED TLS_ST_SR_FINISHED s
      | TLS_ST_OK \<Rightarrow>
          (if early_data_state s = SSL_EARLY_DATA_READING then (False, s)
           else if mt = SSL3_MT_CERTIFICATE \<and> post_handshake_auth s = SSL_PHA_REQUESTED
           then goto_state TLS_ST_SR_CERT s
           else on_message mt SSL3_MT_KEY_UPDATE TLS_ST_SR_KEY_UPDATE s)
      | _ \<Rightarrow> (False, s))"

text \<open>The one case that returns 0 with an alert of its own: an SSL 3.0 client skipped the Certificate
  message although the server insists on a certificate.\<close>

definition client_cert_refused :: "int \<Rightarrow> 'w ssl \<Rightarrow> bool" where
  "client_cert_refused mt s \<longleftrightarrow>
     hand_state (statem s) = TLS_ST_SW_SRVR_DONE \<and> mt = SSL3_MT_CLIENT_KEY_EXCHANGE \<and>
     cert_request (s3 s) \<and> version s = SSL3_VERSION \<and> flag (verify_mode s) SSL_VERIFY_PEER \<and>
     flag (verify_mode s) SSL_VERIFY_FAIL_IF_NO_PEER_CERT"

definition sw_srvr_done_case :: "int \<Rightarrow> 'w ssl \<Rightarrow> bool \<times> 'w ssl" where
  "sw_srvr_done_case mt s =
     (if mt = SSL3_MT_CLIENT_KEY_EXCHANGE then
        (if cert_request (s3 s) then
           (if version s = SSL3_VERSION then goto_state TLS_ST_SR_KEY_EXCH s else (False, s))
         else goto_state TLS_ST_SR_KEY_EXCH s)
      else if cert_request (s3 s) then on_message mt SSL3_MT_CERTIFICATE TLS_ST_SR_CERT s
      else (False, s))"

definition server_read_switch :: "int \<Rightarrow> 'w ssl \<Rightarrow> bool \<times> 'w ssl" where
  "server_read_switch mt s =
     (case hand_state (statem s) of
        TLS_ST_BEFORE \<Rightarrow> on_message mt SSL3_MT_CLIENT_HELLO TLS_ST_SR_CLNT_HELLO s
      | TLS_ST_OK \<Rightarrow> on_message mt SSL3_MT_CLIENT_HELLO TLS_ST_SR_CLNT_HELLO s
      | DTLS_ST_SW_HELLO_VERIFY_REQUEST \<Rightarrow> on_message mt SSL3_MT_CLIENT_HELLO TLS_ST_SR_CLNT_HELLO s
      | TLS_ST_SW_SRVR_DONE \<Rightarrow> sw_srvr_done_case mt s
      | TLS_ST_SR_CERT \<Rightarrow> on_message mt SSL3_MT_CLIENT_KEY_EXCHANGE TLS_ST_SR_KEY_EXCH s
      | TLS_ST_SR_KEY_EXCH \<Rightarrow>
          (if \<not> session_peer (session s) \<or> no_cert_verify (statem s)
           then on_message mt SSL3_MT_CHANGE_CIPHER_SPEC TLS_ST_SR_CHANGE s
           else on_message mt SSL3_MT_CERTIFICATE_VERIFY TLS_ST_SR_CERT_VRFY s)
      | TLS_ST_SR_CERT_VRFY \<Rightarrow> on_message mt SSL3_MT_CHANGE_CIPHER_SPEC TLS_ST_SR_CHANGE s
      | TLS_ST_SR_CHANGE \<Rightarrow>
          (if npn_seen (s3 s) then on_message mt SSL3_MT_NEXT_PROTO TLS_ST_SR_NEXT_PROTO s
           else on_message mt SSL3_MT_FINISHED TLS_ST_SR_FINISHED s)
      | TLS_ST_SR_NEXT_PROTO \<Rightarrow> on_message mt SSL3_MT_FINISHED TLS_ST_SR_FINISHED s
      | TLS_ST_SW_FINISHED \<Rightarrow> on_message mt SSL3_MT_CHANGE_CIPHER_SPEC TLS_ST_SR_CHANGE s
      | _ \<Rightarrow> (False, s))"

definition ossl_statem_server_read_transition :: "'w env \<Rightarrow> int \<Rightarrow> 'w ssl \<Rightarrow> bool \<times> 'w ssl" where
  "ossl_statem_server_read_transition e mt s =
     (if \<not> SSL_IS_TLS13 s \<and> client_cert_refused mt s then
        (False, ossl_statem_fatal e SSL_AD_HANDSHAKE_FAILURE SSL_F_OSSL_STATEM_SERVER_READ_TRANSITION
                  SSL_R_PEER_DID_NOT_RETURN_A_CERTIFICATE s)
      else
        let (ok, s) = (if SSL_IS_TLS13 s then ossl_statem_server13_read_transition mt s
                       else server_read_switch mt s)
        in if ok then (True, s)
           else (False, read_transition_err e SSL_F_OSSL_STATEM_SERVER_READ_TRANSITION mt s))"

subsection \<open>Write transitions\<close>

definition send_server_key_exchange :: "'w ssl \<Rightarrow> bool" where
  "send_server_key_exchange s =
     (let alg_k = new_cipher_mkey s in
      if flag alg_k (SSL_kDHE OR SSL_kECDHE) \<or>
         flag alg_k (SSL_kPSK OR SSL_kRSAPSK) \<and> psk_identity_hint s \<or>
         flag alg_k (SSL_PSK AND (SSL_kDHEPSK OR SSL_kECDHEPSK)) \<or>
         flag alg_k SSL_kSRP
      then True else False)"

definition send_certificate_request :: "'w ssl \<Rightarrow> bool" where
  "send_certificate_request s =
     (if flag (verify_mode s) SSL_VERIFY_PEER \<and>
         (\<not> SSL_IS_TLS13 s \<or> \<not> flag (verify_mode s) SSL_VERIFY_POST_HANDSHAKE \<or>
          post_handshake_auth s = SSL_PHA_REQUEST_PENDING) \<and>
         (certreqs_sent s < 1 \<or> \<not> flag (verify_mode s) SSL_VERIFY_CLIENT_ONCE) \<and>
         (\<not> flag (new_cipher_auth s) SSL_aNULL \<or>
          flag (verify_mode s) SSL_VERIFY_FAIL_IF_NO_PEER_CERT) \<and>
         \<not> flag (new_cipher_auth s) SSL_aSRP \<and>
         \<not> flag (new_cipher_auth s) SSL_aPSK
      then True else False)"

definition sr_finished_write13 :: "'w ssl \<Rightarrow> write_tran \<times> 'w ssl" where
  "sr_finished_write13 s =
     (let tickets = (\<lambda>s. cont (if num_tickets s > sent_tickets s then TLS_ST_SW_SESSION_TICKET
                               else TLS_ST_OK) s) in
      if post_handshake_auth s = SSL_PHA_REQUESTED
      then tickets (s\<lparr>post_handshake_auth := SSL_PHA_EXT_RECEIVED\<rparr>)
      else if \<not> ticket_expected (ext s) then cont TLS_ST_OK s
      else tickets s)"

definition ossl_statem_server13_write_transition :: "'w env \<Rightarrow> 'w ssl \<Rightarrow> write_tran \<times> 'w ssl" where
  "ossl_statem_server13_write_transition e s =
     (case hand_state (statem s) of
        TLS_ST_OK \<Rightarrow>
          (if key_update s \<noteq> SSL_KEY_UPDATE_NONE then cont TLS_ST_SW_KEY_UPDATE s
           else if post_handshake_auth s = SSL_PHA_REQUEST_PENDING then cont TLS_ST_SW_CERT_REQ s
           else (WRITE_TRAN_FINISHED, s))
      | TLS_ST_SR_CLNT_HELLO \<Rightarrow> cont TLS_ST_SW_SRVR_HELLO s
      | TLS_ST_SW_SRVR_HELLO \<Rightarrow>
          cont (if flag (options s) SSL_OP_ENABLE_MIDDLEBOX_COMPAT \<and>
                   hello_retry_request s \<noteq> SSL_HRR_COMPLETE then TLS_ST_SW_CHANGE
                else if hello_retry_request s = SSL_HRR_PENDING then TLS_ST_EARLY_DATA
                else TLS_ST_SW_ENCRYPTED_EXTENSIONS) s
      | TLS_ST_SW_CHANGE \<Rightarrow>
          cont (if hello_retry_request s = SSL_HRR_PENDING then TLS_ST_EARLY_DATA
                else TLS_ST_SW_ENCRYPTED_EXTENSIONS) s
      | TLS_ST_SW_ENCRYPTED_EXTENSIONS \<Rightarrow>
          cont (if hit s then TLS_ST_SW_FINISHED
                else if send_certificate_request s then TLS_ST_SW_CERT_REQ else TLS_ST_SW_CERT) s
      | TLS_ST_SW_CERT_REQ \<Rightarrow>
          (if post_handshake_auth s = SSL_PHA_REQUEST_PENDING
           then cont TLS_ST_OK (s\<lparr>post_handshake_auth := SSL_PHA_REQUESTED\<rparr>)
           else cont TLS_ST_SW_CERT s)
      | TLS_ST_SW_CERT \<Rightarrow> cont TLS_ST_SW_CERT_VRFY s
      | TLS_ST_SW_CERT_VRFY \<Rightarrow> cont TLS_ST_SW_FINISHED s
      | TLS_ST_SW_FINISHED \<Rightarrow> cont TLS_ST_EARLY_DATA s
      | TLS_ST_EARLY_DATA \<Rightarrow> (WRITE_TRAN_FINISHED, s)
      | TLS_ST_SR_FINISHED \<Rightarrow> sr_finished_write13 s
      | TLS_ST_SR_KEY_UPDATE \<Rightarrow> cont TLS_ST_OK s
      | TLS_ST_SW_KEY_UPDATE \<Rightarrow> cont TLS_ST_OK s
      | TLS_ST_SW_SESSION_TICKET \<Rightarrow>
          (if hit s \<or> num_tickets s \<le> sent_tickets s then cont TLS_ST_OK s
           else (WRITE_TRAN_CONTINUE, s))
      | _ \<Rightarrow> tran_error e SSL_F_OSSL_STATEM_SERVER13_WRITE_TRANSITION s)"

definition server_ok_write :: "'w env \<Rightarrow> 'w ssl \<Rightarrow> write_tran \<times> 'w ssl" where
  "server_ok_write e s =
     (if request_state (statem s) = TLS_ST_SW_HELLO_REQ then
        (WRITE_TRAN_CONTINUE,
         upd_st (\<lambda>st. st\<lparr>hand_state := TLS_ST_SW_HELLO_REQ, request_state := TLS_ST_BEFORE\<rparr>) s)
      else let (ok, s) = tls_setup_handshake e s
           in if \<not> ok then (WRITE_TRAN_ERROR, s) else (WRITE_TRAN_FINISHED, s))"

definition sr_clnt_hello_next :: "'w ssl \<Rightarrow> ossl_handshake_state" where
  "sr_clnt_hello_next s =
     (if SSL_IS_DTLS s \<and> \<not> cookie_verified s \<and> flag (options s) SSL_OP_COOKIE_EXCHANGE
      then DTLS_ST_SW_HELLO_VERIFY_REQUEST
      else if \<not> renegotiate s \<and> \<not> SSL_IS_FIRST_HANDSHAKE s then TLS_ST_OK
      else TLS_ST_SW_SRVR_HELLO)"

text \<open>The states after the server's Certificate, CertificateStatus and ServerKeyExchange, each of
  which falls through to the next.\<close>

definition after_sw_key_exch :: "'w ssl \<Rightarrow> ossl_handshake_state" where
  "after_sw_key_exch s = (if send_certificate_request s then TLS_ST_SW_CERT_REQ else TLS_ST_SW_SRVR_DONE)"

definition after_sw_cert_status :: "'w ssl \<Rightarrow> ossl_handshake_state" where
  "after_sw_cert_status s =
     (if send_server_key_exchange s then TLS_ST_SW_KEY_EXCH else after_sw_key_exch s)"

definition after_sw_cert :: "'w ssl \<Rightarrow> ossl_handshake_state" where
  "after_sw_cert s = (if status_expected (ext s) then TLS_ST_SW_CERT_STATUS else after_sw_cert_status s)"

definition after_sw_srvr_hello :: "'w ssl \<Rightarrow> ossl_handshake_state" where
  "after_sw_srvr_hello s =
     (if hit s then (if ticket_expected (ext s) then TLS_ST_SW_SESSION_TICKET else TLS_ST_SW_CHANGE)
      else if \<not> flag (new_cipher_auth s) (SSL_aNULL OR SSL_aSRP OR SSL_aPSK) then TLS_ST_SW_CERT
      else if send_server_key_exchange s then TLS_ST_SW_KEY_EXCH
      else if send_certificate_request s then TLS_ST_SW_CERT_REQ
      else TLS_ST_SW_SRVR_DONE)"

definition server12_write_transition :: "'w env \<Rightarrow> 'w ssl \<Rightarrow> write_tran \<times> 'w ssl" where
  "server12_write_transition e s =
     (case hand_state (statem s) of
        TLS_ST_OK \<Rightarrow> server_ok_write e s
      | TLS_ST_BEFORE \<Rightarrow> (WRITE_TRAN_FINISHED, s)
      | TLS_ST_SW_HELLO_REQ \<Rightarrow> cont TLS_ST_OK s
      | TLS_ST_SR_CLNT_HELLO \<Rightarrow> cont (sr_clnt_hello_next s) s
      | DTLS_ST_SW_HELLO_VERIFY_REQUEST \<Rightarrow> (WRITE_TRAN_FINISHED, s)
      | TLS_ST_SW_SRVR_HELLO \<Rightarrow> cont (after_sw_srvr_hello s) s
      | TLS_ST_SW_CERT \<Rightarrow> cont (after_sw_cert s) s
      | TLS_ST_SW_CERT_STATUS \<Rightarrow> cont (after_sw_cert_status s) s
      | TLS_ST_SW_KEY_EXCH \<Rightarrow> cont (after_sw_key_exch s) s
      | TLS_ST_SW_CERT_REQ \<Rightarrow> cont TLS_ST_SW_SRVR_DONE s
      | TLS_ST_SW_SRVR_DONE \<Rightarrow> (WRITE_TRAN_FINISHED, s)
      | TLS_ST_SR_FINISHED \<Rightarrow>
          cont (if hit s then TLS_ST_OK else if ticket_expected (ext s) then TLS_ST_SW_SESSION_TICKET
                else TLS_ST_SW_CHANGE) s
      | TLS_ST_SW_SESSION_TICKET \<Rightarrow> cont TLS_ST_SW_CHANGE s
      | TLS_ST_SW_CHANGE \<Rightarrow> cont TLS_ST_SW_FINISHED s
      | TLS_ST_SW_FINISHED \<Rightarrow> (if hit s then (WRITE_TRAN_FINISHED, s) else cont TLS_ST_OK s)
      | _ \<Rightarrow> tran_error e SSL_F_OSSL_STATEM_SERVER_WRITE_TRANSITION s)"

definition ossl_statem_server_write_transition :: "'w env \<Rightarrow> 'w ssl \<Rightarrow> write_tran \<times> 'w ssl" where
  "ossl_statem_server_write_transition e s =
     (if SSL_IS_TLS13 s then ossl_statem_server13_write_transition e s
      else server12_write_transition e s)"

subsection \<open>Work before and after sending a message\<close>

definition sw_change_pre :: "'w env \<Rightarrow> 'w ssl \<Rightarrow> work_state \<times> 'w ssl" where
  "sw_change_pre e s =
     (if SSL_IS_TLS13 s then finished_continue s
      else if session_cipher (session s) \<noteq> None \<and> session_cipher (session s) \<noteq> new_cipher (s3 s) then
        (WORK_ERROR, ossl_statem_fatal e SSL_AD_INTERNAL_ERROR SSL_F_OSSL_STATEM_SERVER_PRE_WORK
                       ERR_R_INTERNAL_ERROR s)
      else
        let s = (if session_cipher (session s) = None
                 then s\<lparr>session := (session s)\<lparr>session_cipher := new_cipher (s3 s)\<rparr>\<rparr> else s)
        in step_ok (call e setup_key_block s) (\<lambda>s.
           finished_continue (if SSL_IS_DTLS s then set_use_timer False s else s)))"

definition ossl_statem_server_pre_work :: "'w env \<Rightarrow> work_state \<Rightarrow> 'w ssl \<Rightarrow> work_state \<times> 'w ssl" where
  "ossl_statem_server_pre_work e wst s =
     (case hand_state (statem s) of
        TLS_ST_SW_HELLO_REQ \<Rightarrow>
          (let s = s\<lparr>shutdown := 0\<rparr>
           in finished_continue (if SSL_IS_DTLS s then dtls1_clear_sent_buffer s else s))
      | DTLS_ST_SW_HELLO_VERIFY_REQUEST \<Rightarrow>
          (let s = s\<lparr>shutdown := 0\<rparr>
           in finished_continue
                (if SSL_IS_DTLS s then set_use_timer False (dtls1_clear_sent_buffer s)
                 else s))
      | TLS_ST_SW_SRVR_HELLO \<Rightarrow> finished_continue (if SSL_IS_DTLS s then set_use_timer True s else s)
      | TLS_ST_SW_SRVR_DONE \<Rightarrow> finished_continue s
      | TLS_ST_SW_SESSION_TICKET \<Rightarrow>
          (if SSL_IS_TLS13 s \<and> sent_tickets s = 0 then tls_finish_handshake e wst False False s
           else finished_continue (if SSL_IS_DTLS s then set_use_timer False s else s))
      | TLS_ST_SW_CHANGE \<Rightarrow> sw_change_pre e s
      | TLS_ST_EARLY_DATA \<Rightarrow>
          (if early_data_state s \<noteq> SSL_EARLY_DATA_ACCEPTING \<and>
              \<not> flag (s3_flags (s3 s)) TLS1_FLAGS_STATELESS
           then finished_continue s
           else tls_finish_handshake e wst True True s)
      | TLS_ST_OK \<Rightarrow> tls_finish_handshake e wst True True s
      | _ \<Rightarrow> finished_continue s)"

abbreviation SSL_ERROR_SYSCALL :: int where "SSL_ERROR_SYSCALL \<equiv> 5"
abbreviation EPIPE :: int where "EPIPE \<equiv> 32"
abbreviation ECONNRESET :: int where "ECONNRESET \<equiv> 104"

definition conn_is_closed :: "'w env \<Rightarrow> 'w ssl \<Rightarrow> bool" where
  "conn_is_closed e s \<longleftrightarrow> query e get_last_sys_error s = EPIPE \<or> query e get_last_sys_error s = ECONNRESET"

text \<open>\<open>flushed e s f\<close> is \<^verbatim>\<open>if (statem_flush(s) != 1) return WORK_MORE_A;\<close> followed by \<open>f\<close>.\<close>

definition flushed :: "'w env \<Rightarrow> 'w ssl \<Rightarrow> ('w ssl \<Rightarrow> work_state \<times> 'w ssl) \<Rightarrow> work_state \<times> 'w ssl" where
  "flushed e s f = (let (ok, s) = statem_flush e s in if \<not> ok then (WORK_MORE_A, s) else f s)"

definition sw_change_post :: "'w env \<Rightarrow> 'w ssl \<Rightarrow> work_state \<times> 'w ssl" where
  "sw_change_post e s =
     (if hello_retry_request s = SSL_HRR_PENDING then flushed e s finished_continue
      else if SSL_IS_TLS13 s then
        step_ok (call e setup_key_block s) (\<lambda>s.
        step_ok (call e (change_cipher_state (SSL3_CC_HANDSHAKE OR SSL3_CHANGE_CIPHER_SERVER_WRITE)) s) (\<lambda>s.
        let plain = (\<lambda>s. finished_continue
              (upd_st (\<lambda>st. st\<lparr>enc_read_state := ENC_READ_STATE_ALLOW_PLAIN_ALERTS\<rparr>) s))
        in if ext_early_data (ext s) \<noteq> SSL_EARLY_DATA_ACCEPTED then
             step_ok (call e (change_cipher_state (SSL3_CC_HANDSHAKE OR SSL3_CHANGE_CIPHER_SERVER_READ)) s)
               plain
           else plain s))
      else
        step_ok (call e (change_cipher_state SSL3_CHANGE_CIPHER_SERVER_WRITE) s) (\<lambda>s.
        finished_continue
          (if SSL_IS_DTLS s then snd (call e (dtls1_reset_seq_numbers SSL3_CC_WRITE) s) else s)))"

definition sw_srvr_hello_post :: "'w env \<Rightarrow> 'w ssl \<Rightarrow> work_state \<times> 'w ssl" where
  "sw_srvr_hello_post e s =
     (if SSL_IS_TLS13 s \<and> hello_retry_request s = SSL_HRR_PENDING then
        (if \<not> flag (options s) SSL_OP_ENABLE_MIDDLEBOX_COMPAT then flushed e s finished_continue
         else finished_continue s)
      else if \<not> SSL_IS_TLS13 s \<or>
              flag (options s) SSL_OP_ENABLE_MIDDLEBOX_COMPAT \<and> hello_retry_request s \<noteq> SSL_HRR_COMPLETE
      then finished_continue s
      else sw_change_post e s)"

definition sw_finished_post :: "'w env \<Rightarrow> 'w ssl \<Rightarrow> work_state \<times> 'w ssl" where
  "sw_finished_post e s =
     flushed e s (\<lambda>s.
       if SSL_IS_TLS13 s then
         step_ok (call e generate_master_secret s) (\<lambda>s.
         step_ok (call e (change_cipher_state (SSL3_CC_APPLICATION OR SSL3_CHANGE_CIPHER_SERVER_WRITE)) s)
           finished_continue)
       else finished_continue s)"

definition sw_session_ticket_post :: "'w env \<Rightarrow> 'w ssl \<Rightarrow> work_state \<times> 'w ssl" where
  "sw_session_ticket_post e s =
     (let s = snd (do_io e clear_sys_error s) in
      if SSL_IS_TLS13 s then
        let (ok, s) = statem_flush e s in
        if \<not> ok then
          (if query e SSL_get_error_0 s = SSL_ERROR_SYSCALL \<and> conn_is_closed e s
           then finished_continue (s\<lparr>rwstate := SSL_NOTHING\<rparr>)
           else (WORK_MORE_A, s))
        else finished_continue s
      else finished_continue s)"

definition ossl_statem_server_post_work :: "'w env \<Rightarrow> work_state \<Rightarrow> 'w ssl \<Rightarrow> work_state \<times> 'w ssl" where
  "ossl_statem_server_post_work e wst s =
     (let s = s\<lparr>init_num := 0\<rparr> in
      case hand_state (statem s) of
        TLS_ST_SW_HELLO_REQ \<Rightarrow>
          flushed e s (\<lambda>s. step_ok (call e ssl3_init_finished_mac s) finished_continue)
      | DTLS_ST_SW_HELLO_VERIFY_REQUEST \<Rightarrow>
          flushed e s (\<lambda>s.
            if version s \<noteq> DTLS1_BAD_VER then
              step_ok (call e ssl3_init_finished_mac s) (\<lambda>s. finished_continue (s\<lparr>first_packet := True\<rparr>))
            else finished_continue (s\<lparr>first_packet := True\<rparr>))
      | TLS_ST_SW_SRVR_HELLO \<Rightarrow> sw_srvr_hello_post e s
      | TLS_ST_SW_CHANGE \<Rightarrow> sw_change_post e s
      | TLS_ST_SW_SRVR_DONE \<Rightarrow> flushed e s finished_continue
      | TLS_ST_SW_FINISHED \<Rightarrow> sw_finished_post e s
      | TLS_ST_SW_CERT_REQ \<Rightarrow>
          (if post_handshake_auth s = SSL_PHA_REQUEST_PENDING then flushed e s finished_continue
           else finished_continue s)
      | TLS_ST_SW_KEY_UPDATE \<Rightarrow> key_update_post e s
      | TLS_ST_SW_SESSION_TICKET \<Rightarrow> sw_session_ticket_post e s
      | _ \<Rightarrow> finished_continue s)"

subsection \<open>Dispatch on the handshake state\<close>

definition ossl_statem_server_construct_message :: "'w env \<Rightarrow> 'w ssl \<Rightarrow> confunc_mt \<times> 'w ssl" where
  "ossl_statem_server_construct_message e s =
     (case hand_state (statem s) of
        TLS_ST_SW_CHANGE \<Rightarrow> confunc (ccs_construct s) SSL3_MT_CHANGE_CIPHER_SPEC s
      | DTLS_ST_SW_HELLO_VERIFY_REQUEST \<Rightarrow>
          confunc dtls_construct_hello_verify_request DTLS1_MT_HELLO_VERIFY_REQUEST s
      | TLS_ST_SW_HELLO_REQ \<Rightarrow> (Some (None, SSL3_MT_HELLO_REQUEST), s)
      | TLS_ST_SW_SRVR_HELLO \<Rightarrow> confunc tls_construct_server_hello SSL3_MT_SERVER_HELLO s
      | TLS_ST_SW_CERT \<Rightarrow> confunc tls_construct_server_certificate SSL3_MT_CERTIFICATE s
      | TLS_ST_SW_CERT_VRFY \<Rightarrow> confunc tls_construct_cert_verify SSL3_MT_CERTIFICATE_VERIFY s
      | TLS_ST_SW_KEY_EXCH \<Rightarrow> confunc tls_construct_server_key_exchange SSL3_MT_SERVER_KEY_EXCHANGE s
      | TLS_ST_SW_CERT_REQ \<Rightarrow> confunc tls_construct_certificate_request SSL3_MT_CERTIFICATE_REQUEST s
      | TLS_ST_SW_SRVR_DONE \<Rightarrow> confunc tls_construct_server_done SSL3_MT_SERVER_DONE s
      | TLS_ST_SW_SESSION_TICKET \<Rightarrow> confunc tls_construct_new_session_ticket SSL3_MT_NEWSESSION_TICKET s
      | TLS_ST_SW_CERT_STATUS \<Rightarrow> confunc tls_construct_cert_status SSL3_MT_CERTIFICATE_STATUS s
      | TLS_ST_SW_FINISHED \<Rightarrow> confunc tls_construct_finished SSL3_MT_FINISHED s
      | TLS_ST_EARLY_DATA \<Rightarrow> (Some (None, SSL3_MT_DUMMY), s)
      | TLS_ST_SW_ENCRYPTED_EXTENSIONS \<Rightarrow>
          confunc tls_construct_encrypted_extensions SSL3_MT_ENCRYPTED_EXTENSIONS s
      | TLS_ST_SW_KEY_UPDATE \<Rightarrow> confunc tls_construct_key_update SSL3_MT_KEY_UPDATE s
      | _ \<Rightarrow> construct_bad_state e SSL_F_OSSL_STATEM_SERVER_CONSTRUCT_MESSAGE s)"

definition ossl_statem_server_max_message_size :: "'w ssl \<Rightarrow> nat" where
  "ossl_statem_server_max_message_size s =
     (case hand_state (statem s) of
        TLS_ST_SR_CLNT_HELLO \<Rightarrow> 131396
      | TLS_ST_SR_END_OF_EARLY_DATA \<Rightarrow> 0
      | TLS_ST_SR_CERT \<Rightarrow> max_cert_list s
      | TLS_ST_SR_KEY_EXCH \<Rightarrow> 2048
      | TLS_ST_SR_CERT_VRFY \<Rightarrow> SSL3_RT_MAX_PLAIN_LENGTH
      | TLS_ST_SR_NEXT_PROTO \<Rightarrow> 514
      | TLS_ST_SR_CHANGE \<Rightarrow> 1
      | TLS_ST_SR_FINISHED \<Rightarrow> 64
      | TLS_ST_SR_KEY_UPDATE \<Rightarrow> 1
      | _ \<Rightarrow> 0)"

definition ossl_statem_server_process_message ::
  "'w env \<Rightarrow> nat \<Rightarrow> 'w ssl \<Rightarrow> msg_process_return \<times> 'w ssl" where
  "ossl_statem_server_process_message e len s =
     (case hand_state (statem s) of
        TLS_ST_SR_CLNT_HELLO \<Rightarrow> process e tls_process_client_hello len s
      | TLS_ST_SR_END_OF_EARLY_DATA \<Rightarrow> process e tls_process_end_of_early_data len s
      | TLS_ST_SR_CERT \<Rightarrow> process e tls_process_client_certificate len s
      | TLS_ST_SR_KEY_EXCH \<Rightarrow> process e tls_process_client_key_exchange len s
      | TLS_ST_SR_CERT_VRFY \<Rightarrow> process e tls_process_cert_verify len s
      | TLS_ST_SR_NEXT_PROTO \<Rightarrow> process e tls_process_next_proto len s
      | TLS_ST_SR_CHANGE \<Rightarrow> process e tls_process_change_cipher_spec len s
      | TLS_ST_SR_FINISHED \<Rightarrow> process e tls_process_finished len s
      | TLS_ST_SR_KEY_UPDATE \<Rightarrow> process e tls_process_key_update len s
      | _ \<Rightarrow> process_bad_state e SSL_F_OSSL_STATEM_SERVER_PROCESS_MESSAGE s)"

definition ossl_statem_server_post_process_message ::
  "'w env \<Rightarrow> work_state \<Rightarrow> 'w ssl \<Rightarrow> work_state \<times> 'w ssl" where
  "ossl_statem_server_post_process_message e wst s =
     (case hand_state (statem s) of
        TLS_ST_SR_CLNT_HELLO \<Rightarrow> post_process e tls_post_process_client_hello wst s
      | TLS_ST_SR_KEY_EXCH \<Rightarrow> post_process e tls_post_process_client_key_exchange wst s
      | _ \<Rightarrow> post_process_bad_state e SSL_F_OSSL_STATEM_SERVER_POST_PROCESS_MESSAGE s)"

subsection \<open>What the server accepts\<close>

lemma server_read_True:
  "ossl_statem_server_read_transition e mt s = (True, s') \<longleftrightarrow>
     (if SSL_IS_TLS13 s then ossl_statem_server13_read_transition mt s = (True, s')
      else \<not> client_cert_refused mt s \<and> server_read_switch mt s = (True, s'))"
  by (auto simp: ossl_statem_server_read_transition_def Let_def split: prod.splits if_splits)

lemma server13_read_False: "ossl_statem_server13_read_transition mt s = (False, s') \<Longrightarrow> s' = s"
  by (auto simp: ossl_statem_server13_read_transition_def sr_cert_or_finished_def on_message_False
      split: ossl_handshake_state.splits if_splits)

lemma server_read_switch_False: "server_read_switch mt s = (False, s') \<Longrightarrow> s' = s"
  by (auto simp: server_read_switch_def sw_srvr_done_case_def on_message_False
      split: ossl_handshake_state.splits if_splits)

lemma server_read_rejects:
  assumes "ossl_statem_server_read_transition e mt s = (False, s')"
  shows "ossl_statem_in_error s' \<or>
    SSL_IS_DTLS s \<and> mt = SSL3_MT_CHANGE_CIPHER_SPEC \<and> statem s' = statem s"
proof (cases "\<not> SSL_IS_TLS13 s \<and> client_cert_refused mt s")
  case True
  with assms show ?thesis
    by (auto simp: ossl_statem_server_read_transition_def ossl_statem_in_error_def)
next
  case False
  with assms have "s' = read_transition_err e SSL_F_OSSL_STATEM_SERVER_READ_TRANSITION mt s"
    using server13_read_False [of mt s] server_read_switch_False [of mt s]
    by (auto simp: ossl_statem_server_read_transition_def Let_def split: prod.splits if_splits)
  then show ?thesis
    using read_transition_err_cases [of s mt e SSL_F_OSSL_STATEM_SERVER_READ_TRANSITION]
    by (auto simp: ossl_statem_in_error_def)
qed

lemma server_read_has_handler:
  assumes "ossl_statem_server_read_transition e mt s = (True, s1)"
    and "hand_state (statem s2) = hand_state (statem s1)"
  shows "\<exists>f. ossl_statem_server_process_message e len s2 = process e f len s2"
  using assms
  by (auto simp: server_read_True ossl_statem_server13_read_transition_def sr_cert_or_finished_def
      server_read_switch_def sw_srvr_done_case_def on_message_True ossl_statem_server_process_message_def
      split: ossl_handshake_state.splits if_splits)

text \<open>After the ServerHelloDone and up to TLS 1.2: the client's flight up to its ClientKeyExchange,
  and from there to its Finished.  The processing of the client's Certificate decides about
  \<^verbatim>\<open>s->session->peer\<close>, that of the ClientKeyExchange about \<^verbatim>\<open>no_cert_verify\<close>.\<close>

definition keeps_srvr :: "'w ssl \<Rightarrow> 'w ssl \<Rightarrow> bool" where
  "keeps_srvr s s' \<longleftrightarrow>
     hand_state (statem s') = hand_state (statem s) \<and> meth s' = meth s \<and> version s' = version s \<and>
     cert_request (s3 s') = cert_request (s3 s) \<and> npn_seen (s3 s') = npn_seen (s3 s)"

lemma keeps_srvr_refl [simp]: "keeps_srvr s s"
  by (simp add: keeps_srvr_def)

lemma keeps_srvr_TLS13: "keeps_srvr s s' \<Longrightarrow> SSL_IS_TLS13 s' = SSL_IS_TLS13 s"
  by (rule SSL_IS_TLS13_cong) (simp add: keeps_srvr_def)

definition must_verify :: "'w ssl \<Rightarrow> bool" where
  "must_verify s \<longleftrightarrow> session_peer (session s) \<and> \<not> no_cert_verify (statem s)"

text \<open>The client's messages from a state after the ClientKeyExchange to its Finished.\<close>

definition tail12 :: "bool \<Rightarrow> bool \<Rightarrow> ossl_handshake_state \<Rightarrow> int list option" where
  "tail12 verify npn h =
     (let fin = (if npn then [SSL3_MT_NEXT_PROTO, SSL3_MT_FINISHED] else [SSL3_MT_FINISHED]) in
      case h of
        TLS_ST_SR_KEY_EXCH \<Rightarrow>
          Some ((if verify then [SSL3_MT_CERTIFICATE_VERIFY] else []) @ SSL3_MT_CHANGE_CIPHER_SPEC # fin)
      | TLS_ST_SR_CERT_VRFY \<Rightarrow> Some (SSL3_MT_CHANGE_CIPHER_SPEC # fin)
      | TLS_ST_SR_CHANGE \<Rightarrow> Some fin
      | TLS_ST_SR_NEXT_PROTO \<Rightarrow> Some [SSL3_MT_FINISHED]
      | TLS_ST_SR_FINISHED \<Rightarrow> Some []
      | _ \<Rightarrow> None)"

lemma tail12_step:
  assumes "\<not> SSL_IS_TLS13 s" and "ossl_statem_server_read_transition e mt s = (True, s1)"
    and "tail12 (must_verify s) (npn_seen (s3 s)) (hand_state (statem s)) = Some ms"
  obtains h ms' where "s1 = set_hand_state h s" "ms = mt # ms'" "h \<noteq> TLS_ST_SR_KEY_EXCH"
    "\<And>v. tail12 v (npn_seen (s3 s)) h = Some ms'"
  using assms
  by (auto simp: server_read_True server_read_switch_def tail12_def on_message_True must_verify_def Let_def
      split: ossl_handshake_state.splits if_splits)

lemma reads_server12_tail:
  assumes "reads (ossl_statem_server_read_transition e) keeps_srvr s mts s'"
    and "hand_state (statem s') = TLS_ST_SR_FINISHED" and "\<not> SSL_IS_TLS13 s"
    and "tail12 (must_verify s) (npn_seen (s3 s)) (hand_state (statem s)) = Some ms"
  shows "mts = ms"
  using assms
proof (induction arbitrary: ms rule: reads.induct)
  case (reads_Nil s)
  then show ?case by (simp add: tail12_def Let_def)
next
  case (reads_Cons mt s s1 s2 mts s')
  obtain h ms' where h: "s1 = set_hand_state h s" "ms = mt # ms'" "\<And>v. tail12 v (npn_seen (s3 s)) h = Some ms'"
    using tail12_step [OF reads_Cons.prems(2) reads_Cons.hyps(1) reads_Cons.prems(3)] by metis
  have "\<not> SSL_IS_TLS13 s2" "npn_seen (s3 s2) = npn_seen (s3 s)" "hand_state (statem s2) = h"
    using keeps_srvr_TLS13 [OF reads_Cons.hyps(2)] reads_Cons.hyps(2) h(1) reads_Cons.prems(2)
    by (auto simp: keeps_srvr_def)
  then show ?case using reads_Cons.IH [OF reads_Cons.prems(1)] h by simp
qed

lemma server12_first_message:
  assumes "\<not> SSL_IS_TLS13 s" "version s \<noteq> SSL3_VERSION" "hand_state (statem s) = TLS_ST_SW_SRVR_DONE"
    and "ossl_statem_server_read_transition e mt s = (True, s1)"
  shows "if cert_request (s3 s) then mt = SSL3_MT_CERTIFICATE \<and> s1 = set_hand_state TLS_ST_SR_CERT s
    else mt = SSL3_MT_CLIENT_KEY_EXCHANGE \<and> s1 = set_hand_state TLS_ST_SR_KEY_EXCH s"
  using assms by (auto simp: server_read_True server_read_switch_def sw_srvr_done_case_def on_message_True
      split: if_splits)

lemma server12_after_cert:
  assumes "\<not> SSL_IS_TLS13 s" "hand_state (statem s) = TLS_ST_SR_CERT"
    and "ossl_statem_server_read_transition e mt s = (True, s1)"
  shows "mt = SSL3_MT_CLIENT_KEY_EXCHANGE \<and> s1 = set_hand_state TLS_ST_SR_KEY_EXCH s"
  using assms by (auto simp: server_read_True server_read_switch_def on_message_True)

lemma reads_server12_from_key_exch:
  assumes "reads (ossl_statem_server_read_transition e) keeps_srvr s mts s'"
    and "hand_state (statem s') = TLS_ST_SR_FINISHED" and "\<not> SSL_IS_TLS13 s"
    and "hand_state (statem s) = TLS_ST_SR_KEY_EXCH"
  shows "mts = (if must_verify s then [SSL3_MT_CERTIFICATE_VERIFY] else []) @
      SSL3_MT_CHANGE_CIPHER_SPEC #
      (if npn_seen (s3 s) then [SSL3_MT_NEXT_PROTO, SSL3_MT_FINISHED] else [SSL3_MT_FINISHED])"
  using reads_server12_tail [OF assms(1-3)] assms(4) by (simp add: tail12_def Let_def)

lemma reads_server12:
  assumes r: "reads (ossl_statem_server_read_transition e) keeps_srvr s mts s'"
    and fin: "hand_state (statem s') = TLS_ST_SR_FINISHED" and v: "\<not> SSL_IS_TLS13 s" "version s \<noteq> SSL3_VERSION"
    and st: "hand_state (statem s) = TLS_ST_SW_SRVR_DONE"
  shows "\<exists>sk. reads (ossl_statem_server_read_transition e) keeps_srvr s
        ((if cert_request (s3 s) then [SSL3_MT_CERTIFICATE] else []) @ [SSL3_MT_CLIENT_KEY_EXCHANGE]) sk \<and>
      hand_state (statem sk) = TLS_ST_SR_KEY_EXCH \<and>
      mts = (if cert_request (s3 s) then [SSL3_MT_CERTIFICATE] else []) @ [SSL3_MT_CLIENT_KEY_EXCHANGE] @
        (if must_verify sk then [SSL3_MT_CERTIFICATE_VERIFY] else []) @ SSL3_MT_CHANGE_CIPHER_SPEC #
        (if npn_seen (s3 s) then [SSL3_MT_NEXT_PROTO, SSL3_MT_FINISHED] else [SSL3_MT_FINISHED])"
proof -
  let ?tr = "ossl_statem_server_read_transition e"
  from st fin obtain mt mts1 where mts: "mts = mt # mts1"
    using r by (cases mts) (auto simp: reads_Nil_iff)
  then obtain s1 s2 where s1: "?tr mt s = (True, s1)" "keeps_srvr s1 s2" "reads ?tr keeps_srvr s2 mts1 s'"
    using r by (auto simp: reads_Cons_iff)
  note first = server12_first_message [OF v st s1(1)]
  show ?thesis
  proof (cases "cert_request (s3 s)")
    case False
    with first s1(2) v(1) have s2: "hand_state (statem s2) = TLS_ST_SR_KEY_EXCH" "\<not> SSL_IS_TLS13 s2"
        "npn_seen (s3 s2) = npn_seen (s3 s)" "mt = SSL3_MT_CLIENT_KEY_EXCHANGE"
      using keeps_srvr_TLS13 [OF s1(2)] by (auto simp: keeps_srvr_def)
    have "reads ?tr keeps_srvr s [mt] s2" using s1 by (auto simp: reads_Cons_iff reads_Nil_iff)
    with reads_server12_from_key_exch [OF s1(3) fin s2(2,1)] False s2 mts show ?thesis by auto
  next
    case True
    with first s1(2) v(1) have s2: "hand_state (statem s2) = TLS_ST_SR_CERT" "\<not> SSL_IS_TLS13 s2"
        "npn_seen (s3 s2) = npn_seen (s3 s)" "mt = SSL3_MT_CERTIFICATE"
      using keeps_srvr_TLS13 [OF s1(2)] by (auto simp: keeps_srvr_def)
    from s2(1) fin obtain mt2 mts2 where mts1: "mts1 = mt2 # mts2"
      using s1(3) by (cases mts1) (auto simp: reads_Nil_iff)
    then obtain s3' s4 where s4: "?tr mt2 s2 = (True, s3')" "keeps_srvr s3' s4" "reads ?tr keeps_srvr s4 mts2 s'"
      using s1(3) by (auto simp: reads_Cons_iff)
    from server12_after_cert [OF s2(2,1) s4(1)] s4(2) s2 have sk: "hand_state (statem s4) = TLS_ST_SR_KEY_EXCH"
        "\<not> SSL_IS_TLS13 s4" "npn_seen (s3 s4) = npn_seen (s3 s)" "mt2 = SSL3_MT_CLIENT_KEY_EXCHANGE"
      using keeps_srvr_TLS13 [OF s4(2)] by (auto simp: keeps_srvr_def)
    have "reads ?tr keeps_srvr s [mt, mt2] s4" using s1 s4 by (auto simp: reads_Cons_iff reads_Nil_iff)
    with reads_server12_from_key_exch [OF s4(3) fin sk(2,1)] True s2 sk mts mts1 show ?thesis by auto
  qed
qed

text \<open>TLS 1.3: after its own Finished the server waits in \<^verbatim>\<open>TLS_ST_EARLY_DATA\<close>.\<close>

definition keeps_srvr13 :: "'w ssl \<Rightarrow> 'w ssl \<Rightarrow> bool" where
  "keeps_srvr13 s s' \<longleftrightarrow>
     hand_state (statem s') = hand_state (statem s) \<and> meth s' = meth s \<and>
     cert_request (s3 s') = cert_request (s3 s)"

lemma keeps_srvr13_refl [simp]: "keeps_srvr13 s s"
  by (simp add: keeps_srvr13_def)

lemma keeps_srvr13_TLS13: "keeps_srvr13 s s' \<Longrightarrow> SSL_IS_TLS13 s' = SSL_IS_TLS13 s"
  by (rule SSL_IS_TLS13_cong) (simp add: keeps_srvr13_def)

lemma server13_expects:
  assumes "SSL_IS_TLS13 s"
  shows "ossl_statem_server_read_transition e mt s = (True, s1) \<longleftrightarrow>
    ossl_statem_server13_read_transition mt s = (True, s1)"
  using assms by (simp add: server_read_True)

lemma reads_server13_finished:
  assumes "reads (ossl_statem_server_read_transition e) keeps_srvr13 s mts s'" and "SSL_IS_TLS13 s"
    and "hand_state (statem s) = TLS_ST_SR_FINISHED"
  shows "mts = []"
  using assms
  by (cases mts) (auto simp: reads_Cons_iff server13_expects ossl_statem_server13_read_transition_def)

lemma reads_server13_last:
  assumes r: "reads (ossl_statem_server_read_transition e) keeps_srvr13 s mts s'" and "SSL_IS_TLS13 s"
    and "hand_state (statem s') = TLS_ST_SR_FINISHED"
    and "hand_state (statem s) = TLS_ST_SR_CERT_VRFY \<or>
         hand_state (statem s) = TLS_ST_SR_CERT \<and> \<not> session_peer (session s) \<or>
         hand_state (statem s) = TLS_ST_SR_END_OF_EARLY_DATA \<and> \<not> cert_request (s3 s) \<or>
         hand_state (statem s) = TLS_ST_EARLY_DATA \<and> \<not> cert_request (s3 s) \<and>
           hello_retry_request s \<noteq> SSL_HRR_PENDING \<and> ext_early_data (ext s) \<noteq> SSL_EARLY_DATA_ACCEPTED"
  shows "mts = [SSL3_MT_FINISHED]"
proof -
  have ne: "hand_state (statem s) \<noteq> hand_state (statem s')" using assms(3,4) by auto
  obtain mt mts1 s1 s2 where m: "mts = mt # mts1" "ossl_statem_server_read_transition e mt s = (True, s1)"
      "keeps_srvr13 s1 s2" "reads (ossl_statem_server_read_transition e) keeps_srvr13 s2 mts1 s'"
    by (rule reads_moves [OF r ne])
  have "mt = SSL3_MT_FINISHED \<and> s1 = set_hand_state TLS_ST_SR_FINISHED s"
    using m(2) assms(2,4)
    by (auto simp: server13_expects ossl_statem_server13_read_transition_def sr_cert_or_finished_def
        on_message_True)
  moreover from this have "mts1 = []"
    using reads_server13_finished [OF m(4)] keeps_srvr13_TLS13 [OF m(3)] assms(2) m(3)
    by (simp add: keeps_srvr13_def)
  ultimately show ?thesis using m(1) by simp
qed

lemma reads_server13_cert:
  assumes r: "reads (ossl_statem_server_read_transition e) keeps_srvr13 s mts s'" and tls: "SSL_IS_TLS13 s"
    and fin: "hand_state (statem s') = TLS_ST_SR_FINISHED" and st: "hand_state (statem s) = TLS_ST_SR_CERT"
  shows "mts = (if session_peer (session s) then [SSL3_MT_CERTIFICATE_VERIFY] else []) @ [SSL3_MT_FINISHED]"
proof (cases "session_peer (session s)")
  case False
  with reads_server13_last [OF r tls fin] st show ?thesis by simp
next
  case True
  have ne: "hand_state (statem s) \<noteq> hand_state (statem s')" using st fin by auto
  obtain mt mts1 s1 s2 where m: "mts = mt # mts1" "ossl_statem_server_read_transition e mt s = (True, s1)"
      "keeps_srvr13 s1 s2" "reads (ossl_statem_server_read_transition e) keeps_srvr13 s2 mts1 s'"
    by (rule reads_moves [OF r ne])
  have "mt = SSL3_MT_CERTIFICATE_VERIFY \<and> s1 = set_hand_state TLS_ST_SR_CERT_VRFY s"
    using m(2) tls st True
    by (auto simp: server13_expects ossl_statem_server13_read_transition_def on_message_True)
  moreover from this have "mts1 = [SSL3_MT_FINISHED]"
    using reads_server13_last [OF m(4) _ fin] keeps_srvr13_TLS13 [OF m(3)] tls m(3)
    by (simp add: keeps_srvr13_def)
  ultimately show ?thesis using m(1) True by simp
qed

text \<open>The two states in which the client's second flight starts.\<close>

definition awaits_flight13 :: "'w ssl \<Rightarrow> bool" where
  "awaits_flight13 s \<longleftrightarrow>
     hand_state (statem s) = TLS_ST_SR_END_OF_EARLY_DATA \<or>
     hand_state (statem s) = TLS_ST_EARLY_DATA \<and> hello_retry_request s \<noteq> SSL_HRR_PENDING \<and>
       ext_early_data (ext s) \<noteq> SSL_EARLY_DATA_ACCEPTED"

lemma reads_server13_flight:
  assumes r: "reads (ossl_statem_server_read_transition e) keeps_srvr13 s mts s'" and tls: "SSL_IS_TLS13 s"
    and fin: "hand_state (statem s') = TLS_ST_SR_FINISHED" and st: "awaits_flight13 s"
  shows "if cert_request (s3 s)
    then \<exists>sc. reads (ossl_statem_server_read_transition e) keeps_srvr13 s [SSL3_MT_CERTIFICATE] sc \<and>
      hand_state (statem sc) = TLS_ST_SR_CERT \<and>
      mts = [SSL3_MT_CERTIFICATE] @
        (if session_peer (session sc) then [SSL3_MT_CERTIFICATE_VERIFY] else []) @ [SSL3_MT_FINISHED]
    else mts = [SSL3_MT_FINISHED]"
proof (cases "cert_request (s3 s)")
  case False
  with reads_server13_last [OF r tls fin] st show ?thesis by (auto simp: awaits_flight13_def)
next
  case True
  have ne: "hand_state (statem s) \<noteq> hand_state (statem s')" using st fin by (auto simp: awaits_flight13_def)
  obtain mt mts1 s1 s2 where m: "mts = mt # mts1" "ossl_statem_server_read_transition e mt s = (True, s1)"
      "keeps_srvr13 s1 s2" "reads (ossl_statem_server_read_transition e) keeps_srvr13 s2 mts1 s'"
    by (rule reads_moves [OF r ne])
  have mt: "mt = SSL3_MT_CERTIFICATE \<and> s1 = set_hand_state TLS_ST_SR_CERT s"
    using m(2) tls st True
    by (auto simp: server13_expects ossl_statem_server13_read_transition_def sr_cert_or_finished_def
        on_message_True awaits_flight13_def)
  then have s2: "hand_state (statem s2) = TLS_ST_SR_CERT" "SSL_IS_TLS13 s2"
    using keeps_srvr13_TLS13 [OF m(3)] tls m(3) by (auto simp: keeps_srvr13_def)
  have "reads (ossl_statem_server_read_transition e) keeps_srvr13 s [mt] s2"
    using m(2,3) by (auto simp: reads_Cons_iff reads_Nil_iff)
  with reads_server13_cert [OF m(4) s2(2) fin s2(1)] mt s2 True m(1) show ?thesis by auto
qed

subsection \<open>What the server writes\<close>

definition sw_states :: "ossl_handshake_state list" where
  "sw_states =
     [TLS_ST_SW_HELLO_REQ, DTLS_ST_SW_HELLO_VERIFY_REQUEST, TLS_ST_SW_SRVR_HELLO, TLS_ST_SW_CERT,
      TLS_ST_SW_KEY_EXCH, TLS_ST_SW_CERT_REQ, TLS_ST_SW_SRVR_DONE, TLS_ST_SW_SESSION_TICKET,
      TLS_ST_SW_CERT_STATUS, TLS_ST_SW_CHANGE, TLS_ST_SW_FINISHED, TLS_ST_SW_ENCRYPTED_EXTENSIONS,
      TLS_ST_SW_CERT_VRFY, TLS_ST_SW_KEY_UPDATE, TLS_ST_EARLY_DATA]"

lemma server13_write_states:
  assumes "ossl_statem_server13_write_transition e s = (WRITE_TRAN_CONTINUE, s1)"
  shows "hand_state (statem s1) \<in> set (TLS_ST_OK # sw_states)"
  using assms
  by (auto simp: ossl_statem_server13_write_transition_def sr_finished_write13_def sw_states_def Let_def
      split: ossl_handshake_state.splits if_splits)

lemmas after_sw_defs = after_sw_srvr_hello_def after_sw_cert_def after_sw_cert_status_def
  after_sw_key_exch_def sr_clnt_hello_next_def

lemma server12_write_states:
  assumes "server12_write_transition e s = (WRITE_TRAN_CONTINUE, s1)"
  shows "hand_state (statem s1) \<in> set (TLS_ST_OK # sw_states)"
  using assms
  by (auto simp: server12_write_transition_def server_ok_write_def after_sw_defs sw_states_def Let_def
      split_beta split: ossl_handshake_state.splits if_splits)

lemma server_write_states:
  assumes "ossl_statem_server_write_transition e s = (WRITE_TRAN_CONTINUE, s1)"
  shows "hand_state (statem s1) \<in> set (TLS_ST_OK # sw_states)"
  using assms server13_write_states [of e s s1] server12_write_states [of e s s1]
  by (auto simp: ossl_statem_server_write_transition_def split: if_splits)

lemma server_write_has_message:
  assumes "ossl_statem_server_write_transition e s = (WRITE_TRAN_CONTINUE, s1)"
    and "ossl_statem_server_pre_work e wst s1 = (WORK_FINISHED_CONTINUE, s2)"
    and "hand_state (statem s2) = hand_state (statem s1)"
  shows "fst (ossl_statem_server_construct_message e s2) \<noteq> None"
proof -
  have "hand_state (statem s1) \<noteq> TLS_ST_OK"
    using assms(2) by (auto simp: ossl_statem_server_pre_work_def tls_finish_handshake_stop)
  then have "hand_state (statem s2) \<in> set sw_states"
    using server_write_states [OF assms(1)] assms(3) by simp
  then show ?thesis
    by (auto simp: sw_states_def ossl_statem_server_construct_message_def confunc_def)
qed

text \<open>The server's flight after its ServerHello in a full handshake up to TLS 1.2.  What the
  construction of the messages leaves alone: all that the transitions depend on, except that writing
  the CertificateRequest is counted.\<close>

definition keeps_write12 :: "'w ssl \<Rightarrow> 'w ssl \<Rightarrow> bool" where
  "keeps_write12 s s' \<longleftrightarrow>
     hand_state (statem s') = hand_state (statem s) \<and> meth s' = meth s \<and> hit s' = hit s \<and>
     ext s' = ext s \<and> new_cipher (s3 s') = new_cipher (s3 s) \<and> psk_identity_hint s' = psk_identity_hint s \<and>
     (hand_state (statem s) \<noteq> TLS_ST_SW_CERT_REQ \<longrightarrow> certreqs_sent s' = certreqs_sent s) \<and>
     verify_mode s' = verify_mode s \<and> post_handshake_auth s' = post_handshake_auth s"

definition written12 :: "bool \<Rightarrow> bool \<Rightarrow> bool \<Rightarrow> bool \<Rightarrow> ossl_handshake_state \<Rightarrow> int list option" where
  "written12 c st k r h =
     (let req = (if r then [SSL3_MT_CERTIFICATE_REQUEST] else []) @ [SSL3_MT_SERVER_DONE];
          ske = (if k then [SSL3_MT_SERVER_KEY_EXCHANGE] else []) @ req;
          status = (if st then [SSL3_MT_CERTIFICATE_STATUS] else []) @ ske
      in case h of
           TLS_ST_SW_SRVR_DONE \<Rightarrow> Some []
         | TLS_ST_SW_CERT_REQ \<Rightarrow> Some [SSL3_MT_SERVER_DONE]
         | TLS_ST_SW_KEY_EXCH \<Rightarrow> Some req
         | TLS_ST_SW_CERT_STATUS \<Rightarrow> Some ske
         | TLS_ST_SW_CERT \<Rightarrow> Some status
         | TLS_ST_SW_SRVR_HELLO \<Rightarrow> Some (if c then SSL3_MT_CERTIFICATE # status else ske)
         | _ \<Rightarrow> None)"

definition flight_written12 :: "'w ssl \<Rightarrow> int list option" where
  "flight_written12 s =
     written12 (\<not> flag (new_cipher_auth s) (SSL_aNULL OR SSL_aSRP OR SSL_aPSK)) (status_expected (ext s))
       (send_server_key_exchange s) (send_certificate_request s) (hand_state (statem s))"

lemma keeps_write12_params:
  assumes "keeps_write12 s s'"
  shows "SSL_IS_TLS13 s' = SSL_IS_TLS13 s" "send_server_key_exchange s' = send_server_key_exchange s"
    "new_cipher_auth s' = new_cipher_auth s" "ext s' = ext s" "hit s' = hit s"
    "hand_state (statem s') = hand_state (statem s)"
    "hand_state (statem s) \<noteq> TLS_ST_SW_CERT_REQ \<Longrightarrow> send_certificate_request s' = send_certificate_request s"
  using assms SSL_IS_TLS13_cong [of s' s]
  by (simp_all add: keeps_write12_def send_server_key_exchange_def send_certificate_request_def
      new_cipher_auth_def new_cipher_mkey_def Let_def)

lemma flight_written12_cong: "keeps_write12 s s' \<Longrightarrow> flight_written12 s' = flight_written12 s"
  using keeps_write12_params [of s s']
  by (cases "hand_state (statem s) = TLS_ST_SW_CERT_REQ") (auto simp: flight_written12_def written12_def Let_def)

lemma set_hand_state_srvr_params [simp]:
  "send_server_key_exchange (set_hand_state h s) = send_server_key_exchange s"
  "send_certificate_request (set_hand_state h s) = send_certificate_request s"
  by (simp_all add: send_server_key_exchange_def send_certificate_request_def new_cipher_auth_def
      new_cipher_mkey_def set_hand_state_def SSL_IS_TLS13_def SSL_IS_DTLS_def)

lemma written12_states:
  "written12 c st k r h = Some ms \<Longrightarrow>
    h \<in> {TLS_ST_SW_SRVR_DONE, TLS_ST_SW_CERT_REQ, TLS_ST_SW_KEY_EXCH, TLS_ST_SW_CERT_STATUS,
         TLS_ST_SW_CERT, TLS_ST_SW_SRVR_HELLO}"
  by (cases h) (simp_all add: written12_def Let_def)

abbreviation server_con :: "'w env \<Rightarrow> 'w ssl \<Rightarrow> confunc_mt" where
  "server_con e s \<equiv> fst (ossl_statem_server_construct_message e s)"

lemma server12_write_step:
  assumes "\<not> SSL_IS_TLS13 s" "\<not> hit s" and w: "flight_written12 s = Some (m # ms)"
  shows "\<exists>h f. ossl_statem_server_write_transition e s = (WRITE_TRAN_CONTINUE, set_hand_state h s) \<and>
    server_con e (set_hand_state h s) = Some (f, m) \<and> flight_written12 (set_hand_state h s) = Some ms"
proof -
  note d = ossl_statem_server_write_transition_def server12_write_transition_def cont_def after_sw_defs
    ossl_statem_server_construct_message_def confunc_def flight_written12_def written12_def Let_def
  from w have "\<exists>c st k r. written12 c st k r (hand_state (statem s)) = Some (m # ms)"
    by (auto simp: flight_written12_def)
  then consider "hand_state (statem s) = TLS_ST_SW_SRVR_DONE"
    | "hand_state (statem s) = TLS_ST_SW_CERT_REQ" | "hand_state (statem s) = TLS_ST_SW_KEY_EXCH"
    | "hand_state (statem s) = TLS_ST_SW_CERT_STATUS" | "hand_state (statem s) = TLS_ST_SW_CERT"
    | "hand_state (statem s) = TLS_ST_SW_SRVR_HELLO" using written12_states by fastforce
  then show ?thesis
  proof cases
    case 1
    with w show ?thesis by (simp add: d)
  next
    case 2
    with assms show ?thesis by (auto simp: d)
  next
    case 3
    with assms show ?thesis by (auto simp: d split: if_splits)
  next
    case 4
    with assms show ?thesis by (auto simp: d split: if_splits)
  next
    case 5
    with assms show ?thesis by (auto simp: d split: if_splits)
  next
    case 6
    with assms show ?thesis by (auto simp: d split: if_splits)
  qed
qed

lemma flight_written12_Nil:
  assumes "flight_written12 s = Some []"
  shows "hand_state (statem s) = TLS_ST_SW_SRVR_DONE"
proof -
  have "h = TLS_ST_SW_SRVR_DONE" if "written12 c st k r h = Some []" for c st k r h
    using that by (cases h) (auto simp: written12_def Let_def split: if_splits)
  with assms show ?thesis by (auto simp: flight_written12_def)
qed

lemma writes_server12:
  assumes "writes (ossl_statem_server_write_transition e) (server_con e) keeps_write12 s mts s'"
    and "\<not> SSL_IS_TLS13 s" "\<not> hit s" and "flight_written12 s = Some ms"
  shows "mts = ms"
  using assms
proof (induction arbitrary: ms rule: writes.induct)
  case (writes_Finished s s')
  then show ?case using server12_write_step [of s _ _ e] by (cases ms) auto
next
  case (writes_Continue s s1 f mt s2 mts s')
  have "ms \<noteq> []"
  proof
    assume "ms = []"
    then have "hand_state (statem s) = TLS_ST_SW_SRVR_DONE"
      using flight_written12_Nil writes_Continue.prems(3) by simp
    with writes_Continue.hyps(1) writes_Continue.prems(1) show False
      by (simp add: ossl_statem_server_write_transition_def server12_write_transition_def)
  qed
  then obtain m ms' where ms: "ms = m # ms'" by (cases ms) auto
  from server12_write_step [OF writes_Continue.prems(1,2) writes_Continue.prems(3) [unfolded ms], of e]
  obtain h g where h: "s1 = set_hand_state h s" "mt = m" "flight_written12 s1 = Some ms'"
    using writes_Continue.hyps(1,2) by auto
  have "\<not> SSL_IS_TLS13 s2" "\<not> hit s2"
    using keeps_write12_params [OF writes_Continue.hyps(3)] h(1) writes_Continue.prems by auto
  moreover have "flight_written12 s2 = Some ms'"
    using flight_written12_cong [OF writes_Continue.hyps(3)] h(3) by simp
  ultimately show ?case using writes_Continue.IH ms h(2) by simp
qed

text \<open>The TLS 1.3 server's flight; it ends with the pseudo message of \<^verbatim>\<open>TLS_ST_EARLY_DATA\<close>, which is
  not sent.\<close>

definition keeps_write13 :: "'w ssl \<Rightarrow> 'w ssl \<Rightarrow> bool" where
  "keeps_write13 s s' \<longleftrightarrow>
     hand_state (statem s') = hand_state (statem s) \<and> meth s' = meth s \<and> hit s' = hit s \<and>
     hello_retry_request s' = hello_retry_request s \<and> post_handshake_auth s' = post_handshake_auth s \<and>
     (hand_state (statem s) \<noteq> TLS_ST_SW_CERT_REQ \<longrightarrow>
        send_certificate_request s' = send_certificate_request s)"

definition written13 :: "bool \<Rightarrow> bool \<Rightarrow> ossl_handshake_state \<Rightarrow> int list option" where
  "written13 resumed r h =
     (let fin = [SSL3_MT_FINISHED, SSL3_MT_DUMMY];
          auth = [SSL3_MT_CERTIFICATE, SSL3_MT_CERTIFICATE_VERIFY] @ fin;
          rest = (if resumed then fin else if r then SSL3_MT_CERTIFICATE_REQUEST # auth else auth)
      in case h of
           TLS_ST_EARLY_DATA \<Rightarrow> Some []
         | TLS_ST_SW_FINISHED \<Rightarrow> Some [SSL3_MT_DUMMY]
         | TLS_ST_SW_CERT_VRFY \<Rightarrow> Some fin
         | TLS_ST_SW_CERT \<Rightarrow> Some (SSL3_MT_CERTIFICATE_VERIFY # fin)
         | TLS_ST_SW_CERT_REQ \<Rightarrow> Some auth
         | TLS_ST_SW_ENCRYPTED_EXTENSIONS \<Rightarrow> Some rest
         | TLS_ST_SW_CHANGE \<Rightarrow> Some (SSL3_MT_ENCRYPTED_EXTENSIONS # rest)
         | _ \<Rightarrow> None)"

definition flight_written13 :: "'w ssl \<Rightarrow> int list option" where
  "flight_written13 s = written13 (hit s) (send_certificate_request s) (hand_state (statem s))"

definition plain13 :: "'w ssl \<Rightarrow> bool" where
  "plain13 s \<longleftrightarrow> SSL_IS_TLS13 s \<and> hello_retry_request s \<noteq> SSL_HRR_PENDING \<and>
     post_handshake_auth s \<noteq> SSL_PHA_REQUEST_PENDING"

lemma keeps_write13_params:
  assumes "keeps_write13 s s'"
  shows "plain13 s' = plain13 s" "flight_written13 s' = flight_written13 s"
proof -
  show "plain13 s' = plain13 s"
    using assms SSL_IS_TLS13_cong [of s' s] by (simp add: plain13_def keeps_write13_def)
  show "flight_written13 s' = flight_written13 s"
    using assms by (cases "hand_state (statem s) = TLS_ST_SW_CERT_REQ")
      (auto simp: keeps_write13_def flight_written13_def written13_def Let_def)
qed

lemma plain13_set_hand_state [simp]: "plain13 (set_hand_state h s) = plain13 s"
  by (simp add: plain13_def set_hand_state_def SSL_IS_TLS13_def SSL_IS_DTLS_def)

lemma written13_states:
  "written13 resumed r h = Some ms \<Longrightarrow>
    h \<in> {TLS_ST_EARLY_DATA, TLS_ST_SW_FINISHED, TLS_ST_SW_CERT_VRFY, TLS_ST_SW_CERT, TLS_ST_SW_CERT_REQ,
         TLS_ST_SW_ENCRYPTED_EXTENSIONS, TLS_ST_SW_CHANGE}"
  by (cases h) (simp_all add: written13_def Let_def)

lemma server13_write_step:
  assumes "plain13 s" and w: "flight_written13 s = Some (m # ms)"
  shows "\<exists>h f. ossl_statem_server_write_transition e s = (WRITE_TRAN_CONTINUE, set_hand_state h s) \<and>
    server_con e (set_hand_state h s) = Some (f, m) \<and> flight_written13 (set_hand_state h s) = Some ms"
proof -
  note d = ossl_statem_server_write_transition_def ossl_statem_server13_write_transition_def cont_def
    ossl_statem_server_construct_message_def confunc_def flight_written13_def written13_def Let_def
    plain13_def
  from w consider "hand_state (statem s) = TLS_ST_EARLY_DATA" | "hand_state (statem s) = TLS_ST_SW_FINISHED"
    | "hand_state (statem s) = TLS_ST_SW_CERT_VRFY" | "hand_state (statem s) = TLS_ST_SW_CERT"
    | "hand_state (statem s) = TLS_ST_SW_CERT_REQ"
    | "hand_state (statem s) = TLS_ST_SW_ENCRYPTED_EXTENSIONS"
    | "hand_state (statem s) = TLS_ST_SW_CHANGE" using written13_states unfolding flight_written13_def by blast
  then show ?thesis using assms by cases (auto simp: d split: if_splits)
qed

lemma flight_written13_Nil:
  assumes "flight_written13 s = Some []"
  shows "hand_state (statem s) = TLS_ST_EARLY_DATA"
proof -
  have "h = TLS_ST_EARLY_DATA" if "written13 c r h = Some []" for c r h
    using that by (cases h) (auto simp: written13_def Let_def split: if_splits)
  with assms show ?thesis by (auto simp: flight_written13_def)
qed

lemma writes_server13:
  assumes "writes (ossl_statem_server_write_transition e) (server_con e) keeps_write13 s mts s'"
    and "plain13 s" and "flight_written13 s = Some ms"
  shows "mts = ms"
  using assms
proof (induction arbitrary: ms rule: writes.induct)
  case (writes_Finished s s')
  then show ?case using server13_write_step [of s _ _ e] by (cases ms) auto
next
  case (writes_Continue s s1 f mt s2 mts s')
  have "ms \<noteq> []"
  proof
    assume "ms = []"
    then have "hand_state (statem s) = TLS_ST_EARLY_DATA"
      using flight_written13_Nil writes_Continue.prems(2) by simp
    with writes_Continue.hyps(1) writes_Continue.prems(1) show False
      by (simp add: ossl_statem_server_write_transition_def ossl_statem_server13_write_transition_def
          plain13_def)
  qed
  then obtain m ms' where ms: "ms = m # ms'" by (cases ms) auto
  from server13_write_step [OF writes_Continue.prems(1) writes_Continue.prems(2) [unfolded ms], of e]
  obtain h g where h: "s1 = set_hand_state h s" "mt = m" "flight_written13 s1 = Some ms'"
    using writes_Continue.hyps(1,2) by auto
  then have "plain13 s2" "flight_written13 s2 = Some ms'"
    using keeps_write13_params [OF writes_Continue.hyps(3)] writes_Continue.prems by auto
  then show ?case using writes_Continue.IH ms h(2) by simp
qed

lemma keeps_write12_refl [simp]: "keeps_write12 s s"
  by (simp add: keeps_write12_def)

lemma writes_server12_complete:
  assumes "\<not> SSL_IS_TLS13 s" "\<not> hit s" and "flight_written12 s = Some ms"
  shows "\<exists>s'. writes (ossl_statem_server_write_transition e) (server_con e) keeps_write12 s ms s'"
  using assms
proof (induction ms arbitrary: s)
  case Nil
  then have "ossl_statem_server_write_transition e s = (WRITE_TRAN_FINISHED, s)"
    using flight_written12_Nil [OF Nil.prems(3)]
    by (simp add: ossl_statem_server_write_transition_def server12_write_transition_def)
  then show ?case using writes_Finished by blast
next
  case (Cons m ms)
  from server12_write_step [OF Cons.prems, of e] obtain h f where
    h: "ossl_statem_server_write_transition e s = (WRITE_TRAN_CONTINUE, set_hand_state h s)"
      "server_con e (set_hand_state h s) = Some (f, m)" "flight_written12 (set_hand_state h s) = Some ms"
    by blast
  have "\<not> SSL_IS_TLS13 (set_hand_state h s)" "\<not> hit (set_hand_state h s)" using Cons.prems by simp_all
  from Cons.IH [OF this h(3)] show ?case
    using writes_Continue [of "ossl_statem_server_write_transition e", OF h(1), of "server_con e", OF h(2)]
    by (meson keeps_write12_refl)
qed

lemma keeps_write13_refl [simp]: "keeps_write13 s s"
  by (simp add: keeps_write13_def)

lemma writes_server13_complete:
  assumes "plain13 s" and "flight_written13 s = Some ms"
  shows "\<exists>s'. writes (ossl_statem_server_write_transition e) (server_con e) keeps_write13 s ms s'"
  using assms
proof (induction ms arbitrary: s)
  case Nil
  then have "ossl_statem_server_write_transition e s = (WRITE_TRAN_FINISHED, s)"
    using flight_written13_Nil [OF Nil.prems(2)]
    by (simp add: ossl_statem_server_write_transition_def ossl_statem_server13_write_transition_def
        plain13_def)
  then show ?case using writes_Finished by blast
next
  case (Cons m ms)
  from server13_write_step [OF Cons.prems, of e] obtain h f where
    h: "ossl_statem_server_write_transition e s = (WRITE_TRAN_CONTINUE, set_hand_state h s)"
      "server_con e (set_hand_state h s) = Some (f, m)" "flight_written13 (set_hand_state h s) = Some ms"
    by blast
  have "plain13 (set_hand_state h s)" using Cons.prems by simp
  from Cons.IH [OF this h(3)] show ?case
    using writes_Continue [of "ossl_statem_server_write_transition e", OF h(1), of "server_con e", OF h(2)]
    by (meson keeps_write13_refl)
qed

subsection \<open>The server's side of the contract\<close>

definition server_side :: "'w side" where
  "server_side =
     \<lparr>read_transition = ossl_statem_server_read_transition,
      max_message_size = ossl_statem_server_max_message_size,
      process_message = ossl_statem_server_process_message,
      post_process_message = ossl_statem_server_post_process_message,
      write_transition = ossl_statem_server_write_transition,
      pre_work = ossl_statem_server_pre_work,
      post_work = ossl_statem_server_post_work,
      construct_message = ossl_statem_server_construct_message\<rparr>"

lemma server_construct_fails:
  "ossl_statem_server_construct_message e s = (None, s') \<Longrightarrow> ossl_statem_in_error s'"
  by (auto simp: ossl_statem_server_construct_message_def construct_bad_state_def confunc_def
      ossl_statem_in_error_def split: ossl_handshake_state.splits)

interpretation sv: handshake_side server_side
proof unfold_locales
  fix e :: "'a env" and mt s s'
  assume "read_transition server_side e mt s = (False, s')"
  then show "ossl_statem_in_error s' \<or>
      SSL_IS_DTLS s \<and> mt = SSL3_MT_CHANGE_CIPHER_SPEC \<and> statem s' = statem s"
    using server_read_rejects by (simp add: server_side_def)
next
  fix e :: "'a env" and mt s s1 and s2 :: "'a ssl" and len
  assume "read_transition server_side e mt s = (True, s1)" "hand_state (statem s2) = hand_state (statem s1)"
  then show "\<exists>f. process_message server_side e len s2 = process e f len s2"
    using server_read_has_handler by (simp add: server_side_def)
next
  fix e :: "'a env" and s s1 and s2 :: "'a ssl" and wst
  assume "write_transition server_side e s = (WRITE_TRAN_CONTINUE, s1)"
    "pre_work server_side e wst s1 = (WORK_FINISHED_CONTINUE, s2)" "hand_state (statem s2) = hand_state (statem s1)"
  then show "fst (construct_message server_side e s2) \<noteq> None"
    using server_write_has_message by (simp add: server_side_def)
next
  fix e :: "'a env" and s s'
  assume "construct_message server_side e s = (None, s')"
  then show "ossl_statem_in_error s'"
    using server_construct_fails by (simp add: server_side_def)
qed (simp_all add: server_side_def ossl_statem_server_max_message_size_def
    split: ossl_handshake_state.split)

end
