(* ===== verification/Statem_Flow.thy ===== *)
theory Statem_Flow
  imports Statem_Clnt Statem_Srvr
begin

unbundle bit_operations_syntax

section \<open>The message flow state machine\<close>

text \<open>
  Model of the rest of \<^verbatim>\<open>ssl/statem/statem.c\<close>: the reading and the writing sub-state machine and
  \<^verbatim>\<open>state_machine\<close>, which \<^verbatim>\<open>SSL_connect\<close> and \<^verbatim>\<open>SSL_accept\<close> run.  One iteration of each \<^verbatim>\<open>while\<close> loop
  is a function whose first result is \<open>Some r\<close> for \<^verbatim>\<open>return r\<close> and \<open>None\<close> for another iteration.  The
  loops themselves need not end (a peer may go on sending messages), so they are partial functions:
  not returning is the value \<open>None\<close>.
\<close>

datatype sub_state_return = SUB_STATE_ERROR | SUB_STATE_FINISHED | SUB_STATE_END_HANDSHAKE

definition side_of :: "'w ssl \<Rightarrow> 'w side" where
  "side_of s = (if server s then server_side else client_side)"

subsection \<open>Reading\<close>

definition init_read_state_machine :: "'w ssl \<Rightarrow> 'w ssl" where
  "init_read_state_machine s = upd_st (\<lambda>st. st\<lparr>read_state := READ_STATE_HEADER\<rparr>) s"

text \<open>\<^verbatim>\<open>(int)size\<close>, converted back to the \<^verbatim>\<open>size_t\<close> parameter of \<^verbatim>\<open>BUF_MEM_grow_clean\<close>.\<close>

definition through_int :: "nat \<Rightarrow> nat" where
  "through_int n = (let m = n mod 2 ^ 32 in if m < 2 ^ 31 then m else m + (2 ^ 64 - 2 ^ 32))"

text \<open>\<open>init_msg\<close> is an offset, so recomputing the pointer after the block moved leaves it as it is.\<close>

definition grow_init_buf :: "'w env \<Rightarrow> nat \<Rightarrow> 'w ssl \<Rightarrow> bool \<times> 'w ssl" where
  "grow_init_buf e sz s =
     (case init_buf s of None \<Rightarrow> (False, s)
      | Some b \<Rightarrow>
         let (r, b) = BUF_MEM_grow_clean (heap e) b (through_int sz); s = s\<lparr>init_buf := Some b\<rparr>
         in if r = 0 then (False, s) else if sz < init_msg s then (False, s) else (True, s))"

definition loop_notify :: "'w env \<Rightarrow> 'w ssl \<Rightarrow> 'w ssl" where
  "loop_notify e s = notify e (if server s then SSL_CB_ACCEPT_LOOP else SSL_CB_CONNECT_LOOP) 1 s"

type_synonym 'w read_result = "sub_state_return option \<times> nat \<times> 'w ssl"

definition read_error :: "'w env \<Rightarrow> int \<Rightarrow> ssl_reason \<Rightarrow> nat \<Rightarrow> 'w ssl \<Rightarrow> 'w read_result" where
  "read_error e al reason len s =
     (Some SUB_STATE_ERROR, len, ossl_statem_fatal e al SSL_F_READ_STATE_MACHINE reason s)"

definition get_message :: "'w env \<Rightarrow> nat \<Rightarrow> 'w ssl \<Rightarrow> int \<times> int \<times> nat \<times> 'w ssl" where
  "get_message e len s =
     (if SSL_IS_DTLS s then let ((ret, mt, len), s) = get_dtls e s in (ret, mt, len, s)
      else let ((ret, mt), s) = get_header e s in (ret, mt, len, s))"

definition read_header :: "'w side \<Rightarrow> 'w env \<Rightarrow> nat \<Rightarrow> 'w ssl \<Rightarrow> 'w read_result" where
  "read_header sd e len s =
     (let (ret, mt, len, s) = get_message e len s in
      if ret = 0 then (Some SUB_STATE_ERROR, len, s)
      else
        let s = loop_notify e s; (ok, s) = read_transition sd e mt s in
        if \<not> ok then (Some SUB_STATE_ERROR, len, s)
        else if message_size (s3 s) > max_message_size sd s
        then read_error e SSL_AD_ILLEGAL_PARAMETER SSL_R_EXCESSIVE_MESSAGE_SIZE len s
        else
          let (ok, s) = (if \<not> SSL_IS_DTLS s \<and> message_size (s3 s) > 0
                         then grow_init_buf e ((message_size (s3 s) + SSL3_HM_HEADER_LENGTH) mod 2 ^ 64) s
                         else (True, s))
          in if \<not> ok then read_error e SSL_AD_INTERNAL_ERROR ERR_R_BUF_LIB len s
             else (None, len, upd_st (\<lambda>st. st\<lparr>read_state := READ_STATE_BODY\<rparr>) s))"

text \<open>\<^verbatim>\<open>PACKET_buf_init\<close> refuses a length above \<^verbatim>\<open>SIZE_MAX / 2\<close>.\<close>

definition packet_max :: nat where
  "packet_max = (2 ^ 64 - 1) div 2"

definition stop_timer :: "'w env \<Rightarrow> 'w ssl \<Rightarrow> 'w ssl" where
  "stop_timer e s = (if SSL_IS_DTLS s then dtls1_stop_timer e s else s)"

definition read_body :: "'w side \<Rightarrow> 'w env \<Rightarrow> nat \<Rightarrow> 'w ssl \<Rightarrow> 'w read_result" where
  "read_body sd e len s =
     (let ((ret, len), s) = (if \<not> SSL_IS_DTLS s then get_body e s else ((1, len), s)) in
      if ret = 0 then (Some SUB_STATE_ERROR, len, s)
      else
        let s = s\<lparr>first_packet := False\<rparr> in
        if len > packet_max then read_error e SSL_AD_INTERNAL_ERROR ERR_R_INTERNAL_ERROR len s
        else
          let (ret, s) = process_message sd e len s; s = s\<lparr>init_num := 0\<rparr> in
          case ret of
            MSG_PROCESS_ERROR \<Rightarrow> (Some SUB_STATE_ERROR, len, check_fatal e SSL_F_READ_STATE_MACHINE s)
          | MSG_PROCESS_FINISHED_READING \<Rightarrow> (Some SUB_STATE_FINISHED, len, stop_timer e s)
          | MSG_PROCESS_CONTINUE_PROCESSING \<Rightarrow>
              (None, len, upd_st (\<lambda>st. st\<lparr>read_state := READ_STATE_POST_PROCESS,
                                           read_state_work := WORK_MORE_A\<rparr>) s)
          | MSG_PROCESS_CONTINUE_READING \<Rightarrow> (None, len, init_read_state_machine s))"

definition read_post_process :: "'w side \<Rightarrow> 'w env \<Rightarrow> nat \<Rightarrow> 'w ssl \<Rightarrow> 'w read_result" where
  "read_post_process sd e len s =
     (let (w, s) = post_process_message sd e (read_state_work (statem s)) s;
          s = upd_st (\<lambda>st. st\<lparr>read_state_work := w\<rparr>) s
      in case w of
           WORK_ERROR \<Rightarrow> (Some SUB_STATE_ERROR, len, check_fatal e SSL_F_READ_STATE_MACHINE s)
         | WORK_FINISHED_CONTINUE \<Rightarrow> (None, len, init_read_state_machine s)
         | WORK_FINISHED_STOP \<Rightarrow> (Some SUB_STATE_FINISHED, len, stop_timer e s)
         | _ \<Rightarrow> (Some SUB_STATE_ERROR, len, s))"

definition read_iteration :: "'w side \<Rightarrow> 'w env \<Rightarrow> nat \<Rightarrow> 'w ssl \<Rightarrow> 'w read_result" where
  "read_iteration sd e len s =
     (case read_state (statem s) of
        READ_STATE_HEADER \<Rightarrow>
          (case read_header sd e len s of
             (Some r, len, s) \<Rightarrow> (Some r, len, s)
           | (None, len, s) \<Rightarrow> read_body sd e len s)
      | READ_STATE_BODY \<Rightarrow> read_body sd e len s
      | READ_STATE_POST_PROCESS \<Rightarrow> read_post_process sd e len s)"

partial_function (option) read_loop ::
  "'w side \<Rightarrow> 'w env \<Rightarrow> nat \<Rightarrow> 'w ssl \<Rightarrow> (sub_state_return \<times> 'w ssl) option" where
  "read_loop sd e len s =
     (let (r, len, s) = read_iteration sd e len s
      in case r of Some r \<Rightarrow> Some (r, s) | None \<Rightarrow> read_loop sd e len s)"

definition read_state_machine :: "'w env \<Rightarrow> 'w ssl \<Rightarrow> (sub_state_return \<times> 'w ssl) option" where
  "read_state_machine e s =
     (let s' = (if read_state_first_init (statem s)
                then upd_st (\<lambda>st. st\<lparr>read_state_first_init := False\<rparr>) (s\<lparr>first_packet := True\<rparr>) else s)
      in read_loop (side_of s) e 0 s')"

subsection \<open>Writing\<close>

definition init_write_state_machine :: "'w ssl \<Rightarrow> 'w ssl" where
  "init_write_state_machine s = upd_st (\<lambda>st. st\<lparr>write_state := WRITE_STATE_TRANSITION\<rparr>) s"

definition statem_do_write :: "'w env \<Rightarrow> 'w ssl \<Rightarrow> int \<times> 'w ssl" where
  "statem_do_write e s =
     (if hand_state (statem s) = TLS_ST_CW_CHANGE \<or> hand_state (statem s) = TLS_ST_SW_CHANGE then
        (if SSL_IS_DTLS s then call e (call_dtls1_do_write SSL3_RT_CHANGE_CIPHER_SPEC) s
         else call e (ssl3_do_write SSL3_RT_CHANGE_CIPHER_SPEC) s)
      else call e ssl_do_write s)"

type_synonym 'w write_result = "sub_state_return option \<times> 'w ssl"

definition to_post_work :: "'w ssl \<Rightarrow> 'w ssl" where
  "to_post_work s =
     upd_st (\<lambda>st. st\<lparr>write_state := WRITE_STATE_POST_WORK, write_state_work := WORK_MORE_A\<rparr>) s"

definition write_post_work :: "'w side \<Rightarrow> 'w env \<Rightarrow> 'w ssl \<Rightarrow> 'w write_result" where
  "write_post_work sd e s =
     (let (w, s) = post_work sd e (write_state_work (statem s)) s;
          s = upd_st (\<lambda>st. st\<lparr>write_state_work := w\<rparr>) s
      in case w of
           WORK_ERROR \<Rightarrow> (Some SUB_STATE_ERROR, check_fatal e SSL_F_WRITE_STATE_MACHINE s)
         | WORK_FINISHED_CONTINUE \<Rightarrow> (None, init_write_state_machine s)
         | WORK_FINISHED_STOP \<Rightarrow> (Some SUB_STATE_END_HANDSHAKE, s)
         | _ \<Rightarrow> (Some SUB_STATE_ERROR, s))"

definition write_send :: "'w side \<Rightarrow> 'w env \<Rightarrow> 'w ssl \<Rightarrow> 'w write_result" where
  "write_send sd e s =
     (let s = (if SSL_IS_DTLS s \<and> use_timer (statem s) then dtls1_start_timer e s else s);
          (ret, s) = statem_do_write e s
      in if ret \<le> 0 then (Some SUB_STATE_ERROR, s) else write_post_work sd e (to_post_work s))"

definition write_error :: "'w env \<Rightarrow> 'w ssl \<Rightarrow> 'w write_result" where
  "write_error e s =
     (Some SUB_STATE_ERROR,
      ossl_statem_fatal e SSL_AD_INTERNAL_ERROR SSL_F_WRITE_STATE_MACHINE ERR_R_INTERNAL_ERROR s)"

text \<open>Building the message: header, body (unless there is no construction function), end.\<close>

definition write_construct :: "'w side \<Rightarrow> 'w env \<Rightarrow> 'w ssl \<Rightarrow> 'w write_result" where
  "write_construct sd e s =
     (case construct_message sd e s of
        (None, s) \<Rightarrow> (Some SUB_STATE_ERROR, s)
      | (Some (cf, mt), s) \<Rightarrow>
          if mt = SSL3_MT_DUMMY then (None, to_post_work s)
          else
            let (r, s) = call e (WPACKET_init_and_set_handshake_header mt) s in
            if r = 0 then write_error e s
            else
              let (r, s) = (case cf of None \<Rightarrow> (1, s) | Some f \<Rightarrow> construct e f s) in
              if r = 0 then (Some SUB_STATE_ERROR, check_fatal e SSL_F_WRITE_STATE_MACHINE s)
              else
                let (r, s) = call e (ssl_close_construct_packet mt) s in
                if r = 0 then write_error e s else write_send sd e s)"

definition write_pre_work :: "'w side \<Rightarrow> 'w env \<Rightarrow> 'w ssl \<Rightarrow> 'w write_result" where
  "write_pre_work sd e s =
     (let (w, s) = pre_work sd e (write_state_work (statem s)) s;
          s = upd_st (\<lambda>st. st\<lparr>write_state_work := w\<rparr>) s
      in case w of
           WORK_ERROR \<Rightarrow> (Some SUB_STATE_ERROR, check_fatal e SSL_F_WRITE_STATE_MACHINE s)
         | WORK_FINISHED_CONTINUE \<Rightarrow>
             write_construct sd e (upd_st (\<lambda>st. st\<lparr>write_state := WRITE_STATE_SEND\<rparr>) s)
         | WORK_FINISHED_STOP \<Rightarrow> (Some SUB_STATE_END_HANDSHAKE, s)
         | _ \<Rightarrow> (Some SUB_STATE_ERROR, s))"

definition write_trans :: "'w side \<Rightarrow> 'w env \<Rightarrow> 'w ssl \<Rightarrow> 'w write_result" where
  "write_trans sd e s =
     (let s = loop_notify e s; (t, s) = write_transition sd e s in
      case t of
        WRITE_TRAN_CONTINUE \<Rightarrow>
          (None, upd_st (\<lambda>st. st\<lparr>write_state := WRITE_STATE_PRE_WORK, write_state_work := WORK_MORE_A\<rparr>) s)
      | WRITE_TRAN_FINISHED \<Rightarrow> (Some SUB_STATE_FINISHED, s)
      | WRITE_TRAN_ERROR \<Rightarrow> (Some SUB_STATE_ERROR, check_fatal e SSL_F_WRITE_STATE_MACHINE s))"

definition write_iteration :: "'w side \<Rightarrow> 'w env \<Rightarrow> 'w ssl \<Rightarrow> 'w write_result" where
  "write_iteration sd e s =
     (case write_state (statem s) of
        WRITE_STATE_TRANSITION \<Rightarrow> write_trans sd e s
      | WRITE_STATE_PRE_WORK \<Rightarrow> write_pre_work sd e s
      | WRITE_STATE_SEND \<Rightarrow> write_send sd e s
      | WRITE_STATE_POST_WORK \<Rightarrow> write_post_work sd e s)"

partial_function (option) write_loop ::
  "'w side \<Rightarrow> 'w env \<Rightarrow> 'w ssl \<Rightarrow> (sub_state_return \<times> 'w ssl) option" where
  "write_loop sd e s =
     (let (r, s) = write_iteration sd e s
      in case r of Some r \<Rightarrow> Some (r, s) | None \<Rightarrow> write_loop sd e s)"

definition write_state_machine :: "'w env \<Rightarrow> 'w ssl \<Rightarrow> (sub_state_return \<times> 'w ssl) option" where
  "write_state_machine e s = write_loop (side_of s) e s"

subsection \<open>The message flow\<close>

text \<open>The \<^verbatim>\<open>while\<close> loop of \<^verbatim>\<open>state_machine\<close>: \<open>True\<close> when it is left at its end, \<open>False\<close> for \<^verbatim>\<open>goto end\<close>.\<close>

definition set_flow :: "msg_flow_state \<Rightarrow> 'w ssl \<Rightarrow> 'w ssl" where
  "set_flow f s = upd_st (\<lambda>st. st\<lparr>flow_state := f\<rparr>) s"

definition flow_iteration :: "'w env \<Rightarrow> 'w ssl \<Rightarrow> (bool option \<times> 'w ssl) option" where
  "flow_iteration e s =
     (if flow_state (statem s) = MSG_FLOW_FINISHED then Some (Some True, s)
      else if flow_state (statem s) = MSG_FLOW_READING then
        (case read_state_machine e s of None \<Rightarrow> None
         | Some (ssret, s) \<Rightarrow>
             if ssret = SUB_STATE_FINISHED
             then Some (None, init_write_state_machine (set_flow MSG_FLOW_WRITING s))
             else Some (Some False, s))
      else if flow_state (statem s) = MSG_FLOW_WRITING then
        (case write_state_machine e s of None \<Rightarrow> None
         | Some (ssret, s) \<Rightarrow>
             if ssret = SUB_STATE_FINISHED
             then Some (None, init_read_state_machine (set_flow MSG_FLOW_READING s))
             else if ssret = SUB_STATE_END_HANDSHAKE
             then Some (None, set_flow MSG_FLOW_FINISHED s)
             else Some (Some False, s))
      else Some (Some False, ERR_put_error SSL_F_STATE_MACHINE ERR_R_SHOULD_NOT_HAVE_BEEN_CALLED
                               (check_fatal e SSL_F_STATE_MACHINE s)))"

partial_function (option) flow_loop :: "'w env \<Rightarrow> 'w ssl \<Rightarrow> (bool \<times> 'w ssl) option" where
  "flow_loop e s =
     (case flow_iteration e s of None \<Rightarrow> None
      | Some rs \<Rightarrow> (case fst rs of Some b \<Rightarrow> Some (b, snd rs) | None \<Rightarrow> flow_loop e (snd rs)))"

definition init_fatal :: "'w env \<Rightarrow> 'w ssl \<Rightarrow> bool \<times> 'w ssl" where
  "init_fatal e s =
     (False, ossl_statem_fatal e SSL_AD_NO_ALERT SSL_F_STATE_MACHINE ERR_R_INTERNAL_ERROR s)"

definition version_ok :: "bool \<Rightarrow> 'w ssl \<Rightarrow> bool" where
  "version_ok srv s =
     (if SSL_IS_DTLS s
      then \<not> (version s AND 0xff00 \<noteq> DTLS1_VERSION AND 0xff00 \<and>
              (srv \<or> version s AND 0xff00 \<noteq> DTLS1_BAD_VER AND 0xff00))
      else drop_bit 8 (version s) = SSL3_VERSION_MAJOR)"

text \<open>Allocating \<^verbatim>\<open>init_buf\<close>; a buffer that cannot be grown is freed at \<^verbatim>\<open>end:\<close>.\<close>

definition alloc_init_buf :: "'w env \<Rightarrow> 'w ssl \<Rightarrow> bool \<times> 'w ssl" where
  "alloc_init_buf e s =
     (if init_buf s = None then
        (case BUF_MEM_new (query e BUF_MEM_new_ok s \<noteq> 0) of
           None \<Rightarrow> (False, s)
         | Some buf \<Rightarrow>
             let (r, buf) = BUF_MEM_grow (heap e) buf SSL3_RT_MAX_PLAIN_LENGTH
             in if r = 0 then (False, s) else (True, s\<lparr>init_buf := Some buf\<rparr>))
      else (True, s))"

definition or_fatal :: "'w env \<Rightarrow> bool \<times> 'w ssl \<Rightarrow> ('w ssl \<Rightarrow> bool \<times> 'w ssl) \<Rightarrow> bool \<times> 'w ssl" where
  "or_fatal e r f = (if fst r then f (snd r) else init_fatal e (snd r))"

definition init_buffers :: "'w env \<Rightarrow> 'w ssl \<Rightarrow> bool \<times> 'w ssl" where
  "init_buffers e s =
     or_fatal e (alloc_init_buf e s) (\<lambda>s.
     or_fatal e (let (r, s) = call e ssl3_setup_buffers s in (r \<noteq> 0, s)) (\<lambda>s.
     let s = s\<lparr>init_num := 0\<rparr>; s = upd_s3 (\<lambda>x. x\<lparr>change_cipher_spec := False\<rparr>) s
     in or_fatal e (let (r, s) = call e ssl_init_wbio_buffer s in (r \<noteq> 0, s)) (\<lambda>s. (True, s))))"

definition init_handshake :: "'w env \<Rightarrow> 'w ssl \<Rightarrow> bool \<times> 'w ssl" where
  "init_handshake e s =
     (if SSL_in_before s \<or> renegotiate s then
        let (ok, s) = tls_setup_handshake e s
        in if \<not> ok then (False, s)
           else (True, if SSL_IS_FIRST_HANDSHAKE s
                       then upd_st (\<lambda>st. st\<lparr>read_state_first_init := True\<rparr>) s else s)
      else (True, s))"

text \<open>The block under \<^verbatim>\<open>if (st->state == MSG_FLOW_UNINITED || st->state == MSG_FLOW_FINISHED)\<close>;
  \<open>False\<close> is \<^verbatim>\<open>goto end\<close>.\<close>

definition init_statem :: "'w env \<Rightarrow> bool \<Rightarrow> 'w ssl \<Rightarrow> bool \<times> 'w ssl" where
  "init_statem e srv s =
     (let s = (if flow_state (statem s) = MSG_FLOW_UNINITED
               then upd_st (\<lambda>st. st\<lparr>hand_state := TLS_ST_BEFORE, request_state := TLS_ST_BEFORE\<rparr>) s
               else s);
          s = s\<lparr>server := srv\<rparr>;
          s = (if SSL_IS_FIRST_HANDSHAKE s \<or> \<not> SSL_IS_TLS13 s
               then notify e SSL_CB_HANDSHAKE_START 1 s else s)
      in if \<not> version_ok srv s \<or> query e ssl_security_version s = 0 then init_fatal e s
         else
           let (ok, s) = init_buffers e s in
           if \<not> ok then (False, s)
           else
             let (ok, s) = init_handshake e s
             in if \<not> ok then (False, s)
                else (True, init_write_state_machine (set_flow MSG_FLOW_WRITING s)))"

text \<open>The code at \<^verbatim>\<open>end:\<close>.\<close>

definition leave :: "'w env \<Rightarrow> bool \<Rightarrow> int \<Rightarrow> 'w ssl \<Rightarrow> int \<times> 'w ssl" where
  "leave e srv ret s =
     (let s = upd_st (\<lambda>st. st\<lparr>in_handshake := in_handshake st - 1\<rparr>) s
      in (ret, notify e (if srv then SSL_CB_ACCEPT_EXIT else SSL_CB_CONNECT_EXIT) ret s))"

definition state_machine :: "'w env \<Rightarrow> bool \<Rightarrow> 'w ssl \<Rightarrow> (int \<times> 'w ssl) option" where
  "state_machine e srv s =
     (if flow_state (statem s) = MSG_FLOW_ERROR then Some (- 1, s)
      else
        let s = snd (do_io e clear_sys_error (s\<lparr>errs := []\<rparr>));
            s = upd_st (\<lambda>st. st\<lparr>in_handshake := in_handshake st + 1\<rparr>) s;
            (ok, s) = (if (\<not> SSL_in_init s \<or> SSL_in_before s) \<and> \<not> flag (s3_flags (s3 s)) TLS1_FLAGS_STATELESS
                       then let (r, s) = call e SSL_clear s in (r \<noteq> 0, s) else (True, s))
        in if \<not> ok then Some (- 1, s)
           else
             let (ok, s) = (if flow_state (statem s) = MSG_FLOW_UNINITED \<or>
                               flow_state (statem s) = MSG_FLOW_FINISHED
                            then init_statem e srv s else (True, s))
             in if \<not> ok then Some (leave e srv (- 1) s)
                else case flow_loop e s of None \<Rightarrow> None
                     | Some rs \<Rightarrow> Some (leave e srv (if fst rs then 1 else - 1) (snd rs)))"

definition ossl_statem_connect :: "'w env \<Rightarrow> 'w ssl \<Rightarrow> (int \<times> 'w ssl) option" where
  "ossl_statem_connect e s = state_machine e False s"

definition ossl_statem_accept :: "'w env \<Rightarrow> 'w ssl \<Rightarrow> (int \<times> 'w ssl) option" where
  "ossl_statem_accept e s = state_machine e True s"

subsection \<open>The documented sub-states\<close>

text \<open>
  The edges between sub-states in the diagrams of \<^verbatim>\<open>statem.c\<close>: what an iteration that does not
  return may leave behind.
\<close>

inductive read_edge :: "read_state_t \<Rightarrow> read_state_t \<Rightarrow> bool" where
  header_header: "read_edge READ_STATE_HEADER READ_STATE_HEADER"
| header_post: "read_edge READ_STATE_HEADER READ_STATE_POST_PROCESS"
| body_header: "read_edge READ_STATE_BODY READ_STATE_HEADER"
| body_post: "read_edge READ_STATE_BODY READ_STATE_POST_PROCESS"
| post_header: "read_edge READ_STATE_POST_PROCESS READ_STATE_HEADER"

inductive write_edge :: "write_state_t \<Rightarrow> write_state_t \<Rightarrow> bool" where
  transition_pre: "write_edge WRITE_STATE_TRANSITION WRITE_STATE_PRE_WORK"
| pre_transition: "write_edge WRITE_STATE_PRE_WORK WRITE_STATE_TRANSITION"
| pre_post: "write_edge WRITE_STATE_PRE_WORK WRITE_STATE_POST_WORK"
| send_transition: "write_edge WRITE_STATE_SEND WRITE_STATE_TRANSITION"
| post_transition: "write_edge WRITE_STATE_POST_WORK WRITE_STATE_TRANSITION"

lemma read_body_edge:
  "read_body sd e len s = (None, len', s') \<Longrightarrow>
    read_state (statem s') = READ_STATE_HEADER \<or> read_state (statem s') = READ_STATE_POST_PROCESS"
  by (auto simp: read_body_def read_error_def init_read_state_machine_def Let_def
      split: prod.splits if_splits msg_process_return.splits)

lemma read_post_process_edge:
  "read_post_process sd e len s = (None, len', s') \<Longrightarrow> read_state (statem s') = READ_STATE_HEADER"
  by (auto simp: read_post_process_def init_read_state_machine_def Let_def
      split: prod.splits work_state.splits)

lemma read_iteration_edge:
  "read_iteration sd e len s = (None, len', s') \<Longrightarrow>
    read_edge (read_state (statem s)) (read_state (statem s'))"
  by (auto simp: read_iteration_def split: read_state_t.splits prod.splits option.splits
      dest!: read_body_edge read_post_process_edge intro: read_edge.intros)

lemma write_post_work_edge:
  "write_post_work sd e s = (None, s') \<Longrightarrow> write_state (statem s') = WRITE_STATE_TRANSITION"
  by (auto simp: write_post_work_def init_write_state_machine_def Let_def
      split: prod.splits work_state.splits)

lemma write_send_edge:
  "write_send sd e s = (None, s') \<Longrightarrow> write_state (statem s') = WRITE_STATE_TRANSITION"
  by (auto simp: write_send_def Let_def split: prod.splits if_splits dest: write_post_work_edge)

lemma write_construct_edge:
  "write_construct sd e s = (None, s') \<Longrightarrow>
    write_state (statem s') = WRITE_STATE_TRANSITION \<or> write_state (statem s') = WRITE_STATE_POST_WORK"
  by (auto simp: write_construct_def write_error_def to_post_work_def Let_def
      split: prod.splits if_splits option.splits dest: write_send_edge)

lemma write_iteration_edge:
  "write_iteration sd e s = (None, s') \<Longrightarrow>
    write_edge (write_state (statem s)) (write_state (statem s'))"
  by (auto simp: write_iteration_def write_trans_def write_pre_work_def Let_def
      split: write_state_t.splits prod.splits work_state.splits write_tran.splits
      dest!: write_send_edge write_post_work_edge write_construct_edge intro: write_edge.intros)

subsection \<open>Reading a message\<close>

lemma through_int_small: "n < 2 ^ 31 \<Longrightarrow> through_int n = n"
  by (simp add: through_int_def Let_def)

lemma grow_init_buf_spec:
  assumes "alloc_ok (heap e)" and "init_buf s = Some b" "buf_wf b" and "sz < 2 ^ 31" "0 < sz"
    and "grow_init_buf e sz s = (True, s')"
  shows "\<exists>b'. s' = s\<lparr>init_buf := Some b'\<rparr> \<and> buf_wf b' \<and> buf_length b' = sz \<and>
    take (buf_length b) (buf_contents b') = take sz (buf_contents b) \<and> init_msg s' \<le> sz"
proof -
  obtain r b' where g: "BUF_MEM_grow_clean (heap e) b sz = (r, b')" by fastforce
  have s': "r \<noteq> 0" "s' = s\<lparr>init_buf := Some b'\<rparr>" "init_msg s \<le> sz"
    using assms(2,6) g through_int_small [OF assms(4)]
    by (auto simp: grow_init_buf_def Let_def split: if_splits)
  note c = bgc.grow_success [OF assms(1,3) g s'(1)]
  have "take (buf_length b) (buf_contents b') = take sz (buf_contents b)"
    using c(4) length_buf_contents [OF assms(3)] by (simp add: min_def)
  with c(2,3) s' show ?thesis by (intro exI [of _ b'] conjI) simp_all
qed

lemma grow_init_buf_frame: "\<exists>b. snd (grow_init_buf e sz s) = s\<lparr>init_buf := b\<rparr>"
proof (cases "init_buf s")
  case None
  then have "snd (grow_init_buf e sz s) = s\<lparr>init_buf := None\<rparr>" by (simp add: grow_init_buf_def)
  then show ?thesis ..
next
  case (Some b)
  then have "snd (grow_init_buf e sz s) =
      s\<lparr>init_buf := Some (snd (BUF_MEM_grow_clean (heap e) b (through_int sz)))\<rparr>"
    by (simp add: grow_init_buf_def Let_def split_beta)
  then show ?thesis ..
qed

lemma init_buf_same: "s = s\<lparr>init_buf := init_buf s\<rparr>"
  by simp

lemma alert_frame_loop_notify: "alert_frame s (loop_notify e s)"
  by (simp add: loop_notify_def)

context handshake_side
begin

lemma header_step:
  assumes "read_header sd e len s = (None, len', s')"
  shows "\<exists>mt s1. fst (read_transition sd e mt s1) \<and>
    hand_state (statem s') = hand_state (statem (snd (read_transition sd e mt s1))) \<and>
    message_size (s3 s') \<le> max_message_size sd s' \<and> read_state (statem s') = READ_STATE_BODY"
proof -
  obtain ret mt l s0 where g: "get_message e len s = (ret, mt, l, s0)" by (metis prod_cases4)
  let ?s1 = "loop_notify e s0"
  obtain ok s2 where t: "read_transition sd e mt ?s1 = (ok, s2)" by fastforce
  have ok: "ok" and sz: "message_size (s3 s2) \<le> max_message_size sd s2"
    using assms g t by (auto simp: read_header_def read_error_def Let_def split: if_splits prod.splits)
  let ?sz = "(message_size (s3 s2) + SSL3_HM_HEADER_LENGTH) mod 2 ^ 64"
  have "s' = upd_st (\<lambda>st. st\<lparr>read_state := READ_STATE_BODY\<rparr>) s2 \<or>
      s' = upd_st (\<lambda>st. st\<lparr>read_state := READ_STATE_BODY\<rparr>) (snd (grow_init_buf e ?sz s2))"
    using assms g t sz ok
    by (auto simp: read_header_def read_error_def Let_def split: if_splits prod.splits)
  then obtain b where s': "s' = upd_st (\<lambda>st. st\<lparr>read_state := READ_STATE_BODY\<rparr>) (s2\<lparr>init_buf := b\<rparr>)"
    using grow_init_buf_frame [of e ?sz s2] by (metis init_buf_same)
  have "max_message_size sd s' = max_message_size sd s2" unfolding s' max_size_frame ..
  with s' t ok sz show ?thesis by (intro exI [of _ mt] exI [of _ ?s1]) simp
qed

lemma header_guarantees:
  assumes "read_header sd e len s = (None, len', s')"
  shows "message_size (s3 s') \<le> max_message_size sd s'" "read_state (statem s') = READ_STATE_BODY"
    "\<exists>f. process_message sd e n s' = process e f n s'"
proof -
  from header_step [OF assms] obtain mt s1 where
    1: "fst (read_transition sd e mt s1)"
      "hand_state (statem s') = hand_state (statem (snd (read_transition sd e mt s1)))" by blast
  have "read_transition sd e mt s1 = (True, snd (read_transition sd e mt s1))" using 1(1) by (metis prod.collapse)
  from read_has_handler [OF this 1(2)] show "\<exists>f. process_message sd e n s' = process e f n s'" .
qed (use header_step [OF assms] in auto)

text \<open>A header that is not accepted: nothing to read, a message of the wrong kind, too large a
  message, or no memory.\<close>

lemma header_refuses:
  assumes "read_header sd e len s = (Some r, len', s')"
  shows "r = SUB_STATE_ERROR \<and> (ossl_statem_in_error s' \<or> fst (get_message e len s) = 0 \<or>
    SSL_IS_DTLS (snd (snd (snd (get_message e len s)))) \<and>
      fst (snd (get_message e len s)) = SSL3_MT_CHANGE_CIPHER_SPEC \<and>
      statem s' = statem (snd (snd (snd (get_message e len s)))))"
proof -
  obtain ret mt l s0 where g: "get_message e len s = (ret, mt, l, s0)" by (metis prod_cases4)
  let ?s1 = "loop_notify e s0"
  have s1: "statem ?s1 = statem s0" "meth ?s1 = meth s0"
    using alert_frame_fields [OF alert_frame_loop_notify [of s0 e]] by simp_all
  obtain ok s2 where t: "read_transition sd e mt ?s1 = (ok, s2)" by fastforce
  show ?thesis
  proof (cases "ret = 0 \<or> ok")
    case True
    with assms g t show ?thesis
      by (auto simp: read_header_def read_error_def ossl_statem_in_error_def Let_def
          split: if_splits prod.splits)
  next
    case False
    with assms g t have "r = SUB_STATE_ERROR" "s' = s2"
      by (auto simp: read_header_def Let_def)
    with read_rejects [of e mt ?s1 s2] t False g s1 SSL_IS_DTLS_cong [of ?s1 s0] show ?thesis by auto
  qed
qed

end

subsection \<open>Results of the state machine\<close>

text \<open>Partial correctness of the three loops: what an iteration establishes when it returns and keeps
  when it goes on, holds of the result.\<close>

lemma read_loop_induct:
  assumes loop: "read_loop sd e len s = Some (r, s')" and "P s"
    and step: "\<And>len s len' s'. P s \<Longrightarrow> read_iteration sd e len s = (None, len', s') \<Longrightarrow> P s'"
    and ret: "\<And>len s len' s' r. P s \<Longrightarrow> read_iteration sd e len s = (Some r, len', s') \<Longrightarrow> Q r s'"
  shows "Q r s'"
proof -
  have step': "P s \<Longrightarrow> fst (read_iteration sd e len s) = None \<Longrightarrow> P (snd (snd (read_iteration sd e len s)))"
    and ret': "P s \<Longrightarrow> fst (read_iteration sd e len s) = Some r \<Longrightarrow>
      Q r (snd (snd (read_iteration sd e len s)))" for len s r
    using step ret by (metis prod.collapse)+
  have "\<forall>r s'. rs = (r, s') \<longrightarrow> sd0 = sd \<longrightarrow> e0 = e \<longrightarrow> P s0 \<longrightarrow> Q r s'"
    if "read_loop sd0 e0 len0 s0 = Some rs" for sd0 e0 len0 s0 rs
    by (rule read_loop.raw_induct [OF _ that])
      (auto simp: split_beta split: option.splits intro: ret', use step' in blast)
  with loop \<open>P s\<close> show ?thesis by blast
qed

lemma write_loop_induct:
  assumes loop: "write_loop sd e s = Some (r, s')" and "P s"
    and step: "\<And>s s'. P s \<Longrightarrow> write_iteration sd e s = (None, s') \<Longrightarrow> P s'"
    and ret: "\<And>s s' r. P s \<Longrightarrow> write_iteration sd e s = (Some r, s') \<Longrightarrow> Q r s'"
  shows "Q r s'"
proof -
  have step': "P s \<Longrightarrow> fst (write_iteration sd e s) = None \<Longrightarrow> P (snd (write_iteration sd e s))"
    and ret': "P s \<Longrightarrow> fst (write_iteration sd e s) = Some r \<Longrightarrow> Q r (snd (write_iteration sd e s))" for s r
    using step ret by (metis prod.collapse)+
  have "\<forall>r s'. rs = (r, s') \<longrightarrow> sd0 = sd \<longrightarrow> e0 = e \<longrightarrow> P s0 \<longrightarrow> Q r s'"
    if "write_loop sd0 e0 s0 = Some rs" for sd0 e0 s0 rs
    by (rule write_loop.raw_induct [OF _ that])
      (auto simp: split_beta split: option.splits intro: ret', use step' in blast)
  with loop \<open>P s\<close> show ?thesis by blast
qed

lemma flow_loop_induct:
  assumes loop: "flow_loop e s = Some (r, s')" and "P s"
    and step: "\<And>s s'. P s \<Longrightarrow> flow_iteration e s = Some (None, s') \<Longrightarrow> P s'"
    and ret: "\<And>s s' r. P s \<Longrightarrow> flow_iteration e s = Some (Some r, s') \<Longrightarrow> Q r s'"
  shows "Q r s'"
proof -
  have "\<forall>r s'. rs = (r, s') \<longrightarrow> e0 = e \<longrightarrow> P s0 \<longrightarrow> Q r s'"
    if "flow_loop e0 s0 = Some rs" for e0 s0 rs
    by (rule flow_loop.raw_induct [OF _ that])
      (auto split: option.splits intro: ret, use step in blast)
  with loop \<open>P s\<close> show ?thesis by blast
qed

lemma flow_loop_True:
  assumes "flow_loop e s = Some (True, s')"
  shows "flow_state (statem s') = MSG_FLOW_FINISHED"
proof -
  have "True \<longrightarrow> flow_state (statem s') = MSG_FLOW_FINISHED"
    by (rule flow_loop_induct [OF assms, where P = "\<lambda>s. True" and
          Q = "\<lambda>r s. r \<longrightarrow> flow_state (statem s) = MSG_FLOW_FINISHED"])
      (auto simp: flow_iteration_def split: if_splits option.splits)
  then show ?thesis by simp
qed

lemma notify_statem [simp]: "statem (notify e wher ret s) = statem s"
  using alert_frame_fields(1) [OF alert_frame_notify] .

lemma state_machine_result:
  assumes "state_machine e srv s = Some (r, s')"
  shows "r = 1 \<and> flow_state (statem s') = MSG_FLOW_FINISHED \<or> r = - 1"
  using assms
  by (auto simp: state_machine_def Let_def leave_def split: if_splits option.splits prod.splits
      dest: flow_loop_True)

text \<open>\<open>env_balanced\<close>: no function outside the model changes the nesting counter \<^verbatim>\<open>in_handshake\<close>; in
  the sources only \<^verbatim>\<open>state_machine\<close> and \<^verbatim>\<open>ossl_statem_set_in_handshake\<close> write it.\<close>

abbreviation nest :: "'w ssl \<Rightarrow> int" where
  "nest s \<equiv> in_handshake (statem s)"

definition env_balanced :: "'w env \<Rightarrow> bool" where
  "env_balanced e \<longleftrightarrow>
     (\<forall>c s. nest (snd (call e c s)) = nest s) \<and> (\<forall>f s. nest (snd (construct e f s)) = nest s) \<and>
     (\<forall>f n s. nest (snd (process e f n s)) = nest s) \<and>
     (\<forall>f w s. nest (snd (post_process e f w s)) = nest s) \<and>
     (\<forall>s. nest (snd (get_header e s)) = nest s) \<and> (\<forall>s. nest (snd (get_body e s)) = nest s) \<and>
     (\<forall>s. nest (snd (get_dtls e s)) = nest s)"

lemma env_balanced_simps [simp]:
  assumes "env_balanced e"
  shows "nest (snd (call e c s)) = nest s" "nest (snd (construct e k s)) = nest s"
    "nest (snd (process e f n s)) = nest s" "nest (snd (post_process e g w s)) = nest s"
    "nest (snd (get_header e s)) = nest s" "nest (snd (get_body e s)) = nest s"
    "nest (snd (get_dtls e s)) = nest s"
  using assms by (auto simp: env_balanced_def)

lemma nest_simple [simp]:
  "nest (snd (do_io e opn s)) = nest s" "nest (set_hand_state h s) = nest s"
  "nest (tsan_counter c s) = nest s" "nest (set_use_timer b s) = nest s"
  "nest (ossl_statem_set_in_init b s) = nest s" "nest (ossl_statem_fatal e al f r s) = nest s"
  "nest (check_fatal e f s) = nest s" "nest (snd (statem_flush e s)) = nest s"
  "nest (ERR_put_error f r s) = nest s" "nest (set_flow m s) = nest s"
  "nest (snd (ssl3_renegotiate_check e b s)) = nest s"
  "nest (init_read_state_machine s) = nest s" "nest (init_write_state_machine s) = nest s"
  "nest (dtls1_clear_received_buffer s) = nest s" "nest (dtls1_clear_sent_buffer s) = nest s"
  "nest (dtls1_start_timer e s) = nest s" "nest (dtls1_stop_timer e s) = nest s"
  by (simp_all add: do_io_eq set_hand_state_def tsan_counter_def set_use_timer_def check_fatal_def
      ossl_statem_set_in_init_def statem_flush_def ERR_put_error_def set_flow_def Let_def
      ssl3_renegotiate_check_def ossl_statem_set_renegotiate_def init_read_state_machine_def
      init_write_state_machine_def)

lemma nest_setup [simp]: "env_balanced e \<Longrightarrow> nest (snd (tls_setup_handshake e s)) = nest s"
  by (simp add: tls_setup_handshake_def Let_def split_beta split: sum.split)

lemma nest_finish_cleanup [simp]: "env_balanced e \<Longrightarrow> nest (finish_cleanup e s) = nest s"
  by (simp add: finish_cleanup_def Let_def split_beta)

lemma nest_finish [simp]:
  "env_balanced e \<Longrightarrow> nest (snd (tls_finish_handshake e wst c stop s)) = nest s"
  by (simp add: tls_finish_handshake_def Let_def split_beta)

lemma nest_steps [simp]:
  "nest (snd (goto_state h s)) = nest s" "nest (snd (on_message mt m h s)) = nest s"
  "nest (snd (cont h s)) = nest s" "nest (snd (tran_error e f s)) = nest s"
  "nest (read_transition_err e f mt s) = nest s" "nest (snd (finished_continue s)) = nest s"
  "nest (snd (cw_cert_or_finished s)) = nest s" "nest (snd (sr_cert_or_finished mt s)) = nest s"
  "nest (snd (sw_srvr_done_case mt s)) = nest s" "nest (snd (sr_finished_write13 s)) = nest s"
  by (simp_all add: goto_state_def on_message_def cont_def tran_error_def read_transition_err_def
      finished_continue_def cw_cert_or_finished_def sr_cert_or_finished_def sw_srvr_done_case_def
      sr_finished_write13_def Let_def)

lemma nest_cr_cases [simp]:
  "nest (snd (cr_cert_req_case mt s)) = nest s" "nest (snd (cr_key_exch_case mt s)) = nest s"
  "nest (snd (cr_cert_status_case mt s)) = nest s" "nest (snd (cr_cert_case mt s)) = nest s"
  "nest (snd (cr_srvr_hello_case mt s)) = nest s"
  by (simp_all add: cr_cases Let_def)

lemma nest_calls [simp]:
  assumes "env_balanced e"
  shows "nest (snd (client13_ok_read e mt s)) = nest s" "nest (snd (cr_hello_req_write e s)) = nest s"
    "nest (snd (server_ok_write e s)) = nest s"
  using assms
  by (simp_all add: client13_ok_read_def cr_hello_req_write_def server_ok_write_def Let_def split_beta)

lemma nest_client13_read [simp]:
  "env_balanced e \<Longrightarrow> nest (snd (ossl_statem_client13_read_transition e mt s)) = nest s"
  by (cases "hand_state (statem s)") (simp_all add: ossl_statem_client13_read_transition_def)

lemma nest_client_switch [simp]: "nest (snd (client_read_switch mt s)) = nest s"
  by (cases "hand_state (statem s)") (simp_all add: client_read_switch_def)

lemma nest_server13_read [simp]: "nest (snd (ossl_statem_server13_read_transition mt s)) = nest s"
  by (cases "hand_state (statem s)") (simp_all add: ossl_statem_server13_read_transition_def)

lemma nest_server_switch [simp]: "nest (snd (server_read_switch mt s)) = nest s"
  by (cases "hand_state (statem s)") (simp_all add: server_read_switch_def)

lemma nest_client13_write [simp]: "nest (snd (ossl_statem_client13_write_transition e s)) = nest s"
  by (cases "hand_state (statem s)") (simp_all add: ossl_statem_client13_write_transition_def)

lemma nest_client12_write [simp]:
  "env_balanced e \<Longrightarrow> nest (snd (client12_write_transition e s)) = nest s"
  by (cases "hand_state (statem s)") (simp_all add: client12_write_transition_def)

lemma nest_server13_write [simp]: "nest (snd (ossl_statem_server13_write_transition e s)) = nest s"
  by (cases "hand_state (statem s)") (simp_all add: ossl_statem_server13_write_transition_def)

lemma nest_server12_write [simp]:
  "env_balanced e \<Longrightarrow> nest (snd (server12_write_transition e s)) = nest s"
  by (cases "hand_state (statem s)") (simp_all add: server12_write_transition_def)

lemma nest_transitions [simp]:
  assumes "env_balanced e"
  shows "nest (snd (ossl_statem_client_read_transition e mt s)) = nest s"
    "nest (snd (ossl_statem_server_read_transition e mt s)) = nest s"
    "nest (snd (ossl_statem_client_write_transition e s)) = nest s"
    "nest (snd (ossl_statem_server_write_transition e s)) = nest s"
  using assms
  by (simp_all add: ossl_statem_client_read_transition_def ossl_statem_server_read_transition_def
      ossl_statem_client_write_transition_def ossl_statem_server_write_transition_def Let_def split_beta)


lemma nest_posts [simp]:
  assumes "env_balanced e"
  shows "nest (snd (key_update_post e s)) = nest s" "nest (snd (cw_clnt_hello_post e s)) = nest s"
    "nest (snd (cw_change_post e s)) = nest s" "nest (snd (cw_finished_post e s)) = nest s"
    "nest (snd (sw_change_pre e s)) = nest s" "nest (snd (sw_session_ticket_post e s)) = nest s"
  using assms
  by (simp_all add: key_update_post_def cw_clnt_hello_post_def cw_change_post_def cw_finished_post_def
      sw_change_pre_def sw_session_ticket_post_def step_ok_def Let_def split_beta)

lemma nest_flushed:
  "(\<And>s. nest (snd (f s)) = nest s) \<Longrightarrow> nest (snd (flushed e s f)) = nest s"
  by (simp add: flushed_def Let_def split_beta)

lemma nest_sw_posts [simp]:
  assumes "env_balanced e"
  shows "nest (snd (sw_change_post e s)) = nest s" "nest (snd (sw_srvr_hello_post e s)) = nest s"
    "nest (snd (sw_finished_post e s)) = nest s"
proof -
  show "nest (snd (sw_change_post e s)) = nest s"
    using assms by (simp add: sw_change_post_def step_ok_def nest_flushed Let_def)
  then show "nest (snd (sw_srvr_hello_post e s)) = nest s"
    by (simp add: sw_srvr_hello_post_def nest_flushed)
  show "nest (snd (sw_finished_post e s)) = nest s"
    using assms unfolding sw_finished_post_def by (intro nest_flushed) (simp add: step_ok_def)
qed

lemma nest_client_pre [simp]:
  "env_balanced e \<Longrightarrow> nest (snd (ossl_statem_client_pre_work e wst s)) = nest s"
  by (cases "hand_state (statem s)") (simp_all add: ossl_statem_client_pre_work_def Let_def split_beta)

lemma nest_client_post [simp]:
  "env_balanced e \<Longrightarrow> nest (snd (ossl_statem_client_post_work e wst s)) = nest s"
  by (cases "hand_state (statem s)") (simp_all add: ossl_statem_client_post_work_def step_ok_def Let_def)

lemma nest_server_pre [simp]:
  "env_balanced e \<Longrightarrow> nest (snd (ossl_statem_server_pre_work e wst s)) = nest s"
  by (cases "hand_state (statem s)") (simp_all add: ossl_statem_server_pre_work_def Let_def)

lemma nest_server_post [simp]:
  "env_balanced e \<Longrightarrow> nest (snd (ossl_statem_server_post_work e wst s)) = nest s"
  by (cases "hand_state (statem s)")
    (simp_all add: ossl_statem_server_post_work_def step_ok_def nest_flushed Let_def)

lemma nest_construct [simp]:
  "nest (snd (ossl_statem_client_construct_message e s)) = nest s"
  "nest (snd (ossl_statem_server_construct_message e s)) = nest s"
  by (cases "hand_state (statem s)";
      simp add: ossl_statem_client_construct_message_def ossl_statem_server_construct_message_def
        confunc_def construct_bad_state_def)+

lemma nest_process [simp]:
  assumes "env_balanced e"
  shows "nest (snd (ossl_statem_client_process_message e n s)) = nest s"
    "nest (snd (ossl_statem_server_process_message e n s)) = nest s"
    "nest (snd (ossl_statem_client_post_process_message e w s)) = nest s"
    "nest (snd (ossl_statem_server_post_process_message e w s)) = nest s"
  using assms
  by (cases "hand_state (statem s)";
      simp add: ossl_statem_client_process_message_def ossl_statem_server_process_message_def
        ossl_statem_client_post_process_message_def ossl_statem_server_post_process_message_def
        process_bad_state_def post_process_bad_state_def)+

lemma nest_side [simp]:
  assumes "env_balanced e"
  shows "nest (snd (read_transition (side_of s0) e mt s)) = nest s"
    "nest (snd (process_message (side_of s0) e n s)) = nest s"
    "nest (snd (post_process_message (side_of s0) e w s)) = nest s"
    "nest (snd (write_transition (side_of s0) e s)) = nest s"
    "nest (snd (pre_work (side_of s0) e w s)) = nest s"
    "nest (snd (post_work (side_of s0) e w s)) = nest s"
    "nest (snd (construct_message (side_of s0) e s)) = nest s"
  using assms by (simp_all add: side_of_def client_side_def server_side_def)

lemma nest_reading [simp]:
  "nest (snd (grow_init_buf e sz s)) = nest s" "nest (loop_notify e s) = nest s"
  "nest (stop_timer e s) = nest s" "nest (snd (snd (read_error e al reason len s))) = nest s"
  using grow_init_buf_frame [of e sz s] by (auto simp: loop_notify_def stop_timer_def read_error_def)

lemma nest_get_message [simp]:
  "env_balanced e \<Longrightarrow> nest (snd (snd (snd (get_message e len s)))) = nest s"
  by (simp add: get_message_def split_beta)

lemma nest_read_header:
  assumes "env_balanced e"
  shows "nest (snd (snd (read_header (side_of s0) e len s))) = nest s"
proof -
  obtain ret mt l s1 where g: "get_message e len s = (ret, mt, l, s1)" by (metis prod_cases4)
  obtain ok s2 where t: "read_transition (side_of s0) e mt (loop_notify e s1) = (ok, s2)" by fastforce
  have "nest s2 = nest s"
    using nest_get_message [OF assms, of len s] nest_side(1) [OF assms, of s0 mt "loop_notify e s1"] g t by simp
  moreover have "nest (snd (snd (read_header (side_of s0) e len s))) = nest s2 \<or> ret = 0"
    by (simp add: read_header_def g t Let_def split_beta)
  ultimately show ?thesis
    using nest_get_message [OF assms, of len s] g by (auto simp: read_header_def Let_def)
qed

lemma nest_read_body:
  assumes "env_balanced e"
  shows "nest (snd (snd (read_body (side_of s0) e len s))) = nest s"
proof -
  obtain ret l s1 where g: "(if \<not> SSL_IS_DTLS s then get_body e s else ((1, len), s)) = ((ret, l), s1)"
    by (metis prod.collapse)
  then have s1: "nest s1 = nest s" using env_balanced_simps(6) [OF assms, of s] by (auto split: if_splits)
  let ?s2 = "s1\<lparr>first_packet := False\<rparr>"
  obtain m s3 where p: "process_message (side_of s0) e l ?s2 = (m, s3)" by fastforce
  then have "nest s3 = nest s" using s1 nest_side(2) [OF assms, of s0 l ?s2] by simp
  with s1 p show ?thesis
    by (simp add: read_body_def g Let_def split: msg_process_return.split)
qed

lemma nest_read_post_process:
  assumes "env_balanced e"
  shows "nest (snd (snd (read_post_process (side_of s0) e len s))) = nest s"
proof -
  obtain w s1 where p: "post_process_message (side_of s0) e (read_state_work (statem s)) s = (w, s1)" by fastforce
  then have "nest s1 = nest s" using nest_side(3) [OF assms, of s0 "read_state_work (statem s)" s] by simp
  with p show ?thesis by (simp add: read_post_process_def Let_def split: work_state.split)
qed

lemma nest_read_iteration:
  assumes "env_balanced e" and "read_iteration (side_of s0) e len s = (r, len', s')"
  shows "nest s' = nest s"
proof -
  obtain hr hl hs where h: "read_header (side_of s0) e len s = (hr, hl, hs)" by (metis prod_cases3)
  have "nest hs = nest s" using nest_read_header [OF assms(1), of s0 len s] h by simp
  moreover have "nest (snd (snd (read_body (side_of s0) e hl hs))) = nest hs"
    "nest (snd (snd (read_body (side_of s0) e len s))) = nest s"
    "nest (snd (snd (read_post_process (side_of s0) e len s))) = nest s"
    using assms(1) nest_read_body nest_read_post_process by blast+
  ultimately show ?thesis using assms(2) h
    by (cases "read_state (statem s)") (auto simp: read_iteration_def split: option.splits)
qed


lemma nest_write_post_work:
  assumes "env_balanced e"
  shows "nest (snd (write_post_work (side_of s0) e s)) = nest s"
proof -
  obtain w s1 where p: "post_work (side_of s0) e (write_state_work (statem s)) s = (w, s1)" by fastforce
  then have "nest s1 = nest s" using nest_side(6) [OF assms, of s0 "write_state_work (statem s)" s] by simp
  with p show ?thesis by (simp add: write_post_work_def Let_def split: work_state.split)
qed

lemma nest_write_send:
  assumes "env_balanced e"
  shows "nest (snd (write_send (side_of s0) e s)) = nest s"
proof -
  have "nest (snd (statem_do_write e s)) = nest s" for s
    using assms by (simp add: statem_do_write_def)
  moreover have "nest (to_post_work s) = nest s" for s :: "'a ssl" by (simp add: to_post_work_def)
  ultimately show ?thesis
    using nest_write_post_work [OF assms] by (simp add: write_send_def Let_def split_beta)
qed

lemma nest_write_construct:
  assumes "env_balanced e"
  shows "nest (snd (write_construct (side_of s0) e s)) = nest s"
proof -
  obtain c s1 where c: "construct_message (side_of s0) e s = (c, s1)" by fastforce
  then have s1: "nest s1 = nest s" using nest_side(7) [OF assms, of s0 s] by simp
  show ?thesis
  proof (cases c)
    case None
    with c s1 show ?thesis by (simp add: write_construct_def)
  next
    case (Some cm)
    obtain cf mt where cm: "cm = (cf, mt)" by fastforce
    obtain r2 s2 where s2: "call e (WPACKET_init_and_set_handshake_header mt) s1 = (r2, s2)" by fastforce
    obtain r3 s3 where s3: "(case cf of None \<Rightarrow> (1, s2) | Some f \<Rightarrow> construct e f s2) = (r3, s3)" by fastforce
    obtain r4 s4 where s4: "call e (ssl_close_construct_packet mt) s3 = (r4, s4)" by fastforce
    have n2: "nest s2 = nest s1"
      using env_balanced_simps(1) [OF assms, of "WPACKET_init_and_set_handshake_header mt" s1] s2 by simp
    have n3: "nest s3 = nest s2"
      using s3 env_balanced_simps(2) [OF assms, of _ s2] by (cases cf) (auto, metis snd_conv)
    have n4: "nest s4 = nest s3"
      using env_balanced_simps(1) [OF assms, of "ssl_close_construct_packet mt" s3] s4 by simp
    have "write_construct (side_of s0) e s =
        (if mt = SSL3_MT_DUMMY then (None, to_post_work s1)
         else if r2 = 0 then write_error e s2
         else if r3 = 0 then (Some SUB_STATE_ERROR, check_fatal e SSL_F_WRITE_STATE_MACHINE s3)
         else if r4 = 0 then write_error e s4 else write_send (side_of s0) e s4)"
      using c Some cm s2 s3 s4 by (simp add: write_construct_def)
    then show ?thesis using s1 n2 n3 n4 nest_write_send [OF assms, of s0 s4]
      by (simp add: to_post_work_def write_error_def)
  qed
qed

lemma nest_write_iteration:
  assumes "env_balanced e" and "write_iteration (side_of s0) e s = (r, s')"
  shows "nest s' = nest s"
proof -
  obtain w s1 where p: "pre_work (side_of s0) e (write_state_work (statem s)) s = (w, s1)" by fastforce
  then have "nest s1 = nest s"
    using nest_side(5) [OF assms(1), of s0 "write_state_work (statem s)" s] by simp
  then have pre: "nest (snd (write_pre_work (side_of s0) e s)) = nest s"
    using p nest_write_construct [OF assms(1)]
    by (simp add: write_pre_work_def Let_def split: work_state.split)
  obtain t s2 where t: "write_transition (side_of s0) e (loop_notify e s) = (t, s2)" by fastforce
  then have "nest s2 = nest s" using nest_side(4) [OF assms(1), of s0 "loop_notify e s"] by simp
  then have tr: "nest (snd (write_trans (side_of s0) e s)) = nest s"
    using t by (simp add: write_trans_def Let_def split: write_tran.split)
  have "nest (snd (write_iteration (side_of s0) e s)) = nest s"
    using pre tr nest_write_send [OF assms(1)] nest_write_post_work [OF assms(1)]
    by (cases "write_state (statem s)") (simp_all add: write_iteration_def)
  with assms(2) show ?thesis by simp
qed

lemma nest_machines:
  assumes "env_balanced e"
  shows "read_state_machine e s = Some (r, s') \<Longrightarrow> nest s' = nest s"
    "write_state_machine e s = Some (r, s') \<Longrightarrow> nest s' = nest s"
proof -
  assume "read_state_machine e s = Some (r, s')"
  then obtain s1 where s1: "read_loop (side_of s) e 0 s1 = Some (r, s')" "nest s1 = nest s"
    by (auto simp: read_state_machine_def Let_def split: if_splits)
  then show "nest s' = nest s"
    using read_loop_induct [OF s1(1), where P = "\<lambda>x. nest x = nest s" and Q = "\<lambda>r x. nest x = nest s"]
      nest_read_iteration [OF assms] by fastforce
next
  assume w: "write_state_machine e s = Some (r, s')"
  then show "nest s' = nest s" unfolding write_state_machine_def
    using write_loop_induct [where P = "\<lambda>x. nest x = nest s" and Q = "\<lambda>r x. nest x = nest s"]
      nest_write_iteration [OF assms] by fastforce
qed

lemma nest_flow_iteration:
  assumes "env_balanced e" and "flow_iteration e s = Some (r, s')"
  shows "nest s' = nest s"
  using assms(2) nest_machines [OF assms(1)]
  by (auto simp: flow_iteration_def split: if_splits option.splits)

lemma nest_flow_loop:
  assumes "env_balanced e" and "flow_loop e s = Some (r, s')"
  shows "nest s' = nest s"
  using flow_loop_induct [OF assms(2), where P = "\<lambda>x. nest x = nest s" and Q = "\<lambda>r x. nest x = nest s"]
    nest_flow_iteration [OF assms(1)] by fastforce

lemma nest_init_statem:
  assumes "env_balanced e"
  shows "nest (snd (init_statem e srv s)) = nest s"
proof -
  have f: "nest (snd (init_fatal e s)) = nest s" for s by (simp add: init_fatal_def)
  have a: "nest (snd (alloc_init_buf e s)) = nest s" for s
    by (simp add: alloc_init_buf_def Let_def split_beta split: option.split)
  have "nest (snd (init_buffers e s)) = nest s" for s
    using assms f a by (simp add: init_buffers_def or_fatal_def Let_def split_beta)
  moreover have "nest (snd (init_handshake e s)) = nest s" for s
    using assms by (simp add: init_handshake_def Let_def split_beta)
  ultimately show ?thesis using f by (simp add: init_statem_def Let_def split_beta)
qed

lemma state_machine_balanced:
  assumes "env_balanced e" and "state_machine e srv s = Some (r, s')"
    and "flag (s3_flags (s3 s)) TLS1_FLAGS_STATELESS \<or> (\<forall>s. fst (call e SSL_clear s) \<noteq> 0)"
  shows "nest s' = nest s"
  using assms nest_flow_loop [OF assms(1)] nest_init_statem [OF assms(1)]
  by (auto simp: state_machine_def Let_def split_beta leave_def do_io_eq split: if_splits option.splits)

lemma state_machine_leak:
  assumes "env_balanced e" and "flow_state (statem s) \<noteq> MSG_FLOW_ERROR"
    and "\<not> SSL_in_init s \<or> SSL_in_before s" and "\<not> flag (s3_flags (s3 s)) TLS1_FLAGS_STATELESS"
    and "\<And>s. fst (call e SSL_clear s) = 0"
  shows "\<exists>s'. state_machine e srv s = Some (- 1, s') \<and> nest s' = nest s + 1"
  using assms
  by (simp add: state_machine_def Let_def split_beta do_io_eq SSL_in_init_def SSL_in_before_def)

lemma side_header_guarantees:
  assumes "read_header (side_of s0) e len s = (None, len', s')"
  shows "message_size (s3 s') \<le> max_message_size (side_of s0) s'"
    "read_state (statem s') = READ_STATE_BODY"
    "\<exists>f. process_message (side_of s0) e n s' = process e f n s'"
  using assms cl.header_guarantees [of e len s len' s'] sv.header_guarantees [of e len s len' s']
  by (auto simp: side_of_def split: if_splits)

lemma side_header_refuses:
  assumes "read_header (side_of s0) e len s = (Some r, len', s')"
  shows "r = SUB_STATE_ERROR \<and> (ossl_statem_in_error s' \<or> fst (get_message e len s) = 0 \<or>
    SSL_IS_DTLS (snd (snd (snd (get_message e len s)))) \<and>
      fst (snd (get_message e len s)) = SSL3_MT_CHANGE_CIPHER_SPEC \<and>
      statem s' = statem (snd (snd (snd (get_message e len s)))))"
  using assms cl.header_refuses [of e len s r len' s'] sv.header_refuses [of e len s r len' s']
  by (auto simp: side_of_def split: if_splits)

end
