(* ===== verification/Samples.thy ===== *)
theory Samples
  imports Statem_Lib
begin

section \<open>Sample connections\<close>

text \<open>A connection and an environment on which the properties are evaluated.\<close>

definition sample_statem :: "ossl_handshake_state \<Rightarrow> ossl_statem" where
  "sample_statem h =
     \<lparr>flow_state = MSG_FLOW_READING, write_state = WRITE_STATE_TRANSITION, write_state_work = WORK_MORE_A,
      read_state = READ_STATE_HEADER, read_state_first_init = False, read_state_work = WORK_MORE_A,
      hand_state = h, request_state = TLS_ST_BEFORE, in_init = True, in_handshake = 0, cleanuphand = False,
      no_cert_verify = False, use_timer = False, enc_write_state = ENC_WRITE_STATE_VALID,
      enc_read_state = ENC_READ_STATE_VALID\<rparr>"

text \<open>An ECDHE cipher suite with RSA authentication.\<close>

definition sample_cipher :: ssl_cipher where
  "sample_cipher =
     \<lparr>cipher_id = 0x0300C030, algorithm_mkey = SSL_kECDHE, algorithm_auth = SSL_aRSA, min_tls = TLS1_2_VERSION,
      max_tls = TLS1_2_VERSION, min_dtls = 0xFEFD, max_dtls = 0xFEFD\<rparr>"

definition sample_s3 :: ssl3_state where
  "sample_s3 =
     \<lparr>s3_flags = 0, cert_req = 0, cert_request = True, new_cipher = Some sample_cipher, message_size = 0, message_type = 0,
      npn_seen = False, in_read_app_data = 0, num_renegotiations = 0, total_renegotiations = 0,
      s3_renegotiate = False, previous_server_finished_len = 0, change_cipher_spec = False,
      finish_md_len = 0, peer_finish_md_len = 0, alert_dispatch = False, send_alert = (0, 0),
      client_random = [], server_random = []\<rparr>"

definition sample_d1 :: d1_state where
  "sample_d1 =
     \<lparr>handshake_write_seq = 0, next_handshake_write_seq = 0, handshake_read_seq = 0, buffered_messages = [],
      sent_messages = [], link_mtu = 0, mtu = 0, w_msg_hdr = hm_header_zero, r_msg_hdr = hm_header_zero,
      read_timeouts = 0, write_timeouts = 0, num_alerts = 0, next_timeout = (0, 0),
      timeout_duration_us = 1000000, retransmitting = False, has_timer_cb = False\<rparr>"

definition sample_conn :: "int \<Rightarrow> ossl_handshake_state \<Rightarrow> unit ssl" where
  "sample_conn v h =
     \<lparr>version = TLS1_2_VERSION,
      meth = \<lparr>method_version = v, method_flags = 0, method_mask = 0, enc_flags = 0, alert_value = tls1_alert_code\<rparr>,
      server = False, hit = False, shutdown = 0, early_data_state = SSL_EARLY_DATA_NONE,
      hello_retry_request = SSL_HRR_NONE, options = 0, mode = 0, min_proto_version = 0,
      max_proto_version = 0, client_version = TLS1_2_VERSION, ctx_method_version = TLS_ANY_VERSION, cert_flags = 0,
      renegotiate = False, new_session = False,
      key_update = SSL_KEY_UPDATE_NONE, post_handshake_auth = SSL_PHA_NONE, cookie_verified = False,
      psk_identity_hint = False, verify_mode = SSL_VERIFY_PEER, certreqs_sent = 0, num_tickets = 2, sent_tickets = 0,
      max_early_data = 0, max_cert_list = 102400, rwstate = SSL_NOTHING, first_packet = False,
       handshake_func = ossl_statem_connect_fn,
      statem = sample_statem h, s3 = sample_s3,
      ext = \<lparr>extflags = [], ticket_expected = False, status_expected = False, ext_early_data = 0,
             session_secret_cb = False\<rparr>,
      session_set = True,
      session = \<lparr>session_tick = False, session_peer = True, session_cipher = None, compress_meth = 0\<rparr>,
      d1 = sample_d1,
      wside = \<lparr>enc_write_ctx = None, write_hash = None, compress = None, max_send_fragment = 16384, init_off = 0,
            w_epoch = 0, write_sequence = replicate 8 0, last_write_sequence = replicate 8 0,
                curr_write_sequence = replicate 8 0\<rparr>,
      init_buf = None, init_msg = 0, init_num = 0, counters = (\<lambda>_. 0), errs = [], world = ()\<rparr>"

definition sample_env :: "unit env" where
  "sample_env =
     \<lparr>io = (\<lambda>_ w. (1, w)), query = (\<lambda>_ _. 1), call = (\<lambda>_ s. (1, s)), construct = (\<lambda>_ s. (1, s)),
      process = (\<lambda>_ _ s. (MSG_PROCESS_CONTINUE_READING, s)),
      post_process = (\<lambda>_ _ s. (WORK_FINISHED_CONTINUE, s)),
      get_header = (\<lambda>s. ((1, SSL3_MT_SERVER_HELLO), s)), get_body = (\<lambda>s. ((1, 0), s)),
      get_dtls = (\<lambda>s. ((0, 0, 0), s)), read_bytes = (\<lambda>_ s. ((- 1, 0, []), s)),
      write_bytes = (\<lambda>_ bs s. ((1, length bs), s)), SSL_get_ciphers = (\<lambda>_. []),
      heap = (\<lambda>n. Some (replicate n 0))\<rparr>"

lemma sample_simps [simp]:
  "SSL_IS_DTLS (sample_conn v h) = False" "SSL_IS_TLS13 (sample_conn v h) \<longleftrightarrow> v \<ge> TLS1_3_VERSION \<and> v \<noteq> TLS_ANY_VERSION"
  "hand_state (statem (sample_conn v h)) = h" "hit (sample_conn v h) = False"
  "version (sample_conn v h) = TLS1_2_VERSION" "s3 (sample_conn v h) = sample_s3"
  "in_handshake (statem (sample_conn v h)) = 0" "session_secret_cb (ext (sample_conn v h)) = False"
  "status_expected (ext (sample_conn v h)) = False" "server (sample_conn v h) = False"
  "hello_retry_request (sample_conn v h) = SSL_HRR_NONE" "session (sample_conn v h) =
     \<lparr>session_tick = False, session_peer = True, session_cipher = None, compress_meth = 0\<rparr>"
  "ext_early_data (ext (sample_conn v h)) = 0" "post_handshake_auth (sample_conn v h) = SSL_PHA_NONE"
  "no_cert_verify (statem (sample_conn v h)) = False"
  "flow_state (statem (sample_conn v h)) = MSG_FLOW_READING" "options (sample_conn v h) = 0"
  "read_state (statem (sample_conn v h)) = READ_STATE_HEADER"
  "write_state (statem (sample_conn v h)) = WRITE_STATE_TRANSITION"
  "verify_mode (sample_conn v h) = SSL_VERIFY_PEER" "certreqs_sent (sample_conn v h) = 0"
  by (simp_all add: sample_conn_def SSL_IS_TLS13_def SSL_IS_DTLS_def sample_statem_def)

end
