(* ===== verification/Statem_Props.thy ===== *)
theory Statem_Props
  imports Statem_Flow Samples
begin

section \<open>Properties of the handshake\<close>

text \<open>
  The properties of the state machine of \<^verbatim>\<open>ssl/statem\<close>, each followed by its application to a
  concrete connection.
\<close>

subsection \<open>Sample runs\<close>

lemma sample_cipher_simps [simp]:
  "new_cipher_auth (sample_conn v h) = SSL_aRSA" "new_cipher_mkey (sample_conn v h) = SSL_kECDHE"
  "cert_request sample_s3" "\<not> npn_seen sample_s3" "message_size sample_s3 = 0" "s3_flags sample_s3 = 0"
  "new_cipher sample_s3 = Some sample_cipher"
  by (simp_all add: new_cipher_auth_def new_cipher_mkey_def sample_s3_def sample_cipher_def)

lemma set_hand_state_no_cert_verify [simp]:
  "no_cert_verify (statem (set_hand_state h s)) = no_cert_verify (statem s)"
  by (simp add: set_hand_state_def)

lemma sample_env_balanced: "env_balanced sample_env"
  by (simp add: env_balanced_def sample_env_def)

text \<open>The run in which the processing of the messages changes nothing.\<close>

fun accepted :: "(int \<Rightarrow> 'w ssl \<Rightarrow> bool \<times> 'w ssl) \<Rightarrow> 'w ssl \<Rightarrow> int list \<Rightarrow> bool" where
  "accepted tr s [] = True"
| "accepted tr s (mt # mts) = (fst (tr mt s) \<and> accepted tr (snd (tr mt s)) mts)"

fun final :: "(int \<Rightarrow> 'w ssl \<Rightarrow> bool \<times> 'w ssl) \<Rightarrow> 'w ssl \<Rightarrow> int list \<Rightarrow> 'w ssl" where
  "final tr s [] = s"
| "final tr s (mt # mts) = final tr (snd (tr mt s)) mts"

lemma reads_accepted:
  assumes "\<And>s. keeps s s" and "accepted tr s mts"
  shows "reads tr keeps s mts (final tr s mts)"
  using assms(2)
proof (induction mts arbitrary: s)
  case Nil
  then show ?case by (simp add: reads_Nil)
next
  case (Cons mt mts)
  have "tr mt s = (True, snd (tr mt s))" using Cons.prems by (simp add: prod_eq_iff)
  moreover have "reads tr keeps (snd (tr mt s)) mts (final tr (snd (tr mt s)) mts)"
    using Cons.IH Cons.prems by simp
  ultimately show ?case unfolding final.simps by (rule reads_Cons [OF _ assms(1)])
qed

subsection \<open>What the two sides accept\<close>

text \<open>
  C1.  A TLS 1.3 client that has processed the ServerHello reaches the server's Finished exactly after
  EncryptedExtensions and Finished when it resumes a session, and exactly after EncryptedExtensions, an
  optional CertificateRequest, Certificate, CertificateVerify and Finished otherwise: in a full
  handshake the server cannot skip its authentication, whatever the processing of the messages does to
  the rest of the connection.
\<close>

theorem client13_server_flight:
  assumes "SSL_IS_TLS13 s" and "hand_state (statem s) = TLS_ST_CR_SRVR_HELLO"
  shows "(\<exists>s'. reads (ossl_statem_client_read_transition e) keeps13 s mts s' \<and>
        hand_state (statem s') = TLS_ST_CR_FINISHED) \<longleftrightarrow>
    mts \<in> (if hit s then {[SSL3_MT_ENCRYPTED_EXTENSIONS, SSL3_MT_FINISHED]}
      else {[SSL3_MT_ENCRYPTED_EXTENSIONS, SSL3_MT_CERTIFICATE, SSL3_MT_CERTIFICATE_VERIFY,
             SSL3_MT_FINISHED],
            [SSL3_MT_ENCRYPTED_EXTENSIONS, SSL3_MT_CERTIFICATE_REQUEST, SSL3_MT_CERTIFICATE,
             SSL3_MT_CERTIFICATE_VERIFY, SSL3_MT_FINISHED]})"
proof -
  have f: "set (flights13 (hit s) (hand_state (statem s))) =
      (if hit s then {[SSL3_MT_ENCRYPTED_EXTENSIONS, SSL3_MT_FINISHED]}
      else {[SSL3_MT_ENCRYPTED_EXTENSIONS, SSL3_MT_CERTIFICATE, SSL3_MT_CERTIFICATE_VERIFY,
             SSL3_MT_FINISHED],
            [SSL3_MT_ENCRYPTED_EXTENSIONS, SSL3_MT_CERTIFICATE_REQUEST, SSL3_MT_CERTIFICATE,
             SSL3_MT_CERTIFICATE_VERIFY, SSL3_MT_FINISHED]})"
    using assms(2) by (simp add: flights13_def Let_def)
  moreover have "flights13 (hit s) (hand_state (statem s)) \<noteq> []"
    using assms(2) by (simp add: flights13_def Let_def)
  ultimately show ?thesis
    using reads_client13 [of e s mts] reads_client13_complete [OF assms(1), of mts e] assms(1) by blast
qed

theorem client13_server_flight_witness:
  "\<not> (\<exists>s'. reads (ossl_statem_client_read_transition sample_env) keeps13
        (sample_conn TLS1_3_VERSION TLS_ST_CR_SRVR_HELLO)
        [SSL3_MT_ENCRYPTED_EXTENSIONS, SSL3_MT_FINISHED] s' \<and> hand_state (statem s') = TLS_ST_CR_FINISHED)"
  by (subst client13_server_flight) simp_all

text \<open>
  C2.  Up to TLS 1.2, in a full handshake without EAP-FAST and not over datagrams, the client reaches
  ServerHelloDone exactly after the messages that the negotiated cipher suite calls for: Certificate
  unless the suite is anonymous, SRP or PSK; CertificateStatus at most when it was asked for;
  ServerKeyExchange when the key exchange needs it, optionally for PSK and never otherwise;
  CertificateRequest only when it is allowed.
\<close>

theorem client12_server_flight:
  assumes "plain_full s" and "hand_state (statem s) = TLS_ST_CR_SRVR_HELLO"
  shows "(\<exists>s'. reads (ossl_statem_client_read_transition e) keeps12 s mts s' \<and>
        hand_state (statem s') = TLS_ST_CR_SRVR_DONE) \<longleftrightarrow>
    mts \<in> set (flights12 (suite_of s) TLS_ST_CR_SRVR_HELLO)"
proof -
  have "flights12 (suite_of s) (hand_state (statem s)) \<noteq> []"
    using assms(2) by (simp add: flights12_def flights_nonempty)
  then show ?thesis
    using reads_client12 [of e s mts] reads_client12_complete [OF assms(1), of mts e] assms by auto
qed

theorem client12_server_flight_witness:
  "(\<exists>s'. reads (ossl_statem_client_read_transition sample_env) keeps12
      (sample_conn TLS1_2_VERSION TLS_ST_CR_SRVR_HELLO)
      [SSL3_MT_CERTIFICATE, SSL3_MT_SERVER_KEY_EXCHANGE, SSL3_MT_SERVER_DONE] s' \<and>
      hand_state (statem s') = TLS_ST_CR_SRVR_DONE) \<and>
   \<not> (\<exists>s'. reads (ossl_statem_client_read_transition sample_env) keeps12
      (sample_conn TLS1_2_VERSION TLS_ST_CR_SRVR_HELLO)
      [SSL3_MT_CERTIFICATE, SSL3_MT_SERVER_DONE] s' \<and> hand_state (statem s') = TLS_ST_CR_SRVR_DONE)"
  by (subst (1 2) client12_server_flight)
    (simp_all add: plain_full_def flights12_def flights_status_def flights_ske_def flights_req_def
      key_exchange_expected_def cert_req_allowed_def flag_def)


definition sample_flight12 :: "int list" where
  "sample_flight12 = [SSL3_MT_CERTIFICATE, SSL3_MT_CLIENT_KEY_EXCHANGE, SSL3_MT_CERTIFICATE_VERIFY,
     SSL3_MT_CHANGE_CIPHER_SPEC, SSL3_MT_FINISHED]"

lemma sample_server_reads12:
  fixes s defines "s \<equiv> sample_conn TLS1_2_VERSION TLS_ST_SW_SRVR_DONE"
  shows "reads (ossl_statem_server_read_transition sample_env) keeps_srvr s sample_flight12
      (final (ossl_statem_server_read_transition sample_env) s sample_flight12)"
    "hand_state (statem (final (ossl_statem_server_read_transition sample_env) s sample_flight12)) =
      TLS_ST_SR_FINISHED"
proof -
  note d = s_def sample_flight12_def ossl_statem_server_read_transition_def client_cert_refused_def
    server_read_switch_def sw_srvr_done_case_def on_message_def goto_state_def
  show "reads (ossl_statem_server_read_transition sample_env) keeps_srvr s sample_flight12
      (final (ossl_statem_server_read_transition sample_env) s sample_flight12)"
    by (rule reads_accepted) (simp_all add: d)
  show "hand_state (statem (final (ossl_statem_server_read_transition sample_env) s sample_flight12)) =
      TLS_ST_SR_FINISHED"
    by (simp add: d)
qed



definition sample_flight13 :: "int list" where
  "sample_flight13 = [SSL3_MT_CERTIFICATE, SSL3_MT_CERTIFICATE_VERIFY, SSL3_MT_FINISHED]"

lemma sample_server_reads13:
  fixes s defines "s \<equiv> sample_conn TLS1_3_VERSION TLS_ST_EARLY_DATA"
  shows "reads (ossl_statem_server_read_transition sample_env) keeps_srvr13 s sample_flight13
      (final (ossl_statem_server_read_transition sample_env) s sample_flight13)"
    "hand_state (statem (final (ossl_statem_server_read_transition sample_env) s sample_flight13)) =
      TLS_ST_SR_FINISHED"
proof -
  note d = s_def sample_flight13_def ossl_statem_server_read_transition_def
    ossl_statem_server13_read_transition_def sr_cert_or_finished_def on_message_def goto_state_def
  show "reads (ossl_statem_server_read_transition sample_env) keeps_srvr13 s sample_flight13
      (final (ossl_statem_server_read_transition sample_env) s sample_flight13)"
    by (rule reads_accepted) (simp_all add: d)
  show "hand_state (statem (final (ossl_statem_server_read_transition sample_env) s sample_flight13)) =
      TLS_ST_SR_FINISHED"
    by (simp add: d)
qed




lemma sample_client_refuses:
  "\<not> fst (read_transition (side_of (sample_conn TLS1_2_VERSION TLS_ST_CR_CERT)) sample_env SSL3_MT_FINISHED
        (sample_conn TLS1_2_VERSION TLS_ST_CR_CERT))"
  by (simp add: side_of_def client_side_def ossl_statem_client_read_transition_def client_read_switch_def
      cr_cases on_message_def key_exchange_expected_def flag_def Let_def)

text \<open>
  C19.  When a read transition refuses a message, on either side and in every version, the connection is
  in the error state, or the message is a ChangeCipherSpec on a datagram connection: that one carries no
  sequence number, may be out of order, and is dropped without touching the state machine.
\<close>

theorem refused_message:
  assumes "read_transition (side_of s0) e mt s = (False, s')"
  shows "ossl_statem_in_error s' \<or>
    SSL_IS_DTLS s \<and> mt = SSL3_MT_CHANGE_CIPHER_SPEC \<and> statem s' = statem s"
  using assms cl.read_rejects [of e mt s s'] sv.read_rejects [of e mt s s']
  by (auto simp: side_of_def split: if_splits)

theorem refused_message_witness:
  "ossl_statem_in_error (snd (read_transition (side_of (sample_conn TLS1_2_VERSION TLS_ST_CR_CERT))
     sample_env SSL3_MT_FINISHED (sample_conn TLS1_2_VERSION TLS_ST_CR_CERT)))"
  using refused_message [of "sample_conn TLS1_2_VERSION TLS_ST_CR_CERT" sample_env SSL3_MT_FINISHED
      "sample_conn TLS1_2_VERSION TLS_ST_CR_CERT"]
    sample_client_refuses
  by (cases "read_transition (side_of (sample_conn TLS1_2_VERSION TLS_ST_CR_CERT)) sample_env
        SSL3_MT_FINISHED (sample_conn TLS1_2_VERSION TLS_ST_CR_CERT)") simp

text \<open>
  Every state that a write transition of either side moves to has a message to construct, unless
  the work before sending ends the handshake there: the error \<^verbatim>\<open>SSL_R_BAD_HANDSHAKE_STATE\<close> of
  \<^verbatim>\<open>construct_message\<close> is unreachable as long as the work before sending leaves the handshake state
  alone.
\<close>

theorem written_state_has_message:
  assumes "write_transition (side_of s0) e s = (WRITE_TRAN_CONTINUE, s1)"
    and "pre_work (side_of s0) e wst s1 = (WORK_FINISHED_CONTINUE, s2)"
    and "hand_state (statem s2) = hand_state (statem s1)"
  shows "\<exists>cf mt s3. construct_message (side_of s0) e s2 = (Some (cf, mt), s3)"
proof -
  have "fst (construct_message (side_of s0) e s2) \<noteq> None"
    using assms cl.write_has_message [of e s s1 wst s2] sv.write_has_message [of e s s1 wst s2]
    by (auto simp: side_of_def split: if_splits)
  then show ?thesis by (metis not_None_eq prod.collapse)
qed

theorem written_state_has_message_witness:
  "\<exists>cf mt s3. construct_message (side_of (sample_conn TLS1_2_VERSION TLS_ST_CR_SRVR_DONE)) sample_env
     (set_hand_state TLS_ST_CW_KEY_EXCH (sample_conn TLS1_2_VERSION TLS_ST_CR_SRVR_DONE)) = (Some (cf, mt), s3)"
  by (rule written_state_has_message [of _ _ "sample_conn TLS1_2_VERSION TLS_ST_CR_SRVR_DONE"
        "set_hand_state TLS_ST_CW_KEY_EXCH (sample_conn TLS1_2_VERSION TLS_ST_CR_SRVR_DONE)" WORK_MORE_A])
    (simp_all add: side_of_def client_side_def ossl_statem_client_write_transition_def
      client12_write_transition_def sample_s3_def ossl_statem_client_pre_work_def)

subsection \<open>The message flow\<close>

text \<open>
  C22.  When the header of a message has been read and accepted, its size is within the limit for the
  new handshake state, and a function that processes this kind of message exists: the internal error of
  \<^verbatim>\<open>process_message\<close> is not reached from there.
\<close>

theorem read_header_guarantees:
  assumes "read_header (side_of s0) e len s = (None, len', s')"
  shows "message_size (s3 s') \<le> max_message_size (side_of s0) s' \<and>
    read_state (statem s') = READ_STATE_BODY \<and>
    (\<exists>f. process_message (side_of s0) e n s' = process e f n s')"
  using side_header_guarantees [OF assms] by blast

lemma sample_read_header:
  fixes s defines "s \<equiv> sample_conn TLS1_2_VERSION TLS_ST_CW_CLNT_HELLO"
  shows "fst (read_header (side_of s) sample_env 0 s) = None"
  by (simp add: s_def read_header_def get_message_def loop_notify_def notify_def do_io_eq Let_def
      sample_env_def side_of_def client_side_def ossl_statem_client_read_transition_def
      client_read_switch_def goto_state_def SSL_IS_TLS13_def SSL_IS_DTLS_def sample_conn_def
      sample_statem_def sample_s3_def set_hand_state_def)

theorem read_header_guarantees_witness:
  "read_state (statem (snd (snd (read_header (side_of (sample_conn TLS1_2_VERSION TLS_ST_CW_CLNT_HELLO)) sample_env 0
     (sample_conn TLS1_2_VERSION TLS_ST_CW_CLNT_HELLO))))) = READ_STATE_BODY"
  using read_header_guarantees [of "sample_conn TLS1_2_VERSION TLS_ST_CW_CLNT_HELLO" sample_env 0
      "sample_conn TLS1_2_VERSION TLS_ST_CW_CLNT_HELLO"] sample_read_header
  by (metis prod.collapse)





text \<open>
  C25.  A call of the state machine that returns leaves the nesting counter \<^verbatim>\<open>in_handshake\<close> as it found
  it, through every success, error and retry path, provided \<^verbatim>\<open>SSL_clear\<close> does not fail.
\<close>

theorem state_machine_in_handshake:
  assumes "env_balanced e" and "state_machine e srv s = Some (r, s')"
    and "flag (s3_flags (s3 s)) TLS1_FLAGS_STATELESS \<or> (\<forall>s. fst (call e SSL_clear s) \<noteq> 0)"
  shows "in_handshake (statem s') = in_handshake (statem s)"
  using state_machine_balanced [OF assms] .

definition sample_failed :: "unit ssl" where
  "sample_failed = upd_st (\<lambda>st. st\<lparr>flow_state := MSG_FLOW_UNINITED\<rparr>)
     ((sample_conn TLS1_2_VERSION TLS_ST_BEFORE)\<lparr>version := 0x0200\<rparr>)"

lemma sample_failed_run: "\<exists>r s'. state_machine sample_env False sample_failed = Some (r, s')"
  by (simp add: state_machine_def Let_def split_beta do_io_eq sample_failed_def init_statem_def
      version_ok_def init_fatal_def sample_env_def SSL_IS_DTLS_def sample_conn_def notify_def
      flag_def sample_s3_def)

theorem state_machine_in_handshake_witness:
  "\<exists>r s'. state_machine sample_env False sample_failed = Some (r, s') \<and>
     in_handshake (statem s') = in_handshake (statem sample_failed)"
  using sample_failed_run state_machine_in_handshake [OF sample_env_balanced, of False sample_failed]
  by (fastforce simp: sample_env_def)

text \<open>
  The state machine returns 1 or -1, and it returns 1 only with the message flow finished.
\<close>

theorem state_machine_success:
  assumes "state_machine e srv s = Some (r, s')"
  shows "r = 1 \<and> flow_state (statem s') = MSG_FLOW_FINISHED \<or> r = - 1"
  using state_machine_result [OF assms] .

theorem state_machine_success_witness:
  "\<exists>r s'. state_machine sample_env False sample_failed = Some (r, s') \<and>
     (r = 1 \<and> flow_state (statem s') = MSG_FLOW_FINISHED \<or> r = - 1)"
  using sample_failed_run state_machine_success by blast

text \<open>
  When \<^verbatim>\<open>SSL_clear\<close> fails, \<^verbatim>\<open>state_machine\<close> returns without undoing its increment of
  \<^verbatim>\<open>in_handshake\<close>: the counter stays one too high for the life of the connection.
\<close>

theorem state_machine_leaks_nesting:
  assumes "env_balanced e" and "flow_state (statem s) \<noteq> MSG_FLOW_ERROR"
    and "\<not> SSL_in_init s \<or> SSL_in_before s" and "\<not> flag (s3_flags (s3 s)) TLS1_FLAGS_STATELESS"
    and "\<And>s. fst (call e SSL_clear s) = 0"
  shows "\<exists>s'. state_machine e srv s = Some (- 1, s') \<and>
    in_handshake (statem s') = in_handshake (statem s) + 1"
  using state_machine_leak [OF assms] .

theorem state_machine_leaks_nesting_witness:
  "\<exists>s'. state_machine (sample_env\<lparr>call := (\<lambda>_ s. (0, s))\<rparr>) False sample_failed = Some (- 1, s') \<and>
     in_handshake (statem s') = in_handshake (statem sample_failed) + 1"
  by (rule state_machine_leaks_nesting)
    (simp_all add: env_balanced_def sample_env_def sample_failed_def SSL_in_before_def sample_conn_def
      sample_statem_def sample_s3_def)

text \<open>
  C26.  A fatal error is permanent: once \<^verbatim>\<open>ossl_statem_fatal\<close> was called, every further call of the
  state machine returns -1 and changes nothing, and no later fatal error sends another alert.
\<close>

theorem fatal_is_permanent:
  "state_machine e srv (ossl_statem_fatal e al f r s) = Some (- 1, ossl_statem_fatal e al f r s) \<and>
   ossl_statem_fatal e' al' f' r' (ossl_statem_fatal e al f r s) =
     (ossl_statem_fatal e al f r s)\<lparr>errs := (f', r') # errs (ossl_statem_fatal e al f r s)\<rparr>"
  by (simp add: state_machine_def ossl_statem_fatal_def [of e' al' f' r'] ERR_put_error_def Let_def)

text \<open>
  Growing the handshake buffer for a message of the announced size either fails or leaves a
  well-formed buffer with room for exactly that size, the bytes received so far unchanged and the
  message pointer inside the buffer.
\<close>

theorem grow_init_buf_room:
  assumes "alloc_ok (heap e)" and "init_buf s = Some b" and "buf_wf b" and "sz < 2 ^ 31" and "0 < sz"
    and "grow_init_buf e sz s = (True, s')"
  shows "\<exists>b'. s' = s\<lparr>init_buf := Some b'\<rparr> \<and> buf_wf b' \<and> buf_length b' = sz \<and>
    take (buf_length b) (buf_contents b') = take sz (buf_contents b) \<and> init_msg s' \<le> sz"
  using grow_init_buf_spec [OF assms] .

definition sample_buf :: buf_mem where
  "sample_buf = \<lparr>buf_length = 4, buf_data = Some [11, 0, 0, 9], buf_max = 4, buf_flags = 0\<rparr>"

lemma sample_grow:
  "fst (grow_init_buf sample_env 13 ((sample_conn TLS1_2_VERSION TLS_ST_CR_CERT)\<lparr>init_buf := Some sample_buf\<rparr>))"
  by (simp add: grow_init_buf_def sample_env_def sample_buf_def sample_conn_def through_int_def
      BUF_MEM_grow_clean_def buf_expand_def realloc_block_def Let_def)

theorem grow_init_buf_room_witness:
  "\<exists>b'. buf_wf b' \<and> buf_length b' = 13 \<and> take 4 (buf_contents b') = [11, 0, 0, 9]"
proof -
  let ?s = "(sample_conn TLS1_2_VERSION TLS_ST_CR_CERT)\<lparr>init_buf := Some sample_buf\<rparr>"
  have g: "grow_init_buf sample_env 13 ?s = (True, snd (grow_init_buf sample_env 13 ?s))"
    using sample_grow by (simp add: prod_eq_iff)
  have "alloc_ok (heap sample_env)" by (simp add: alloc_ok_def sample_env_def)
  from grow_init_buf_room [OF this _ _ _ _ g, of sample_buf] show ?thesis
    by (auto simp: sample_buf_def buf_wf_def buf_contents_def)
qed

subsection \<open>Alerts\<close>

text \<open>The alert that \<^verbatim>\<open>ssl3_send_alert\<close> puts on the wire for \<^verbatim>\<open>desc\<close>; negative for none.\<close>

definition wire_alert :: "'w ssl \<Rightarrow> int \<Rightarrow> int" where
  "wire_alert s desc =
     (let d = (if SSL_TREAT_AS_TLS13 s then tls13_alert_code desc else alert_value (meth s) desc)
      in if version s = SSL3_VERSION \<and> d = SSL_AD_PROTOCOL_VERSION then SSL_AD_HANDSHAKE_FAILURE else d)"

definition known_alert_value :: "(int \<Rightarrow> int) \<Rightarrow> bool" where
  "known_alert_value f \<longleftrightarrow> f = ssl3_alert_code \<or> f = tls1_alert_code \<or> f = tls13_alert_code"

lemma wire_alert_byte:
  assumes "known_alert_value (alert_value (meth s))"
  shows "wire_alert s desc = - 1 \<or> 0 \<le> wire_alert s desc \<and> wire_alert s desc < 256"
  using assms ssl3_alert_code_byte [of desc] tls1_alert_code_byte [of desc] tls13_alert_code_byte [of desc]
  by (auto simp: wire_alert_def known_alert_value_def Let_def)

lemma dispatch_alert_send [simp]: "send_alert (s3 (snd (dispatch_alert e s))) = send_alert (s3 s)"
  by (simp add: dispatch_alert_def notify_def Let_def split_beta do_io_eq)

lemma ssl3_send_alert_send:
  assumes "wire_alert s desc \<ge> 0"
  shows "send_alert (s3 (snd (ssl3_send_alert e level desc s))) =
    (word_of_int level, word_of_int (wire_alert s desc))"
  using assms by (simp add: ssl3_send_alert_def wire_alert_def Let_def do_io_eq)

text \<open>
  With the alert translation of any of the method tables, \<^verbatim>\<open>ssl3_send_alert\<close> either sends nothing
  and leaves the connection alone, or queues the level and a description that fits into the byte on the
  wire without change; an SSL 3.0 connection never sends \<^verbatim>\<open>protocol_version\<close>.
\<close>

theorem send_alert_on_the_wire:
  assumes "known_alert_value (alert_value (meth s))" and "level = SSL3_AL_WARNING \<or> level = SSL3_AL_FATAL"
  shows "if wire_alert s desc < 0 then ssl3_send_alert e level desc s = (- 1, s)
    else \<exists>l d. send_alert (s3 (snd (ssl3_send_alert e level desc s))) = (l, d) \<and>
      uint l = level \<and> uint d = wire_alert s desc \<and>
      (version s = SSL3_VERSION \<longrightarrow> uint d \<noteq> SSL_AD_PROTOCOL_VERSION)"
proof (cases "wire_alert s desc < 0")
  case True
  then show ?thesis by (simp add: ssl3_send_alert_def wire_alert_def Let_def)
next
  case False
  then have "0 \<le> wire_alert s desc" "wire_alert s desc < 256"
    using wire_alert_byte [OF assms(1), of desc] by auto
  then have "uint (word_of_int (wire_alert s desc) :: byte) = wire_alert s desc"
    by (simp add: uint_word_of_int)
  moreover have "uint (word_of_int level :: byte) = level" using assms(2) by auto
  moreover have "version s = SSL3_VERSION \<Longrightarrow> wire_alert s desc \<noteq> SSL_AD_PROTOCOL_VERSION"
    by (simp add: wire_alert_def Let_def)
  ultimately show ?thesis using False ssl3_send_alert_send [of s desc e level] by simp
qed

theorem send_alert_on_the_wire_witness:
  "snd (send_alert (s3 (snd (ssl3_send_alert sample_env SSL3_AL_FATAL SSL_AD_CERTIFICATE_REQUIRED
     (sample_conn TLS1_2_VERSION TLS_ST_SR_CERT))))) = 40"
proof -
  let ?s = "sample_conn TLS1_2_VERSION TLS_ST_SR_CERT"
  have w: "wire_alert ?s SSL_AD_CERTIFICATE_REQUIRED = 40"
    by (simp add: wire_alert_def SSL_TREAT_AS_TLS13_def SSL_IS_TLS13_def sample_conn_def
        tls1_alert_code_def switch_def)
  have k: "known_alert_value (alert_value (meth ?s))" by (simp add: known_alert_value_def sample_conn_def)
  from send_alert_on_the_wire [OF k, of SSL3_AL_FATAL SSL_AD_CERTIFICATE_REQUIRED sample_env] w
  obtain l d where d: "send_alert (s3 (snd (ssl3_send_alert sample_env SSL3_AL_FATAL
      SSL_AD_CERTIFICATE_REQUIRED ?s))) = (l, d)" "uint d = 40" by auto
  from d(2) have "d = 40" by (metis word_of_int_numeral word_of_int_uint)
  with d(1) show ?thesis by simp
qed

end
