(* ===== verification/Packet.thy ===== *)
theory Packet
  imports Buffer
begin

unbundle bit_operations_syntax

section \<open>Reading packets\<close>

text \<open>
  Model of the readable half of \<^verbatim>\<open>ssl/packet_local.h\<close> and of the routines of \<^verbatim>\<open>crypto/o_str.c\<close> and
  \<^verbatim>\<open>crypto/cryptlib.c\<close> it calls.  A \<^verbatim>\<open>PACKET\<close> is a position in a byte buffer \<open>mem\<close> that somebody else
  owns (\<open>None\<close> for a null pointer) and the number of bytes left.  Every access to memory goes
  through \<open>load\<close>, which knows the bounds of the buffer, and an operation has one of three outcomes:
  \<open>Fault\<close> when it touched memory outside, \<open>Fails\<close> for a return value 0, after which no argument has
  changed, and \<open>Done\<close> with its results for a return value 1.  The locale \<open>fixed_reader\<close> is the
  contract of the operations that read a number of a fixed width; the length-prefixed readers
  are verified once against it.
\<close>

subsection \<open>Memory and outcomes\<close>

datatype 'a outcome = Fault | Fails | Done 'a

fun and_then :: "'a outcome \<Rightarrow> ('a \<Rightarrow> 'b outcome) \<Rightarrow> 'b outcome" where
  "and_then Fault f = Fault"
| "and_then Fails f = Fails"
| "and_then (Done x) f = f x"

definition load :: "byte list \<Rightarrow> nat option \<Rightarrow> nat \<Rightarrow> byte option" where
  "load mem p i =
     (case p of None \<Rightarrow> None | Some c \<Rightarrow> if c + i < length mem then Some (mem ! (c + i)) else None)"

fun loads :: "byte list \<Rightarrow> nat option \<Rightarrow> nat \<Rightarrow> byte list option" where
  "loads mem p 0 = Some []"
| "loads mem p (Suc n) =
     (case (loads mem p n, load mem p n) of (Some bs, Some b) \<Rightarrow> Some (bs @ [b]) | _ \<Rightarrow> None)"

definition on_bytes :: "byte list option \<Rightarrow> (byte list \<Rightarrow> 'a) \<Rightarrow> 'a outcome" where
  "on_bytes r f = (case r of None \<Rightarrow> Fault | Some bs \<Rightarrow> Done (f bs))"

text \<open>\<^verbatim>\<open>memcpy\<close> of loaded bytes to the start of a block.\<close>

definition store :: "byte list \<Rightarrow> byte list \<Rightarrow> byte list outcome" where
  "store dest bs = (if length bs \<le> length dest then Done (overwrite 0 bs dest) else Fault)"

subsection \<open>Model\<close>

record packet =
  pkt_curr :: "nat option"
  pkt_remaining :: nat

definition packet_forward :: "packet \<Rightarrow> nat \<Rightarrow> packet" where
  "packet_forward pkt len =
     pkt\<lparr>pkt_curr := map_option (\<lambda>c. c + len) (pkt_curr pkt),
         pkt_remaining := usub (pkt_remaining pkt) len\<rparr>"

definition PACKET_remaining :: "packet \<Rightarrow> nat" where
  "PACKET_remaining pkt = pkt_remaining pkt"

definition PACKET_end :: "packet \<Rightarrow> nat option" where
  "PACKET_end pkt = map_option (\<lambda>c. c + pkt_remaining pkt) (pkt_curr pkt)"

definition PACKET_data :: "packet \<Rightarrow> nat option" where
  "PACKET_data pkt = pkt_curr pkt"

definition PACKET_buf_init :: "nat option \<Rightarrow> nat \<Rightarrow> packet outcome" where
  "PACKET_buf_init buf len =
     (if len > SIZE_MAX div 2 then Fails else Done \<lparr>pkt_curr = buf, pkt_remaining = len\<rparr>)"

definition PACKET_null_init :: packet where
  "PACKET_null_init = \<lparr>pkt_curr = None, pkt_remaining = 0\<rparr>"

text \<open>The comparison in constant time of \<^verbatim>\<open>crypto/cryptlib.c\<close>: the differences of all bytes are
  collected before anything is decided.\<close>

definition CRYPTO_memcmp :: "byte list \<Rightarrow> byte list \<Rightarrow> nat \<Rightarrow> byte" where
  "CRYPTO_memcmp a b len = foldl (\<lambda>x i. x OR (a ! i XOR b ! i)) 0 [0..<len]"

definition PACKET_equal :: "byte list \<Rightarrow> packet \<Rightarrow> byte list \<Rightarrow> nat \<Rightarrow> bool outcome" where
  "PACKET_equal mem pkt ptr num =
     (if PACKET_remaining pkt \<noteq> num then Done False
      else case (loads mem (pkt_curr pkt) num, loads ptr (Some 0) num) of
        (Some a, Some b) \<Rightarrow> Done (CRYPTO_memcmp a b num = 0) | _ \<Rightarrow> Fault)"

definition PACKET_peek_sub_packet :: "packet \<Rightarrow> nat \<Rightarrow> packet outcome" where
  "PACKET_peek_sub_packet pkt len =
     (if PACKET_remaining pkt < len then Fails else PACKET_buf_init (pkt_curr pkt) len)"

definition PACKET_get_sub_packet :: "packet \<Rightarrow> nat \<Rightarrow> (packet \<times> packet) outcome" where
  "PACKET_get_sub_packet pkt len =
     and_then (PACKET_peek_sub_packet pkt len) (\<lambda>subpkt. Done (subpkt, packet_forward pkt len))"

definition PACKET_peek_net_2 :: "byte list \<Rightarrow> packet \<Rightarrow> u32 outcome" where
  "PACKET_peek_net_2 mem pkt =
     (if PACKET_remaining pkt < 2 then Fails
      else on_bytes (loads mem (pkt_curr pkt) 2) (\<lambda>c.
        let d = push_bit 8 (ucast (c ! 0))
        in d OR ucast (c ! 1)))"

definition PACKET_get_net_2 :: "byte list \<Rightarrow> packet \<Rightarrow> (u32 \<times> packet) outcome" where
  "PACKET_get_net_2 mem pkt =
     and_then (PACKET_peek_net_2 mem pkt) (\<lambda>d. Done (d, packet_forward pkt 2))"

definition PACKET_get_net_2_len :: "byte list \<Rightarrow> packet \<Rightarrow> (nat \<times> packet) outcome" where
  "PACKET_get_net_2_len mem pkt = and_then (PACKET_get_net_2 mem pkt) (\<lambda>(i, p). Done (unat i, p))"

definition PACKET_peek_net_3 :: "byte list \<Rightarrow> packet \<Rightarrow> u64 outcome" where
  "PACKET_peek_net_3 mem pkt =
     (if PACKET_remaining pkt < 3 then Fails
      else on_bytes (loads mem (pkt_curr pkt) 3) (\<lambda>c.
        let d = push_bit 16 (ucast (c ! 0));
            d = d OR push_bit 8 (ucast (c ! 1))
        in d OR ucast (c ! 2)))"

definition PACKET_get_net_3 :: "byte list \<Rightarrow> packet \<Rightarrow> (u64 \<times> packet) outcome" where
  "PACKET_get_net_3 mem pkt =
     and_then (PACKET_peek_net_3 mem pkt) (\<lambda>d. Done (d, packet_forward pkt 3))"

definition PACKET_get_net_3_len :: "byte list \<Rightarrow> packet \<Rightarrow> (nat \<times> packet) outcome" where
  "PACKET_get_net_3_len mem pkt = and_then (PACKET_get_net_3 mem pkt) (\<lambda>(i, p). Done (unat i, p))"

definition PACKET_peek_net_4 :: "byte list \<Rightarrow> packet \<Rightarrow> u64 outcome" where
  "PACKET_peek_net_4 mem pkt =
     (if PACKET_remaining pkt < 4 then Fails
      else on_bytes (loads mem (pkt_curr pkt) 4) (\<lambda>c.
        let d = push_bit 24 (ucast (c ! 0));
            d = d OR push_bit 16 (ucast (c ! 1));
            d = d OR push_bit 8 (ucast (c ! 2))
        in d OR ucast (c ! 3)))"

definition PACKET_get_net_4 :: "byte list \<Rightarrow> packet \<Rightarrow> (u64 \<times> packet) outcome" where
  "PACKET_get_net_4 mem pkt =
     and_then (PACKET_peek_net_4 mem pkt) (\<lambda>d. Done (d, packet_forward pkt 4))"

definition PACKET_get_net_4_len :: "byte list \<Rightarrow> packet \<Rightarrow> (nat \<times> packet) outcome" where
  "PACKET_get_net_4_len mem pkt = and_then (PACKET_get_net_4 mem pkt) (\<lambda>(i, p). Done (unat i, p))"

definition PACKET_peek_1 :: "byte list \<Rightarrow> packet \<Rightarrow> u32 outcome" where
  "PACKET_peek_1 mem pkt =
     (if PACKET_remaining pkt = 0 then Fails
      else on_bytes (loads mem (pkt_curr pkt) 1) (\<lambda>c. ucast (c ! 0)))"

definition PACKET_get_1 :: "byte list \<Rightarrow> packet \<Rightarrow> (u32 \<times> packet) outcome" where
  "PACKET_get_1 mem pkt =
     and_then (PACKET_peek_1 mem pkt) (\<lambda>d. Done (d, packet_forward pkt 1))"

definition PACKET_get_1_len :: "byte list \<Rightarrow> packet \<Rightarrow> (nat \<times> packet) outcome" where
  "PACKET_get_1_len mem pkt = and_then (PACKET_get_1 mem pkt) (\<lambda>(i, p). Done (unat i, p))"

text \<open>Four bytes in reverse network order.\<close>

definition PACKET_peek_4 :: "byte list \<Rightarrow> packet \<Rightarrow> u64 outcome" where
  "PACKET_peek_4 mem pkt =
     (if PACKET_remaining pkt < 4 then Fails
      else on_bytes (loads mem (pkt_curr pkt) 4) (\<lambda>c.
        let d = ucast (c ! 0);
            d = d OR push_bit 8 (ucast (c ! 1));
            d = d OR push_bit 16 (ucast (c ! 2))
        in d OR push_bit 24 (ucast (c ! 3))))"

definition PACKET_get_4 :: "byte list \<Rightarrow> packet \<Rightarrow> (u64 \<times> packet) outcome" where
  "PACKET_get_4 mem pkt =
     and_then (PACKET_peek_4 mem pkt) (\<lambda>d. Done (d, packet_forward pkt 4))"

text \<open>The byte-string operations: a pointer into the buffer, or a copy.\<close>

definition PACKET_peek_bytes :: "packet \<Rightarrow> nat \<Rightarrow> nat option outcome" where
  "PACKET_peek_bytes pkt len = (if PACKET_remaining pkt < len then Fails else Done (pkt_curr pkt))"

definition PACKET_get_bytes :: "packet \<Rightarrow> nat \<Rightarrow> (nat option \<times> packet) outcome" where
  "PACKET_get_bytes pkt len =
     and_then (PACKET_peek_bytes pkt len) (\<lambda>p. Done (p, packet_forward pkt len))"

definition PACKET_peek_copy_bytes :: "byte list \<Rightarrow> packet \<Rightarrow> byte list \<Rightarrow> nat \<Rightarrow> byte list outcome" where
  "PACKET_peek_copy_bytes mem pkt dest len =
     (if PACKET_remaining pkt < len then Fails
      else and_then (on_bytes (loads mem (pkt_curr pkt) len) id) (store dest))"

definition PACKET_copy_bytes ::
  "byte list \<Rightarrow> packet \<Rightarrow> byte list \<Rightarrow> nat \<Rightarrow> (byte list \<times> packet) outcome" where
  "PACKET_copy_bytes mem pkt dest len =
     and_then (PACKET_peek_copy_bytes mem pkt dest len) (\<lambda>d. Done (d, packet_forward pkt len))"

text \<open>The remaining operations always store to their output arguments, so the return value is part of
  the result: \<^verbatim>\<open>PACKET_copy_all\<close> returns (ret, len, dest), \<^verbatim>\<open>PACKET_memdup\<close> (ret, data, len),
  \<^verbatim>\<open>PACKET_strndup\<close> (ret, data).\<close>

definition PACKET_copy_all ::
  "byte list \<Rightarrow> packet \<Rightarrow> byte list \<Rightarrow> nat \<Rightarrow> (bool \<times> nat \<times> byte list) outcome" where
  "PACKET_copy_all mem pkt dest dest_len =
     (if PACKET_remaining pkt > dest_len then Done (False, 0, dest)
      else and_then (and_then (on_bytes (loads mem (pkt_curr pkt) (pkt_remaining pkt)) id) (store dest))
             (\<lambda>d. Done (True, pkt_remaining pkt, d)))"

abbreviation (input) INT_MAX :: nat where "INT_MAX \<equiv> 2 ^ 31 - 1"

definition CRYPTO_memdup :: "allocator \<Rightarrow> byte list \<Rightarrow> nat option \<Rightarrow> nat \<Rightarrow> byte list option outcome" where
  "CRYPTO_memdup alloc mem data siz =
     (if data = None \<or> siz \<ge> INT_MAX then Done None
      else case alloc siz of None \<Rightarrow> Done None
        | Some ret \<Rightarrow>
            and_then (and_then (on_bytes (loads mem data siz) id) (store ret)) (\<lambda>d. Done (Some d)))"

definition PACKET_memdup :: "allocator \<Rightarrow> byte list \<Rightarrow> packet \<Rightarrow> (bool \<times> byte list option \<times> nat) outcome" where
  "PACKET_memdup alloc mem pkt =
     (let len = PACKET_remaining pkt
      in if len = 0 then Done (True, None, 0)
         else and_then (CRYPTO_memdup alloc mem (pkt_curr pkt) len) (\<lambda>d.
           Done (case d of None \<Rightarrow> (False, None, 0) | Some d \<Rightarrow> (True, Some d, len))))"

fun OPENSSL_strnlen :: "byte list \<Rightarrow> nat \<Rightarrow> nat \<Rightarrow> nat outcome" where
  "OPENSSL_strnlen mem p 0 = Done 0"
| "OPENSSL_strnlen mem p (Suc maxlen) =
     (case load mem (Some p) 0 of None \<Rightarrow> Fault
      | Some b \<Rightarrow> if b = 0 then Done 0
                  else and_then (OPENSSL_strnlen mem (Suc p) maxlen) (\<lambda>n. Done (Suc n)))"

definition CRYPTO_strndup :: "allocator \<Rightarrow> byte list \<Rightarrow> nat option \<Rightarrow> nat \<Rightarrow> byte list option outcome" where
  "CRYPTO_strndup alloc mem str s =
     (case str of None \<Rightarrow> Done None
      | Some p \<Rightarrow>
         and_then (OPENSSL_strnlen mem p s) (\<lambda>maxlen.
           case alloc (maxlen + 1) of None \<Rightarrow> Done None
           | Some ret \<Rightarrow>
              and_then (and_then (on_bytes (loads mem str maxlen) id) (store ret))
                (\<lambda>ret. Done (Some (ret[maxlen := 0])))))"

definition PACKET_strndup :: "allocator \<Rightarrow> byte list \<Rightarrow> packet \<Rightarrow> (bool \<times> byte list option) outcome" where
  "PACKET_strndup alloc mem pkt =
     and_then (CRYPTO_strndup alloc mem (pkt_curr pkt) (PACKET_remaining pkt)) (\<lambda>d. Done (d \<noteq> None, d))"

definition PACKET_contains_zero_byte :: "byte list \<Rightarrow> packet \<Rightarrow> bool outcome" where
  "PACKET_contains_zero_byte mem pkt =
     on_bytes (loads mem (pkt_curr pkt) (pkt_remaining pkt)) (\<lambda>bs. 0 \<in> set bs)"

definition PACKET_forward :: "packet \<Rightarrow> nat \<Rightarrow> packet outcome" where
  "PACKET_forward pkt len =
     (if PACKET_remaining pkt < len then Fails else Done (packet_forward pkt len))"

text \<open>The length-prefixed vectors return the contents and what is left of the packet.  The source
  works on a copy \<^verbatim>\<open>tmp\<close>, so that a failure leaves the packet alone.\<close>

definition PACKET_get_length_prefixed_1 :: "byte list \<Rightarrow> packet \<Rightarrow> (packet \<times> packet) outcome" where
  "PACKET_get_length_prefixed_1 mem pkt =
     and_then (PACKET_get_1 mem pkt) (\<lambda>(len, tmp).
       and_then (PACKET_get_bytes tmp (unat len)) (\<lambda>(data, tmp).
         Done (\<lparr>pkt_curr = data, pkt_remaining = unat len\<rparr>, tmp)))"

definition PACKET_as_length_prefixed_1 :: "byte list \<Rightarrow> packet \<Rightarrow> (packet \<times> packet) outcome" where
  "PACKET_as_length_prefixed_1 mem pkt =
     and_then (PACKET_get_1 mem pkt) (\<lambda>(len, tmp).
       and_then (PACKET_get_bytes tmp (unat len)) (\<lambda>(data, tmp).
         if PACKET_remaining tmp \<noteq> 0 then Fails
         else Done (\<lparr>pkt_curr = data, pkt_remaining = unat len\<rparr>, tmp)))"

definition PACKET_get_length_prefixed_2 :: "byte list \<Rightarrow> packet \<Rightarrow> (packet \<times> packet) outcome" where
  "PACKET_get_length_prefixed_2 mem pkt =
     and_then (PACKET_get_net_2 mem pkt) (\<lambda>(len, tmp).
       and_then (PACKET_get_bytes tmp (unat len)) (\<lambda>(data, tmp).
         Done (\<lparr>pkt_curr = data, pkt_remaining = unat len\<rparr>, tmp)))"

definition PACKET_as_length_prefixed_2 :: "byte list \<Rightarrow> packet \<Rightarrow> (packet \<times> packet) outcome" where
  "PACKET_as_length_prefixed_2 mem pkt =
     and_then (PACKET_get_net_2 mem pkt) (\<lambda>(len, tmp).
       and_then (PACKET_get_bytes tmp (unat len)) (\<lambda>(data, tmp).
         if PACKET_remaining tmp \<noteq> 0 then Fails
         else Done (\<lparr>pkt_curr = data, pkt_remaining = unat len\<rparr>, tmp)))"

definition PACKET_get_length_prefixed_3 :: "byte list \<Rightarrow> packet \<Rightarrow> (packet \<times> packet) outcome" where
  "PACKET_get_length_prefixed_3 mem pkt =
     and_then (PACKET_get_net_3 mem pkt) (\<lambda>(len, tmp).
       and_then (PACKET_get_bytes tmp (unat len)) (\<lambda>(data, tmp).
         Done (\<lparr>pkt_curr = data, pkt_remaining = unat len\<rparr>, tmp)))"

subsection \<open>Invariant and contents\<close>

definition pkt_wf :: "byte list \<Rightarrow> packet \<Rightarrow> bool" where
  "pkt_wf mem pkt \<longleftrightarrow> pkt_remaining pkt \<le> SIZE_MAX div 2 \<and>
     (case pkt_curr pkt of None \<Rightarrow> pkt_remaining pkt = 0
      | Some c \<Rightarrow> c + pkt_remaining pkt \<le> length mem)"

definition pkt_bytes :: "byte list \<Rightarrow> packet \<Rightarrow> byte list" where
  "pkt_bytes mem pkt = (case pkt_curr pkt of None \<Rightarrow> [] | Some c \<Rightarrow> chunk c (pkt_remaining pkt) mem)"

lemma length_pkt_bytes [simp]: "pkt_wf mem pkt \<Longrightarrow> length (pkt_bytes mem pkt) = pkt_remaining pkt"
  by (auto simp: pkt_wf_def pkt_bytes_def split: option.splits)

lemma loads_in_bounds: "c + n \<le> length mem \<Longrightarrow> loads mem (Some c) n = Some (chunk c n mem)"
  by (induction n) (simp_all add: load_def chunk_def take_Suc_conv_app_nth)

lemma loads_packet:
  assumes "pkt_wf mem pkt" and "n \<le> pkt_remaining pkt"
  shows "loads mem (pkt_curr pkt) n = Some (take n (pkt_bytes mem pkt))"
proof (cases "pkt_curr pkt")
  case None
  with assms show ?thesis by (simp add: pkt_wf_def pkt_bytes_def)
next
  case (Some c)
  with assms have "c + n \<le> length mem" by (simp add: pkt_wf_def)
  with Some assms(2) show ?thesis by (simp add: loads_in_bounds pkt_bytes_def chunk_def min_def)
qed

lemma packet_forward_wf [wf_intros]:
  assumes "pkt_wf mem pkt" and "n \<le> pkt_remaining pkt"
  shows "pkt_wf mem (packet_forward pkt n)"
    and "pkt_remaining (packet_forward pkt n) = pkt_remaining pkt - n"
    and "pkt_bytes mem (packet_forward pkt n) = drop n (pkt_bytes mem pkt)"
proof -
  have u: "usub (pkt_remaining pkt) n = pkt_remaining pkt - n"
    using assms by (intro usub_le) (auto simp: pkt_wf_def)
  show "pkt_remaining (packet_forward pkt n) = pkt_remaining pkt - n"
    by (simp add: packet_forward_def u)
  show "pkt_wf mem (packet_forward pkt n)"
    using assms by (auto simp: packet_forward_def u pkt_wf_def split: option.splits)
  show "pkt_bytes mem (packet_forward pkt n) = drop n (pkt_bytes mem pkt)"
    using assms by (auto simp: packet_forward_def u pkt_bytes_def chunk_def drop_take add.commute
        split: option.splits)
qed

lemma sub_packet_wf [wf_intros]:
  assumes "pkt_wf mem pkt" and "n \<le> pkt_remaining pkt"
  shows "pkt_wf mem \<lparr>pkt_curr = pkt_curr pkt, pkt_remaining = n\<rparr>"
    and "pkt_bytes mem \<lparr>pkt_curr = pkt_curr pkt, pkt_remaining = n\<rparr> = take n (pkt_bytes mem pkt)"
  using assms by (auto simp: pkt_wf_def pkt_bytes_def chunk_def min_def split: option.splits)

subsection \<open>Numbers of a fixed width\<close>

lemma of_nat_be_val:
  "8 * length bs \<le> LENGTH('a) \<Longrightarrow>
    word_of_nat (be_val bs) = foldl (\<lambda>l x. push_bit 8 l OR ucast x) (0 :: 'a::len word) bs"
  by (simp flip: unat_foldl_bytes)

lemma unat_be_word:
  "8 * k \<le> LENGTH('a) \<Longrightarrow> unat (word_of_nat (be_val (take k bs)) :: 'a::len word) = be_val (take k bs)"
  by (simp add: of_nat_be_val unat_foldl_bytes)

locale fixed_reader =
  fixes width :: nat and get :: "byte list \<Rightarrow> packet \<Rightarrow> ('v::len word \<times> packet) outcome"
  assumes get_spec: "pkt_wf mem pkt \<Longrightarrow> get mem pkt =
      (if pkt_remaining pkt < width then Fails
       else Done (word_of_nat (be_val (take width (pkt_bytes mem pkt))), packet_forward pkt width))"
    and width_fits: "8 * width \<le> LENGTH('v)"
begin

lemma get_value:
  assumes "pkt_wf mem pkt" and "get mem pkt = Done (v, pkt')"
  shows "unat v = be_val (take width (pkt_bytes mem pkt))"
    and "pkt_wf mem pkt'" and "pkt_bytes mem pkt' = drop width (pkt_bytes mem pkt)"
    and "width \<le> pkt_remaining pkt" and "pkt_remaining pkt' = pkt_remaining pkt - width"
proof -
  let ?bs = "take width (pkt_bytes mem pkt)"
  have w: "width \<le> pkt_remaining pkt" and v: "v = word_of_nat (be_val ?bs)" "pkt' = packet_forward pkt width"
    using get_spec [OF assms(1)] assms(2) by (auto split: if_splits)
  have "8 * length ?bs \<le> LENGTH('v)" using width_fits by simp
  with v show "unat v = be_val ?bs" by (simp add: of_nat_be_val unat_foldl_bytes)
  show "pkt_wf mem pkt'" "pkt_bytes mem pkt' = drop width (pkt_bytes mem pkt)"
    "width \<le> pkt_remaining pkt" "pkt_remaining pkt' = pkt_remaining pkt - width"
    using packet_forward_wf [OF assms(1) w] v w by simp_all
qed

lemma get_cases:
  assumes "pkt_wf mem pkt"
  obtains "get mem pkt = Fails" "pkt_remaining pkt < width"
    | v pkt' where "get mem pkt = Done (v, pkt')"
  using get_spec [OF assms] by (auto split: if_splits)

lemma get_no_fault: "pkt_wf mem pkt \<Longrightarrow> get mem pkt \<noteq> Fault"
  using get_spec [of mem pkt] by auto

end

lemma on_loaded:
  assumes "pkt_wf mem pkt" and "k \<le> pkt_remaining pkt" and "\<And>bs. length bs = k \<Longrightarrow> f bs = g bs"
  shows "on_bytes (loads mem (pkt_curr pkt) k) f = Done (g (take k (pkt_bytes mem pkt)))"
  using assms by (simp add: on_bytes_def loads_packet del: loads.simps)

lemma on_net_bytes:
  assumes "pkt_wf mem pkt" and "k \<le> pkt_remaining pkt" and "8 * k \<le> LENGTH('a)"
    and "\<And>bs. length bs = k \<Longrightarrow> f bs = foldl (\<lambda>l x. push_bit 8 l OR ucast x) (0 :: 'a::len word) bs"
  shows "on_bytes (loads mem (pkt_curr pkt) k) f = Done (word_of_nat (be_val (take k (pkt_bytes mem pkt))))"
  using on_loaded [OF assms(1,2,4)] assms(1-3) by (simp add: of_nat_be_val del: loads.simps)

lemmas reader_defs = PACKET_get_1_def PACKET_peek_1_def PACKET_get_net_2_def PACKET_peek_net_2_def
  PACKET_get_net_3_def PACKET_peek_net_3_def PACKET_get_net_4_def PACKET_peek_net_4_def
  PACKET_remaining_def

interpretation r1: fixed_reader 1 PACKET_get_1
proof unfold_locales
  fix mem pkt
  assume wf: "pkt_wf mem pkt"
  have *: "ucast (bs ! 0) = foldl (\<lambda>l x. push_bit 8 l OR ucast x) (0 :: u32) bs" if "length bs = 1" for bs :: "byte list"
    using that by (auto simp: length_Suc_conv)
  from on_net_bytes [of mem pkt 1, OF wf _ _ *] show "PACKET_get_1 mem pkt = (if pkt_remaining pkt < 1 then Fails
       else Done (word_of_nat (be_val (take 1 (pkt_bytes mem pkt))), packet_forward pkt 1))"
    by (auto simp: reader_defs simp del: loads.simps One_nat_def)
qed simp

interpretation r2: fixed_reader 2 PACKET_get_net_2
proof unfold_locales
  fix mem pkt
  assume wf: "pkt_wf mem pkt"
  have "(let d = push_bit 8 (ucast (bs ! 0)) in d OR ucast (bs ! 1)) =
      foldl (\<lambda>l x. push_bit 8 l OR ucast x) (0 :: u32) bs" if "length bs = 2" for bs :: "byte list"
    using that by (auto simp: length_Suc_conv numeral_eq_Suc)
  from on_net_bytes [OF wf _ _ this] show "PACKET_get_net_2 mem pkt = (if pkt_remaining pkt < 2 then Fails
       else Done (word_of_nat (be_val (take 2 (pkt_bytes mem pkt))), packet_forward pkt 2))"
    by (simp add: reader_defs del: loads.simps)
qed simp

interpretation r3: fixed_reader 3 PACKET_get_net_3
proof unfold_locales
  fix mem pkt
  assume wf: "pkt_wf mem pkt"
  have "(let d = push_bit 16 (ucast (bs ! 0)); d = d OR push_bit 8 (ucast (bs ! 1)) in d OR ucast (bs ! 2)) =
      foldl (\<lambda>l x. push_bit 8 l OR ucast x) (0 :: u64) bs" if len: "length bs = 3" for bs :: "byte list"
  proof -
    obtain a b c where "bs = [a, b, c]" using len by (auto simp: length_Suc_conv eval_nat_numeral)
    then show ?thesis by (simp add: or.assoc)
  qed
  from on_net_bytes [OF wf _ _ this] show "PACKET_get_net_3 mem pkt = (if pkt_remaining pkt < 3 then Fails
       else Done (word_of_nat (be_val (take 3 (pkt_bytes mem pkt))), packet_forward pkt 3))"
    by (simp add: reader_defs del: loads.simps)
qed simp

interpretation r4: fixed_reader 4 PACKET_get_net_4
proof unfold_locales
  fix mem pkt
  assume wf: "pkt_wf mem pkt"
  have "(let d = push_bit 24 (ucast (bs ! 0)); d = d OR push_bit 16 (ucast (bs ! 1));
         d = d OR push_bit 8 (ucast (bs ! 2)) in d OR ucast (bs ! 3)) =
      foldl (\<lambda>l x. push_bit 8 l OR ucast x) (0 :: u64) bs" if len: "length bs = 4" for bs :: "byte list"
  proof -
    obtain a b c d where "bs = [a, b, c, d]" using len by (auto simp: length_Suc_conv eval_nat_numeral)
    then show ?thesis by (simp add: or.assoc)
  qed
  from on_net_bytes [OF wf _ _ this] show "PACKET_get_net_4 mem pkt = (if pkt_remaining pkt < 4 then Fails
       else Done (word_of_nat (be_val (take 4 (pkt_bytes mem pkt))), packet_forward pkt 4))"
    by (simp add: reader_defs del: loads.simps)
qed simp

text \<open>The reader in reverse network order yields the same number as a network-order reader of the
  reversed bytes.\<close>

lemma PACKET_get_4_spec:
  assumes wf: "pkt_wf mem pkt"
  shows "PACKET_get_4 mem pkt = (if pkt_remaining pkt < 4 then Fails
    else Done (word_of_nat (be_val (rev (take 4 (pkt_bytes mem pkt)))), packet_forward pkt 4))"
proof -
  have *: "(let d = ucast (bs ! 0); d = d OR push_bit 8 (ucast (bs ! 1)); d = d OR push_bit 16 (ucast (bs ! 2))
        in d OR push_bit 24 (ucast (bs ! 3))) = (word_of_nat (be_val (rev bs)) :: u64)"
    if len: "length bs = 4" for bs :: "byte list"
  proof -
    obtain a b c d where bs: "bs = [a, b, c, d]" using len by (auto simp: length_Suc_conv eval_nat_numeral)
    have "word_of_nat (be_val (rev bs)) = foldl (\<lambda>l x. push_bit 8 l OR ucast x) (0 :: u64) (rev bs)"
      using len by (intro of_nat_be_val) simp
    then show ?thesis by (simp add: bs ac_simps)
  qed
  from on_loaded [OF wf _ *] show ?thesis
    by (simp add: PACKET_get_4_def PACKET_peek_4_def PACKET_remaining_def del: loads.simps)
qed

subsection \<open>Length-prefixed vectors\<close>

text \<open>The specification on byte strings: a \<open>k\<close>-byte length in network order, that many bytes, the
  rest.  An outcome meets a specified result when it fails exactly where there is none, and
  otherwise yields two well-formed packets with the specified bytes.\<close>

definition prefixed_spec :: "nat \<Rightarrow> byte list \<Rightarrow> (byte list \<times> byte list) option" where
  "prefixed_spec k bs =
     (let n = be_val (take k bs)
      in if length bs < k + n then None else Some (take n (drop k bs), drop (k + n) bs))"

definition whole_spec :: "nat \<Rightarrow> byte list \<Rightarrow> (byte list \<times> byte list) option" where
  "whole_spec k bs =
     (case prefixed_spec k bs of Some (c, rest) \<Rightarrow> if rest = [] then Some (c, []) else None | None \<Rightarrow> None)"

definition meets :: "byte list \<Rightarrow> (packet \<times> packet) outcome \<Rightarrow> (byte list \<times> byte list) option \<Rightarrow> bool" where
  "meets mem r t =
     (case r of Fault \<Rightarrow> False | Fails \<Rightarrow> t = None
      | Done (sub, pkt) \<Rightarrow> pkt_wf mem sub \<and> pkt_wf mem pkt \<and> t = Some (pkt_bytes mem sub, pkt_bytes mem pkt))"

lemma PACKET_get_bytes_cases:
  "PACKET_get_bytes pkt n =
     (if pkt_remaining pkt < n then Fails else Done (pkt_curr pkt, packet_forward pkt n))"
  by (simp add: PACKET_get_bytes_def PACKET_peek_bytes_def PACKET_remaining_def)

context fixed_reader
begin

lemma prefixed:
  assumes wf: "pkt_wf mem pkt"
  shows "meets mem (and_then (get mem pkt) (\<lambda>(len, tmp).
       and_then (PACKET_get_bytes tmp (unat len)) (\<lambda>(data, tmp).
         Done (\<lparr>pkt_curr = data, pkt_remaining = unat len\<rparr>, tmp))))
    (prefixed_spec width (pkt_bytes mem pkt))"
  using wf
proof (cases rule: get_cases)
  case 1
  with wf show ?thesis by (simp add: meets_def prefixed_spec_def)
next
  case (2 v tmp)
  note g = get_value [OF wf 2]
  show ?thesis
  proof (cases "pkt_remaining tmp < unat v")
    case True
    with 2 g wf show ?thesis
      by (auto simp: meets_def prefixed_spec_def PACKET_get_bytes_cases Let_def)
  next
    case False
    note sub = sub_packet_wf [OF g(2), of "unat v"] and fwd = packet_forward_wf [OF g(2), of "unat v"]
    from False 2 g wf sub fwd show ?thesis
      by (auto simp: meets_def prefixed_spec_def PACKET_get_bytes_cases Let_def add.commute)
  qed
qed

lemma whole:
  assumes wf: "pkt_wf mem pkt"
  shows "meets mem (and_then (get mem pkt) (\<lambda>(len, tmp).
       and_then (PACKET_get_bytes tmp (unat len)) (\<lambda>(data, tmp).
         if PACKET_remaining tmp \<noteq> 0 then Fails
         else Done (\<lparr>pkt_curr = data, pkt_remaining = unat len\<rparr>, tmp))))
    (whole_spec width (pkt_bytes mem pkt))"
proof -
  have *: "and_then (get mem pkt) (\<lambda>(len, tmp). and_then (PACKET_get_bytes tmp (unat len)) (\<lambda>(data, tmp).
         if PACKET_remaining tmp \<noteq> 0 then Fails
         else Done (\<lparr>pkt_curr = data, pkt_remaining = unat len\<rparr>, tmp))) =
    and_then (and_then (get mem pkt) (\<lambda>(len, tmp). and_then (PACKET_get_bytes tmp (unat len))
       (\<lambda>(data, tmp). Done (\<lparr>pkt_curr = data, pkt_remaining = unat len\<rparr>, tmp))))
      (\<lambda>(sub, tmp). if PACKET_remaining tmp \<noteq> 0 then Fails else Done (sub, tmp))"
    by (cases "get mem pkt") (auto simp: PACKET_get_bytes_cases)
  show ?thesis unfolding * using prefixed [OF wf]
    by (auto simp: meets_def whole_spec_def PACKET_remaining_def split: outcome.splits option.splits if_splits
        dest: length_pkt_bytes)
qed

end

text \<open>
  The length-prefixed readers implement their specification on byte strings: they yield the
  announced number of bytes and the rest of the packet, both as well-formed packets over the same
  buffer, and fail exactly when the packet is too short; the \<^verbatim>\<open>as\<close> variants fail also when bytes are left.
\<close>

theorem length_prefixed_correct:
  assumes "pkt_wf mem pkt"
  shows "meets mem (PACKET_get_length_prefixed_1 mem pkt) (prefixed_spec 1 (pkt_bytes mem pkt)) \<and>
    meets mem (PACKET_get_length_prefixed_2 mem pkt) (prefixed_spec 2 (pkt_bytes mem pkt)) \<and>
    meets mem (PACKET_get_length_prefixed_3 mem pkt) (prefixed_spec 3 (pkt_bytes mem pkt)) \<and>
    meets mem (PACKET_as_length_prefixed_1 mem pkt) (whole_spec 1 (pkt_bytes mem pkt)) \<and>
    meets mem (PACKET_as_length_prefixed_2 mem pkt) (whole_spec 2 (pkt_bytes mem pkt))"
  unfolding PACKET_get_length_prefixed_1_def PACKET_get_length_prefixed_2_def PACKET_get_length_prefixed_3_def
    PACKET_as_length_prefixed_1_def PACKET_as_length_prefixed_2_def
  using assms by (intro conjI r1.prefixed r2.prefixed r3.prefixed r1.whole r2.whole)

definition sample_buf :: "byte list" where "sample_buf = [0, 2, 7, 8, 9]"

definition sample_pkt :: packet where "sample_pkt = \<lparr>pkt_curr = Some 0, pkt_remaining = 5\<rparr>"

lemma sample_pkt_wf: "pkt_wf sample_buf sample_pkt" "pkt_bytes sample_buf sample_pkt = [0, 2, 7, 8, 9]"
  by (simp_all add: pkt_wf_def pkt_bytes_def sample_buf_def sample_pkt_def chunk_def)

theorem length_prefixed_correct_witness:
  "meets sample_buf (PACKET_get_length_prefixed_2 sample_buf sample_pkt) (Some ([7, 8], [9]))"
proof -
  have "prefixed_spec 2 [0, 2, 7, 8, 9] = Some ([7, 8], [9])"
    by (simp add: prefixed_spec_def be_val_def)
  then show ?thesis using length_prefixed_correct [OF sample_pkt_wf(1)] by (simp add: sample_pkt_wf(2))
qed

subsection \<open>Comparison and copies\<close>

lemma CRYPTO_memcmp_zero:
  "CRYPTO_memcmp a b len = 0 \<longleftrightarrow> (\<forall>i < len. a ! i = b ! i)"
proof (induction len)
  case 0
  then show ?case by (simp add: CRYPTO_memcmp_def)
next
  case (Suc len)
  have "x XOR y = 0 \<longleftrightarrow> x = y" for x y :: byte by (auto simp: bit_eq_iff bit_simps)
  moreover have "CRYPTO_memcmp a b (Suc len) = CRYPTO_memcmp a b len OR (a ! len XOR b ! len)"
    by (simp add: CRYPTO_memcmp_def)
  ultimately show ?case using Suc by (auto simp: or_eq_0_iff less_Suc_eq)
qed

lemma store_block: "length bs = length blk \<Longrightarrow> store blk bs = Done bs"
  by (simp add: store_def overwrite_def)

lemma copy_loaded:
  assumes "pkt_wf mem pkt" and "n \<le> pkt_remaining pkt"
  shows "and_then (on_bytes (loads mem (pkt_curr pkt) n) id) (store dest) =
    store dest (take n (pkt_bytes mem pkt))"
  using assms by (simp add: loads_packet on_bytes_def del: loads.simps)

lemma PACKET_equal_spec:
  assumes wf: "pkt_wf mem pkt" and "num \<le> length ptr"
  shows "PACKET_equal mem pkt ptr num = Done (pkt_bytes mem pkt = take num ptr)"
proof (cases "pkt_remaining pkt = num")
  case True
  with assms show ?thesis
    by (simp add: PACKET_equal_def PACKET_remaining_def loads_packet loads_in_bounds CRYPTO_memcmp_zero
        chunk_def list_eq_iff_nth_eq del: loads.simps)
next
  case False
  moreover from False wf assms(2) have "length (pkt_bytes mem pkt) \<noteq> length (take num ptr)" by simp
  ultimately show ?thesis by (auto simp: PACKET_equal_def PACKET_remaining_def)
qed

lemma PACKET_copy_all_spec:
  assumes "pkt_wf mem pkt" and "dest_len \<le> length dest"
  shows "PACKET_copy_all mem pkt dest dest_len =
    (if pkt_remaining pkt > dest_len then Done (False, 0, dest)
     else Done (True, pkt_remaining pkt, overwrite 0 (pkt_bytes mem pkt) dest))"
  using assms by (simp add: PACKET_copy_all_def PACKET_remaining_def copy_loaded store_def del: loads.simps)

lemma PACKET_memdup_spec:
  assumes wf: "pkt_wf mem pkt" and "alloc_ok alloc"
  shows "PACKET_memdup alloc mem pkt = Done
    (if pkt_remaining pkt = 0 then (True, None, 0)
     else if pkt_remaining pkt \<ge> INT_MAX \<or> alloc (pkt_remaining pkt) = None then (False, None, 0)
     else (True, Some (pkt_bytes mem pkt), pkt_remaining pkt))"
proof -
  have "pkt_remaining pkt = 0" if "pkt_curr pkt = None" using wf that by (auto simp: pkt_wf_def split: option.splits)
  moreover have "length b = length (pkt_bytes mem pkt)" if "alloc (pkt_remaining pkt) = Some b" for b
    using assms that by (auto simp: alloc_ok_def)
  ultimately show ?thesis using wf
    by (auto simp: PACKET_memdup_def PACKET_remaining_def CRYPTO_memdup_def copy_loaded store_block Let_def
        simp del: loads.simps split: option.splits)
qed

lemma OPENSSL_strnlen_spec:
  "c + n \<le> length mem \<Longrightarrow>
    OPENSSL_strnlen mem c n = Done (length (takeWhile (\<lambda>b. b \<noteq> 0) (chunk c n mem)))"
proof (induction n arbitrary: c)
  case 0
  then show ?case by (simp add: chunk_def)
next
  case (Suc n)
  have "chunk c (Suc n) mem = mem ! c # chunk (Suc c) n mem"
    using Suc.prems by (simp add: chunk_def take_Suc_conv_app_nth flip: Cons_nth_drop_Suc)
  with Suc show ?case by (simp add: load_def)
qed

lemma PACKET_strndup_spec:
  assumes wf: "pkt_wf mem pkt" and ok: "alloc_ok alloc"
    and t: "t = takeWhile (\<lambda>b. b \<noteq> 0) (pkt_bytes mem pkt)"
  shows "PACKET_strndup alloc mem pkt = Done
    (if pkt_curr pkt = None \<or> alloc (length t + 1) = None then (False, None) else (True, Some (t @ [0])))"
proof (cases "pkt_curr pkt")
  case None
  then show ?thesis by (simp add: PACKET_strndup_def CRYPTO_strndup_def)
next
  case (Some c)
  have len: "OPENSSL_strnlen mem c (pkt_remaining pkt) = Done (length t)"
    using OPENSSL_strnlen_spec [of c "pkt_remaining pkt" mem] wf Some t
    by (simp add: pkt_wf_def pkt_bytes_def)
  have le: "length t \<le> pkt_remaining pkt" using length_takeWhile_le [of _ "pkt_bytes mem pkt"] wf t by simp
  have "take (length t) (pkt_bytes mem pkt) = t" using t by (simp add: takeWhile_eq_take [symmetric])
  then have ld: "and_then (on_bytes (loads mem (Some c) (length t)) id) (store blk) = store blk t" for blk
    using copy_loaded [OF wf le] Some by simp
  have "(overwrite 0 t b)[length t := 0] = t @ [0]" if "alloc (length t + 1) = Some b" for b
  proof -
    have "length (drop (length t) b) = Suc 0" using ok that by (auto simp: alloc_ok_def)
    then obtain z where "drop (length t) b = [z]" by (metis length_0_conv length_Suc_conv)
    then show ?thesis by (simp add: overwrite_def)
  qed
  moreover have "store b t = Done (overwrite 0 t b)" if "alloc (length t + 1) = Some b" for b
    using ok that by (auto simp: store_def alloc_ok_def)
  ultimately show ?thesis using Some
    by (auto simp: PACKET_strndup_def CRYPTO_strndup_def PACKET_remaining_def len ld split: option.splits)
qed

subsection \<open>Properties of the readers\<close>

lemma PACKET_contains_zero_byte_spec:
  "pkt_wf mem pkt \<Longrightarrow> PACKET_contains_zero_byte mem pkt = Done (0 \<in> set (pkt_bytes mem pkt))"
  by (simp add: PACKET_contains_zero_byte_def loads_packet on_bytes_def del: loads.simps)

lemma PACKET_copy_bytes_spec:
  assumes "pkt_wf mem pkt" and "len \<le> length dest"
  shows "PACKET_copy_bytes mem pkt dest len =
    (if pkt_remaining pkt < len then Fails
     else Done (overwrite 0 (take len (pkt_bytes mem pkt)) dest, packet_forward pkt len))"
  using assms by (simp add: PACKET_copy_bytes_def PACKET_peek_copy_bytes_def PACKET_remaining_def
      copy_loaded store_def del: loads.simps)

text \<open>
  C36.  No operation on a well-formed packet reads outside the underlying buffer or writes outside
  the destination, whatever the bytes are, as long as the caller's buffers have the sizes it
  says they have.
\<close>

theorem packet_reads_in_bounds:
  assumes "pkt_wf mem pkt" and "alloc_ok alloc"
    and "len \<le> length dest" and "dest_len \<le> length dest" and "num \<le> length ptr"
  shows "PACKET_get_1 mem pkt \<noteq> Fault \<and> PACKET_get_net_2 mem pkt \<noteq> Fault \<and> PACKET_get_net_3 mem pkt \<noteq> Fault \<and>
    PACKET_get_net_4 mem pkt \<noteq> Fault \<and> PACKET_get_4 mem pkt \<noteq> Fault \<and>
    PACKET_get_length_prefixed_1 mem pkt \<noteq> Fault \<and> PACKET_get_length_prefixed_2 mem pkt \<noteq> Fault \<and>
    PACKET_get_length_prefixed_3 mem pkt \<noteq> Fault \<and>
    PACKET_equal mem pkt ptr num \<noteq> Fault \<and> PACKET_copy_bytes mem pkt dest len \<noteq> Fault \<and>
    PACKET_copy_all mem pkt dest dest_len \<noteq> Fault \<and> PACKET_memdup alloc mem pkt \<noteq> Fault \<and>
    PACKET_strndup alloc mem pkt \<noteq> Fault \<and> PACKET_contains_zero_byte mem pkt \<noteq> Fault"
proof -
  have "r \<noteq> Fault" if "meets mem r t" for r t using that by (auto simp: meets_def)
  then have "PACKET_get_length_prefixed_1 mem pkt \<noteq> Fault" "PACKET_get_length_prefixed_2 mem pkt \<noteq> Fault"
    "PACKET_get_length_prefixed_3 mem pkt \<noteq> Fault"
    using r1.prefixed [OF assms(1)] r2.prefixed [OF assms(1)] r3.prefixed [OF assms(1)]
    unfolding PACKET_get_length_prefixed_1_def PACKET_get_length_prefixed_2_def PACKET_get_length_prefixed_3_def
    by blast+
  then show ?thesis
    using assms r1.get_no_fault r2.get_no_fault r3.get_no_fault r4.get_no_fault
    by (simp add: PACKET_get_4_spec PACKET_equal_spec PACKET_copy_bytes_spec PACKET_copy_all_spec
        PACKET_memdup_spec PACKET_strndup_spec PACKET_contains_zero_byte_spec)
qed

theorem packet_reads_in_bounds_witness:
  "PACKET_copy_all sample_buf sample_pkt [1, 1, 1, 1, 1, 1] 6 \<noteq> Fault"
  using packet_reads_in_bounds [OF sample_pkt_wf(1) sample_mem_wf(2), of 0 "[1, 1, 1, 1, 1, 1]" 6 0 "[]"]
  by simp

text \<open>
  The number readers deliver the network-order value of exactly the bytes they consume and
  advance by them, and the reader in reverse order the value of the reversed bytes; each fails
  exactly when too few bytes are left.
\<close>

theorem packet_numbers_correct:
  assumes "pkt_wf mem pkt" and "bs = pkt_bytes mem pkt"
  shows "(PACKET_get_1_len mem pkt = (if length bs < 1 then Fails
      else Done (be_val (take 1 bs), packet_forward pkt 1))) \<and>
    (PACKET_get_net_2_len mem pkt = (if length bs < 2 then Fails
      else Done (be_val (take 2 bs), packet_forward pkt 2))) \<and>
    (PACKET_get_net_3_len mem pkt = (if length bs < 3 then Fails
      else Done (be_val (take 3 bs), packet_forward pkt 3))) \<and>
    (PACKET_get_net_4_len mem pkt = (if length bs < 4 then Fails
      else Done (be_val (take 4 bs), packet_forward pkt 4))) \<and>
    (PACKET_get_4 mem pkt = (if length bs < 4 then Fails
      else Done (word_of_nat (be_val (rev (take 4 bs))), packet_forward pkt 4))) \<and>
    (\<forall>n \<le> length bs. pkt_wf mem (packet_forward pkt n) \<and>
      pkt_bytes mem (packet_forward pkt n) = drop n bs)"
proof -
  have "\<forall>n \<le> length bs. pkt_wf mem (packet_forward pkt n) \<and> pkt_bytes mem (packet_forward pkt n) = drop n bs"
    using packet_forward_wf [OF assms(1)] assms by simp
  then show ?thesis
    using assms by (simp add: unat_be_word PACKET_get_1_len_def PACKET_get_net_2_len_def PACKET_get_net_3_len_def
        PACKET_get_net_4_len_def r1.get_spec r2.get_spec r3.get_spec r4.get_spec PACKET_get_4_spec)
qed

theorem packet_numbers_correct_witness:
  "PACKET_get_net_3_len sample_buf sample_pkt = Done (519, packet_forward sample_pkt 3)"
  using packet_numbers_correct [OF sample_pkt_wf(1) refl]
  by (simp add: sample_pkt_wf(2) be_val_def)

text \<open>
  Comparison and copies: \<^verbatim>\<open>PACKET_equal\<close> decides equality of the packet with a byte string although
  it never stops early; \<^verbatim>\<open>PACKET_copy_all\<close> and \<^verbatim>\<open>PACKET_memdup\<close> deliver exactly the bytes of the packet or
  fail for lack of room; \<^verbatim>\<open>PACKET_strndup\<close> delivers the bytes before the first zero byte, terminated.
\<close>

theorem packet_copies_correct:
  assumes "pkt_wf mem pkt" and "alloc_ok alloc" and "num \<le> length ptr" and "dest_len \<le> length dest"
    and "bs = pkt_bytes mem pkt" and "t = takeWhile (\<lambda>b. b \<noteq> 0) bs"
  shows "PACKET_equal mem pkt ptr num = Done (bs = take num ptr) \<and>
    PACKET_copy_all mem pkt dest dest_len =
      (if length bs > dest_len then Done (False, 0, dest)
       else Done (True, length bs, bs @ drop (length bs) dest)) \<and>
    PACKET_memdup alloc mem pkt = Done
      (if bs = [] then (True, None, 0)
       else if length bs \<ge> INT_MAX \<or> alloc (length bs) = None then (False, None, 0)
       else (True, Some bs, length bs)) \<and>
    PACKET_strndup alloc mem pkt = Done
      (if pkt_curr pkt = None \<or> alloc (length t + 1) = None then (False, None) else (True, Some (t @ [0])))"
proof -
  have "bs = [] \<longleftrightarrow> pkt_remaining pkt = 0" using assms(1,5) by (metis length_0_conv length_pkt_bytes)
  then show ?thesis using assms
    by (simp add: PACKET_equal_spec PACKET_copy_all_spec PACKET_memdup_spec PACKET_strndup_spec overwrite_def)
qed

theorem packet_copies_correct_witness:
  "PACKET_memdup (\<lambda>n. Some (replicate n 1)) sample_buf sample_pkt = Done (True, Some [0, 2, 7, 8, 9], 5)"
  using packet_copies_correct [OF sample_pkt_wf(1) sample_mem_wf(2), of 0 "[]" 0 "[]", OF _ _ refl refl]
  by (simp add: sample_pkt_wf(2))

end
