(* ===== verification/Wpacket.thy ===== *)
theory Wpacket
  imports Packet
begin

unbundle bit_operations_syntax

section \<open>Writing packets\<close>

text \<open>
  Model of \<^verbatim>\<open>ssl/packet.c\<close> and the writable half of \<^verbatim>\<open>ssl/packet_local.h\<close>.  A \<^verbatim>\<open>WPACKET\<close> writes either
  into a growable \<^verbatim>\<open>BUF_MEM\<close> or into a fixed block; its open sub-packets are a list, innermost first,
  so that the \<^verbatim>\<open>parent\<close> pointer of the source is the tail of the list.  Offsets and lengths are
  numbers below \<^term>\<open>2 ^ 64 :: nat\<close> with the wrap-around of \<^verbatim>\<open>size_t\<close> written out.  An operation yields the
  packet it leaves behind together with \<open>None\<close> for a return value 0 or \<open>Some\<close> of its results; the
  outcome is \<open>Fault\<close> when memory outside the block is written.  A pointer into the block that the
  source hands out is the offset in the block.  The Boolean \<open>ok\<close> says whether \<^verbatim>\<open>OPENSSL_zalloc\<close> of a
  \<^verbatim>\<open>WPACKET_SUB\<close> succeeds.
\<close>

subsection \<open>Data\<close>

record wpacket_sub =
  sub_packet_len :: nat
  sub_lenbytes :: nat
  sub_pwritten :: nat
  sub_flags :: u32

record wpacket =
  wp_buf :: "buf_mem option"
  wp_staticbuf :: "byte list option"
  wp_curr :: nat
  wp_written :: nat
  wp_maxsize :: nat
  wp_subs :: "wpacket_sub list"

abbreviation (input) DEFAULT_BUF_SIZE :: nat where "DEFAULT_BUF_SIZE \<equiv> 256"
abbreviation WPACKET_FLAGS_NON_ZERO_LENGTH :: u32 where "WPACKET_FLAGS_NON_ZERO_LENGTH \<equiv> 1"
abbreviation WPACKET_FLAGS_ABANDON_ON_ZERO_LENGTH :: u32 where "WPACKET_FLAGS_ABANDON_ON_ZERO_LENGTH \<equiv> 2"

type_synonym 'r wres = "('r option \<times> wpacket) outcome"

text \<open>\<^verbatim>\<open>A || B\<close> in a chain of failing calls: go on only after a success.\<close>

definition wthen :: "'a wres \<Rightarrow> ('a \<Rightarrow> wpacket \<Rightarrow> 'b wres) \<Rightarrow> 'b wres" where
  "wthen r f = and_then r (\<lambda>(v, pkt). case v of None \<Rightarrow> Done (None, pkt) | Some x \<Rightarrow> f x pkt)"

subsection \<open>The block\<close>

definition GETBUF :: "wpacket \<Rightarrow> byte list option" where
  "GETBUF p =
     (case wp_staticbuf p of Some b \<Rightarrow> Some b
      | None \<Rightarrow> (case wp_buf p of None \<Rightarrow> None | Some buf \<Rightarrow> buf_data buf))"

definition set_block :: "wpacket \<Rightarrow> byte list \<Rightarrow> wpacket" where
  "set_block p d =
     (case wp_staticbuf p of Some _ \<Rightarrow> p\<lparr>wp_staticbuf := Some d\<rparr>
      | None \<Rightarrow> p\<lparr>wp_buf := map_option (\<lambda>buf. buf\<lparr>buf_data := Some d\<rparr>) (wp_buf p)\<rparr>)"

text \<open>\<^verbatim>\<open>memcpy\<close> or \<^verbatim>\<open>memset\<close> to an offset of the block.\<close>

definition wp_store :: "wpacket \<Rightarrow> nat \<Rightarrow> byte list \<Rightarrow> unit wres" where
  "wp_store pkt off bs =
     (case GETBUF pkt of None \<Rightarrow> Fault
      | Some d \<Rightarrow> if off + length bs \<le> length d then Done (Some (), set_block pkt (overwrite off bs d)) else Fault)"

subsection \<open>Operations\<close>

definition WPACKET_get_curr :: "wpacket \<Rightarrow> nat" where
  "WPACKET_get_curr pkt = wp_curr pkt"

definition WPACKET_reserve_bytes :: "allocator \<Rightarrow> wpacket \<Rightarrow> nat \<Rightarrow> nat wres" where
  "WPACKET_reserve_bytes alloc pkt len =
     (if \<not> (wp_subs pkt \<noteq> [] \<and> len \<noteq> 0) then Done (None, pkt)
      else if usub (wp_maxsize pkt) (wp_written pkt) < len then Done (None, pkt)
      else if wp_staticbuf pkt \<noteq> None then Done (Some (WPACKET_get_curr pkt), pkt)
      else case wp_buf pkt of
        None \<Rightarrow> Fault
      | Some buf \<Rightarrow>
          if usub (buf_length buf) (wp_written pkt) < len then
            let reflen = (if len > buf_length buf then len else buf_length buf);
                newlen = (if reflen > SIZE_MAX div 2 then SIZE_MAX
                          else if reflen * 2 < DEFAULT_BUF_SIZE then DEFAULT_BUF_SIZE else reflen * 2);
                (r, buf) = BUF_MEM_grow alloc buf newlen;
                pkt = pkt\<lparr>wp_buf := Some buf\<rparr>
            in if r = 0 then Done (None, pkt) else Done (Some (WPACKET_get_curr pkt), pkt)
          else Done (Some (WPACKET_get_curr pkt), pkt))"

definition WPACKET_allocate_bytes :: "allocator \<Rightarrow> wpacket \<Rightarrow> nat \<Rightarrow> nat wres" where
  "WPACKET_allocate_bytes alloc pkt len =
     wthen (WPACKET_reserve_bytes alloc pkt len) (\<lambda>p pkt.
       Done (Some p, pkt\<lparr>wp_written := uadd (wp_written pkt) len, wp_curr := uadd (wp_curr pkt) len\<rparr>))"

definition WPACKET_sub_reserve_bytes :: "allocator \<Rightarrow> wpacket \<Rightarrow> nat \<Rightarrow> nat \<Rightarrow> nat wres" where
  "WPACKET_sub_reserve_bytes alloc pkt len lenbytes =
     wthen (WPACKET_reserve_bytes alloc pkt (uadd lenbytes len)) (\<lambda>p pkt. Done (Some (p + lenbytes), pkt))"

definition maxmaxsize :: "nat \<Rightarrow> nat" where
  "maxmaxsize lenbytes =
     (if lenbytes \<ge> 8 \<or> lenbytes = 0 then SIZE_MAX else 2 ^ (lenbytes * 8) - 1 + lenbytes)"

text \<open>Set the \<^verbatim>\<open>packet_len\<close> of the innermost sub-packet.\<close>

definition set_packet_len :: "nat \<Rightarrow> wpacket \<Rightarrow> wpacket" where
  "set_packet_len off pkt =
     pkt\<lparr>wp_subs := (case wp_subs pkt of [] \<Rightarrow> [] | s # ss \<Rightarrow> s\<lparr>sub_packet_len := off\<rparr> # ss)\<rparr>"

definition wpacket_intern_init_len :: "allocator \<Rightarrow> bool \<Rightarrow> wpacket \<Rightarrow> nat \<Rightarrow> unit wres" where
  "wpacket_intern_init_len alloc ok pkt lenbytes =
     (let pkt = pkt\<lparr>wp_curr := 0, wp_written := 0\<rparr>;
          zsub = \<lparr>sub_packet_len = 0, sub_lenbytes = 0, sub_pwritten = 0, sub_flags = 0\<rparr>
      in if \<not> ok then Done (None, pkt\<lparr>wp_subs := []\<rparr>)
         else if lenbytes = 0 then Done (Some (), pkt\<lparr>wp_subs := [zsub]\<rparr>)
         else
           let pkt = pkt\<lparr>wp_subs := [zsub\<lparr>sub_pwritten := lenbytes, sub_lenbytes := lenbytes\<rparr>]\<rparr>
           in and_then (WPACKET_allocate_bytes alloc pkt lenbytes) (\<lambda>(r, pkt).
                case r of None \<Rightarrow> Done (None, pkt\<lparr>wp_subs := []\<rparr>)
                | Some lenchars \<Rightarrow> Done (Some (), set_packet_len lenchars pkt)))"

definition WPACKET_init_static_len ::
  "allocator \<Rightarrow> bool \<Rightarrow> wpacket \<Rightarrow> byte list option \<Rightarrow> nat \<Rightarrow> nat \<Rightarrow> unit wres" where
  "WPACKET_init_static_len alloc ok pkt buf len lenbytes =
     (let max = maxmaxsize lenbytes
      in if \<not> (buf \<noteq> None \<and> len > 0) then Done (None, pkt)
         else wpacket_intern_init_len alloc ok
           (pkt\<lparr>wp_staticbuf := buf, wp_buf := None, wp_maxsize := (if max < len then max else len)\<rparr>) lenbytes)"

definition WPACKET_init_len :: "allocator \<Rightarrow> bool \<Rightarrow> wpacket \<Rightarrow> buf_mem option \<Rightarrow> nat \<Rightarrow> unit wres" where
  "WPACKET_init_len alloc ok pkt buf lenbytes =
     (if buf = None then Done (None, pkt)
      else wpacket_intern_init_len alloc ok
        (pkt\<lparr>wp_staticbuf := None, wp_buf := buf, wp_maxsize := maxmaxsize lenbytes\<rparr>) lenbytes)"

definition WPACKET_init :: "allocator \<Rightarrow> bool \<Rightarrow> wpacket \<Rightarrow> buf_mem option \<Rightarrow> unit wres" where
  "WPACKET_init alloc ok pkt buf = WPACKET_init_len alloc ok pkt buf 0"

definition WPACKET_set_flags :: "wpacket \<Rightarrow> u32 \<Rightarrow> unit wres" where
  "WPACKET_set_flags pkt flags =
     (case wp_subs pkt of [] \<Rightarrow> Done (None, pkt)
      | s # ss \<Rightarrow> Done (Some (), pkt\<lparr>wp_subs := s\<lparr>sub_flags := flags\<rparr> # ss\<rparr>))"

text \<open>\<^verbatim>\<open>put_value\<close> stores from the last byte to the first and reports whether the value fitted.\<close>

fun put_value :: "byte list \<Rightarrow> nat \<Rightarrow> nat \<Rightarrow> nat \<Rightarrow> (bool \<times> byte list) outcome" where
  "put_value blk data v 0 = Done (\<not> v > 0, blk)"
| "put_value blk data v (Suc len) =
     (if data + len < length blk
      then put_value (blk[data + len := of_nat (v AND 0xff)]) data (drop_bit 8 v) len else Fault)"

definition put_value_at :: "wpacket \<Rightarrow> nat \<Rightarrow> nat \<Rightarrow> nat \<Rightarrow> unit wres" where
  "put_value_at pkt off v len =
     (case GETBUF pkt of None \<Rightarrow> Fault
      | Some d \<Rightarrow> and_then (put_value d off v len) (\<lambda>(ok, d).
          Done (if ok then Some () else None, set_block pkt d)))"

definition wpacket_intern_close :: "wpacket \<Rightarrow> wpacket_sub \<Rightarrow> bool \<Rightarrow> unit wres" where
  "wpacket_intern_close pkt sub doclose =
     (let packlen = usub (wp_written pkt) (sub_pwritten sub);
          abandon = packlen = 0 \<and> flag (sub_flags sub) WPACKET_FLAGS_ABANDON_ON_ZERO_LENGTH
      in if packlen = 0 \<and> flag (sub_flags sub) WPACKET_FLAGS_NON_ZERO_LENGTH then Done (None, pkt)
         else if abandon \<and> \<not> doclose then Done (None, pkt)
         else
           let pkt' = (if abandon \<and> usub (wp_curr pkt) (sub_lenbytes sub) = sub_packet_len sub
                       then pkt\<lparr>wp_written := usub (wp_written pkt) (sub_lenbytes sub),
                                wp_curr := usub (wp_curr pkt) (sub_lenbytes sub)\<rparr>
                       else pkt);
               sub = (if abandon then sub\<lparr>sub_packet_len := 0, sub_lenbytes := 0\<rparr> else sub)
           in wthen (if sub_lenbytes sub > 0
                     then put_value_at pkt' (sub_packet_len sub) packlen (sub_lenbytes sub)
                     else Done (Some (), pkt'))
                (\<lambda>_ pkt. Done (Some (), if doclose then pkt\<lparr>wp_subs := tl (wp_subs pkt)\<rparr> else pkt)))"

fun fill_loop :: "wpacket \<Rightarrow> wpacket_sub list \<Rightarrow> unit wres" where
  "fill_loop pkt [] = Done (Some (), pkt)"
| "fill_loop pkt (sub # parents) =
     wthen (wpacket_intern_close pkt sub False) (\<lambda>_ pkt. fill_loop pkt parents)"

definition WPACKET_fill_lengths :: "wpacket \<Rightarrow> unit wres" where
  "WPACKET_fill_lengths pkt = (if wp_subs pkt = [] then Done (None, pkt) else fill_loop pkt (wp_subs pkt))"

definition WPACKET_close :: "wpacket \<Rightarrow> unit wres" where
  "WPACKET_close pkt =
     (case wp_subs pkt of sub # _ # _ \<Rightarrow> wpacket_intern_close pkt sub True | _ \<Rightarrow> Done (None, pkt))"

definition WPACKET_finish :: "wpacket \<Rightarrow> unit wres" where
  "WPACKET_finish pkt =
     (case wp_subs pkt of
        [sub] \<Rightarrow> wthen (wpacket_intern_close pkt sub True) (\<lambda>_ pkt. Done (Some (), pkt\<lparr>wp_subs := []\<rparr>))
      | _ \<Rightarrow> Done (None, pkt))"

definition WPACKET_start_sub_packet_len :: "allocator \<Rightarrow> bool \<Rightarrow> wpacket \<Rightarrow> nat \<Rightarrow> unit wres" where
  "WPACKET_start_sub_packet_len alloc ok pkt lenbytes =
     (if wp_subs pkt = [] then Done (None, pkt)
      else if \<not> ok then Done (None, pkt)
      else
        let sub = \<lparr>sub_packet_len = 0, sub_lenbytes = lenbytes,
                   sub_pwritten = uadd (wp_written pkt) lenbytes, sub_flags = 0\<rparr>;
            pkt = pkt\<lparr>wp_subs := sub # wp_subs pkt\<rparr>
        in if lenbytes = 0 then Done (Some (), pkt)
           else wthen (WPACKET_allocate_bytes alloc pkt lenbytes)
                  (\<lambda>lenchars pkt. Done (Some (), set_packet_len lenchars pkt)))"

definition WPACKET_start_sub_packet :: "allocator \<Rightarrow> bool \<Rightarrow> wpacket \<Rightarrow> unit wres" where
  "WPACKET_start_sub_packet alloc ok pkt = WPACKET_start_sub_packet_len alloc ok pkt 0"

definition WPACKET_put_bytes :: "allocator \<Rightarrow> wpacket \<Rightarrow> u32 \<Rightarrow> nat \<Rightarrow> unit wres" where
  "WPACKET_put_bytes alloc pkt val siz =
     (if \<not> siz \<le> 4 then Done (None, pkt)
      else wthen (WPACKET_allocate_bytes alloc pkt siz) (\<lambda>data pkt. put_value_at pkt data (unat val) siz))"

definition WPACKET_set_max_size :: "wpacket \<Rightarrow> nat \<Rightarrow> unit wres" where
  "WPACKET_set_max_size pkt maxsize =
     (if wp_subs pkt = [] then Done (None, pkt)
      else
        let lenbytes = sub_lenbytes (last (wp_subs pkt));
            lenbytes = (if lenbytes = 0 then 8 else lenbytes)
        in if maxmaxsize lenbytes < maxsize \<or> maxsize < wp_written pkt then Done (None, pkt)
           else Done (Some (), pkt\<lparr>wp_maxsize := maxsize\<rparr>))"

definition WPACKET_memset :: "allocator \<Rightarrow> wpacket \<Rightarrow> byte \<Rightarrow> nat \<Rightarrow> unit wres" where
  "WPACKET_memset alloc pkt ch len =
     (if len = 0 then Done (Some (), pkt)
      else wthen (WPACKET_allocate_bytes alloc pkt len) (\<lambda>dest pkt. wp_store pkt dest (replicate len ch)))"

definition WPACKET_memcpy :: "allocator \<Rightarrow> wpacket \<Rightarrow> byte list \<Rightarrow> nat \<Rightarrow> unit wres" where
  "WPACKET_memcpy alloc pkt src len =
     (if len = 0 then Done (Some (), pkt)
      else wthen (WPACKET_allocate_bytes alloc pkt len) (\<lambda>dest pkt.
        if length src < len then Fault else wp_store pkt dest (take len src)))"

definition WPACKET_sub_memcpy :: "allocator \<Rightarrow> bool \<Rightarrow> wpacket \<Rightarrow> byte list \<Rightarrow> nat \<Rightarrow> nat \<Rightarrow> unit wres" where
  "WPACKET_sub_memcpy alloc ok pkt src len lenbytes =
     wthen (WPACKET_start_sub_packet_len alloc ok pkt lenbytes) (\<lambda>_ pkt.
       wthen (WPACKET_memcpy alloc pkt src len) (\<lambda>_ pkt. WPACKET_close pkt))"

definition WPACKET_sub_allocate_bytes :: "allocator \<Rightarrow> bool \<Rightarrow> wpacket \<Rightarrow> nat \<Rightarrow> nat \<Rightarrow> nat wres" where
  "WPACKET_sub_allocate_bytes alloc ok pkt len lenbytes =
     wthen (WPACKET_start_sub_packet_len alloc ok pkt lenbytes) (\<lambda>_ pkt.
       wthen (WPACKET_allocate_bytes alloc pkt len) (\<lambda>p pkt.
         wthen (WPACKET_close pkt) (\<lambda>_ pkt. Done (Some p, pkt))))"

definition WPACKET_get_total_written :: "wpacket \<Rightarrow> nat wres" where
  "WPACKET_get_total_written pkt = Done (Some (wp_written pkt), pkt)"

definition WPACKET_get_length :: "wpacket \<Rightarrow> nat wres" where
  "WPACKET_get_length pkt =
     (case wp_subs pkt of [] \<Rightarrow> Done (None, pkt)
      | sub # _ \<Rightarrow> Done (Some (usub (wp_written pkt) (sub_pwritten sub)), pkt))"

definition WPACKET_cleanup :: "wpacket \<Rightarrow> wpacket" where
  "WPACKET_cleanup pkt = pkt\<lparr>wp_subs := []\<rparr>"

subsection \<open>Invariant\<close>

text \<open>\<open>wp_core\<close> is about the block: both offsets agree, the limit is respected, and the written bytes lie
  inside the block; a limit on a fixed block is within it.  \<open>subs_ok\<close> says that the open sub-packets
  are nested: each starts behind the length bytes of its parent and its own length bytes
  directly precede its contents.\<close>

definition wp_core :: "wpacket \<Rightarrow> bool" where
  "wp_core pkt \<longleftrightarrow>
     wp_curr pkt = wp_written pkt \<and> wp_written pkt \<le> wp_maxsize pkt \<and> wp_maxsize pkt \<le> SIZE_MAX \<and>
     (case wp_staticbuf pkt of Some b \<Rightarrow> wp_maxsize pkt \<le> length b
      | None \<Rightarrow> (case wp_buf pkt of None \<Rightarrow> False
                 | Some buf \<Rightarrow> buf_wf buf \<and> wp_written pkt \<le> buf_length buf \<and> buf_length buf \<le> SIZE_MAX))"

fun subs_ok :: "nat \<Rightarrow> wpacket_sub list \<Rightarrow> bool" where
  "subs_ok lim [] = True"
| "subs_ok lim (s # ss) \<longleftrightarrow>
     sub_pwritten s \<le> lim \<and> sub_lenbytes s \<le> sub_pwritten s \<and>
     (0 < sub_lenbytes s \<longrightarrow> sub_packet_len s = sub_pwritten s - sub_lenbytes s) \<and>
     subs_ok (sub_pwritten s - sub_lenbytes s) ss"

definition wp_wf :: "wpacket \<Rightarrow> bool" where
  "wp_wf pkt \<longleftrightarrow> wp_core pkt \<and> subs_ok (wp_written pkt) (wp_subs pkt)"

definition wp_bytes :: "wpacket \<Rightarrow> byte list" where
  "wp_bytes pkt = (case GETBUF pkt of None \<Rightarrow> [] | Some d \<Rightarrow> take (wp_written pkt) d)"

text \<open>The results of a run that did not fault: nothing is claimed about a packet left behind by a
  failure, which the callers clean up.\<close>

definition ensures :: "'r wres \<Rightarrow> ('r \<Rightarrow> wpacket \<Rightarrow> bool) \<Rightarrow> bool" where
  "ensures r P =
     (case r of Fault \<Rightarrow> False | Fails \<Rightarrow> False
      | Done (v, pkt) \<Rightarrow> (case v of None \<Rightarrow> True | Some x \<Rightarrow> P x pkt))"

lemma ensures_simps [simp]:
  "ensures (Done (Some v, pkt)) P \<longleftrightarrow> P v pkt" "ensures (Done (None, pkt)) P" "\<not> ensures Fault P"
  by (simp_all add: ensures_def)

lemma ensures_wthen:
  assumes "ensures r Q" and "\<And>v pkt. Q v pkt \<Longrightarrow> ensures (f v pkt) P"
  shows "ensures (wthen r f) P"
proof (cases r)
  case (Done x)
  with assms show ?thesis by (cases x; cases "fst x") (auto simp: wthen_def)
qed (use assms(1) in \<open>simp_all add: ensures_def\<close>)

lemma ensures_mono: "ensures r Q \<Longrightarrow> (\<And>v pkt. Q v pkt \<Longrightarrow> P v pkt) \<Longrightarrow> ensures r P"
  by (auto simp: ensures_def split: outcome.splits option.splits)

lemma subs_ok_mono: "subs_ok lim ss \<Longrightarrow> lim \<le> lim' \<Longrightarrow> subs_ok lim' ss"
  by (cases ss) auto

subsection \<open>The block\<close>

lemma GETBUF_update [simp]:
  "GETBUF (p\<lparr>wp_written := n\<rparr>) = GETBUF p" "GETBUF (p\<lparr>wp_curr := n\<rparr>) = GETBUF p"
  "GETBUF (p\<lparr>wp_subs := ss\<rparr>) = GETBUF p" "GETBUF (p\<lparr>wp_maxsize := n\<rparr>) = GETBUF p"
  by (simp_all add: GETBUF_def cong: option.case_cong)

lemma wp_core_update [simp]: "wp_core (p\<lparr>wp_subs := ss\<rparr>) = wp_core p"
  by (simp add: wp_core_def cong: option.case_cong)

lemma wp_bytes_update [simp]: "wp_bytes (p\<lparr>wp_subs := ss\<rparr>) = wp_bytes p"
  by (simp add: wp_bytes_def cong: option.case_cong)

lemma wp_core_block:
  assumes "wp_core pkt"
  obtains d where "GETBUF pkt = Some d" "wp_written pkt \<le> length d"
    | "GETBUF pkt = None" "wp_written pkt = 0"
  using assms by (auto simp: wp_core_def GETBUF_def buf_wf_def split: option.splits)

lemma length_wp_bytes [simp]: "wp_core pkt \<Longrightarrow> length (wp_bytes pkt) = wp_written pkt"
  by (erule wp_core_block) (simp_all add: wp_bytes_def)

lemma set_block_spec:
  assumes "wp_core pkt" and "GETBUF pkt = Some d" and "length d' = length d"
  shows "wp_core (set_block pkt d')" and "GETBUF (set_block pkt d') = Some d'"
    and "wp_written (set_block pkt d') = wp_written pkt" and "wp_subs (set_block pkt d') = wp_subs pkt"
    and "wp_maxsize (set_block pkt d') = wp_maxsize pkt"
    and "(wp_staticbuf (set_block pkt d') = None) = (wp_staticbuf pkt = None)"
  using assms by (auto simp: wp_core_def set_block_def GETBUF_def buf_wf_def split: option.splits)

lemma wp_bytes_buf:
  assumes "wp_staticbuf pkt = None" and "wp_buf pkt = Some buf" and "wp_written pkt \<le> buf_length buf"
  shows "wp_bytes pkt = take (wp_written pkt) (buf_contents buf)"
  using assms by (auto simp: wp_bytes_def GETBUF_def buf_contents_def min_def split: option.splits)

lemma buf_block: "buf_wf buf \<Longrightarrow> 0 < buf_length buf \<Longrightarrow> \<exists>d. buf_data buf = Some d \<and> buf_length buf \<le> length d"
  by (auto simp: buf_wf_def split: option.splits)

lemma grow_room:
  assumes "alloc_ok alloc" and "buf_wf buf" and "w \<le> buf_length buf" and "w + len \<le> SIZE_MAX"
    and "reflen = (if len > buf_length buf then len else buf_length buf)"
    and "newlen = (if reflen > SIZE_MAX div 2 then SIZE_MAX
                   else if reflen * 2 < DEFAULT_BUF_SIZE then DEFAULT_BUF_SIZE else reflen * 2)"
    and "BUF_MEM_grow alloc buf newlen = (r, buf')" and "r \<noteq> 0" and "buf_length buf \<le> SIZE_MAX"
  shows "buf_wf buf'" "w + len \<le> buf_length buf'" "buf_length buf' \<le> SIZE_MAX"
    "take w (buf_contents buf') = take w (buf_contents buf)"
proof -
  note g = bg.grow_success [OF assms(1,2,7,8)]
  have "buf_length buf \<le> newlen" "w + len \<le> newlen" "newlen \<le> SIZE_MAX"
    using assms(3-6,9) by (auto split: if_splits)
  with g assms(2,3) show "buf_wf buf'" "w + len \<le> buf_length buf'" "buf_length buf' \<le> SIZE_MAX"
    "take w (buf_contents buf') = take w (buf_contents buf)"
    by (simp_all add: min_def)
qed

lemma reserve_bytes_spec:
  assumes core: "wp_core pkt" and ok: "alloc_ok alloc"
  shows "ensures (WPACKET_reserve_bytes alloc pkt len) (\<lambda>p pkt'.
    p = wp_written pkt \<and> wp_core pkt' \<and> pkt' = pkt\<lparr>wp_buf := wp_buf pkt'\<rparr> \<and> wp_bytes pkt' = wp_bytes pkt \<and>
    wp_written pkt + len \<le> wp_maxsize pkt \<and> wp_subs pkt \<noteq> [] \<and> 0 < len \<and>
    (\<exists>d. GETBUF pkt' = Some d \<and> wp_written pkt + len \<le> length d) \<and>
    (wp_staticbuf pkt = None \<longrightarrow> (\<exists>buf. wp_buf pkt' = Some buf \<and> wp_written pkt + len \<le> buf_length buf)))"
proof (cases "\<not> (wp_subs pkt \<noteq> [] \<and> len \<noteq> 0) \<or> usub (wp_maxsize pkt) (wp_written pkt) < len")
  case True
  then show ?thesis by (auto simp: WPACKET_reserve_bytes_def)
next
  case False
  have lim: "wp_written pkt + len \<le> wp_maxsize pkt"
    using False core usub_le [of "wp_written pkt" "wp_maxsize pkt"] by (auto simp: wp_core_def)
  show ?thesis
  proof (cases "wp_staticbuf pkt")
    case (Some b)
    with False core lim show ?thesis
      by (auto simp: WPACKET_reserve_bytes_def WPACKET_get_curr_def wp_core_def GETBUF_def)
  next
    case None
    with core obtain buf where buf: "wp_buf pkt = Some buf" "buf_wf buf" "wp_written pkt \<le> buf_length buf"
        "buf_length buf \<le> SIZE_MAX"
      by (auto simp: wp_core_def split: option.splits)
    have u: "usub (buf_length buf) (wp_written pkt) = buf_length buf - wp_written pkt"
      using buf by (intro usub_le) auto
    show ?thesis
    proof (cases "buf_length buf - wp_written pkt < len")
      case fits: False
      then have "0 < buf_length buf" "wp_written pkt + len \<le> buf_length buf" using False buf(3) by auto
      then obtain d where "buf_data buf = Some d" "wp_written pkt + len \<le> length d"
        using buf_block [OF buf(2)] by fastforce
      with fits False None buf core lim u show ?thesis
        by (auto simp: WPACKET_reserve_bytes_def WPACKET_get_curr_def wp_core_def GETBUF_def)
    next
      case True
      let ?reflen = "if len > buf_length buf then len else buf_length buf"
      let ?newlen = "if ?reflen > SIZE_MAX div 2 then SIZE_MAX
          else if ?reflen * 2 < DEFAULT_BUF_SIZE then DEFAULT_BUF_SIZE else ?reflen * 2"
      obtain r buf' where g: "BUF_MEM_grow alloc buf ?newlen = (r, buf')" by fastforce
      have eq: "WPACKET_reserve_bytes alloc pkt len =
          (if r = 0 then Done (None, pkt\<lparr>wp_buf := Some buf'\<rparr>)
           else Done (Some (wp_curr pkt), pkt\<lparr>wp_buf := Some buf'\<rparr>))"
        using False None buf(1) True u g by (simp add: WPACKET_reserve_bytes_def WPACKET_get_curr_def Let_def)
      show ?thesis
      proof (cases "r = 0")
        case r: False
        have "wp_written pkt + len \<le> SIZE_MAX" using lim core by (simp add: wp_core_def)
        note gr = grow_room [OF ok buf(2,3) this refl refl g r buf(4)]
        obtain d where d: "buf_data buf' = Some d" "wp_written pkt + len \<le> length d"
          using buf_block [OF gr(1)] gr(2) False by fastforce
        have "wp_bytes (pkt\<lparr>wp_buf := Some buf'\<rparr>) = wp_bytes pkt"
          using wp_bytes_buf [of "pkt\<lparr>wp_buf := Some buf'\<rparr>" buf'] wp_bytes_buf [OF None buf(1,3)] None gr by simp
        with r eq None gr d core lim False show ?thesis by (auto simp: wp_core_def GETBUF_def)
      qed (simp add: eq)
    qed
  qed
qed

lemma allocate_bytes_spec:
  assumes core: "wp_core pkt" and ok: "alloc_ok alloc"
  shows "ensures (WPACKET_allocate_bytes alloc pkt len) (\<lambda>p pkt'.
    p = wp_written pkt \<and> wp_core pkt' \<and> wp_written pkt' = wp_written pkt + len \<and> wp_subs pkt' = wp_subs pkt \<and>
    wp_maxsize pkt' = wp_maxsize pkt \<and> (wp_staticbuf pkt' = None) = (wp_staticbuf pkt = None) \<and>
    take (wp_written pkt) (wp_bytes pkt') = wp_bytes pkt \<and> wp_subs pkt \<noteq> [] \<and> 0 < len \<and>
    (\<exists>d. GETBUF pkt' = Some d \<and> wp_written pkt' \<le> length d))"
  unfolding WPACKET_allocate_bytes_def
proof (rule ensures_wthen [OF reserve_bytes_spec [OF assms]], goal_cases)
  case (1 p pkt')
  then have p: "p = wp_written pkt" "wp_core pkt'" "pkt' = pkt\<lparr>wp_buf := wp_buf pkt'\<rparr>" "wp_bytes pkt' = wp_bytes pkt"
    and lim: "wp_written pkt + len \<le> wp_maxsize pkt" "wp_subs pkt \<noteq> []" "0 < len"
    and st: "wp_staticbuf pkt = None \<longrightarrow> (\<exists>buf. wp_buf pkt' = Some buf \<and> wp_written pkt + len \<le> buf_length buf)"
    by auto
  from 1 obtain d where d: "GETBUF pkt' = Some d" "wp_written pkt + len \<le> length d" by auto
  let ?q = "pkt'\<lparr>wp_written := uadd (wp_written pkt') len, wp_curr := uadd (wp_curr pkt') len\<rparr>"
  have flds: "wp_written pkt' = wp_written pkt" "wp_subs pkt' = wp_subs pkt" "wp_maxsize pkt' = wp_maxsize pkt"
    "wp_staticbuf pkt' = wp_staticbuf pkt" "wp_curr pkt' = wp_written pkt"
    using p(2,3) by (auto simp: wp_core_def) (metis wpacket.select_convs wpacket.surjective wpacket.update_convs)+
  have u: "uadd (wp_written pkt) len = wp_written pkt + len"
    using lim core by (intro uadd_fits) (simp add: wp_core_def)
  have "wp_core ?q" using p(2) st lim flds u by (auto simp: wp_core_def split: option.splits)
  moreover have "GETBUF ?q = Some d" using d by simp
  moreover have "take (wp_written pkt) (wp_bytes ?q) = wp_bytes pkt"
    using p(4) d flds u by (simp add: wp_bytes_def min_def)
  ultimately show ?case using p(1) flds u lim d by simp
qed

lemma be_bytes_overwrite:
  "overwrite data (be_bytes len (v div 256)) (blk[data + len := of_nat v]) =
    overwrite data (be_bytes (Suc len) v) blk" if "data + len < length blk"
  using that by (simp add: overwrite_def upd_conv_take_nth_drop min_def)

lemma put_value_spec:
  "data + len \<le> length blk \<Longrightarrow>
    put_value blk data v len = Done (v < 256 ^ len, overwrite data (be_bytes len v) blk)"
proof (induction len arbitrary: v blk)
  case 0
  then show ?case by (simp add: overwrite_def)
next
  case (Suc len)
  have "v AND 255 = take_bit 8 v" by (simp add: take_bit_eq_mask mask_eq_exp_minus_1)
  then have "(of_nat (v AND 255) :: byte) = of_nat v" by (simp add: word_of_nat_eq_iff)
  moreover have "drop_bit 8 v = v div 256" by (simp add: drop_bit_eq_div)
  moreover have "v div 256 < 256 ^ len \<longleftrightarrow> v < 256 ^ Suc len" by (simp add: div_less_iff_less_mult mult.commute)
  ultimately show ?case using Suc by (simp add: be_bytes_overwrite del: be_bytes.simps power_Suc)
qed

subsection \<open>Appending\<close>

text \<open>\<open>extends pkt bs pkt'\<close>: the packet \<open>pkt'\<close> is \<open>pkt\<close> with the bytes \<open>bs\<close> appended; the open
  sub-packets and the limit are the same.\<close>

definition extends :: "wpacket \<Rightarrow> byte list \<Rightarrow> wpacket \<Rightarrow> bool" where
  "extends pkt bs pkt' \<longleftrightarrow> wp_wf pkt' \<and> wp_subs pkt' = wp_subs pkt \<and> wp_maxsize pkt' = wp_maxsize pkt \<and>
     (wp_staticbuf pkt' = None) = (wp_staticbuf pkt = None) \<and> wp_bytes pkt' = wp_bytes pkt @ bs"

lemma extends_refl: "wp_wf pkt \<Longrightarrow> extends pkt [] pkt"
  by (simp add: extends_def)

lemma extends_trans: "extends p xs q \<Longrightarrow> extends q ys r \<Longrightarrow> extends p (xs @ ys) r"
  by (simp add: extends_def)

lemma extends_written:
  assumes "wp_core pkt" and "extends pkt bs pkt'"
  shows "wp_written pkt' = wp_written pkt + length bs"
  using assms length_wp_bytes [of pkt'] length_wp_bytes [of pkt]
  by (simp add: extends_def wp_wf_def del: length_wp_bytes)

lemma store_allocated:
  assumes wf: "wp_wf pkt" and q: "wp_core q" "wp_written q = wp_written pkt + length bs" "wp_subs q = wp_subs pkt"
      "wp_maxsize q = wp_maxsize pkt" "take (wp_written pkt) (wp_bytes q) = wp_bytes pkt"
      "(wp_staticbuf q = None) = (wp_staticbuf pkt = None)"
    and d: "GETBUF q = Some d" "wp_written q \<le> length d"
  shows "extends pkt bs (set_block q (overwrite (wp_written pkt) bs d))"
proof -
  have "length (overwrite (wp_written pkt) bs d) = length d" using q(2) d(2) by simp
  note sb = set_block_spec [OF q(1) d(1) this]
  have "take (wp_written pkt + length bs) (overwrite (wp_written pkt) bs d) = take (wp_written pkt) d @ bs"
    using q(2) d(2) by (simp add: overwrite_def)
  moreover have "take (wp_written pkt) d = wp_bytes pkt"
    using q(2,5) d(1) by (simp add: wp_bytes_def min_def)
  ultimately have "wp_bytes (set_block q (overwrite (wp_written pkt) bs d)) = wp_bytes pkt @ bs"
    using sb q(2) by (simp add: wp_bytes_def)
  with sb q wf show ?thesis by (auto simp: extends_def wp_wf_def intro: subs_ok_mono)
qed

lemma wp_store_allocated:
  assumes wf: "wp_wf pkt" and ok: "alloc_ok alloc"
  shows "ensures (wthen (WPACKET_allocate_bytes alloc pkt (length bs)) (\<lambda>dest pkt. wp_store pkt dest bs))
    (\<lambda>_. extends pkt bs)"
proof (rule ensures_wthen [OF allocate_bytes_spec])
  show "wp_core pkt" using wf by (simp add: wp_wf_def)
next
  fix p q
  assume q: "p = wp_written pkt \<and> wp_core q \<and> wp_written q = wp_written pkt + length bs \<and> wp_subs q = wp_subs pkt \<and>
    wp_maxsize q = wp_maxsize pkt \<and> (wp_staticbuf q = None) = (wp_staticbuf pkt = None) \<and>
    take (wp_written pkt) (wp_bytes q) = wp_bytes pkt \<and> wp_subs pkt \<noteq> [] \<and> 0 < length bs \<and>
    (\<exists>d. GETBUF q = Some d \<and> wp_written q \<le> length d)"
  then obtain d where d: "GETBUF q = Some d" "wp_written q \<le> length d" by blast
  with q show "ensures (wp_store q p bs) (\<lambda>_. extends pkt bs)"
    using store_allocated [OF wf, of q bs d] by (simp add: wp_store_def)
qed (rule ok)

lemma memcpy_spec:
  assumes "wp_wf pkt" and "alloc_ok alloc" and "len \<le> length src"
  shows "ensures (WPACKET_memcpy alloc pkt src len) (\<lambda>_. extends pkt (take len src))"
  using wp_store_allocated [OF assms(1,2), of "take len src"] assms extends_refl [OF assms(1)]
  by (simp add: WPACKET_memcpy_def min_absorb2)

lemma memset_spec:
  assumes "wp_wf pkt" and "alloc_ok alloc"
  shows "ensures (WPACKET_memset alloc pkt ch len) (\<lambda>_. extends pkt (replicate len ch))"
  using wp_store_allocated [OF assms, of "replicate len ch"] assms extends_refl [OF assms(1)]
  by (simp add: WPACKET_memset_def)

lemma put_bytes_spec:
  assumes wf: "wp_wf pkt" and ok: "alloc_ok alloc"
  shows "ensures (WPACKET_put_bytes alloc pkt val siz)
    (\<lambda>_ pkt'. extends pkt (be_bytes siz (unat val)) pkt' \<and> unat val < 256 ^ siz \<and> 0 < siz \<and> siz \<le> 4)"
proof (cases "siz \<le> 4")
  case True
  have "ensures (wthen (WPACKET_allocate_bytes alloc pkt siz) (\<lambda>data pkt. put_value_at pkt data (unat val) siz))
    (\<lambda>_ pkt'. extends pkt (be_bytes siz (unat val)) pkt' \<and> unat val < 256 ^ siz \<and> 0 < siz \<and> siz \<le> 4)"
  proof (rule ensures_wthen [OF allocate_bytes_spec])
    show "wp_core pkt" using wf by (simp add: wp_wf_def)
  next
    fix p q
    assume q: "p = wp_written pkt \<and> wp_core q \<and> wp_written q = wp_written pkt + siz \<and> wp_subs q = wp_subs pkt \<and>
      wp_maxsize q = wp_maxsize pkt \<and> (wp_staticbuf q = None) = (wp_staticbuf pkt = None) \<and>
      take (wp_written pkt) (wp_bytes q) = wp_bytes pkt \<and> wp_subs pkt \<noteq> [] \<and> 0 < siz \<and>
      (\<exists>d. GETBUF q = Some d \<and> wp_written q \<le> length d)"
    then obtain d where d: "GETBUF q = Some d" "wp_written q \<le> length d" by blast
    with q show "ensures (put_value_at q p (unat val) siz)
        (\<lambda>_ pkt'. extends pkt (be_bytes siz (unat val)) pkt' \<and> unat val < 256 ^ siz \<and> 0 < siz \<and> siz \<le> 4)"
      using store_allocated [OF wf, of q "be_bytes siz (unat val)" d]
      by (simp add: put_value_at_def put_value_spec True)
  qed (rule ok)
  with True show ?thesis by (simp add: WPACKET_put_bytes_def)
qed (simp add: WPACKET_put_bytes_def)

subsection \<open>Sub-packets\<close>

text \<open>What the innermost sub-packet \<open>s\<close> turns into when it is closed: the bytes before its length
  field, the length field, the contents.\<close>

lemma close_abandon:
  assumes wf: "wp_wf pkt" and subs: "wp_subs pkt = s # ss"
    and e: "wp_written pkt = sub_pwritten s" "flag (sub_flags s) WPACKET_FLAGS_ABANDON_ON_ZERO_LENGTH"
  shows "ensures (wpacket_intern_close pkt s True) (\<lambda>_ pkt'.
    wp_wf pkt' \<and> wp_subs pkt' = ss \<and> wp_maxsize pkt' = wp_maxsize pkt \<and>
    (wp_staticbuf pkt' = None) = (wp_staticbuf pkt = None) \<and>
    \<not> flag (sub_flags s) WPACKET_FLAGS_NON_ZERO_LENGTH \<and>
    wp_bytes pkt' = take (sub_pwritten s - sub_lenbytes s) (wp_bytes pkt))"
proof -
  have c: "wp_core pkt" "wp_curr pkt = sub_pwritten s" "sub_lenbytes s \<le> sub_pwritten s" "sub_pwritten s \<le> SIZE_MAX"
    "0 < sub_lenbytes s \<longrightarrow> sub_packet_len s = sub_pwritten s - sub_lenbytes s"
    "subs_ok (sub_pwritten s - sub_lenbytes s) ss"
    using wf subs e(1) by (auto simp: wp_wf_def wp_core_def)
  let ?w = "sub_pwritten s - sub_lenbytes s"
  have u: "usub (wp_written pkt) (sub_pwritten s) = 0" "usub (sub_pwritten s) (sub_lenbytes s) = ?w"
    using c e(1) by simp_all
  show ?thesis
  proof (cases "flag (sub_flags s) WPACKET_FLAGS_NON_ZERO_LENGTH")
    case False
    have core: "wp_core (pkt\<lparr>wp_written := ?w, wp_curr := ?w\<rparr>)"
      using c(1-3) e(1) by (auto simp: wp_core_def split: option.splits)
    have "wp_bytes (pkt\<lparr>wp_written := ?w, wp_curr := ?w\<rparr>) = take ?w (wp_bytes pkt)"
      using e(1) by (simp add: wp_bytes_def min_def split: option.splits)
    moreover have "pkt\<lparr>wp_written := ?w, wp_curr := ?w\<rparr> = pkt" if "sub_lenbytes s = 0"
      using that c(2) e(1) by simp
    ultimately show ?thesis
      using False u c e subs core
      by (cases "sub_lenbytes s = 0") (auto simp: wpacket_intern_close_def Let_def wthen_def wp_wf_def)
  qed (use e u in \<open>simp add: wpacket_intern_close_def Let_def\<close>)
qed

lemma close_length:
  assumes wf: "wp_wf pkt" and subs: "wp_subs pkt = s # ss" and n: "n = wp_written pkt - sub_pwritten s"
    and e: "\<not> (n = 0 \<and> flag (sub_flags s) WPACKET_FLAGS_ABANDON_ON_ZERO_LENGTH)"
  shows "ensures (wpacket_intern_close pkt s True) (\<lambda>_ pkt'.
    wp_wf pkt' \<and> wp_subs pkt' = ss \<and> wp_maxsize pkt' = wp_maxsize pkt \<and>
    (wp_staticbuf pkt' = None) = (wp_staticbuf pkt = None) \<and>
    (0 < sub_lenbytes s \<longrightarrow> n < 256 ^ sub_lenbytes s) \<and>
    \<not> (n = 0 \<and> flag (sub_flags s) WPACKET_FLAGS_NON_ZERO_LENGTH) \<and>
    wp_bytes pkt' = overwrite (sub_pwritten s - sub_lenbytes s) (be_bytes (sub_lenbytes s) n) (wp_bytes pkt))"
proof -
  have c: "wp_core pkt" "sub_lenbytes s \<le> sub_pwritten s" "sub_pwritten s \<le> wp_written pkt" "wp_written pkt \<le> SIZE_MAX"
    "0 < sub_lenbytes s \<longrightarrow> sub_packet_len s = sub_pwritten s - sub_lenbytes s"
    "subs_ok (sub_pwritten s - sub_lenbytes s) ss"
    using wf subs by (auto simp: wp_wf_def wp_core_def)
  then have ok: "subs_ok (wp_written pkt) ss" by (auto elim: subs_ok_mono)
  have u: "usub (wp_written pkt) (sub_pwritten s) = n" using c n by simp
  consider "n = 0 \<and> flag (sub_flags s) WPACKET_FLAGS_NON_ZERO_LENGTH"
    | (False) "\<not> (n = 0 \<and> flag (sub_flags s) WPACKET_FLAGS_NON_ZERO_LENGTH)" "sub_lenbytes s = 0"
    | (l) "\<not> (n = 0 \<and> flag (sub_flags s) WPACKET_FLAGS_NON_ZERO_LENGTH)" "sub_lenbytes s \<noteq> 0"
    by blast
  then show ?thesis
  proof cases
    case 1
    with u show ?thesis by (simp add: wpacket_intern_close_def Let_def)
  next
    case False
    with e c u ok subs show ?thesis
      by (auto simp: wpacket_intern_close_def Let_def wthen_def wp_wf_def overwrite_def)
  next
    case l
    then obtain d where d: "GETBUF pkt = Some d" "wp_written pkt \<le> length d"
      using c by (auto elim: wp_core_block [OF c(1)])
    let ?off = "sub_pwritten s - sub_lenbytes s"
    let ?d = "overwrite ?off (be_bytes (sub_lenbytes s) n) d"
    have len: "?off + sub_lenbytes s \<le> wp_written pkt" using c by simp
    then have "length ?d = length d" using d(2) by simp
    note sb = set_block_spec [OF c(1) d(1) this]
    have "take (wp_written pkt) ?d = overwrite ?off (be_bytes (sub_lenbytes s) n) (wp_bytes pkt)"
      using take_overwrite_beyond [of ?off "be_bytes (sub_lenbytes s) n"] len d by (simp add: wp_bytes_def)
    moreover have "put_value d ?off n (sub_lenbytes s) = Done (n < 256 ^ sub_lenbytes s, ?d)"
      using len d(2) by (intro put_value_spec) simp
    ultimately show ?thesis using l e c u ok subs d(1) sb
      by (auto simp: wpacket_intern_close_def Let_def wthen_def wp_wf_def put_value_at_def wp_bytes_def)
  qed
qed

text \<open>\<open>opened pkt k f q\<close>: \<open>q\<close> is \<open>pkt\<close> with a sub-packet of \<open>k\<close> length bytes and flags \<open>f\<close> opened.\<close>

definition opened :: "wpacket \<Rightarrow> nat \<Rightarrow> u32 \<Rightarrow> wpacket \<Rightarrow> bool" where
  "opened pkt k f q \<longleftrightarrow> wp_wf q \<and> wp_maxsize q = wp_maxsize pkt \<and> wp_subs pkt \<noteq> [] \<and>
     (wp_staticbuf q = None) = (wp_staticbuf pkt = None) \<and>
     (\<exists>junk s. length junk = k \<and> wp_bytes q = wp_bytes pkt @ junk \<and> wp_subs q = s # wp_subs pkt \<and>
        sub_lenbytes s = k \<and> sub_pwritten s = wp_written pkt + k \<and> sub_flags s = f)"

lemma start_sub_packet_spec:
  assumes wf: "wp_wf pkt" and ok: "alloc_ok alloc"
  shows "ensures (WPACKET_start_sub_packet_len alloc zok pkt k) (\<lambda>_. opened pkt k 0)"
proof (cases "wp_subs pkt = [] \<or> \<not> zok \<or> k = 0")
  case True
  have "uadd (wp_written pkt) 0 = wp_written pkt"
    using wf by (intro trans [OF uadd_fits]) (auto simp: wp_wf_def wp_core_def)
  with True wf show ?thesis
    by (auto simp: WPACKET_start_sub_packet_len_def opened_def wp_wf_def)
next
  case False
  let ?sub = "\<lparr>sub_packet_len = 0, sub_lenbytes = k, sub_pwritten = uadd (wp_written pkt) k, sub_flags = 0\<rparr>"
  let ?p = "pkt\<lparr>wp_subs := ?sub # wp_subs pkt\<rparr>"
  have core: "wp_core ?p" using wf by (simp add: wp_wf_def)
  have "ensures (wthen (WPACKET_allocate_bytes alloc ?p k) (\<lambda>lenchars pkt. Done (Some (), set_packet_len lenchars pkt)))
      (\<lambda>_. opened pkt k 0)"
  proof (rule ensures_wthen [OF allocate_bytes_spec [OF core ok, of k]], goal_cases)
    case (1 v q)
    then have q: "v = wp_written pkt" "wp_core q" "wp_written q = wp_written pkt + k"
      "wp_subs q = ?sub # wp_subs pkt" "wp_maxsize q = wp_maxsize pkt"
      "(wp_staticbuf q = None) = (wp_staticbuf pkt = None)" "take (wp_written pkt) (wp_bytes q) = wp_bytes pkt"
      by auto
    from q(2,3) have u: "uadd (wp_written pkt) k = wp_written pkt + k"
      by (intro uadd_fits) (auto simp: wp_core_def)
    obtain junk where "wp_bytes q = wp_bytes pkt @ junk" "length junk = k"
    proof
      show "wp_bytes q = wp_bytes pkt @ drop (wp_written pkt) (wp_bytes q)"
        using append_take_drop_id [of "wp_written pkt" "wp_bytes q"] q(7) by simp
      show "length (drop (wp_written pkt) (wp_bytes q)) = k" using q(2,3) by simp
    qed
    then show ?case using q(1-6) u False wf
      by (auto simp: opened_def set_packet_len_def wp_wf_def)
  qed
  with False show ?thesis by (simp add: WPACKET_start_sub_packet_len_def Let_def)
qed

lemma set_flags_spec: "opened pkt k 0 q \<Longrightarrow> ensures (WPACKET_set_flags q f) (\<lambda>_. opened pkt k f)"
  by (auto simp: WPACKET_set_flags_def opened_def wp_wf_def)

lemma close_spec:
  assumes core: "wp_core pkt" and o: "opened pkt k f q" and x: "extends q body r"
  shows "ensures (WPACKET_close r) (\<lambda>_ pkt'.
    extends pkt (if body = [] \<and> flag f WPACKET_FLAGS_ABANDON_ON_ZERO_LENGTH then []
                 else be_bytes k (length body) @ body) pkt' \<and>
    \<not> (body = [] \<and> flag f WPACKET_FLAGS_NON_ZERO_LENGTH) \<and>
    (0 < k \<longrightarrow> length body < 256 ^ k))"
proof -
  obtain junk s where s: "length junk = k" "wp_bytes q = wp_bytes pkt @ junk" "wp_subs q = s # wp_subs pkt"
    "sub_lenbytes s = k" "sub_pwritten s = wp_written pkt + k" "sub_flags s = f"
    using o by (auto simp: opened_def)
  obtain t ss where t: "wp_subs pkt = t # ss" using o by (cases "wp_subs pkt") (auto simp: opened_def)
  have r: "wp_wf r" "wp_subs r = s # t # ss" "wp_bytes r = wp_bytes pkt @ junk @ body" "wp_core q"
    using o x s t by (auto simp: opened_def extends_def wp_wf_def)
  have w: "wp_written r = wp_written pkt + k + length body"
    using length_wp_bytes [of r] r(1,3) core s(1) by (simp add: wp_wf_def)
  have cl: "WPACKET_close r = wpacket_intern_close r s True" by (simp add: WPACKET_close_def r(2))
  show ?thesis
  proof (cases "body = [] \<and> flag f WPACKET_FLAGS_ABANDON_ON_ZERO_LENGTH")
    case True
    then have "wp_written r = sub_pwritten s" "flag (sub_flags s) WPACKET_FLAGS_ABANDON_ON_ZERO_LENGTH"
      using w s by simp_all
    from close_abandon [OF r(1,2) this] show ?thesis unfolding cl
      by (rule ensures_mono) (use True o x s t r core in \<open>auto simp: extends_def opened_def\<close>)
  next
    case False
    have n: "length body = wp_written r - sub_pwritten s" using w s by simp
    have e: "\<not> (length body = 0 \<and> flag (sub_flags s) WPACKET_FLAGS_ABANDON_ON_ZERO_LENGTH)"
      using False s by simp
    have ov: "overwrite (wp_written pkt) (be_bytes k (length body)) (wp_bytes pkt @ junk @ body) =
        wp_bytes pkt @ be_bytes k (length body) @ body"
      using core s(1) by (simp add: overwrite_def)
    from close_length [OF r(1,2) n e] show ?thesis unfolding cl
      by (rule ensures_mono) (use ov False o x s t r core in \<open>auto simp: extends_def opened_def\<close>)
  qed
qed

subsection \<open>Whole packets\<close>

text \<open>\<open>ready k q\<close>: the packet has just been initialised with \<open>k\<close> length bytes.\<close>

definition ready :: "nat \<Rightarrow> wpacket \<Rightarrow> bool" where
  "ready k q \<longleftrightarrow> wp_wf q \<and> length (wp_bytes q) = k \<and>
     (\<exists>s. wp_subs q = [s] \<and> sub_lenbytes s = k \<and> sub_pwritten s = k \<and> sub_flags s = 0)"

lemma intern_init_spec:
  assumes core: "wp_core (pkt\<lparr>wp_curr := 0, wp_written := 0\<rparr>)" and ok: "alloc_ok alloc"
  shows "ensures (wpacket_intern_init_len alloc zok pkt k)
    (\<lambda>_ q. ready k q \<and> (wp_staticbuf q = None) = (wp_staticbuf pkt = None) \<and> wp_maxsize q = wp_maxsize pkt)"
proof (cases "\<not> zok \<or> k = 0")
  case True
  moreover have "wp_bytes (pkt\<lparr>wp_curr := 0, wp_written := 0\<rparr>) = []"
    by (simp add: wp_bytes_def split: option.splits)
  ultimately show ?thesis using core
    by (auto simp: wpacket_intern_init_len_def Let_def ready_def wp_wf_def)
next
  case False
  let ?p = "pkt\<lparr>wp_curr := 0, wp_written := 0, wp_subs :=
    [\<lparr>sub_packet_len = 0, sub_lenbytes = k, sub_pwritten = k, sub_flags = 0\<rparr>]\<rparr>"
  have "wp_core ?p" using core wp_core_update by blast
  note al = allocate_bytes_spec [OF this ok, of k]
  have eq: "wpacket_intern_init_len alloc zok pkt k =
      and_then (WPACKET_allocate_bytes alloc ?p k) (\<lambda>(r, pkt).
        case r of None \<Rightarrow> Done (None, pkt\<lparr>wp_subs := []\<rparr>)
        | Some lenchars \<Rightarrow> Done (Some (), set_packet_len lenchars pkt))"
    using False by (simp add: wpacket_intern_init_len_def Let_def)
  show ?thesis
  proof (cases "WPACKET_allocate_bytes alloc ?p k")
    case (Done x)
    then obtain v q where x: "WPACKET_allocate_bytes alloc ?p k = Done (v, q)" by (cases x) simp
    show ?thesis
    proof (cases v)
      case None
      then show ?thesis by (simp add: eq x)
    next
      case (Some off)
      with al x show ?thesis by (auto simp: eq ready_def set_packet_len_def wp_wf_def)
    qed
  qed (use al in \<open>simp_all add: ensures_def\<close>)
qed

lemma init_static_spec:
  assumes "alloc_ok alloc" and "len \<le> length b" and "length b \<le> SIZE_MAX"
  shows "ensures (WPACKET_init_static_len alloc zok pkt (Some b) len k)
    (\<lambda>_ q. ready k q \<and> wp_staticbuf q \<noteq> None \<and> wp_maxsize q = min (maxmaxsize k) len)"
proof (cases "len = 0")
  case False
  let ?p = "pkt\<lparr>wp_staticbuf := Some b, wp_buf := None,
    wp_maxsize := (if maxmaxsize k < len then maxmaxsize k else len)\<rparr>"
  have "wp_core (?p\<lparr>wp_curr := 0, wp_written := 0\<rparr>)" using assms by (simp add: wp_core_def)
  from intern_init_spec [OF this assms(1)] False show ?thesis
    by (auto simp: WPACKET_init_static_len_def Let_def min_def elim: ensures_mono)
qed (simp add: WPACKET_init_static_len_def)

lemma maxmaxsize_le: "maxmaxsize k \<le> SIZE_MAX"
proof (cases "k \<ge> 8 \<or> k = 0")
  case False
  then have "(2 :: nat) ^ (k * 8) \<le> 2 ^ 56" by (intro power_increasing) auto
  moreover have "k < 8" using False by simp
  moreover have "x - 1 + k \<le> SIZE_MAX" if "x \<le> 2 ^ 56" "k < 8" for x :: nat using that by simp
  ultimately have "2 ^ (k * 8) - 1 + k \<le> SIZE_MAX" by blast
  with False show ?thesis by (simp add: maxmaxsize_def)
qed (auto simp: maxmaxsize_def)

lemma init_len_spec:
  assumes "alloc_ok alloc" and "buf_wf buf" and "buf_length buf \<le> SIZE_MAX"
  shows "ensures (WPACKET_init_len alloc zok pkt (Some buf) k)
    (\<lambda>_ q. ready k q \<and> wp_staticbuf q = None \<and> wp_maxsize q = maxmaxsize k)"
proof -
  let ?p = "pkt\<lparr>wp_staticbuf := None, wp_buf := Some buf, wp_maxsize := maxmaxsize k\<rparr>"
  have "wp_core (?p\<lparr>wp_curr := 0, wp_written := 0\<rparr>)"
    using assms maxmaxsize_le [of k] by (simp add: wp_core_def)
  from intern_init_spec [OF this assms(1)] show ?thesis
    by (auto simp: WPACKET_init_len_def elim: ensures_mono)
qed

lemma finish_spec:
  assumes r: "ready k q" and x: "extends q body p"
  shows "ensures (WPACKET_finish p) (\<lambda>_ p'. wp_subs p' = [] \<and> wp_core p' \<and>
    wp_bytes p' = be_bytes k (length body) @ body \<and> (0 < k \<longrightarrow> length body < 256 ^ k))"
proof -
  obtain s where s: "wp_subs q = [s]" "sub_lenbytes s = k" "sub_pwritten s = k" "sub_flags s = 0"
    and q: "wp_wf q" "length (wp_bytes q) = k" using r by (auto simp: ready_def)
  have p: "wp_wf p" "wp_subs p = [s]" "wp_bytes p = wp_bytes q @ body"
    using x s by (auto simp: extends_def)
  have n: "length body = wp_written p - sub_pwritten s"
    using length_wp_bytes [of p] p(1,3) q(2) s(3) by (simp add: wp_wf_def)
  have ov: "overwrite 0 (be_bytes k (length body)) (wp_bytes q @ body) = be_bytes k (length body) @ body"
    using q(2) by (simp add: overwrite_def)
  have "ensures (wthen (wpacket_intern_close p s True) (\<lambda>_ pkt. Done (Some (), pkt\<lparr>wp_subs := []\<rparr>))) (\<lambda>_ p'. wp_subs p' = [] \<and> wp_core p' \<and>
    wp_bytes p' = be_bytes k (length body) @ body \<and> (0 < k \<longrightarrow> length body < 256 ^ k))"
    by (rule ensures_wthen [OF close_length [OF p(1,2) n]]) (use s p ov in \<open>auto simp: wp_wf_def\<close>)
  then show ?thesis by (simp add: WPACKET_finish_def p(2))
qed

subsection \<open>Nested packets\<close>

text \<open>
  What callers do with a packet, as a tree: copied bytes, a filled area, a number, or a sub-packet
  with a length field of \<open>k\<close> bytes and flags.  \<open>emit\<close> performs the calls in order, with
  an allocator that may behave differently at each of them; \<open>render\<close> says which bytes the tree
  stands for, \<open>doc_fits\<close> that every number and length fits its field.
\<close>

datatype doc = Bytes "byte list" | Fill byte nat | Number nat u32 | Sub nat u32 "doc list"

fun emit :: "(wpacket \<Rightarrow> allocator) \<Rightarrow> (wpacket \<Rightarrow> bool) \<Rightarrow> wpacket \<Rightarrow> doc \<Rightarrow> unit wres"
  and emits :: "(wpacket \<Rightarrow> allocator) \<Rightarrow> (wpacket \<Rightarrow> bool) \<Rightarrow> wpacket \<Rightarrow> doc list \<Rightarrow> unit wres" where
  "emit A zok pkt (Bytes bs) = WPACKET_memcpy (A pkt) pkt bs (length bs)"
| "emit A zok pkt (Fill ch n) = WPACKET_memset (A pkt) pkt ch n"
| "emit A zok pkt (Number n v) = WPACKET_put_bytes (A pkt) pkt v n"
| "emit A zok pkt (Sub k f ds) =
     wthen (WPACKET_start_sub_packet_len (A pkt) (zok pkt) pkt k) (\<lambda>_ pkt.
       wthen (WPACKET_set_flags pkt f) (\<lambda>_ pkt.
         wthen (emits A zok pkt ds) (\<lambda>_ pkt. WPACKET_close pkt)))"
| "emits A zok pkt [] = Done (Some (), pkt)"
| "emits A zok pkt (d # ds) = wthen (emit A zok pkt d) (\<lambda>_ pkt. emits A zok pkt ds)"

fun render :: "doc \<Rightarrow> byte list" and renders :: "doc list \<Rightarrow> byte list" where
  "render (Bytes bs) = bs"
| "render (Fill ch n) = replicate n ch"
| "render (Number n v) = be_bytes n (unat v)"
| "render (Sub k f ds) =
     (let body = renders ds
      in if body = [] \<and> flag f WPACKET_FLAGS_ABANDON_ON_ZERO_LENGTH then []
         else be_bytes k (length body) @ body)"
| "renders [] = []"
| "renders (d # ds) = render d @ renders ds"

fun doc_fits :: "doc \<Rightarrow> bool" and docs_fit :: "doc list \<Rightarrow> bool" where
  "doc_fits (Bytes bs) = True"
| "doc_fits (Fill ch n) = True"
| "doc_fits (Number n v) \<longleftrightarrow> unat v < 256 ^ n \<and> 0 < n \<and> n \<le> 4"
| "doc_fits (Sub k f ds) \<longleftrightarrow> docs_fit ds \<and> (0 < k \<longrightarrow> length (renders ds) < 256 ^ k) \<and>
     \<not> (renders ds = [] \<and> flag f WPACKET_FLAGS_NON_ZERO_LENGTH)"
| "docs_fit [] = True"
| "docs_fit (d # ds) \<longleftrightarrow> doc_fits d \<and> docs_fit ds"

lemma emit_spec:
  shows "\<forall>p. alloc_ok (A p) \<Longrightarrow> wp_wf pkt \<Longrightarrow>
      ensures (emit A zok pkt d) (\<lambda>_ pkt'. extends pkt (render d) pkt' \<and> doc_fits d)"
    and "\<forall>p. alloc_ok (A p) \<Longrightarrow> wp_wf pkt \<Longrightarrow>
      ensures (emits A zok pkt ds) (\<lambda>_ pkt'. extends pkt (renders ds) pkt' \<and> docs_fit ds)"
proof (induction A zok pkt d and A zok pkt ds rule: emit_emits.induct)
  case (1 A zok pkt bs)
  then show ?case using memcpy_spec [of pkt "A pkt" "length bs" bs] by simp
next
  case (2 A zok pkt ch n)
  then show ?case using memset_spec [of pkt "A pkt" ch n] by simp
next
  case (3 A zok pkt n v)
  then show ?case using put_bytes_spec [of pkt "A pkt" v n] by simp
next
  case (4 A zok pkt k f ds)
  then have core: "wp_core pkt" and ok: "alloc_ok (A pkt)" by (simp_all add: wp_wf_def)
  show ?case unfolding emit.simps
  proof (intro ensures_wthen [OF start_sub_packet_spec [OF 4(3) ok]] ensures_wthen [OF set_flags_spec], assumption)
    fix q assume o: "opened pkt k f q"
    then have "wp_wf q" by (simp add: opened_def)
    note IH = 4(1) [OF 4(2) this]
    show "ensures (wthen (emits A zok q ds) (\<lambda>_ pkt. WPACKET_close pkt))
        (\<lambda>_ pkt'. extends pkt (render (Sub k f ds)) pkt' \<and> doc_fits (Sub k f ds))"
      by (rule ensures_wthen [OF IH], rule ensures_mono [OF close_spec [OF core o]]) (auto simp: Let_def)
  qed
next
  case (5 A zok pkt)
  then show ?case by (simp add: extends_refl)
next
  case (6 A zok pkt d ds)
  show ?case unfolding emits.simps
  proof (rule ensures_wthen [OF 6(1) [OF 6(3,4)]])
    fix v q assume x: "extends pkt (render d) q \<and> doc_fits d"
    then have "wp_wf q" by (simp add: extends_def)
    from 6(2) [OF 6(3) this] x show "ensures (emits A zok q ds)
        (\<lambda>_ pkt'. extends pkt (renders (d # ds)) pkt' \<and> docs_fit (d # ds))"
      by (auto intro: extends_trans elim!: ensures_mono)
  qed
qed

subsection \<open>A fixed block with enough room never fails\<close>

definition succeeds :: "'r wres \<Rightarrow> bool" where
  "succeeds r \<longleftrightarrow> (\<exists>v pkt. r = Done (Some v, pkt))"

lemma succeeds_wthen:
  assumes "ensures r Q" and "succeeds r" and "\<And>v pkt. Q v pkt \<Longrightarrow> succeeds (f v pkt)"
  shows "succeeds (wthen r f)"
  using assms by (auto simp: succeeds_def wthen_def)

lemma ensures_succeeds: "ensures r Q \<Longrightarrow> succeeds r \<Longrightarrow> \<exists>v pkt. r = Done (Some v, pkt) \<and> Q v pkt"
  by (auto simp: succeeds_def)

definition fixed :: "wpacket \<Rightarrow> nat \<Rightarrow> bool" where
  "fixed pkt n \<longleftrightarrow> wp_staticbuf pkt \<noteq> None \<and> wp_subs pkt \<noteq> [] \<and> wp_written pkt + n \<le> wp_maxsize pkt"

lemma fixed_mono: "fixed pkt n \<Longrightarrow> m \<le> n \<Longrightarrow> fixed pkt m"
  by (simp add: fixed_def)

lemma fixed_extends:
  assumes "wp_core pkt" and "extends pkt bs q" and "fixed pkt n" and "length bs + m \<le> n"
  shows "fixed q m"
  using assms extends_written [OF assms(1,2)] by (auto simp: fixed_def extends_def)

lemma allocate_succeeds:
  assumes "wp_core pkt" and "fixed pkt len" and "0 < len"
  shows "succeeds (WPACKET_allocate_bytes alloc pkt len)"
proof -
  have "usub (wp_maxsize pkt) (wp_written pkt) = wp_maxsize pkt - wp_written pkt"
    using assms(1) by (intro usub_le) (auto simp: wp_core_def)
  then have "WPACKET_reserve_bytes alloc pkt len = Done (Some (wp_curr pkt), pkt)"
    using assms by (auto simp: WPACKET_reserve_bytes_def fixed_def WPACKET_get_curr_def)
  then show ?thesis by (simp add: WPACKET_allocate_bytes_def wthen_def succeeds_def)
qed

lemma store_succeeds:
  assumes "wp_core pkt" and "alloc_ok alloc" and "fixed pkt (length bs)" and "bs \<noteq> []"
  shows "succeeds (wthen (WPACKET_allocate_bytes alloc pkt (length bs)) (\<lambda>dest pkt. wp_store pkt dest bs))"
  using allocate_succeeds [OF assms(1,3)] assms(4)
  by (intro succeeds_wthen [OF allocate_bytes_spec [OF assms(1,2)]]) (auto simp: wp_store_def succeeds_def)

lemma put_bytes_succeeds:
  assumes "wp_core pkt" and "alloc_ok alloc" and "fixed pkt n" and "0 < n" "n \<le> 4" and "unat v < 256 ^ n"
  shows "succeeds (WPACKET_put_bytes alloc pkt v n)"
proof -
  have "succeeds (wthen (WPACKET_allocate_bytes alloc pkt n) (\<lambda>data pkt. put_value_at pkt data (unat v) n))"
    using assms(6) by (intro succeeds_wthen [OF allocate_bytes_spec [OF assms(1,2)] allocate_succeeds [OF assms(1,3,4)]])
      (auto simp: put_value_at_def put_value_spec succeeds_def)
  with assms(5) show ?thesis by (simp add: WPACKET_put_bytes_def)
qed

lemma start_succeeds:
  assumes "wp_core pkt" and "alloc_ok alloc" and "fixed pkt k"
  shows "succeeds (WPACKET_start_sub_packet_len alloc True pkt k)"
proof (cases "k = 0")
  case True
  with assms(3) show ?thesis by (simp add: WPACKET_start_sub_packet_len_def fixed_def succeeds_def)
next
  case False
  let ?p = "pkt\<lparr>wp_subs := \<lparr>sub_packet_len = 0, sub_lenbytes = k,
     sub_pwritten = uadd (wp_written pkt) k, sub_flags = 0\<rparr> # wp_subs pkt\<rparr>"
  have "wp_core ?p" "fixed ?p k" using assms by (simp_all add: fixed_def)
  then have "succeeds (wthen (WPACKET_allocate_bytes alloc ?p k)
      (\<lambda>lenchars pkt. Done (Some (), set_packet_len lenchars pkt)))"
    using False by (intro succeeds_wthen [OF allocate_bytes_spec [OF _ assms(2)] allocate_succeeds])
      (auto simp: succeeds_def)
  with False assms(3) show ?thesis
    by (simp add: WPACKET_start_sub_packet_len_def fixed_def Let_def)
qed

lemma intern_close_succeeds:
  assumes wf: "wp_wf pkt" and subs: "wp_subs pkt = s # ss" and n: "n = wp_written pkt - sub_pwritten s"
    and fit: "0 < sub_lenbytes s \<longrightarrow> n < 256 ^ sub_lenbytes s"
    and nz: "\<not> (n = 0 \<and> flag (sub_flags s) WPACKET_FLAGS_NON_ZERO_LENGTH)"
  shows "succeeds (wpacket_intern_close pkt s True)"
proof -
  have c: "wp_core pkt" "sub_lenbytes s \<le> sub_pwritten s" "sub_pwritten s \<le> wp_written pkt" "wp_written pkt \<le> SIZE_MAX"
    "0 < sub_lenbytes s \<longrightarrow> sub_packet_len s = sub_pwritten s - sub_lenbytes s"
    using wf subs by (auto simp: wp_wf_def wp_core_def)
  have u: "usub (wp_written pkt) (sub_pwritten s) = n" using c n by simp
  consider "n = 0 \<and> flag (sub_flags s) WPACKET_FLAGS_ABANDON_ON_ZERO_LENGTH \<or> sub_lenbytes s = 0"
    | (l) "\<not> (n = 0 \<and> flag (sub_flags s) WPACKET_FLAGS_ABANDON_ON_ZERO_LENGTH)" "0 < sub_lenbytes s" by blast
  then show ?thesis
  proof cases
    case 1
    with u nz show ?thesis by (auto simp: wpacket_intern_close_def Let_def wthen_def succeeds_def)
  next
    case l
    obtain d where d: "GETBUF pkt = Some d" "wp_written pkt \<le> length d"
      using c l by (auto elim: wp_core_block [OF c(1)])
    let ?off = "sub_pwritten s - sub_lenbytes s"
    have "put_value d ?off n (sub_lenbytes s) = Done (True, overwrite ?off (be_bytes (sub_lenbytes s) n) d)"
      using put_value_spec [of ?off "sub_lenbytes s" d n] c d fit l by simp
    with l u nz c d(1) show ?thesis
      by (auto simp: wpacket_intern_close_def Let_def wthen_def put_value_at_def succeeds_def)
  qed
qed

fun doc_room :: "doc \<Rightarrow> nat" and docs_room :: "doc list \<Rightarrow> nat" where
  "doc_room (Bytes bs) = length bs"
| "doc_room (Fill ch n) = n"
| "doc_room (Number n v) = n"
| "doc_room (Sub k f ds) = k + docs_room ds"
| "docs_room [] = 0"
| "docs_room (d # ds) = doc_room d + docs_room ds"

lemma render_room: "length (render d) \<le> doc_room d" "length (renders ds) \<le> docs_room ds"
  by (induction d and ds rule: render_renders.induct) (auto simp: Let_def)

lemma opened_written:
  assumes "wp_core pkt" and "opened pkt k f q"
  shows "wp_written q = wp_written pkt + k"
  using assms length_wp_bytes [of q] length_wp_bytes [of pkt]
  by (auto simp: opened_def wp_wf_def simp del: length_wp_bytes)

lemma close_succeeds:
  assumes core: "wp_core pkt" and o: "opened pkt k f q" and x: "extends q body r"
    and fit: "0 < k \<longrightarrow> length body < 256 ^ k" and nz: "\<not> (body = [] \<and> flag f WPACKET_FLAGS_NON_ZERO_LENGTH)"
  shows "succeeds (WPACKET_close r)"
proof -
  obtain junk s t ss where s: "length junk = k" "wp_bytes q = wp_bytes pkt @ junk" "wp_subs q = s # t # ss"
    "sub_lenbytes s = k" "sub_pwritten s = wp_written pkt + k" "sub_flags s = f"
    using o by (cases "wp_subs pkt") (auto simp: opened_def)
  have r: "wp_wf r" "wp_subs r = s # t # ss" "wp_bytes r = wp_bytes pkt @ junk @ body"
    using x s by (auto simp: extends_def)
  have "length body = wp_written r - sub_pwritten s"
    using length_wp_bytes [of r] r(1,3) core s(1,5) by (simp add: wp_wf_def)
  from intern_close_succeeds [OF r(1,2) this] fit nz s(4,6) show ?thesis
    by (simp add: WPACKET_close_def r(2))
qed

lemma emit_succeeds:
  shows "\<forall>p. alloc_ok (A p) \<Longrightarrow> \<forall>p. zok p \<Longrightarrow> wp_wf pkt \<Longrightarrow> doc_fits d \<Longrightarrow> fixed pkt (doc_room d) \<Longrightarrow>
      succeeds (emit A zok pkt d)"
    and "\<forall>p. alloc_ok (A p) \<Longrightarrow> \<forall>p. zok p \<Longrightarrow> wp_wf pkt \<Longrightarrow> docs_fit ds \<Longrightarrow> fixed pkt (docs_room ds) \<Longrightarrow>
      succeeds (emits A zok pkt ds)"
proof (induction A zok pkt d and A zok pkt ds rule: emit_emits.induct)
  case (1 A zok pkt bs)
  then show ?case using store_succeeds [of pkt "A pkt" bs]
    by (cases "bs = []") (auto simp: WPACKET_memcpy_def succeeds_def wp_wf_def)
next
  case (2 A zok pkt ch n)
  then show ?case using store_succeeds [of pkt "A pkt" "replicate n ch"]
    by (cases "n = 0") (auto simp: WPACKET_memset_def succeeds_def wp_wf_def)
next
  case (3 A zok pkt n v)
  then show ?case using put_bytes_succeeds [of pkt "A pkt" n v] by (simp add: wp_wf_def)
next
  case (4 A zok pkt k f ds)
  then have core: "wp_core pkt" and ok: "alloc_ok (A pkt)" "fixed pkt k"
    by (auto simp: wp_wf_def intro: fixed_mono)
  have op: "wp_wf q \<and> fixed q (docs_room ds)" if "opened pkt k g q" for g q
    using that 4(6) opened_written [OF core that] by (auto simp: opened_def fixed_def)
  have 1: "succeeds (WPACKET_start_sub_packet_len (A pkt) (zok pkt) pkt k)"
    using start_succeeds [OF core ok] 4(3) by simp
  have 2: "succeeds (WPACKET_set_flags q f)" if "opened pkt k 0 q" for q
    using that by (auto simp: opened_def WPACKET_set_flags_def succeeds_def)
  show ?case unfolding emit.simps
  proof (intro succeeds_wthen [OF start_sub_packet_spec [OF 4(4) ok(1)] 1]
      succeeds_wthen [OF set_flags_spec 2], assumption, assumption)
    fix q assume o: "opened pkt k f q"
    note w = op [OF o]
    show "succeeds (wthen (emits A zok q ds) (\<lambda>_ pkt. WPACKET_close pkt))"
      using 4(5) w by (intro succeeds_wthen [OF emit_spec(2) [OF 4(2)] 4(1) [OF 4(2,3)]])
        (auto intro: close_succeeds [OF core o])
  qed
next
  case (6 A zok pkt d ds)
  then have core: "wp_core pkt" by (simp add: wp_wf_def)
  have "fixed pkt (doc_room d)" using 6(7) by (auto intro: fixed_mono)
  then have 1: "succeeds (emit A zok pkt d)" using 6(1) [OF 6(3-5)] 6(6) by simp
  show ?case unfolding emits.simps
  proof (rule succeeds_wthen [OF emit_spec(1) [OF 6(3,5)] 1])
    fix v q assume x: "extends pkt (render d) q \<and> doc_fits d"
    then have "fixed q (docs_room ds)"
      using fixed_extends [OF core, of "render d" q] 6(7) render_room(1) [of d] by simp
    moreover have "wp_wf q" using x by (simp add: extends_def)
    ultimately show "succeeds (emits A zok q ds)" using 6(2) [OF 6(3,4)] 6(6) by simp
  qed
qed (simp add: succeeds_def)

lemma finish_succeeds:
  assumes r: "ready k q" and x: "extends q body p" and fit: "0 < k \<longrightarrow> length body < 256 ^ k"
  shows "succeeds (WPACKET_finish p)"
proof -
  obtain s where s: "wp_subs q = [s]" "sub_lenbytes s = k" "sub_pwritten s = k" "sub_flags s = 0"
    and q: "wp_wf q" "length (wp_bytes q) = k" using r by (auto simp: ready_def)
  have p: "wp_wf p" "wp_subs p = [s]" "wp_bytes p = wp_bytes q @ body"
    using x s by (auto simp: extends_def)
  have n: "length body = wp_written p - sub_pwritten s"
    using length_wp_bytes [of p] p(1,3) q(2) s(3) by (simp add: wp_wf_def)
  have "succeeds (wpacket_intern_close p s True)"
    using intern_close_succeeds [OF p(1,2) n] fit s by simp
  then show ?thesis by (auto simp: WPACKET_finish_def p(2) wthen_def succeeds_def)
qed

lemma init_static_succeeds:
  assumes "alloc_ok alloc" and "0 < len" "len \<le> length b" and "length b \<le> SIZE_MAX" and "k \<le> min (maxmaxsize k) len"
  shows "succeeds (WPACKET_init_static_len alloc True pkt (Some b) len k)"
proof (cases "k = 0")
  case True
  with assms(2) show ?thesis
    by (simp add: WPACKET_init_static_len_def wpacket_intern_init_len_def Let_def succeeds_def)
next
  case False
  let ?p = "pkt\<lparr>wp_staticbuf := Some b, wp_buf := None,
    wp_maxsize := (if maxmaxsize k < len then maxmaxsize k else len), wp_curr := 0, wp_written := 0, wp_subs :=
    [\<lparr>sub_packet_len = 0, sub_lenbytes = k, sub_pwritten = k, sub_flags = 0\<rparr>]\<rparr>"
  have "wp_core ?p" "fixed ?p k" using assms by (auto simp: wp_core_def fixed_def)
  then have "succeeds (WPACKET_allocate_bytes alloc ?p k)" using False by (intro allocate_succeeds) auto
  then show ?thesis using False assms(2)
    by (auto simp: WPACKET_init_static_len_def wpacket_intern_init_len_def Let_def succeeds_def)
qed

subsection \<open>Properties of the writer\<close>

text \<open>A complete use of a packet: initialise it, write a list of items, finish it.\<close>

definition write_packet ::
  "(wpacket \<Rightarrow> allocator) \<Rightarrow> (wpacket \<Rightarrow> bool) \<Rightarrow> unit wres \<Rightarrow> doc list \<Rightarrow> unit wres" where
  "write_packet A zok ini ds =
     wthen ini (\<lambda>_ pkt. wthen (emits A zok pkt ds) (\<lambda>_ pkt. WPACKET_finish pkt))"

lemma write_packet_spec:
  assumes "\<forall>p. alloc_ok (A p)" and "ensures ini (\<lambda>_. ready k)"
  shows "ensures (write_packet A zok ini ds) (\<lambda>_ q. wp_subs q = [] \<and>
    wp_bytes q = be_bytes k (length (renders ds)) @ renders ds \<and>
    docs_fit ds \<and> (0 < k \<longrightarrow> length (renders ds) < 256 ^ k))"
  unfolding write_packet_def
proof (rule ensures_wthen [OF assms(2)])
  fix v q assume r: "ready k q"
  then have "wp_wf q" by (simp add: ready_def)
  from emit_spec(2) [OF assms(1) this]
  show "ensures (wthen (emits A zok q ds) (\<lambda>_ pkt. WPACKET_finish pkt)) (\<lambda>_ q. wp_subs q = [] \<and>
    wp_bytes q = be_bytes k (length (renders ds)) @ renders ds \<and>
    docs_fit ds \<and> (0 < k \<longrightarrow> length (renders ds) < 256 ^ k))"
    by (rule ensures_wthen, intro ensures_mono [OF finish_spec [OF r]]) auto
qed

text \<open>
  C34.  Whatever is written through a packet, into a growable buffer or a fixed block, nested to any
  depth and with any pattern of allocation failures: no byte outside the block is touched, and
  when all calls succeed the block holds exactly the rendering of the items, every length
  field carrying the length of its sub-packet, all numbers and lengths fitting their fields.
\<close>

theorem wpacket_renders:
  assumes "\<forall>p. alloc_ok (A p)" and "buf_wf buf" and "buf_length buf \<le> SIZE_MAX"
    and "len \<le> length b" and "length b \<le> SIZE_MAX"
    and "ini = WPACKET_init_len (A pkt) (zok pkt) pkt (Some buf) k \<or>
         ini = WPACKET_init_static_len (A pkt) (zok pkt) pkt (Some b) len k"
  shows "ensures (write_packet A zok ini ds) (\<lambda>_ q. wp_subs q = [] \<and>
    wp_bytes q = be_bytes k (length (renders ds)) @ renders ds \<and>
    docs_fit ds \<and> (0 < k \<longrightarrow> length (renders ds) < 256 ^ k))"
proof (rule write_packet_spec [OF assms(1)])
  show "ensures ini (\<lambda>_. ready k)"
    using assms init_len_spec [of "A pkt" buf "zok pkt" pkt k] init_static_spec [of "A pkt" len b "zok pkt" pkt k]
    by (auto elim: ensures_mono)
qed

text \<open>
  A fixed block with room for the items and all their length fields never makes a write fail:
  the packet is completed and the block holds its rendering.
\<close>

theorem wpacket_static_complete:
  assumes "\<forall>p. alloc_ok (A p)" and "\<forall>p. zok p" and "0 < len" "len \<le> length b" and "length b \<le> SIZE_MAX"
    and "docs_fit ds" and "0 < k \<longrightarrow> length (renders ds) < 256 ^ k"
    and "k + docs_room ds \<le> min (maxmaxsize k) len"
  shows "\<exists>q. write_packet A zok (WPACKET_init_static_len (A pkt) (zok pkt) pkt (Some b) len k) ds = Done (Some (), q) \<and>
    wp_bytes q = be_bytes k (length (renders ds)) @ renders ds"
proof -
  let ?ini = "WPACKET_init_static_len (A pkt) (zok pkt) pkt (Some b) len k"
  have ini: "ensures ?ini (\<lambda>_ q. ready k q \<and> wp_staticbuf q \<noteq> None \<and> wp_maxsize q = min (maxmaxsize k) len)"
    using assms by (intro init_static_spec) auto
  have s: "succeeds ?ini" using init_static_succeeds [of "A pkt" len b k pkt] assms by simp
  have "succeeds (write_packet A zok ?ini ds)" unfolding write_packet_def
  proof (rule succeeds_wthen [OF ini s])
    fix v q assume q: "ready k q \<and> wp_staticbuf q \<noteq> None \<and> wp_maxsize q = min (maxmaxsize k) len"
    then have wf: "wp_wf q" and "wp_written q = k" "wp_subs q \<noteq> []"
      using length_wp_bytes [of q] by (auto simp: ready_def wp_wf_def)
    with q assms(8) have "fixed q (docs_room ds)" by (simp add: fixed_def)
    then show "succeeds (wthen (emits A zok q ds) (\<lambda>_ pkt. WPACKET_finish pkt))"
      using q assms wf by (intro succeeds_wthen [OF emit_spec(2) emit_succeeds(2)])
        (auto intro: finish_succeeds)
  qed
  moreover have "ensures ?ini (\<lambda>_. ready k)" using ini by (rule ensures_mono) simp
  ultimately show ?thesis using ensures_succeeds [OF write_packet_spec [OF assms(1)]] by fastforce
qed

definition sample_wp :: wpacket where
  "sample_wp = \<lparr>wp_buf = None, wp_staticbuf = None, wp_curr = 0, wp_written = 0, wp_maxsize = 0, wp_subs = []\<rparr>"

definition sample_docs :: "doc list" where
  "sample_docs = [Number 1 5, Sub 2 0 [Bytes [7, 8], Fill 1 1], Sub 1 2 []]"

lemma sample_docs_render: "renders sample_docs = [5, 0, 3, 7, 8, 1]"
  by (simp add: sample_docs_def flag_def)

lemma sample_docs_fit: "docs_fit sample_docs" "docs_room sample_docs = 7"
  by (simp_all add: sample_docs_def flag_def)

lemma sample_block_ok: "\<forall>p :: wpacket. alloc_ok (\<lambda>n. Some (replicate n 1))"
  using sample_mem_wf(2) by simp

theorem wpacket_static_complete_witness:
  "\<exists>q. write_packet (\<lambda>_ n. Some (replicate n 1)) (\<lambda>_. True)
      (WPACKET_init_static_len (\<lambda>n. Some (replicate n 1)) True sample_wp (Some (replicate 20 9)) 20 1) sample_docs =
      Done (Some (), q) \<and> wp_bytes q = [6, 5, 0, 3, 7, 8, 1]"
  using wpacket_static_complete [OF sample_block_ok, of "\<lambda>_. True" 20 "replicate 20 9" sample_docs 1 sample_wp]
  by (simp add: sample_docs_fit sample_docs_render maxmaxsize_def)

theorem wpacket_renders_witness:
  "ensures (write_packet (\<lambda>_ n. Some (replicate n 1)) (\<lambda>_. True)
      (WPACKET_init_len (\<lambda>n. Some (replicate n 1)) True sample_wp (Some sample_mem) 1) sample_docs)
    (\<lambda>_ q. wp_bytes q = [6, 5, 0, 3, 7, 8, 1])"
proof -
  let ?ini = "WPACKET_init_len (\<lambda>n. Some (replicate n 1)) True sample_wp (Some sample_mem) 1"
  have "buf_length sample_mem \<le> SIZE_MAX" by (simp add: sample_mem_def)
  from wpacket_renders [OF sample_block_ok sample_mem_wf(1) this, of 0 "[]" ?ini "\<lambda>_. True" sample_wp 1 sample_docs]
  show ?thesis by (auto simp: sample_docs_render elim: ensures_mono)
qed

lemma sub_memcpy_spec:
  assumes wf: "wp_wf pkt" and ok: "alloc_ok alloc" and len: "len \<le> length src"
  shows "ensures (WPACKET_sub_memcpy alloc zok pkt src len k) (\<lambda>_ q.
    extends pkt (be_bytes k len @ take len src) q \<and> (0 < k \<longrightarrow> len < 256 ^ k))"
  unfolding WPACKET_sub_memcpy_def
proof (rule ensures_wthen [OF start_sub_packet_spec [OF wf ok]])
  fix v q assume o: "opened pkt k 0 q"
  then have "wp_wf q" by (simp add: opened_def)
  from memcpy_spec [OF this ok len]
  show "ensures (wthen (WPACKET_memcpy alloc q src len) (\<lambda>_ pkt. WPACKET_close pkt)) (\<lambda>_ q.
    extends pkt (be_bytes k len @ take len src) q \<and> (0 < k \<longrightarrow> len < 256 ^ k))"
  proof (rule ensures_wthen)
    fix v r assume "extends q (take len src) r"
    from close_spec [OF _ o this] wf len show "ensures (WPACKET_close r) (\<lambda>_ q.
        extends pkt (be_bytes k len @ take len src) q \<and> (0 < k \<longrightarrow> len < 256 ^ k))"
      by (simp add: wp_wf_def min_absorb2)
  qed
qed

lemma prefixed_spec_encoded:
  "length data < 256 ^ k \<Longrightarrow> prefixed_spec k (be_bytes k (length data) @ data @ rest) = Some (data, rest)"
  by (simp add: prefixed_spec_def)

text \<open>
  C35.  Round trip: what \<^verbatim>\<open>WPACKET_sub_memcpy\<close> has written with a length field of one, two or three bytes
  is what the length-prefixed reader of that width reads back from the same memory, with nothing left over.
\<close>

theorem sub_memcpy_roundtrip:
  assumes wf: "wp_wf pkt" and ok: "alloc_ok alloc" and len: "len \<le> length src"
    and w: "WPACKET_sub_memcpy alloc zok pkt src len k = Done (Some (), q)" and k: "0 < k"
    and mem: "GETBUF q = Some mem" "length mem \<le> SIZE_MAX div 2"
    and rd: "rd = \<lparr>pkt_curr = Some (wp_written pkt), pkt_remaining = wp_written q - wp_written pkt\<rparr>"
  shows "(k = 1 \<longrightarrow> meets mem (PACKET_get_length_prefixed_1 mem rd) (Some (take len src, []))) \<and>
    (k = 2 \<longrightarrow> meets mem (PACKET_get_length_prefixed_2 mem rd) (Some (take len src, []))) \<and>
    (k = 3 \<longrightarrow> meets mem (PACKET_get_length_prefixed_3 mem rd) (Some (take len src, [])))"
proof -
  have x: "extends pkt (be_bytes k len @ take len src) q" "len < 256 ^ k"
    using sub_memcpy_spec [OF wf ok len, of zok k] w k by simp_all
  have core: "wp_core pkt" "wp_core q" using wf x(1) by (auto simp: wp_wf_def extends_def)
  have wr: "wp_written q = wp_written pkt + (k + len)"
    using extends_written [OF core(1) x(1)] len by (simp add: min_absorb2)
  have le: "wp_written q \<le> length mem" using core(2) mem(1) by (auto elim: wp_core_block)
  have "take (wp_written q) mem = wp_bytes pkt @ be_bytes k len @ take len src"
    using x(1) mem(1) by (simp add: extends_def wp_bytes_def)
  then have "pkt_bytes mem rd = be_bytes k len @ take len src"
    using core(1) wr by (simp add: rd pkt_bytes_def chunk_def take_drop add.commute)
  then have sp: "prefixed_spec k (pkt_bytes mem rd) = Some (take len src, [])"
    using prefixed_spec_encoded [of "take len src" k "[]"] x(2) len by (simp add: min_absorb2)
  have "pkt_wf mem rd" using wr le mem(2) by (simp add: rd pkt_wf_def)
  from r1.prefixed [OF this] r2.prefixed [OF this] r3.prefixed [OF this] sp show ?thesis
    by (auto simp: PACKET_get_length_prefixed_1_def PACKET_get_length_prefixed_2_def PACKET_get_length_prefixed_3_def)
qed

definition sample_open :: wpacket where
  "sample_open = \<lparr>wp_buf = None, wp_staticbuf = Some [9, 0, 0, 0, 0, 0], wp_curr = 1, wp_written = 1, wp_maxsize = 6,
     wp_subs = [\<lparr>sub_packet_len = 0, sub_lenbytes = 0, sub_pwritten = 0, sub_flags = 0\<rparr>]\<rparr>"

theorem sub_memcpy_roundtrip_witness:
  "meets [9, 0, 2, 7, 8, 0] (PACKET_get_length_prefixed_2 [9, 0, 2, 7, 8, 0] \<lparr>pkt_curr = Some 1, pkt_remaining = 4\<rparr>)
    (Some ([7, 8], []))"
proof -
  have wf: "wp_wf sample_open" by (simp add: wp_wf_def wp_core_def sample_open_def)
  obtain q where q: "WPACKET_sub_memcpy (\<lambda>n. Some (replicate n 1)) True sample_open [7, 8] 2 2 = Done (Some (), q)"
      "GETBUF q = Some [9, 0, 2, 7, 8, 0]" "wp_written q = 5"
    by (simp add: WPACKET_sub_memcpy_def WPACKET_start_sub_packet_len_def sample_open_def wthen_def Let_def
        WPACKET_allocate_bytes_def WPACKET_reserve_bytes_def WPACKET_get_curr_def set_packet_len_def
        WPACKET_memcpy_def wp_store_def GETBUF_def set_block_def overwrite_def WPACKET_close_def
        wpacket_intern_close_def put_value_at_def put_value_spec)
  from sub_memcpy_roundtrip [OF wf sample_mem_wf(2) _ q(1) _ q(2) _ refl] q(3) show ?thesis
    by (simp add: sample_open_def)
qed

text \<open>
  A fixed block does not limit a packet whose limit is raised: \<^verbatim>\<open>WPACKET_set_max_size\<close> compares the
  new limit with the length field only, so that it accepts a limit beyond the block, and the
  next write runs over its end.
\<close>

theorem set_max_size_overruns:
  assumes "b \<noteq> []" and "length b < SIZE_MAX"
  shows "wthen (WPACKET_init_static_len alloc True pkt (Some b) (length b) 0) (\<lambda>_ pkt.
      wthen (WPACKET_set_max_size pkt (length b + 1)) (\<lambda>_ pkt.
        WPACKET_memcpy alloc pkt (replicate (length b + 1) x) (length b + 1))) = Fault"
proof -
  have "usub (length b + 1) 0 = length b + 1" using assms(2) by simp
  then show ?thesis using assms
    by (simp add: WPACKET_init_static_len_def wpacket_intern_init_len_def wthen_def Let_def
        WPACKET_set_max_size_def maxmaxsize_def WPACKET_memcpy_def WPACKET_allocate_bytes_def
        WPACKET_reserve_bytes_def wp_store_def GETBUF_def)
qed

theorem set_max_size_overruns_witness:
  "wthen (WPACKET_init_static_len (\<lambda>_. None) True sample_wp (Some [0, 0]) (length [0 :: byte, 0]) 0) (\<lambda>_ pkt.
      wthen (WPACKET_set_max_size pkt (length [0 :: byte, 0] + 1)) (\<lambda>_ pkt.
        WPACKET_memcpy (\<lambda>_. None) pkt (replicate (length [0 :: byte, 0] + 1) 5) (length [0 :: byte, 0] + 1))) = Fault"
  by (rule set_max_size_overruns) simp_all

end
