(* ===== verification/Version.thy ===== *)
theory Version
  imports Samples Wpacket
begin

unbundle bit_operations_syntax

section \<open>Version negotiation\<close>

text \<open>
  The choice of the protocol version by the two sides (\<^verbatim>\<open>ssl_choose_server_version\<close> and
  \<^verbatim>\<open>ssl_choose_client_version\<close> of \<^verbatim>\<open>ssl/statem/statem_lib.c\<close>), the \<^verbatim>\<open>supported_versions\<close> extension they exchange
  (\<^verbatim>\<open>extensions_clnt.c\<close>, \<^verbatim>\<open>extensions_srvr.c\<close>, the dispatch in \<^verbatim>\<open>extensions.c\<close>) and the downgrade sentinel in the
  server's random value (\<^verbatim>\<open>ssl_fill_hello_random\<close> of \<^verbatim>\<open>ssl/s3_lib.c\<close>).  The theorems say which version the server
  chooses, that two sides with a common version agree on it, and that a client notices a
  downgrade.  \<open>mem\<close> is the buffer the message was received in.
\<close>

subsection \<open>Extensions\<close>

abbreviation (input) SSL_EXT_TLS_IMPLEMENTATION_ONLY :: u32 where "SSL_EXT_TLS_IMPLEMENTATION_ONLY \<equiv> 0x4"
abbreviation (input) SSL_EXT_SSL3_ALLOWED :: u32 where "SSL_EXT_SSL3_ALLOWED \<equiv> 0x8"
abbreviation (input) SSL_EXT_TLS1_2_AND_BELOW_ONLY :: u32 where "SSL_EXT_TLS1_2_AND_BELOW_ONLY \<equiv> 0x10"
abbreviation (input) SSL_EXT_TLS1_3_ONLY :: u32 where "SSL_EXT_TLS1_3_ONLY \<equiv> 0x20"
abbreviation (input) SSL_EXT_IGNORE_ON_RESUMPTION :: u32 where "SSL_EXT_IGNORE_ON_RESUMPTION \<equiv> 0x40"
abbreviation (input) SSL_EXT_CLIENT_HELLO :: u32 where "SSL_EXT_CLIENT_HELLO \<equiv> 0x80"
abbreviation (input) SSL_EXT_TLS1_2_SERVER_HELLO :: u32 where "SSL_EXT_TLS1_2_SERVER_HELLO \<equiv> 0x100"
abbreviation (input) SSL_EXT_TLS1_3_SERVER_HELLO :: u32 where "SSL_EXT_TLS1_3_SERVER_HELLO \<equiv> 0x200"
abbreviation (input) SSL_EXT_TLS1_3_HELLO_RETRY_REQUEST :: u32 where "SSL_EXT_TLS1_3_HELLO_RETRY_REQUEST \<equiv> 0x800"
abbreviation (input) TLSEXT_TYPE_supported_versions :: u32 where "TLSEXT_TYPE_supported_versions \<equiv> 43"

record raw_extension =
  ext_data :: packet
  ext_present :: bool
  ext_parsed :: bool
  ext_type :: u32
  received_order :: nat

type_synonym 'w ext_parser = "byte list \<Rightarrow> 'w ssl \<Rightarrow> packet \<Rightarrow> u32 \<Rightarrow> (bool \<times> 'w ssl) outcome"

text \<open>The parts of an extension's definition that parsing uses.\<close>

record 'w extension_definition =
  ed_context :: u32
  parse_ctos :: "'w ext_parser option"
  parse_stoc :: "'w ext_parser option"

definition extension_is_relevant :: "'w ssl \<Rightarrow> u32 \<Rightarrow> u32 \<Rightarrow> bool" where
  "extension_is_relevant s extctx thisctx =
     (let is_tls13 = (if flag thisctx SSL_EXT_TLS1_3_HELLO_RETRY_REQUEST then True else SSL_IS_TLS13 s)
      in \<not> (SSL_IS_DTLS s \<and> flag extctx SSL_EXT_TLS_IMPLEMENTATION_ONLY \<or>
            version s = SSL3_VERSION \<and> \<not> flag extctx SSL_EXT_SSL3_ALLOWED \<or>
            is_tls13 \<and> flag extctx SSL_EXT_TLS1_2_AND_BELOW_ONLY \<or>
            \<not> is_tls13 \<and> flag extctx SSL_EXT_TLS1_3_ONLY \<and> \<not> flag thisctx SSL_EXT_CLIENT_HELLO \<or>
            server s \<and> \<not> is_tls13 \<and> flag extctx SSL_EXT_TLS1_3_ONLY \<or>
            hit s \<and> flag extctx SSL_EXT_IGNORE_ON_RESUMPTION))"

text \<open>\<open>custom\<close> is the processing of custom extensions, which takes over where there is no parser.\<close>

definition tls_parse_extension ::
  "'w ext_parser \<Rightarrow> byte list \<Rightarrow> 'w ssl \<Rightarrow> 'w extension_definition option \<Rightarrow> u32 \<Rightarrow> raw_extension \<Rightarrow>
   (bool \<times> raw_extension \<times> 'w ssl) outcome" where
  "tls_parse_extension custom mem s extdef ctxt currext =
     (if \<not> ext_present currext \<or> ext_parsed currext then Done (True, currext, s)
      else
        let currext = currext\<lparr>ext_parsed := True\<rparr>;
            run = (\<lambda>parser. and_then (parser mem s (ext_data currext) ctxt) (\<lambda>(ok, s). Done (ok, currext, s)))
        in case extdef of
             None \<Rightarrow> run custom
           | Some d \<Rightarrow>
               if \<not> extension_is_relevant s (ed_context d) ctxt then Done (True, currext, s)
               else (case (if server s then parse_ctos d else parse_stoc d) of
                       Some parser \<Rightarrow> run parser | None \<Rightarrow> run custom))"

definition tls_parse_stoc_supported_versions :: "'w env \<Rightarrow> 'w ext_parser" where
  "tls_parse_stoc_supported_versions e mem s pkt ctxt =
     (let mismatch = Done (False, ossl_statem_fatal e SSL_AD_DECODE_ERROR
                       SSL_F_TLS_PARSE_STOC_SUPPORTED_VERSIONS SSL_R_LENGTH_MISMATCH s)
      in case PACKET_get_net_2 mem pkt of
           Fault \<Rightarrow> Fault
         | Fails \<Rightarrow> mismatch
         | Done (ver, pkt) \<Rightarrow>
             if PACKET_remaining pkt \<noteq> 0 then mismatch
             else if uint ver \<noteq> TLS1_3_VERSION
             then Done (False, ossl_statem_fatal e SSL_AD_ILLEGAL_PARAMETER
                    SSL_F_TLS_PARSE_STOC_SUPPORTED_VERSIONS SSL_R_BAD_PROTOCOL_VERSION_NUMBER s)
             else if ctxt = SSL_EXT_TLS1_3_HELLO_RETRY_REQUEST then Done (True, s)
             else Done (True, s\<lparr>version := uint ver\<rparr>))"

definition supported_versions_def :: "'w env \<Rightarrow> 'w extension_definition" where
  "supported_versions_def e =
     \<lparr>ed_context = SSL_EXT_CLIENT_HELLO OR SSL_EXT_TLS1_3_SERVER_HELLO OR SSL_EXT_TLS1_3_HELLO_RETRY_REQUEST
        OR SSL_EXT_TLS_IMPLEMENTATION_ONLY,
      parse_ctos = None, parse_stoc = Some (tls_parse_stoc_supported_versions e)\<rparr>"

datatype ext_return = EXT_RETURN_FAIL | EXT_RETURN_SENT | EXT_RETURN_NOT_SENT

function put_versions :: "(wpacket \<Rightarrow> allocator) \<Rightarrow> int \<Rightarrow> int \<Rightarrow> wpacket \<Rightarrow> unit wres" where
  "put_versions A min_version currv pkt =
     (if currv \<ge> min_version then
        wthen (WPACKET_put_bytes (A pkt) pkt (word_of_int currv) 2) (\<lambda>_ pkt.
          put_versions A min_version (currv - 1) pkt)
      else Done (Some (), pkt))"
  by pat_completeness auto
termination by (relation "measure (\<lambda>(A, mn, v, pkt). nat (v + 1 - mn))") auto

text \<open>What a constructor makes of the calls that write its extension.\<close>

definition ext_written ::
  "'w env \<Rightarrow> ssl_func \<Rightarrow> 'w ssl \<Rightarrow> unit wres \<Rightarrow> (ext_return \<times> 'w ssl \<times> wpacket) outcome" where
  "ext_written e f s r = and_then r (\<lambda>(ok, pkt). Done (case ok of
     None \<Rightarrow> (EXT_RETURN_FAIL, ossl_statem_fatal e SSL_AD_INTERNAL_ERROR f ERR_R_INTERNAL_ERROR s, pkt)
   | Some _ \<Rightarrow> (EXT_RETURN_SENT, s, pkt)))"

definition tls_construct_ctos_supported_versions ::
  "'w env \<Rightarrow> (wpacket \<Rightarrow> allocator) \<Rightarrow> (wpacket \<Rightarrow> bool) \<Rightarrow> 'w ssl \<Rightarrow> wpacket \<Rightarrow>
   (ext_return \<times> 'w ssl \<times> wpacket) outcome" where
  "tls_construct_ctos_supported_versions e A zok s pkt =
     (case ssl_get_min_max_version e s False of
        Inl reason \<Rightarrow> Done (EXT_RETURN_FAIL, ossl_statem_fatal e SSL_AD_INTERNAL_ERROR
                       SSL_F_TLS_CONSTRUCT_CTOS_SUPPORTED_VERSIONS reason s, pkt)
      | Inr (min_version, max_version, _) \<Rightarrow>
          if max_version < TLS1_3_VERSION then Done (EXT_RETURN_NOT_SENT, s, pkt)
          else ext_written e SSL_F_TLS_CONSTRUCT_CTOS_SUPPORTED_VERSIONS s
            (wthen (WPACKET_put_bytes (A pkt) pkt TLSEXT_TYPE_supported_versions 2) (\<lambda>_ pkt.
             wthen (WPACKET_start_sub_packet_len (A pkt) (zok pkt) pkt 2) (\<lambda>_ pkt.
             wthen (WPACKET_start_sub_packet_len (A pkt) (zok pkt) pkt 1) (\<lambda>_ pkt.
             wthen (put_versions A min_version max_version pkt) (\<lambda>_ pkt.
             wthen (WPACKET_close pkt) (\<lambda>_ pkt. WPACKET_close pkt)))))))"

definition tls_construct_stoc_supported_versions ::
  "'w env \<Rightarrow> (wpacket \<Rightarrow> allocator) \<Rightarrow> (wpacket \<Rightarrow> bool) \<Rightarrow> 'w ssl \<Rightarrow> wpacket \<Rightarrow>
   (ext_return \<times> 'w ssl \<times> wpacket) outcome" where
  "tls_construct_stoc_supported_versions e A zok s pkt =
     (if \<not> SSL_IS_TLS13 s
      then Done (EXT_RETURN_FAIL, ossl_statem_fatal e SSL_AD_INTERNAL_ERROR
             SSL_F_TLS_CONSTRUCT_STOC_SUPPORTED_VERSIONS ERR_R_INTERNAL_ERROR s, pkt)
      else ext_written e SSL_F_TLS_CONSTRUCT_STOC_SUPPORTED_VERSIONS s
        (wthen (WPACKET_put_bytes (A pkt) pkt TLSEXT_TYPE_supported_versions 2) (\<lambda>_ pkt.
         wthen (WPACKET_start_sub_packet_len (A pkt) (zok pkt) pkt 2) (\<lambda>_ pkt.
         wthen (WPACKET_put_bytes (A pkt) pkt (word_of_int (version s)) 2) (\<lambda>_ pkt. WPACKET_close pkt)))))"

subsection \<open>The server's choice\<close>

lemma PACKET_get_net_2_shrinks:
  assumes "PACKET_get_net_2 mem pkt = Done (v, pkt')"
  shows "pkt_remaining pkt' < pkt_remaining pkt"
proof -
  let ?r = "pkt_remaining pkt"
  have r: "2 \<le> ?r" "pkt_remaining pkt' = usub ?r 2" using assms
    by (auto simp: PACKET_get_net_2_def PACKET_peek_net_2_def PACKET_remaining_def packet_forward_def
        on_bytes_def split: if_splits option.splits)
  have "usub ?r 2 = (2 ^ 64 + (?r - 2)) mod 2 ^ 64" using r(1) by (simp add: usub_def)
  also have "\<dots> = (?r - 2) mod 2 ^ 64" by (rule mod_add_self1)
  also have "\<dots> \<le> ?r - 2" by simp
  finally show ?thesis using r by linarith
qed

text \<open>The loop over the client's list: the best version so far, its method, and the rest of the packet.\<close>

function pick_version ::
  "'w env \<Rightarrow> byte list \<Rightarrow> 'w ssl \<Rightarrow> packet \<Rightarrow> int \<Rightarrow> ssl_meth option \<Rightarrow> (int \<times> ssl_meth option \<times> packet) outcome" where
  "pick_version e mem s versionslist best_vers best_method =
     (case PACKET_get_net_2 mem versionslist of
        Fault \<Rightarrow> Fault
      | Fails \<Rightarrow> Done (best_vers, best_method, versionslist)
      | Done (candidate, versionslist) \<Rightarrow>
          let candidate_vers = uint candidate in
          if version_cmp s candidate_vers best_vers \<le> 0
          then pick_version e mem s versionslist best_vers best_method
          else (case ssl_version_supported e s candidate_vers of
                  (False, _) \<Rightarrow> pick_version e mem s versionslist best_vers best_method
                | (True, m) \<Rightarrow> pick_version e mem s versionslist candidate_vers
                                (case m of None \<Rightarrow> best_method | Some _ \<Rightarrow> m)))"
  by pat_completeness auto
termination by (relation "measure (\<lambda>(e, mem, s, pkt, v, m). pkt_remaining pkt)")
    (auto dest: PACKET_get_net_2_shrinks)

text \<open>The choice without the extension: the highest enabled version that is not above the client's.\<close>

fun legacy_choice ::
  "'w env \<Rightarrow> 'w ssl \<Rightarrow> int \<Rightarrow> version_info list \<Rightarrow> bool \<Rightarrow> ssl_reason + int \<times> ssl_meth" where
  "legacy_choice e s client_ver [] disabled =
     Inl (if disabled then SSL_R_UNSUPPORTED_PROTOCOL else SSL_R_VERSION_TOO_LOW)"
| "legacy_choice e s client_ver (vent # vents) disabled =
     (case smeth vent of
        None \<Rightarrow> legacy_choice e s client_ver vents disabled
      | Some m \<Rightarrow>
          if version_cmp s client_ver (vi_version vent) < 0 then legacy_choice e s client_ver vents disabled
          else if ssl_method_error e s m = None then Inr (vi_version vent, m)
          else legacy_choice e s client_ver vents True)"

text \<open>
  The result is \<open>None\<close> for success or the reason of the failure, with the downgrade indication, the
  extension and the connection after the call.  Storing a null method is a fault, since every later
  use of the connection dereferences it.
\<close>

definition choose_listed_version ::
  "'w env \<Rightarrow> byte list \<Rightarrow> 'w ssl \<Rightarrow> int \<Rightarrow> raw_extension \<Rightarrow> downgrade \<Rightarrow>
   (ssl_reason option \<times> downgrade \<times> raw_extension \<times> 'w ssl) outcome" where
  "choose_listed_version e mem s client_ver suppversions dgrd =
     (let suppversions = suppversions\<lparr>ext_parsed := True\<rparr>;
          failed = (\<lambda>r. Done (Some r, dgrd, suppversions, s))
      in case PACKET_as_length_prefixed_1 mem (ext_data suppversions) of
           Fault \<Rightarrow> Fault
         | Fails \<Rightarrow> failed SSL_R_LENGTH_MISMATCH
         | Done (versionslist, data) \<Rightarrow>
             let suppversions = suppversions\<lparr>ext_data := data\<rparr>;
                 failed = (\<lambda>r. Done (Some r, dgrd, suppversions, s))
             in if client_ver \<le> SSL3_VERSION then failed SSL_R_BAD_LEGACY_VERSION
                else and_then (pick_version e mem s versionslist 0 None)
                  (\<lambda>(best_vers, best_method, versionslist).
                    if PACKET_remaining versionslist \<noteq> 0 then failed SSL_R_LENGTH_MISMATCH
                    else if best_vers > 0 then
                      if hello_retry_request s \<noteq> SSL_HRR_NONE then
                        if best_vers \<noteq> TLS1_3_VERSION then failed SSL_R_UNSUPPORTED_PROTOCOL
                        else Done (None, dgrd, suppversions, s)
                      else (case best_method of
                              None \<Rightarrow> Fault
                            | Some m \<Rightarrow> Done (None, check_for_downgrade e s best_vers, suppversions,
                                             s\<lparr>version := best_vers, meth := m\<rparr>))
                    else failed SSL_R_UNSUPPORTED_PROTOCOL))"

definition ssl_choose_server_version ::
  "'w env \<Rightarrow> byte list \<Rightarrow> 'w ssl \<Rightarrow> int \<Rightarrow> raw_extension \<Rightarrow> downgrade \<Rightarrow>
   (ssl_reason option \<times> downgrade \<times> raw_extension \<times> 'w ssl) outcome" where
  "ssl_choose_server_version e mem s legacy_version suppversions dgrd =
     (let server_version = method_version (meth s);
          s = s\<lparr>client_version := legacy_version\<rparr>;
          failed = (\<lambda>r. Done (Some r, dgrd, suppversions, s))
      in if server_version \<noteq> TLS_ANY_VERSION \<and> server_version \<noteq> DTLS_ANY_VERSION \<and> \<not> SSL_IS_TLS13 s then
           if version_cmp s legacy_version (version s) < 0 then failed SSL_R_WRONG_SSL_VERSION
           else Done (None, DOWNGRADE_NONE, suppversions, s)
         else if \<not> ext_present suppversions \<and> hello_retry_request s \<noteq> SSL_HRR_NONE
         then failed SSL_R_UNSUPPORTED_PROTOCOL
         else if ext_present suppversions \<and> \<not> SSL_IS_DTLS s
         then choose_listed_version e mem s legacy_version suppversions dgrd
         else
           let client_ver = (if version_cmp s legacy_version TLS1_3_VERSION \<ge> 0 then TLS1_2_VERSION
                             else legacy_version)
           in case legacy_choice e s client_ver
                     (if server_version = DTLS_ANY_VERSION then dtls_version_table else tls_version_table) False of
                Inl r \<Rightarrow> failed r
              | Inr (v, m) \<Rightarrow>
                  Done (None, check_for_downgrade e s v, suppversions, s\<lparr>version := v, meth := m\<rparr>))"

definition tls11downgrade :: "byte list" where
  "tls11downgrade = [0x44, 0x4f, 0x57, 0x4e, 0x47, 0x52, 0x44, 0x00]"

definition tls12downgrade :: "byte list" where
  "tls12downgrade = [0x44, 0x4f, 0x57, 0x4e, 0x47, 0x52, 0x44, 0x01]"

text \<open>\<open>rand\<close> is the random generator, \<open>now\<close> the time; no result is a failure.\<close>

definition ssl_fill_hello_random ::
  "(nat \<Rightarrow> byte list option) \<Rightarrow> u32 \<Rightarrow> 'w ssl \<Rightarrow> bool \<Rightarrow> nat \<Rightarrow> downgrade \<Rightarrow> byte list option" where
  "ssl_fill_hello_random rand now s srv len dgrd =
     (if len < 4 then None
      else
        let send_time = (if srv then flag (mode s) SSL_MODE_SEND_SERVERHELLO_TIME
                         else flag (mode s) SSL_MODE_SEND_CLIENTHELLO_TIME)
        in case (if send_time then map_option (\<lambda>r. be_bytes 4 (unat now) @ r) (rand (len - 4)) else rand len) of
             None \<Rightarrow> None
           | Some result \<Rightarrow>
               if \<not> length tls11downgrade < len \<or> \<not> length tls12downgrade < len then None
               else Some (case dgrd of
                      DOWNGRADE_TO_1_2 \<Rightarrow> overwrite (len - length tls12downgrade) tls12downgrade result
                    | DOWNGRADE_TO_1_1 \<Rightarrow> overwrite (len - length tls11downgrade) tls11downgrade result
                    | DOWNGRADE_NONE \<Rightarrow> result))"

subsection \<open>The client's choice\<close>

abbreviation (input) SSL3_RANDOM_SIZE :: nat where "SSL3_RANDOM_SIZE \<equiv> 32"

definition sentinel :: "'w ssl \<Rightarrow> byte list \<Rightarrow> bool" where
  "sentinel s magic \<longleftrightarrow>
     chunk (SSL3_RANDOM_SIZE - length magic) (length magic) (server_random (s3 s)) = magic"

definition downgraded :: "'w ssl \<Rightarrow> int \<Rightarrow> bool" where
  "downgraded s real_max =
     (if version s = TLS1_2_VERSION \<and> real_max > version s then sentinel s tls12downgrade
      else if \<not> SSL_IS_DTLS s \<and> version s < TLS1_2_VERSION \<and> real_max > version s then sentinel s tls11downgrade
      else False)"

fun client_method :: "int \<Rightarrow> version_info list \<Rightarrow> ssl_meth option" where
  "client_method v [] = None"
| "client_method v (vent # vents) =
     (case cmeth vent of None \<Rightarrow> client_method v vents
      | Some m \<Rightarrow> if v \<noteq> vi_version vent then client_method v vents else Some m)"

definition ssl_choose_client_version ::
  "'w env \<Rightarrow> 'w ext_parser \<Rightarrow> byte list \<Rightarrow> 'w ssl \<Rightarrow> int \<Rightarrow> raw_extension \<Rightarrow>
   (bool \<times> raw_extension \<times> 'w ssl) outcome" where
  "ssl_choose_client_version e custom mem s ver suppversions =
     (let origv = version s; s = s\<lparr>version := ver\<rparr> in
      and_then (tls_parse_extension custom mem s (Some (supported_versions_def e))
                  (SSL_EXT_TLS1_2_SERVER_HELLO OR SSL_EXT_TLS1_3_SERVER_HELLO) suppversions)
        (\<lambda>(ok, x, s).
          let fatal = (\<lambda>al reason. Done (False, x, ossl_statem_fatal e al SSL_F_SSL_CHOOSE_CLIENT_VERSION reason
                                           (s\<lparr>version := origv\<rparr>)))
          in if \<not> ok then Done (False, x, s\<lparr>version := origv\<rparr>)
             else if hello_retry_request s \<noteq> SSL_HRR_NONE \<and> version s \<noteq> TLS1_3_VERSION
             then fatal SSL_AD_PROTOCOL_VERSION SSL_R_WRONG_SSL_VERSION
             else if method_version (meth s) \<noteq> TLS_ANY_VERSION \<and> method_version (meth s) \<noteq> DTLS_ANY_VERSION then
               if version s \<noteq> method_version (meth s) then fatal SSL_AD_PROTOCOL_VERSION SSL_R_WRONG_SSL_VERSION
               else Done (True, x, s)
             else case ssl_get_min_max_version e s True of
               Inl ret \<Rightarrow> fatal SSL_AD_PROTOCOL_VERSION ret
             | Inr (ver_min, ver_max, real_max) \<Rightarrow>
                 if (if SSL_IS_DTLS s then DTLS_VERSION_LT (version s) ver_min else version s < ver_min)
                 then fatal SSL_AD_PROTOCOL_VERSION SSL_R_UNSUPPORTED_PROTOCOL
                 else if (if SSL_IS_DTLS s then DTLS_VERSION_GT (version s) ver_max else version s > ver_max)
                 then fatal SSL_AD_PROTOCOL_VERSION SSL_R_UNSUPPORTED_PROTOCOL
                 else
                   let real_max = (if \<not> flag (mode s) SSL_MODE_SEND_FALLBACK_SCSV then ver_max else real_max)
                   in if downgraded s real_max then fatal SSL_AD_ILLEGAL_PARAMETER SSL_R_INAPPROPRIATE_FALLBACK
                      else (case client_method (version s)
                                   (if method_version (meth s) = TLS_ANY_VERSION then tls_version_table
                                    else dtls_version_table) of
                              Some m \<Rightarrow> Done (True, x, s\<lparr>meth := m\<rparr>)
                            | None \<Rightarrow> fatal SSL_AD_PROTOCOL_VERSION SSL_R_UNSUPPORTED_PROTOCOL)))"

subsection \<open>Which version the server chooses\<close>

declare put_versions.simps [simp del] pick_version.simps [simp del]

definition tls_supported :: "'w env \<Rightarrow> 'w ssl \<Rightarrow> int \<Rightarrow> bool" where
  "tls_supported e s v \<longleftrightarrow> tls_enabled e s v \<and> (\<not> server s \<or> v \<noteq> TLS1_3_VERSION \<or> is_tls13_capable e s)"

lemma version_cmp_tls:
  assumes "tls_flexible s"
  shows "version_cmp s a b = sgn (a - b)"
  using assms by (simp add: version_cmp_def tls_flexible_def)

lemma supported_loop_other:
  "tls_flexible s \<Longrightarrow> \<forall>vent \<in> set vents. vi_version vent \<noteq> v \<Longrightarrow> supported_loop e s v vents = (False, None)"
  by (induction vents) (auto simp: version_cmp_tls sgn_if split: option.split)

lemma supported_loop_here:
  assumes "tls_flexible s" and "cmeth vent = Some m" and "vi_version vent = v" and "\<forall>vent \<in> set vents. vi_version vent \<noteq> v"
  shows "supported_loop e s v (vent # vents) =
    (if ssl_method_error e s m = None \<and> (\<not> server s \<or> v \<noteq> TLS1_3_VERSION \<or> is_tls13_capable e s)
     then (True, Some m) else (False, None))"
  using assms(1-3) supported_loop_other [OF assms(1,4), of e] by (cases "v = TLS1_3_VERSION") (auto simp: version_cmp_tls)

lemma supported_loop_skip:
  "tls_flexible s \<Longrightarrow> v < vi_version vent \<Longrightarrow> supported_loop e s v (vent # vents) = supported_loop e s v vents"
  by (simp add: version_cmp_tls sgn_if split: option.split)

lemma ssl_version_supported_tls:
  assumes fl: "tls_flexible s"
  shows "ssl_version_supported e s v = (if tls_supported e s v then (True, tls_method_of v) else (False, None))"
proof -
  have tab: "ssl_version_supported e s v = supported_loop e s v tls_version_table"
    using fl by (simp add: ssl_version_supported_def tls_flexible_def)
  note here = supported_loop_here [OF fl] supported_loop_skip [OF fl]
  consider "v = 772" | "v = 771" | "v = 770" | "v = 769" | "v \<notin> {772, 771, 770, 769}" by blast
  then have "supported_loop e s v tls_version_table =
      (if tls_supported e s v then (True, tls_method_of v) else (False, None))"
  proof cases
    case 5
    then have "\<not> tls_supported e s v" by (auto simp: tls_supported_def tls_enabled_def tls_method_of_def)
    moreover have "supported_loop e s v tls_version_table = (False, None)"
    proof (cases "v = 768")
      case True
      then show ?thesis by (simp add: tls_version_table_def here del: supported_loop.simps)
          (simp add: version_cmp_tls [OF fl])
    next
      case False
      with 5 show ?thesis by (intro supported_loop_other [OF fl]) (auto simp: tls_version_table_def)
    qed
    ultimately show ?thesis by simp
  qed (simp_all add: tls_version_table_def here tls_supported_def tls_enabled_def tls_method_of_def
      del: supported_loop.simps)
  then show ?thesis by (simp only: tab)
qed

text \<open>The best version of a list, given one that is already known.\<close>

fun best_of :: "(int \<Rightarrow> bool) \<Rightarrow> int \<Rightarrow> int list \<Rightarrow> int" where
  "best_of ok b [] = b"
| "best_of ok b (v # vs) = best_of ok (if b < v \<and> ok v then v else b) vs"

lemma best_of_spec:
  "b \<le> best_of ok b vs" "best_of ok b vs \<noteq> b \<Longrightarrow> best_of ok b vs \<in> set vs \<and> ok (best_of ok b vs)"
  "v \<in> set vs \<Longrightarrow> ok v \<Longrightarrow> v \<le> best_of ok b vs"
proof (induction vs arbitrary: b)
  case (Cons x xs)
  {
    case 1
    show ?case using Cons(1) [of "if b < x \<and> ok x then x else b"] by (auto split: if_splits)
  next
    case 2
    then show ?case using Cons(2) [of "if b < x \<and> ok x then x else b"]
      by (cases "best_of ok x xs = x") (auto split: if_splits)
  next
    case 3
    then show ?case using Cons(3) [of "if b < x \<and> ok x then x else b"] Cons(1) [of "if b < x \<and> ok x then x else b"]
      by (auto split: if_splits)
  }
qed auto

lemma best_of_Max:
  assumes "\<And>v. ok v \<Longrightarrow> b < v"
  shows "best_of ok b vs = (if \<exists>v \<in> set vs. ok v then Max {v \<in> set vs. ok v} else b)"
proof (cases "\<exists>v \<in> set vs. ok v")
  case True
  then obtain v where v: "v \<in> set vs" "ok v" by blast
  then have "best_of ok b vs \<noteq> b" using best_of_spec(3) [of v vs ok b] v assms [of v] by linarith
  then have "best_of ok b vs = Max {v \<in> set vs. ok v}"
    using best_of_spec(2) [of ok b vs] best_of_spec(3) [of _ vs ok b] by (intro Max_eqI [symmetric]) auto
  with True show ?thesis by simp
next
  case False
  then show ?thesis using best_of_spec(2) [of ok b vs] by auto
qed

text \<open>The two-byte numbers a byte string consists of.\<close>

fun u16s :: "byte list \<Rightarrow> int list" where
  "u16s (a # b # bs) = int (be_val [a, b]) # u16s bs"
| "u16s bs = []"

lemma u16s_append: "even (length bs) \<Longrightarrow> u16s (bs @ cs) = u16s bs @ u16s cs"
  by (induction bs rule: u16s.induct) auto

lemma pick_version_spec:
  assumes fl: "tls_flexible s" and wf: "pkt_wf mem pkt"
  shows "\<exists>pkt'. pick_version e mem s pkt b m =
      Done (best_of (tls_supported e s) b (u16s (pkt_bytes mem pkt)),
        (if best_of (tls_supported e s) b (u16s (pkt_bytes mem pkt)) = b then m
         else tls_method_of (best_of (tls_supported e s) b (u16s (pkt_bytes mem pkt)))), pkt') \<and>
      pkt_remaining pkt' = pkt_remaining pkt mod 2"
  using wf
proof (induction "pkt_remaining pkt" arbitrary: pkt b m rule: less_induct)
  case less
  show ?case
  proof (cases "pkt_remaining pkt < 2")
    case True
    then have "length (pkt_bytes mem pkt) < 2" using less.prems by simp
    then have "u16s (pkt_bytes mem pkt) = []" by (cases "pkt_bytes mem pkt" rule: u16s.cases) auto
    moreover have "PACKET_get_net_2 mem pkt = Fails" using r2.get_spec [OF less.prems] True by simp
    ultimately show ?thesis using True by (subst pick_version.simps) simp
  next
    case False
    then obtain w p where g: "PACKET_get_net_2 mem pkt = Done (w, p)" using r2.get_spec [OF less.prems] by simp
    note G = r2.get_value [OF less.prems g]
    obtain x y bs where bs: "pkt_bytes mem pkt = x # y # bs"
      using False less.prems length_pkt_bytes [of mem pkt] by (cases "pkt_bytes mem pkt" rule: u16s.cases) auto
    let ?v = "int (be_val [x, y])"
    have w: "uint w = ?v" using G(1) bs by (simp add: uint_nat numeral_2_eq_2)
    have p: "pkt_bytes mem p = bs" "pkt_wf mem p" "pkt_remaining p = pkt_remaining pkt - 2"
      using G bs by simp_all
    let ?b = "if b < ?v \<and> tls_supported e s ?v then ?v else b"
    let ?m = "if b < ?v \<and> tls_supported e s ?v then tls_method_of ?v else m"
    have some: "tls_supported e s ?v \<Longrightarrow> tls_method_of ?v \<noteq> None"
      by (auto simp: tls_supported_def tls_enabled_def split: option.splits)
    have step: "pick_version e mem s pkt b m = pick_version e mem s p ?b ?m"
      using some by (subst pick_version.simps)
        (auto simp: g w Let_def version_cmp_tls [OF fl] ssl_version_supported_tls [OF fl] sgn_if split: option.splits)
    have "pkt_remaining p < pkt_remaining pkt" using p(3) False by simp
    from less.hyps [OF this p(2), of ?b ?m]
    obtain q where q: "pick_version e mem s p ?b ?m =
        Done (best_of (tls_supported e s) ?b (u16s bs),
          (if best_of (tls_supported e s) ?b (u16s bs) = ?b then ?m
           else tls_method_of (best_of (tls_supported e s) ?b (u16s bs))), q)"
        "pkt_remaining q = pkt_remaining p mod 2" unfolding p(1) by blast
    have "(pkt_remaining pkt - 2) mod 2 = pkt_remaining pkt mod 2" using False by (simp add: le_mod_geq)
    moreover have "best_of (tls_supported e s) ?b (u16s bs) = b \<Longrightarrow> ?b = b"
      using best_of_spec(1) [of ?b "tls_supported e s" "u16s bs"] by (auto split: if_splits)
    ultimately show ?thesis using q p(3) by (auto simp: step bs)
  qed
qed

text \<open>The outcome of the negotiation over a list of versions, as a function of the bytes of the extension.\<close>

definition listed_result :: "(int \<Rightarrow> bool) \<Rightarrow> int \<Rightarrow> byte list \<Rightarrow> ssl_reason + int" where
  "listed_result ok legacy bs =
     (case whole_spec 1 bs of
        None \<Rightarrow> Inl SSL_R_LENGTH_MISMATCH
      | Some (list, _) \<Rightarrow>
          if legacy \<le> SSL3_VERSION then Inl SSL_R_BAD_LEGACY_VERSION
          else if odd (length list) then Inl SSL_R_LENGTH_MISMATCH
          else if \<exists>v \<in> set (u16s list). ok v then Inr (Max {v \<in> set (u16s list). ok v})
          else Inl SSL_R_UNSUPPORTED_PROTOCOL)"

lemma tls_supported_pos: "tls_supported e s v \<Longrightarrow> 0 < v \<and> tls_method_of v \<noteq> None"
  by (auto simp: tls_supported_def tls_enabled_def tls_method_of_def split: if_splits)

lemma choose_listed_spec:
  assumes fl: "tls_flexible s" and hrr: "hello_retry_request s = SSL_HRR_NONE" and wf: "pkt_wf mem (ext_data x)"
  shows "\<exists>x'. choose_listed_version e mem s legacy x dg =
    (case listed_result (tls_supported e s) legacy (pkt_bytes mem (ext_data x)) of
       Inl r \<Rightarrow> Done (Some r, dg, x', s)
     | Inr v \<Rightarrow> Done (None, check_for_downgrade e s v, x', s\<lparr>version := v, meth := the (tls_method_of v)\<rparr>))"
proof -
  have m: "meets mem (PACKET_as_length_prefixed_1 mem (ext_data x)) (whole_spec 1 (pkt_bytes mem (ext_data x)))"
    using r1.whole [OF wf] by (simp add: PACKET_as_length_prefixed_1_def)
  show ?thesis
  proof (cases "PACKET_as_length_prefixed_1 mem (ext_data x)")
    case Fault
    with m show ?thesis by (simp add: meets_def)
  next
    case Fails
    with m show ?thesis by (auto simp: meets_def listed_result_def choose_listed_version_def Let_def)
  next
    case (Done r)
    obtain lst rest where r: "r = (lst, rest)" by fastforce
    have w: "pkt_wf mem lst" "whole_spec 1 (pkt_bytes mem (ext_data x)) = Some (pkt_bytes mem lst, pkt_bytes mem rest)"
      using m by (auto simp: meets_def Done r)
    let ?vs = "u16s (pkt_bytes mem lst)" and ?ok = "tls_supported e s"
    obtain q where q: "pick_version e mem s lst 0 None = Done (best_of ?ok 0 ?vs,
        if best_of ?ok 0 ?vs = 0 then None else tls_method_of (best_of ?ok 0 ?vs), q)"
        "pkt_remaining q = pkt_remaining lst mod 2"
      using pick_version_spec [OF fl w(1), of e 0 None] by blast
    have b: "best_of ?ok 0 ?vs = (if \<exists>v \<in> set ?vs. ?ok v then Max {v \<in> set ?vs. ?ok v} else 0)"
      using tls_supported_pos by (intro best_of_Max) blast
    have M: "0 < Max {v \<in> set ?vs. ?ok v} \<and> tls_method_of (Max {v \<in> set ?vs. ?ok v}) \<noteq> None"
      if "\<exists>v \<in> set ?vs. ?ok v"
      using that Max_in [of "{v \<in> set ?vs. ?ok v}"] tls_supported_pos by fastforce
    have odd: "(pkt_remaining q \<noteq> 0) = odd (length (pkt_bytes mem lst))" using q(2) w(1) by (simp add: odd_iff_mod_2_eq_one)
    let ?x = "x\<lparr>ext_parsed := True, ext_data := rest\<rparr>"
    have lr: "listed_result ?ok legacy (pkt_bytes mem (ext_data x)) =
        (if legacy \<le> SSL3_VERSION then Inl SSL_R_BAD_LEGACY_VERSION
         else if odd (length (pkt_bytes mem lst)) then Inl SSL_R_LENGTH_MISMATCH
         else if \<exists>v \<in> set ?vs. ?ok v then Inr (Max {v \<in> set ?vs. ?ok v}) else Inl SSL_R_UNSUPPORTED_PROTOCOL)"
      by (simp only: listed_result_def w(2) option.case prod.case)
    have "choose_listed_version e mem s legacy x dg =
      (case listed_result ?ok legacy (pkt_bytes mem (ext_data x)) of
         Inl r \<Rightarrow> Done (Some r, dg, ?x, s)
       | Inr v \<Rightarrow> Done (None, check_for_downgrade e s v, ?x, s\<lparr>version := v, meth := the (tls_method_of v)\<rparr>))"
    proof (cases "legacy \<le> SSL3_VERSION \<or> odd (length (pkt_bytes mem lst))")
      case True
      then show ?thesis unfolding lr
        by (auto simp: choose_listed_version_def Let_def Done r q(1) PACKET_remaining_def odd [symmetric] simp del: odd_pos)
    next
      case False
      then have "legacy > 768" "pkt_remaining q = 0" using odd by auto
      then show ?thesis unfolding lr using False M hrr
        by (cases "\<exists>v \<in> set ?vs. ?ok v")
          (auto simp: choose_listed_version_def Let_def Done r q(1) PACKET_remaining_def b)
    qed
    then show ?thesis by blast
  qed
qed

lemma SSL_IS_updates [simp]:
  "SSL_IS_DTLS (s\<lparr>client_version := c\<rparr>) = SSL_IS_DTLS s" "SSL_IS_DTLS (s\<lparr>version := v\<rparr>) = SSL_IS_DTLS s"
  "SSL_IS_TLS13 (s\<lparr>client_version := c\<rparr>) = SSL_IS_TLS13 s" "SSL_IS_TLS13 (s\<lparr>version := v\<rparr>) = SSL_IS_TLS13 s"
  by (simp_all add: SSL_IS_DTLS_def SSL_IS_TLS13_def)

lemma tls_flexible_updates [simp]:
  "tls_flexible (s\<lparr>client_version := c\<rparr>) = tls_flexible s" "tls_flexible (s\<lparr>version := v\<rparr>) = tls_flexible s"
  by (simp_all add: tls_flexible_def)

text \<open>The walk through the table, entry by entry: either an entry that is enabled and not above the limit, the
  first one, or none.\<close>

definition usable :: "'w env \<Rightarrow> 'w ssl \<Rightarrow> int \<Rightarrow> version_info \<Rightarrow> bool" where
  "usable e s limit vent \<longleftrightarrow> vi_version vent \<le> limit \<and>
     (case smeth vent of None \<Rightarrow> False | Some m \<Rightarrow> ssl_method_error e s m = None)"

lemma legacy_choice_find:
  assumes "tls_flexible s"
  shows "case find (usable e s limit) vents of
      None \<Rightarrow> \<exists>r. legacy_choice e s limit vents d = Inl r
    | Some vent \<Rightarrow> legacy_choice e s limit vents d = Inr (vi_version vent, the (smeth vent))"
  by (induction vents arbitrary: d)
    (auto simp: usable_def version_cmp_tls [OF assms] sgn_if split: option.splits)

lemma usable_tls:
  "(\<exists>vent \<in> set tls_version_table. usable e s limit vent \<and> vi_version vent = v) \<longleftrightarrow> tls_enabled e s v \<and> v \<le> limit"
  by (auto simp: tls_version_table_def usable_def tls_enabled_def tls_method_of_def)

lemma legacy_choice_tls:
  assumes fl: "tls_flexible s"
  shows "if \<exists>v. tls_enabled e s v \<and> v \<le> limit
    then \<exists>v. tls_enabled e s v \<and> v \<le> limit \<and> (\<forall>w. tls_enabled e s w \<and> w \<le> limit \<longrightarrow> w \<le> v) \<and>
      legacy_choice e s limit tls_version_table d = Inr (v, the (tls_method_of v))
    else \<exists>r. legacy_choice e s limit tls_version_table d = Inl r"
proof (cases "find (usable e s limit) tls_version_table")
  case None
  then have "\<not> (\<exists>v. tls_enabled e s v \<and> v \<le> limit)"
    using usable_tls [of e s limit] by (auto simp: find_None_iff)
  with None show ?thesis using legacy_choice_find [OF fl, of e limit tls_version_table d] by auto
next
  case (Some vent)
  then obtain i where i: "i < length tls_version_table" "usable e s limit (tls_version_table ! i)"
      "vent = tls_version_table ! i" "\<forall>j < i. \<not> usable e s limit (tls_version_table ! j)"
    by (auto simp: find_Some_iff)
  have srt: "sorted_wrt (\<lambda>a b. vi_version a > vi_version b) tls_version_table" by (simp add: tls_version_table_def)
  have vent: "vent \<in> set tls_version_table" "usable e s limit vent" using i by auto
  let ?v = "vi_version vent"
  have v: "tls_enabled e s ?v \<and> ?v \<le> limit" using usable_tls [of e s limit ?v] vent by blast
  have hi: "w \<le> ?v" if h: "tls_enabled e s w \<and> w \<le> limit" for w
  proof -
    obtain u where u: "u \<in> set tls_version_table" "usable e s limit u" "vi_version u = w"
      using usable_tls [of e s limit w] h by blast
    then obtain j where j: "j < length tls_version_table" "u = tls_version_table ! j" by (auto simp: in_set_conv_nth)
    then have "i \<le> j" using i(4) u(2) by (meson not_le)
    then show ?thesis using sorted_wrt_nth_less [OF srt, of i j] j i(3) u(3) by (cases "i = j") auto
  qed
  have "the (smeth vent) = the (tls_method_of ?v)" using vent
    by (auto simp: tls_version_table_def usable_def tls_method_of_def)
  then show ?thesis using legacy_choice_find [OF fl, of e limit tls_version_table d] Some v hi by auto
qed

lemma server_choice_spec:
  assumes "tls_flexible s" and "hello_retry_request s = SSL_HRR_NONE" and "pkt_wf mem (ext_data x)"
    and "s1 = s\<lparr>client_version := legacy\<rparr>"
  shows "(ext_present x \<longrightarrow> (\<exists>x'. ssl_choose_server_version e mem s legacy x dg =
      (case listed_result (tls_supported e s1) legacy (pkt_bytes mem (ext_data x)) of
         Inl r \<Rightarrow> Done (Some r, dg, x', s1)
       | Inr v \<Rightarrow> Done (None, check_for_downgrade e s1 v, x', s1\<lparr>version := v, meth := the (tls_method_of v)\<rparr>)))) \<and>
    (\<not> ext_present x \<longrightarrow>
      (let ok = (\<lambda>v. tls_enabled e s1 v \<and> v \<le> legacy \<and> v \<le> TLS1_2_VERSION)
       in if \<exists>v. ok v
          then \<exists>v. ok v \<and> (\<forall>w. ok w \<longrightarrow> w \<le> v) \<and> ssl_choose_server_version e mem s legacy x dg =
            Done (None, check_for_downgrade e s1 v, x, s1\<lparr>version := v, meth := the (tls_method_of v)\<rparr>)
          else \<exists>r. ssl_choose_server_version e mem s legacy x dg = Done (Some r, dg, x, s1)))"
proof (intro conjI impI)
  have fl: "tls_flexible s1" "method_version (meth s) = TLS_ANY_VERSION" "\<not> SSL_IS_DTLS s" "\<not> SSL_IS_TLS13 s"
    using assms by (auto simp: tls_flexible_def SSL_IS_TLS13_def)
  have hrr: "hello_retry_request s1 = SSL_HRR_NONE" using assms by simp
  show "\<exists>x'. ssl_choose_server_version e mem s legacy x dg =
      (case listed_result (tls_supported e s1) legacy (pkt_bytes mem (ext_data x)) of
         Inl r \<Rightarrow> Done (Some r, dg, x', s1)
       | Inr v \<Rightarrow> Done (None, check_for_downgrade e s1 v, x', s1\<lparr>version := v, meth := the (tls_method_of v)\<rparr>))"
    if "ext_present x"
    using choose_listed_spec [OF fl(1) hrr assms(3), of e legacy dg] that fl assms(4)
    by (simp add: ssl_choose_server_version_def Let_def)
  show "let ok = (\<lambda>v. tls_enabled e s1 v \<and> v \<le> legacy \<and> v \<le> TLS1_2_VERSION)
     in if \<exists>v. ok v
        then \<exists>v. ok v \<and> (\<forall>w. ok w \<longrightarrow> w \<le> v) \<and> ssl_choose_server_version e mem s legacy x dg =
          Done (None, check_for_downgrade e s1 v, x, s1\<lparr>version := v, meth := the (tls_method_of v)\<rparr>)
        else \<exists>r. ssl_choose_server_version e mem s legacy x dg = Done (Some r, dg, x, s1)"
    if "\<not> ext_present x"
  proof -
    define limit where "limit = (if legacy \<ge> TLS1_3_VERSION then TLS1_2_VERSION else legacy)"
    have ok: "v \<le> limit \<longleftrightarrow> v \<le> legacy \<and> v \<le> TLS1_2_VERSION" for v by (auto simp: limit_def)
    have lim: "(if version_cmp s1 legacy TLS1_3_VERSION \<ge> 0 then TLS1_2_VERSION else legacy) = limit"
      using fl(1) by (simp add: limit_def version_cmp_tls sgn_if)
    have run: "ssl_choose_server_version e mem s legacy x dg =
        (case legacy_choice e s1 limit tls_version_table False of
           Inl r \<Rightarrow> Done (Some r, dg, x, s1)
         | Inr (v, m) \<Rightarrow> Done (None, check_for_downgrade e s1 v, x, s1\<lparr>version := v, meth := m\<rparr>))"
      using that fl assms(2) lim unfolding assms(4) by (simp add: ssl_choose_server_version_def Let_def)
    show ?thesis unfolding Let_def run using legacy_choice_tls [OF fl(1), of e limit False]
      unfolding ok by (auto split: if_splits)
  qed
qed

text \<open>
  C9.  A server with the version-flexible method that receives a list of versions chooses the highest one of them
  that it supports, and reports a malformed list, a forbidden legacy version or the lack of a common
  version; a server that receives none chooses the highest enabled version up to TLS 1.2 that is not above the client's
  version, and fails exactly when there is none.
\<close>

theorem server_version_choice:
  assumes "tls_flexible s" and "hello_retry_request s = SSL_HRR_NONE" and "pkt_wf mem (ext_data x)"
    and "s1 = s\<lparr>client_version := legacy\<rparr>"
  shows "(ext_present x \<longrightarrow> (\<exists>x'. ssl_choose_server_version e mem s legacy x dg =
      (case listed_result (tls_supported e s1) legacy (pkt_bytes mem (ext_data x)) of
         Inl r \<Rightarrow> Done (Some r, dg, x', s1)
       | Inr v \<Rightarrow> Done (None, check_for_downgrade e s1 v, x', s1\<lparr>version := v, meth := the (tls_method_of v)\<rparr>)))) \<and>
    (\<not> ext_present x \<longrightarrow>
      (let ok = (\<lambda>v. tls_enabled e s1 v \<and> v \<le> legacy \<and> v \<le> TLS1_2_VERSION)
       in if \<exists>v. ok v
          then \<exists>v. ok v \<and> (\<forall>w. ok w \<longrightarrow> w \<le> v) \<and> ssl_choose_server_version e mem s legacy x dg =
            Done (None, check_for_downgrade e s1 v, x, s1\<lparr>version := v, meth := the (tls_method_of v)\<rparr>)
          else \<exists>r. ssl_choose_server_version e mem s legacy x dg = Done (Some r, dg, x, s1)))"
  using assms by (rule server_choice_spec)

subsection \<open>What the client accepts\<close>

text \<open>The security policy does not depend on the version the connection happens to have negotiated, as in the
  library's own callback, which looks at the version in question, the protocol family and the
  security level.\<close>

definition policy_stable :: "'w env \<Rightarrow> bool" where
  "policy_stable e \<longleftrightarrow>
     (\<forall>q s v. query e q (s\<lparr>version := v\<rparr>) = query e q s \<and> query e q (s\<lparr>client_version := v\<rparr>) = query e q s)"

lemma policy_stableD:
  assumes "policy_stable e"
  shows "query e q (s\<lparr>version := v\<rparr>) = query e q s" and "query e q (s\<lparr>client_version := v\<rparr>) = query e q s"
  using assms unfolding policy_stable_def by blast+

lemma version_cmp_updates:
  "version_cmp (s\<lparr>version := v\<rparr>) = version_cmp s" "version_cmp (s\<lparr>client_version := v\<rparr>) = version_cmp s"
  "tls1_suiteb (s\<lparr>version := v\<rparr>) = tls1_suiteb s" "tls1_suiteb (s\<lparr>client_version := v\<rparr>) = tls1_suiteb s"
  by (auto simp: version_cmp_def fun_eq_iff tls1_suiteb_def)

lemma ssl_method_error_stable:
  assumes "policy_stable e"
  shows "ssl_method_error e (s\<lparr>version := v\<rparr>) = ssl_method_error e s"
    and "ssl_method_error e (s\<lparr>client_version := v\<rparr>) = ssl_method_error e s"
  by (rule ext, simp add: ssl_method_error_def Let_def policy_stableD [OF assms] version_cmp_updates cong: if_cong)+

lemma is_tls13_capable_stable:
  assumes "policy_stable e"
  shows "is_tls13_capable e (s\<lparr>client_version := v\<rparr>) = is_tls13_capable e s"
proof -
  note q = policy_stableD(2) [OF assms]
  have "tls13_cert_slot e (s\<lparr>client_version := v\<rparr>) = tls13_cert_slot e s" by (intro ext) (simp add: tls13_cert_slot_def q)
  then show ?thesis by (simp only: is_tls13_capable_def q)
qed

lemma tls_enabled_stable:
  assumes "policy_stable e"
  shows "tls_enabled e (s\<lparr>version := v\<rparr>) w = tls_enabled e s w"
    and "tls_enabled e (s\<lparr>client_version := v\<rparr>) w = tls_enabled e s w"
    and "tls_supported e (s\<lparr>client_version := v\<rparr>) w = tls_supported e s w"
proof -
  show e: "tls_enabled e (s\<lparr>version := v\<rparr>) w = tls_enabled e s w" "tls_enabled e (s\<lparr>client_version := v\<rparr>) w = tls_enabled e s w"
    by (simp_all only: tls_enabled_def ssl_method_error_stable [OF assms])
  show "tls_supported e (s\<lparr>client_version := v\<rparr>) w = tls_supported e s w"
    by (simp add: tls_supported_def e is_tls13_capable_stable [OF assms])
qed

lemma min_max_stable:
  assumes "policy_stable e" and "tls_flexible s"
  shows "ssl_get_min_max_version e (s\<lparr>version := v\<rparr>) wr = ssl_get_min_max_version e s wr"
proof -
  have "min_max_step e (s\<lparr>version := v\<rparr>) wr = min_max_step e s wr"
    by (intro ext) (simp only: min_max_step_def ssl_method_error_stable [OF assms(1)])
  then show ?thesis using assms(2) by (simp add: ssl_get_min_max_version_def min_max_loop_def tls_flexible_def)
qed

lemma min_max_real:
  assumes "tls_flexible s" and "ssl_get_min_max_version e s True = Inr (mn, mx, r)"
  shows "\<exists>r'. ssl_get_min_max_version e s False = Inr (mn, mx, r')"
proof -
  have "tls_range (tls_enabled e s 772) (tls_enabled e s 771) (tls_enabled e s 770) (tls_enabled e s 769) = (mn, mx) \<and> mx \<noteq> 0"
    using assms min_max_tls [of e s True]
    by (auto simp: ssl_get_min_max_version_def tls_flexible_def Let_def split: if_splits)
  then show ?thesis
    using assms(1) min_max_tls [of e s False] by (auto simp: ssl_get_min_max_version_def tls_flexible_def Let_def)
qed

text \<open>The client's decision, when the server's version is known: from the legacy field, or TLS 1.3 from the
  extension.\<close>

definition client_accepts :: "'w env \<Rightarrow> 'w ssl \<Rightarrow> int \<Rightarrow> int \<Rightarrow> int \<Rightarrow> bool" where
  "client_accepts e s mn mx v \<longleftrightarrow> mn \<le> v \<and> v \<le> mx \<and>
     \<not> (v < mx \<and> v = TLS1_2_VERSION \<and> sentinel s tls12downgrade) \<and>
     \<not> (v < mx \<and> v < TLS1_2_VERSION \<and> sentinel s tls11downgrade)"

lemma client_method_tls: "client_method v tls_version_table = tls_method_of v"
  by (simp add: tls_version_table_def tls_method_of_def)

lemma sentinel_version [simp]: "sentinel (s\<lparr>version := v\<rparr>) m = sentinel s m"
  by (simp add: sentinel_def)

lemma client_choice:
  assumes st: "policy_stable e" and fl: "tls_flexible s" and mode: "\<not> flag (mode s) SSL_MODE_SEND_FALLBACK_SCSV"
    and hrr: "hello_retry_request s = SSL_HRR_NONE" and mm: "ssl_get_min_max_version e s True = Inr (mn, mx, r)"
    and p: "tls_parse_extension custom mem (s\<lparr>version := ver\<rparr>) (Some (supported_versions_def e))
              (SSL_EXT_TLS1_2_SERVER_HELLO OR SSL_EXT_TLS1_3_SERVER_HELLO) x = Done (True, x', s\<lparr>version := v\<rparr>)"
  shows "if client_accepts e s mn mx v
    then ssl_choose_client_version e custom mem s ver x = Done (True, x', s\<lparr>version := v, meth := the (tls_method_of v)\<rparr>)
    else \<exists>s'. ssl_choose_client_version e custom mem s ver x = Done (False, x', s') \<and>
      flow_state (statem s') = MSG_FLOW_ERROR"
proof -
  let ?s = "s\<lparr>version := v\<rparr>"
  have f: "method_version (meth s) = TLS_ANY_VERSION" "\<not> SSL_IS_DTLS s" using fl by (simp_all add: tls_flexible_def)
  have mm': "ssl_get_min_max_version e ?s True = Inr (mn, mx, r)" using mm min_max_stable [OF st fl] by simp
  have T: "tls_method_of v \<noteq> None" if "mn \<le> v" "v \<le> mx"
    using tls_min_max(3) [OF fl mm that] by (auto simp: tls_enabled_def split: option.splits)
  have dg: "downgraded ?s mx \<longleftrightarrow> v < mx \<and> v = TLS1_2_VERSION \<and> sentinel s tls12downgrade \<or>
      v < mx \<and> v < TLS1_2_VERSION \<and> sentinel s tls11downgrade"
    using f by (auto simp: downgraded_def)
  define fatal where "fatal al reason = Done (False, x', ossl_statem_fatal e al SSL_F_SSL_CHOOSE_CLIENT_VERSION reason
      (?s\<lparr>version := version s\<rparr>))" for al reason
  have run: "ssl_choose_client_version e custom mem s ver x =
      (if v < mn then fatal SSL_AD_PROTOCOL_VERSION SSL_R_UNSUPPORTED_PROTOCOL
       else if v > mx then fatal SSL_AD_PROTOCOL_VERSION SSL_R_UNSUPPORTED_PROTOCOL
       else if downgraded ?s mx then fatal SSL_AD_ILLEGAL_PARAMETER SSL_R_INAPPROPRIATE_FALLBACK
       else case tls_method_of v of Some m \<Rightarrow> Done (True, x', ?s\<lparr>meth := m\<rparr>)
         | None \<Rightarrow> fatal SSL_AD_PROTOCOL_VERSION SSL_R_UNSUPPORTED_PROTOCOL)"
    using p f mode hrr mm'
    by (simp add: ssl_choose_client_version_def Let_def fatal_def client_method_tls split: option.split)
  show ?thesis
  proof (cases "client_accepts e s mn mx v")
    case True
    then have "mn \<le> v" "v \<le> mx" "\<not> downgraded ?s mx" unfolding dg by (auto simp: client_accepts_def)
    with T True show ?thesis by (auto simp: run)
  next
    case False
    then have "v < mn \<or> v > mx \<or> downgraded ?s mx" unfolding dg by (auto simp: client_accepts_def)
    with False show ?thesis by (auto simp: run fatal_def)
  qed
qed

lemma parse_absent:
  "\<not> ext_present x \<Longrightarrow> tls_parse_extension custom mem s d c x = Done (True, x, s)"
  by (simp add: tls_parse_extension_def)

lemma downgrade_lengths [simp]: "length tls11downgrade = 8" "length tls12downgrade = 8"
  by (simp_all add: tls11downgrade_def tls12downgrade_def)

text \<open>The random value of a server that marks a downgrade ends with the sentinel.\<close>

definition rand_ok :: "(nat \<Rightarrow> byte list option) \<Rightarrow> bool" where
  "rand_ok rand \<longleftrightarrow> (\<forall>n r. rand n = Some r \<longrightarrow> length r = n)"

lemma fill_random_sentinel:
  assumes "rand_ok rand" and "ssl_fill_hello_random rand now s srv SSL3_RANDOM_SIZE dg = Some r"
  shows "dg = DOWNGRADE_TO_1_2 \<Longrightarrow> chunk 24 8 r = tls12downgrade"
    and "dg = DOWNGRADE_TO_1_1 \<Longrightarrow> chunk 24 8 r = tls11downgrade"
proof -
  define st where "st = (if srv then flag (mode s) SSL_MODE_SEND_SERVERHELLO_TIME
    else flag (mode s) SSL_MODE_SEND_CLIENTHELLO_TIME)"
  obtain b where b: "(if st then map_option (\<lambda>r. be_bytes 4 (unat now) @ r) (rand (32 - 4)) else rand 32) = Some b"
    and r: "r = (case dg of DOWNGRADE_TO_1_2 \<Rightarrow> overwrite (32 - length tls12downgrade) tls12downgrade b
        | DOWNGRADE_TO_1_1 \<Rightarrow> overwrite (32 - length tls11downgrade) tls11downgrade b | DOWNGRADE_NONE \<Rightarrow> b)"
    using assms(2) by (auto simp: ssl_fill_hello_random_def Let_def st_def split: option.splits)
  have "length b = 32" using b assms(1) by (auto simp: rand_ok_def split: if_splits)
  then show "dg = DOWNGRADE_TO_1_2 \<Longrightarrow> chunk 24 8 r = tls12downgrade" "dg = DOWNGRADE_TO_1_1 \<Longrightarrow> chunk 24 8 r = tls11downgrade"
    using r by (simp_all add: chunk_def overwrite_def)
qed

lemma check_for_downgrade_tls:
  assumes "tls_flexible s"
  shows "check_for_downgrade e s v =
    (if v = TLS1_2_VERSION \<and> tls_supported e s TLS1_3_VERSION then DOWNGRADE_TO_1_2
     else if v < TLS1_2_VERSION \<and> tls_supported e s TLS1_2_VERSION then DOWNGRADE_TO_1_1 else DOWNGRADE_NONE)"
  using assms by (simp add: check_for_downgrade_def ssl_version_supported_tls tls_flexible_def)

lemma server_choice_downgrade:
  assumes "tls_flexible s" and "hello_retry_request s = SSL_HRR_NONE" and "pkt_wf mem (ext_data x)"
    and "ssl_choose_server_version e mem s legacy x dg0 = Done (None, dg, x', s')"
  shows "dg = check_for_downgrade e (s\<lparr>client_version := legacy\<rparr>) (version s')"
proof (cases "ext_present x")
  case True
  with server_choice_spec [OF assms(1-3) refl, of e legacy dg0] assms(4) obtain v where
    "s' = s\<lparr>client_version := legacy, version := v, meth := the (tls_method_of v)\<rparr>"
    "dg = check_for_downgrade e (s\<lparr>client_version := legacy\<rparr>) v"
    by (cases "listed_result (tls_supported e (s\<lparr>client_version := legacy\<rparr>)) legacy (pkt_bytes mem (ext_data x))") auto
  then show ?thesis by simp
next
  case False
  with server_choice_spec [OF assms(1-3) refl, of e legacy dg0] assms(4) obtain v where
    "s' = s\<lparr>client_version := legacy, version := v, meth := the (tls_method_of v)\<rparr>"
    "dg = check_for_downgrade e (s\<lparr>client_version := legacy\<rparr>) v"
    by (auto simp: Let_def split: if_splits)
  then show ?thesis by simp
qed


subsection \<open>The extension on the wire\<close>

lemma wthen_assoc: "wthen (wthen r f) g = wthen r (\<lambda>v pkt. wthen (f v pkt) g)"
  by (cases r) (auto simp: wthen_def split: option.splits)

lemma unat_version: "0 \<le> v \<Longrightarrow> v < 65536 \<Longrightarrow> unat (word_of_int v :: u32) = nat v"
  by (simp add: unat_eq_nat_uint uint_word_of_int_eq take_bit_int_eq_self)

lemma sub_packet_spec:
  assumes wf: "wp_wf pkt" and ok: "alloc_ok alloc"
    and body: "\<And>q. wp_wf q \<Longrightarrow> ensures (body q) (\<lambda>_. extends q bs)"
  shows "ensures (wthen (WPACKET_start_sub_packet_len alloc zok pkt k) (\<lambda>_ q.
      wthen (body q) (\<lambda>_ r. WPACKET_close r))) (\<lambda>_. extends pkt (be_bytes k (length bs) @ bs))"
proof (rule ensures_wthen [OF start_sub_packet_spec [OF wf ok]])
  fix v q assume o: "opened pkt k 0 q"
  then have "wp_wf q" by (simp add: opened_def)
  from body [OF this] show "ensures (wthen (body q) (\<lambda>_ r. WPACKET_close r))
      (\<lambda>_. extends pkt (be_bytes k (length bs) @ bs))"
  proof (rule ensures_wthen)
    fix v r assume "extends q bs r"
    from close_spec [OF _ o this] wf
    show "ensures (WPACKET_close r) (\<lambda>_. extends pkt (be_bytes k (length bs) @ bs))"
      by (auto simp: wp_wf_def elim: ensures_mono)
  qed
qed

text \<open>The list of versions from \<open>mx\<close> down to \<open>mn\<close>, as bytes.\<close>

definition version_bytes :: "int \<Rightarrow> int \<Rightarrow> byte list" where
  "version_bytes mn mx = concat (map (\<lambda>v. be_bytes 2 (nat v)) (rev [mn..mx]))"

lemma version_bytes_simps:
  "mn \<le> mx \<Longrightarrow> version_bytes mn mx = be_bytes 2 (nat mx) @ version_bytes mn (mx - 1)"
  "mx < mn \<Longrightarrow> version_bytes mn mx = []"
  by (simp_all add: version_bytes_def upto_rec2)

lemma put_versions_spec:
  assumes "\<forall>p. alloc_ok (A p)" and "0 \<le> mn" and "mx < 65536" and "wp_wf pkt"
  shows "ensures (put_versions A mn mx pkt) (\<lambda>_. extends pkt (version_bytes mn mx))"
  using assms(3-)
proof (induction "nat (mx + 1 - mn)" arbitrary: mx pkt rule: less_induct)
  case less
  show ?case
  proof (cases "mn \<le> mx")
    case False
    then show ?thesis using less.prems
      by (subst put_versions.simps) (simp add: version_bytes_simps extends_refl)
  next
    case True
    have u: "unat (word_of_int mx :: u32) = nat mx"
      using True assms(2) less.prems(1) by (intro unat_version) auto
    have "ensures (wthen (WPACKET_put_bytes (A pkt) pkt (word_of_int mx) 2) (\<lambda>_ pkt. put_versions A mn (mx - 1) pkt))
        (\<lambda>_. extends pkt (version_bytes mn mx))"
    proof (rule ensures_wthen [OF put_bytes_spec])
      show "wp_wf pkt" "alloc_ok (A pkt)" using less.prems assms(1) by auto
    next
      fix v :: unit and q
      assume "extends pkt (be_bytes 2 (unat (word_of_int mx :: u32))) q \<and> unat (word_of_int mx :: u32) < 256 ^ 2 \<and> (0::nat) < 2 \<and> (2::nat) \<le> 4"
      then have q: "extends pkt (be_bytes 2 (nat mx)) q" unfolding u by blast
      then have "wp_wf q" by (simp add: extends_def)
      with less.hyps [of "mx - 1" q] True less.prems
      have "ensures (put_versions A mn (mx - 1) q) (\<lambda>_. extends q (version_bytes mn (mx - 1)))" by simp
      then show "ensures (put_versions A mn (mx - 1) q) (\<lambda>_. extends pkt (version_bytes mn mx))"
        unfolding version_bytes_simps(1) [OF True] by (rule ensures_mono) (rule extends_trans [OF q])
    qed
    with True show ?thesis by (subst put_versions.simps) simp
  qed
qed

text \<open>A type and a value with a two-byte length: what every extension looks like.\<close>

definition ext_bytes :: "u32 \<Rightarrow> byte list \<Rightarrow> byte list" where
  "ext_bytes type body = be_bytes 2 (unat type) @ be_bytes 2 (length body) @ body"

lemma extension_spec:
  assumes A: "\<forall>p. alloc_ok (A p)" and wf: "wp_wf pkt" and body: "\<And>q. wp_wf q \<Longrightarrow> ensures (body q) (\<lambda>_. extends q bs)"
  shows "ensures (wthen (WPACKET_put_bytes (A pkt) pkt type 2) (\<lambda>_ pkt.
      wthen (WPACKET_start_sub_packet_len (A pkt) (zok pkt) pkt 2) (\<lambda>_ q.
        wthen (body q) (\<lambda>_ r. WPACKET_close r)))) (\<lambda>_. extends pkt (ext_bytes type bs))"
proof (rule ensures_wthen [OF put_bytes_spec [OF wf]])
  show "alloc_ok (A pkt)" using A by simp
next
  fix v q assume "extends pkt (be_bytes 2 (unat type)) q \<and> unat type < 256 ^ 2 \<and> (0::nat) < 2 \<and> (2::nat) \<le> 4"
  then have q: "extends pkt (be_bytes 2 (unat type)) q" by blast
  then have wq: "wp_wf q" by (simp add: extends_def)
  have "ensures (wthen (WPACKET_start_sub_packet_len (A q) (zok q) q 2) (\<lambda>_ q. wthen (body q) (\<lambda>_ r. WPACKET_close r)))
      (\<lambda>_. extends q (be_bytes 2 (length bs) @ bs))"
    using A body by (intro sub_packet_spec [OF wq]) auto
  then show "ensures (wthen (WPACKET_start_sub_packet_len (A q) (zok q) q 2) (\<lambda>_ q.
        wthen (body q) (\<lambda>_ r. WPACKET_close r))) (\<lambda>_. extends pkt (ext_bytes type bs))"
    unfolding ext_bytes_def by (rule ensures_mono) (rule extends_trans [OF q])
qed

lemma ext_written_sent:
  assumes "ensures r (\<lambda>_. Q)" and "ext_written e f s r = Done (EXT_RETURN_SENT, s', pkt')"
  shows "s' = s \<and> Q pkt'"
  using assms by (auto simp: ext_written_def ensures_def split: outcome.splits option.splits prod.splits)

lemma construct_ctos_sent:
  assumes A: "\<forall>p. alloc_ok (A p)" and wf: "wp_wf pkt" and fl: "tls_flexible s"
    and mm: "ssl_get_min_max_version e s False = Inr (mn, mx, r)"
    and c: "tls_construct_ctos_supported_versions e A zok s pkt = Done (EXT_RETURN_SENT, s', pkt')"
  shows "extends pkt (ext_bytes TLSEXT_TYPE_supported_versions
      (be_bytes 1 (length (version_bytes mn mx)) @ version_bytes mn mx)) pkt'" and "mx = TLS1_3_VERSION"
proof -
  have rng: "TLS1_VERSION \<le> mn" "mx \<le> TLS1_3_VERSION" "mn \<le> mx"
    using tls_min_max(1-3) [OF fl mm] tls_enabled_range by force+
  have body: "ensures (wthen (WPACKET_start_sub_packet_len (A q) (zok q) q 1) (\<lambda>_ pkt.
      wthen (put_versions A mn mx pkt) (\<lambda>_ pkt. WPACKET_close pkt)))
      (\<lambda>_. extends q (be_bytes 1 (length (version_bytes mn mx)) @ version_bytes mn mx))" if "wp_wf q" for q
    using A rng by (intro sub_packet_spec [OF that] put_versions_spec) auto
  show "mx = TLS1_3_VERSION" using c mm rng
    by (auto simp: tls_construct_ctos_supported_versions_def split: if_splits)
  then have "ext_written e SSL_F_TLS_CONSTRUCT_CTOS_SUPPORTED_VERSIONS s
      (wthen (WPACKET_put_bytes (A pkt) pkt TLSEXT_TYPE_supported_versions 2) (\<lambda>_ pkt.
       wthen (WPACKET_start_sub_packet_len (A pkt) (zok pkt) pkt 2) (\<lambda>_ q.
       wthen (wthen (WPACKET_start_sub_packet_len (A q) (zok q) q 1) (\<lambda>_ pkt.
         wthen (put_versions A mn mx pkt) (\<lambda>_ pkt. WPACKET_close pkt))) (\<lambda>_ pkt. WPACKET_close pkt)))) =
      Done (EXT_RETURN_SENT, s', pkt')"
    using c mm by (simp add: tls_construct_ctos_supported_versions_def wthen_assoc)
  from ext_written_sent [OF extension_spec [OF A wf body] this]
  show "extends pkt (ext_bytes TLSEXT_TYPE_supported_versions
      (be_bytes 1 (length (version_bytes mn mx)) @ version_bytes mn mx)) pkt'" by (rule conjunct2)
qed

lemma construct_stoc_sent:
  assumes A: "\<forall>p. alloc_ok (A p)" and wf: "wp_wf pkt" and v: "0 \<le> version s" "version s < 65536"
    and c: "tls_construct_stoc_supported_versions e A zok s pkt = Done (EXT_RETURN_SENT, s', pkt')"
  shows "extends pkt (ext_bytes TLSEXT_TYPE_supported_versions (be_bytes 2 (nat (version s)))) pkt'"
proof -
  have u: "unat (word_of_int (version s) :: u32) = nat (version s)"
    using v by (rule unat_version)
  have body: "ensures (WPACKET_put_bytes (A q) q (word_of_int (version s)) 2)
      (\<lambda>_. extends q (be_bytes 2 (nat (version s))))" if "wp_wf q" for q
    using put_bytes_spec [OF that, of "A q" "word_of_int (version s)" 2] A unfolding u
    by (auto elim: ensures_mono simp del: be_bytes_numeral)
  have "ext_written e SSL_F_TLS_CONSTRUCT_STOC_SUPPORTED_VERSIONS s
      (wthen (WPACKET_put_bytes (A pkt) pkt TLSEXT_TYPE_supported_versions 2) (\<lambda>_ pkt.
       wthen (WPACKET_start_sub_packet_len (A pkt) (zok pkt) pkt 2) (\<lambda>_ pkt.
       wthen (WPACKET_put_bytes (A pkt) pkt (word_of_int (version s)) 2) (\<lambda>_ pkt. WPACKET_close pkt)))) =
      Done (EXT_RETURN_SENT, s', pkt')"
    using c by (simp add: tls_construct_stoc_supported_versions_def split: if_splits)
  from ext_written_sent [OF extension_spec [OF A wf body] this] show ?thesis by (rule conjunct2)
qed

lemma u16s_version_bytes:
  assumes "0 \<le> mn" and "mx < 65536"
  shows "u16s (version_bytes mn mx) = rev [mn..mx]" and "even (length (version_bytes mn mx))"
  using assms(2)
proof (induction "nat (mx + 1 - mn)" arbitrary: mx)
  case 0
  {
    case 1
    with 0 show ?case by (simp add: version_bytes_simps)
  next
    case 2
    with 0 show ?case by (simp add: version_bytes_simps)
  }
next
  case (Suc n)
  have n: "n = nat (mx - 1 + 1 - mn)" "mn \<le> mx" using Suc(3) by auto
  {
    case 1
    have v: "int (be_val (be_bytes 2 (nat mx))) = mx" using 1 n assms(1) by (simp del: be_bytes_numeral)
    obtain x y where xy: "be_bytes 2 (nat mx) = [x, y]" by auto
    have "u16s (be_bytes 2 (nat mx) @ version_bytes mn (mx - 1)) = mx # u16s (version_bytes mn (mx - 1))"
      using v unfolding xy by simp
    then show ?case using Suc(1) [OF n(1)] 1 n(2) by (simp add: version_bytes_simps upto_rec2 del: be_bytes_numeral)
  next
    case 2
    then show ?case using Suc(2) [OF n(1)] n(2) by (simp add: version_bytes_simps del: be_bytes_numeral)
  }
qed

lemma whole_spec_encoded: "length d < 256 \<Longrightarrow> whole_spec 1 (be_bytes 1 (length d) @ d) = Some (d, [])"
  by (simp add: whole_spec_def prefixed_spec_def Let_def be_val_Cons unat_of_nat)

lemma ext_bytes_inject: "ext_bytes t a = ext_bytes t b \<Longrightarrow> a = b"
  by (simp add: ext_bytes_def)

lemma length_version_bytes:
  assumes "TLS1_VERSION \<le> mn" and "mx \<le> TLS1_3_VERSION"
  shows "length (version_bytes mn mx) < 256"
proof -
  have "length (version_bytes mn mx) = 2 * length [mn..mx]"
    by (simp add: version_bytes_def length_concat comp_def sum_list_triv del: length_upto)
  with assms show ?thesis by simp
qed

text \<open>What the server makes of the client's own list.\<close>

lemma listed_result_own:
  assumes "TLS1_VERSION \<le> mn" and "mx \<le> TLS1_3_VERSION" and "mn \<le> v" "v \<le> mx" "ok v"
  shows "listed_result ok TLS1_2_VERSION (be_bytes 1 (length (version_bytes mn mx)) @ version_bytes mn mx) =
    Inr (Max {v. mn \<le> v \<and> v \<le> mx \<and> ok v})"
proof -
  have u: "u16s (version_bytes mn mx) = rev [mn..mx]" "even (length (version_bytes mn mx))"
    using u16s_version_bytes [of mn mx] assms(1,2) by auto
  have "{v \<in> set (rev [mn..mx]). ok v} = {v. mn \<le> v \<and> v \<le> mx \<and> ok v}" by auto
  then show ?thesis
    using assms(3-) whole_spec_encoded [OF length_version_bytes [OF assms(1,2)]]
    by (simp only: listed_result_def option.case prod.case u) auto
qed

lemma tls_method_of_version: "tls_method_of v = Some m \<Longrightarrow> method_version m = v"
  by (auto simp: tls_method_of_def split: if_splits)

lemma SSL_IS_TLS13_method:
  "tls_method_of v \<noteq> None \<Longrightarrow> SSL_IS_TLS13 (s\<lparr>version := w, meth := the (tls_method_of v)\<rparr>) \<longleftrightarrow> v = TLS1_3_VERSION"
  by (auto simp: SSL_IS_TLS13_def SSL_IS_DTLS_def tls_method_of_def tlsv1_3_method_def tlsv1_2_method_def
      tlsv1_1_method_def tlsv1_method_def flag_def split: if_splits)

lemma parse_supported_versions:
  assumes fl: "tls_flexible s" "\<not> server s" and x: "ext_present x" "\<not> ext_parsed x" "pkt_wf mem (ext_data x)"
    and b: "pkt_bytes mem (ext_data x) = be_bytes 2 (nat TLS1_3_VERSION)"
  shows "tls_parse_extension custom mem (s\<lparr>version := TLS1_2_VERSION\<rparr>) (Some (supported_versions_def e))
      (SSL_EXT_TLS1_2_SERVER_HELLO OR SSL_EXT_TLS1_3_SERVER_HELLO) x =
    Done (True, x\<lparr>ext_parsed := True\<rparr>, s\<lparr>version := TLS1_3_VERSION\<rparr>)"
proof -
  have f: "\<not> SSL_IS_DTLS s" "\<not> SSL_IS_TLS13 s" using fl by (auto simp: tls_flexible_def SSL_IS_TLS13_def)
  have "length (pkt_bytes mem (ext_data x)) = 2" unfolding b by simp
  then have rem: "pkt_remaining (ext_data x) = 2" using x(3) by simp
  then obtain w p where g: "PACKET_get_net_2 mem (ext_data x) = Done (w, p)" using r2.get_spec [OF x(3)] by simp
  note G = r2.get_value [OF x(3) g]
  have w: "uint w = 772" using G(1) by (simp add: b uint_nat be_val_Cons)
  have p: "pkt_remaining p = 0" using G(5) rem by simp
  have "extension_is_relevant (s\<lparr>version := 771\<rparr>) 0xA84 0x300" using f fl(2)
    by (simp add: extension_is_relevant_def flag_def)
  then show ?thesis using x fl(2) g w p
    by (simp add: tls_parse_extension_def supported_versions_def_def tls_parse_stoc_supported_versions_def
        Let_def PACKET_remaining_def)
qed

text \<open>The highest version that a client with the range from \<open>mn\<close> to \<open>mx\<close> and a server have in common.\<close>

definition common_version :: "'w env \<Rightarrow> 'w ssl \<Rightarrow> int \<Rightarrow> int \<Rightarrow> int" where
  "common_version e s mn mx = Max {v. mn \<le> v \<and> v \<le> mx \<and> tls_supported e s v}"

lemma common_version_spec:
  assumes "mn \<le> v0" "v0 \<le> mx" "tls_supported e s v0"
  shows "mn \<le> common_version e s mn mx" "common_version e s mn mx \<le> mx"
    "tls_supported e s (common_version e s mn mx)"
    "\<And>w. w \<le> mx \<Longrightarrow> tls_supported e s w \<Longrightarrow> w \<le> common_version e s mn mx"
proof -
  let ?S = "{v. mn \<le> v \<and> v \<le> mx \<and> tls_supported e s v}"
  have fin: "finite ?S" by (rule finite_subset [of _ "{mn..mx}"]) auto
  have "Max ?S \<in> ?S" using assms fin by (intro Max_in) auto
  then show m: "mn \<le> common_version e s mn mx" "common_version e s mn mx \<le> mx"
    "tls_supported e s (common_version e s mn mx)" by (auto simp: common_version_def)
  show "w \<le> common_version e s mn mx" if "w \<le> mx" "tls_supported e s w" for w
  proof (cases "mn \<le> w")
    case True
    then show ?thesis unfolding common_version_def using fin that by (intro Max_ge) auto
  next
    case False
    then show ?thesis using m(1) by linarith
  qed
qed

lemma not_sent_range:
  assumes "ssl_get_min_max_version e s False = Inr (mn, mx, r)"
    and "tls_construct_ctos_supported_versions e A zok s pkt = Done (EXT_RETURN_NOT_SENT, s', pkt')"
  shows "mx < TLS1_3_VERSION"
proof (rule ccontr)
  assume "\<not> ?thesis"
  with assms show False
    by (cases "wthen (WPACKET_put_bytes (A pkt) pkt TLSEXT_TYPE_supported_versions 2) (\<lambda>_ pkt.
             wthen (WPACKET_start_sub_packet_len (A pkt) (zok pkt) pkt 2) (\<lambda>_ pkt.
             wthen (WPACKET_start_sub_packet_len (A pkt) (zok pkt) pkt 1) (\<lambda>_ pkt.
             wthen (put_versions A mn mx pkt) (\<lambda>_ pkt.
             wthen (WPACKET_close pkt) (\<lambda>_ pkt. WPACKET_close pkt)))))")
      (auto simp: tls_construct_ctos_supported_versions_def ext_written_def split: option.splits)
qed

lemma server_agrees:
  assumes pol: "policy_stable es" and A: "\<forall>p. alloc_ok (A p)" and fl: "tls_flexible ss" "tls_flexible cs"
    and hrr: "hello_retry_request ss = SSL_HRR_NONE"
    and mm: "ssl_get_min_max_version ec cs True = Inr (mn, mx, rm)"
    and common: "mn \<le> v0" "v0 \<le> mx" "tls_supported es ss v0"
    and ctos: "wp_wf cp" "tls_construct_ctos_supported_versions ec A zok cs cp = Done (ret, cs0, cp')" "ret \<noteq> EXT_RETURN_FAIL"
    and hello: "pkt_wf mem (ext_data sx)" "ext_present sx \<longleftrightarrow> ret = EXT_RETURN_SENT"
      "ext_present sx \<longrightarrow> wp_bytes cp' = wp_bytes cp @ ext_bytes TLSEXT_TYPE_supported_versions (pkt_bytes mem (ext_data sx))"
  shows "\<exists>sx'. ssl_choose_server_version es mem ss (min mx TLS1_2_VERSION) sx dg0 =
    Done (None, check_for_downgrade es (ss\<lparr>client_version := min mx TLS1_2_VERSION\<rparr>) (common_version es ss mn mx), sx',
      ss\<lparr>client_version := min mx TLS1_2_VERSION, version := common_version es ss mn mx,
         meth := the (tls_method_of (common_version es ss mn mx))\<rparr>)"
proof -
  obtain r' where mm': "ssl_get_min_max_version ec cs False = Inr (mn, mx, r')" using min_max_real [OF fl(2) mm] ..
  have rng: "TLS1_VERSION \<le> mn" "mx \<le> TLS1_3_VERSION" "mn \<le> mx"
    using tls_min_max(1-3) [OF fl(2) mm] tls_enabled_range by force+
  have sup: "tls_supported es (ss\<lparr>client_version := c\<rparr>) = tls_supported es ss" for c
    by (intro ext) (rule tls_enabled_stable(3) [OF pol])
  note S = server_choice_spec [OF fl(1) hrr hello(1) refl, of es "min mx TLS1_2_VERSION" dg0]
  show ?thesis
  proof (cases ret)
    case EXT_RETURN_SENT
    note c = construct_ctos_sent [OF A ctos(1) fl(2) mm' ctos(2) [unfolded EXT_RETURN_SENT]]
    have "pkt_bytes mem (ext_data sx) = be_bytes 1 (length (version_bytes mn mx)) @ version_bytes mn mx"
      using c(1) hello(2,3) EXT_RETURN_SENT ext_bytes_inject by (fastforce simp: extends_def simp del: be_bytes_numeral)
    then have "listed_result (tls_supported es ss) TLS1_2_VERSION (pkt_bytes mem (ext_data sx)) = Inr (common_version es ss mn mx)"
      using listed_result_own [of mn mx v0 "tls_supported es ss"] rng(1,2) common by (simp add: common_version_def)
    moreover have "min mx TLS1_2_VERSION = TLS1_2_VERSION" using c(2) by simp
    ultimately show ?thesis using S hello(2) EXT_RETURN_SENT by (simp only: sup sum.case)
  next
    case EXT_RETURN_NOT_SENT
    have mx: "mx < 772" using not_sent_range [OF mm' ctos(2) [unfolded EXT_RETURN_NOT_SENT]] .
    then have legacy: "min mx 771 = mx" by simp
    have ok: "tls_enabled es ss w \<and> w \<le> mx \<and> w \<le> 771 \<longleftrightarrow> tls_supported es ss w \<and> w \<le> mx" for w
      using mx by (auto simp: tls_supported_def)
    let ?s1 = "ss\<lparr>client_version := mx\<rparr>"
    obtain w where w: "tls_supported es ss w" "w \<le> mx" "\<forall>u. tls_supported es ss u \<and> u \<le> mx \<longrightarrow> u \<le> w"
        "ssl_choose_server_version es mem ss mx sx dg0 = Done (None, check_for_downgrade es ?s1 w, sx,
           ?s1\<lparr>version := w, meth := the (tls_method_of w)\<rparr>)"
      using S hello(2) EXT_RETURN_NOT_SENT common
      unfolding legacy Let_def tls_enabled_stable(2) [OF pol] ok by (auto split: if_splits)
    have "w = common_version es ss mn mx"
      using w(1-3) common_version_spec [OF common] by (intro antisym) auto
    then show ?thesis using w(4) unfolding legacy by blast
  qed (use ctos(3) in simp)
qed

lemma client_agrees:
  assumes pol: "policy_stable es" "policy_stable ec" and fl: "tls_flexible ss" "tls_flexible cs"
    and hrr: "hello_retry_request cs = SSL_HRR_NONE" and mode: "\<not> flag (mode cs) SSL_MODE_SEND_FALLBACK_SCSV"
    and mm: "ssl_get_min_max_version ec cs True = Inr (mn, mx, rm)"
    and common: "mn \<le> v0" "v0 \<le> mx" "tls_supported es ss v0"
    and hole: "mx = TLS1_1_VERSION \<and> tls_supported es ss TLS1_2_VERSION \<longrightarrow> tls_supported es ss TLS1_1_VERSION"
    and dg: "dg = check_for_downgrade es (ss\<lparr>client_version := c\<rparr>) (common_version es ss mn mx)"
    and rand: "dg = DOWNGRADE_NONE \<longrightarrow> chunk 24 8 (server_random (s3 cs)) \<notin> {tls11downgrade, tls12downgrade}"
  shows "client_accepts ec cs mn mx (common_version es ss mn mx)"
proof -
  let ?v = "common_version es ss mn mx"
  note C = common_version_spec [OF common]
  have mx: "mx \<le> 772" using tls_min_max(2,3) [OF fl(2) mm] tls_enabled_range by force
  have v: "769 \<le> ?v" using C(3) tls_enabled_range by (auto simp: tls_supported_def)
  have none: "dg = DOWNGRADE_NONE" if "?v < mx" "?v \<le> 771"
  proof -
    have "\<not> (?v = 771 \<and> tls_supported es ss 772)"
    proof
      assume h: "?v = 771 \<and> tls_supported es ss 772"
      then show False using C(4) [of 772] that by linarith
    qed
    moreover have "\<not> (?v < 771 \<and> tls_supported es ss 771)"
    proof
      assume h: "?v < 771 \<and> tls_supported es ss 771"
      then have "mx = 770" using C(4) [of 771] that v by linarith
      then show False using hole h C(4) [of 770] that by auto
    qed
    ultimately show ?thesis using fl(1) by (simp add: dg check_for_downgrade_tls tls_enabled_stable [OF pol(1)])
  qed
  show ?thesis unfolding client_accepts_def using C(1,2) none rand
    by (auto simp: sentinel_def)
qed

text \<open>
  C8.  Two endpoints that have a version in common agree on one.  The client sends its own list of versions (or,
  if it does not reach TLS 1.3, just its highest version) to a server, and the server's answer
  reaches the client: the server chooses the highest version that both support, the client accepts
  it, and both connections end up with the method of that version.  The random generator must not hit a
  downgrade sentinel by chance, and a server that supports TLS 1.2 must not leave out TLS 1.1 for
  a client whose highest version is TLS 1.1.
\<close>

theorem versions_agree:
  assumes pol: "policy_stable es" "policy_stable ec" and A: "\<forall>p. alloc_ok (A p)"
    and fl: "tls_flexible ss" "tls_flexible cs" "\<not> server cs"
    and hrr: "hello_retry_request ss = SSL_HRR_NONE" "hello_retry_request cs = SSL_HRR_NONE"
    and mode: "\<not> flag (mode cs) SSL_MODE_SEND_FALLBACK_SCSV"
    and mm: "ssl_get_min_max_version ec cs True = Inr (mn, mx, rm)"
    and common: "mn \<le> v0" "v0 \<le> mx" "tls_supported es ss v0"
    and hole: "mx = TLS1_1_VERSION \<and> tls_supported es ss TLS1_2_VERSION \<longrightarrow> tls_supported es ss TLS1_1_VERSION"
    and ctos: "wp_wf cp" "tls_construct_ctos_supported_versions ec A zok cs cp = Done (ret, cs0, cp')" "ret \<noteq> EXT_RETURN_FAIL"
    and hello: "pkt_wf mem (ext_data sx)" "ext_present sx \<longleftrightarrow> ret = EXT_RETURN_SENT"
      "ext_present sx \<longrightarrow> wp_bytes cp' = wp_bytes cp @ ext_bytes TLSEXT_TYPE_supported_versions (pkt_bytes mem (ext_data sx))"
    and srv: "ssl_choose_server_version es mem ss (min mx TLS1_2_VERSION) sx dg0 = Done (res, dg, sx', ss')"
    and rand: "rand_ok rand" "ssl_fill_hello_random rand now ss' True SSL3_RANDOM_SIZE dg = Some r"
      "server_random (s3 cs) = r" "dg = DOWNGRADE_NONE \<longrightarrow> chunk 24 8 r \<notin> {tls11downgrade, tls12downgrade}"
    and stoc: "wp_wf sp" "SSL_IS_TLS13 ss' \<longrightarrow>
        tls_construct_stoc_supported_versions es A zok ss' sp = Done (EXT_RETURN_SENT, ss'', sp') \<and>
        wp_bytes sp' = wp_bytes sp @ ext_bytes TLSEXT_TYPE_supported_versions (pkt_bytes cmem (ext_data cx))"
      "ext_present cx \<longleftrightarrow> SSL_IS_TLS13 ss'" "\<not> ext_parsed cx" "pkt_wf cmem (ext_data cx)"
  shows "res = None \<and> version ss' = Max {v. mn \<le> v \<and> v \<le> mx \<and> tls_supported es ss v} \<and>
    (\<exists>cx' cs'. ssl_choose_client_version ec custom cmem cs
        (if SSL_IS_TLS13 ss' then TLS1_2_VERSION else version ss') cx = Done (True, cx', cs') \<and>
      version cs' = version ss' \<and> meth cs' = meth ss')"
proof -
  let ?v = "common_version es ss mn mx"
  obtain y where y: "ssl_choose_server_version es mem ss (min mx TLS1_2_VERSION) sx dg0 =
      Done (None, check_for_downgrade es (ss\<lparr>client_version := min mx TLS1_2_VERSION\<rparr>) ?v, y,
        ss\<lparr>client_version := min mx TLS1_2_VERSION, version := ?v, meth := the (tls_method_of ?v)\<rparr>)"
    using server_agrees [OF pol(1) A fl(1,2) hrr(1) mm common ctos hello, of dg0] ..
  then have ss': "ss' = ss\<lparr>client_version := min mx TLS1_2_VERSION, version := ?v, meth := the (tls_method_of ?v)\<rparr>"
    and dg: "dg = check_for_downgrade es (ss\<lparr>client_version := min mx TLS1_2_VERSION\<rparr>) ?v" and res: "res = None"
    using srv by simp_all
  have acc: "client_accepts ec cs mn mx ?v"
    using client_agrees [OF pol fl(1,2) hrr(2) mode mm common hole dg] rand(3,4) by simp
  have m: "tls_method_of ?v \<noteq> None" using tls_supported_pos [OF common_version_spec(3) [OF common]] by simp
  have vpos: "0 \<le> ?v" "?v < 65536"
    using common_version_spec(3) [OF common] by (auto simp: tls_supported_def dest!: tls_enabled_range)
  have is13: "SSL_IS_TLS13 ss' \<longleftrightarrow> ?v = TLS1_3_VERSION" unfolding ss' using m by (rule SSL_IS_TLS13_method)
  have p: "\<exists>cx'. tls_parse_extension custom cmem (cs\<lparr>version := if SSL_IS_TLS13 ss' then TLS1_2_VERSION else ?v\<rparr>)
      (Some (supported_versions_def ec)) (SSL_EXT_TLS1_2_SERVER_HELLO OR SSL_EXT_TLS1_3_SERVER_HELLO) cx =
    Done (True, cx', cs\<lparr>version := ?v\<rparr>)"
  proof (cases "?v = TLS1_3_VERSION")
    case True
    then have t: "SSL_IS_TLS13 ss'" using is13 by simp
    have "version ss' = ?v" by (simp add: ss')
    then have "extends sp (ext_bytes TLSEXT_TYPE_supported_versions (be_bytes 2 (nat ?v))) sp'"
      using construct_stoc_sent [OF A stoc(1)] stoc(2) t vpos by metis
    then have "pkt_bytes cmem (ext_data cx) = be_bytes 2 (nat TLS1_3_VERSION)"
      using stoc(2) t True ext_bytes_inject by (fastforce simp: extends_def simp del: be_bytes_numeral)
    from parse_supported_versions [OF fl(2,3) _ stoc(4,5) this, of custom ec] stoc(3) t True
    show ?thesis by auto
  next
    case False
    then show ?thesis using stoc(3) is13 parse_absent by fastforce
  qed
  then obtain cx' where p: "tls_parse_extension custom cmem
      (cs\<lparr>version := if SSL_IS_TLS13 ss' then TLS1_2_VERSION else ?v\<rparr>)
      (Some (supported_versions_def ec)) (SSL_EXT_TLS1_2_SERVER_HELLO OR SSL_EXT_TLS1_3_SERVER_HELLO) cx =
    Done (True, cx', cs\<lparr>version := ?v\<rparr>)" ..
  have run: "ssl_choose_client_version ec custom cmem cs (if SSL_IS_TLS13 ss' then TLS1_2_VERSION else ?v) cx =
      Done (True, cx', cs\<lparr>version := ?v, meth := the (tls_method_of ?v)\<rparr>)"
    using client_choice [OF pol(2) fl(2) mode hrr(2) mm p] acc by simp
  have vs: "version ss' = ?v" "meth ss' = the (tls_method_of ?v)" by (simp_all add: ss')
  show ?thesis unfolding vs common_version_def [symmetric] run
    by (intro conjI exI [of _ cx'] exI [of _ "cs\<lparr>version := ?v, meth := the (tls_method_of ?v)\<rparr>"]) (simp_all add: res)
qed

text \<open>
  The exception is real.  A server that supports TLS 1.2 and TLS 1.0 only, in contact with an honest client that
  knows TLS 1.0 and 1.1, chooses TLS 1.0 and marks its random value, since it could do TLS 1.2; the client takes
  the mark for a downgrade, although it could not do TLS 1.2, and the handshake fails.
\<close>

lemma old_client_false_alarm:
  assumes "policy_stable es" "policy_stable ec" and "tls_flexible ss" "tls_flexible cs"
    and "hello_retry_request ss = SSL_HRR_NONE" "hello_retry_request cs = SSL_HRR_NONE"
    and "\<not> flag (mode cs) SSL_MODE_SEND_FALLBACK_SCSV"
    and "ssl_get_min_max_version ec cs True = Inr (TLS1_VERSION, TLS1_1_VERSION, rm)"
    and "tls_supported es ss TLS1_2_VERSION" "version ss' = TLS1_VERSION" "pkt_wf mem (ext_data sx)"
    and "ssl_choose_server_version es mem ss TLS1_1_VERSION sx dg0 = Done (None, dg, sx', ss')"
    and "rand_ok rand" and "ssl_fill_hello_random rand now ss' True SSL3_RANDOM_SIZE dg = Some (server_random (s3 cs))"
    and "\<not> ext_present cx"
  shows "\<exists>cs'. ssl_choose_client_version ec custom cmem cs TLS1_VERSION cx = Done (False, cx, cs')"
proof -
  have "dg = DOWNGRADE_TO_1_1"
    using server_choice_downgrade [OF assms(3,5,11,12)] assms(3,9,10)
    by (simp add: check_for_downgrade_tls tls_enabled_stable [OF assms(1)])
  then have "sentinel cs tls11downgrade"
    using fill_random_sentinel(2) [OF assms(13,14)] by (simp add: sentinel_def)
  then have "\<not> client_accepts ec cs TLS1_VERSION TLS1_1_VERSION TLS1_VERSION" by (simp add: client_accepts_def)
  moreover have p: "tls_parse_extension custom cmem (cs\<lparr>version := TLS1_VERSION\<rparr>) (Some (supported_versions_def ec))
      (SSL_EXT_TLS1_2_SERVER_HELLO OR SSL_EXT_TLS1_3_SERVER_HELLO) cx = Done (True, cx, cs\<lparr>version := TLS1_VERSION\<rparr>)"
    using assms(15) by (rule parse_absent)
  ultimately show ?thesis using client_choice [OF assms(2,4,7,6,8) p] by auto
qed

subsection \<open>Applications\<close>

definition sample_ver :: "u32 \<Rightarrow> byte list \<Rightarrow> unit ssl" where
  "sample_ver opt r = (sample_conn TLS_ANY_VERSION TLS_ST_BEFORE)\<lparr>options := opt, s3 := sample_s3\<lparr>server_random := r\<rparr>\<rparr>"

lemma sample_ver_simps [simp]:
  "tls_flexible (sample_ver opt r)" "hello_retry_request (sample_ver opt r) = SSL_HRR_NONE"
  "\<not> server (sample_ver opt r)" "mode (sample_ver opt r) = 0" "server_random (s3 (sample_ver opt r)) = r"
  by (simp_all add: sample_ver_def sample_conn_def tls_flexible_def SSL_IS_DTLS_def)

lemma sample_policy_stable: "policy_stable sample_env"
  unfolding policy_stable_def by (simp add: sample_env_def)

lemma sample_ver_error:
  "ssl_method_error sample_env (sample_ver opt r) m =
     (if flag opt (method_mask m) then Some SSL_R_UNSUPPORTED_PROTOCOL else None)"
  by (simp add: ssl_method_error_def sample_env_def sample_ver_def sample_conn_def tls1_suiteb_def)

lemma sample_ver_enabled:
  "tls_enabled sample_env (sample_ver opt r) v \<longleftrightarrow>
     v = 772 \<and> \<not> flag opt SSL_OP_NO_TLSv1_3 \<or> v = 771 \<and> \<not> flag opt SSL_OP_NO_TLSv1_2 \<or>
     v = 770 \<and> \<not> flag opt SSL_OP_NO_TLSv1_1 \<or> v = 769 \<and> \<not> flag opt SSL_OP_NO_TLSv1"
  by (auto simp: tls_enabled_def tls_method_of_def sample_ver_error tlsv1_3_method_def tlsv1_2_method_def
      tlsv1_1_method_def tlsv1_method_def)

lemma sample_ver_supported:
  "tls_supported sample_env (sample_ver opt r) = tls_enabled sample_env (sample_ver opt r)"
  by (intro ext) (simp add: tls_supported_def)

lemma sample_ver_range:
  "ssl_get_min_max_version sample_env (sample_ver opt r) wr =
     (let (mn, mx) = tls_range (\<not> flag opt SSL_OP_NO_TLSv1_3) (\<not> flag opt SSL_OP_NO_TLSv1_2)
        (\<not> flag opt SSL_OP_NO_TLSv1_1) (\<not> flag opt SSL_OP_NO_TLSv1)
      in if mx = 0 then Inl SSL_R_NO_PROTOCOLS_AVAILABLE
         else Inr (mn, mx, mm_real (min_max_loop sample_env (sample_ver opt r) wr tls_version_table)))"
  using min_max_tls [of sample_env "sample_ver opt r" wr] sample_ver_simps(1) [of opt r]
  by (auto simp: ssl_get_min_max_version_def tls_flexible_def Let_def sample_ver_enabled prod_eq_iff split: prod.splits)

definition sample_ext :: raw_extension where
  "sample_ext = \<lparr>ext_data = \<lparr>pkt_curr = Some 0, pkt_remaining = 5\<rparr>, ext_present = True, ext_parsed = False,
     ext_type = TLSEXT_TYPE_supported_versions, received_order = 0\<rparr>"

definition sample_absent :: raw_extension where
  "sample_absent = \<lparr>ext_data = PACKET_null_init, ext_present = False, ext_parsed = False, ext_type = 0, received_order = 0\<rparr>"

lemma sample_ext_wf:
  "pkt_wf [4, 3, 4, 3, 3] (ext_data sample_ext)" "pkt_bytes [4, 3, 4, 3, 3] (ext_data sample_ext) = [4, 3, 4, 3, 3]"
  "pkt_wf mem (ext_data sample_absent)" "\<not> ext_present sample_absent" "ext_present sample_ext"
  "\<not> ext_parsed sample_absent"
  by (simp_all add: sample_ext_def sample_absent_def pkt_wf_def pkt_bytes_def chunk_def PACKET_null_init_def)

theorem server_version_choice_witness:
  "\<exists>x' s'. ssl_choose_server_version sample_env [4, 3, 4, 3, 3] (sample_ver 0 []) TLS1_2_VERSION sample_ext DOWNGRADE_NONE =
    Done (None, DOWNGRADE_NONE, x', s') \<and> version s' = TLS1_3_VERSION"
proof -
  let ?s = "(sample_ver 0 [])\<lparr>client_version := 771\<rparr>"
  have "tls_supported sample_env ?s v = (v = 772 \<or> v = 771 \<or> v = 770 \<or> v = 769)" for v
    by (simp add: tls_enabled_stable [OF sample_policy_stable] sample_ver_supported sample_ver_enabled)
  then have "listed_result (tls_supported sample_env ?s) 771 [4, 3, 4, 3, 3] = Inr 772"
    by (auto simp: listed_result_def whole_spec_def prefixed_spec_def be_val_Cons conj_disj_distribL Collect_disj_eq
        Collect_conv_if intro!: Max_eqI)
  moreover have "check_for_downgrade sample_env ?s 772 = DOWNGRADE_NONE" by (simp add: check_for_downgrade_def)
  ultimately show ?thesis
    using server_version_choice [OF sample_ver_simps(1,2) [of 0 "[]"] sample_ext_wf(1) refl, where e = sample_env and
        legacy = 771 and dg = DOWNGRADE_NONE]
    by (auto simp: sample_ext_wf)
qed

text \<open>A server with all versions and a client up to TLS 1.2: the server marks its random value, and the client
  accepts TLS 1.2 nevertheless.\<close>

definition sample_random :: "byte list" where
  "sample_random = replicate 24 0 @ tls12downgrade"

abbreviation sample_old_client :: "unit ssl" where
  "sample_old_client \<equiv> sample_ver SSL_OP_NO_TLSv1_3 sample_random"

lemma sample_server_choice:
  "ssl_choose_server_version sample_env [] (sample_ver 0 []) TLS1_2_VERSION sample_absent DOWNGRADE_NONE =
     Done (None, DOWNGRADE_TO_1_2, sample_absent,
       (sample_ver 0 [])\<lparr>client_version := TLS1_2_VERSION, version := TLS1_2_VERSION, meth := tlsv1_2_method\<rparr>)"
proof -
  let ?s = "(sample_ver 0 [])\<lparr>client_version := 771\<rparr>"
  have en: "tls_enabled sample_env ?s v = (v = 772 \<or> v = 771 \<or> v = 770 \<or> v = 769)" for v
    by (simp add: tls_enabled_stable [OF sample_policy_stable] sample_ver_enabled)
  have sup: "tls_supported sample_env ?s 772"
    by (simp add: tls_enabled_stable [OF sample_policy_stable] sample_ver_supported sample_ver_enabled)
  have "\<exists>v. (tls_enabled sample_env ?s v \<and> v \<le> 771 \<and> v \<le> 771)" by (rule exI [of _ 771]) (simp add: en)
  then obtain v where v: "tls_enabled sample_env ?s v \<and> v \<le> 771 \<and> v \<le> 771"
      "\<forall>w. tls_enabled sample_env ?s w \<and> w \<le> 771 \<and> w \<le> 771 \<longrightarrow> w \<le> v"
      "ssl_choose_server_version sample_env [] (sample_ver 0 []) 771 sample_absent DOWNGRADE_NONE =
        Done (None, check_for_downgrade sample_env ?s v, sample_absent, ?s\<lparr>version := v, meth := the (tls_method_of v)\<rparr>)"
    using server_choice_spec [OF sample_ver_simps(1,2) [of 0 "[]"] sample_ext_wf(3) [of "[]"] refl, where e = sample_env and
        legacy = 771 and dg = DOWNGRADE_NONE]
    unfolding Let_def using sample_ext_wf(4) by (simp only: simp_thms if_True) blast
  have "v = 771" using v(1) v(2) [rule_format, of 771] by (auto simp: en)
  then show ?thesis using v(3) sup by (simp add: check_for_downgrade_tls tls_method_of_def)
qed

lemma sample_client_choice:
  "ssl_get_min_max_version sample_env sample_old_client True =
     Inr (TLS1_VERSION, TLS1_2_VERSION, mm_real (min_max_loop sample_env sample_old_client True tls_version_table))"
  "ssl_choose_client_version sample_env custom cmem sample_old_client TLS1_2_VERSION sample_absent =
     Done (True, sample_absent, sample_old_client\<lparr>version := TLS1_2_VERSION, meth := tlsv1_2_method\<rparr>)"
proof -
  show mm: "ssl_get_min_max_version sample_env sample_old_client True =
     Inr (TLS1_VERSION, TLS1_2_VERSION, mm_real (min_max_loop sample_env sample_old_client True tls_version_table))"
    by (simp add: sample_ver_range tls_range_def flag_def)
  have "client_accepts sample_env sample_old_client TLS1_VERSION TLS1_2_VERSION TLS1_2_VERSION"
    by (simp add: client_accepts_def)
  then show "ssl_choose_client_version sample_env custom cmem sample_old_client TLS1_2_VERSION sample_absent =
     Done (True, sample_absent, sample_old_client\<lparr>version := TLS1_2_VERSION, meth := tlsv1_2_method\<rparr>)"
    using client_choice [OF sample_policy_stable sample_ver_simps(1) _ sample_ver_simps(2) mm
        parse_absent [OF sample_ext_wf(4)]] by (simp add: tls_method_of_def flag_def)
qed

lemma sample_fill:
  "ssl_fill_hello_random (\<lambda>n. Some (replicate n 0)) 0
     ((sample_ver 0 [])\<lparr>client_version := TLS1_2_VERSION, version := TLS1_2_VERSION, meth := tlsv1_2_method\<rparr>)
     True 32 DOWNGRADE_TO_1_2 = Some sample_random" "rand_ok (\<lambda>n. Some (replicate n 0))"
  by (simp_all add: ssl_fill_hello_random_def sample_random_def overwrite_def flag_def rand_ok_def)


theorem versions_agree_witness:
  "\<exists>cx' cs'. ssl_choose_client_version sample_env (\<lambda>_ s _ _. Done (True, s)) [] sample_old_client TLS1_2_VERSION sample_absent =
      Done (True, cx', cs') \<and> version cs' = TLS1_2_VERSION \<and> meth cs' = tlsv1_2_method"
proof -
  let ?ss' = "(sample_ver 0 [])\<lparr>client_version := TLS1_2_VERSION, version := TLS1_2_VERSION, meth := tlsv1_2_method\<rparr>"
  obtain r where mm: "ssl_get_min_max_version sample_env sample_old_client False = Inr (TLS1_VERSION, TLS1_2_VERSION, r)"
    using min_max_real [OF sample_ver_simps(1) sample_client_choice(1)] ..
  then have c: "tls_construct_ctos_supported_versions sample_env (\<lambda>_ n. Some (replicate n 1)) (\<lambda>_. True)
      sample_old_client sample_open = Done (EXT_RETURN_NOT_SENT, sample_old_client, sample_open)"
    by (simp add: tls_construct_ctos_supported_versions_def)
  have t: "\<not> SSL_IS_TLS13 ?ss'" by (simp add: SSL_IS_TLS13_def)
  have sup: "tls_supported sample_env (sample_ver 0 []) TLS1_2_VERSION"
    by (simp add: sample_ver_supported sample_ver_enabled)
  have wf: "wp_wf sample_open" by (simp add: wp_wf_def wp_core_def sample_open_def)
  show ?thesis
    using versions_agree [OF sample_policy_stable sample_policy_stable sample_block_ok sample_ver_simps(1,1,3,2,2) _
        sample_client_choice(1) _ order_refl sup _ wf c, where sx = sample_absent and mem = "[]" and cx = sample_absent
        and sp = sample_open and ss' = ?ss' and rand = "\<lambda>n. Some (replicate n 0)" and now = 0 and dg = DOWNGRADE_TO_1_2
        and r = sample_random and cmem = "[]" and ?dg0.0 = DOWNGRADE_NONE and res = None and sx' = sample_absent
        and custom = "\<lambda>_ s _ _. Done (True, s)"] t sample_server_choice sample_fill wf
    by (simp add: sample_ext_wf)
qed

end
