(* ===== verification/Lhash.thy ===== *)
theory Lhash
  imports Prelude "HOL-Library.Multiset"
begin

unbundle bit_operations_syntax

section \<open>Linear hash tables\<close>

text \<open>
  Model of \<^verbatim>\<open>crypto/lhash/lhash.c\<close>, the generic hash table of the library (error strings, object names,
  sessions).  A table has \<^verbatim>\<open>pmax + p\<close> buckets in use out of \<^verbatim>\<open>num_alloc_nodes = 2 * pmax\<close>; it grows and
  shrinks by one bucket at a time, splitting bucket \<^verbatim>\<open>p\<close> or merging the last bucket back.  A chain
  of nodes is a list, a pointer to a link of the chain is a position in it.  The client's comparison
  and hash functions are part of the table as in the source; \<open>key_ok\<close> states what the
  documentation demands of them.  The parameter \<open>rok\<close> says for which numbers of buckets
  \<^verbatim>\<open>realloc\<close> of the bucket array succeeds, \<open>mok\<close> whether \<^verbatim>\<open>malloc\<close> of a node does.  Statistics counters are unbounded numbers.  The abstract view
  of a table is a dictionary from keys to stored items, and the locale \<open>dictionary\<close> its contract.
\<close>

subsection \<open>Data\<close>

record 'd lh_node =
  node_data :: 'd
  node_hash :: nat

record 'd lhash =
  lh_b :: "'d lh_node list list"
  lh_comp :: "'d \<Rightarrow> 'd \<Rightarrow> int"
  lh_hash :: "'d \<Rightarrow> nat"
  num_nodes :: nat
  num_alloc_nodes :: nat
  lh_p :: nat
  lh_pmax :: nat
  up_load :: nat
  down_load :: nat
  num_items :: nat
  num_expands :: nat
  num_expand_reallocs :: nat
  num_contracts :: nat
  num_contract_reallocs :: nat
  num_hash_calls :: nat
  num_comp_calls :: nat
  num_insert :: nat
  num_replace :: nat
  num_delete :: nat
  num_no_delete :: nat
  num_retrieve :: nat
  num_retrieve_miss :: nat
  num_hash_comps :: nat
  lh_error :: nat

abbreviation (input) MIN_NODES :: nat where "MIN_NODES \<equiv> 16"
abbreviation (input) LH_LOAD_MULT :: nat where "LH_LOAD_MULT \<equiv> 256"

subsection \<open>Operations\<close>

text \<open>A null comparison or hash function stands for \<^verbatim>\<open>strcmp\<close> and \<^verbatim>\<open>OPENSSL_LH_strhash\<close>; the caller of the
  model passes the function that is meant.\<close>

definition OPENSSL_LH_new :: "bool \<Rightarrow> ('d \<Rightarrow> nat) \<Rightarrow> ('d \<Rightarrow> 'd \<Rightarrow> int) \<Rightarrow> 'd lhash option" where
  "OPENSSL_LH_new mok h c =
     (if \<not> mok then None
      else Some \<lparr>lh_b = replicate MIN_NODES [], lh_comp = c, lh_hash = h, num_nodes = MIN_NODES div 2,
                num_alloc_nodes = MIN_NODES, lh_p = 0, lh_pmax = MIN_NODES div 2,
                up_load = 2 * LH_LOAD_MULT, down_load = LH_LOAD_MULT, num_items = 0,
                num_expands = 0, num_expand_reallocs = 0, num_contracts = 0, num_contract_reallocs = 0,
                num_hash_calls = 0, num_comp_calls = 0, num_insert = 0, num_replace = 0, num_delete = 0,
                num_no_delete = 0, num_retrieve = 0, num_retrieve_miss = 0, num_hash_comps = 0, lh_error = 0\<rparr>)"

text \<open>The walk along a chain in \<^verbatim>\<open>getrn\<close>: the position of the link that is returned, the number of hash
  comparisons and of calls of the comparison function.\<close>

fun chain_walk :: "('d \<Rightarrow> 'd \<Rightarrow> int) \<Rightarrow> nat \<Rightarrow> 'd \<Rightarrow> 'd lh_node list \<Rightarrow> nat \<times> nat \<times> nat" where
  "chain_walk cf hash data [] = (0, 0, 0)"
| "chain_walk cf hash data (n1 # ns) =
     (if node_hash n1 \<noteq> hash then
        let (pos, hc, cc) = chain_walk cf hash data ns in (Suc pos, Suc hc, cc)
      else if cf (node_data n1) data = 0 then (0, 1, 1)
      else let (pos, hc, cc) = chain_walk cf hash data ns in (Suc pos, Suc hc, Suc cc))"

definition bucket_of :: "'d lhash \<Rightarrow> nat \<Rightarrow> nat" where
  "bucket_of lh hash =
     (let nn = hash mod lh_pmax lh in if nn < lh_p lh then hash mod num_alloc_nodes lh else nn)"

definition getrn :: "'d lhash \<Rightarrow> 'd \<Rightarrow> nat \<times> nat \<times> nat \<times> 'd lhash" where
  "getrn lh data =
     (let hash = lh_hash lh data;
          lh = lh\<lparr>num_hash_calls := num_hash_calls lh + 1\<rparr>;
          nn = bucket_of lh hash;
          (pos, hc, cc) = chain_walk (lh_comp lh) hash data (lh_b lh ! nn)
      in (nn, pos, hash,
          lh\<lparr>num_hash_comps := num_hash_comps lh + hc, num_comp_calls := num_comp_calls lh + cc\<rparr>))"

text \<open>The loop of \<^verbatim>\<open>expand\<close> over the chain at \<^verbatim>\<open>n1\<close>: nodes that stay, and nodes moved to the front of \<^verbatim>\<open>n2\<close>.\<close>

fun split_chain :: "nat \<Rightarrow> nat \<Rightarrow> 'd lh_node list \<Rightarrow> 'd lh_node list \<Rightarrow> 'd lh_node list \<times> 'd lh_node list" where
  "split_chain nni p [] n2 = ([], n2)"
| "split_chain nni p (np # ns) n2 =
     (if node_hash np mod nni \<noteq> p then split_chain nni p ns (np # n2)
      else let (stay, n2) = split_chain nni p ns n2 in (np # stay, n2))"

definition expand :: "(nat \<Rightarrow> bool) \<Rightarrow> 'd lhash \<Rightarrow> bool \<times> 'd lhash" where
  "expand rok lh =
     (let nni = num_alloc_nodes lh; p = lh_p lh; pmax = lh_pmax lh; grow = p + 1 \<ge> pmax;
          j = nni * 2 mod 2 ^ 32
      in if grow \<and> \<not> rok j then (False, lh\<lparr>lh_error := lh_error lh + 1\<rparr>)
         else
           let lh = (if grow then
                       lh\<lparr>lh_b := take j (lh_b lh) @ replicate (j - nni) [], lh_pmax := nni,
                          num_alloc_nodes := j, num_expand_reallocs := num_expand_reallocs lh + 1, lh_p := 0\<rparr>
                     else lh\<lparr>lh_p := lh_p lh + 1\<rparr>);
               lh = lh\<lparr>num_nodes := num_nodes lh + 1, num_expands := num_expands lh + 1\<rparr>;
               (n1, n2) = split_chain nni p (lh_b lh ! p) []
           in (True, lh\<lparr>lh_b := (lh_b lh)[p := n1, p + pmax := n2]\<rparr>))"

definition contract :: "(nat \<Rightarrow> bool) \<Rightarrow> 'd lhash \<Rightarrow> 'd lhash" where
  "contract rok lh =
     (let np = lh_b lh ! (lh_p lh + lh_pmax lh - 1);
          lh = lh\<lparr>lh_b := (lh_b lh)[lh_p lh + lh_pmax lh - 1 := []]\<rparr>;
          j = 8 * lh_pmax lh mod 2 ^ 32 div 8
      in if lh_p lh = 0 \<and> \<not> rok j then lh\<lparr>lh_error := lh_error lh + 1\<rparr>
         else
           let lh = (if lh_p lh = 0 then
                       lh\<lparr>num_contract_reallocs := num_contract_reallocs lh + 1,
                          num_alloc_nodes := num_alloc_nodes lh div 2,
                          lh_p := lh_pmax lh div 2 - 1,
                          lh_b := take j (lh_b lh),
                          lh_pmax := lh_pmax lh div 2\<rparr>
                     else lh\<lparr>lh_p := lh_p lh - 1\<rparr>);
               lh = lh\<lparr>num_nodes := num_nodes lh - 1, num_contracts := num_contracts lh + 1\<rparr>
           in lh\<lparr>lh_b := (lh_b lh)[lh_p lh := lh_b lh ! lh_p lh @ np]\<rparr>)"

text \<open>The load of the table times 256, in the arithmetic of \<^verbatim>\<open>unsigned long\<close>.\<close>

definition load_of :: "'d lhash \<Rightarrow> nat" where
  "load_of lh = num_items lh * LH_LOAD_MULT mod 2 ^ 64 div num_nodes lh"

definition OPENSSL_LH_insert :: "(nat \<Rightarrow> bool) \<Rightarrow> bool \<Rightarrow> 'd lhash \<Rightarrow> 'd \<Rightarrow> 'd option \<times> 'd lhash" where
  "OPENSSL_LH_insert rok mok lh data =
     (let lh = lh\<lparr>lh_error := 0\<rparr>;
          (ok, lh) = (if up_load lh \<le> load_of lh then expand rok lh else (True, lh))
      in if \<not> ok then (None, lh)
         else
           let (nn, pos, hash, lh) = getrn lh data; chain = lh_b lh ! nn
           in if pos = length chain then
                (if \<not> mok then (None, lh\<lparr>lh_error := lh_error lh + 1\<rparr>)
                 else (None, lh\<lparr>lh_b := (lh_b lh)[nn := chain @ [\<lparr>node_data = data, node_hash = hash\<rparr>]],
                                num_insert := num_insert lh + 1, num_items := num_items lh + 1\<rparr>))
              else
                (Some (node_data (chain ! pos)),
                 lh\<lparr>lh_b := (lh_b lh)[nn := chain[pos := (chain ! pos)\<lparr>node_data := data\<rparr>]],
                    num_replace := num_replace lh + 1\<rparr>))"

definition OPENSSL_LH_delete :: "(nat \<Rightarrow> bool) \<Rightarrow> 'd lhash \<Rightarrow> 'd \<Rightarrow> 'd option \<times> 'd lhash" where
  "OPENSSL_LH_delete rok lh data =
     (let lh = lh\<lparr>lh_error := 0\<rparr>; (nn, pos, hash, lh) = getrn lh data; chain = lh_b lh ! nn
      in if pos = length chain then (None, lh\<lparr>num_no_delete := num_no_delete lh + 1\<rparr>)
         else
           let ret = node_data (chain ! pos);
               lh = lh\<lparr>lh_b := (lh_b lh)[nn := take pos chain @ drop (Suc pos) chain],
                       num_delete := num_delete lh + 1\<rparr>;
               lh = lh\<lparr>num_items := num_items lh - 1\<rparr>;
               lh = (if num_nodes lh > MIN_NODES \<and> down_load lh \<ge> load_of lh then contract rok lh else lh)
           in (Some ret, lh))"

definition OPENSSL_LH_retrieve :: "'d lhash \<Rightarrow> 'd \<Rightarrow> 'd option \<times> 'd lhash" where
  "OPENSSL_LH_retrieve lh data =
     (let lh = lh\<lparr>lh_error := 0\<rparr>; (nn, pos, hash, lh) = getrn lh data; chain = lh_b lh ! nn
      in if pos = length chain then (None, lh\<lparr>num_retrieve_miss := num_retrieve_miss lh + 1\<rparr>)
         else (Some (node_data (chain ! pos)), lh\<lparr>num_retrieve := num_retrieve lh + 1\<rparr>))"

text \<open>The iteration goes from the last bucket in use to the first and along each chain; \<open>func\<close> acts on a
  state of the caller.\<close>

definition doall_util_fn :: "'d lhash \<Rightarrow> ('d \<Rightarrow> 's \<Rightarrow> 's) \<Rightarrow> 's \<Rightarrow> 's" where
  "doall_util_fn lh func s =
     fold (\<lambda>i. fold (\<lambda>n. func (node_data n)) (lh_b lh ! i)) (rev [0..<num_nodes lh]) s"

definition OPENSSL_LH_doall_arg :: "'d lhash \<Rightarrow> ('d \<Rightarrow> 's \<Rightarrow> 's) \<Rightarrow> 's \<Rightarrow> 's" where
  "OPENSSL_LH_doall_arg lh func s = doall_util_fn lh func s"

definition OPENSSL_LH_num_items :: "'d lhash option \<Rightarrow> nat" where
  "OPENSSL_LH_num_items lh = (case lh of None \<Rightarrow> 0 | Some lh \<Rightarrow> num_items lh)"

definition OPENSSL_LH_get_down_load :: "'d lhash \<Rightarrow> nat" where
  "OPENSSL_LH_get_down_load lh = down_load lh"

definition OPENSSL_LH_set_down_load :: "'d lhash \<Rightarrow> nat \<Rightarrow> 'd lhash" where
  "OPENSSL_LH_set_down_load lh d = lh\<lparr>down_load := d\<rparr>"

definition OPENSSL_LH_error :: "'d lhash \<Rightarrow> nat" where
  "OPENSSL_LH_error lh = lh_error lh"

text \<open>The default hash of strings and its case-insensitive variant.  A string is the list of its bytes
  before the terminating zero; \<^verbatim>\<open>char\<close> is signed, so that a byte is sign-extended.\<close>

definition strhash_step :: "u64 \<Rightarrow> u64 \<Rightarrow> u64" where
  "strhash_step v ret =
     (let r = unat (((drop_bit 2 v) XOR v) AND 0x0f);
          ret = push_bit r ret OR drop_bit (32 - r) ret;
          ret = ret AND 0xFFFFFFFF
      in ret XOR (v * v))"

fun strhash_loop :: "u64 \<Rightarrow> u64 \<Rightarrow> byte list \<Rightarrow> u64" where
  "strhash_loop n ret [] = ret"
| "strhash_loop n ret (c # cs) = strhash_loop (n + 0x100) (strhash_step (n OR scast c) ret) cs"

definition OPENSSL_LH_strhash :: "byte list option \<Rightarrow> u64" where
  "OPENSSL_LH_strhash c =
     (case c of None \<Rightarrow> 0
      | Some cs \<Rightarrow> if cs = [] then 0 else let ret = strhash_loop 0x100 0 cs in drop_bit 16 ret XOR ret)"

definition ossl_tolower :: "byte \<Rightarrow> byte" where
  "ossl_tolower c = (if 65 \<le> c \<and> c \<le> 90 then c XOR 0x20 else c)"

fun strcasehash_loop :: "u64 \<Rightarrow> u64 \<Rightarrow> byte list \<Rightarrow> u64" where
  "strcasehash_loop n ret [] = ret"
| "strcasehash_loop n ret (c # cs) = strcasehash_loop (n + 0x100) (strhash_step (n OR scast (ossl_tolower c)) ret) cs"

definition openssl_lh_strcasehash :: "byte list option \<Rightarrow> u64" where
  "openssl_lh_strcasehash c =
     (case c of None \<Rightarrow> 0
      | Some cs \<Rightarrow> if cs = [] then 0 else let ret = strcasehash_loop 0x100 0 cs in drop_bit 16 ret XOR ret)"

subsection \<open>Invariant\<close>

text \<open>What the client's functions must satisfy: comparison with result 0 is an equivalence, and equal keys
  have equal hashes.\<close>

definition key_ok :: "('d \<Rightarrow> 'd \<Rightarrow> int) \<Rightarrow> ('d \<Rightarrow> nat) \<Rightarrow> bool" where
  "key_ok c h \<longleftrightarrow> (\<forall>x. c x x = 0) \<and> (\<forall>x y. c x y = 0 \<longrightarrow> c y x = 0) \<and>
     (\<forall>x y z. c x y = 0 \<longrightarrow> c y z = 0 \<longrightarrow> c x z = 0) \<and> (\<forall>x y. c x y = 0 \<longrightarrow> h x = h y)"

definition chain_ok ::
  "('d \<Rightarrow> 'd \<Rightarrow> int) \<Rightarrow> ('d \<Rightarrow> nat) \<Rightarrow> (nat \<Rightarrow> nat) \<Rightarrow> nat \<Rightarrow> 'd lh_node list \<Rightarrow> bool" where
  "chain_ok c h f i ns \<longleftrightarrow> (\<forall>n \<in> set ns. node_hash n = h (node_data n) \<and> f (h (node_data n)) = i) \<and>
     sorted_wrt (\<lambda>x y. c (node_data x) (node_data y) \<noteq> 0) ns"

definition lh_wf :: "'d lhash \<Rightarrow> bool" where
  "lh_wf lh \<longleftrightarrow> key_ok (lh_comp lh) (lh_hash lh) \<and> (\<exists>k. lh_pmax lh = 2 ^ k * 8) \<and> lh_p lh < lh_pmax lh \<and>
     num_alloc_nodes lh = 2 * lh_pmax lh \<and> num_nodes lh = lh_pmax lh + lh_p lh \<and>
     length (lh_b lh) = num_alloc_nodes lh \<and>
     (\<forall>i < length (lh_b lh). chain_ok (lh_comp lh) (lh_hash lh) (bucket_of lh) i (lh_b lh ! i)) \<and>
     num_items lh = length (concat (lh_b lh))"

text \<open>The items stored in a table, and the dictionary it represents.\<close>

definition lh_items :: "'d lhash \<Rightarrow> 'd set" where
  "lh_items lh = node_data ` set (concat (lh_b lh))"

definition lh_map :: "'d lhash \<Rightarrow> 'd \<Rightarrow> 'd option" where
  "lh_map lh d = map_option node_data
     (List.find (\<lambda>n. lh_comp lh (node_data n) d = 0) (lh_b lh ! bucket_of lh (lh_hash lh d)))"

lemma key_ok_sym: "key_ok c h \<Longrightarrow> c x y = 0 \<Longrightarrow> c y x = 0"
  and key_ok_trans: "key_ok c h \<Longrightarrow> c x y = 0 \<Longrightarrow> c y z = 0 \<Longrightarrow> c x z = 0"
  and key_ok_hash: "key_ok c h \<Longrightarrow> c x y = 0 \<Longrightarrow> h x = h y"
  by (unfold key_ok_def) blast+

subsection \<open>Buckets\<close>

lemma mod_double: "(h :: nat) mod (2 * m) = h mod m \<or> h mod (2 * m) = h mod m + m"
proof -
  have "h mod (m * 2) = m * (h div m mod 2) + h mod m" by (rule mod_mult2_eq)
  moreover have "h div m mod 2 = 0 \<or> h div m mod 2 = 1" by linarith
  ultimately show ?thesis by (auto simp: mult.commute)
qed

lemma bucket_of_cases:
  assumes "num_alloc_nodes lh = 2 * lh_pmax lh"
  obtains "h mod lh_pmax lh < lh_p lh" "bucket_of lh h = h mod (2 * lh_pmax lh)"
      "bucket_of lh h = h mod lh_pmax lh \<or> bucket_of lh h = h mod lh_pmax lh + lh_pmax lh"
    | "lh_p lh \<le> h mod lh_pmax lh" "bucket_of lh h = h mod lh_pmax lh"
  using mod_double [of h "lh_pmax lh"] assms by (force simp: bucket_of_def Let_def not_less split: if_splits)

lemma bucket_of_less:
  assumes "lh_p lh < lh_pmax lh" and "num_alloc_nodes lh = 2 * lh_pmax lh"
  shows "bucket_of lh h < lh_pmax lh + lh_p lh"
proof -
  have "h mod lh_pmax lh < lh_pmax lh" using assms by simp
  then show ?thesis using mod_double [of h "lh_pmax lh"] assms(2) by (auto simp: bucket_of_def Let_def)
qed

lemma lh_wf_bucket:
  assumes "lh_wf lh"
  shows "bucket_of lh h < num_nodes lh" "bucket_of lh h < length (lh_b lh)"
proof -
  show "bucket_of lh h < num_nodes lh"
    using bucket_of_less [of lh h] assms unfolding lh_wf_def by metis
  then show "bucket_of lh h < length (lh_b lh)" using assms by (auto simp: lh_wf_def)
qed

lemma lh_wf_chain:
  "lh_wf lh \<Longrightarrow> i < length (lh_b lh) \<Longrightarrow> chain_ok (lh_comp lh) (lh_hash lh) (bucket_of lh) i (lh_b lh ! i)"
  by (simp add: lh_wf_def)

lemma lh_wf_unused:
  assumes "lh_wf lh" and "num_nodes lh \<le> i" and "i < length (lh_b lh)"
  shows "lh_b lh ! i = []"
proof (rule ccontr)
  assume "lh_b lh ! i \<noteq> []"
  then obtain n where "n \<in> set (lh_b lh ! i)" by (meson last_in_set)
  then have "bucket_of lh (node_hash n) = i" using lh_wf_chain [OF assms(1,3)] by (simp add: chain_ok_def)
  then show False using lh_wf_bucket(1) [OF assms(1), of "node_hash n"] assms(2) by simp
qed

lemma chain_ok_Nil [simp]: "chain_ok c h f i []"
  by (simp add: chain_ok_def)

lemma chain_ok_rebucket: "chain_ok c h f i ns \<Longrightarrow> (\<And>x. f x = i \<Longrightarrow> f' x = i) \<Longrightarrow> chain_ok c h f' i ns"
  by (auto simp: chain_ok_def)

lemma chain_ok_split:
  assumes k: "key_ok c h" and ns: "chain_ok c h f p ns" and f: "\<And>x. f x = p \<Longrightarrow> f' x = (if x mod m = p then p else q)"
  shows "chain_ok c h f' p (filter (\<lambda>n. node_hash n mod m = p) ns)"
    and "chain_ok c h f' q (rev (filter (\<lambda>n. node_hash n mod m \<noteq> p) ns))"
proof -
  have s: "sorted_wrt (\<lambda>x y. c (node_data x) (node_data y) \<noteq> 0) (filter P ns)" for P
    using ns by (simp add: chain_ok_def sorted_wrt_filter)
  show "chain_ok c h f' p (filter (\<lambda>n. node_hash n mod m = p) ns)"
    using ns f s by (auto simp: chain_ok_def)
  have "sorted_wrt (\<lambda>x y. c (node_data y) (node_data x) \<noteq> 0) (filter (\<lambda>n. node_hash n mod m \<noteq> p) ns)"
    by (rule sorted_wrt_mono_rel [OF _ s]) (use key_ok_sym [OF k] in blast)
  then show "chain_ok c h f' q (rev (filter (\<lambda>n. node_hash n mod m \<noteq> p) ns))"
    using ns f by (auto simp: chain_ok_def sorted_wrt_rev)
qed

lemma chain_ok_merge:
  assumes k: "key_ok c h" and a: "chain_ok c h f i as" and b: "chain_ok c h f j bs" and "i \<noteq> j"
    and f: "\<And>x. f x = i \<or> f x = j \<Longrightarrow> f' x = i"
  shows "chain_ok c h f' i (as @ bs)"
proof -
  have "c (node_data x) (node_data y) \<noteq> 0" if "x \<in> set as" "y \<in> set bs" for x y
  proof
    assume "c (node_data x) (node_data y) = 0"
    then have "node_hash x = node_hash y" using key_ok_hash [OF k] a b that by (simp add: chain_ok_def)
    moreover have "f (node_hash x) = i" "f (node_hash y) = j" using a b that by (simp_all add: chain_ok_def)
    ultimately show False using \<open>i \<noteq> j\<close> by simp
  qed
  with a b f show ?thesis by (auto simp: chain_ok_def sorted_wrt_append)
qed

lemma split_chain_spec:
  "split_chain nni p ns n2 =
    (filter (\<lambda>n. node_hash n mod nni = p) ns, rev (filter (\<lambda>n. node_hash n mod nni \<noteq> p) ns) @ n2)"
  by (induction ns arbitrary: n2) auto

lemma mset_concat_update:
  "i < length xss \<Longrightarrow> mset (concat (xss[i := ys])) + mset (xss ! i) = mset (concat xss) + mset ys"
  by (induction xss arbitrary: i) (auto split: nat.splits)

lemma mset_move:
  assumes "A + C = X + M" and "M + N = C"
  shows "A + N = (X :: 'a multiset)"
proof -
  have "(A + N) + C = (A + C) + N" by (simp add: ac_simps)
  also have "\<dots> = X + (M + N)" by (simp add: assms(1) ac_simps)
  finally show ?thesis using assms(2) by simp
qed

lemma expand_buckets:
  assumes wf: "lh_wf lh" and e: "expand rok lh = (True, lh')" and small: "num_alloc_nodes lh < 2 ^ 31"
  shows "bucket_of lh' h = (if h mod lh_pmax lh = lh_p lh then h mod (2 * lh_pmax lh) else bucket_of lh h)"
    and "lh_p lh' < lh_pmax lh'" "num_alloc_nodes lh' = 2 * lh_pmax lh'" "num_nodes lh' = lh_pmax lh' + lh_p lh'"
    and "\<exists>k. lh_pmax lh' = 2 ^ k * 8" "length (lh_b lh') = num_alloc_nodes lh'"
    and "lh_comp lh' = lh_comp lh" "lh_hash lh' = lh_hash lh" "num_items lh' = num_items lh"
proof -
  have w: "lh_p lh < lh_pmax lh" "num_alloc_nodes lh = 2 * lh_pmax lh" "num_nodes lh = lh_pmax lh + lh_p lh"
    "length (lh_b lh) = num_alloc_nodes lh" using wf by (simp_all add: lh_wf_def)
  obtain k where k: "lh_pmax lh = 2 ^ k * 8" using wf by (auto simp: lh_wf_def)
  have "h mod lh_pmax lh < lh_pmax lh" using w by simp
  then have "h mod lh_pmax lh = lh_p lh" if "\<not> h mod lh_pmax lh < lh_p lh" "lh_pmax lh \<le> Suc (lh_p lh)"
    using that by linarith
  moreover have j: "num_alloc_nodes lh * 2 mod 2 ^ 32 = num_alloc_nodes lh * 2" using small by simp
  ultimately show "bucket_of lh' h = (if h mod lh_pmax lh = lh_p lh then h mod (2 * lh_pmax lh) else bucket_of lh h)"
    using e w by (auto simp: expand_def bucket_of_def Let_def split: if_splits prod.splits)
  have "lh_pmax lh = 2 ^ k * 8 \<and> 2 * lh_pmax lh = 2 ^ Suc k * 8" using k by simp
  then show "\<exists>k. lh_pmax lh' = 2 ^ k * 8"
    using e w by (auto simp: expand_def Let_def split: if_splits prod.splits intro: exI [of _ k] exI [of _ "Suc k"])
  show "lh_p lh' < lh_pmax lh'" "num_alloc_nodes lh' = 2 * lh_pmax lh'" "num_nodes lh' = lh_pmax lh' + lh_p lh'"
    "length (lh_b lh') = num_alloc_nodes lh'" "lh_comp lh' = lh_comp lh" "lh_hash lh' = lh_hash lh"
    "num_items lh' = num_items lh"
    using e w j by (auto simp: expand_def Let_def split: if_splits prod.splits)
qed

lemma expand_chains:
  assumes wf: "lh_wf lh" and e: "expand rok lh = (True, lh')" and small: "num_alloc_nodes lh < 2 ^ 31"
    and m: "m = 2 * lh_pmax lh" and q: "q = lh_p lh + lh_pmax lh"
    and f1: "n1 = filter (\<lambda>n. node_hash n mod m = lh_p lh) (lh_b lh ! lh_p lh)"
    and f2: "n2 = rev (filter (\<lambda>n. node_hash n mod m \<noteq> lh_p lh) (lh_b lh ! lh_p lh))"
  shows "\<exists>r. lh_b lh' = (lh_b lh @ replicate r [])[lh_p lh := n1, q := n2]"
proof -
  have w: "lh_p lh < lh_pmax lh" "num_alloc_nodes lh = m" "length (lh_b lh) = m"
    using wf m by (simp_all add: lh_wf_def)
  have j: "m * 2 mod 2 ^ 32 = m * 2" using small w by simp
  have nth: "(lh_b lh @ replicate r []) ! lh_p lh = lh_b lh ! lh_p lh" for r
    using w m by (simp add: nth_append)
  show ?thesis
  proof (cases "lh_pmax lh \<le> Suc (lh_p lh)")
    case True
    with e have "lh_b lh' = (lh_b lh @ replicate m [])[lh_p lh := n1, q := n2]"
      using w j nth [of m] by (auto simp: expand_def Let_def split_chain_spec f1 f2 q split: if_splits)
    then show ?thesis by blast
  next
    case False
    with e have "lh_b lh' = (lh_b lh @ replicate 0 [])[lh_p lh := n1, q := n2]"
      using w by (auto simp: expand_def Let_def split_chain_spec f1 f2 q split: if_splits)
    then show ?thesis by blast
  qed
qed

lemma expand_wf:
  assumes wf: "lh_wf lh" and e: "expand rok lh = (True, lh')" and small: "num_alloc_nodes lh < 2 ^ 31"
  shows "lh_wf lh'" and "mset (concat (lh_b lh')) = mset (concat (lh_b lh))"
proof -
  note B = expand_buckets [OF wf e small]
  let ?p = "lh_p lh" and ?m = "2 * lh_pmax lh" and ?q = "lh_p lh + lh_pmax lh"
  let ?n1 = "filter (\<lambda>n. node_hash n mod ?m = ?p) (lh_b lh ! ?p)"
  let ?n2 = "rev (filter (\<lambda>n. node_hash n mod ?m \<noteq> ?p) (lh_b lh ! ?p))"
  obtain r where b: "lh_b lh' = (lh_b lh @ replicate r [])[?p := ?n1, ?q := ?n2]"
    using expand_chains [OF wf e small refl refl refl refl] by blast
  have w: "?p < lh_pmax lh" "length (lh_b lh) = ?m" "num_nodes lh = ?q" using wf by (simp_all add: lh_wf_def)
  let ?b = "lh_b lh @ replicate r []"
  have q: "?b ! ?q = []" using lh_wf_unused [OF wf, of ?q] w by (simp add: nth_append)
  have nth: "?b ! ?p = lh_b lh ! ?p" using w by (simp add: nth_append)
  have 1: "mset (concat (?b[?p := ?n1])) + mset (lh_b lh ! ?p) = mset (concat (lh_b lh)) + mset ?n1"
    using mset_concat_update [of ?p ?b ?n1] w nth by simp
  have 2: "mset (concat (?b[?p := ?n1, ?q := ?n2])) = mset (concat (?b[?p := ?n1])) + mset ?n2"
    using mset_concat_update [of ?q "?b[?p := ?n1]" ?n2] w q by simp
  have 3: "mset ?n1 + mset ?n2 = mset (lh_b lh ! ?p)" by (simp add: multiset_partition [symmetric])
  show ms: "mset (concat (lh_b lh')) = mset (concat (lh_b lh))"
    unfolding b 2 by (rule mset_move [OF 1 3])
  have key: "key_ok (lh_comp lh) (lh_hash lh)" using wf by (simp add: lh_wf_def)
  have na: "num_alloc_nodes lh = 2 * lh_pmax lh" using wf by (simp add: lh_wf_def)
  have pm: "h mod lh_pmax lh = ?p" if "bucket_of lh h = ?p" for h
    using na by (rule bucket_of_cases [of lh h]) (use that w in linarith)+
  have sp: "bucket_of lh' h = (if h mod ?m = ?p then ?p else ?q)" if "bucket_of lh h = ?p" for h
    using B(1) [of h] pm [OF that] mod_double [of h "lh_pmax lh"] by auto
  have ch: "chain_ok (lh_comp lh) (lh_hash lh) (bucket_of lh') i (lh_b lh' ! i)" if i: "i < length (lh_b lh')" for i
  proof -
    have ok: "chain_ok (lh_comp lh) (lh_hash lh) (bucket_of lh) ?p (lh_b lh ! ?p)"
      using lh_wf_chain [OF wf, of ?p] w by simp
    consider "i = ?q" | "i = ?p" "i \<noteq> ?q" | "i \<noteq> ?p" "i \<noteq> ?q" "i < ?m" | "?m \<le> i" "i \<noteq> ?p" "i \<noteq> ?q"
      by linarith
    then show ?thesis
    proof cases
      case 3
      have "bucket_of lh' h = i" if "bucket_of lh h = i" for h
        using na by (rule bucket_of_cases [of lh h]) (use B(1) [of h] that 3 in \<open>auto split: if_splits\<close>)
      with chain_ok_rebucket [OF lh_wf_chain [OF wf, of i]] 3 w show ?thesis by (simp add: b nth_append)
    qed (use i w chain_ok_split [OF key ok sp] in \<open>simp_all add: b nth_append\<close>)
  qed
  have "length (concat (lh_b lh')) = length (concat (lh_b lh))" using ms by (metis size_mset)
  with wf B(2-) ch key show "lh_wf lh'" by (simp add: lh_wf_def)
qed

lemma contract_buckets:
  assumes wf: "lh_wf lh" and big: "MIN_NODES < num_nodes lh" and ok: "rok (lh_pmax lh) \<or> lh_p lh \<noteq> 0"
    and c: "lh' = contract rok lh" and small: "lh_pmax lh < 2 ^ 29" and L: "L = lh_p lh + lh_pmax lh - 1"
  shows "bucket_of lh' h = (if bucket_of lh h = L then lh_p lh' else bucket_of lh h)"
    and "lh_p lh' < lh_pmax lh'" "num_alloc_nodes lh' = 2 * lh_pmax lh'" "num_nodes lh' = lh_pmax lh' + lh_p lh'"
    and "\<exists>k. lh_pmax lh' = 2 ^ k * 8" "lh_p lh' < L" "L < length (lh_b lh)"
    and "lh_comp lh' = lh_comp lh" "lh_hash lh' = lh_hash lh" "num_items lh' = num_items lh"
    and "lh_b lh' = (take (num_alloc_nodes lh') ((lh_b lh)[L := []]))[lh_p lh' := lh_b lh ! lh_p lh' @ lh_b lh ! L]"
    and "num_nodes lh \<le> num_alloc_nodes lh'" "num_alloc_nodes lh' \<le> length (lh_b lh)"
proof -
  have w: "lh_p lh < lh_pmax lh" "num_alloc_nodes lh = 2 * lh_pmax lh" "num_nodes lh = lh_pmax lh + lh_p lh"
    "length (lh_b lh) = num_alloc_nodes lh" using wf by (simp_all add: lh_wf_def)
  obtain k where k: "lh_pmax lh = 2 ^ k * 8" using wf by (auto simp: lh_wf_def)
  show "L < length (lh_b lh)" using w L by simp
  consider (shrink) "lh_p lh = 0" "rok (lh_pmax lh)" | (step) "lh_p lh \<noteq> 0" using ok by blast
  then have "bucket_of lh' h = (if bucket_of lh h = L then lh_p lh' else bucket_of lh h) \<and>
    lh_p lh' < lh_pmax lh' \<and> num_alloc_nodes lh' = 2 * lh_pmax lh' \<and> num_nodes lh' = lh_pmax lh' + lh_p lh' \<and>
    (\<exists>k. lh_pmax lh' = 2 ^ k * 8) \<and> lh_p lh' < L \<and>
    lh_comp lh' = lh_comp lh \<and> lh_hash lh' = lh_hash lh \<and> num_items lh' = num_items lh \<and>
    lh_b lh' = (take (num_alloc_nodes lh') ((lh_b lh)[L := []]))[lh_p lh' := lh_b lh ! lh_p lh' @ lh_b lh ! L] \<and>
    num_nodes lh \<le> num_alloc_nodes lh' \<and> num_alloc_nodes lh' \<le> length (lh_b lh)"
  proof cases
    case shrink
    have "(2 :: nat) < 2 ^ k" using big w k shrink by simp
    then obtain j where j: "k = Suc (Suc j)" by (cases k; cases "k - 1") auto
    obtain m where m: "lh_pmax lh = 2 * m" "16 \<le> m" "\<exists>k. m = 2 ^ k * 8"
    proof
      show "lh_pmax lh = 2 * (2 ^ Suc j * 8)" "16 \<le> 2 ^ Suc j * (8 :: nat)" using k j by simp_all
      show "\<exists>k. 2 ^ Suc j * 8 = 2 ^ k * (8 :: nat)" by blast
    qed
    have t: "8 * lh_pmax lh mod 2 ^ 32 div 8 = lh_pmax lh" using small by simp
    have hb: "h mod m = m - 1" if "\<not> h mod m < m - 1" using that m(2) mod_less_divisor [of m h] by linarith
    have f: "lh_p lh' = m - 1" "lh_pmax lh' = m" "num_alloc_nodes lh' = 2 * m" "num_nodes lh' = 2 * m - 1"
      "lh_comp lh' = lh_comp lh" "lh_hash lh' = lh_hash lh" "num_items lh' = num_items lh"
      using shrink w m c t by (simp_all add: contract_def Let_def)
    have b: "lh_b lh' = (take (2 * m) ((lh_b lh)[L := []]))[m - 1 := lh_b lh ! (m - 1) @ lh_b lh ! L]"
      using shrink w m c t L by (simp add: contract_def Let_def)
    have "bucket_of lh' h = (if bucket_of lh h = L then lh_p lh' else bucket_of lh h)"
      using mod_double [of h m] hb m(2) f shrink L m w mod_less_divisor [of m h]
      by (auto simp: bucket_of_def Let_def)
    with f b m w shrink L show ?thesis by auto
  next
    case step
    have f: "lh_p lh' = lh_p lh - 1" "lh_pmax lh' = lh_pmax lh" "num_alloc_nodes lh' = 2 * lh_pmax lh"
      "num_nodes lh' = num_nodes lh - 1"
      "lh_comp lh' = lh_comp lh" "lh_hash lh' = lh_hash lh" "num_items lh' = num_items lh"
      using step w c by (simp_all add: contract_def Let_def)
    have b: "lh_b lh' = (lh_b lh)[L := [], lh_p lh - 1 := lh_b lh ! (lh_p lh - 1) @ lh_b lh ! L]"
      using step w c L by (simp add: contract_def Let_def)
    have "h mod lh_pmax lh < lh_pmax lh" using w by simp
    then have "h mod lh_pmax lh \<noteq> L" using L step by linarith
    then have "bucket_of lh' h = (if bucket_of lh h = L then lh_p lh' else bucket_of lh h)"
      using mod_double [of h "lh_pmax lh"] f step L w
      by (auto simp: bucket_of_def Let_def)
    with f b w step L k show ?thesis by auto
  qed
  then show "bucket_of lh' h = (if bucket_of lh h = L then lh_p lh' else bucket_of lh h)"
    "lh_p lh' < lh_pmax lh'" "num_alloc_nodes lh' = 2 * lh_pmax lh'" "num_nodes lh' = lh_pmax lh' + lh_p lh'"
    "\<exists>k. lh_pmax lh' = 2 ^ k * 8" "lh_p lh' < L" "lh_comp lh' = lh_comp lh" "lh_hash lh' = lh_hash lh"
    "num_items lh' = num_items lh"
    "lh_b lh' = (take (num_alloc_nodes lh') ((lh_b lh)[L := []]))[lh_p lh' := lh_b lh ! lh_p lh' @ lh_b lh ! L]"
    "num_nodes lh \<le> num_alloc_nodes lh'" "num_alloc_nodes lh' \<le> length (lh_b lh)" by blast+
qed

lemma contract_wf:
  assumes wf: "lh_wf lh" and big: "MIN_NODES < num_nodes lh" and ok: "rok (lh_pmax lh) \<or> lh_p lh \<noteq> 0"
    and c: "lh' = contract rok lh" and small: "lh_pmax lh < 2 ^ 29"
  shows "lh_wf lh'" and "mset (concat (lh_b lh')) = mset (concat (lh_b lh))"
proof -
  define L where "L = lh_p lh + lh_pmax lh - 1"
  note B = contract_buckets [OF wf big ok c small L_def]
  let ?p = "lh_p lh'" and ?n = "num_alloc_nodes lh'"
  let ?b = "take ?n ((lh_b lh)[L := []])"
  have key: "key_ok (lh_comp lh) (lh_hash lh)" using wf by (simp add: lh_wf_def)
  have len: "?p < ?n" "?n \<le> length (lh_b lh)" "length ?b = ?n" "L < ?n"
    using B(2,3,6,7,12,13) wf by (auto simp: L_def lh_wf_def)
  have dr: "concat (drop ?n ((lh_b lh)[L := []])) = []"
  proof -
    have "(lh_b lh)[L := []] ! i = []" if "?n \<le> i" "i < length (lh_b lh)" for i
      using lh_wf_unused [OF wf, of i] that B(7,12) by (cases "i = L") simp_all
    then show ?thesis by (auto simp: set_conv_nth)
  qed
  have "concat ((lh_b lh)[L := []]) = concat ?b @ concat (drop ?n ((lh_b lh)[L := []]))"
    unfolding concat_append [symmetric] append_take_drop_id ..
  then have ct: "concat ?b = concat ((lh_b lh)[L := []])" unfolding dr by simp
  have nth: "?b ! ?p = lh_b lh ! ?p" using len B(6) by simp
  have 1: "mset (concat (lh_b lh')) + mset (lh_b lh ! ?p) = mset (concat ((lh_b lh)[L := []])) + mset (lh_b lh ! ?p @ lh_b lh ! L)"
    using mset_concat_update [of ?p ?b "lh_b lh ! ?p @ lh_b lh ! L"] len nth unfolding B(11) ct by simp
  have 2: "mset (concat ((lh_b lh)[L := []])) + mset (lh_b lh ! L) = mset (concat (lh_b lh))"
    using mset_concat_update [of L "lh_b lh" "[]"] B(7) by simp
  show ms: "mset (concat (lh_b lh')) = mset (concat (lh_b lh))"
    using 1 unfolding 2 [symmetric] by (simp add: ac_simps)
  have ch: "chain_ok (lh_comp lh) (lh_hash lh) (bucket_of lh') i (lh_b lh' ! i)" if i: "i < length (lh_b lh')" for i
  proof (cases "i = ?p")
    case True
    have "chain_ok (lh_comp lh) (lh_hash lh) (bucket_of lh') ?p (lh_b lh ! ?p @ lh_b lh ! L)"
      using B(6,7) by (intro chain_ok_merge [OF key lh_wf_chain [OF wf] lh_wf_chain [OF wf]]) (auto simp: B(1))
    with True len show ?thesis by (simp add: B(11))
  next
    case False
    have "chain_ok (lh_comp lh) (lh_hash lh) (bucket_of lh') i (lh_b lh ! i)" if "i \<noteq> L"
      using that i len by (intro chain_ok_rebucket [OF lh_wf_chain [OF wf]]) (auto simp: B(1,11))
    with False i len show ?thesis by (cases "i = L") (auto simp: B(11) chain_ok_def)
  qed
  have "length (concat (lh_b lh')) = length (concat (lh_b lh))" using ms by (metis size_mset)
  moreover have "length (lh_b lh') = ?n" using len by (simp add: B(11))
  ultimately show "lh_wf lh'" using wf B(2-5,8-10) ch key by (simp add: lh_wf_def)
qed

subsection \<open>Chains\<close>

lemma chain_walk_spec:
  assumes "key_ok c h" and "\<forall>n \<in> set ns. node_hash n = h (node_data n)"
  shows "fst (chain_walk c (h d) d ns) = length (takeWhile (\<lambda>n. c (node_data n) d \<noteq> 0) ns)"
  using assms(2) by (induction ns) (auto simp: Let_def split: prod.splits dest: key_ok_hash [OF assms(1)])

lemma chain_found:
  assumes "pos = length (takeWhile P ns)" and "pos \<noteq> length ns"
  obtains as n cs where "ns = as @ n # cs" "pos = length as" "\<not> P n" "\<forall>x \<in> set as. P x"
proof
  let ?as = "takeWhile P ns"
  have "dropWhile P ns \<noteq> []" using assms by (metis append_Nil2 takeWhile_dropWhile_id)
  then show "ns = ?as @ hd (dropWhile P ns) # tl (dropWhile P ns)" "\<not> P (hd (dropWhile P ns))"
    by (simp_all add: hd_dropWhile)
qed (use assms in \<open>auto dest: set_takeWhileD\<close>)

lemma chain_missing:
  assumes "length ns = length (takeWhile P ns)"
  shows "\<forall>n \<in> set ns. P n"
  using assms by (metis set_takeWhileD takeWhile_eq_take take_all order_refl)

lemma chain_others:
  assumes "key_ok c h" and "chain_ok c h f i (as @ n # cs)" and "c (node_data n) d = 0"
  shows "\<forall>x \<in> set as \<union> set cs. c (node_data x) d \<noteq> 0"
proof (intro ballI notI)
  fix x assume x: "x \<in> set as \<union> set cs" "c (node_data x) d = 0"
  then have "c (node_data x) (node_data n) = 0" "c (node_data n) (node_data x) = 0"
    using assms(1,3) by (meson key_ok_sym key_ok_trans)+
  with x(1) assms(2) show False by (auto simp: chain_ok_def sorted_wrt_append)
qed

lemma chain_append:
  assumes "chain_ok c h f i ns" and "f (h d) = i" and "\<forall>n \<in> set ns. c (node_data n) d \<noteq> 0"
  shows "chain_ok c h f i (ns @ [\<lparr>node_data = d, node_hash = h d\<rparr>])"
  using assms by (auto simp: chain_ok_def sorted_wrt_append)

lemma chain_replace:
  assumes k: "key_ok c h" and ok: "chain_ok c h f i (as @ n # cs)" and d: "c (node_data n) d = 0"
  shows "chain_ok c h f i (as @ n\<lparr>node_data := d\<rparr> # cs)"
proof -
  have "h (node_data n) = h d" using key_ok_hash [OF k d] .
  moreover have "c (node_data x) d \<noteq> 0" "c d (node_data x) \<noteq> 0" if "x \<in> set as \<union> set cs" for x
    using chain_others [OF k ok d] that key_ok_sym [OF k] by blast+
  ultimately show ?thesis using ok by (auto simp: chain_ok_def sorted_wrt_append)
qed

lemma chain_remove: "chain_ok c h f i (as @ n # cs) \<Longrightarrow> chain_ok c h f i (as @ cs)"
  by (auto simp: chain_ok_def sorted_wrt_append)

lemma chain_find:
  assumes "key_ok c h" and "chain_ok c h f i ns" and "n \<in> set ns" and "c (node_data n) d = 0"
  shows "List.find (\<lambda>n. c (node_data n) d = 0) ns = Some n"
proof -
  obtain as cs where ns: "ns = as @ n # cs" using split_list [OF assms(3)] by blast
  have "List.find (\<lambda>n. c (node_data n) d = 0) (as @ n # cs) = Some n" if "\<forall>x \<in> set as. c (node_data x) d \<noteq> 0" for as
    using that assms(4) by (induction as) auto
  with chain_others [OF assms(1) assms(2) [unfolded ns] assms(4)] ns show ?thesis by simp
qed

lemma set_concat_nth: "set (concat xss) = (\<Union>i<length xss. set (xss ! i))"
  by (fastforce simp: set_conv_nth [of xss])

lemma lh_map_iff:
  assumes wf: "lh_wf lh"
  shows "lh_map lh k = Some x \<longleftrightarrow> x \<in> lh_items lh \<and> lh_comp lh x k = 0"
proof
  let ?nn = "bucket_of lh (lh_hash lh k)"
  note nn = lh_wf_bucket(2) [OF wf, of "lh_hash lh k"]
  have key: "key_ok (lh_comp lh) (lh_hash lh)" using wf by (simp add: lh_wf_def)
  {
    assume "lh_map lh k = Some x"
    then obtain n where n: "List.find (\<lambda>n. lh_comp lh (node_data n) k = 0) (lh_b lh ! ?nn) = Some n" "x = node_data n"
      by (auto simp: lh_map_def)
    then have "n \<in> set (lh_b lh ! ?nn)" "lh_comp lh (node_data n) k = 0" by (auto simp: find_Some_iff)
    moreover have "lh_b lh ! ?nn \<in> set (lh_b lh)" using nn by simp
    ultimately show "x \<in> lh_items lh \<and> lh_comp lh x k = 0" using n(2) by (force simp: lh_items_def)
  }
  assume x: "x \<in> lh_items lh \<and> lh_comp lh x k = 0"
  then obtain i n where n: "i < length (lh_b lh)" "n \<in> set (lh_b lh ! i)" "x = node_data n"
    unfolding lh_items_def set_concat_nth by blast
  have "bucket_of lh (lh_hash lh k) = i"
    using lh_wf_chain [OF wf n(1)] n x key_ok_hash [OF key] by (auto simp: chain_ok_def)
  then have "i = ?nn" by simp
  with chain_find [OF key lh_wf_chain [OF wf nn], of n k] n x show "lh_map lh k = Some x" by (simp add: lh_map_def)
qed

lemma bucket_update:
  assumes wf: "lh_wf lh" and nn: "nn = bucket_of lh (lh_hash lh d)" and D: "\<forall>x \<in> D. lh_comp lh x d = 0"
    and ch: "chain_ok (lh_comp lh) (lh_hash lh) (bucket_of lh) nn ns"
    and data: "node_data ` set ns = D \<union> {x \<in> node_data ` set (lh_b lh ! nn). lh_comp lh x d \<noteq> 0}"
  shows "lh_wf (lh\<lparr>lh_b := (lh_b lh)[nn := ns], num_items := length (concat ((lh_b lh)[nn := ns]))\<rparr>)"
    and "node_data ` set (concat ((lh_b lh)[nn := ns])) = D \<union> {x \<in> lh_items lh. lh_comp lh x d \<noteq> 0}"
proof -
  have len: "nn < length (lh_b lh)" using lh_wf_bucket(2) [OF wf] nn by simp
  have b: "bucket_of (lh\<lparr>lh_b := x, num_items := y\<rparr>) = bucket_of lh" for x y
    by (simp add: bucket_of_def fun_eq_iff Let_def)
  show "lh_wf (lh\<lparr>lh_b := (lh_b lh)[nn := ns], num_items := length (concat ((lh_b lh)[nn := ns]))\<rparr>)"
    using wf ch len by (auto simp: lh_wf_def b nth_list_update)
  have key: "key_ok (lh_comp lh) (lh_hash lh)" using wf by (simp add: lh_wf_def)
  have other: "lh_comp lh (node_data n) d \<noteq> 0"
    if "i < length (lh_b lh)" "i \<noteq> nn" "n \<in> set (lh_b lh ! i)" for i n
  proof
    assume "lh_comp lh (node_data n) d = 0"
    with key_ok_hash [OF key] lh_wf_chain [OF wf that(1)] that(3) nn have "i = nn" by (auto simp: chain_ok_def)
    with that(2) show False by simp
  qed
  show "node_data ` set (concat ((lh_b lh)[nn := ns])) = D \<union> {x \<in> lh_items lh. lh_comp lh x d \<noteq> 0}"
    using data other len D unfolding lh_items_def set_concat_nth
    by (auto simp: nth_list_update image_UN split: if_splits) blast+
qed

subsection \<open>Operations on the dictionary\<close>

text \<open>Two tables that differ in statistics, loads and the error indicator only.\<close>

definition same_table :: "'d lhash \<Rightarrow> 'd lhash \<Rightarrow> bool" where
  "same_table lh lh' \<longleftrightarrow> lh_b lh' = lh_b lh \<and> lh_comp lh' = lh_comp lh \<and> lh_hash lh' = lh_hash lh \<and>
     num_nodes lh' = num_nodes lh \<and> num_alloc_nodes lh' = num_alloc_nodes lh \<and> lh_p lh' = lh_p lh \<and>
     lh_pmax lh' = lh_pmax lh \<and> num_items lh' = num_items lh"

lemma same_table_facts:
  assumes "same_table lh lh'"
  shows "bucket_of lh' = bucket_of lh" "lh_wf lh' = lh_wf lh" "lh_items lh' = lh_items lh" "lh_map lh' = lh_map lh"
proof -
  show b: "bucket_of lh' = bucket_of lh" using assms by (simp add: same_table_def bucket_of_def fun_eq_iff Let_def)
  show "lh_wf lh' = lh_wf lh" using assms b by (simp add: same_table_def lh_wf_def)
  show "lh_items lh' = lh_items lh" using assms by (simp add: same_table_def lh_items_def)
  show "lh_map lh' = lh_map lh" using assms b by (simp add: same_table_def lh_map_def fun_eq_iff)
qed

lemma getrn_spec:
  assumes wf: "lh_wf lh" and g: "getrn lh d = (nn, pos, hash, lh')"
  shows "nn = bucket_of lh (lh_hash lh d)" and "hash = lh_hash lh d" and "same_table lh lh'"
    and "pos = length (takeWhile (\<lambda>n. lh_comp lh (node_data n) d \<noteq> 0) (lh_b lh ! nn))"
proof -
  have b: "bucket_of (lh\<lparr>num_hash_calls := x\<rparr>) = bucket_of lh" for x
    by (rule same_table_facts) (simp add: same_table_def)
  show nn: "nn = bucket_of lh (lh_hash lh d)" and "hash = lh_hash lh d" and "same_table lh lh'"
    using g b by (auto simp: getrn_def Let_def same_table_def split: prod.splits)
  have "pos = fst (chain_walk (lh_comp lh) (lh_hash lh d) d (lh_b lh ! nn))"
    using g b by (auto simp: getrn_def Let_def split: prod.splits)
  moreover have "key_ok (lh_comp lh) (lh_hash lh)" using wf by (simp add: lh_wf_def)
  moreover have "\<forall>n \<in> set (lh_b lh ! nn). node_hash n = lh_hash lh (node_data n)"
    using lh_wf_chain [OF wf lh_wf_bucket(2) [OF wf]] nn by (simp add: chain_ok_def)
  ultimately show "pos = length (takeWhile (\<lambda>n. lh_comp lh (node_data n) d \<noteq> 0) (lh_b lh ! nn))"
    using chain_walk_spec by metis
qed

text \<open>What \<^verbatim>\<open>getrn\<close> finds: nothing, or the only node with an equal key.\<close>

lemma getrn_cases:
  assumes wf: "lh_wf lh" and g: "getrn lh d = (nn, pos, hash, lh')"
  obtains (missing) "pos = length (lh_b lh ! nn)" "lh_map lh d = None"
      "\<forall>n \<in> set (lh_b lh ! nn). lh_comp lh (node_data n) d \<noteq> 0"
    | (found) as n cs where "pos \<noteq> length (lh_b lh ! nn)" "lh_b lh ! nn = as @ n # cs" "pos = length as"
      "lh_comp lh (node_data n) d = 0" "\<forall>x \<in> set as \<union> set cs. lh_comp lh (node_data x) d \<noteq> 0"
      "lh_map lh d = Some (node_data n)"
proof -
  note G = getrn_spec [OF wf g]
  have key: "key_ok (lh_comp lh) (lh_hash lh)" using wf by (simp add: lh_wf_def)
  have ch: "chain_ok (lh_comp lh) (lh_hash lh) (bucket_of lh) nn (lh_b lh ! nn)"
    using lh_wf_chain [OF wf lh_wf_bucket(2) [OF wf]] G(1) by simp
  show ?thesis
  proof (cases "pos = length (lh_b lh ! nn)")
    case True
    then have all: "\<forall>n \<in> set (lh_b lh ! nn). lh_comp lh (node_data n) d \<noteq> 0"
      using chain_missing [of "lh_b lh ! nn" "\<lambda>n. lh_comp lh (node_data n) d \<noteq> 0"] G(4) by simp
    then have "lh_map lh d = None" using G(1) by (auto simp: lh_map_def find_None_iff)
    with True all show ?thesis by (intro missing)
  next
    case False
    from chain_found [OF G(4) False] obtain as n cs where
      n: "lh_b lh ! nn = as @ n # cs" "pos = length as" "lh_comp lh (node_data n) d = 0" by metis
    have "lh_map lh d = Some (node_data n)"
      using chain_find [OF key ch, of n d] n G(1) by (simp add: lh_map_def)
    with False n chain_others [OF key ch [unfolded n(1)] n(3)] show ?thesis by (intro found) auto
  qed
qed

lemma length_concat_update:
  "i < length xss \<Longrightarrow> length (concat (xss[i := ys])) + length (xss ! i) = length (concat xss) + length ys"
  using mset_concat_update [of i xss ys] by (metis size_mset size_union)

text \<open>The tables that can occur: \<^verbatim>\<open>num_alloc_nodes\<close> is an \<^verbatim>\<open>unsigned int\<close>, and a bucket array of more than 4 GB
  would make the size computations wrap, so the allocator is assumed to refuse it.\<close>

definition lh_ok :: "'d lhash \<Rightarrow> bool" where
  "lh_ok lh \<longleftrightarrow> lh_wf lh \<and> num_alloc_nodes lh \<le> 2 ^ 29"

definition realloc_bounded :: "(nat \<Rightarrow> bool) \<Rightarrow> bool" where
  "realloc_bounded rok \<longleftrightarrow> (\<forall>n. rok n \<longrightarrow> n \<le> 2 ^ 29)"

lemma lh_items_mset: "mset (concat (lh_b lh')) = mset (concat (lh_b lh)) \<Longrightarrow> lh_items lh' = lh_items lh"
  unfolding lh_items_def by (metis set_mset_mset)

lemma expand_ok:
  assumes ok: "lh_ok lh" and r: "realloc_bounded rok" and e: "expand rok lh = (good, lh')"
  shows "lh_ok lh' \<and> lh_items lh' = lh_items lh \<and> lh_comp lh' = lh_comp lh \<and> lh_hash lh' = lh_hash lh \<and>
    lh_error lh' = lh_error lh + (if good then 0 else 1)"
proof (cases good)
  case True
  have wf: "lh_wf lh" and small: "num_alloc_nodes lh < 2 ^ 31" using ok by (simp_all add: lh_ok_def)
  have E: "expand rok lh = (True, lh')" using e True by simp
  have "num_alloc_nodes lh' \<le> 2 ^ 29" "lh_error lh' = lh_error lh"
    using E ok r by (auto simp: expand_def Let_def lh_ok_def realloc_bounded_def split: if_splits prod.splits)
  with expand_wf [OF wf E small] lh_items_mset expand_buckets(7,8) [OF wf E small] True show ?thesis
    by (auto simp: lh_ok_def)
next
  case False
  then have l: "lh' = lh\<lparr>lh_error := lh_error lh + 1\<rparr>" using e
    by (auto simp: expand_def Let_def split: if_splits prod.splits)
  then have "same_table lh lh'" by (simp add: same_table_def)
  with same_table_facts [OF this] ok l False show ?thesis by (simp add: lh_ok_def same_table_def)
qed

lemma option_eqI: "(\<And>x. a = Some x \<longleftrightarrow> b = Some x) \<Longrightarrow> a = b"
  by (cases a; cases b) auto

lemma map_after_put:
  assumes wf: "lh_wf lh" "lh_wf lh'" and c: "lh_comp lh' = lh_comp lh"
    and items: "lh_items lh' = insert d {x \<in> lh_items lh. lh_comp lh x d \<noteq> 0}"
  shows "lh_map lh' = (\<lambda>k. if lh_comp lh d k = 0 then Some d else lh_map lh k)"
proof
  fix k
  have key: "key_ok (lh_comp lh) (lh_hash lh)" using wf by (simp add: lh_wf_def)
  have "lh_map lh' k = Some d" if "lh_comp lh d k = 0" using that items lh_map_iff [OF wf(2), of k d] c by simp
  moreover have "lh_map lh' k = lh_map lh k" if "lh_comp lh d k \<noteq> 0"
  proof (rule option_eqI)
    have "lh_comp lh x d \<noteq> 0" if "lh_comp lh x k = 0" for x
      using that \<open>lh_comp lh d k \<noteq> 0\<close> by (meson key key_ok_sym key_ok_trans)
    with that items c show "lh_map lh' k = Some x \<longleftrightarrow> lh_map lh k = Some x" for x
      unfolding lh_map_iff [OF wf(1)] lh_map_iff [OF wf(2)] by auto
  qed
  ultimately show "lh_map lh' k = (if lh_comp lh d k = 0 then Some d else lh_map lh k)" by simp
qed

lemma map_after_remove:
  assumes wf: "lh_wf lh" "lh_wf lh'" and c: "lh_comp lh' = lh_comp lh"
    and items: "lh_items lh' = {x \<in> lh_items lh. lh_comp lh x d \<noteq> 0}"
  shows "lh_map lh' = (\<lambda>k. if lh_comp lh d k = 0 then None else lh_map lh k)"
proof
  fix k
  have key: "key_ok (lh_comp lh) (lh_hash lh)" using wf by (simp add: lh_wf_def)
  have eq: "lh_comp lh x k = 0 \<Longrightarrow> (lh_comp lh x d = 0) = (lh_comp lh d k = 0)" for x
    by (meson key key_ok_sym key_ok_trans)
  show "lh_map lh' k = (if lh_comp lh d k = 0 then None else lh_map lh k)"
    by (rule option_eqI) (use eq items c in \<open>auto simp: lh_map_iff [OF wf(1)] lh_map_iff [OF wf(2)]\<close>)
qed

lemma retrieve_spec:
  assumes ok: "lh_ok lh" and e: "OPENSSL_LH_retrieve lh d = (r, lh')"
  shows "r = lh_map lh d \<and> same_table lh lh' \<and> lh_ok lh'"
proof -
  let ?lh = "lh\<lparr>lh_error := 0\<rparr>"
  have st: "same_table lh ?lh" by (simp add: same_table_def)
  have wf: "lh_wf ?lh" using ok same_table_facts(2) [OF st] by (simp add: lh_ok_def)
  obtain nn pos hash lh1 where g: "getrn ?lh d = (nn, pos, hash, lh1)" by (metis prod_cases4)
  have s: "same_table lh lh1" using getrn_spec(3) [OF wf g] st by (simp add: same_table_def)
  then have b: "lh_b lh1 = lh_b ?lh" by (simp add: same_table_def)
  have r: "r = lh_map ?lh d"
    using wf g by (rule getrn_cases) (use e g b in \<open>auto simp: OPENSSL_LH_retrieve_def Let_def nth_append\<close>)
  have "same_table lh lh'" using e g s by (auto simp: OPENSSL_LH_retrieve_def Let_def same_table_def split: if_splits)
  with r same_table_facts(4) [OF st] same_table_facts(2) [OF this] ok show ?thesis
    by (simp add: lh_ok_def same_table_def)
qed

text \<open>The insertion proper, after the table has possibly been expanded.\<close>

lemma put_spec:
  assumes ok: "lh_ok lh" and g: "getrn lh d = (nn, pos, hash, lh1)"
    and ns: "ns = (if pos = length (lh_b lh ! nn) then lh_b lh ! nn @ [\<lparr>node_data = d, node_hash = hash\<rparr>]
                   else (lh_b lh ! nn)[pos := (lh_b lh ! nn ! pos)\<lparr>node_data := d\<rparr>])"
    and l: "lh_b lh' = (lh_b lh)[nn := ns]" "lh_comp lh' = lh_comp lh" "lh_hash lh' = lh_hash lh"
      "num_nodes lh' = num_nodes lh" "num_alloc_nodes lh' = num_alloc_nodes lh" "lh_p lh' = lh_p lh"
      "lh_pmax lh' = lh_pmax lh"
      "num_items lh' = num_items lh + (if pos = length (lh_b lh ! nn) then 1 else 0)"
  shows "lh_ok lh'" and "lh_map lh' = (\<lambda>k. if lh_comp lh d k = 0 then Some d else lh_map lh k)"
proof -
  have wf: "lh_wf lh" using ok by (simp add: lh_ok_def)
  note G = getrn_spec [OF wf g]
  have key: "key_ok (lh_comp lh) (lh_hash lh)" using wf by (simp add: lh_wf_def)
  have nn: "nn < length (lh_b lh)" using lh_wf_bucket(2) [OF wf] G(1) by simp
  note ch = lh_wf_chain [OF wf nn]
  have C: "chain_ok (lh_comp lh) (lh_hash lh) (bucket_of lh) nn ns \<and>
    node_data ` set ns = {d} \<union> {x \<in> node_data ` set (lh_b lh ! nn). lh_comp lh x d \<noteq> 0} \<and>
    length ns = length (lh_b lh ! nn) + (if pos = length (lh_b lh ! nn) then 1 else 0)"
    using wf g
  proof (cases rule: getrn_cases)
    case missing
    then show ?thesis using chain_append [OF ch _ missing(3)] G(1,2) ns by auto
  next
    case (found as n cs)
    then have n: "ns = as @ n\<lparr>node_data := d\<rparr> # cs" using ns by simp
    then show ?thesis using chain_replace [OF key ch [unfolded found(2)] found(4)] found by auto
  qed
  have len: "length (concat ((lh_b lh)[nn := ns])) = num_items lh'"
    using length_concat_update [OF nn, of ns] C l(8) wf by (simp add: lh_wf_def)
  have d: "\<forall>x \<in> {d}. lh_comp lh x d = 0" using key by (simp add: key_ok_def)
  note U = bucket_update [OF wf G(1) d, of ns] and C1 = C [THEN conjunct1] and C2 = C [THEN conjunct2, THEN conjunct1]
  have st: "same_table (lh\<lparr>lh_b := (lh_b lh)[nn := ns], num_items := length (concat ((lh_b lh)[nn := ns]))\<rparr>) lh'"
    using l len by (simp add: same_table_def)
  show o: "lh_ok lh'" using U(1) [OF C1 C2] same_table_facts(2) [OF st] ok l(5) by (simp add: lh_ok_def)
  have "lh_items lh' = insert d {x \<in> lh_items lh. lh_comp lh x d \<noteq> 0}"
    using U(2) [OF C1 C2] l(1) by (simp add: lh_items_def [of lh'])
  with map_after_put [OF wf _ l(2)] o show "lh_map lh' = (\<lambda>k. if lh_comp lh d k = 0 then Some d else lh_map lh k)"
    by (simp add: lh_ok_def)
qed

lemma insert_spec:
  assumes ok: "lh_ok lh" and r: "realloc_bounded rok" and e: "OPENSSL_LH_insert rok mok lh d = (ret, lh')"
  shows "lh_ok lh' \<and> lh_comp lh' = lh_comp lh \<and> lh_hash lh' = lh_hash lh \<and>
    (if lh_error lh' = 0
     then ret = lh_map lh d \<and> lh_map lh' = (\<lambda>k. if lh_comp lh d k = 0 then Some d else lh_map lh k)
     else ret = None \<and> lh_map lh' = lh_map lh)"
proof -
  let ?lh = "lh\<lparr>lh_error := 0\<rparr>"
  have st: "same_table lh ?lh" by (simp add: same_table_def)
  have ok0: "lh_ok ?lh" using ok same_table_facts(2) [OF st] by (simp add: lh_ok_def)
  obtain good lh1 where x: "(if up_load ?lh \<le> load_of ?lh then expand rok ?lh else (True, ?lh)) = (good, lh1)"
    by fastforce
  have e1: "lh_ok lh1 \<and> lh_items lh1 = lh_items ?lh \<and> lh_comp lh1 = lh_comp ?lh \<and> lh_hash lh1 = lh_hash ?lh \<and>
      lh_error lh1 = (if good then 0 else 1)"
    using x expand_ok [OF ok0 r] ok0 by (auto split: if_splits)
  have wf1: "lh_wf lh1" "lh_wf lh" using e1 ok by (simp_all add: lh_ok_def)
  have m1: "lh_map lh1 = lh_map lh"
  proof
    show "lh_map lh1 k = lh_map lh k" for k
      by (rule option_eqI) (use e1 in \<open>simp add: lh_map_iff [OF wf1(1)] lh_map_iff [OF wf1(2)] lh_items_def\<close>)
  qed
  show ?thesis
  proof (cases good)
    case False
    then have "ret = None" "lh' = lh1" using e x by (auto simp: OPENSSL_LH_insert_def Let_def)
    then show ?thesis using e1 m1 False by simp
  next
    case True
    obtain nn pos hash lh2 where g: "getrn lh1 d = (nn, pos, hash, lh2)" by (metis prod_cases4)
    have s2: "same_table lh1 lh2" using getrn_spec(3) [OF wf1(1) g] .
    have e2: "lh_error lh2 = 0" using g e1 True by (auto simp: getrn_def Let_def split: prod.splits)
    have ret: "pos \<noteq> length (lh_b lh1 ! nn) \<longrightarrow> lh_map lh1 d = Some (node_data (lh_b lh1 ! nn ! pos))"
        "pos = length (lh_b lh1 ! nn) \<longrightarrow> lh_map lh1 d = None"
      using wf1(1) g by (rule getrn_cases, simp_all)+
    consider (nomem) "pos = length (lh_b lh1 ! nn)" "\<not> mok" | (put) "pos \<noteq> length (lh_b lh1 ! nn) \<or> mok" by blast
    then show ?thesis
    proof cases
      case nomem
      then have l: "ret = None" "lh' = lh2\<lparr>lh_error := lh_error lh2 + 1\<rparr>"
        using e x g True s2 by (auto simp: OPENSSL_LH_insert_def Let_def same_table_def)
      then have "same_table lh1 lh'" using s2 by (simp add: same_table_def)
      with same_table_facts [OF this] l e1 m1 show ?thesis by (simp add: lh_ok_def same_table_def)
    next
      case put
      let ?ns = "if pos = length (lh_b lh1 ! nn) then lh_b lh1 ! nn @ [\<lparr>node_data = d, node_hash = hash\<rparr>]
                   else (lh_b lh1 ! nn)[pos := (lh_b lh1 ! nn ! pos)\<lparr>node_data := d\<rparr>]"
      have b2: "lh_b lh2 = lh_b lh1" using s2 by (simp add: same_table_def)
      have eq: "(ret, lh') = (lh_map lh1 d, lh2\<lparr>lh_b := (lh_b lh1)[nn := ?ns],
          num_insert := num_insert lh2 + (if pos = length (lh_b lh1 ! nn) then 1 else 0),
          num_items := num_items lh2 + (if pos = length (lh_b lh1 ! nn) then 1 else 0),
          num_replace := num_replace lh2 + (if pos = length (lh_b lh1 ! nn) then 0 else 1)\<rparr>)"
        unfolding e [symmetric] OPENSSL_LH_insert_def Let_def x prod.case g using True put b2 ret by simp
      then have l: "lh_error lh' = 0" "ret = lh_map lh1 d" using e2 by simp_all
      have f: "lh_b lh' = (lh_b lh1)[nn := ?ns]" "lh_comp lh' = lh_comp lh1" "lh_hash lh' = lh_hash lh1"
        "num_nodes lh' = num_nodes lh1" "num_alloc_nodes lh' = num_alloc_nodes lh1" "lh_p lh' = lh_p lh1"
        "lh_pmax lh' = lh_pmax lh1" "num_items lh' = num_items lh1 + (if pos = length (lh_b lh1 ! nn) then 1 else 0)"
        using eq s2 by (simp_all add: same_table_def)
      note put_spec [OF conjunct1 [OF e1] g refl f]
      then show ?thesis using l e1 f(2,3) by (simp add: m1 cong: if_cong)
    qed
  qed
qed

lemma remove_spec:
  assumes ok: "lh_ok lh" and g: "getrn lh d = (nn, pos, hash, lh1)" and pos: "pos \<noteq> length (lh_b lh ! nn)"
    and ns: "ns = take pos (lh_b lh ! nn) @ drop (Suc pos) (lh_b lh ! nn)"
    and l: "lh_b lh' = (lh_b lh)[nn := ns]" "lh_comp lh' = lh_comp lh" "lh_hash lh' = lh_hash lh"
      "num_nodes lh' = num_nodes lh" "num_alloc_nodes lh' = num_alloc_nodes lh" "lh_p lh' = lh_p lh"
      "lh_pmax lh' = lh_pmax lh" "num_items lh' = num_items lh - 1"
  shows "lh_ok lh'" and "lh_map lh' = (\<lambda>k. if lh_comp lh d k = 0 then None else lh_map lh k)"
proof -
  have wf: "lh_wf lh" using ok by (simp add: lh_ok_def)
  note G = getrn_spec [OF wf g]
  have nn: "nn < length (lh_b lh)" using lh_wf_bucket(2) [OF wf] G(1) by simp
  note ch = lh_wf_chain [OF wf nn]
  have C: "chain_ok (lh_comp lh) (lh_hash lh) (bucket_of lh) nn ns"
    "node_data ` set ns = {} \<union> {x \<in> node_data ` set (lh_b lh ! nn). lh_comp lh x d \<noteq> 0}"
    "length (lh_b lh ! nn) = length ns + 1"
    using wf g by (cases rule: getrn_cases; use pos ns ch in \<open>auto intro: chain_remove\<close>)+
  have len: "length (concat ((lh_b lh)[nn := ns])) = num_items lh'"
    using length_concat_update [OF nn, of ns] C(3) l(8) wf by (simp add: lh_wf_def)
  have d: "\<forall>x \<in> {}. lh_comp lh x d = 0" by simp
  note U = bucket_update [OF wf G(1) d C(1,2)]
  have st: "same_table (lh\<lparr>lh_b := (lh_b lh)[nn := ns], num_items := length (concat ((lh_b lh)[nn := ns]))\<rparr>) lh'"
    using l len by (simp add: same_table_def)
  show o: "lh_ok lh'" using U(1) same_table_facts(2) [OF st] ok l(5) by (simp add: lh_ok_def)
  have "lh_items lh' = {x \<in> lh_items lh. lh_comp lh x d \<noteq> 0}" using U(2) l(1) by (simp add: lh_items_def [of lh'])
  with map_after_remove [OF wf _ l(2)] o show "lh_map lh' = (\<lambda>k. if lh_comp lh d k = 0 then None else lh_map lh k)"
    by (simp add: lh_ok_def)
qed

lemma contract_ok:
  assumes ok: "lh_ok lh" and big: "MIN_NODES < num_nodes lh" and r: "rok (lh_pmax lh) \<or> lh_p lh \<noteq> 0"
  shows "lh_ok (contract rok lh) \<and> lh_map (contract rok lh) = lh_map lh \<and>
    lh_comp (contract rok lh) = lh_comp lh \<and> lh_hash (contract rok lh) = lh_hash lh"
proof -
  have wf: "lh_wf lh" and small: "lh_pmax lh < 2 ^ 29" using ok by (auto simp: lh_ok_def lh_wf_def)
  note B = contract_buckets [of lh rok, OF wf big r refl small refl]
    and W = contract_wf [of lh rok, OF wf big r refl small]
  have "lh_map (contract rok lh) k = lh_map lh k" for k
    by (rule option_eqI) (simp add: lh_map_iff [OF wf] lh_map_iff [OF W(1)] lh_items_mset [OF W(2)] B(8))
  moreover have "num_alloc_nodes (contract rok lh) \<le> 2 ^ 29" using B(13) ok wf by (simp add: lh_ok_def lh_wf_def)
  ultimately show ?thesis using W(1) B(8,9) by (auto simp: lh_ok_def)
qed

lemma contract_error: "lh_error (contract rok lh) = lh_error lh \<Longrightarrow> rok (8 * lh_pmax lh mod 2 ^ 32 div 8) \<or> lh_p lh \<noteq> 0"
  by (auto simp: contract_def Let_def split: if_splits)

lemma delete_spec:
  assumes ok: "lh_ok lh" and e: "OPENSSL_LH_delete rok lh d = (ret, lh')"
  shows "ret = lh_map lh d \<and> lh_comp lh' = lh_comp lh \<and> lh_hash lh' = lh_hash lh \<and>
    (lh_error lh' = 0 \<longrightarrow> lh_ok lh' \<and> lh_map lh' = (\<lambda>k. if lh_comp lh d k = 0 then None else lh_map lh k))"
proof -
  let ?lh = "lh\<lparr>lh_error := 0\<rparr>"
  have st: "same_table lh ?lh" by (simp add: same_table_def)
  note F = same_table_facts [OF st]
  have ok0: "lh_ok ?lh" and wf: "lh_wf ?lh" using ok F(2) by (simp_all add: lh_ok_def)
  have key: "key_ok (lh_comp lh) (lh_hash lh)" using ok by (simp add: lh_ok_def lh_wf_def)
  obtain nn pos hash lh2 where g: "getrn ?lh d = (nn, pos, hash, lh2)" by (metis prod_cases4)
  have s2: "same_table lh lh2" using getrn_spec(3) [OF wf g] st by (simp add: same_table_def)
  have e2: "lh_error lh2 = 0" using g by (auto simp: getrn_def Let_def split: prod.splits)
  show ?thesis
    using wf g
  proof (cases rule: getrn_cases)
    case missing
    then have l: "ret = None" "lh' = lh2\<lparr>num_no_delete := num_no_delete lh2 + 1\<rparr>"
      using e g s2 by (auto simp: OPENSSL_LH_delete_def Let_def same_table_def)
    then have s: "same_table lh lh'" using s2 by (simp add: same_table_def)
    have "lh_map lh k = None" if "lh_comp lh d k = 0" for k
    proof (rule ccontr)
      assume "lh_map lh k \<noteq> None"
      then obtain x where "x \<in> lh_items lh" "lh_comp lh x k = 0"
        using lh_map_iff [of lh k] ok by (auto simp: lh_ok_def)
      moreover from this have "lh_comp lh x d = 0" using that by (meson key key_ok_sym key_ok_trans)
      ultimately have "lh_map lh d = Some x" using lh_map_iff [of lh d] ok by (simp add: lh_ok_def)
      with missing(2) F(4) show False by simp
    qed
    then have "lh_map lh = (\<lambda>k. if lh_comp lh d k = 0 then None else lh_map lh k)" by auto
    with l s same_table_facts(2,4) [OF s] missing(2) F(4) ok show ?thesis by (simp add: same_table_def lh_ok_def)
  next
    case (found as n cs)
    let ?ns = "take pos (lh_b ?lh ! nn) @ drop (Suc pos) (lh_b ?lh ! nn)"
    define lh3 where "lh3 = lh2\<lparr>lh_b := (lh_b ?lh)[nn := ?ns], num_delete := num_delete lh2 + 1, num_items := num_items lh2 - 1\<rparr>"
    have b2: "lh_b lh2 = lh_b ?lh" using s2 by (simp add: same_table_def)
    have eq: "ret = lh_map lh d"
      "lh' = (if num_nodes lh3 > MIN_NODES \<and> down_load lh3 \<ge> load_of lh3 then contract rok lh3 else lh3)"
      using e found g b2 F(4) by (auto simp: OPENSSL_LH_delete_def Let_def lh3_def)
    have l: "lh_b lh3 = (lh_b ?lh)[nn := ?ns]" "lh_comp lh3 = lh_comp ?lh" "lh_hash lh3 = lh_hash ?lh"
      "num_nodes lh3 = num_nodes ?lh" "num_alloc_nodes lh3 = num_alloc_nodes ?lh" "lh_p lh3 = lh_p ?lh"
      "lh_pmax lh3 = lh_pmax ?lh" "num_items lh3 = num_items ?lh - 1" "lh_error lh3 = 0"
      using s2 e2 by (simp_all add: lh3_def same_table_def)
    note R = remove_spec [OF ok0 g found(1) refl l(1-8)]
    show ?thesis
    proof (cases "num_nodes lh3 > MIN_NODES \<and> down_load lh3 \<ge> load_of lh3")
      case True
      have cm: "lh_comp lh' = lh_comp lh3" "lh_hash lh' = lh_hash lh3"
        using eq(2) True by (simp_all add: contract_def Let_def)
      have "8 * lh_pmax lh3 mod 2 ^ 32 div 8 = lh_pmax lh3" using R(1) by (simp add: lh_ok_def lh_wf_def)
      then have "lh_ok lh' \<and> lh_map lh' = lh_map lh3" if "lh_error lh' = 0"
        using contract_ok [OF R(1), of rok] contract_error [of rok lh3] eq(2) True that l(9) by simp
      with R eq(1) cm l F(4) show ?thesis by (simp cong: if_cong)
    next
      case False
      with eq have "lh' = lh3" by simp
      with R eq(1) l F(4) show ?thesis by (simp cong: if_cong)
    qed
  qed
qed

subsection \<open>The contract of a dictionary\<close>

text \<open>
  What the clients of a table rely on.  The environment \<open>e\<close> of a call decides about memory; \<open>err\<close> is the
  error indicator after it.  Without an error an insertion returns the item it replaced and stores
  the new one, a deletion returns the item it removed; an insertion that fails changes nothing.
\<close>

locale dictionary =
  fixes inv :: "'t \<Rightarrow> bool" and look :: "'t \<Rightarrow> 'd \<Rightarrow> 'd option" and eqv :: "'d \<Rightarrow> 'd \<Rightarrow> bool"
    and err :: "'t \<Rightarrow> bool" and env_ok :: "'e \<Rightarrow> bool"
    and ins :: "'e \<Rightarrow> 't \<Rightarrow> 'd \<Rightarrow> 'd option \<times> 't" and del :: "'e \<Rightarrow> 't \<Rightarrow> 'd \<Rightarrow> 'd option \<times> 't"
    and get :: "'t \<Rightarrow> 'd \<Rightarrow> 'd option \<times> 't"
  assumes ins: "inv t \<Longrightarrow> env_ok e \<Longrightarrow> ins e t d = (r, t') \<Longrightarrow> inv t' \<and>
      (if err t' then r = None \<and> look t' = look t
       else r = look t d \<and> look t' = (\<lambda>k. if eqv d k then Some d else look t k))"
    and del: "inv t \<Longrightarrow> env_ok e \<Longrightarrow> del e t d = (r, t') \<Longrightarrow> r = look t d \<and>
      (\<not> err t' \<longrightarrow> inv t' \<and> look t' = (\<lambda>k. if eqv d k then None else look t k))"
    and get: "inv t \<Longrightarrow> get t d = (r, t') \<Longrightarrow> r = look t d \<and> inv t' \<and> look t' = look t"

datatype ('e, 'd) dict_op = Ins 'e 'd | Del 'e 'd | Get 'd

text \<open>A sequence of operations on a table, stopping at the first error, and on a map.\<close>

fun table_run ::
  "('t \<Rightarrow> bool) \<Rightarrow> ('e \<Rightarrow> 't \<Rightarrow> 'd \<Rightarrow> 'd option \<times> 't) \<Rightarrow> ('e \<Rightarrow> 't \<Rightarrow> 'd \<Rightarrow> 'd option \<times> 't) \<Rightarrow>
   ('t \<Rightarrow> 'd \<Rightarrow> 'd option \<times> 't) \<Rightarrow> 't \<Rightarrow> ('e, 'd) dict_op list \<Rightarrow> ('d option list \<times> 't) option" where
  "table_run err ins del get t [] = Some ([], t)"
| "table_run err ins del get t (x # xs) =
     (let (r, t) = (case x of Ins e d \<Rightarrow> ins e t d | Del e d \<Rightarrow> del e t d | Get d \<Rightarrow> get t d)
      in if err t then None
         else map_option (\<lambda>(rs, t). (r # rs, t)) (table_run err ins del get t xs))"

fun map_run :: "('d \<Rightarrow> 'd \<Rightarrow> bool) \<Rightarrow> ('d \<Rightarrow> 'd option) \<Rightarrow> ('e, 'd) dict_op list \<Rightarrow> 'd option list \<times> ('d \<Rightarrow> 'd option)" where
  "map_run eqv m [] = ([], m)"
| "map_run eqv m (x # xs) =
     (let (r, m) = (case x of
          Ins _ d \<Rightarrow> (m d, \<lambda>k. if eqv d k then Some d else m k)
        | Del _ d \<Rightarrow> (m d, \<lambda>k. if eqv d k then None else m k)
        | Get d \<Rightarrow> (m d, m));
          (rs, m) = map_run eqv m xs
      in (r # rs, m))"

fun op_env :: "('e \<Rightarrow> bool) \<Rightarrow> ('e, 'd) dict_op \<Rightarrow> bool" where
  "op_env P (Ins e d) = P e"
| "op_env P (Del e d) = P e"
| "op_env P (Get d) = True"

context dictionary
begin

lemma run_refines:
  assumes "inv t" and "list_all (op_env env_ok) xs" and "table_run err ins del get t xs = Some (rs, t')"
  shows "inv t' \<and> map_run eqv (look t) xs = (rs, look t')"
  using assms
proof (induction xs arbitrary: t rs)
  case Nil
  then show ?case by simp
next
  case (Cons x xs)
  obtain r t1 where s: "(case x of Ins e d \<Rightarrow> ins e t d | Del e d \<Rightarrow> del e t d | Get d \<Rightarrow> get t d) = (r, t1)"
    by fastforce
  with Cons.prems obtain rs' where e: "\<not> err t1" "table_run err ins del get t1 xs = Some (rs', t')" "rs = r # rs'"
    by (auto split: if_splits)
  have "inv t1 \<and> (case x of Ins _ d \<Rightarrow> (look t d, \<lambda>k. if eqv d k then Some d else look t k)
      | Del _ d \<Rightarrow> (look t d, \<lambda>k. if eqv d k then None else look t k) | Get d \<Rightarrow> (look t d, look t)) = (r, look t1)"
    using s e(1) Cons.prems(1,2) by (cases x) (auto dest: ins del get)
  with Cons.IH [of t1 rs'] Cons.prems(2) e show ?case by simp
qed

lemma get_after_ins:
  assumes "inv t" and "env_ok e" and "ins e t d = (r, t1)" and "\<not> err t1" and "eqv d k" and "get t1 k = (x, t2)"
  shows "x = Some d"
  using ins [OF assms(1-3)] get [OF _ assms(6)] assms(4,5) by simp

end

type_synonym lh_env = "(nat \<Rightarrow> bool) \<times> bool"

definition lh_env_ok :: "lh_env \<Rightarrow> bool" where
  "lh_env_ok e \<longleftrightarrow> realloc_bounded (fst e)"

definition lh_ins :: "lh_env \<Rightarrow> 'd lhash \<Rightarrow> 'd \<Rightarrow> 'd option \<times> 'd lhash" where
  "lh_ins e lh d = OPENSSL_LH_insert (fst e) (snd e) lh d"

definition lh_del :: "lh_env \<Rightarrow> 'd lhash \<Rightarrow> 'd \<Rightarrow> 'd option \<times> 'd lhash" where
  "lh_del e lh d = OPENSSL_LH_delete (fst e) lh d"

interpretation lhd: dictionary "\<lambda>lh. lh_ok lh \<and> lh_comp lh = c" lh_map "\<lambda>x y. c x y = 0"
  "\<lambda>lh. OPENSSL_LH_error lh \<noteq> 0" lh_env_ok lh_ins lh_del OPENSSL_LH_retrieve
  for c :: "'d \<Rightarrow> 'd \<Rightarrow> int"
proof (unfold_locales, goal_cases)
  case (1 t e d r t')
  then show ?case using insert_spec [of t "fst e" "snd e" d r t']
    by (auto simp: lh_ins_def lh_env_ok_def OPENSSL_LH_error_def)
next
  case (2 t e d r t')
  then show ?case using delete_spec [of t "fst e" d r t'] by (auto simp: lh_del_def OPENSSL_LH_error_def)
next
  case (3 t d r t')
  then show ?case using retrieve_spec [of t d r t'] same_table_facts [of t t'] by (simp add: same_table_def)
qed

lemma new_ok:
  assumes "key_ok c h" and "OPENSSL_LH_new mok h c = Some lh"
  shows "lh_ok lh \<and> lh_comp lh = c \<and> lh_map lh = Map.empty"
proof -
  have f: "lh_pmax lh = 2 ^ 0 * 8" "lh_b lh = replicate 16 []" "lh_comp lh = c" "lh_hash lh = h" "lh_p lh = 0"
    "num_nodes lh = 8" "num_alloc_nodes lh = 16" "num_items lh = 0"
    using assms(2) by (auto simp: OPENSSL_LH_new_def split: if_splits)
  have ok: "lh_ok lh" using assms(1) f by (auto simp: lh_ok_def lh_wf_def intro: exI [of _ 0])
  then have "bucket_of lh (lh_hash lh k) < 16" for k
    using lh_wf_bucket(2) [of lh "lh_hash lh k"] f by (simp add: lh_ok_def)
  with ok f show ?thesis by (simp add: lh_map_def fun_eq_iff)
qed

text \<open>
  C37.  A hash table is a dictionary: any sequence of insertions, deletions and retrievals that
  reports no error, however the table grew and shrank meanwhile, gave exactly the answers of
  a map from keys to items, and leaves a table that represents the final map.
\<close>

theorem lhash_refines_map:
  assumes "key_ok c h" and "OPENSSL_LH_new mok h c = Some lh" and "list_all (op_env lh_env_ok) ops"
    and "table_run (\<lambda>lh. OPENSSL_LH_error lh \<noteq> 0) lh_ins lh_del OPENSSL_LH_retrieve lh ops = Some (rs, lh')"
  shows "map_run (\<lambda>x y. c x y = 0) Map.empty ops = (rs, lh_map lh') \<and> lh_ok lh'"
  using lhd.run_refines [of lh c ops rs lh'] new_ok [OF assms(1,2)] assms(3,4) by simp

definition int_key :: "int \<Rightarrow> nat" where "int_key d = nat d"

lemma sample_key_ok: "key_ok (\<lambda>a b. if int_key a = int_key b then 0 else 1) int_key"
  by (auto simp: key_ok_def)

theorem lhash_refines_map_witness:
  "\<exists>lh rs lh'. OPENSSL_LH_new True int_key (\<lambda>a b. if int_key a = int_key b then 0 else 1) = Some lh \<and>
    table_run (\<lambda>lh. OPENSSL_LH_error lh \<noteq> 0) lh_ins lh_del OPENSSL_LH_retrieve lh
      [Ins (\<lambda>n. n \<le> 100, True) 5, Ins (\<lambda>n. n \<le> 100, True) 13, Get 5, Del (\<lambda>n. n \<le> 100, True) 13, Get 13] = Some (rs, lh') \<and>
    rs = [None, None, Some 5, Some 13, None]"
proof -
  let ?c = "\<lambda>a b. if int_key a = int_key b then 0 else 1"
  let ?ops = "[Ins (\<lambda>n. n \<le> 100, True) 5, Ins (\<lambda>n. n \<le> 100, True) 13, Get 5, Del (\<lambda>n. n \<le> 100, True) 13, Get 13]"
  obtain lh where lh: "OPENSSL_LH_new True int_key ?c = Some lh" by (simp add: OPENSSL_LH_new_def)
  have env: "list_all (op_env lh_env_ok) ?ops" by (simp add: lh_env_ok_def realloc_bounded_def)
  obtain rs lh' where run: "table_run (\<lambda>lh. OPENSSL_LH_error lh \<noteq> 0) lh_ins lh_del OPENSSL_LH_retrieve lh ?ops = Some (rs, lh')"
    using lh by (auto simp: OPENSSL_LH_new_def lh_ins_def lh_del_def OPENSSL_LH_insert_def OPENSSL_LH_delete_def
        OPENSSL_LH_retrieve_def getrn_def bucket_of_def load_of_def OPENSSL_LH_error_def int_key_def Let_def
        nth_list_update)
  from lhash_refines_map [OF sample_key_ok lh env run] have "rs = [None, None, Some 5, Some 13, None]"
    by (auto simp: int_key_def)
  with lh run show ?thesis by blast
qed

subsection \<open>Iteration\<close>

lemma distinct_concat_nth:
  assumes "\<And>i. i < length xss \<Longrightarrow> distinct (xss ! i)"
    and "\<And>i j. i < j \<Longrightarrow> j < length xss \<Longrightarrow> set (xss ! i) \<inter> set (xss ! j) = {}"
  shows "distinct (concat xss)"
  using assms
proof (induction xss)
  case Nil
  then show ?case by simp
next
  case (Cons xs xss)
  have "set xs \<inter> set (concat xss) = {}"
    unfolding set_concat_nth using Cons.prems(2) [of 0 "Suc i" for i] by fastforce
  moreover have "distinct (concat xss)"
  proof (rule Cons.IH)
    show "distinct (xss ! i)" if "i < length xss" for i using Cons.prems(1) [of "Suc i"] that by simp
    show "set (xss ! i) \<inter> set (xss ! j) = {}" if "i < j" "j < length xss" for i j
      using Cons.prems(2) [of "Suc i" "Suc j"] that by simp
  qed
  ultimately show ?case using Cons.prems(1) [of 0] by simp
qed

lemma sorted_wrt_neq_distinct: "sorted_wrt (\<noteq>) xs \<Longrightarrow> distinct xs"
  by (induction xs) auto

lemma items_distinct:
  assumes wf: "lh_wf lh"
  shows "distinct (concat (map (map node_data) (lh_b lh)))"
proof (rule distinct_concat_nth)
  have key: "key_ok (lh_comp lh) (lh_hash lh)" using wf by (simp add: lh_wf_def)
  fix i j
  assume ij: "i < j" "j < length (map (map node_data) (lh_b lh))"
  then have "chain_ok (lh_comp lh) (lh_hash lh) (bucket_of lh) i (lh_b lh ! i)"
    "chain_ok (lh_comp lh) (lh_hash lh) (bucket_of lh) j (lh_b lh ! j)" using lh_wf_chain [OF wf] by simp_all
  then have "bucket_of lh (lh_hash lh x) = i \<and> bucket_of lh (lh_hash lh y) = j"
    if "x \<in> node_data ` set (lh_b lh ! i)" "y \<in> node_data ` set (lh_b lh ! j)" for x y
    using that by (auto simp: chain_ok_def)
  with ij show "set (map (map node_data) (lh_b lh) ! i) \<inter> set (map (map node_data) (lh_b lh) ! j) = {}"
    by (auto 4 3)
next
  fix i
  assume i: "i < length (map (map node_data) (lh_b lh))"
  have "lh_comp lh x x = 0" for x using wf by (simp add: lh_wf_def key_ok_def)
  then have "sorted_wrt (\<noteq>) (map node_data (lh_b lh ! i))"
    using lh_wf_chain [OF wf, of i] i by (auto simp: chain_ok_def sorted_wrt_map elim: sorted_wrt_mono_rel [rotated])
  then show "distinct (map (map node_data) (lh_b lh) ! i)" using i by (simp add: sorted_wrt_neq_distinct)
qed

lemma doall_list:
  "doall_util_fn lh (\<lambda>d s. s @ [d]) s = s @ concat (map (\<lambda>i. map node_data (lh_b lh ! i)) (rev [0..<num_nodes lh]))"
proof -
  have "fold (\<lambda>n s. s @ [node_data n]) ns s = s @ map node_data ns" for ns :: "'a lh_node list" and s
    by (induction ns arbitrary: s) simp_all
  then have "fold (\<lambda>i. fold (\<lambda>n s. s @ [node_data n]) (lh_b lh ! i)) is s =
      s @ concat (map (\<lambda>i. map node_data (lh_b lh ! i)) is)" for "is" s
    by (induction "is" arbitrary: s) simp_all
  then show ?thesis by (simp add: doall_util_fn_def)
qed

lemma doall_mset:
  assumes wf: "lh_wf lh"
  shows "mset (doall_util_fn lh (\<lambda>d s. s @ [d]) []) = mset (concat (map (map node_data) (lh_b lh)))"
proof -
  let ?g = "\<lambda>i. map node_data (lh_b lh ! i)"
  have len: "num_nodes lh \<le> length (lh_b lh)" using wf by (auto simp: lh_wf_def)
  have "[0..<length (lh_b lh)] = [0..<num_nodes lh] @ [num_nodes lh..<length (lh_b lh)]"
    using len by (metis le_add_diff_inverse upt_add_eq_append zero_le)
  moreover have "concat (map ?g [num_nodes lh..<length (lh_b lh)]) = []"
    using lh_wf_unused [OF wf] by simp
  moreover have "map (map node_data) (lh_b lh) = map ?g [0..<length (lh_b lh)]"
    by (rule nth_equalityI) simp_all
  ultimately have "concat (map (map node_data) (lh_b lh)) = concat (map ?g [0..<num_nodes lh])" by simp
  moreover have "mset (concat (rev xss)) = mset (concat xss)" for xss :: "'a list list"
    by (induction xss) simp_all
  ultimately show ?thesis unfolding doall_list by (simp flip: rev_map)
qed

text \<open>
  The number of items of a table is the number of items it stores, and an iteration over the table
  visits each of them exactly once.
\<close>

theorem doall_visits_items:
  assumes "lh_ok lh" and "xs = OPENSSL_LH_doall_arg lh (\<lambda>d s. s @ [d]) []"
  shows "distinct xs \<and> set xs = lh_items lh \<and> length xs = OPENSSL_LH_num_items (Some lh)"
proof -
  have wf: "lh_wf lh" using assms(1) by (simp add: lh_ok_def)
  have m: "mset xs = mset (concat (map (map node_data) (lh_b lh)))"
    using doall_mset [OF wf] assms(2) by (simp add: OPENSSL_LH_doall_arg_def)
  have "distinct xs" using mset_eq_imp_distinct_iff [OF m] items_distinct [OF wf] by simp
  moreover have "set xs = lh_items lh" using mset_eq_setD [OF m] by (auto simp: lh_items_def)
  moreover have "length xs = num_items lh"
    using mset_eq_length [OF m] wf by (simp add: lh_wf_def length_concat comp_def)
  ultimately show ?thesis by (simp add: OPENSSL_LH_num_items_def)
qed

text \<open>A table with 32 buckets, as large deletions meet it.\<close>

definition sample_lh :: "int lhash" where
  "sample_lh = (the (OPENSSL_LH_new True int_key (\<lambda>a b. if int_key a = int_key b then 0 else 1)))
     \<lparr>lh_b := (replicate 64 [])[31 := [\<lparr>node_data = 31, node_hash = 31\<rparr>]], lh_pmax := 32, num_nodes := 32,
      num_alloc_nodes := 64, num_items := 1\<rparr>"

lemma sample_lh_ok: "lh_ok sample_lh"
proof -
  have "(32 :: nat) = 2 ^ 2 * 8" by simp
  then have "\<exists>k. (32 :: nat) = 2 ^ k * 8" by blast
  moreover have "length (concat ((replicate 64 [])[31 := [x]])) = 1" for x :: "int lh_node"
    using length_concat_update [of 31 "replicate 64 []" "[x]"] by simp
  ultimately show ?thesis using sample_key_ok
    by (auto simp: lh_ok_def lh_wf_def sample_lh_def OPENSSL_LH_new_def chain_ok_def nth_list_update
        bucket_of_def int_key_def)
qed

theorem doall_visits_items_witness:
  "length (OPENSSL_LH_doall_arg sample_lh (\<lambda>d s. s @ [d]) []) = 1"
  using doall_visits_items [OF sample_lh_ok refl] by (simp add: OPENSSL_LH_num_items_def sample_lh_def)

text \<open>
  When the bucket array cannot be shrunk, a deletion loses items it was not asked to delete: the
  chain of the last bucket has been unlinked and is not put back, while the number of items
  still counts it; only the error indicator tells.
\<close>

theorem contract_loses_chain:
  assumes "lh_ok lh" and "lh_p lh = 0" and "\<not> rok (lh_pmax lh)"
  shows "lh_map (contract rok lh) k = (if bucket_of lh (lh_hash lh k) = lh_pmax lh - 1 then None else lh_map lh k) \<and>
    num_items (contract rok lh) = num_items lh \<and> lh_error (contract rok lh) = lh_error lh + 1"
proof -
  have wf: "lh_wf lh" and t: "8 * lh_pmax lh mod 2 ^ 32 div 8 = lh_pmax lh"
    using assms(1) by (auto simp: lh_ok_def lh_wf_def)
  have c: "contract rok lh = lh\<lparr>lh_b := (lh_b lh)[lh_pmax lh - 1 := []], lh_error := lh_error lh + 1\<rparr>"
    using assms(2,3) t by (simp add: contract_def Let_def)
  have b: "bucket_of (lh\<lparr>lh_b := x, lh_error := y\<rparr>) = bucket_of lh" for x y
    by (simp add: bucket_of_def fun_eq_iff Let_def)
  have "bucket_of lh (lh_hash lh k) < length (lh_b lh)" using lh_wf_bucket(2) [OF wf] .
  then show ?thesis by (simp add: c lh_map_def b nth_list_update)
qed

theorem contract_loses_chain_witness:
  "lh_map sample_lh 31 = Some 31 \<and> lh_map (contract (\<lambda>_. False) sample_lh) 31 = None"
  using contract_loses_chain [OF sample_lh_ok, of "\<lambda>_. False" 31]
  by (simp add: sample_lh_def OPENSSL_LH_new_def bucket_of_def lh_map_def int_key_def)

lemma strcasehash_loop_lower: "strcasehash_loop n ret cs = strhash_loop n ret (map ossl_tolower cs)"
  by (induction cs arbitrary: n ret) simp_all

text \<open>
  The case-insensitive string hash is the string hash of the string in lower case, so it does not
  distinguish strings that differ in the case of letters.
\<close>

theorem strcasehash_lower:
  "openssl_lh_strcasehash (Some cs) = OPENSSL_LH_strhash (Some (map ossl_tolower cs))"
  by (simp add: openssl_lh_strcasehash_def OPENSSL_LH_strhash_def strcasehash_loop_lower)

end
