(* ===== verification/Stack.thy ===== *)
theory Stack
  imports Prelude "HOL-Library.Multiset"
begin

unbundle bit_operations_syntax

section \<open>Stacks\<close>

text \<open>
  Model of \<^verbatim>\<open>crypto/stack/stack.c\<close>, the generic array of pointers behind every \<^verbatim>\<open>STACK_OF\<close> type, and of
  the binary search \<^verbatim>\<open>OBJ_bsearch_ex_\<close> it uses.  An element is a pointer, \<open>None\<close> for a null pointer; a
  stack argument that may be null is an option.  The allocator \<open>fresh\<close> yields a block of the number of
  elements asked for, with arbitrary contents, or fails.  \<^verbatim>\<open>qsort\<close> of the C library is the
  parameter \<open>qs\<close>; \<open>qsort_ok\<close> is its contract.  The loop of \<^verbatim>\<open>compute_growth\<close> need not end for every argument, so it
  is a partial function and the operations that may call it have an optional result.  The
  abstract view of a stack is the list of its elements.
\<close>

subsection \<open>Data\<close>

type_synonym 'd sk_comp = "'d option \<Rightarrow> 'd option \<Rightarrow> int"
type_synonym 'd sk_alloc = "nat \<Rightarrow> 'd option list option"

record 'd stack =
  st_num :: nat
  st_data :: "'d option list option"
  st_sorted :: bool
  st_num_alloc :: nat
  st_comp :: "'d sk_comp option"

abbreviation (input) min_nodes :: nat where "min_nodes \<equiv> 4"
abbreviation (input) max_nodes :: nat where "max_nodes \<equiv> 2147483647"

subsection \<open>Binary search\<close>

abbreviation (input) OBJ_BSEARCH_VALUE_ON_NOMATCH :: u32 where "OBJ_BSEARCH_VALUE_ON_NOMATCH \<equiv> 1"
abbreviation (input) OBJ_BSEARCH_FIRST_VALUE_ON_MATCH :: u32 where "OBJ_BSEARCH_FIRST_VALUE_ON_MATCH \<equiv> 2"

text \<open>The halving loop: the last position that was compared and the result of that comparison.\<close>

function bsearch_loop :: "(nat \<Rightarrow> int) \<Rightarrow> nat \<Rightarrow> nat \<Rightarrow> nat \<Rightarrow> int \<Rightarrow> nat \<times> int" where
  "bsearch_loop cmp l h i c =
     (if l < h then
        let i = (l + h) div 2; c = cmp i
        in if c < 0 then bsearch_loop cmp l i i c
           else if c > 0 then bsearch_loop cmp (i + 1) h i c
           else (i, c)
      else (i, c))"
  by pat_completeness auto
termination by (relation "measure (\<lambda>(cmp, l, h, i, c). h - l)") auto

fun first_match :: "(nat \<Rightarrow> int) \<Rightarrow> nat \<Rightarrow> nat" where
  "first_match cmp 0 = 0"
| "first_match cmp (Suc i) = (if cmp i = 0 then first_match cmp i else Suc i)"

definition OBJ_bsearch_ex :: "('k \<Rightarrow> 'e \<Rightarrow> int) \<Rightarrow> 'k \<Rightarrow> 'e list \<Rightarrow> nat \<Rightarrow> u32 \<Rightarrow> nat option" where
  "OBJ_bsearch_ex cmp key base num flags =
     (if num = 0 then None
      else
        let (i, c) = bsearch_loop (\<lambda>i. cmp key (base ! i)) 0 num 0 0
        in if c \<noteq> 0 \<and> \<not> flag flags OBJ_BSEARCH_VALUE_ON_NOMATCH then None
           else if c = 0 \<and> flag flags OBJ_BSEARCH_FIRST_VALUE_ON_MATCH
           then Some (first_match (\<lambda>i. cmp key (base ! i)) i)
           else Some i)"

subsection \<open>Storage\<close>

partial_function (option) compute_growth :: "nat \<Rightarrow> nat \<Rightarrow> nat option" where
  "compute_growth target current =
     (if current < target then
        if current \<ge> max_nodes then Some 0
        else compute_growth target
          (if current < max_nodes div 3 * 2 + (if max_nodes mod 3 \<noteq> 0 then 1 else 0)
           then current + current div 2 else max_nodes)
      else Some current)"

definition sk_reserve :: "'d sk_alloc \<Rightarrow> 'd stack \<Rightarrow> nat \<Rightarrow> bool \<Rightarrow> (bool \<times> 'd stack) option" where
  "sk_reserve fresh st n exact =
     (if n > max_nodes - st_num st then Some (False, st)
      else
        let num_alloc = st_num st + n;
            num_alloc = (if num_alloc < min_nodes then min_nodes else num_alloc)
        in case st_data st of
             None \<Rightarrow>
               (case fresh num_alloc of
                  None \<Rightarrow> Some (False, st)
                | Some _ \<Rightarrow> Some (True, st\<lparr>st_data := Some (replicate num_alloc None), st_num_alloc := num_alloc\<rparr>))
           | Some d \<Rightarrow>
               if \<not> exact \<and> num_alloc \<le> st_num_alloc st \<or> exact \<and> num_alloc = st_num_alloc st then Some (True, st)
               else
                 (case (if exact then Some num_alloc else compute_growth num_alloc (st_num_alloc st)) of
                    None \<Rightarrow> None
                  | Some num_alloc \<Rightarrow>
                      if \<not> exact \<and> num_alloc = 0 then Some (False, st)
                      else case fresh num_alloc of
                        None \<Rightarrow> Some (False, st)
                      | Some b \<Rightarrow>
                          Some (True, st\<lparr>st_data := Some (take num_alloc d @ drop (length d) b),
                                         st_num_alloc := num_alloc\<rparr>)))"

subsection \<open>Operations\<close>

definition OPENSSL_sk_new_reserve :: "bool \<Rightarrow> 'd sk_alloc \<Rightarrow> 'd sk_comp option \<Rightarrow> int \<Rightarrow> 'd stack option option" where
  "OPENSSL_sk_new_reserve mok fresh c n =
     (if \<not> mok then Some None
      else
        let st = \<lparr>st_num = 0, st_data = None, st_sorted = False, st_num_alloc = 0, st_comp = c\<rparr>
        in if n \<le> 0 then Some (Some st)
           else (case sk_reserve fresh st (nat n) True of
                   None \<Rightarrow> None | Some (ok, st) \<Rightarrow> Some (if ok then Some st else None)))"

definition OPENSSL_sk_new :: "bool \<Rightarrow> 'd sk_alloc \<Rightarrow> 'd sk_comp option \<Rightarrow> 'd stack option option" where
  "OPENSSL_sk_new mok fresh c = OPENSSL_sk_new_reserve mok fresh c 0"

definition OPENSSL_sk_new_null :: "bool \<Rightarrow> 'd sk_alloc \<Rightarrow> 'd stack option option" where
  "OPENSSL_sk_new_null mok fresh = OPENSSL_sk_new_reserve mok fresh None 0"

definition OPENSSL_sk_reserve :: "'d sk_alloc \<Rightarrow> 'd stack option \<Rightarrow> int \<Rightarrow> (bool \<times> 'd stack option) option" where
  "OPENSSL_sk_reserve fresh st n =
     (case st of None \<Rightarrow> Some (False, None)
      | Some s \<Rightarrow>
          if n < 0 then Some (True, st)
          else map_option (\<lambda>(ok, s). (ok, Some s)) (sk_reserve fresh s (nat n) True))"

definition OPENSSL_sk_set_cmp_func ::
  "('d sk_comp option \<Rightarrow> 'd sk_comp option \<Rightarrow> bool) \<Rightarrow> 'd stack \<Rightarrow> 'd sk_comp option \<Rightarrow> 'd sk_comp option \<times> 'd stack" where
  "OPENSSL_sk_set_cmp_func same sk c =
     (st_comp sk, (if same (st_comp sk) c then sk else sk\<lparr>st_sorted := False\<rparr>)\<lparr>st_comp := c\<rparr>)"

definition OPENSSL_sk_dup :: "bool \<Rightarrow> 'd sk_alloc \<Rightarrow> 'd stack \<Rightarrow> 'd stack option" where
  "OPENSSL_sk_dup mok fresh sk =
     (if \<not> mok then None
      else if st_num sk = 0 then Some (sk\<lparr>st_data := None, st_num_alloc := 0\<rparr>)
      else case (st_data sk, fresh (st_num_alloc sk)) of
        (Some d, Some b) \<Rightarrow> Some (sk\<lparr>st_data := Some (overwrite 0 (take (st_num sk) d) b)\<rparr>)
      | _ \<Rightarrow> None)"

text \<open>\<^verbatim>\<open>OPENSSL_sk_deep_copy\<close> copies element by element; null elements stay null, and a failing copy makes the whole
  operation fail (the copies made so far are freed).\<close>

fun copy_elements :: "('d \<Rightarrow> 'd option) \<Rightarrow> 'd option list \<Rightarrow> 'd option list option" where
  "copy_elements copy_func [] = Some []"
| "copy_elements copy_func (x # xs) =
     (case x of
        None \<Rightarrow> map_option (\<lambda>ys. None # ys) (copy_elements copy_func xs)
      | Some d \<Rightarrow> (case copy_func d of None \<Rightarrow> None
                   | Some e \<Rightarrow> map_option (\<lambda>ys. Some e # ys) (copy_elements copy_func xs)))"

definition OPENSSL_sk_deep_copy ::
  "bool \<Rightarrow> 'd sk_alloc \<Rightarrow> 'd stack \<Rightarrow> ('d \<Rightarrow> 'd option) \<Rightarrow> 'd stack option" where
  "OPENSSL_sk_deep_copy mok fresh sk copy_func =
     (if \<not> mok then None
      else if st_num sk = 0 then Some (sk\<lparr>st_data := None, st_num_alloc := 0\<rparr>)
      else
        let num_alloc = (if st_num sk > min_nodes then st_num sk else min_nodes)
        in case (st_data sk, fresh num_alloc) of
             (Some d, Some _) \<Rightarrow>
               (case copy_elements copy_func (take (st_num sk) d) of
                  None \<Rightarrow> None
                | Some ys \<Rightarrow> Some (sk\<lparr>st_num_alloc := num_alloc,
                                   st_data := Some (overwrite 0 ys (replicate num_alloc None))\<rparr>))
           | _ \<Rightarrow> None)"

definition insert_at :: "'d stack \<Rightarrow> 'd option \<Rightarrow> int \<Rightarrow> 'd option list \<Rightarrow> 'd option list" where
  "insert_at st data loc d =
     (if loc \<ge> int (st_num st) \<or> loc < 0 then d[st_num st := data]
      else (overwrite (nat loc + 1) (chunk (nat loc) (st_num st - nat loc) d) d)[nat loc := data])"

definition OPENSSL_sk_insert ::
  "'d sk_alloc \<Rightarrow> 'd stack option \<Rightarrow> 'd option \<Rightarrow> int \<Rightarrow> (nat \<times> 'd stack option) option" where
  "OPENSSL_sk_insert fresh st data loc =
     (case st of None \<Rightarrow> Some (0, None)
      | Some s \<Rightarrow>
          if st_num s = max_nodes then Some (0, st)
          else case sk_reserve fresh s 1 False of
            None \<Rightarrow> None
          | Some (ok, s) \<Rightarrow>
              if \<not> ok then Some (0, Some s)
              else Some (st_num s + 1,
                Some (s\<lparr>st_data := map_option (insert_at s data loc) (st_data s),
                        st_num := st_num s + 1, st_sorted := False\<rparr>)))"

definition internal_delete :: "'d stack \<Rightarrow> nat \<Rightarrow> 'd option \<times> 'd stack" where
  "internal_delete st loc =
     (let d = the (st_data st); ret = d ! loc;
          d = (if loc \<noteq> st_num st - 1 then overwrite loc (chunk (loc + 1) (st_num st - loc - 1) d) d else d)
      in (ret, st\<lparr>st_data := Some d, st_num := st_num st - 1\<rparr>))"

definition OPENSSL_sk_delete :: "'d stack option \<Rightarrow> int \<Rightarrow> 'd option \<times> 'd stack option" where
  "OPENSSL_sk_delete st loc =
     (case st of None \<Rightarrow> (None, None)
      | Some s \<Rightarrow>
          if loc < 0 \<or> loc \<ge> int (st_num s) then (None, st)
          else let (r, s) = internal_delete s (nat loc) in (r, Some s))"

text \<open>The search for a pointer: the first position from \<open>i\<close> on that holds it.\<close>

fun ptr_search :: "'d option list \<Rightarrow> 'd option \<Rightarrow> nat \<Rightarrow> nat option" where
  "ptr_search [] p i = None"
| "ptr_search (x # xs) p i = (if x = p then Some i else ptr_search xs p (Suc i))"

definition st_list :: "'d stack \<Rightarrow> 'd option list" where
  "st_list st = (case st_data st of None \<Rightarrow> [] | Some d \<Rightarrow> take (st_num st) d)"

definition OPENSSL_sk_delete_ptr :: "'d stack \<Rightarrow> 'd option \<Rightarrow> 'd option \<times> 'd stack" where
  "OPENSSL_sk_delete_ptr st p =
     (case ptr_search (st_list st) p 0 of None \<Rightarrow> (None, st) | Some i \<Rightarrow> internal_delete st i)"

definition sort_stack :: "('d sk_comp \<Rightarrow> 'd option list \<Rightarrow> 'd option list) \<Rightarrow> 'd sk_comp \<Rightarrow> 'd stack \<Rightarrow> 'd stack" where
  "sort_stack qs cmpf st =
     (if st_sorted st then st
      else (if st_num st > 1
            then st\<lparr>st_data := map_option (\<lambda>d. overwrite 0 (qs cmpf (take (st_num st) d)) d) (st_data st)\<rparr>
            else st)\<lparr>st_sorted := True\<rparr>)"

definition internal_find ::
  "('d sk_comp \<Rightarrow> 'd option list \<Rightarrow> 'd option list) \<Rightarrow> 'd stack option \<Rightarrow> 'd option \<Rightarrow> u32 \<Rightarrow> int \<times> 'd stack option" where
  "internal_find qs st data ret_val_options =
     (case st of None \<Rightarrow> (- 1, None)
      | Some s \<Rightarrow>
          if st_num s = 0 then (- 1, st)
          else case st_comp s of
            None \<Rightarrow> (case ptr_search (st_list s) data 0 of None \<Rightarrow> - 1 | Some i \<Rightarrow> int i, st)
          | Some cmpf \<Rightarrow>
              let s = sort_stack qs cmpf s
              in if data = None then (- 1, Some s)
                 else (case OBJ_bsearch_ex cmpf data (the (st_data s)) (st_num s) ret_val_options of
                         None \<Rightarrow> - 1 | Some i \<Rightarrow> int i, Some s))"

definition OPENSSL_sk_find ::
  "('d sk_comp \<Rightarrow> 'd option list \<Rightarrow> 'd option list) \<Rightarrow> 'd stack option \<Rightarrow> 'd option \<Rightarrow> int \<times> 'd stack option" where
  "OPENSSL_sk_find qs st data = internal_find qs st data OBJ_BSEARCH_FIRST_VALUE_ON_MATCH"

definition OPENSSL_sk_find_ex ::
  "('d sk_comp \<Rightarrow> 'd option list \<Rightarrow> 'd option list) \<Rightarrow> 'd stack option \<Rightarrow> 'd option \<Rightarrow> int \<times> 'd stack option" where
  "OPENSSL_sk_find_ex qs st data = internal_find qs st data OBJ_BSEARCH_VALUE_ON_NOMATCH"

definition OPENSSL_sk_push :: "'d sk_alloc \<Rightarrow> 'd stack option \<Rightarrow> 'd option \<Rightarrow> (int \<times> 'd stack option) option" where
  "OPENSSL_sk_push fresh st data =
     (case st of None \<Rightarrow> Some (- 1, None)
      | Some s \<Rightarrow> map_option (\<lambda>(r, st). (int r, st)) (OPENSSL_sk_insert fresh st data (int (st_num s))))"

definition OPENSSL_sk_unshift :: "'d sk_alloc \<Rightarrow> 'd stack option \<Rightarrow> 'd option \<Rightarrow> (nat \<times> 'd stack option) option" where
  "OPENSSL_sk_unshift fresh st data = OPENSSL_sk_insert fresh st data 0"

definition OPENSSL_sk_shift :: "'d stack option \<Rightarrow> 'd option \<times> 'd stack option" where
  "OPENSSL_sk_shift st =
     (case st of None \<Rightarrow> (None, None)
      | Some s \<Rightarrow> if st_num s = 0 then (None, st) else let (r, s) = internal_delete s 0 in (r, Some s))"

definition OPENSSL_sk_pop :: "'d stack option \<Rightarrow> 'd option \<times> 'd stack option" where
  "OPENSSL_sk_pop st =
     (case st of None \<Rightarrow> (None, None)
      | Some s \<Rightarrow> if st_num s = 0 then (None, st) else let (r, s) = internal_delete s (st_num s - 1) in (r, Some s))"

definition OPENSSL_sk_zero :: "'d stack option \<Rightarrow> 'd stack option" where
  "OPENSSL_sk_zero st =
     (case st of None \<Rightarrow> None
      | Some s \<Rightarrow>
          if st_num s = 0 then st
          else Some (s\<lparr>st_data := map_option (overwrite 0 (replicate (st_num s) None)) (st_data s), st_num := 0\<rparr>))"

text \<open>The elements that \<^verbatim>\<open>OPENSSL_sk_pop_free\<close> hands to the client's free function, in order.\<close>

definition OPENSSL_sk_pop_free :: "'d stack option \<Rightarrow> 'd list" where
  "OPENSSL_sk_pop_free st = (case st of None \<Rightarrow> [] | Some s \<Rightarrow> List.map_filter id (st_list s))"

definition OPENSSL_sk_num :: "'d stack option \<Rightarrow> int" where
  "OPENSSL_sk_num st = (case st of None \<Rightarrow> - 1 | Some s \<Rightarrow> int (st_num s))"

definition OPENSSL_sk_value :: "'d stack option \<Rightarrow> int \<Rightarrow> 'd option" where
  "OPENSSL_sk_value st i =
     (case st of None \<Rightarrow> None
      | Some s \<Rightarrow> if i < 0 \<or> i \<ge> int (st_num s) then None else the (st_data s) ! nat i)"

definition OPENSSL_sk_set :: "'d stack option \<Rightarrow> int \<Rightarrow> 'd option \<Rightarrow> 'd option \<times> 'd stack option" where
  "OPENSSL_sk_set st i data =
     (case st of None \<Rightarrow> (None, None)
      | Some s \<Rightarrow>
          if i < 0 \<or> i \<ge> int (st_num s) then (None, st)
          else let d = (the (st_data s))[nat i := data]
               in (d ! nat i, Some (s\<lparr>st_data := Some d, st_sorted := False\<rparr>)))"

definition OPENSSL_sk_sort ::
  "('d sk_comp \<Rightarrow> 'd option list \<Rightarrow> 'd option list) \<Rightarrow> 'd stack option \<Rightarrow> 'd stack option" where
  "OPENSSL_sk_sort qs st =
     (case st of None \<Rightarrow> None
      | Some s \<Rightarrow> (case st_comp s of None \<Rightarrow> st | Some cmpf \<Rightarrow> Some (sort_stack qs cmpf s)))"

definition OPENSSL_sk_is_sorted :: "'d stack option \<Rightarrow> bool" where
  "OPENSSL_sk_is_sorted st = (case st of None \<Rightarrow> True | Some s \<Rightarrow> st_sorted s)"

subsection \<open>Invariant\<close>

definition sk_wf :: "'d stack \<Rightarrow> bool" where
  "sk_wf st \<longleftrightarrow>
     (case st_data st of None \<Rightarrow> st_num st = 0 \<and> st_num_alloc st = 0
      | Some d \<Rightarrow> length d = st_num_alloc st \<and> st_num st \<le> st_num_alloc st \<and>
                 min_nodes \<le> st_num_alloc st \<and> st_num_alloc st \<le> max_nodes)"

definition fresh_ok :: "'d sk_alloc \<Rightarrow> bool" where
  "fresh_ok fresh \<longleftrightarrow> (\<forall>n b. fresh n = Some b \<longrightarrow> length b = n)"

lemma length_st_list [simp]: "sk_wf st \<Longrightarrow> length (st_list st) = st_num st"
  by (auto simp: sk_wf_def st_list_def split: option.splits)

lemma sk_wf_num: "sk_wf st \<Longrightarrow> st_num st \<le> max_nodes"
  by (auto simp: sk_wf_def split: option.splits)

text \<open>The growth loop ends for every current size of at least 2, without exceeding the hard limit.\<close>

lemma compute_growth_total:
  assumes "2 \<le> current" and "current \<le> max_nodes" and "target \<le> max_nodes"
  shows "\<exists>c. compute_growth target current = Some c \<and> target \<le> c \<and> current \<le> c \<and> c \<le> max_nodes"
  using assms
proof (induction "max_nodes - current" arbitrary: current rule: less_induct)
  case less
  let ?next = "if current < max_nodes div 3 * 2 + (if max_nodes mod 3 \<noteq> 0 then 1 else 0)
           then current + current div 2 else max_nodes"
  show ?case
  proof (cases "current < target")
    case True
    obtain nx where nx: "nx = ?next" by simp
    have n: "current < max_nodes" "current < nx" "nx \<le> max_nodes" using True less.prems by (auto simp: nx)
    then have "max_nodes - nx < max_nodes - current" "2 \<le> nx" using less.prems(1) by linarith+
    then obtain c where c: "compute_growth target nx = Some c" "target \<le> c" "nx \<le> c" "c \<le> max_nodes"
      using less.hyps [of nx] n(3) less.prems(3) by blast
    have "compute_growth target current = compute_growth target nx"
      unfolding nx using True n(1) by (subst compute_growth.simps) simp
    with c n(2) show ?thesis by (intro exI [of _ c]) simp
  next
    case False
    then have "compute_growth target current = Some current" by (subst compute_growth.simps) simp
    with False less.prems show ?thesis by auto
  qed
qed

lemma sk_reserve_spec:
  assumes wf: "sk_wf st" and f: "fresh_ok fresh"
  shows "\<exists>ok st'. sk_reserve fresh st n exact = Some (ok, st') \<and> (\<not> ok \<longrightarrow> st' = st) \<and>
    (ok \<longrightarrow> sk_wf st' \<and> st_list st' = st_list st \<and> st_num st' = st_num st \<and> st_comp st' = st_comp st \<and>
      st_sorted st' = st_sorted st \<and> (\<exists>d. st_data st' = Some d \<and> st_num st + n \<le> length d))"
proof (cases "n > max_nodes - st_num st")
  case True
  then show ?thesis by (auto simp: sk_reserve_def)
next
  case False
  obtain na where na_def: "(if st_num st + n < min_nodes then min_nodes else st_num st + n) = na" by simp
  have na: "st_num st + n \<le> na" "min_nodes \<le> na" "na \<le> max_nodes"
    using False sk_wf_num [OF wf] by (auto simp flip: na_def)
  have nn: "(n > max_nodes - st_num st) = False" using False by simp
  note unf = sk_reserve_def [of fresh st n exact] Let_def nn na_def if_False
  show ?thesis
  proof (cases "st_data st")
    case None
    then show ?thesis unfolding unf using na wf
      by (cases "fresh na") (auto simp: sk_wf_def st_list_def)
  next
    case (Some d)
    with wf have d: "length d = st_num_alloc st" "st_num st \<le> st_num_alloc st" "min_nodes \<le> st_num_alloc st"
      "st_num_alloc st \<le> max_nodes" by (simp_all add: sk_wf_def)
    show ?thesis
    proof (cases "\<not> exact \<and> na \<le> st_num_alloc st \<or> exact \<and> na = st_num_alloc st")
      case True
      then have "sk_reserve fresh st n exact = Some (True, st)" unfolding unf Some by simp
      moreover have "st_num st + n \<le> length d" using True na(1) d(1) by auto
      ultimately show ?thesis using wf Some by auto
    next
      case grow: False
      obtain c where c: "(if exact then Some na else compute_growth na (st_num_alloc st)) = Some c"
          "na \<le> c" "c \<le> max_nodes"
        using compute_growth_total [of "st_num_alloc st" na] na(3) d(3,4) by (cases exact) auto
      have "c \<noteq> 0" "min_nodes \<le> c" "st_num st \<le> c" using c(2) na(1,2) by auto
      then have eq: "sk_reserve fresh st n exact = (case fresh c of None \<Rightarrow> Some (False, st)
          | Some b \<Rightarrow> Some (True, st\<lparr>st_data := Some (take c d @ drop (length d) b), st_num_alloc := c\<rparr>))"
        using grow c(1) unfolding unf Some by auto
      show ?thesis
      proof (cases "fresh c")
        case None
        then show ?thesis by (auto simp: eq)
      next
        case blk: (Some b)
        then have "length b = c" using f by (simp add: fresh_ok_def)
        then have "length (take c d @ drop (length d) b) = c" by simp
        moreover have "take (st_num st) (take c d @ drop (length d) b) = take (st_num st) d"
          using \<open>st_num st \<le> c\<close> d by (simp add: min_def)
        ultimately show ?thesis using c na \<open>min_nodes \<le> c\<close> \<open>st_num st \<le> c\<close> Some blk
          by (auto simp: eq sk_wf_def st_list_def)
      qed
    qed
  qed
qed

subsection \<open>Operations on the list\<close>

definition list_insert :: "'a list \<Rightarrow> 'a \<Rightarrow> int \<Rightarrow> 'a list" where
  "list_insert xs x loc =
     (if loc \<ge> int (length xs) \<or> loc < 0 then xs @ [x] else take (nat loc) xs @ x # drop (nat loc) xs)"

lemma insert_at_spec:
  assumes "st_num st < length d"
  shows "length (insert_at st x loc d) = length d"
    and "take (st_num st + 1) (insert_at st x loc d) = list_insert (take (st_num st) d) x loc"
proof -
  let ?n = "st_num st" and ?k = "nat loc"
  show len: "length (insert_at st x loc d) = length d"
    using assms by (auto simp: insert_at_def nat_le_iff)
  show "take (?n + 1) (insert_at st x loc d) = list_insert (take ?n d) x loc"
  proof (cases "loc \<ge> int ?n \<or> loc < 0")
    case True
    then show ?thesis using assms by (simp add: insert_at_def list_insert_def take_Suc_conv_app_nth min_def)
  next
    case False
    then have k: "?k < ?n" by auto
    let ?c = "chunk ?k (?n - ?k) d"
    have c: "length ?c = ?n - ?k" using assms k by simp
    have "take (?n + 1) (overwrite (?k + 1) ?c d) = take (?k + 1) d @ ?c"
      using assms k c by (simp add: overwrite_def)
    moreover have "?c = drop ?k (take ?n d)" by (simp add: chunk_def drop_take)
    moreover have "(take (?k + 1) d @ drop ?k (take ?n d))[?k := x] = take ?k d @ x # drop ?k (take ?n d)"
      using assms k by (simp add: list_update_append upd_conv_take_nth_drop take_Suc_conv_app_nth min_def)
    ultimately show ?thesis using False k assms
      by (simp add: insert_at_def list_insert_def take_update_swap min_def)
  qed
qed

lemma insert_refines:
  assumes wf: "sk_wf st" and f: "fresh_ok fresh"
  shows "\<exists>r st'. OPENSSL_sk_insert fresh (Some st) x loc = Some (r, Some st') \<and> sk_wf st' \<and> st_comp st' = st_comp st \<and>
    (r = 0 \<and> st' = st \<or> r = st_num st + 1 \<and> st_list st' = list_insert (st_list st) x loc \<and> \<not> st_sorted st')"
proof (cases "st_num st = max_nodes")
  case True
  with wf show ?thesis by (simp add: OPENSSL_sk_insert_def)
next
  case False
  obtain ok s where s: "sk_reserve fresh st 1 False = Some (ok, s)" "\<not> ok \<longrightarrow> s = st"
      "ok \<longrightarrow> sk_wf s \<and> st_list s = st_list st \<and> st_num s = st_num st \<and> st_comp s = st_comp st \<and>
        st_sorted s = st_sorted st \<and> (\<exists>d. st_data s = Some d \<and> st_num st + 1 \<le> length d)"
    using sk_reserve_spec [OF wf f, of 1 False] by blast
  show ?thesis
  proof (cases ok)
    case False
    with s wf \<open>st_num st \<noteq> max_nodes\<close> show ?thesis by (simp add: OPENSSL_sk_insert_def)
  next
    case True
    with s obtain d where d: "st_data s = Some d" "st_num s < length d" "sk_wf s" "st_list s = st_list st"
      "st_num s = st_num st" "st_comp s = st_comp st" by auto
    note I = insert_at_spec [OF d(2), of x loc]
    let ?s = "s\<lparr>st_data := Some (insert_at s x loc d), st_num := st_num s + 1, st_sorted := False\<rparr>"
    have "sk_wf ?s" using d(1-3) I(1) by (auto simp: sk_wf_def)
    moreover have "st_list ?s = list_insert (st_list st) x loc"
      using I(2) d(1) d(4) [symmetric] by (simp add: st_list_def)
    ultimately show ?thesis using True s(1) d False by (simp add: OPENSSL_sk_insert_def)
  qed
qed

lemma internal_delete_spec:
  assumes wf: "sk_wf st" and loc: "loc < st_num st" and e: "internal_delete st loc = (r, st')"
  shows "r = st_list st ! loc" and "sk_wf st'" and "st_comp st' = st_comp st" and "st_sorted st' = st_sorted st"
    and "st_list st' = take loc (st_list st) @ drop (Suc loc) (st_list st)"
proof -
  obtain d where d: "st_data st = Some d" "st_num st \<le> length d"
    using wf loc by (auto simp: sk_wf_def split: option.splits)
  let ?n = "st_num st" and ?c = "chunk (loc + 1) (st_num st - loc - 1) d"
  let ?d = "if loc \<noteq> ?n - 1 then overwrite loc ?c d else d"
  have st': "st' = st\<lparr>st_data := Some ?d, st_num := ?n - 1\<rparr>" "r = d ! loc"
    using e d(1) by (auto simp: internal_delete_def Let_def)
  have c: "length ?c = ?n - loc - 1" "?c = drop (Suc loc) (take ?n d)"
    using loc d(2) by (simp_all add: chunk_def drop_take)
  have len: "length ?d = length d" using loc d(2) c(1) by simp
  show "r = st_list st ! loc" using st'(2) d loc by (simp add: st_list_def)
  show "sk_wf st'" using wf d(1) len by (auto simp: sk_wf_def st')
  show "st_comp st' = st_comp st" "st_sorted st' = st_sorted st" by (simp_all add: st')
  have "take (?n - 1) ?d = take loc d @ drop (Suc loc) (take ?n d)"
  proof (cases "loc = ?n - 1")
    case True
    then show ?thesis using loc by simp
  next
    case False
    have "take (?n - 1) (overwrite loc ?c d) = take loc d @ ?c"
      using loc d(2) c(1) by (simp add: overwrite_def)
    with False c(2) show ?thesis by simp
  qed
  then show "st_list st' = take loc (st_list st) @ drop (Suc loc) (st_list st)"
    using loc d by (simp add: st_list_def st' min_def)
qed


definition sample_stack :: "nat stack" where
  "sample_stack = \<lparr>st_num = 3, st_data = Some [Some 5, Some 1, Some 3, None], st_sorted = False, st_num_alloc = 4,
     st_comp = Some (\<lambda>x y. int (the x) - int (the y))\<rparr>"

lemma sample_stack_wf: "sk_wf sample_stack" "st_list sample_stack = [Some 5, Some 1, Some 3]"
    "fresh_ok (\<lambda>n. Some (replicate n (None :: nat option)))"
  by (simp_all add: sk_wf_def sample_stack_def fresh_ok_def st_list_def numeral_3_eq_3)


subsection \<open>Searching\<close>

text \<open>The comparison function of a stack must order the elements: the sign of the result is the order of
  ranks.  \<^verbatim>\<open>qsort\<close> then permutes the array into ascending order.\<close>

definition ranked :: "'d sk_comp \<Rightarrow> ('d option \<Rightarrow> int) \<Rightarrow> bool" where
  "ranked c rank \<longleftrightarrow> (\<forall>x y. sgn (c x y) = sgn (rank x - rank y))"

definition qsort_ok ::
  "('d sk_comp \<Rightarrow> 'd option list \<Rightarrow> 'd option list) \<Rightarrow> 'd sk_comp \<Rightarrow> ('d option \<Rightarrow> int) \<Rightarrow> bool" where
  "qsort_ok qs c rank \<longleftrightarrow> (\<forall>xs. mset (qs c xs) = mset xs \<and> sorted (map rank (qs c xs)))"

lemma ranked_simps:
  assumes "ranked c rank"
  shows "c x y < 0 \<longleftrightarrow> rank x < rank y" "c x y = 0 \<longleftrightarrow> rank x = rank y" "c x y > 0 \<longleftrightarrow> rank x > rank y"
proof -
  have "sgn (c x y) = sgn (rank x - rank y)" using assms by (simp add: ranked_def)
  then show "c x y < 0 \<longleftrightarrow> rank x < rank y" "c x y = 0 \<longleftrightarrow> rank x = rank y" "c x y > 0 \<longleftrightarrow> rank x > rank y"
    by (auto simp: sgn_if split: if_splits)
qed

lemma bsearch_loop_spec:
  fixes rk :: "nat \<Rightarrow> int"
  assumes mono: "\<And>i j. i \<le> j \<Longrightarrow> j < n \<Longrightarrow> rk i \<le> rk j"
    and cmp: "\<And>i. (cmp i < 0) = (key < rk i)" "\<And>i. (cmp i > 0) = (rk i < key)"
    and "h \<le> n" and "\<And>i. i < l \<Longrightarrow> rk i < key" and "\<And>i. h \<le> i \<Longrightarrow> i < n \<Longrightarrow> key < rk i"
    and "l < h \<or> c \<noteq> 0" and "bsearch_loop cmp l h i0 c = (i, c')"
  shows "c' = 0 \<and> i < n \<and> rk i = key \<or> c' \<noteq> 0 \<and> (\<forall>i < n. rk i \<noteq> key)"
  using assms(4-)
proof (induction "h - l" arbitrary: l h i0 c rule: less_induct)
  case less
  show ?case
  proof (cases "l < h")
    case False
    then have "c' = c" "c \<noteq> 0" using less.prems(4,5) by auto
    moreover have "rk j \<noteq> key" if "j < n" for j
    proof (cases "j < l")
      case True
      then show ?thesis using less.prems(2) [of j] by simp
    next
      case False
      then show ?thesis using \<open>\<not> l < h\<close> less.prems(3) [of j] that by simp
    qed
    ultimately show ?thesis by simp
  next
    case True
    let ?m = "(l + h) div 2"
    have m: "l \<le> ?m" "?m < h" "?m < n" using True less.prems(1) by auto
    have below: "rk j < key" if "rk ?m < key" "j < ?m + 1" for j
      using mono [of j ?m] that m(3) by force
    have above: "key < rk j" if "key < rk ?m" "?m \<le> j" "j < n" for j
      using mono [of ?m j] that by force
    have unf: "bsearch_loop cmp l h i0 c =
        (if cmp ?m < 0 then bsearch_loop cmp l ?m ?m (cmp ?m)
         else if cmp ?m > 0 then bsearch_loop cmp (?m + 1) h ?m (cmp ?m) else (?m, cmp ?m))"
      using True by (subst bsearch_loop.simps) (simp add: Let_def)
    consider "cmp ?m < 0" | "cmp ?m > 0" | "cmp ?m = 0" by linarith
    then show ?thesis
    proof cases
      case 1
      then show ?thesis using less.hyps [of ?m l "cmp ?m" ?m] m less.prems(2,5) above cmp(1) [of ?m] unf
        by simp
    next
      case 2
      then show ?thesis using less.hyps [of h "?m + 1" "cmp ?m" ?m] m less.prems(1,3,5) below cmp(2) [of ?m] unf
        by simp
    next
      case 3
      then show ?thesis using less.prems(5) m(3) cmp [of ?m] unf by auto
    qed
  qed
qed

lemma first_match_spec:
  assumes "i \<le> n"
  shows "first_match cmp i \<le> i" and "\<forall>j. first_match cmp i \<le> j \<and> j < i \<longrightarrow> cmp j = 0"
    and "0 < first_match cmp i \<Longrightarrow> cmp (first_match cmp i - 1) \<noteq> 0"
  by (induction i) (auto simp: less_Suc_eq le_Suc_eq)

text \<open>The binary search with the flag \<^verbatim>\<open>OBJ_BSEARCH_FIRST_VALUE_ON_MATCH\<close> finds the first of the equal elements.\<close>

lemma OBJ_bsearch_first:
  assumes c: "ranked c rank" and srt: "sorted (map rank (take n d))" and n: "0 < n" "n \<le> length d"
  shows "case OBJ_bsearch_ex c x d n OBJ_BSEARCH_FIRST_VALUE_ON_MATCH of
      None \<Rightarrow> \<forall>i < n. rank (d ! i) \<noteq> rank x
    | Some k \<Rightarrow> k < n \<and> rank (d ! k) = rank x \<and> (\<forall>j < k. rank (d ! j) < rank x)"
proof -
  let ?rk = "\<lambda>i. rank (d ! i)" and ?cmp = "\<lambda>i. c x (d ! i)"
  have mono: "?rk i \<le> ?rk j" if "i \<le> j" "j < n" for i j
    using sorted_nth_mono [OF srt, of i j] that n by simp
  obtain i c' where l: "bsearch_loop ?cmp 0 n 0 0 = (i, c')" by fastforce
  have spec: "c' = 0 \<and> i < n \<and> ?rk i = rank x \<or> c' \<noteq> 0 \<and> (\<forall>i < n. ?rk i \<noteq> rank x)"
    using n(1) by (intro bsearch_loop_spec [OF mono _ _ _ _ _ _ l]) (auto simp: ranked_simps [OF c])
  have flags: "\<not> flag OBJ_BSEARCH_FIRST_VALUE_ON_MATCH OBJ_BSEARCH_VALUE_ON_NOMATCH"
      "flag OBJ_BSEARCH_FIRST_VALUE_ON_MATCH OBJ_BSEARCH_FIRST_VALUE_ON_MATCH"
    by (simp_all add: flag_def)
  show ?thesis
  proof (cases "c' = 0")
    case False
    then show ?thesis using spec n(1) l flags by (simp add: OBJ_bsearch_ex_def)
  next
    case True
    let ?k = "first_match ?cmp i"
    have i: "i < n" "?rk i = rank x" using True spec by auto
    note F = first_match_spec [of i i ?cmp, OF order_refl]
    have k: "?k < n" "?rk ?k = rank x"
      using F(1,2) i by (cases "?k = i"; auto simp: ranked_simps [OF c])+
    have "?rk j < rank x" if "j < ?k" for j
    proof -
      have "rank x \<noteq> ?rk (?k - 1)" using F(3) that by (simp add: ranked_simps [OF c])
      moreover have "?rk j \<le> ?rk (?k - 1)" "?rk (?k - 1) \<le> ?rk ?k" using mono that k(1) by auto
      ultimately show ?thesis using k(2) by linarith
    qed
    with k show ?thesis using True n(1) l flags by (simp add: OBJ_bsearch_ex_def)
  qed
qed

text \<open>The \<^verbatim>\<open>sorted\<close> flag is honest: a stack that has it set is in ascending order.\<close>

definition sorted_ok :: "('d option \<Rightarrow> int) \<Rightarrow> 'd stack \<Rightarrow> bool" where
  "sorted_ok rank st \<longleftrightarrow> (st_sorted st \<longrightarrow> sorted (map rank (st_list st)))"

lemma internal_delete_sorted:
  assumes "sk_wf st" and "loc < st_num st" and "sorted_ok rank st" and "internal_delete st loc = (r, st')"
  shows "sorted_ok rank st'"
proof -
  have "sorted (map rank (take loc xs @ drop (Suc loc) xs))" if "sorted (map rank xs)" for xs
  proof -
    have "sorted (take loc (map rank xs) @ drop loc (map rank xs))" using that by simp
    moreover have "sorted (drop (Suc loc) (map rank xs))" using that by (rule sorted_wrt_drop)
    moreover have "set (drop (Suc loc) (map rank xs)) \<subseteq> set (drop loc (map rank xs))"
      by (simp add: set_drop_subset_set_drop)
    ultimately show ?thesis by (auto simp: sorted_append take_map drop_map simp del: append_take_drop_id)
  qed
  with assms show ?thesis using internal_delete_spec [OF assms(1,2,4)] by (simp add: sorted_ok_def)
qed

lemma sort_stack_spec:
  assumes wf: "sk_wf st" and q: "qsort_ok qs c rank" and so: "sorted_ok rank st"
  shows "sk_wf (sort_stack qs c st)" and "mset (st_list (sort_stack qs c st)) = mset (st_list st)"
    and "sorted (map rank (st_list (sort_stack qs c st)))" and "st_num (sort_stack qs c st) = st_num st"
    and "st_sorted (sort_stack qs c st)" and "st_comp (sort_stack qs c st) = st_comp st"
proof -
  show "st_num (sort_stack qs c st) = st_num st" "st_sorted (sort_stack qs c st)" "st_comp (sort_stack qs c st) = st_comp st"
    by (auto simp: sort_stack_def)
  have perm: "length (qs c xs) = length xs" "mset (qs c xs) = mset xs" "sorted (map rank (qs c xs))" for xs
    using q by (auto simp: qsort_ok_def dest: mset_eq_length)
  have L: "st_list (sort_stack qs c st) =
      (if st_sorted st \<or> st_num st \<le> 1 then st_list st else qs c (st_list st)) \<and> sk_wf (sort_stack qs c st)"
  proof (cases "st_sorted st \<or> st_num st \<le> 1")
    case True
    then show ?thesis using wf by (auto simp: sort_stack_def st_list_def sk_wf_def split: option.splits)
  next
    case False
    then obtain d where d: "st_data st = Some d" "st_num st \<le> length d"
      using wf by (auto simp: sk_wf_def split: option.splits)
    have "length (qs c (take (st_num st) d)) = st_num st" using d(2) perm(1) by simp
    with False d wf show ?thesis
      by (auto simp: sort_stack_def st_list_def sk_wf_def overwrite_def)
  qed
  then show "sk_wf (sort_stack qs c st)" "mset (st_list (sort_stack qs c st)) = mset (st_list st)"
    using perm(2) by auto
  have "sorted (map rank xs)" if "length xs \<le> 1" for xs using that by (cases xs) auto
  with L so wf perm(3) show "sorted (map rank (st_list (sort_stack qs c st)))"
    by (auto simp: sorted_ok_def)
qed

text \<open>
  \<^verbatim>\<open>OPENSSL_sk_find\<close> on a stack with a comparison function that orders the elements, and a \<^verbatim>\<open>qsort\<close> that
  sorts: the stack keeps its elements and is sorted afterwards, and the result is the index of the first
  element equal to the one sought, or -1 when there is none.
\<close>

theorem sk_find_correct:
  assumes wf: "sk_wf st" and cmp: "st_comp st = Some c" "ranked c rank"
    and q: "qsort_ok qs c rank" and so: "sorted_ok rank st"
  shows "\<exists>r st'. OPENSSL_sk_find qs (Some st) (Some x) = (r, Some st') \<and> sk_wf st' \<and>
    mset (st_list st') = mset (st_list st) \<and> sorted (map rank (st_list st')) \<and> st_comp st' = Some c \<and>
    (if \<exists>y \<in> set (st_list st). rank y = rank (Some x)
     then 0 \<le> r \<and> nat r < length (st_list st') \<and> rank (st_list st' ! nat r) = rank (Some x) \<and>
       (\<forall>j < nat r. rank (st_list st' ! j) < rank (Some x))
     else r = - 1)"
proof (cases "st_num st = 0")
  case True
  then have "st_list st = []" using length_st_list [OF wf] by (simp del: length_st_list)
  with True wf cmp(1) show ?thesis by (simp add: OPENSSL_sk_find_def internal_find_def)
next
  case False
  let ?s = "sort_stack qs c st"
  note S = sort_stack_spec [OF wf q so]
  obtain d where d: "st_data ?s = Some d" "st_num st \<le> length d" "st_list ?s = take (st_num st) d"
    using S(1,4) False by (auto simp: sk_wf_def st_list_def split: option.splits)
  have set: "set (st_list st) = set (take (st_num st) d)" using S(2) d(3) by (metis set_mset_mset)
  have res: "OPENSSL_sk_find qs (Some st) (Some x) =
      (case OBJ_bsearch_ex c (Some x) d (st_num st) OBJ_BSEARCH_FIRST_VALUE_ON_MATCH of None \<Rightarrow> - 1 | Some i \<Rightarrow> int i, Some ?s)"
    using False cmp(1) d(1) S(4) by (simp add: OPENSSL_sk_find_def internal_find_def Let_def)
  have B: "case OBJ_bsearch_ex c (Some x) d (st_num st) OBJ_BSEARCH_FIRST_VALUE_ON_MATCH of
      None \<Rightarrow> \<forall>i < st_num st. rank (d ! i) \<noteq> rank (Some x)
    | Some k \<Rightarrow> k < st_num st \<and> rank (d ! k) = rank (Some x) \<and> (\<forall>j < k. rank (d ! j) < rank (Some x))"
    using False S(3) d(2,3) by (intro OBJ_bsearch_first [OF cmp(2)]) auto
  show ?thesis
  proof (cases "OBJ_bsearch_ex c (Some x) d (st_num st) OBJ_BSEARCH_FIRST_VALUE_ON_MATCH")
    case None
    then have "\<not> (\<exists>y \<in> set (st_list st). rank y = rank (Some x))"
      using B d(2) by (auto simp: set in_set_conv_nth)
    with None S cmp(1) show ?thesis by (simp add: res)
  next
    case (Some k)
    then have k: "k < st_num st" "rank (d ! k) = rank (Some x)" "\<forall>j < k. rank (d ! j) < rank (Some x)" using B by auto
    then have "d ! k \<in> set (st_list st)" using d(2) by (auto simp: set in_set_conv_nth)
    with k(2) have "\<exists>y \<in> set (st_list st). rank y = rank (Some x)" by blast
    with Some k S cmp(1) d show ?thesis by (simp add: res)
  qed
qed

definition sample_rank :: "nat option \<Rightarrow> int" where
  "sample_rank x = int (the x)"

theorem sk_find_correct_witness:
  "\<exists>r st'. OPENSSL_sk_find (\<lambda>c. sort_key sample_rank) (Some sample_stack) (Some 3) = (r, Some st') \<and>
     mset (st_list st') = {#Some 1, Some 3, Some 5#} \<and> 0 \<le> r \<and> st_list st' ! nat r = Some 3"
proof -
  have c: "ranked (\<lambda>x y. int (the x) - int (the y)) sample_rank" by (simp add: ranked_def sample_rank_def)
  have q: "qsort_ok (\<lambda>c. sort_key sample_rank) (\<lambda>x y. int (the x) - int (the y)) sample_rank"
    by (simp add: qsort_ok_def)
  have s: "st_comp sample_stack = Some (\<lambda>x y. int (the x) - int (the y))" "sorted_ok sample_rank sample_stack"
    by (simp_all add: sample_stack_def sorted_ok_def)
  obtain r st' where r: "OPENSSL_sk_find (\<lambda>c. sort_key sample_rank) (Some sample_stack) (Some 3) = (r, Some st')"
      "mset (st_list st') = {#Some 5, Some 1, Some 3#}" "0 \<le> r" "nat r < length (st_list st')"
      "sample_rank (st_list st' ! nat r) = 3"
    using sk_find_correct [OF sample_stack_wf(1) s(1) c q s(2), of 3]
    by (auto simp: sample_stack_wf(2) sample_rank_def)
  have "st_list st' ! nat r \<in># mset (st_list st')" using r(4) by simp
  then have "st_list st' ! nat r = Some 3" using r(2,5) by (auto simp: sample_rank_def)
  with r show ?thesis by (simp add: add_mset_commute)
qed

end
