(* ===== verification/Dtls_Recv.thy ===== *)
theory Dtls_Recv
  imports Statem_Lib Samples
begin

section \<open>Receiving DTLS handshake messages\<close>

text \<open>
  Model of the receiving half of \<^verbatim>\<open>ssl/statem/statem_dtls.c\<close>: fragments are read from the record layer
  (\<open>read_bytes\<close>), kept in the queue \<open>buffered_messages\<close> until their message is complete and its turn has
  come, and delivered in \<^verbatim>\<open>s->init_buf\<close>.

  The loops that wait for the peer (discarding a fragment, ignoring HelloRequests, trying again after
  a fragment that completed nothing) are partial functions: \<open>None\<close> is a run that does not end.
  Memory that the allocator hands out has arbitrary contents.
\<close>

subsection \<open>Fragments\<close>

abbreviation (input) SIZEOF_HM_FRAGMENT :: nat where "SIZEOF_HM_FRAGMENT \<equiv> 104"
abbreviation (input) SIZEOF_PITEM :: nat where "SIZEOF_PITEM \<equiv> 24"

text \<open>The header of a new fragment is overwritten by every caller.\<close>

definition dtls1_hm_fragment_new :: "allocator \<Rightarrow> nat \<Rightarrow> bool \<Rightarrow> msg_frag option" where
  "dtls1_hm_fragment_new alloc len reasm =
     (case alloc SIZEOF_HM_FRAGMENT of None \<Rightarrow> None
      | Some _ \<Rightarrow>
         (case if len = 0 then Some [] else alloc len of None \<Rightarrow> None
          | Some buf \<Rightarrow>
             if reasm then
               (case alloc (RSMBLY_BITMASK_SIZE len) of None \<Rightarrow> None
                | Some _ \<Rightarrow> Some \<lparr>msg_header = hm_header_zero, fragment = buf,
                                  reassembly = Some (replicate (RSMBLY_BITMASK_SIZE len) 0)\<rparr>)
             else Some \<lparr>msg_header = hm_header_zero, fragment = buf, reassembly = None\<rparr>))"

text \<open>The priority under which a message is queued: its sequence number in the low two of eight bytes.\<close>

definition seq64be :: "nat \<Rightarrow> byte list" where
  "seq64be n = replicate 6 0 @ [of_nat (drop_bit 8 n), of_nat n]"

definition dtls1_max_handshake_message_len :: "'w ssl \<Rightarrow> nat" where
  "dtls1_max_handshake_message_len s =
     (let max_len = DTLS1_HM_HEADER_LENGTH + SSL3_RT_MAX_ENCRYPTED_LENGTH in
      if max_len < max_cert_list s then max_cert_list s else max_len)"

text \<open>\<^verbatim>\<open>memcpy\<close> into and out of the block of \<^verbatim>\<open>s->init_buf\<close>.\<close>

definition write_init_buf :: "nat \<Rightarrow> byte list \<Rightarrow> 'w ssl \<Rightarrow> 'w ssl" where
  "write_init_buf off bs s =
     s\<lparr>init_buf := map_option (\<lambda>b. b\<lparr>buf_data := map_option (overwrite off bs) (buf_data b)\<rparr>) (init_buf s)\<rparr>"

definition init_bytes :: "nat \<Rightarrow> nat \<Rightarrow> 'w ssl \<Rightarrow> byte list" where
  "init_bytes off n s =
     (case init_buf s of None \<Rightarrow> [] | Some b \<Rightarrow> (case buf_data b of None \<Rightarrow> [] | Some d \<Rightarrow> chunk off n d))"

definition dtls1_preprocess_fragment :: "'w env \<Rightarrow> msg_hdr \<Rightarrow> 'w ssl \<Rightarrow> bool \<times> 'w ssl" where
  "dtls1_preprocess_fragment e hdr s =
     (if frag_off hdr + frag_len hdr > msg_len hdr \<or> msg_len hdr > dtls1_max_handshake_message_len s then
        (False, ossl_statem_fatal e SSL_AD_ILLEGAL_PARAMETER SSL_F_DTLS1_PREPROCESS_FRAGMENT
                  SSL_R_EXCESSIVE_MESSAGE_SIZE s)
      else if frag_off (r_msg_hdr (d1 s)) = 0 then
        (case init_buf s of None \<Rightarrow> (False, s)
         | Some b \<Rightarrow>
            let (r, b) = BUF_MEM_grow_clean (heap e) b (msg_len hdr + DTLS1_HM_HEADER_LENGTH);
                s = s\<lparr>init_buf := Some b\<rparr>
            in if r = 0 then
                 (False, ossl_statem_fatal e SSL_AD_INTERNAL_ERROR SSL_F_DTLS1_PREPROCESS_FRAGMENT ERR_R_BUF_LIB s)
               else
                 let s = upd_s3 (\<lambda>x. x\<lparr>message_size := msg_len hdr, message_type := int (unat (hm_type hdr))\<rparr>) s
                 in (True, upd_d1 (\<lambda>d. d\<lparr>r_msg_hdr := (r_msg_hdr d)\<lparr>msg_len := msg_len hdr, hm_type := hm_type hdr,
                                                                     hm_seq := hm_seq hdr\<rparr>\<rparr>) s))
      else if msg_len hdr \<noteq> msg_len (r_msg_hdr (d1 s)) then
        (False, ossl_statem_fatal e SSL_AD_ILLEGAL_PARAMETER SSL_F_DTLS1_PREPROCESS_FRAGMENT
                  SSL_R_EXCESSIVE_MESSAGE_SIZE s)
      else (True, s))"

subsection \<open>The queue of received messages\<close>

fun skip_stale :: "nat \<Rightarrow> msg_frag pqueue \<Rightarrow> msg_frag pqueue" where
  "skip_stale n [] = []"
| "skip_stale n (item # q) =
     (if hm_seq (msg_header (item_data item)) < n then skip_stale n (snd (pqueue_pop (item # q))) else item # q)"

definition dtls1_retrieve_buffered_fragment :: "'w env \<Rightarrow> 'w ssl \<Rightarrow> int \<times> nat \<times> 'w ssl" where
  "dtls1_retrieve_buffered_fragment e s =
     (let s = upd_d1 (\<lambda>d. d\<lparr>buffered_messages := skip_stale (handshake_read_seq d) (buffered_messages d)\<rparr>) s in
      case pqueue_peek (buffered_messages (d1 s)) of None \<Rightarrow> (0, 0, s)
      | Some item \<Rightarrow>
         let frag = item_data item; hdr = msg_header frag in
         if reassembly frag \<noteq> None then (0, 0, s)
         else if handshake_read_seq (d1 s) = hm_seq hdr then
           let s = upd_d1 (\<lambda>d. d\<lparr>buffered_messages := snd (pqueue_pop (buffered_messages d))\<rparr>) s;
               (ret, s) = dtls1_preprocess_fragment e hdr s;
               s = (if ret \<and> frag_len hdr > 0
                    then write_init_buf (DTLS1_HM_HEADER_LENGTH + frag_off hdr) (take (frag_len hdr) (fragment frag)) s
                    else s)
           in if ret then (1, frag_len hdr, s) else (- 1, 0, s\<lparr>init_num := 0\<rparr>)
         else (0, 0, s))"

text \<open>Reading a fragment into a buffer of 256 bytes that nobody looks at.\<close>

partial_function (option) discard :: "'w env \<Rightarrow> nat \<Rightarrow> 'w ssl \<Rightarrow> (bool \<times> 'w ssl) option" where
  "discard e n s =
     (if n = 0 then Some (True, s)
      else let ((i, _, bs), s) = read_bytes e (if n > 256 then 256 else n) s in
           if i \<le> 0 then Some (False, s) else discard e (usub n (length bs)) s)"

text \<open>The fragment that a new one belongs to: a queued one, or a fresh one.  \<open>None\<close> is the error exit.\<close>

definition find_or_new :: "'w env \<Rightarrow> msg_hdr \<Rightarrow> nat option \<Rightarrow> 'w ssl \<Rightarrow> msg_frag option" where
  "find_or_new e hdr item s =
     (case item of
        None \<Rightarrow> (case dtls1_hm_fragment_new (heap e) (msg_len hdr) True of None \<Rightarrow> None
                 | Some frag \<Rightarrow> Some (frag\<lparr>msg_header := hdr\<lparr>frag_len := msg_len hdr, frag_off := 0\<rparr>\<rparr>))
      | Some i \<Rightarrow>
         let frag = item_data (buffered_messages (d1 s) ! i)
         in if msg_len (msg_header frag) \<noteq> msg_len hdr then None else Some frag)"

definition queue_put :: "nat \<Rightarrow> msg_frag \<Rightarrow> 'w ssl \<Rightarrow> 'w ssl" where
  "queue_put i frag s = upd_d1 (\<lambda>d. d\<lparr>buffered_messages := pqueue_set (buffered_messages d) i frag\<rparr>) s"

text \<open>\<^verbatim>\<open>pitem_new\<close> followed by \<^verbatim>\<open>pqueue_insert\<close>: whether it succeeded.\<close>

definition queue_new :: "'w env \<Rightarrow> nat \<Rightarrow> msg_frag \<Rightarrow> 'w ssl \<Rightarrow> bool \<times> 'w ssl" where
  "queue_new e sq frag s =
     (case pitem_new (seq64be sq) frag (heap e SIZEOF_PITEM \<noteq> None) of None \<Rightarrow> (False, s)
      | Some item \<Rightarrow>
         let (r, q) = pqueue_insert (buffered_messages (d1 s)) item;
             s = upd_d1 (\<lambda>d. d\<lparr>buffered_messages := q\<rparr>) s
         in (r \<noteq> None, s))"

definition dtls1_reassemble_fragment :: "'w env \<Rightarrow> msg_hdr \<Rightarrow> 'w ssl \<Rightarrow> (int \<times> 'w ssl) option" where
  "dtls1_reassemble_fragment e hdr s =
     (if frag_off hdr + frag_len hdr > msg_len hdr \<or> msg_len hdr > dtls1_max_handshake_message_len s
      then Some (- 1, s)
      else if frag_len hdr = 0 then Some (DTLS1_HM_FRAGMENT_RETRY, s)
      else
        let item = pqueue_find (buffered_messages (d1 s)) (seq64be (hm_seq hdr)) in
        case find_or_new e hdr item s of None \<Rightarrow> Some (- 1, s)
        | Some frag \<Rightarrow>
           (case reassembly frag of
              None \<Rightarrow>
                map_option (\<lambda>(ok, s). (if ok then DTLS1_HM_FRAGMENT_RETRY else - 1, s)) (discard e (frag_len hdr) s)
            | Some bm \<Rightarrow>
                let ((i, _, bs), s) = read_bytes e (frag_len hdr) s;
                    frag = frag\<lparr>fragment := overwrite (frag_off hdr) bs (fragment frag)\<rparr>
                in if i \<le> 0 \<or> length bs \<noteq> frag_len hdr then
                     Some (- 1, case item of None \<Rightarrow> s | Some p \<Rightarrow> queue_put p frag s)
                   else
                     let bm = RSMBLY_BITMASK_MARK bm (frag_off hdr) (frag_off hdr + frag_len hdr);
                         frag = frag\<lparr>reassembly := (if RSMBLY_BITMASK_IS_COMPLETE bm (msg_len hdr) then None else Some bm)\<rparr>
                     in case item of
                          Some p \<Rightarrow> Some (DTLS1_HM_FRAGMENT_RETRY, queue_put p frag s)
                        | None \<Rightarrow>
                           let (ok, s) = queue_new e (hm_seq hdr) frag s
                           in Some (if ok then DTLS1_HM_FRAGMENT_RETRY else - 1, s)))"

text \<open>A whole message that arrives ahead of its turn.\<close>

definition buffer_future_message :: "'w env \<Rightarrow> msg_hdr \<Rightarrow> 'w ssl \<Rightarrow> int \<times> 'w ssl" where
  "buffer_future_message e hdr s =
     (if frag_len hdr > dtls1_max_handshake_message_len s then (0, s)
      else case dtls1_hm_fragment_new (heap e) (frag_len hdr) False of None \<Rightarrow> (0, s)
      | Some frag \<Rightarrow>
         let frag = frag\<lparr>msg_header := hdr\<rparr>;
             (ok, frag, s) =
               (if frag_len hdr > 0 then
                  let ((i, _, bs), s) = read_bytes e (frag_len hdr) s
                  in (\<not> (i \<le> 0 \<or> length bs \<noteq> frag_len hdr),
                      frag\<lparr>fragment := overwrite 0 bs (fragment frag)\<rparr>, s)
                else (True, frag, s))
         in if \<not> ok then (0, s)
            else let (ok, s) = queue_new e (hm_seq hdr) frag s
                 in (if ok then DTLS1_HM_FRAGMENT_RETRY else 0, s))"

definition dtls1_process_out_of_seq_message :: "'w env \<Rightarrow> msg_hdr \<Rightarrow> 'w ssl \<Rightarrow> (int \<times> 'w ssl) option" where
  "dtls1_process_out_of_seq_message e hdr s =
     (if frag_off hdr + frag_len hdr > msg_len hdr then Some (0, s)
      else
        let item = pqueue_find (buffered_messages (d1 s)) (seq64be (hm_seq hdr));
            item = (if item \<noteq> None \<and> frag_len hdr \<noteq> msg_len hdr then None else item);
            rseq = handshake_read_seq (d1 s)
        in if hm_seq hdr \<le> rseq \<or> hm_seq hdr > rseq + 10 \<or> item \<noteq> None \<or>
              rseq = 0 \<and> int (unat (hm_type hdr)) = SSL3_MT_FINISHED
           then map_option (\<lambda>(ok, s). (if ok then DTLS1_HM_FRAGMENT_RETRY else 0, s)) (discard e (frag_len hdr) s)
           else if frag_len hdr \<noteq> msg_len hdr then dtls1_reassemble_fragment e hdr s
           else Some (buffer_future_message e hdr s))"

subsection \<open>Reading a message\<close>

text \<open>The result, \<^verbatim>\<open>*errtype\<close> and \<^verbatim>\<open>*len\<close>.\<close>

type_synonym 'w reasm_result = "(bool \<times> int \<times> nat) \<times> 'w ssl"

definition reasm_fatal :: "'w env \<Rightarrow> int \<Rightarrow> ssl_reason \<Rightarrow> 'w ssl \<Rightarrow> 'w reasm_result" where
  "reasm_fatal e al reason s =
     ((False, 0, 0), (ossl_statem_fatal e al SSL_F_DTLS_GET_REASSEMBLED_MESSAGE reason s)\<lparr>init_num := 0\<rparr>)"

definition receive_ccs :: "'w env \<Rightarrow> byte list \<Rightarrow> 'w ssl \<Rightarrow> 'w reasm_result" where
  "receive_ccs e wire s =
     (if hd (wire @ [0]) \<noteq> SSL3_MT_CCS then reasm_fatal e SSL_AD_UNEXPECTED_MESSAGE SSL_R_BAD_CHANGE_CIPHER_SPEC s
      else
        let n = usub (length wire) 1; s = write_init_buf 0 wire s; s = s\<lparr>init_num := n, init_msg := 1\<rparr>
        in ((True, 0, n), upd_s3 (\<lambda>x. x\<lparr>message_type := SSL3_MT_CHANGE_CIPHER_SPEC, message_size := n\<rparr>) s))"

text \<open>A whole message in sequence: its body is read straight into \<^verbatim>\<open>s->init_buf\<close>.\<close>

definition receive_whole :: "'w env \<Rightarrow> msg_hdr \<Rightarrow> 'w ssl \<Rightarrow> 'w reasm_result" where
  "receive_whole e hdr s =
     (let (ok, s) = dtls1_preprocess_fragment e hdr s in
      if \<not> ok then ((False, 0, 0), s\<lparr>init_num := 0\<rparr>)
      else
        let ((i, _, bs), s) = (if frag_len hdr > 0 then read_bytes e (frag_len hdr) s else ((1, 0, []), s));
            s = write_init_buf (DTLS1_HM_HEADER_LENGTH + frag_off hdr) bs s
        in if frag_len hdr > 0 \<and> i \<le> 0 then ((False, 0, 0), s\<lparr>rwstate := SSL_READING\<rparr>)
           else if length bs \<noteq> frag_len hdr then reasm_fatal e SSL_AD_ILLEGAL_PARAMETER SSL_R_BAD_LENGTH s
           else ((True, 0, frag_len hdr), s\<lparr>init_num := frag_len hdr\<rparr>))"

definition hello_request_expected :: "byte list \<Rightarrow> 'w ssl \<Rightarrow> bool" where
  "hello_request_expected wire s \<longleftrightarrow>
     \<not> server s \<and> frag_off (r_msg_hdr (d1 s)) = 0 \<and> hand_state (statem s) \<noteq> TLS_ST_OK \<and>
     int (unat (wire ! 0)) = SSL3_MT_HELLO_REQUEST"

text \<open>A fragment whose header has been read.  \<open>Inr\<close> is the jump back to \<^verbatim>\<open>redo:\<close> after a HelloRequest.\<close>

definition handle_fragment :: "'w env \<Rightarrow> byte list \<Rightarrow> 'w ssl \<Rightarrow> ('w reasm_result + 'w ssl) option" where
  "handle_fragment e wire s =
     (let hdr = dtls1_get_message_header wire in
      if int (frag_len hdr) > query e RECORD_LAYER_get_rrec_length s
      then Some (Inl (reasm_fatal e SSL_AD_ILLEGAL_PARAMETER SSL_R_BAD_LENGTH s))
      else if hm_seq hdr \<noteq> handshake_read_seq (d1 s)
      then map_option (\<lambda>(err, s). Inl ((False, err, 0), s)) (dtls1_process_out_of_seq_message e hdr s)
      else if frag_len hdr \<noteq> 0 \<and> frag_len hdr < msg_len hdr
      then map_option (\<lambda>(err, s). Inl ((False, err, 0), s)) (dtls1_reassemble_fragment e hdr s)
      else if hello_request_expected wire s then
        (if wire ! 1 = 0 \<and> wire ! 2 = 0 \<and> wire ! 3 = 0 then
           let s = (if query e has_msg_callback s \<noteq> 0
                    then snd (do_io e (msg_callback_in SSL3_RT_HANDSHAKE wire) s) else s)
           in Some (Inr (s\<lparr>init_num := 0\<rparr>))
         else Some (Inl (reasm_fatal e SSL_AD_UNEXPECTED_MESSAGE SSL_R_UNEXPECTED_MESSAGE s)))
      else Some (Inl (receive_whole e hdr s)))"

definition redo_iteration :: "'w env \<Rightarrow> 'w ssl \<Rightarrow> ('w reasm_result + 'w ssl) option" where
  "redo_iteration e s =
     (case dtls1_retrieve_buffered_fragment e s of (ret, len, s) \<Rightarrow>
      if ret < 0 then Some (Inl ((False, 0, 0), s))
      else if ret > 0 then Some (Inl ((True, 0, len), s\<lparr>init_num := len\<rparr>))
      else (case read_bytes e DTLS1_HM_HEADER_LENGTH s of ((i, recvd_type, wire), s) \<Rightarrow>
        if i \<le> 0 then Some (Inl ((False, 0, 0), s\<lparr>rwstate := SSL_READING\<rparr>))
        else if recvd_type = SSL3_RT_CHANGE_CIPHER_SPEC then Some (Inl (receive_ccs e wire s))
        else if length wire \<noteq> DTLS1_HM_HEADER_LENGTH
        then Some (Inl (reasm_fatal e SSL_AD_UNEXPECTED_MESSAGE SSL_R_UNEXPECTED_MESSAGE s))
        else handle_fragment e wire s))"

partial_function (option) dtls_get_reassembled_message :: "'w env \<Rightarrow> 'w ssl \<Rightarrow> 'w reasm_result option" where
  "dtls_get_reassembled_message e s =
     (case redo_iteration e s of None \<Rightarrow> None
      | Some (Inl r) \<Rightarrow> Some r
      | Some (Inr s) \<Rightarrow> dtls_get_reassembled_message e s)"

text \<open>The end of \<^verbatim>\<open>dtls_get_message\<close>: the header is put in front of the body as if the message had come in
  one fragment, and the message enters the transcript.\<close>

definition deliver_message :: "'w env \<Rightarrow> int \<Rightarrow> nat \<Rightarrow> 'w ssl \<Rightarrow> (int \<times> int \<times> nat) \<times> 'w ssl" where
  "deliver_message e mt len s =
     (let hdr = r_msg_hdr (d1 s); n = msg_len hdr;
          s = write_init_buf 0 (dtls1_write_message_header (hdr\<lparr>frag_off := 0, frag_len := n\<rparr>)) s;
          (off, mac_len) = (if version s \<noteq> DTLS1_BAD_VER then (0, n + DTLS1_HM_HEADER_LENGTH)
                            else (DTLS1_HM_HEADER_LENGTH, n));
          (r, s) = (if mt = SSL3_MT_FINISHED then call e ssl3_take_mac s else (1, s))
      in if r = 0 then ((0, mt, len), s)
         else
           let (r, s) = call e (ssl3_finish_mac (init_bytes off mac_len s)) s in
           if r = 0 then ((0, mt, len), s)
           else
             let s = (if query e has_msg_callback s \<noteq> 0
                      then snd (do_io e (msg_callback_in SSL3_RT_HANDSHAKE (init_bytes off mac_len s)) s) else s);
                 s = upd_d1 (\<lambda>d. d\<lparr>r_msg_hdr := hm_header_zero,
                                  handshake_read_seq := (handshake_read_seq d + 1) mod 2 ^ 16\<rparr>) s
             in ((1, mt, len), s\<lparr>init_msg := DTLS1_HM_HEADER_LENGTH\<rparr>))"

partial_function (option) get_message_again :: "'w env \<Rightarrow> 'w ssl \<Rightarrow> ((int \<times> int \<times> nat) \<times> 'w ssl) option" where
  "get_message_again e s =
     (case dtls_get_reassembled_message e s of None \<Rightarrow> None
      | Some ((ret, errtype, _), s) \<Rightarrow>
         if \<not> ret then
           (if errtype = DTLS1_HM_BAD_FRAGMENT \<or> errtype = DTLS1_HM_FRAGMENT_RETRY
            then get_message_again e s else Some ((0, 0, 0), s))
         else
           let mt = message_type (s3 s); len = init_num s in
           if mt = SSL3_MT_CHANGE_CIPHER_SPEC then
             Some ((1, mt, len),
                   if query e has_msg_callback s \<noteq> 0
                   then snd (do_io e (msg_callback_in SSL3_RT_CHANGE_CIPHER_SPEC (init_bytes 0 1 s)) s) else s)
           else Some (deliver_message e mt len s))"

definition dtls_get_message :: "'w env \<Rightarrow> 'w ssl \<Rightarrow> ((int \<times> int \<times> nat) \<times> 'w ssl) option" where
  "dtls_get_message e s = get_message_again e (upd_d1 (\<lambda>d. d\<lparr>r_msg_hdr := hm_header_zero\<rparr>) s)"

end
