(* ===== verification/Dtls_Send.thy ===== *)
theory Dtls_Send
  imports Dtls_Recv Wpacket
begin

unbundle bit_operations_syntax

section \<open>Sending and retransmitting DTLS handshake messages\<close>

text \<open>
  Model of the sending half of \<^verbatim>\<open>ssl/statem/statem_dtls.c\<close> and of the MTU and time-out functions of
  \<^verbatim>\<open>ssl/d1_lib.c\<close>.  A message in \<^verbatim>\<open>s->init_buf\<close> is written in fragments that fit the MTU; the header of each
  fragment is built in the buffer itself, over bytes that have already been sent.  Sent messages are
  kept in the queue \<open>sent_messages\<close> with the write state they were sent in.
\<close>

subsection \<open>Path MTU\<close>

definition g_probable_mtu :: "nat list" where
  "g_probable_mtu = [1500, 512, 256]"

definition dtls1_link_min_mtu :: nat where
  "dtls1_link_min_mtu = g_probable_mtu ! (length g_probable_mtu - 1)"

text \<open>An \<^verbatim>\<open>int\<close> or a \<^verbatim>\<open>long\<close> converted to \<^verbatim>\<open>size_t\<close>.\<close>

definition size_of_int :: "int \<Rightarrow> nat" where
  "size_of_int i = nat (i mod 2 ^ 64)"

abbreviation mtu_overhead :: "'w env \<Rightarrow> 'w ssl \<Rightarrow> nat" where
  "mtu_overhead e s \<equiv> size_of_int (query e BIO_dgram_get_mtu_overhead s)"

definition dtls1_min_mtu :: "'w env \<Rightarrow> 'w ssl \<Rightarrow> nat" where
  "dtls1_min_mtu e s = usub dtls1_link_min_mtu (mtu_overhead e s)"

abbreviation set_mtu :: "nat \<Rightarrow> 'w ssl \<Rightarrow> 'w ssl" where
  "set_mtu m s \<equiv> upd_d1 (\<lambda>d. d\<lparr>mtu := m\<rparr>) s"

definition dtls1_query_mtu :: "'w env \<Rightarrow> 'w ssl \<Rightarrow> bool \<times> 'w ssl" where
  "dtls1_query_mtu e s =
     (let s = (if link_mtu (d1 s) \<noteq> 0
               then upd_d1 (\<lambda>d. d\<lparr>mtu := usub (link_mtu d) (mtu_overhead e s), link_mtu := 0\<rparr>) s else s)
      in if mtu (d1 s) < dtls1_min_mtu e s then
           (if \<not> flag (options s) SSL_OP_NO_QUERY_MTU then
              let (m, s) = do_io e BIO_dgram_query_mtu s;
                  s = set_mtu (size_of_int m) s
              in if mtu (d1 s) < dtls1_min_mtu e s then
                   let s = set_mtu (dtls1_min_mtu e s) s
                   in (True, snd (do_io e (BIO_dgram_set_mtu (mtu (d1 s))) s))
                 else (True, s)
            else (False, s))
         else (True, s))"

subsection \<open>Message headers\<close>

definition dtls1_set_message_header_int :: "byte \<Rightarrow> nat \<Rightarrow> nat \<Rightarrow> nat \<Rightarrow> nat \<Rightarrow> 'w ssl \<Rightarrow> 'w ssl" where
  "dtls1_set_message_header_int mt len seq_num off flen s =
     upd_d1 (\<lambda>d. d\<lparr>w_msg_hdr := (w_msg_hdr d)\<lparr>hm_type := mt, msg_len := len, hm_seq := seq_num, frag_off := off,
                                              frag_len := flen\<rparr>\<rparr>) s"

definition dtls1_set_message_header :: "byte \<Rightarrow> nat \<Rightarrow> nat \<Rightarrow> nat \<Rightarrow> 'w ssl \<Rightarrow> 'w ssl" where
  "dtls1_set_message_header mt len off flen s =
     (let s = (if off = 0 then
                 upd_d1 (\<lambda>d. d\<lparr>handshake_write_seq := next_handshake_write_seq d,
                               next_handshake_write_seq := (next_handshake_write_seq d + 1) mod 2 ^ 16\<rparr>) s
               else s)
      in dtls1_set_message_header_int mt len (handshake_write_seq (d1 s)) off flen s)"

definition dtls1_fix_message_header :: "nat \<Rightarrow> nat \<Rightarrow> 'w ssl \<Rightarrow> 'w ssl" where
  "dtls1_fix_message_header off flen s =
     upd_d1 (\<lambda>d. d\<lparr>w_msg_hdr := (w_msg_hdr d)\<lparr>frag_off := off, frag_len := flen\<rparr>\<rparr>) s"

subsection \<open>Writing a message\<close>

abbreviation upd_wside :: "(write_side \<Rightarrow> write_side) \<Rightarrow> 'w ssl \<Rightarrow> 'w ssl" where
  "upd_wside f s \<equiv> s\<lparr>wside := f (wside s)\<rparr>"

abbreviation set_init_off :: "nat \<Rightarrow> 'w ssl \<Rightarrow> 'w ssl" where
  "set_init_off n s \<equiv> upd_wside (\<lambda>w. w\<lparr>init_off := n\<rparr>) s"

abbreviation woff :: "'w ssl \<Rightarrow> nat" where
  "woff s \<equiv> init_off (wside s)"

text \<open>The bytes that protection adds to a record: the MAC and two cipher blocks.\<close>

definition record_overhead :: "'w env \<Rightarrow> 'w ssl \<Rightarrow> nat" where
  "record_overhead e s =
     (let ctx = (enc_write_ctx (wside s) \<noteq> None);
          mac_size = (if write_hash (wside s) \<noteq> None then
                        (if ctx \<and> query e cipher_is_aead s \<noteq> 0 then 0 else size_of_int (query e mac_size_of_write_hash s))
                      else 0);
          blocksize = (if ctx \<and> query e cipher_is_cbc s \<noteq> 0 then size_of_int (2 * query e cipher_block_size s) else 0)
      in uadd mac_size blocksize)"

text \<open>Room for the header of a fragment that is not the first; \<open>None\<close> is the error exit.\<close>

definition make_room :: "int \<Rightarrow> nat \<Rightarrow> 'w ssl \<Rightarrow> (nat \<times> 'w ssl) option" where
  "make_room typ off s =
     (if typ = SSL3_RT_HANDSHAKE \<and> woff s \<noteq> 0 then
        (if off > 0 then
           (if woff s \<le> DTLS1_HM_HEADER_LENGTH then None
            else Some (off, (set_init_off (woff s - DTLS1_HM_HEADER_LENGTH) s)
                              \<lparr>init_num := init_num s + DTLS1_HM_HEADER_LENGTH\<rparr>))
         else Some (frag_off (w_msg_hdr (d1 s)), s))
      else Some (off, s))"

text \<open>The room left in the datagram, flushing it first when a header does not fit.  \<open>Inl\<close> is an early return.\<close>

definition room_in_datagram :: "'w env \<Rightarrow> nat \<Rightarrow> 'w ssl \<Rightarrow> (int + nat) \<times> 'w ssl" where
  "room_in_datagram e overhead s =
     (let used_len = uadd (uadd (size_of_int (query e BIO_wpending s)) DTLS1_RT_HEADER_LENGTH) overhead;
          curr_mtu = (if mtu (d1 s) > used_len then mtu (d1 s) - used_len else 0)
      in if curr_mtu \<le> DTLS1_HM_HEADER_LENGTH then
           let (ret, s) = do_io e BIO_flush s in
           if ret \<le> 0 then (Inl ret, s\<lparr>rwstate := SSL_WRITING\<rparr>)
           else
             let used_len = uadd DTLS1_RT_HEADER_LENGTH overhead in
             if mtu (d1 s) > uadd used_len DTLS1_HM_HEADER_LENGTH then (Inr (mtu (d1 s) - used_len), s)
             else (Inl (- 1), s)
         else (Inr curr_mtu, s))"

text \<open>The part of the message that this fragment adds to the transcript.\<close>

definition hash_fragment :: "'w env \<Rightarrow> int \<Rightarrow> nat \<Rightarrow> nat \<Rightarrow> 'w ssl \<Rightarrow> bool \<times> 'w ssl" where
  "hash_fragment e typ off written s =
     (if typ = SSL3_RT_HANDSHAKE \<and> \<not> retransmitting (d1 s) then
        let hdr = w_msg_hdr (d1 s);
            (s, bs) =
              (if off = 0 \<and> version s \<noteq> DTLS1_BAD_VER then
                 let s = write_init_buf (woff s)
                           (dtls1_write_message_header (hdr\<lparr>frag_off := 0, frag_len := msg_len hdr\<rparr>)) s
                 in (s, init_bytes (woff s) written s)
               else (s, init_bytes (woff s + DTLS1_HM_HEADER_LENGTH) (usub written DTLS1_HM_HEADER_LENGTH) s));
            (r, s) = call e (ssl3_finish_mac bs) s
        in (r \<noteq> 0, s)
      else (True, s))"

text \<open>What follows a fragment that was written: \<open>Inl\<close> is the result, \<open>Inr\<close> goes on with the next one.\<close>

definition after_write :: "'w env \<Rightarrow> int \<Rightarrow> nat \<Rightarrow> bool \<Rightarrow> nat \<Rightarrow> nat \<Rightarrow> 'w ssl \<Rightarrow> (int + nat \<times> bool) \<times> 'w ssl" where
  "after_write e typ off retry len written s =
     (if len \<noteq> written then (Inl (- 1), s)
      else
        let (ok, s) = hash_fragment e typ off written s in
        if \<not> ok then (Inl (- 1), s)
        else if written = init_num s then
          let s = (if query e has_msg_callback s \<noteq> 0
                   then snd (do_io e (msg_callback typ (init_bytes 0 (woff s + init_num s) s)) s) else s)
          in (Inl 1, (set_init_off 0 s)\<lparr>init_num := 0\<rparr>)
        else
          let s = (set_init_off (woff s + written) s)\<lparr>init_num := init_num s - written\<rparr>;
              off = uadd off (usub written DTLS1_HM_HEADER_LENGTH)
          in (Inr (off, retry), dtls1_fix_message_header off 0 s))"

definition write_failed :: "'w env \<Rightarrow> nat \<Rightarrow> bool \<Rightarrow> 'w ssl \<Rightarrow> (int + nat \<times> bool) \<times> 'w ssl" where
  "write_failed e off retry s =
     (if retry then
        let (r, s) = do_io e BIO_dgram_mtu_exceeded s in
        if r > 0 then
          (if \<not> flag (options s) SSL_OP_NO_QUERY_MTU then
             let (ok, s) = dtls1_query_mtu e s in if ok then (Inr (off, False), s) else (Inl (- 1), s)
           else (Inl (- 1), s))
        else (Inl (- 1), s)
      else (Inl (- 1), s))"

text \<open>The length of the record.\<close>

definition fragment_len :: "nat \<Rightarrow> 'w ssl \<Rightarrow> nat" where
  "fragment_len curr_mtu s =
     (let len = (if init_num s mod 2 ^ 32 > curr_mtu then curr_mtu else init_num s)
      in if len > max_send_fragment (wside s) then max_send_fragment (wside s) else len)"

definition put_fragment :: "'w env \<Rightarrow> int \<Rightarrow> nat \<Rightarrow> bool \<Rightarrow> nat \<Rightarrow> 'w ssl \<Rightarrow> (int + nat \<times> bool) \<times> 'w ssl" where
  "put_fragment e typ off retry len s =
     (if typ = SSL3_RT_HANDSHAKE \<and> len < DTLS1_HM_HEADER_LENGTH then (Inl (- 1), s)
      else
        let s = (if typ = SSL3_RT_HANDSHAKE then
                   let s = dtls1_fix_message_header off (len - DTLS1_HM_HEADER_LENGTH) s
                   in write_init_buf (woff s) (dtls1_write_message_header (w_msg_hdr (d1 s))) s
                 else s);
            ((ret, written), s) = write_bytes e typ (init_bytes (woff s) len s) s
        in if ret < 0 then write_failed e off retry s
           else after_write e typ off retry len written s)"

text \<open>An iteration of the loop.\<close>

definition write_fragment :: "'w env \<Rightarrow> int \<Rightarrow> nat \<Rightarrow> nat \<Rightarrow> bool \<Rightarrow> 'w ssl \<Rightarrow> (int + nat \<times> bool) \<times> 'w ssl" where
  "write_fragment e typ overhead off retry s =
     (case make_room typ off s of None \<Rightarrow> (Inl (- 1), s)
      | Some (off, s) \<Rightarrow>
         let (room, s) = room_in_datagram e overhead s in
         case room of Inl ret \<Rightarrow> (Inl ret, s)
         | Inr curr_mtu \<Rightarrow> put_fragment e typ off retry (fragment_len curr_mtu s) s)"

partial_function (option) do_write_loop ::
  "'w env \<Rightarrow> int \<Rightarrow> nat \<Rightarrow> nat \<Rightarrow> bool \<Rightarrow> 'w ssl \<Rightarrow> (int \<times> 'w ssl) option" where
  "do_write_loop e typ overhead off retry s =
     (if init_num s = 0 then Some (0, s)
      else case write_fragment e typ overhead off retry s of
             (Inl ret, s) \<Rightarrow> Some (ret, s)
           | (Inr (off, retry), s) \<Rightarrow> do_write_loop e typ overhead off retry s)"

definition dtls1_do_write :: "'w env \<Rightarrow> int \<Rightarrow> 'w ssl \<Rightarrow> (int \<times> 'w ssl) option" where
  "dtls1_do_write e typ s =
     (let (ok, s) = dtls1_query_mtu e s in
      if \<not> ok then Some (- 1, s)
      else if mtu (d1 s) < dtls1_min_mtu e s then Some (- 1, s)
      else if woff s = 0 \<and> typ = SSL3_RT_HANDSHAKE \<and>
              init_num s \<noteq> msg_len (w_msg_hdr (d1 s)) + DTLS1_HM_HEADER_LENGTH then Some (- 1, s)
      else do_write_loop e typ (record_overhead e s) 0 True (s\<lparr>rwstate := SSL_NOTHING\<rparr>))"

subsection \<open>Retransmission\<close>

definition dtls1_get_queue_priority :: "nat \<Rightarrow> bool \<Rightarrow> int" where
  "dtls1_get_queue_priority sq ccs = int sq * 2 - (if ccs then 1 else 0)"

definition prio64be :: "int \<Rightarrow> byte list" where
  "prio64be p = replicate 6 0 @ [word_of_int (drop_bit 8 p), word_of_int p]"

definition current_write_state :: "'w ssl \<Rightarrow> retransmit_state" where
  "current_write_state s =
     \<lparr>rs_enc_write_ctx = enc_write_ctx (wside s), rs_write_hash = write_hash (wside s),
      rs_compress = compress (wside s), rs_session_set = session_set s, rs_session = session s,
      rs_epoch = w_epoch (wside s)\<rparr>"

definition dtls1_buffer_message :: "'w env \<Rightarrow> bool \<Rightarrow> 'w ssl \<Rightarrow> bool \<times> 'w ssl" where
  "dtls1_buffer_message e ccs s =
     (if woff s \<noteq> 0 then (False, s)
      else case dtls1_hm_fragment_new (heap e) (init_num s) False of None \<Rightarrow> (False, s)
      | Some frag \<Rightarrow>
         let frag = frag\<lparr>fragment := overwrite 0 (init_bytes 0 (init_num s) s) (fragment frag)\<rparr>;
             whdr = w_msg_hdr (d1 s);
             hlen = (if ccs then (if version s = DTLS1_BAD_VER then 3 else DTLS1_CCS_HEADER_LENGTH)
                     else DTLS1_HM_HEADER_LENGTH)
         in if uadd (msg_len whdr) hlen \<noteq> init_num s mod 2 ^ 32 then (False, s)
            else
              let hdr = \<lparr>hm_type = hm_type whdr, msg_len = msg_len whdr, hm_seq = hm_seq whdr, frag_off = 0,
                         frag_len = msg_len whdr, is_ccs = ccs,
                         saved_retransmit_state = Some (current_write_state s)\<rparr>
              in case pitem_new (prio64be (dtls1_get_queue_priority (hm_seq whdr) ccs)) (frag\<lparr>msg_header := hdr\<rparr>)
                        (heap e SIZEOF_PITEM \<noteq> None) of
                   None \<Rightarrow> (False, s)
                 | Some item \<Rightarrow>
                    (True, upd_d1 (\<lambda>d. d\<lparr>sent_messages := snd (pqueue_insert (sent_messages d) item)\<rparr>) s))"

definition DTLS_RECORD_LAYER_set_saved_w_epoch :: "nat \<Rightarrow> write_side \<Rightarrow> write_side" where
  "DTLS_RECORD_LAYER_set_saved_w_epoch ep w =
     (let w = (if int ep = int (w_epoch w) - 1 then
                 w\<lparr>curr_write_sequence := write_sequence w, write_sequence := last_write_sequence w\<rparr>
               else if ep = w_epoch w + 1 then
                 w\<lparr>last_write_sequence := write_sequence w, write_sequence := curr_write_sequence w\<rparr>
               else w)
      in w\<lparr>w_epoch := ep\<rparr>)"

definition set_write_state :: "retransmit_state \<Rightarrow> 'w ssl \<Rightarrow> 'w ssl" where
  "set_write_state r s =
     s\<lparr>wside := DTLS_RECORD_LAYER_set_saved_w_epoch (rs_epoch r)
                  ((wside s)\<lparr>enc_write_ctx := rs_enc_write_ctx r, write_hash := rs_write_hash r, compress := rs_compress r\<rparr>),
       session_set := rs_session_set r, session := rs_session r\<rparr>"

text \<open>The all-zero state, with no session.\<close>

definition zero_write_state :: "ssl_session \<Rightarrow> retransmit_state" where
  "zero_write_state x = \<lparr>rs_enc_write_ctx = None, rs_write_hash = None, rs_compress = None, rs_session_set = False,
                         rs_session = x, rs_epoch = 0\<rparr>"

text \<open>The result and \<^verbatim>\<open>*found\<close>.\<close>

definition dtls1_retransmit_message :: "'w env \<Rightarrow> nat \<Rightarrow> 'w ssl \<Rightarrow> ((int \<times> bool) \<times> 'w ssl) option" where
  "dtls1_retransmit_message e sq s =
     (case pqueue_find (sent_messages (d1 s)) (seq64be sq) of
        None \<Rightarrow> Some ((0, False), ossl_statem_fatal e SSL_AD_INTERNAL_ERROR SSL_F_DTLS1_RETRANSMIT_MESSAGE
                                   ERR_R_INTERNAL_ERROR s)
      | Some p \<Rightarrow>
         let frag = item_data (sent_messages (d1 s) ! p); hdr = msg_header frag;
             header_length = (if is_ccs hdr then DTLS1_CCS_HEADER_LENGTH else DTLS1_HM_HEADER_LENGTH);
             s = write_init_buf 0 (take (msg_len hdr + header_length) (fragment frag)) s;
             s = s\<lparr>init_num := msg_len hdr + header_length\<rparr>;
             s = dtls1_set_message_header_int (hm_type hdr) (msg_len hdr) (hm_seq hdr) 0 (frag_len hdr) s;
             saved_state = current_write_state s;
             s = upd_d1 (\<lambda>d. d\<lparr>retransmitting := True\<rparr>) s;
             s = set_write_state (case saved_retransmit_state hdr of None \<Rightarrow> zero_write_state (session s) | Some r \<Rightarrow> r) s
         in case dtls1_do_write e (if is_ccs hdr then SSL3_RT_CHANGE_CIPHER_SPEC else SSL3_RT_HANDSHAKE) s of
              None \<Rightarrow> None
            | Some (ret, s) \<Rightarrow>
               let s = set_write_state saved_state s;
                   s = upd_d1 (\<lambda>d. d\<lparr>retransmitting := False\<rparr>) s
               in Some ((ret, True), snd (do_io e BIO_flush s)))"

fun retransmit_all :: "'w env \<Rightarrow> msg_frag pitem list \<Rightarrow> 'w ssl \<Rightarrow> (int \<times> 'w ssl) option" where
  "retransmit_all e [] s = Some (1, s)"
| "retransmit_all e (item # iter) s =
     (let hdr = msg_header (item_data item)
      in case dtls1_retransmit_message e (nat (dtls1_get_queue_priority (hm_seq hdr) (is_ccs hdr) mod 2 ^ 16)) s of
           None \<Rightarrow> None
         | Some ((r, _), s) \<Rightarrow> if r \<le> 0 then Some (- 1, s) else retransmit_all e iter s)"

definition dtls1_retransmit_buffered_messages :: "'w env \<Rightarrow> 'w ssl \<Rightarrow> (int \<times> 'w ssl) option" where
  "dtls1_retransmit_buffered_messages e s = retransmit_all e (pqueue_iterator (sent_messages (d1 s))) s"

subsection \<open>Time-outs\<close>

definition dtls1_check_timeout_num :: "'w env \<Rightarrow> 'w ssl \<Rightarrow> int \<times> 'w ssl" where
  "dtls1_check_timeout_num e s =
     (let s = upd_d1 (\<lambda>d. d\<lparr>num_alerts := (num_alerts d + 1) mod 2 ^ 32\<rparr>) s;
          s = (if num_alerts (d1 s) > 2 \<and> \<not> flag (options s) SSL_OP_NO_QUERY_MTU then
                 let (m, s) = do_io e BIO_dgram_get_fallback_mtu s; m = size_of_int m
                 in if m < mtu (d1 s) then set_mtu m s else s
               else s)
      in if num_alerts (d1 s) > DTLS1_TMO_ALERT_COUNT then
           (- 1, ossl_statem_fatal e SSL_AD_NO_ALERT SSL_F_DTLS1_CHECK_TIMEOUT_NUM SSL_R_READ_TIMEOUT_EXPIRED s)
         else (0, s))"

definition dtls1_handle_timeout :: "'w env \<Rightarrow> 'w ssl \<Rightarrow> (int \<times> 'w ssl) option" where
  "dtls1_handle_timeout e s =
     (let (expired, s) = dtls1_is_timer_expired e s in
      if \<not> expired then Some (0, s)
      else
        let s = (if has_timer_cb (d1 s) then run_timer_cb e (timeout_duration_us (d1 s)) s
                 else dtls1_double_timeout e s);
            (r, s) = dtls1_check_timeout_num e s
        in if r < 0 then Some (- 1, s)
           else
             let s = upd_d1 (\<lambda>d. d\<lparr>read_timeouts := (let n = (read_timeouts d + 1) mod 2 ^ 32
                                                     in if n > DTLS1_TMO_READ_COUNT then 1 else n)\<rparr>) s
             in dtls1_retransmit_buffered_messages e (dtls1_start_timer e s))"

definition dtls1_read_failed :: "'w env \<Rightarrow> int \<Rightarrow> 'w ssl \<Rightarrow> (int \<times> 'w ssl) option" where
  "dtls1_read_failed e code s =
     (if code > 0 then
        Some (0, ossl_statem_fatal e SSL_AD_INTERNAL_ERROR SSL_F_DTLS1_READ_FAILED ERR_R_INTERNAL_ERROR s)
      else
        let (expired, s) = dtls1_is_timer_expired e s in
        if \<not> expired \<or> ossl_statem_in_error s then Some (code, s)
        else if \<not> SSL_in_init s then Some (code, snd (do_io e BIO_set_flags_read s))
        else dtls1_handle_timeout e s)"

subsection \<open>Construction of messages\<close>

text \<open>\<open>ok\<close> is the outcome of the allocation of the sub-packet's record.\<close>

definition dtls1_set_handshake_header ::
  "'w env \<Rightarrow> bool \<Rightarrow> int \<Rightarrow> wpacket \<Rightarrow> 'w ssl \<Rightarrow> ((unit option \<times> wpacket) \<times> 'w ssl) outcome" where
  "dtls1_set_handshake_header e ok htype pkt s =
     (if htype = SSL3_MT_CHANGE_CIPHER_SPEC then
        let s = upd_d1 (\<lambda>d. d\<lparr>handshake_write_seq := next_handshake_write_seq d\<rparr>) s;
            s = dtls1_set_message_header_int SSL3_MT_CCS 0 (handshake_write_seq (d1 s)) 0 0 s
        in and_then (WPACKET_put_bytes (heap e) pkt (ucast SSL3_MT_CCS) 1) (\<lambda>r. Done (r, s))
      else
        let s = dtls1_set_message_header (word_of_int htype) 0 0 0 s
        in and_then (wthen (WPACKET_allocate_bytes (heap e) pkt DTLS1_HM_HEADER_LENGTH)
                           (\<lambda>_ pkt. WPACKET_start_sub_packet (heap e) ok pkt))
                    (\<lambda>r. Done (r, s)))"

text \<open>\<^verbatim>\<open>init_num\<close> and \<^verbatim>\<open>init_off\<close> describe the serialized message, which is still in \<^verbatim>\<open>s->init_buf\<close>.\<close>

definition dtls1_close_construct_packet ::
  "'w env \<Rightarrow> int \<Rightarrow> wpacket \<Rightarrow> 'w ssl \<Rightarrow> ((unit option \<times> wpacket) \<times> 'w ssl) outcome" where
  "dtls1_close_construct_packet e htype pkt s =
     and_then (wthen (if htype \<noteq> SSL3_MT_CHANGE_CIPHER_SPEC then WPACKET_close pkt else Done (Some (), pkt))
                     (\<lambda>_ pkt. WPACKET_get_length pkt)) (\<lambda>(r, pkt).
       case r of None \<Rightarrow> Done ((None, pkt), s)
       | Some msglen \<Rightarrow>
          if msglen > INT_MAX then Done ((None, pkt), s)
          else
            let s = (if htype \<noteq> SSL3_MT_CHANGE_CIPHER_SPEC then
                       upd_d1 (\<lambda>d. d\<lparr>w_msg_hdr := (w_msg_hdr d)\<lparr>msg_len := usub msglen DTLS1_HM_HEADER_LENGTH,
                                                              frag_len := usub msglen DTLS1_HM_HEADER_LENGTH\<rparr>\<rparr>) s
                     else s);
                s = (set_init_off 0 s)\<lparr>init_num := msglen\<rparr>
            in if htype \<noteq> DTLS1_MT_HELLO_VERIFY_REQUEST then
                 let (ok, s) = dtls1_buffer_message e (htype = SSL3_MT_CHANGE_CIPHER_SPEC) s
                 in Done ((if ok then Some () else None, pkt), s)
               else Done ((Some (), pkt), s))"

text \<open>The body of a ChangeCipherSpec message.\<close>

definition dtls_construct_ccs ::
  "'w env \<Rightarrow> wpacket \<Rightarrow> 'w ssl \<Rightarrow> ((unit option \<times> wpacket) \<times> 'w ssl) outcome" where
  "dtls_construct_ccs e pkt s =
     (if version s = DTLS1_BAD_VER then
        let s = upd_d1 (\<lambda>d. d\<lparr>next_handshake_write_seq := (next_handshake_write_seq d + 1) mod 2 ^ 16\<rparr>) s
        in and_then (WPACKET_put_bytes (heap e) pkt (of_nat (handshake_write_seq (d1 s))) 2) (\<lambda>(r, pkt).
             Done ((r, pkt), if r = None then
                               ossl_statem_fatal e SSL_AD_INTERNAL_ERROR SSL_F_DTLS_CONSTRUCT_CHANGE_CIPHER_SPEC
                                 ERR_R_INTERNAL_ERROR s
                             else s))
      else Done ((Some (), pkt), s))"

end
