(* ===== verification/Dtls_Reasm.thy ===== *)
theory Dtls_Reasm
  imports Dtls_Recv
begin

section \<open>Reassembly of DTLS handshake messages\<close>

text \<open>
  The facts behind the properties of \<^verbatim>\<open>Dtls_Deliver\<close>.  A peer fixes the messages that are sent; the record
  layer delivers fragments of them in any order, any number of times, several to a record; the
  invariant \<open>queue_ok\<close> says that what is queued agrees with the peer's messages, and every operation
  that takes a fragment from the record layer keeps it and forgets nothing that was received.
\<close>

subsection \<open>What the peer sends and what the record layer delivers\<close>

text \<open>
  A peer is a function that gives every sequence number the type and the body of its message.  A frame
  is a fragment of one of its messages on the wire: it lies within the message, and it is empty only
  if the message is.
\<close>

type_synonym peer = "nat \<Rightarrow> byte \<times> byte list"

abbreviation body :: "peer \<Rightarrow> nat \<Rightarrow> byte list" where
  "body P n \<equiv> snd (P n)"

definition frame_header :: "peer \<Rightarrow> nat \<Rightarrow> nat \<Rightarrow> nat \<Rightarrow> msg_hdr" where
  "frame_header P n off len =
     hm_header_zero\<lparr>hm_type := fst (P n), msg_len := length (body P n), hm_seq := n, frag_off := off,
                    frag_len := len\<rparr>"

definition frame :: "peer \<Rightarrow> nat \<Rightarrow> nat \<Rightarrow> nat \<Rightarrow> byte list" where
  "frame P n off len = dtls1_write_message_header (frame_header P n off len) @ chunk off len (body P n)"

definition valid_frame :: "peer \<Rightarrow> nat \<Rightarrow> nat \<Rightarrow> nat \<Rightarrow> bool" where
  "valid_frame P n off len \<longleftrightarrow>
     n < 2 ^ 16 \<and> length (body P n) < 2 ^ 24 \<and> off + len \<le> length (body P n) \<and> (len = 0 \<longrightarrow> body P n = [])"

inductive framed :: "peer \<Rightarrow> byte list \<Rightarrow> bool" for P :: peer where
  framed_Nil: "framed P []"
| framed_Cons: "valid_frame P n off len \<Longrightarrow> framed P r \<Longrightarrow> framed P (frame P n off len @ r)"

text \<open>The part of the connection that the receiving code works on.\<close>

definition recv_view :: "'w ssl \<Rightarrow> d1_state \<times> buf_mem option \<times> nat \<times> bool \<times> ossl_handshake_state \<times> int" where
  "recv_view s = (d1 s, init_buf s, max_cert_list s, server s, hand_state (statem s), message_type (s3 s))"

text \<open>
  The record layer: \<open>unread w\<close> are the bytes of the current record that were not read yet.  A read
  leaves the view alone; while there are unread bytes it succeeds and takes them from the front; else,
  if it succeeds, it starts on a new record, which is a ChangeCipherSpec or a sequence of frames.
\<close>

definition transport :: "'w env \<Rightarrow> ('w \<Rightarrow> byte list) \<Rightarrow> peer \<Rightarrow> bool" where
  "transport e unread P \<longleftrightarrow>
     (\<forall>n s. recv_view (snd (read_bytes e n s)) = recv_view s) \<and>
     (\<forall>n s. unread (world s) \<noteq> [] \<longrightarrow> 0 < n \<longrightarrow>
        0 < fst (fst (read_bytes e n s)) \<and>
        snd (fst (read_bytes e n s)) = (SSL3_RT_HANDSHAKE, take n (unread (world s))) \<and>
        unread (world (snd (read_bytes e n s))) = drop n (unread (world s))) \<and>
     (\<forall>n s i rt bs s'. unread (world s) = [] \<longrightarrow> read_bytes e n s = ((i, rt, bs), s') \<longrightarrow> 0 < i \<longrightarrow>
        rt = SSL3_RT_CHANGE_CIPHER_SPEC \<and> length bs \<le> n \<and> unread (world s') = [] \<or>
        rt = SSL3_RT_HANDSHAKE \<and>
          (\<exists>r. r \<noteq> [] \<and> framed P r \<and> bs = take n r \<and> unread (world s') = drop n r)) \<and>
     (\<forall>s. query e RECORD_LAYER_get_rrec_length s = int (length (unread (world s)))) \<and>
     (\<forall>opn w. unread (snd (io e opn w)) = unread w) \<and>
     (\<forall>s. recv_view (snd (call e ssl3_take_mac s)) = recv_view s \<and>
          unread (world (snd (call e ssl3_take_mac s))) = unread (world s)) \<and>
     (\<forall>bs s. recv_view (snd (call e (ssl3_finish_mac bs) s)) = recv_view s \<and>
          unread (world (snd (call e (ssl3_finish_mac bs) s))) = unread (world s))"

lemma transportD:
  assumes "transport e unread P"
  shows "read_bytes e n s = (r, s') \<Longrightarrow> recv_view s' = recv_view s"
    "unread (world s) \<noteq> [] \<Longrightarrow> 0 < n \<Longrightarrow> \<exists>i s'. 0 < i \<and>
       read_bytes e n s = ((i, SSL3_RT_HANDSHAKE, take n (unread (world s))), s') \<and> unread (world s') = drop n (unread (world s)) \<and>
       recv_view s' = recv_view s"
    "unread (world s) = [] \<Longrightarrow> read_bytes e n s = ((i, rt, bs), s') \<Longrightarrow> 0 < i \<Longrightarrow>
        rt = SSL3_RT_CHANGE_CIPHER_SPEC \<and> length bs \<le> n \<and> unread (world s') = [] \<or>
        rt = SSL3_RT_HANDSHAKE \<and> (\<exists>r. r \<noteq> [] \<and> framed P r \<and> bs = take n r \<and> unread (world s') = drop n r)"
    "query e RECORD_LAYER_get_rrec_length s = int (length (unread (world s)))"
    "unread (snd (io e opn w)) = unread w"
    "call e ssl3_take_mac s = (j, s') \<Longrightarrow> recv_view s' = recv_view s \<and> unread (world s') = unread (world s)"
    "call e (ssl3_finish_mac bs) s = (j, s') \<Longrightarrow> recv_view s' = recv_view s \<and> unread (world s') = unread (world s)"
proof -
  note t = assms [unfolded transport_def]
  show "read_bytes e n s = (r, s') \<Longrightarrow> recv_view s' = recv_view s" using t by (metis snd_conv)
  show "unread (world s) \<noteq> [] \<Longrightarrow> 0 < n \<Longrightarrow> \<exists>i s'. 0 < i \<and>
       read_bytes e n s = ((i, SSL3_RT_HANDSHAKE, take n (unread (world s))), s') \<and> unread (world s') = drop n (unread (world s)) \<and>
       recv_view s' = recv_view s"
    using t by (metis prod.collapse)
  show "unread (world s) = [] \<Longrightarrow> read_bytes e n s = ((i, rt, bs), s') \<Longrightarrow> 0 < i \<Longrightarrow>
        rt = SSL3_RT_CHANGE_CIPHER_SPEC \<and> length bs \<le> n \<and> unread (world s') = [] \<or>
        rt = SSL3_RT_HANDSHAKE \<and> (\<exists>r. r \<noteq> [] \<and> framed P r \<and> bs = take n r \<and> unread (world s') = drop n r)"
    using t by blast
  show "query e RECORD_LAYER_get_rrec_length s = int (length (unread (world s)))" "unread (snd (io e opn w)) = unread w"
    using t by blast+
  show "call e ssl3_take_mac s = (j, s') \<Longrightarrow> recv_view s' = recv_view s \<and> unread (world s') = unread (world s)"
    "call e (ssl3_finish_mac bs) s = (j, s') \<Longrightarrow> recv_view s' = recv_view s \<and> unread (world s') = unread (world s)"
    using t by (metis snd_conv)+
qed

lemma frame_parse:
  assumes "valid_frame P n off len"
  shows "take 12 (frame P n off len @ r) = dtls1_write_message_header (frame_header P n off len)"
    and "dtls1_get_message_header (dtls1_write_message_header (frame_header P n off len)) = frame_header P n off len"
    and "drop 12 (frame P n off len @ r) = chunk off len (body P n) @ r"
    and "length (chunk off len (body P n)) = len"
proof -
  have "hm_header_ok (frame_header P n off len)"
    using assms by (auto simp: valid_frame_def hm_header_ok_def frame_header_def hm_header_zero_def)
  from get_write_message_header [OF this, of "[]"]
  show "dtls1_get_message_header (dtls1_write_message_header (frame_header P n off len)) = frame_header P n off len"
    by (simp add: frame_header_def hm_header_zero_def)
qed (use assms in \<open>auto simp: frame_def valid_frame_def\<close>)

lemma frame_header_simps [simp]:
  "hm_type (frame_header P n off len) = fst (P n)" "msg_len (frame_header P n off len) = length (body P n)"
  "hm_seq (frame_header P n off len) = n" "frag_off (frame_header P n off len) = off"
  "frag_len (frame_header P n off len) = len"
  by (simp_all add: frame_header_def)

lemma frame_header_update:
  "(frame_header P n off len)\<lparr>frag_len := l, frag_off := o'\<rparr> = frame_header P n o' l"
  by (simp add: frame_header_def hm_header_zero_def)

subsection \<open>The invariant of the received queue\<close>

text \<open>
  Every queued fragment belongs to a message of the peer.  A complete one holds its body; an
  incomplete one holds the bytes of the body at the offsets that are marked, and lacks at least one.
\<close>

definition partial_ok :: "byte list \<Rightarrow> byte list \<Rightarrow> byte list \<Rightarrow> bool" where
  "partial_ok bd bm buf \<longleftrightarrow>
     length buf = length bd \<and> bitmask_ok bm (length bd) \<and> (\<forall>i. marked bm i \<longrightarrow> buf ! i = bd ! i)"

definition frag_ok :: "peer \<Rightarrow> nat \<Rightarrow> msg_frag \<Rightarrow> bool" where
  "frag_ok P n f \<longleftrightarrow>
     msg_header f = frame_header P n 0 (length (body P n)) \<and>
     (case reassembly f of
        None \<Rightarrow> fragment f = body P n
      | Some bm \<Rightarrow> partial_ok (body P n) bm (fragment f) \<and> (\<exists>i < length (body P n). \<not> marked bm i))"

definition queue_ok :: "peer \<Rightarrow> msg_frag pqueue \<Rightarrow> bool" where
  "queue_ok P q \<longleftrightarrow> pqueue_wf q \<and> (\<forall>x \<in> set q. prio x < 2 ^ 16 \<and> frag_ok P (prio x) (item_data x))"

text \<open>The offsets of message \<open>n\<close> that have been received.\<close>

definition got :: "msg_frag pqueue \<Rightarrow> nat \<Rightarrow> nat set" where
  "got q n =
     (case pqueue_map q n of None \<Rightarrow> {}
      | Some f \<Rightarrow> (case reassembly f of None \<Rightarrow> {..<msg_len (msg_header f)} | Some bm \<Rightarrow> {i. marked bm i}))"

definition buffer_ok :: "'w ssl \<Rightarrow> bool" where
  "buffer_ok s \<longleftrightarrow> (\<exists>b. init_buf s = Some b \<and> buf_wf b \<and> 12 \<le> buf_max b)"

definition recv_ok :: "peer \<Rightarrow> 'w ssl \<Rightarrow> bool" where
  "recv_ok P s \<longleftrightarrow>
     queue_ok P (buffered_messages (d1 s)) \<and> handshake_read_seq (d1 s) < 2 ^ 16 \<and> buffer_ok s"

lemma queue_ok_map:
  assumes "queue_ok P q" and "pqueue_map q n = Some f"
  shows "n < 2 ^ 16" "frag_ok P n f"
proof -
  have "\<exists>x \<in> set q. prio x = n \<and> item_data x = f"
    using assms(2) unfolding pqueue_map_def by (force dest: map_of_SomeD)
  then show "n < 2 ^ 16" "frag_ok P n f" using assms(1) by (auto simp: queue_ok_def)
qed

lemma queue_ok_mapI:
  assumes "pqueue_wf q" and "\<And>n f. pqueue_map q n = Some f \<Longrightarrow> n < 2 ^ 16 \<and> frag_ok P n f"
  shows "queue_ok P q"
proof -
  have "distinct (map prio q)" using assms(1) by (simp add: pqueue_wf_def strict_sorted_iff)
  then have "pqueue_map q (prio x) = Some (item_data x)" if "x \<in> set q" for x
    using that unfolding pqueue_map_def by (intro map_of_is_SomeI) (auto simp: comp_def)
  then show ?thesis using assms by (auto simp: queue_ok_def)
qed

lemma seq64be_ok [simp]: "length (seq64be n) = 8" "n < 2 ^ 16 \<Longrightarrow> be_val (seq64be n) = n"
proof -
  have "seq64be n = replicate 6 0 @ be_bytes 2 n"
    by (simp add: seq64be_def drop_bit_eq_div)
  then show "length (seq64be n) = 8" "n < 2 ^ 16 \<Longrightarrow> be_val (seq64be n) = n"
    by (simp_all add: be_val_append del: be_bytes_numeral)
qed

lemma skip_stale_ok:
  assumes "queue_ok P q"
  shows "queue_ok P (skip_stale n q) \<and> (\<forall>x \<in> set (skip_stale n q). n \<le> prio x) \<and>
    pqueue_map (skip_stale n q) = (\<lambda>k. if k < n then None else pqueue_map q k)"
  using assms
proof (induction q)
  case (Cons x q)
  have q: "queue_ok P q" and x: "frag_ok P (prio x) (item_data x)" "\<forall>y \<in> set q. prio x < prio y"
    using Cons.prems by (auto simp: queue_ok_def pqueue_wf_Cons)
  have sq: "hm_seq (msg_header (item_data x)) = prio x" using x(1) by (simp add: frag_ok_def)
  have nq: "pqueue_map q (prio x) = None" using x(2) by (auto simp: pqueue_map_None)
  show ?case
  proof (cases "prio x < n")
    case True
    then show ?thesis using Cons.IH [OF q] by (auto simp: sq pqueue_map_Cons nq fun_eq_iff)
  next
    case False
    then have "pqueue_map (x # q) k = None" if "k < n" for k
      using that x(2) by (auto simp: pqueue_map_None)
    then show ?thesis using False x(2) Cons.prems by (auto simp: sq fun_eq_iff)
  qed
qed (simp add: fun_eq_iff)

subsection \<open>Writing into the message buffer\<close>

lemma init_buf_write:
  assumes "init_buf s = Some b" and "buf_wf b" and "off + length bs \<le> buf_max b" and "0 < buf_max b"
  shows "\<exists>b'. write_init_buf off bs s = s\<lparr>init_buf := Some b'\<rparr> \<and> buf_wf b' \<and> buf_max b' = buf_max b \<and>
    buf_length b' = buf_length b \<and> buf_data b' = Some (overwrite off bs (the (buf_data b)))"
proof -
  obtain d where "buf_data b = Some d" "length d = buf_max b" "buf_length b \<le> buf_max b"
    using assms(2,4) by (auto simp: buf_wf_def split: option.splits)
  then show ?thesis using assms(1,3) by (auto simp: write_init_buf_def buf_wf_def)
qed

lemma preprocess_ok:
  assumes "alloc_ok (heap e)" and "init_buf s = Some b" "buf_wf b" and "frag_off (r_msg_hdr (d1 s)) = 0"
    and "dtls1_preprocess_fragment e hdr s = (True, s')"
  shows "\<exists>b'. buf_wf b' \<and> buf_length b' = msg_len hdr + 12 \<and>
    s' = s\<lparr>init_buf := Some b',
           s3 := (s3 s)\<lparr>message_size := msg_len hdr, message_type := int (unat (hm_type hdr))\<rparr>,
           d1 := (d1 s)\<lparr>r_msg_hdr := (r_msg_hdr (d1 s))\<lparr>msg_len := msg_len hdr, hm_type := hm_type hdr,
                                                        hm_seq := hm_seq hdr\<rparr>\<rparr>\<rparr>"
proof -
  obtain r b' where g: "BUF_MEM_grow_clean (heap e) b (msg_len hdr + 12) = (r, b')" by fastforce
  have r: "r \<noteq> 0" using assms(2,4,5) g by (auto simp: dtls1_preprocess_fragment_def Let_def split: if_splits)
  note ok = bgc.grow_success [OF assms(1,3) g r]
  show ?thesis using assms(2,4,5) g r ok
    by (intro exI [of _ b']) (auto simp: dtls1_preprocess_fragment_def Let_def split: if_splits)
qed

subsection \<open>Retrieving a buffered message\<close>

text \<open>The body of message \<open>n\<close> is in the buffer behind the room for a header, and the header is recorded.\<close>

definition holds_message :: "peer \<Rightarrow> nat \<Rightarrow> 'w ssl \<Rightarrow> bool" where
  "holds_message P n s \<longleftrightarrow>
     message_type (s3 s) = int (unat (fst (P n))) \<and>
     msg_len (r_msg_hdr (d1 s)) = length (body P n) \<and> hm_type (r_msg_hdr (d1 s)) = fst (P n) \<and>
     hm_seq (r_msg_hdr (d1 s)) = n \<and>
     (\<exists>b d. init_buf s = Some b \<and> buf_wf b \<and> buf_data b = Some d \<and> 12 + length (body P n) \<le> buf_max b \<and>
        chunk 12 (length (body P n)) d = body P n)"

lemma whole_message_stored:
  assumes "alloc_ok (heap e)" and "buffer_ok s" and "r_msg_hdr (d1 s) = hm_header_zero"
    and "dtls1_preprocess_fragment e (frame_header P n 0 (length (body P n))) s = (True, s1)"
    and "recv_view s2 = recv_view s1"
  shows "holds_message P n (write_init_buf 12 (body P n) s2)"
    and "d1 (write_init_buf 12 (body P n) s2) = (d1 s)\<lparr>r_msg_hdr := r_msg_hdr (d1 s1)\<rparr>"
proof -
  obtain b where b: "init_buf s = Some b" "buf_wf b" using assms(2) by (auto simp: buffer_ok_def)
  obtain b' where b': "buf_wf b'" "buf_length b' = length (body P n) + 12" and
    s1: "s1 = s\<lparr>init_buf := Some b',
           s3 := (s3 s)\<lparr>message_size := length (body P n), message_type := int (unat (fst (P n)))\<rparr>,
           d1 := (d1 s)\<lparr>r_msg_hdr := (r_msg_hdr (d1 s))\<lparr>msg_len := length (body P n), hm_type := fst (P n), hm_seq := n\<rparr>\<rparr>\<rparr>"
    using preprocess_ok [OF assms(1) b _ assms(4)] assms(3) by (auto simp: hm_header_zero_def)
  have s2: "init_buf s2 = Some b'" "d1 s2 = d1 s1" "message_type (s3 s2) = int (unat (fst (P n)))" using assms(5) s1 by (simp_all add: recv_view_def)
  have m: "12 + length (body P n) \<le> buf_max b'" "0 < buf_max b'"
    using b' by (auto simp: buf_wf_def split: option.splits)
  obtain b2 where w: "write_init_buf 12 (body P n) s2 = s2\<lparr>init_buf := Some b2\<rparr>" "buf_wf b2"
    "buf_max b2 = buf_max b'" "buf_data b2 = Some (overwrite 12 (body P n) (the (buf_data b')))"
    using init_buf_write [OF s2(1) b'(1) m] by blast
  have "length (the (buf_data b')) = buf_max b'" using b'(1) m by (auto simp: buf_wf_def split: option.splits)
  then have "chunk 12 (length (body P n)) (overwrite 12 (body P n) (the (buf_data b'))) = body P n"
    using m by (intro chunk_overwrite_same) simp_all
  then show "holds_message P n (write_init_buf 12 (body P n) s2)"
    using w m s2 s1 by (simp add: holds_message_def)
  show "d1 (write_init_buf 12 (body P n) s2) = (d1 s)\<lparr>r_msg_hdr := r_msg_hdr (d1 s1)\<rparr>"
    using w s2 s1 by simp
qed

lemma peek_skip_stale:
  assumes "queue_ok P q"
  shows "case pqueue_peek (skip_stale n q) of
      None \<Rightarrow> pqueue_map q n = None
    | Some x \<Rightarrow> n \<le> prio x \<and> frag_ok P (prio x) (item_data x) \<and>
        pqueue_map q n = (if prio x = n then Some (item_data x) else None)"
proof -
  note sk = skip_stale_ok [OF assms, of n]
  have mn: "pqueue_map q n = pqueue_map (skip_stale n q) n" using sk by simp
  show ?thesis
  proof (cases "skip_stale n q")
    case (Cons x q')
    have x: "n \<le> prio x" "frag_ok P (prio x) (item_data x)" "\<forall>y \<in> set q'. prio x < prio y"
      using sk Cons by (auto simp: queue_ok_def pqueue_wf_Cons)
    have "pqueue_map q' n = None" using x(1,3) by (auto simp: pqueue_map_None)
    then show ?thesis using x Cons mn by (simp add: pqueue_peek_def pqueue_map_Cons)
  qed (simp add: pqueue_peek_def mn)
qed

abbreviation rseq :: "'w ssl \<Rightarrow> nat" where
  "rseq s \<equiv> handshake_read_seq (d1 s)"

abbreviation recv_queue :: "'w ssl \<Rightarrow> msg_frag pqueue" where
  "recv_queue s \<equiv> buffered_messages (d1 s)"

lemma retrieve_none:
  assumes "queue_ok P (recv_queue s)" and "\<And>f. pqueue_map (recv_queue s) (rseq s) = Some f \<Longrightarrow> reassembly f \<noteq> None"
  shows "dtls1_retrieve_buffered_fragment e s =
    (0, 0, upd_d1 (\<lambda>d. d\<lparr>buffered_messages := skip_stale (rseq s) (recv_queue s)\<rparr>) s)"
proof (cases "pqueue_peek (skip_stale (rseq s) (recv_queue s))")
  case None
  then show ?thesis by (simp add: dtls1_retrieve_buffered_fragment_def Let_def)
next
  case (Some x)
  have x: "frag_ok P (prio x) (item_data x)" "prio x = rseq s \<Longrightarrow> reassembly (item_data x) \<noteq> None"
    using peek_skip_stale [OF assms(1), of "rseq s"] Some assms(2) by (auto split: if_splits)
  then have "hm_seq (msg_header (item_data x)) = prio x" by (simp add: frag_ok_def)
  then show ?thesis using Some x(2) by (auto simp: dtls1_retrieve_buffered_fragment_def Let_def)
qed

lemma retrieve_some:
  assumes "alloc_ok (heap e)" and "recv_ok P s" and "r_msg_hdr (d1 s) = hm_header_zero"
    and "pqueue_map (recv_queue s) (rseq s) = Some f" and "reassembly f = None"
    and "dtls1_retrieve_buffered_fragment e s = (ret, len, s')" and "0 < ret"
  shows "len = length (body P (rseq s)) \<and> holds_message P (rseq s) s' \<and> recv_ok P s' \<and> rseq s' = rseq s \<and>
    world s' = world s \<and> queue_ok P (recv_queue s')"
proof -
  let ?n = "rseq s"
  have q: "queue_ok P (recv_queue s)" and n: "?n < 2 ^ 16" and b: "buffer_ok s"
    using assms(2) by (simp_all add: recv_ok_def)
  obtain x where x: "pqueue_peek (skip_stale ?n (recv_queue s)) = Some x" "prio x = ?n" "item_data x = f"
    "frag_ok P ?n f"
    using peek_skip_stale [OF q, of ?n] assms(4) by (auto split: option.splits if_splits)
  obtain q' where q': "skip_stale ?n (recv_queue s) = x # q'"
    using x(1) by (auto simp: pqueue_peek_def split: list.splits)
  have qok: "queue_ok P q'" using skip_stale_ok [OF q, of ?n] q' by (auto simp: queue_ok_def pqueue_wf_Cons)
  have f: "msg_header f = frame_header P ?n 0 (length (body P ?n))" "fragment f = body P ?n"
    using x(4) assms(5) by (simp_all add: frag_ok_def)
  define s0 where "s0 = upd_d1 (\<lambda>d. d\<lparr>buffered_messages := q'\<rparr>) s"
  obtain ok s1 where p: "dtls1_preprocess_fragment e (msg_header f) s0 = (ok, s1)" by fastforce
  have ok: ok "len = length (body P ?n)" "s' = write_init_buf 12 (body P ?n) s1 \<or> body P ?n = [] \<and> s' = s1"
    using assms(5-7) x q' p f
    by (auto simp: dtls1_retrieve_buffered_fragment_def Let_def split_beta pqueue_pop_def s0_def split: if_splits)
  have s0: "buffer_ok s0" "r_msg_hdr (d1 s0) = hm_header_zero" using b assms(3) by (simp_all add: s0_def buffer_ok_def)
  have p': "dtls1_preprocess_fragment e (frame_header P ?n 0 (length (body P ?n))) s0 = (True, s1)"
    using p ok(1) f(1) by simp
  have s': "s' = write_init_buf 12 (body P ?n) s1"
  proof -
    have "s1 = write_init_buf 12 [] s1"
      by (cases "init_buf s1") (auto simp: write_init_buf_def overwrite_def option.map_id map_option_case split: option.splits)
    then show ?thesis using ok(3) by auto
  qed
  note st = whole_message_stored [OF assms(1) s0 p' refl, folded s']
  have "world s1 = world s"
    using preprocess_ok [OF assms(1) _ _ _ p'] s0 by (auto simp: s0_def buffer_ok_def hm_header_zero_def)
  then have "world s' = world s" by (simp add: s' write_init_buf_def)
  moreover have "buffer_ok s'" using st(1) by (auto simp: holds_message_def buffer_ok_def)
  ultimately show ?thesis using st qok n ok(2) by (simp add: recv_ok_def s0_def)
qed

subsection \<open>Storing a fragment\<close>

lemma partial_ok_mark:
  assumes "partial_ok bd bm buf" and "0 < len" and "off + len \<le> length bd"
  defines "bm' \<equiv> RSMBLY_BITMASK_MARK bm off (off + len)" and "buf' \<equiv> overwrite off (chunk off len bd) buf"
  shows "partial_ok bd bm' buf'" and "marked bm' i \<longleftrightarrow> marked bm i \<or> (off \<le> i \<and> i < off + len)"
    and "RSMBLY_BITMASK_IS_COMPLETE bm' (length bd) \<Longrightarrow> buf' = bd"
    and "\<not> RSMBLY_BITMASK_IS_COMPLETE bm' (length bd) \<Longrightarrow> \<exists>i < length bd. \<not> marked bm' i"
proof -
  have bm: "bitmask_ok bm (length bd)" and len: "length buf = length bd" and
    eq: "\<And>i. marked bm i \<Longrightarrow> buf ! i = bd ! i" using assms(1) by (auto simp: partial_ok_def)
  have pos: "0 < length bd" using assms(2,3) by linarith
  have m: "bitmask_ok bm' (length bd)" "\<And>i. marked bm' i \<longleftrightarrow> marked bm i \<or> (off \<le> i \<and> i < off + len)"
    using bitmask_ok_mark [OF bm _ assms(3)] assms(2) by (simp_all add: bm'_def)
  have cl: "length (chunk off len bd) = len" "\<And>j. j < len \<Longrightarrow> chunk off len bd ! j = bd ! (off + j)"
    using assms(3) by (auto simp: chunk_def)
  have nth: "buf' ! i = bd ! i" if "marked bm' i" for i
  proof -
    have "i < length bd" using that m(1) by (auto simp: bitmask_ok_def)
    then show ?thesis using that m(2) eq cl assms(3) len by (auto simp: buf'_def nth_overwrite)
  qed
  have lb: "length buf' = length bd" using assms(3) cl(1) len by (simp add: buf'_def)
  show "partial_ok bd bm' buf'" using m(1) nth lb by (simp add: partial_ok_def)
  show "marked bm' i \<longleftrightarrow> marked bm i \<or> (off \<le> i \<and> i < off + len)" by (rule m(2))
  show "RSMBLY_BITMASK_IS_COMPLETE bm' (length bd) \<Longrightarrow> buf' = bd"
    using bitmask_complete [OF m(1) pos] nth lb by (auto intro: nth_equalityI)
  show "\<not> RSMBLY_BITMASK_IS_COMPLETE bm' (length bd) \<Longrightarrow> \<exists>i < length bd. \<not> marked bm' i"
    using bitmask_complete [OF m(1) pos] by blast
qed

text \<open>Whatever else a record layer keeps (\<open>g\<close>) is left alone by a read inside a record.\<close>

definition within_record :: "'w env \<Rightarrow> ('w \<Rightarrow> byte list) \<Rightarrow> ('w \<Rightarrow> 'g) \<Rightarrow> bool" where
  "within_record e unread g \<longleftrightarrow>
     (\<forall>n s. unread (world s) \<noteq> [] \<longrightarrow> 0 < n \<longrightarrow> g (world (snd (read_bytes e n s))) = g (world s))"

lemma read_within:
  assumes "transport e unread P" and "within_record e unread g" and "unread (world s) \<noteq> []" and "0 < n"
  shows "\<exists>i s'. 0 < i \<and> read_bytes e n s = ((i, SSL3_RT_HANDSHAKE, take n (unread (world s))), s') \<and>
    unread (world s') = drop n (unread (world s)) \<and> recv_view s' = recv_view s \<and> g (world s') = g (world s)"
  using transportD(2) [OF assms(1,3,4)] assms(2-4) unfolding within_record_def by (metis snd_conv)

lemma discard_ok:
  assumes "transport e unread P" and "within_record e unread g"
  shows "n \<le> length (unread (world s)) \<Longrightarrow> n \<le> SIZE_MAX \<Longrightarrow>
    \<exists>s'. discard e n s = Some (True, s') \<and> recv_view s' = recv_view s \<and>
      unread (world s') = drop n (unread (world s)) \<and> g (world s') = g (world s)"
proof (induction n arbitrary: s rule: less_induct)
  case (less n)
  show ?case
  proof (cases "n = 0")
    case True
    then show ?thesis by (simp add: discard.simps [of e 0])
  next
    case False
    define k where "k = (if n > 256 then 256 else n)"
    have k: "0 < k" "k \<le> n" using False by (auto simp: k_def)
    have ne: "unread (world s) \<noteq> []" using less.prems(1) False by auto
    obtain i s1 where r: "0 < i" "read_bytes e k s = ((i, SSL3_RT_HANDSHAKE, take k (unread (world s))), s1)"
      "unread (world s1) = drop k (unread (world s))" "recv_view s1 = recv_view s" "g (world s1) = g (world s)"
      using read_within [OF assms ne k(1)] by blast
    have "length (take k (unread (world s))) = k" using k(2) less.prems(1) by simp
    then have "discard e n s = discard e (n - k) s1"
      using False r(1,2) k less.prems(2) by (subst discard.simps) (simp add: k_def [symmetric])
    moreover have "n - k < n" "n - k \<le> length (unread (world s1))" "n - k \<le> SIZE_MAX"
      using k less.prems r(3) by auto
    ultimately obtain s' where "discard e n s = Some (True, s')" "recv_view s' = recv_view s1"
      "unread (world s') = drop (n - k) (unread (world s1))" "g (world s') = g (world s1)"
      using less.IH [of "n - k" s1] by auto
    then show ?thesis using r k(2) by simp
  qed
qed

text \<open>The fragment was taken from the record and is accounted for in the queue.\<close>

definition queued :: "peer \<Rightarrow> ('w \<Rightarrow> byte list) \<Rightarrow> ('w \<Rightarrow> 'g) \<Rightarrow> byte list \<Rightarrow> 'w ssl \<Rightarrow> 'w ssl \<Rightarrow> msg_frag pqueue \<Rightarrow> bool" where
  "queued P unread g r s s' q \<longleftrightarrow>
     unread (world s') = r \<and> g (world s') = g (world s) \<and> queue_ok P q \<and>
     recv_view s' = recv_view (upd_d1 (\<lambda>d. d\<lparr>buffered_messages := q\<rparr>) s) \<and> (\<forall>k. got (recv_queue s) k \<subseteq> got q k)"

lemma recv_view_simps:
  "recv_view s = recv_view t \<Longrightarrow> d1 s = d1 t" "recv_view s = recv_view t \<Longrightarrow> init_buf s = init_buf t"
  "recv_view s = recv_view t \<Longrightarrow> max_cert_list s = max_cert_list t" "recv_view s = recv_view t \<Longrightarrow> server s = server t"
  "recv_view s = recv_view t \<Longrightarrow> hand_state (statem s) = hand_state (statem t)"
  by (simp_all add: recv_view_def)

lemma recv_view_upd_d1: "recv_view s = recv_view t \<Longrightarrow> recv_view (upd_d1 f s) = recv_view (upd_d1 f t)"
  by (simp add: recv_view_def)

lemma got_map:
  "got q n = (case pqueue_map q n of None \<Rightarrow> {}
     | Some f \<Rightarrow> (case reassembly f of None \<Rightarrow> {..<msg_len (msg_header f)} | Some bm \<Rightarrow> {i. marked bm i}))"
  by (simp add: got_def)

text \<open>Both ways to store an entry make the queue the old one with the entry at its number.\<close>

lemma queue_entry:
  assumes "queue_ok P q" and "pqueue_map q' = (pqueue_map q)(n \<mapsto> f)" and "pqueue_wf q'" and "frag_ok P n f" and "n < 2 ^ 16"
    and "got q n \<subseteq> (case reassembly f of None \<Rightarrow> {..<length (body P n)} | Some bm \<Rightarrow> {i. marked bm i})"
  shows "queue_ok P q' \<and> (\<forall>k. got q k \<subseteq> got q' k)"
proof (intro conjI allI)
  show "queue_ok P q'"
    using assms(2,4,5) queue_ok_map [OF assms(1)] by (intro queue_ok_mapI [OF assms(3)]) (auto split: if_splits)
  fix k
  have "msg_len (msg_header f) = length (body P n)" using assms(4) by (simp add: frag_ok_def)
  then show "got q k \<subseteq> got q' k" using assms(2,6) by (cases "k = n") (auto simp: got_map [of q'] got_map [of q k] split: option.splits)
qed

definition heap_full :: "'w env \<Rightarrow> bool" where
  "heap_full e \<longleftrightarrow> (\<forall>k. heap e k \<noteq> None)"

lemma fragment_new_ok:
  assumes "alloc_ok alloc" and "dtls1_hm_fragment_new alloc len reasm = Some f"
  shows "length (fragment f) = len"
    "reassembly f = (if reasm then Some (replicate (RSMBLY_BITMASK_SIZE len) 0) else None)"
  using assms by (auto simp: dtls1_hm_fragment_new_def alloc_ok_def split: option.splits if_splits)

lemma fragment_new_full: "heap_full e \<Longrightarrow> dtls1_hm_fragment_new (heap e) len reasm \<noteq> None"
proof -
  assume "heap_full e"
  then obtain a b c where "heap e 104 = Some a" "heap e len = Some b" "heap e (RSMBLY_BITMASK_SIZE len) = Some c"
    unfolding heap_full_def by (meson not_None_eq)
  then show ?thesis by (cases "len = 0") (simp_all add: dtls1_hm_fragment_new_def)
qed

lemma find_or_new_ok:
  assumes "alloc_ok (heap e)" and "queue_ok P (recv_queue s)" and "n < 2 ^ 16" and "0 < length (body P n)"
    and "item = pqueue_find (recv_queue s) (seq64be n)" and "find_or_new e (frame_header P n off len) item s = Some f"
  shows "msg_header f = frame_header P n 0 (length (body P n)) \<and>
    (case reassembly f of None \<Rightarrow> fragment f = body P n \<and> got (recv_queue s) n = {..<length (body P n)}
     | Some bm \<Rightarrow> partial_ok (body P n) bm (fragment f) \<and> got (recv_queue s) n = {i. marked bm i})"
proof (cases item)
  case None
  have "pqueue_map (recv_queue s) n = None"
    using pq.find_none [of "recv_queue s" "seq64be n"] assms(2,3,5) None by (simp add: queue_ok_def)
  moreover have "msg_header f = frame_header P n 0 (length (body P n))"
    "length (fragment f) = length (body P n)"
    "reassembly f = Some (replicate (RSMBLY_BITMASK_SIZE (length (body P n))) 0)"
    using assms(6) None fragment_new_ok [OF assms(1)]
    by (auto simp: find_or_new_def frame_header_update split: option.splits)
  moreover have "\<not> marked (replicate k 0) i" for k i by (simp add: marked_def)
  ultimately show ?thesis using bitmask_ok_new [of "length (body P n)"]
    by (simp add: partial_ok_def got_def)
next
  case (Some p)
  have "pqueue_map (recv_queue s) n = Some (item_data (recv_queue s ! p))"
    using pq.find_some [of "recv_queue s" "seq64be n" p] assms(2,3,5) Some by (simp add: queue_ok_def)
  moreover have "f = item_data (recv_queue s ! p)"
    using assms(6) Some by (auto simp: find_or_new_def Let_def split: if_splits)
  moreover from calculation have "frag_ok P n f" using queue_ok_map(2) [OF assms(2)] by simp
  ultimately show ?thesis by (auto simp: frag_ok_def got_def split: option.splits)
qed

text \<open>Putting the updated fragment back, or a new one into the queue.\<close>

lemma queue_store_ok:
  assumes "queue_ok P (recv_queue s)" and "n < 2 ^ 16" and "frag_ok P n f"
    and "item = pqueue_find (recv_queue s) (seq64be n)"
    and "got (recv_queue s) n \<subseteq> (case reassembly f of None \<Rightarrow> {..<length (body P n)} | Some bm \<Rightarrow> {i. marked bm i})"
  defines "q \<equiv> (case item of Some p \<Rightarrow> pqueue_set (recv_queue s) p f
     | None \<Rightarrow> snd (pqueue_insert (recv_queue s) \<lparr>priority = seq64be n, item_data = f\<rparr>))"
  shows "queue_ok P q \<and> (\<forall>k. got (recv_queue s) k \<subseteq> got q k) \<and> pqueue_map q n = Some f \<and>
    (item = None \<longrightarrow> fst (pqueue_insert (recv_queue s) \<lparr>priority = seq64be n, item_data = f\<rparr>) \<noteq> None)"
proof -
  have wf: "pqueue_wf (recv_queue s)" using assms(1) by (simp add: queue_ok_def)
  have m: "pqueue_map q = (pqueue_map (recv_queue s))(n \<mapsto> f) \<and> pqueue_wf q \<and>
    (item = None \<longrightarrow> fst (pqueue_insert (recv_queue s) \<lparr>priority = seq64be n, item_data = f\<rparr>) \<noteq> None)"
  proof (cases item)
    case None
    let ?i = "\<lparr>priority = seq64be n, item_data = f\<rparr>"
    have "prio ?i = n" using assms(2) by (simp add: prio_def)
    moreover have "pqueue_map (recv_queue s) n = None"
      using pq.find_none [OF wf, of "seq64be n"] assms(2,4) None by simp
    ultimately show ?thesis
      using pq.ins_new [OF wf, of ?i] pq.invar_ins [OF wf, of ?i] None by (simp add: q_def)
  next
    case (Some p)
    then show ?thesis using pq.find_some [OF wf, of "seq64be n" p f] assms(2,4) by (simp add: q_def)
  qed
  then show ?thesis using queue_entry [OF assms(1) _ _ assms(3,2,5), of q] by simp
qed

lemma reassemble_partial:
  assumes tr: "transport e unread P" "within_record e unread g" and al: "alloc_ok (heap e)"
    and rq: "queue_ok P (recv_queue s)" and n: "n < 2 ^ 16" and pos: "0 < len" and fit: "off + len \<le> length (body P n)"
    and un: "unread (world s) = chunk off len (body P n) @ r" and item_def: "item = pqueue_find (recv_queue s) (seq64be n)"
    and fn: "find_or_new e (frame_header P n off len) item s = Some f" "reassembly f = Some bm"
    and sz: "length (body P n) \<le> dtls1_max_handshake_message_len s"
  shows "\<exists>err s'. dtls1_reassemble_fragment e (frame_header P n off len) s = Some (err, s') \<and>
    (err = DTLS1_HM_FRAGMENT_RETRY \<longrightarrow> (\<exists>q. queued P unread g r s s' q \<and> {off..<off + len} \<subseteq> got q n)) \<and>
    (err = DTLS1_HM_FRAGMENT_RETRY \<or> err = - 1) \<and> (heap_full e \<longrightarrow> err = DTLS1_HM_FRAGMENT_RETRY)"
    (is "\<exists>err s'. ?run = Some (err, s') \<and> ?post err s'")
proof -
  let ?bd = "body P n"
  have lc: "length (chunk off len ?bd) = len" and bd: "0 < length ?bd" using fit pos by auto
  note f = find_or_new_ok [OF al rq n bd item_def fn(1)]
  have pf: "msg_header f = frame_header P n 0 (length ?bd)" "partial_ok ?bd bm (fragment f)"
    "got (recv_queue s) n = {i. marked bm i}" using f fn(2) fit pos by auto
  have ne: "unread (world s) \<noteq> []" using un lc pos by (metis append_is_Nil_conv less_irrefl list.size(3))
  obtain i s1 where rd: "0 < i" "read_bytes e len s = ((i, SSL3_RT_HANDSHAKE, chunk off len ?bd), s1)"
    "unread (world s1) = r" "recv_view s1 = recv_view s" "g (world s1) = g (world s)"
    using read_within [OF tr ne pos] un lc by auto
  define bm' where "bm' = RSMBLY_BITMASK_MARK bm off (off + len)"
  define f' where "f' = f\<lparr>fragment := overwrite off (chunk off len ?bd) (fragment f),
    reassembly := (if RSMBLY_BITMASK_IS_COMPLETE bm' (length ?bd) then None else Some bm')\<rparr>"
  note mk = partial_ok_mark [OF pf(2) pos fit, folded bm'_def]
  have f': "frag_ok P n f'" using mk(1,3,4) pf(1) by (simp add: frag_ok_def f'_def)
  have cover: "{i. marked bm i} \<union> {off..<off + len} \<subseteq>
      (case reassembly f' of None \<Rightarrow> {..<length ?bd} | Some bm \<Rightarrow> {i. marked bm i})"
    using mk(1) unfolding f'_def partial_ok_def bitmask_ok_def by (auto simp: mk(2))
  have q1: "recv_queue s1 = recv_queue s" using recv_view_simps(1) [OF rd(4)] by simp
  have item1: "item = pqueue_find (recv_queue s1) (seq64be n)" by (simp add: item_def q1)
  define q where "q = (case item of Some p \<Rightarrow> pqueue_set (recv_queue s1) p f'
    | None \<Rightarrow> snd (pqueue_insert (recv_queue s1) \<lparr>priority = seq64be n, item_data = f'\<rparr>))"
  have st: "queue_ok P q" "\<And>k. got (recv_queue s) k \<subseteq> got q k" "pqueue_map q n = Some f'"
    "item = None \<longrightarrow> fst (pqueue_insert (recv_queue s1) \<lparr>priority = seq64be n, item_data = f'\<rparr>) \<noteq> None"
    using queue_store_ok [OF _ n f' item1] rq pf(3) cover by (simp_all add: q1 q_def)
  define s' where "s' = upd_d1 (\<lambda>d. d\<lparr>buffered_messages := q\<rparr>) s1"
  have "got q n = (case reassembly f' of None \<Rightarrow> {..<length ?bd} | Some bm \<Rightarrow> {i. marked bm i})"
    using st(3) pf(1) by (simp add: got_def f'_def)
  then have post: "queued P unread g r s s' q" "{off..<off + len} \<subseteq> got q n"
    using rd st(1,2) cover recv_view_upd_d1 [OF rd(4)] by (auto simp: queued_def s'_def)
  have run: "?run = (case item of Some p \<Rightarrow> Some (DTLS1_HM_FRAGMENT_RETRY, queue_put p f' s1)
      | None \<Rightarrow> (case queue_new e n f' s1 of (ok, s) \<Rightarrow> Some (if ok then DTLS1_HM_FRAGMENT_RETRY else - 1, s)))"
    using fn sz fit rd(1,2) lc pos
    unfolding dtls1_reassemble_fragment_def Let_def frame_header_simps item_def [symmetric]
    by (simp add: f'_def bm'_def split: option.split)
  have "queue_new e n f' s1 = (if heap e SIZEOF_PITEM \<noteq> None then (True, s') else (False, s1))" if "item = None"
    using st(4) that by (auto simp: queue_new_def pitem_new_def split_beta Let_def s'_def q_def)
  moreover have "queue_put p f' s1 = s'" if "item = Some p" for p using that by (simp add: queue_put_def s'_def q_def)
  ultimately have "?run = Some (DTLS1_HM_FRAGMENT_RETRY, s') \<or> \<not> heap_full e \<and> ?run = Some (- 1, s1)"
    unfolding run heap_full_def by (cases item) auto
  then show ?thesis using post by auto
qed

lemma reassemble_ok:
  assumes tr: "transport e unread P" "within_record e unread g" and al: "alloc_ok (heap e)"
    and rq: "queue_ok P (recv_queue s)" and vf: "valid_frame P n off len" and "0 < len"
    and un: "unread (world s) = chunk off len (body P n) @ r"
  shows "\<exists>err s'. dtls1_reassemble_fragment e (frame_header P n off len) s = Some (err, s') \<and>
    (err = DTLS1_HM_FRAGMENT_RETRY \<longrightarrow> (\<exists>q. queued P unread g r s s' q \<and> {off..<off + len} \<subseteq> got q n)) \<and>
    (err = DTLS1_HM_FRAGMENT_RETRY \<or> err = - 1) \<and>
    (heap_full e \<longrightarrow> length (body P n) \<le> dtls1_max_handshake_message_len s \<longrightarrow> err = DTLS1_HM_FRAGMENT_RETRY)"
    (is "\<exists>err s'. ?run = Some (err, s') \<and> ?post err s'")
proof -
  let ?h = "frame_header P n off len" and ?bd = "body P n"
  define item where "item = pqueue_find (recv_queue s) (seq64be n)"
  have n: "n < 2 ^ 16" and fit: "off + len \<le> length ?bd" and big: "length ?bd < 2 ^ 24"
    using vf by (auto simp: valid_frame_def)
  have lc: "length (chunk off len ?bd) = len" and pos: "0 < length ?bd" using fit \<open>0 < len\<close> by auto
  consider "dtls1_max_handshake_message_len s < length ?bd \<or> find_or_new e ?h item s = None"
    | f where "length ?bd \<le> dtls1_max_handshake_message_len s" "find_or_new e ?h item s = Some f" "reassembly f = None"
    | f bm where "length ?bd \<le> dtls1_max_handshake_message_len s" "find_or_new e ?h item s = Some f" "reassembly f = Some bm"
    by (metis not_less option.exhaust)
  then show ?thesis
  proof cases
    case 1
    moreover have "find_or_new e ?h item s \<noteq> None" if "heap_full e"
    proof (cases item)
      case None
      then show ?thesis using fragment_new_full [OF that] by (auto simp: find_or_new_def split: option.splits)
    next
      case (Some p)
      have "pqueue_map (recv_queue s) n = Some (item_data (recv_queue s ! p))"
        using pq.find_some [of "recv_queue s" "seq64be n" p] rq n Some by (simp add: queue_ok_def item_def)
      then show ?thesis using Some queue_ok_map(2) [OF rq] by (simp add: find_or_new_def Let_def frag_ok_def)
    qed
    ultimately show ?thesis using fit \<open>0 < len\<close>
      by (auto simp: dtls1_reassemble_fragment_def item_def Let_def split: option.splits)
  next
    case (2 f)
    note f = find_or_new_ok [OF al rq n pos item_def 2(2)]
    obtain s' where s': "discard e len s = Some (True, s')" "recv_view s' = recv_view s" "unread (world s') = r"
      "g (world s') = g (world s)"
      using discard_ok [OF tr, of len s] un lc big fit by auto
    have "queued P unread g r s s' (recv_queue s)"
      using s' rq by (simp add: queued_def recv_view_def)
    moreover have "got (recv_queue s) n = {..<length ?bd}" using f 2(3) fit \<open>0 < len\<close> by auto
    ultimately show ?thesis using 2 s'(1) fit \<open>0 < len\<close>
      by (auto simp: dtls1_reassemble_fragment_def item_def Let_def)
  next
    case (3 f bm)
    show ?thesis
      using reassemble_partial [OF tr al rq n \<open>0 < len\<close> fit un item_def 3(2,3,1)] by blast
  qed
qed

lemma future_ok:
  assumes tr: "transport e unread P" "within_record e unread g" and al: "alloc_ok (heap e)"
    and rq: "queue_ok P (recv_queue s)" and n: "n < 2 ^ 16" and item: "pqueue_find (recv_queue s) (seq64be n) = None"
    and un: "unread (world s) = body P n @ r"
  shows "\<exists>err s'. buffer_future_message e (frame_header P n 0 (length (body P n))) s = (err, s') \<and>
    (err = DTLS1_HM_FRAGMENT_RETRY \<longrightarrow> (\<exists>q. queued P unread g r s s' q)) \<and> (err = DTLS1_HM_FRAGMENT_RETRY \<or> err = 0) \<and>
    (heap_full e \<longrightarrow> length (body P n) \<le> dtls1_max_handshake_message_len s \<longrightarrow> err = DTLS1_HM_FRAGMENT_RETRY)"
    (is "\<exists>err s'. ?run = (err, s') \<and> ?post err s'")
proof (cases "length (body P n) > dtls1_max_handshake_message_len s \<or> dtls1_hm_fragment_new (heap e) (length (body P n)) False = None")
  case True
  then show ?thesis using fragment_new_full [of e "length (body P n)" False]
    by (auto simp: buffer_future_message_def)
next
  case False
  let ?bd = "body P n"
  obtain f0 where f0: "dtls1_hm_fragment_new (heap e) (length ?bd) False = Some f0" using False by auto
  note new = fragment_new_ok [OF al f0]
  define f where "f = f0\<lparr>msg_header := frame_header P n 0 (length ?bd), fragment := ?bd\<rparr>"
  have f: "frag_ok P n f" using new by (simp add: frag_ok_def f_def)
  have ov: "overwrite 0 ?bd (fragment f0) = ?bd" using new by (simp add: overwrite_def)
  obtain s1 where s1: "unread (world s1) = r" "recv_view s1 = recv_view s" "g (world s1) = g (world s)"
    and run: "?run = (case queue_new e n f s1 of (ok, s) \<Rightarrow> (if ok then DTLS1_HM_FRAGMENT_RETRY else 0, s))"
  proof (cases "?bd = []")
    case True
    then have "f = f0\<lparr>msg_header := frame_header P n 0 (length ?bd)\<rparr>" using new by (simp add: f_def)
    then show ?thesis using that [of s] un True False f0 by (simp add: buffer_future_message_def Let_def)
  next
    case ne: False
    then obtain i s1 where "0 < i" "read_bytes e (length ?bd) s = ((i, SSL3_RT_HANDSHAKE, ?bd), s1)"
      "unread (world s1) = r" "recv_view s1 = recv_view s" "g (world s1) = g (world s)"
      using read_within [OF tr, of s "length ?bd"] un by auto
    then show ?thesis using that [of s1] ne False f0 ov by (simp add: buffer_future_message_def Let_def f_def)
  qed
  have q1: "recv_queue s1 = recv_queue s" using recv_view_simps(1) [OF s1(2)] by simp
  have "got (recv_queue s1) n = {}"
    using pq.find_none [of "recv_queue s" "seq64be n"] rq item n by (simp add: got_def queue_ok_def q1)
  then have st: "queue_ok P (snd (pqueue_insert (recv_queue s1) \<lparr>priority = seq64be n, item_data = f\<rparr>))"
    "\<And>k. got (recv_queue s1) k \<subseteq> got (snd (pqueue_insert (recv_queue s1) \<lparr>priority = seq64be n, item_data = f\<rparr>)) k"
    "fst (pqueue_insert (recv_queue s1) \<lparr>priority = seq64be n, item_data = f\<rparr>) \<noteq> None"
    using queue_store_ok [of P s1 n f None] rq n f item by (simp_all add: q1)
  define q where "q = snd (pqueue_insert (recv_queue s1) \<lparr>priority = seq64be n, item_data = f\<rparr>)"
  define s' where "s' = upd_d1 (\<lambda>d. d\<lparr>buffered_messages := q\<rparr>) s1"
  have "queue_new e n f s1 = (if heap e SIZEOF_PITEM \<noteq> None then (True, s') else (False, s1))"
    using st(3) by (auto simp: queue_new_def pitem_new_def split_beta Let_def s'_def q_def)
  then have "?run = (DTLS1_HM_FRAGMENT_RETRY, s') \<or> \<not> heap_full e \<and> ?run = (0, s1)"
    unfolding run heap_full_def by auto
  moreover have "queued P unread g r s s' q"
    using s1 st(1,2) recv_view_upd_d1 [OF s1(2)] by (simp add: queued_def s'_def q1 q_def)
  ultimately show ?thesis by auto
qed

lemma out_of_seq_ok:
  assumes tr: "transport e unread P" "within_record e unread g" and al: "alloc_ok (heap e)"
    and rq: "queue_ok P (recv_queue s)" and vf: "valid_frame P n off len"
    and un: "unread (world s) = chunk off len (body P n) @ r"
  shows "\<exists>err s'. dtls1_process_out_of_seq_message e (frame_header P n off len) s = Some (err, s') \<and>
    (err = DTLS1_HM_FRAGMENT_RETRY \<longrightarrow> (\<exists>q. queued P unread g r s s' q)) \<and> err \<noteq> DTLS1_HM_BAD_FRAGMENT \<and>
    (heap_full e \<longrightarrow> length (body P n) \<le> dtls1_max_handshake_message_len s \<longrightarrow> err = DTLS1_HM_FRAGMENT_RETRY)"
    (is "\<exists>err s'. ?run = Some (err, s') \<and> ?post err s'")
proof -
  have n: "n < 2 ^ 16" and fit: "off + len \<le> length (body P n)" and big: "length (body P n) < 2 ^ 24"
    and nz: "len = 0 \<Longrightarrow> body P n = []" using vf by (auto simp: valid_frame_def)
  define item where "item = pqueue_find (recv_queue s) (seq64be n)"
  define drop_it where "drop_it \<longleftrightarrow> n \<le> rseq s \<or> n > rseq s + 10 \<or> (item \<noteq> None \<and> len = length (body P n)) \<or>
      rseq s = 0 \<and> int (unat (fst (P n))) = SSL3_MT_FINISHED"
  have run: "?run = (if drop_it
      then map_option (\<lambda>(ok, s). (if ok then DTLS1_HM_FRAGMENT_RETRY else 0, s)) (discard e len s)
      else if len \<noteq> length (body P n) then dtls1_reassemble_fragment e (frame_header P n off len) s
      else Some (buffer_future_message e (frame_header P n off len) s))"
    using fit by (auto simp: dtls1_process_out_of_seq_message_def Let_def drop_it_def simp flip: item_def)
  consider drop_it | "\<not> drop_it" "len \<noteq> length (body P n)" | "\<not> drop_it" "len = length (body P n)" by blast
  then show ?thesis
  proof cases
    case 1
    have "length (chunk off len (body P n)) = len" using fit by simp
    then obtain s' where "discard e len s = Some (True, s')" "recv_view s' = recv_view s" "unread (world s') = r"
      "g (world s') = g (world s)"
      using discard_ok [OF tr, of len s] un big fit by auto
    moreover from this have "queued P unread g r s s' (recv_queue s)" using rq by (simp add: queued_def recv_view_def)
    ultimately show ?thesis using 1 by (auto simp: run)
  next
    case 2
    then show ?thesis using reassemble_ok [OF tr al rq vf _ un] nz by (fastforce simp: run)
  next
    case 3
    then have o: "off = 0" "chunk off len (body P n) = body P n" and i: "item = None"
      using fit by (auto simp: chunk_def drop_it_def)
    have "?run = Some (buffer_future_message e (frame_header P n 0 (length (body P n))) s)" using 3 o(1) unfolding run by simp
    then show ?thesis using future_ok [OF tr al rq n i [unfolded item_def], of r] un unfolding o(2) by fastforce
  qed
qed

end
