(* ===== verification/Dtls_Deliver.thy ===== *)
theory Dtls_Deliver
  imports Dtls_Reasm
begin

section \<open>Delivery of DTLS handshake messages\<close>

text \<open>
  What \<^verbatim>\<open>dtls_get_message\<close> delivers: if it succeeds, the peer's message whose turn it is, byte for byte; and it
  does succeed once all fragments of that message are there.  The last part holds a record layer on which
  the properties are evaluated.
\<close>

subsection \<open>One attempt to get a message\<close>

lemma within_record_unit [simp]: "within_record e unread (\<lambda>_. ())"
  by (simp add: within_record_def)

lemma framed_cases:
  assumes "framed P bs" and "bs \<noteq> []"
  obtains m off len r where "valid_frame P m off len" "framed P r"
    "take 12 bs = dtls1_write_message_header (frame_header P m off len)" "drop 12 bs = chunk off len (body P m) @ r"
  using assms(1)
proof cases
  case (framed_Cons n off len r)
  then show ?thesis using that [of n off len r] frame_parse(1) [OF framed_Cons(2), of r] frame_parse(3) [OF framed_Cons(2), of r]
    by blast
qed (use assms(2) in simp)

lemma header_read:
  assumes "transport e unread P" and "framed P (unread (world s))"
    and "read_bytes e 12 s = ((i, rt, bs), s')" and "0 < i"
  shows "recv_view s' = recv_view s \<and>
    (rt = SSL3_RT_CHANGE_CIPHER_SPEC \<and> length bs \<le> 12 \<and> unread (world s') = [] \<or>
     rt = SSL3_RT_HANDSHAKE \<and>
       (\<exists>m off len r. valid_frame P m off len \<and> framed P r \<and>
          bs = dtls1_write_message_header (frame_header P m off len) \<and>
          unread (world s') = chunk off len (body P m) @ r))"
proof (cases "unread (world s) = []")
  case True
  from transportD(3) [OF assms(1) True assms(3,4)] consider
    "rt = SSL3_RT_CHANGE_CIPHER_SPEC" "length bs \<le> 12" "unread (world s') = []"
    | r where "rt = SSL3_RT_HANDSHAKE" "r \<noteq> []" "framed P r" "bs = take 12 r" "unread (world s') = drop 12 r" by blast
  then show ?thesis
  proof cases
    case 2
    obtain m off len r' where "valid_frame P m off len" "framed P r'"
      "take 12 r = dtls1_write_message_header (frame_header P m off len)" "drop 12 r = chunk off len (body P m) @ r'"
      by (rule framed_cases [OF 2(3,2)])
    then show ?thesis using transportD(1) [OF assms(1,3)] 2 by auto
  qed (use transportD(1) [OF assms(1,3)] in simp)
next
  case False
  then have "rt = SSL3_RT_HANDSHAKE" "bs = take 12 (unread (world s))" "unread (world s') = drop 12 (unread (world s))"
    using transportD(2) [OF assms(1) False, of 12] assms(3) by auto
  moreover obtain m off len r' where "valid_frame P m off len" "framed P r'"
    "take 12 (unread (world s)) = dtls1_write_message_header (frame_header P m off len)"
    "drop 12 (unread (world s)) = chunk off len (body P m) @ r'"
    by (rule framed_cases [OF assms(2) False])
  ultimately show ?thesis using transportD(1) [OF assms(1,3)] by auto
qed

text \<open>What an attempt that began with message \<open>n\<close> in turn leaves behind.\<close>

definition ready :: "peer \<Rightarrow> ('w \<Rightarrow> byte list) \<Rightarrow> nat \<Rightarrow> 'w ssl \<Rightarrow> bool" where
  "ready P unread n s \<longleftrightarrow>
     recv_ok P s \<and> r_msg_hdr (d1 s) = hm_header_zero \<and> framed P (unread (world s)) \<and> rseq s = n"

definition attempt_post :: "peer \<Rightarrow> ('w \<Rightarrow> byte list) \<Rightarrow> nat \<Rightarrow> 'w reasm_result \<Rightarrow> bool" where
  "attempt_post P unread n r \<longleftrightarrow>
     (case r of ((ok, err, len), s) \<Rightarrow>
        if ok then recv_ok P s \<and> framed P (unread (world s)) \<and> rseq s = n \<and>
          (message_type (s3 s) = SSL3_MT_CHANGE_CIPHER_SPEC \<or> holds_message P n s \<and> init_num s = length (body P n))
        else err = DTLS1_HM_FRAGMENT_RETRY \<or> err = DTLS1_HM_BAD_FRAGMENT \<longrightarrow> ready P unread n s)"

lemma grow_clean_full:
  assumes "heap_full e" and "0 < len" "len \<le> LIMIT_BEFORE_EXPANSION"
  shows "fst (BUF_MEM_grow_clean (heap e) b len) \<noteq> 0"
proof -
  obtain d where "heap e ((len + 3) div 3 * 4) = Some d" using assms(1) unfolding heap_full_def by (meson not_None_eq)
  then show ?thesis using assms(2,3)
    by (auto simp: BUF_MEM_grow_clean_def buf_expand_def sec_alloc_realloc_def realloc_block_def Let_def split: option.splits)
qed

lemma receive_whole_ok:
  assumes tr: "transport e unread P" "within_record e unread g" and al: "alloc_ok (heap e)"
    and rd: "recv_ok P s" "r_msg_hdr (d1 s) = hm_header_zero" and vf: "valid_frame P n 0 (length (body P n))"
    and un: "unread (world s) = body P n @ r"
    and run: "receive_whole e (frame_header P n 0 (length (body P n))) s = ((ok, err, len), s')"
  shows "(ok \<longrightarrow> holds_message P n s' \<and> init_num s' = length (body P n) \<and> recv_ok P s' \<and> rseq s' = rseq s \<and>
      unread (world s') = r) \<and> err = 0 \<and>
    (heap_full e \<longrightarrow> length (body P n) \<le> dtls1_max_handshake_message_len s \<longrightarrow> ok)"
proof -
  let ?h = "frame_header P n 0 (length (body P n))"
  obtain pok s1 where p: "dtls1_preprocess_fragment e ?h s = (pok, s1)" by fastforce
  obtain b where b: "init_buf s = Some b" "buf_wf b" using rd(1) by (auto simp: recv_ok_def buffer_ok_def)
  have z: "frag_off (r_msg_hdr (d1 s)) = 0" using rd(2) by (simp add: hm_header_zero_def)
  show ?thesis
  proof (cases pok)
    case False
    have "\<not> heap_full e \<or> dtls1_max_handshake_message_len s < length (body P n)"
    proof (rule ccontr)
      assume "\<not> ?thesis"
      moreover from this have "fst (BUF_MEM_grow_clean (heap e) b (length (body P n) + 12)) \<noteq> 0"
        using vf by (intro grow_clean_full) (auto simp: valid_frame_def)
      ultimately show False using p b(1) z False
        by (auto simp: dtls1_preprocess_fragment_def Let_def split_beta split: if_splits)
    qed
    then show ?thesis using run p False by (auto simp: receive_whole_def)
  next
    case True
    have p': "dtls1_preprocess_fragment e ?h s = (True, s1)" using p True by simp
    note pre = preprocess_ok [OF al b z p']
    have w1: "world s1 = world s" using pre by auto
    obtain s2 where s2: "recv_view s2 = recv_view s1" "unread (world s2) = r"
      and res: "ok" "err = 0" "len = length (body P n)"
        "s' = (write_init_buf 12 (body P n) s2)\<lparr>init_num := length (body P n)\<rparr>"
    proof (cases "body P n = []")
      case True
      then show ?thesis using that [of s1] run p \<open>pok\<close> un w1 by (simp add: receive_whole_def)
    next
      case ne: False
      then obtain i s2 where "0 < i" "read_bytes e (length (body P n)) s1 = ((i, SSL3_RT_HANDSHAKE, body P n), s2)"
        "unread (world s2) = r" "recv_view s2 = recv_view s1"
        using read_within [OF tr, of s1 "length (body P n)"] un w1 by auto
      then show ?thesis using that [of s2] run p \<open>pok\<close> ne by (auto simp: receive_whole_def)
    qed
    have bo: "buffer_ok s" using rd(1) by (simp add: recv_ok_def)
    note st = whole_message_stored [OF al bo rd(2) p' s2(1)]
    then show ?thesis using res s2(2) rd(1)
      by (auto simp: holds_message_def recv_ok_def buffer_ok_def write_init_buf_def)
  qed
qed

text \<open>The state after a fragment of message \<open>m\<close> was taken from the record, when message \<open>n\<close> is in turn.\<close>

definition handled :: "peer \<Rightarrow> ('w \<Rightarrow> byte list) \<Rightarrow> ('w \<Rightarrow> 'g) \<Rightarrow> nat \<Rightarrow> nat set \<Rightarrow> byte list \<Rightarrow> 'w ssl \<Rightarrow>
    'w reasm_result + 'w ssl \<Rightarrow> bool" where
  "handled P unread g m part r s res \<longleftrightarrow>
     (case res of
        Inl ((ok, err, len), s') \<Rightarrow>
          if ok then m = rseq s \<and> holds_message P m s' \<and> init_num s' = length (body P m) \<and> recv_ok P s' \<and>
            rseq s' = rseq s \<and> unread (world s') = r
          else err \<noteq> DTLS1_HM_BAD_FRAGMENT \<and>
            (err = DTLS1_HM_FRAGMENT_RETRY \<longrightarrow> (\<exists>q. queued P unread g r s s' q \<and> (m = rseq s \<longrightarrow> body P m \<noteq> [] \<and> part \<subseteq> got q m)))
      | Inr s' \<Rightarrow> m = rseq s \<and> fst (P m) = 0 \<and> queued P unread g r s s' (recv_queue s))"

definition io_keeps :: "'w env \<Rightarrow> ('w \<Rightarrow> 'g) \<Rightarrow> bool" where
  "io_keeps e g \<longleftrightarrow> (\<forall>opn w. g (snd (io e opn w)) = g w)"

lemma header_msg_len_zero:
  assumes "dtls1_write_message_header h ! 1 = 0" and "dtls1_write_message_header h ! 2 = 0"
    and "dtls1_write_message_header h ! 3 = 0" and "msg_len h < 2 ^ 24"
  shows "msg_len h = 0"
proof -
  have "l2n3 (msg_len h) = [0, 0, 0]"
    using assms(1-3) by (simp add: dtls1_write_message_header_def l2n3_def numeral_2_eq_2 numeral_3_eq_3)
  then show ?thesis using n2l3_l2n3 [of "msg_len h" "[]"] n2l3_be_val [of 0 0 0 "[]"] assms(4) by (simp add: be_val_def)
qed

lemma handle_fragment_ok:
  assumes tr: "transport e unread P" "within_record e unread g" "io_keeps e g" and al: "alloc_ok (heap e)"
    and rd: "recv_ok P s" "r_msg_hdr (d1 s) = hm_header_zero" and vf: "valid_frame P m off len"
    and un: "unread (world s) = chunk off len (body P m) @ r"
  shows "\<exists>res. handle_fragment e (dtls1_write_message_header (frame_header P m off len)) s = Some res \<and>
    handled P unread g m {off..<off + len} r s res \<and>
    (heap_full e \<longrightarrow> length (body P m) \<le> dtls1_max_handshake_message_len s \<longrightarrow> fst (P m) \<noteq> 0 \<longrightarrow>
       (case res of Inl ((ok, err, len), s') \<Rightarrow> ok \<or> err = DTLS1_HM_FRAGMENT_RETRY | Inr _ \<Rightarrow> False))"
proof -
  let ?h = "frame_header P m off len" and ?w = "dtls1_write_message_header (frame_header P m off len)"
  have fit: "off + len \<le> length (body P m)" and nz: "len = 0 \<Longrightarrow> body P m = []" using vf by (auto simp: valid_frame_def)
  have q: "queue_ok P (recv_queue s)" using rd(1) by (simp add: recv_ok_def)
  have len: "\<not> int len > query e RECORD_LAYER_get_rrec_length s"
    using un fit by (simp add: transportD(4) [OF tr(1)])
  have hdr: "dtls1_get_message_header ?w = ?h" by (rule frame_parse(2) [OF vf])
  have w0: "?w ! 0 = fst (P m)" by (simp add: dtls1_write_message_header_def)
  consider "m \<noteq> rseq s" | "m = rseq s" "len \<noteq> 0 \<and> len < length (body P m)"
    | "m = rseq s" "len = length (body P m)" "hello_request_expected ?w s"
    | "m = rseq s" "len = length (body P m)" "\<not> hello_request_expected ?w s"
    using fit nz by fastforce
  then show ?thesis
  proof cases
    case 1
    obtain err s' where o: "dtls1_process_out_of_seq_message e ?h s = Some (err, s')"
      "err = DTLS1_HM_FRAGMENT_RETRY \<Longrightarrow> \<exists>q. queued P unread g r s s' q" "err \<noteq> DTLS1_HM_BAD_FRAGMENT"
      "heap_full e \<Longrightarrow> length (body P m) \<le> dtls1_max_handshake_message_len s \<Longrightarrow> err = DTLS1_HM_FRAGMENT_RETRY"
      using out_of_seq_ok [OF tr(1,2) al q vf un] by blast
    have "handle_fragment e ?w s = Some (Inl ((False, err, 0), s'))"
      using 1 o(1) len unfolding handle_fragment_def hdr Let_def by simp
    then show ?thesis using 1 o(2-4) by (auto simp: handled_def)
  next
    case 2
    obtain err s' where o: "dtls1_reassemble_fragment e ?h s = Some (err, s')"
      "err = DTLS1_HM_FRAGMENT_RETRY \<Longrightarrow> \<exists>q. queued P unread g r s s' q \<and> {off..<off + len} \<subseteq> got q m"
      "err = DTLS1_HM_FRAGMENT_RETRY \<or> err = - 1"
      "heap_full e \<Longrightarrow> length (body P m) \<le> dtls1_max_handshake_message_len s \<Longrightarrow> err = DTLS1_HM_FRAGMENT_RETRY"
      using reassemble_ok [OF tr(1,2) al q vf _ un] 2 by blast
    have "handle_fragment e ?w s = Some (Inl ((False, err, 0), s'))"
      using 2 o(1) len unfolding handle_fragment_def hdr Let_def by simp
    moreover have "body P m \<noteq> []" using 2 by auto
    ultimately show ?thesis using o(2-4) by (auto simp: handled_def)
  next
    case 3
    then have t0: "fst (P m) = 0" unfolding hello_request_expected_def w0 by (simp add: unsigned_eq_0_iff)
    show ?thesis
    proof (cases "?w ! 1 = 0 \<and> ?w ! 2 = 0 \<and> ?w ! 3 = 0")
      case True
      define s' where "s' = (if query e has_msg_callback s \<noteq> 0
        then snd (do_io e (msg_callback_in SSL3_RT_HANDSHAKE ?w) s) else s)\<lparr>init_num := 0\<rparr>"
      have "handle_fragment e ?w s = Some (Inr s')"
        using 3 len True unfolding handle_fragment_def hdr Let_def s'_def by simp
      moreover have "queued P unread g r s s' (recv_queue s)"
      proof -
        have "length (body P m) = 0"
          using header_msg_len_zero [of ?h] True vf by (simp add: valid_frame_def)
        then have "unread (world s') = r" "g (world s') = g (world s)"
          using un tr(3) 3 by (simp_all add: s'_def do_io_eq transportD(5) [OF tr(1)] io_keeps_def chunk_def)
        then show ?thesis using q by (simp add: queued_def s'_def do_io_eq recv_view_def)
      qed
      ultimately show ?thesis using 3(1) t0 by (simp add: handled_def)
    next
      case False
      then have "handle_fragment e ?w s = Some (Inl (reasm_fatal e SSL_AD_UNEXPECTED_MESSAGE SSL_R_UNEXPECTED_MESSAGE s))"
        using 3 len unfolding handle_fragment_def hdr Let_def by auto
      then show ?thesis using t0 by (simp add: handled_def reasm_fatal_def)
    qed
  next
    case 4
    then have o: "off = 0" "chunk off len (body P m) = body P m" using fit by (auto simp: chunk_def)
    obtain ok err l s' where w: "receive_whole e (frame_header P m 0 (length (body P m))) s = ((ok, err, l), s')"
      by (metis prod.collapse)
    note rw = receive_whole_ok [OF tr(1,2) al rd _ _ w, of r]
    have "handle_fragment e ?w s = Some (Inl ((ok, err, l), s'))"
      using 4 len w o unfolding handle_fragment_def hdr Let_def by simp
    then show ?thesis using rw vf un o 4 by (auto simp: handled_def)
  qed
qed

lemma queued_ready:
  assumes "queued P unread g r s s' q" and "recv_ok P s" and "r_msg_hdr (d1 s) = hm_header_zero" and "framed P r"
  shows "ready P unread (rseq s) s'" and "recv_queue s' = q" and "g (world s') = g (world s)" and "unread (world s') = r"
    and "dtls1_max_handshake_message_len s' = dtls1_max_handshake_message_len s"
  using assms by (auto simp: queued_def ready_def recv_ok_def buffer_ok_def recv_view_def dtls1_max_handshake_message_len_def)

lemma receive_ccs_ok:
  assumes "recv_ok P s" and "length wire \<le> 12" and "receive_ccs e wire s = ((ok, err, len), s')"
  shows "if ok then recv_ok P s' \<and> rseq s' = rseq s \<and> world s' = world s \<and>
      message_type (s3 s') = SSL3_MT_CHANGE_CIPHER_SPEC else err = 0"
proof -
  obtain b where b: "init_buf s = Some b" "buf_wf b" "12 \<le> buf_max b" using assms(1) by (auto simp: recv_ok_def buffer_ok_def)
  then obtain b' where "write_init_buf 0 wire s = s\<lparr>init_buf := Some b'\<rparr>" "buf_wf b'" "buf_max b' = buf_max b"
    using init_buf_write [OF b(1,2), of 0 wire] assms(2) by auto
  then show ?thesis using assms(1,3) b(3)
    by (auto simp: receive_ccs_def reasm_fatal_def Let_def recv_ok_def buffer_ok_def split: if_splits)
qed

lemma max_len_upd_d1 [simp]: "dtls1_max_handshake_message_len (upd_d1 f s) = dtls1_max_handshake_message_len s"
  by (simp add: dtls1_max_handshake_message_len_def)

lemma max_len_view:
  "recv_view s = recv_view t \<Longrightarrow> dtls1_max_handshake_message_len s = dtls1_max_handshake_message_len t"
  using recv_view_simps(3) [of s t] by (simp add: dtls1_max_handshake_message_len_def cong: if_cong)

lemma preprocess_full:
  assumes "heap_full e" and "length (body P n) \<le> dtls1_max_handshake_message_len s" and "length (body P n) < 2 ^ 24"
    and "buffer_ok s" and "r_msg_hdr (d1 s) = hm_header_zero"
  shows "fst (dtls1_preprocess_fragment e (frame_header P n 0 (length (body P n))) s)"
proof -
  obtain b where "init_buf s = Some b" using assms(4) by (auto simp: buffer_ok_def)
  moreover have "fst (BUF_MEM_grow_clean (heap e) b (length (body P n) + 12)) \<noteq> 0"
    using assms(1,3) by (intro grow_clean_full) simp_all
  ultimately show ?thesis using assms(2,5)
    by (auto simp: dtls1_preprocess_fragment_def hm_header_zero_def Let_def split_beta)
qed

lemma retrieve_ret:
  assumes "queue_ok P (recv_queue s)" and "pqueue_map (recv_queue s) (rseq s) = Some f" and "reassembly f = None"
  shows "\<exists>q. fst (dtls1_retrieve_buffered_fragment e s) =
    (if fst (dtls1_preprocess_fragment e (frame_header P (rseq s) 0 (length (body P (rseq s))))
       (upd_d1 (\<lambda>d. d\<lparr>buffered_messages := q\<rparr>) s)) then 1 else - 1)"
proof -
  obtain x where x: "pqueue_peek (skip_stale (rseq s) (recv_queue s)) = Some x" "item_data x = f"
    using peek_skip_stale [OF assms(1), of "rseq s"] assms(2) by (auto split: option.splits if_splits)
  have "msg_header f = frame_header P (rseq s) 0 (length (body P (rseq s)))"
    using queue_ok_map(2) [OF assms(1,2)] by (simp add: frag_ok_def)
  then show ?thesis using x assms(3)
    by (intro exI [of _ "snd (pqueue_pop (skip_stale (rseq s) (recv_queue s)))"])
      (simp add: dtls1_retrieve_buffered_fragment_def Let_def split_beta)
qed

text \<open>Whether the message in turn is complete in the queue decides what an attempt begins with.\<close>

definition complete_in_queue :: "'w ssl \<Rightarrow> bool" where
  "complete_in_queue s \<longleftrightarrow> (\<exists>f. pqueue_map (recv_queue s) (rseq s) = Some f \<and> reassembly f = None)"

lemma attempt_buffered:
  assumes "alloc_ok (heap e)" and "ready P unread n s" and "complete_in_queue s"
  shows "\<exists>res. redo_iteration e s = Some (Inl res) \<and> attempt_post P unread n res \<and>
    (heap_full e \<longrightarrow> length (body P n) \<le> dtls1_max_handshake_message_len s \<longrightarrow> length (body P n) < 2 ^ 24 \<longrightarrow>
      fst (fst res) \<and> holds_message P n (snd res))"
proof -
  have rd: "recv_ok P s" "r_msg_hdr (d1 s) = hm_header_zero" "framed P (unread (world s))" "rseq s = n"
    using assms(2) by (simp_all add: ready_def)
  have q: "queue_ok P (recv_queue s)" and bo: "buffer_ok s" using rd(1) by (simp_all add: recv_ok_def)
  obtain f where f: "pqueue_map (recv_queue s) (rseq s) = Some f" "reassembly f = None"
    using assms(3) by (auto simp: complete_in_queue_def)
  obtain ret len s' where r: "dtls1_retrieve_buffered_fragment e s = (ret, len, s')" by (metis prod_cases3)
  obtain q' where q': "ret = (if fst (dtls1_preprocess_fragment e (frame_header P n 0 (length (body P n)))
       (upd_d1 (\<lambda>d. d\<lparr>buffered_messages := q'\<rparr>) s)) then 1 else - 1)"
    using retrieve_ret [OF q f, of e] r rd(4) by auto
  have full: "ret = 1" if "heap_full e" "length (body P n) \<le> dtls1_max_handshake_message_len s" "length (body P n) < 2 ^ 24"
    using preprocess_full [of e P n "upd_d1 (\<lambda>d. d\<lparr>buffered_messages := q'\<rparr>) s"] that bo rd(2) q'
    by (simp add: buffer_ok_def)
  show ?thesis
  proof (cases "ret = 1")
    case True
    then have "redo_iteration e s = Some (Inl ((True, 0, len), s'\<lparr>init_num := len\<rparr>))"
      using r by (simp add: redo_iteration_def)
    moreover have "len = length (body P n) \<and> holds_message P n s' \<and> recv_ok P s' \<and> rseq s' = n \<and> world s' = world s"
      using retrieve_some [OF assms(1) rd(1,2) f r] True rd(4) by simp
    ultimately show ?thesis using rd(3)
      by (auto simp: attempt_post_def recv_ok_def buffer_ok_def holds_message_def)
  next
    case False
    then have "ret < 0" using q' by (simp split: if_splits)
    then have "redo_iteration e s = Some (Inl ((False, 0, 0), s'))" using r by (simp add: redo_iteration_def)
    then show ?thesis using full False by (auto simp: attempt_post_def)
  qed
qed

lemma attempt_unbuffered:
  assumes "ready P unread n s" and "\<not> complete_in_queue s"
  obtains s1 where "ready P unread n s1" "world s1 = world s"
    "got (recv_queue s) n = got (recv_queue s1) n" "recv_queue s1 = skip_stale n (recv_queue s)"
    "dtls1_max_handshake_message_len s1 = dtls1_max_handshake_message_len s" "\<not> complete_in_queue s1"
    "dtls1_retrieve_buffered_fragment e s = (0, 0, s1)"
proof -
  have q: "queue_ok P (recv_queue s)" and n: "rseq s = n" using assms(1) by (simp_all add: ready_def recv_ok_def)
  define s1 where "s1 = upd_d1 (\<lambda>d. d\<lparr>buffered_messages := skip_stale n (recv_queue s)\<rparr>) s"
  note sk = skip_stale_ok [OF q, of n]
  have "ready P unread n s1" using assms(1) sk n by (simp add: ready_def recv_ok_def buffer_ok_def s1_def)
  moreover have "got (recv_queue s) n = got (recv_queue s1) n" using sk by (simp add: got_def s1_def)
  moreover have "\<not> complete_in_queue s1" using assms(2) sk n by (simp add: complete_in_queue_def s1_def)
  moreover have "dtls1_retrieve_buffered_fragment e s = (0, 0, s1)"
    using retrieve_none [OF q] assms(2) n by (auto simp: complete_in_queue_def s1_def)
  ultimately show thesis
    by (intro that [of s1]) (simp_all add: s1_def dtls1_max_handshake_message_len_def)
qed

lemma redo_iteration_ok:
  assumes "transport e unread P" and "alloc_ok (heap e)" and "ready P unread n s" and "redo_iteration e s = Some x"
  shows "case x of Inl res \<Rightarrow> attempt_post P unread n res | Inr s' \<Rightarrow> ready P unread n s'"
proof (cases "complete_in_queue s")
  case True
  then show ?thesis using attempt_buffered [OF assms(2,3)] assms(4) by auto
next
  case False
  obtain s1 where s1: "ready P unread n s1" "dtls1_retrieve_buffered_fragment e s = (0, 0, s1)"
    using attempt_unbuffered [OF assms(3) False] by metis
  have r1: "recv_ok P s1" "r_msg_hdr (d1 s1) = hm_header_zero" "framed P (unread (world s1))" "rseq s1 = n"
    using s1(1) by (simp_all add: ready_def)
  obtain i rt wire s2 where r: "read_bytes e 12 s1 = ((i, rt, wire), s2)" by (metis prod.collapse)
  show ?thesis
  proof (cases "0 < i")
    case False
    then show ?thesis using assms(4) s1(2) r by (auto simp: redo_iteration_def attempt_post_def)
  next
    case True
    have v: "recv_view s2 = recv_view s1" using header_read [OF assms(1) r1(3) r True] by simp
    have r2: "recv_ok P s2" "r_msg_hdr (d1 s2) = hm_header_zero" "rseq s2 = n"
      using r1 v by (simp_all add: recv_ok_def buffer_ok_def recv_view_def)
    from header_read [OF assms(1) r1(3) r True] consider
      "rt = SSL3_RT_CHANGE_CIPHER_SPEC" "length wire \<le> 12" "unread (world s2) = []"
      | m off len rest where "rt = SSL3_RT_HANDSHAKE" "valid_frame P m off len" "framed P rest"
        "wire = dtls1_write_message_header (frame_header P m off len)" "unread (world s2) = chunk off len (body P m) @ rest"
      by blast
    then show ?thesis
    proof cases
      case 1
      obtain ok err len s3 where c: "receive_ccs e wire s2 = ((ok, err, len), s3)" by (metis prod.collapse)
      have "x = Inl ((ok, err, len), s3)" using assms(4) s1(2) r True 1 c by (simp add: redo_iteration_def)
      then show ?thesis using receive_ccs_ok [OF r2(1) 1(2) c] r2(3) 1(3)
        by (simp add: attempt_post_def framed_Nil split: if_splits)
    next
      case (2 m off len rest)
      have io: "io_keeps e (\<lambda>_. ())" by (simp add: io_keeps_def)
      have "redo_iteration e s = handle_fragment e wire s2"
        using s1(2) r True 2 by (simp add: redo_iteration_def)
      then have "handled P unread (\<lambda>_. ()) m {off..<off + len} rest s2 x"
        using handle_fragment_ok [OF assms(1) within_record_unit io assms(2) r2(1,2) 2(2,5)] assms(4) 2(4) by auto
      then show ?thesis using queued_ready(1) [OF _ r2(1,2) 2(3)] r2(3) 2(3)
        by (auto simp: handled_def attempt_post_def split: sum.splits if_splits)
    qed
  qed
qed

lemma attempt_ok:
  assumes "transport e unread P" and "alloc_ok (heap e)" and "ready P unread n s"
    and "dtls_get_reassembled_message e s = Some res"
  shows "attempt_post P unread n res"
proof -
  have "e' = e \<longrightarrow> ready P unread n s' \<longrightarrow> attempt_post P unread n res'"
    if "dtls_get_reassembled_message e' s' = Some res'" for e' s' res'
    by (rule dtls_get_reassembled_message.raw_induct [OF _ that])
      (use redo_iteration_ok [OF assms(1,2)] in \<open>fastforce split: option.splits sum.splits\<close>)
  with assms(3,4) show ?thesis by blast
qed

subsection \<open>Delivery\<close>

text \<open>The message in the buffer with its header in front, as one frame.\<close>

definition delivered :: "peer \<Rightarrow> ('w \<Rightarrow> byte list) \<Rightarrow> nat \<Rightarrow> int \<Rightarrow> nat \<Rightarrow> 'w ssl \<Rightarrow> bool" where
  "delivered P unread n mt len s \<longleftrightarrow>
     mt = int (unat (fst (P n))) \<and> len = length (body P n) \<and>
     init_bytes 0 (DTLS1_HM_HEADER_LENGTH + len) s = frame P n 0 len \<and>
     rseq s = (n + 1) mod 2 ^ 16 \<and> recv_ok P s \<and> framed P (unread (world s))"

lemma deliver_message_ok:
  assumes "transport e unread P" and "holds_message P n s" and "recv_ok P s" and "rseq s = n" and "framed P (unread (world s))"
    and "deliver_message e (message_type (s3 s)) (length (body P n)) s = ((ret, mt, len), s')" and "ret \<noteq> 0"
  shows "delivered P unread n mt len s'"
proof -
  let ?bd = "body P n" and ?h = "r_msg_hdr (d1 s)"
  obtain b d where b: "init_buf s = Some b" "buf_wf b" "buf_data b = Some d" "12 + length ?bd \<le> buf_max b"
    "chunk 12 (length ?bd) d = ?bd" using assms(2) by (auto simp: holds_message_def)
  define w where "w = dtls1_write_message_header (frame_header P n 0 (length ?bd))"
  have w: "dtls1_write_message_header (?h\<lparr>frag_off := 0, frag_len := msg_len ?h\<rparr>) = w"
    using assms(2) by (simp add: w_def dtls1_write_message_header_def holds_message_def)
  obtain b' where b': "write_init_buf 0 w s = s\<lparr>init_buf := Some b'\<rparr>" "buf_wf b'" "buf_max b' = buf_max b"
    "buf_data b' = Some (overwrite 0 w d)"
    using init_buf_write [OF b(1,2), of 0 w] b(3,4) by (auto simp: w_def)
  have "init_bytes 0 (12 + length ?bd) s1 = frame P n 0 (length ?bd)" if "init_buf s1 = Some b'" for s1 :: "'a ssl"
  proof -
    have "length d = buf_max b" using b(2,3) by (simp add: buf_wf_def)
    moreover have "length w = 12" by (simp add: w_def)
    ultimately have "chunk 0 12 (overwrite 0 w d) = w" "chunk 12 (length ?bd) (overwrite 0 w d) = ?bd"
      using b(4,5) by (simp_all add: chunk_0_take overwrite_def chunk_def)
    then show ?thesis using that b'(4) chunk_split [of 12 "12 + length ?bd" "overwrite 0 w d"]
      by (simp add: init_bytes_def frame_def w_def chunk_0_take)
  qed
  moreover have "init_buf s' = Some b' \<and> d1 s' = (d1 s)\<lparr>r_msg_hdr := hm_header_zero, handshake_read_seq := (n + 1) mod 2 ^ 16\<rparr> \<and>
      unread (world s') = unread (world s) \<and> mt = message_type (s3 s) \<and> len = length ?bd"
  proof -
    define s0 where "s0 = s\<lparr>init_buf := Some b'\<rparr>"
    obtain r1 s1 where c1: "(if message_type (s3 s) = SSL3_MT_FINISHED then call e ssl3_take_mac s0 else (1, s0)) = (r1, s1)"
      by fastforce
    have v1: "recv_view s1 = recv_view s0" "unread (world s1) = unread (world s0)"
      using c1 transportD(6) [OF assms(1), of s0] by (auto split: if_splits)
    obtain off mac_len :: nat where om: "(if version s0 \<noteq> DTLS1_BAD_VER then (0, msg_len ?h + 12) else (12, msg_len ?h)) = (off, mac_len)"
      by fastforce
    obtain r2 s2 where c2: "call e (ssl3_finish_mac (init_bytes off mac_len s1)) s1 = (r2, s2)" by fastforce
    note v2 = transportD(7) [OF assms(1) c2]
    have run: "deliver_message e (message_type (s3 s)) (length ?bd) s =
        (if r1 = 0 then ((0, message_type (s3 s), length ?bd), s1)
         else if r2 = 0 then ((0, message_type (s3 s), length ?bd), s2)
         else let t = (if query e has_msg_callback s2 \<noteq> 0
                 then snd (do_io e (msg_callback_in SSL3_RT_HANDSHAKE (init_bytes off mac_len s2)) s2) else s2);
               t = upd_d1 (\<lambda>d. d\<lparr>r_msg_hdr := hm_header_zero, handshake_read_seq := (handshake_read_seq d + 1) mod 2 ^ 16\<rparr>) t
             in ((1, message_type (s3 s), length ?bd), t\<lparr>init_msg := 12\<rparr>))"
      unfolding deliver_message_def Let_def w b'(1) s0_def [symmetric] by (simp only: om c1 c2 prod.case)
    show ?thesis using assms(4,6,7) v1 v2 transportD(5) [OF assms(1)]
      by (auto simp: run Let_def s0_def recv_view_def do_io_eq split: if_splits)
  qed
  ultimately show ?thesis using assms(2,3,5) b(4) b'(2,3)
    by (auto simp: delivered_def holds_message_def recv_ok_def buffer_ok_def)
qed

lemma get_message_again_ok:
  assumes "transport e unread P" and "alloc_ok (heap e)" and "ready P unread n s"
    and "get_message_again e s = Some ((ret, mt, len), s')" and "ret \<noteq> 0" and "mt \<noteq> SSL3_MT_CHANGE_CIPHER_SPEC"
  shows "delivered P unread n mt len s'"
proof -
  have "e' = e \<longrightarrow> ready P unread n s0 \<longrightarrow>
      (case res of ((ret, mt, len), s') \<Rightarrow> ret \<noteq> 0 \<longrightarrow> mt \<noteq> SSL3_MT_CHANGE_CIPHER_SPEC \<longrightarrow> delivered P unread n mt len s')"
    if "get_message_again e' s0 = Some res" for e' s0 res
  proof (rule get_message_again.raw_induct [OF _ that], intro impI)
    fix f e0 s0 res
    assume IH: "\<And>e' s0 res. f e' s0 = Some res \<Longrightarrow> e' = e \<longrightarrow> ready P unread n s0 \<longrightarrow>
        (case res of ((ret, mt, len), s') \<Rightarrow> ret \<noteq> 0 \<longrightarrow> mt \<noteq> SSL3_MT_CHANGE_CIPHER_SPEC \<longrightarrow> delivered P unread n mt len s')"
      and step: "(case dtls_get_reassembled_message e0 s0 of None \<Rightarrow> None
        | Some ((ret, errtype, _), s) \<Rightarrow>
           if \<not> ret then
             (if errtype = DTLS1_HM_BAD_FRAGMENT \<or> errtype = DTLS1_HM_FRAGMENT_RETRY
              then f e0 s else Some ((0, 0, 0), s))
           else
             let mt = message_type (s3 s); len = init_num s in
             if mt = SSL3_MT_CHANGE_CIPHER_SPEC then
               Some ((1, mt, len),
                     if query e0 has_msg_callback s \<noteq> 0
                     then snd (do_io e0 (msg_callback_in SSL3_RT_CHANGE_CIPHER_SPEC (init_bytes 0 1 s)) s) else s)
             else Some (deliver_message e0 mt len s)) = Some res"
      and e: "e0 = e" and rd: "ready P unread n s0"
    obtain ok err l s1 where a: "dtls_get_reassembled_message e s0 = Some ((ok, err, l), s1)"
      using step e by (auto split: option.splits)
    note post = attempt_ok [OF assms(1,2) rd a]
    show "case res of ((ret, mt, len), s') \<Rightarrow> ret \<noteq> 0 \<longrightarrow> mt \<noteq> SSL3_MT_CHANGE_CIPHER_SPEC \<longrightarrow> delivered P unread n mt len s'"
    proof (cases ok)
      case False
      then show ?thesis using step e a post IH [of e s1 res] by (auto simp: attempt_post_def split: if_splits)
    next
      case True
      then show ?thesis using step e a post deliver_message_ok [OF assms(1), of n s1]
        by (auto simp: attempt_post_def Let_def split: if_splits)
    qed
  qed
  from this [OF assms(4)] assms(3,5,6) show ?thesis by simp
qed

subsection \<open>A message whose fragments arrive is delivered\<close>

type_synonym frames = "(nat \<times> nat \<times> nat) list"

definition frames_bytes :: "peer \<Rightarrow> frames \<Rightarrow> byte list" where
  "frames_bytes P fs = concat (map (\<lambda>(n, off, len). frame P n off len) fs)"

text \<open>
  A record layer that has more records to come: \<open>todo\<close> lists the frames of each.  The next one is
  delivered when the current one has been read.
\<close>

definition feeds :: "'w env \<Rightarrow> ('w \<Rightarrow> byte list) \<Rightarrow> ('w \<Rightarrow> frames list) \<Rightarrow> peer \<Rightarrow> bool" where
  "feeds e unread todo P \<longleftrightarrow>
     within_record e unread todo \<and> io_keeps e todo \<and> (\<forall>w. [] \<notin> set (todo w)) \<and>
     (\<forall>s n r rs. unread (world s) = [] \<longrightarrow> todo (world s) = r # rs \<longrightarrow> 0 < n \<longrightarrow>
        (\<exists>i s'. 0 < i \<and> read_bytes e n s = ((i, SSL3_RT_HANDSHAKE, take n (frames_bytes P r)), s') \<and>
           unread (world s') = drop n (frames_bytes P r) \<and> todo (world s') = rs))"

definition macs_ok :: "'w env \<Rightarrow> bool" where
  "macs_ok e \<longleftrightarrow> (\<forall>s. fst (call e ssl3_take_mac s) \<noteq> 0) \<and> (\<forall>bs s. fst (call e (ssl3_finish_mac bs) s) \<noteq> 0)"

text \<open>The frames that are still to come, in order: of the record at hand and of the later ones.\<close>

definition to_come :: "peer \<Rightarrow> ('w \<Rightarrow> byte list) \<Rightarrow> ('w \<Rightarrow> frames list) \<Rightarrow> frames \<Rightarrow> 'w ssl \<Rightarrow> bool" where
  "to_come P unread todo fs s \<longleftrightarrow>
     (\<exists>us. unread (world s) = frames_bytes P us \<and> fs = us @ concat (todo (world s)))"

lemma frames_bytes_simps [simp]:
  "frames_bytes P [] = []" "frames_bytes P ((n, off, len) # fs) = frame P n off len @ frames_bytes P fs"
  by (simp_all add: frames_bytes_def)

lemma frame_not_Nil [simp]: "frame P n off len \<noteq> []"
  by (simp add: frame_def dtls1_write_message_header_def)

lemma feed_header:
  assumes "transport e unread P" and "feeds e unread todo P" and "to_come P unread todo ((m, off, len) # fs) s"
    and "valid_frame P m off len"
  shows "\<exists>i s' r. 0 < i \<and>
    read_bytes e 12 s = ((i, SSL3_RT_HANDSHAKE, dtls1_write_message_header (frame_header P m off len)), s') \<and>
    unread (world s') = chunk off len (body P m) @ frames_bytes P r \<and> fs = r @ concat (todo (world s'))"
proof -
  obtain us where us: "unread (world s) = frames_bytes P us" "(m, off, len) # fs = us @ concat (todo (world s))"
    using assms(3) by (auto simp: to_come_def)
  note parse = frame_parse(1) [OF assms(4)] frame_parse(3) [OF assms(4)]
  have f: "within_record e unread todo" "[] \<notin> set (todo (world s))" using assms(2) by (simp_all add: feeds_def)
  show ?thesis
  proof (cases us)
    case (Cons u us')
    then have u: "u = (m, off, len)" "fs = us' @ concat (todo (world s))" "unread (world s) = frame P m off len @ frames_bytes P us'"
      using us by auto
    then have "unread (world s) \<noteq> []" by simp
    from read_within [OF assms(1) f(1) this, of 12] show ?thesis
      using u(2,3) parse by (metis zero_less_numeral)
  next
    case Nil
    then have "unread (world s) = []" "concat (todo (world s)) = (m, off, len) # fs" using us by simp_all
    moreover then obtain r rs where r: "todo (world s) = r # rs" by (cases "todo (world s)") auto
    moreover have "r \<noteq> []" using f(2) r by auto
    ultimately obtain r' where r': "r = (m, off, len) # r'" "fs = r' @ concat rs" by (cases r) auto
    have "\<exists>i s'. 0 < i \<and> read_bytes e 12 s = ((i, SSL3_RT_HANDSHAKE, take 12 (frames_bytes P r)), s') \<and>
           unread (world s') = drop 12 (frames_bytes P r) \<and> todo (world s') = rs"
      using assms(2) \<open>unread (world s) = []\<close> r unfolding feeds_def by (meson zero_less_numeral)
    then show ?thesis using r' parse by (metis frames_bytes_simps(2))
  qed
qed

definition parts :: "nat \<Rightarrow> frames \<Rightarrow> nat set" where
  "parts n fs = (\<Union>(m, off, len) \<in> set fs. if m = n then {off..<off + len} else {})"

lemma parts_Cons: "parts n ((m, off, len) # fs) = (if m = n then {off..<off + len} else {}) \<union> parts n fs"
  by (simp add: parts_def)

text \<open>Every byte of the message has been received or is to come; an empty message has a frame.\<close>

definition covered :: "peer \<Rightarrow> nat \<Rightarrow> frames \<Rightarrow> 'w ssl \<Rightarrow> bool" where
  "covered P n fs s \<longleftrightarrow>
     {..<length (body P n)} \<subseteq> got (recv_queue s) n \<union> parts n fs \<and>
     (body P n = [] \<longrightarrow> complete_in_queue s \<or> n \<in> fst ` set fs)"

definition frames_ok :: "peer \<Rightarrow> nat \<Rightarrow> frames \<Rightarrow> bool" where
  "frames_ok P lim fs \<longleftrightarrow>
     (\<forall>(m, off, len) \<in> set fs. valid_frame P m off len \<and> length (body P m) \<le> lim \<and> fst (P m) \<noteq> 0)"

lemma framed_frames: "frames_ok P lim fs \<Longrightarrow> framed P (frames_bytes P fs)"
  by (induction fs) (auto simp: frames_ok_def intro: framed.intros)

lemma reassembled_Inl: "redo_iteration e s = Some (Inl r) \<Longrightarrow> dtls_get_reassembled_message e s = Some r"
  by (subst dtls_get_reassembled_message.simps) simp

lemma type_not_ccs: "int (unat (b :: byte)) \<noteq> SSL3_MT_CHANGE_CIPHER_SPEC"
  using unat_byte_less [of b] by linarith

lemma reassembled_delivers:
  assumes "macs_ok e" and "dtls_get_reassembled_message e s = Some ((True, err, l), s')" and "holds_message P n s'"
  shows "\<exists>len s''. get_message_again e s = Some ((1, int (unat (fst (P n))), len), s'')"
proof -
  have mt: "message_type (s3 s') = int (unat (fst (P n)))" using assms(3) by (simp add: holds_message_def)
  moreover have "int (unat (fst (P n))) \<noteq> SSL3_MT_CHANGE_CIPHER_SPEC" by (rule type_not_ccs)
  moreover have "\<exists>len s''. deliver_message e t k s' = ((1, t, len), s'')" for t k
    using assms(1) by (auto simp: macs_ok_def deliver_message_def Let_def split_beta)
  ultimately show ?thesis using assms(2) by (subst get_message_again.simps) simp
qed

lemma uncovered_incomplete:
  assumes "ready P unread n s" and "\<not> complete_in_queue s" and "covered P n [] s"
  shows False
proof -
  have q: "queue_ok P (recv_queue s)" and n: "rseq s = n" using assms(1) by (simp_all add: ready_def recv_ok_def)
  have c: "{..<length (body P n)} \<subseteq> got (recv_queue s) n" "body P n \<noteq> []"
    using assms(2,3) by (auto simp: covered_def parts_def)
  then obtain f where f: "pqueue_map (recv_queue s) n = Some f" by (auto simp: got_def split: option.splits)
  obtain bm where bm: "reassembly f = Some bm" using assms(2) n f by (auto simp: complete_in_queue_def)
  then obtain i where "i < length (body P n)" "\<not> marked bm i"
    using queue_ok_map(2) [OF q f] by (auto simp: frag_ok_def)
  then show False using c(1) f bm by (auto simp: got_def)
qed

lemma progress:
  assumes tr: "transport e unread P" and fd: "feeds e unread todo P" and al: "alloc_ok (heap e)" and full: "heap_full e"
    and mac: "macs_ok e" and n: "length (body P n) < 2 ^ 24" "length (body P n) \<le> lim"
  shows "ready P unread n s \<Longrightarrow> to_come P unread todo fs s \<Longrightarrow> frames_ok P lim fs \<Longrightarrow> covered P n fs s \<Longrightarrow>
    dtls1_max_handshake_message_len s = lim \<Longrightarrow>
    \<exists>len s'. get_message_again e s = Some ((1, int (unat (fst (P n))), len), s')"
proof (induction fs arbitrary: s)
  case Nil
  then have "complete_in_queue s" using uncovered_incomplete by blast
  then obtain res where "redo_iteration e s = Some (Inl res)" "fst (fst res)" "holds_message P n (snd res)"
    using attempt_buffered [OF al Nil(1)] full n Nil(5) by blast
  then show ?case using reassembled_delivers [OF mac reassembled_Inl] by (metis prod.collapse)
next
  case (Cons fr fs)
  show ?case
  proof (cases "complete_in_queue s")
    case True
    then obtain res where "redo_iteration e s = Some (Inl res)" "fst (fst res)" "holds_message P n (snd res)"
      using attempt_buffered [OF al Cons.prems(1)] full n Cons.prems(5) by blast
    then show ?thesis using reassembled_delivers [OF mac reassembled_Inl] by (metis prod.collapse)
  next
    case False
    obtain m off len where fr: "fr = (m, off, len)" by (cases fr)
    have vf: "valid_frame P m off len" "length (body P m) \<le> lim" "fst (P m) \<noteq> 0" and fok: "frames_ok P lim fs"
      using Cons.prems(3) fr by (auto simp: frames_ok_def)
    obtain s1 where s1: "ready P unread n s1" "world s1 = world s" "got (recv_queue s) n = got (recv_queue s1) n"
      "dtls1_max_handshake_message_len s1 = lim" "dtls1_retrieve_buffered_fragment e s = (0, 0, s1)"
      using attempt_unbuffered [OF Cons.prems(1) False, of e] Cons.prems(5) by metis
    have tc: "to_come P unread todo ((m, off, len) # fs) s1" using Cons.prems(2) fr s1(2) by (simp add: to_come_def)
    obtain i s2 r where r: "0 < i" "read_bytes e 12 s1 =
        ((i, SSL3_RT_HANDSHAKE, dtls1_write_message_header (frame_header P m off len)), s2)"
      "unread (world s2) = chunk off len (body P m) @ frames_bytes P r" "fs = r @ concat (todo (world s2))"
      using feed_header [OF tr fd tc vf(1)] by blast
    have v: "recv_view s2 = recv_view s1" by (rule transportD(1) [OF tr r(2)])
    have r2: "recv_ok P s2" "r_msg_hdr (d1 s2) = hm_header_zero" "rseq s2 = n" "dtls1_max_handshake_message_len s2 = lim"
      "recv_queue s2 = recv_queue s1"
      using s1(1,4) v max_len_view [OF v] by (simp_all add: ready_def recv_ok_def buffer_ok_def recv_view_def)
    have w: "within_record e unread todo" "io_keeps e todo" using fd by (simp_all add: feeds_def)
    have it: "redo_iteration e s = handle_fragment e (dtls1_write_message_header (frame_header P m off len)) s2"
      using s1(5) r(1,2) by (simp add: redo_iteration_def)
    obtain res where res: "redo_iteration e s = Some res"
      "handled P unread todo m {off..<off + len} (frames_bytes P r) s2 res"
      "case res of Inl ((ok, err, len), s') \<Rightarrow> ok \<or> err = DTLS1_HM_FRAGMENT_RETRY | Inr _ \<Rightarrow> False"
      using handle_fragment_ok [OF tr w al r2(1,2) vf(1) r(3)] full vf(2,3) r2(4) unfolding it by blast
    obtain ok err l s' where rs: "res = Inl ((ok, err, l), s')" "ok \<or> err = DTLS1_HM_FRAGMENT_RETRY"
      using res(3) by (auto split: sum.splits prod.splits)
    show ?thesis
    proof (cases ok)
      case True
      then show ?thesis using res(1,2) rs reassembled_delivers [OF mac reassembled_Inl] r2(3)
        by (auto simp: handled_def)
    next
      case nok: False
      obtain q where q: "queued P unread todo (frames_bytes P r) s2 s' q" "m = n \<longrightarrow> body P m \<noteq> [] \<and> {off..<off + len} \<subseteq> got q m"
        using res(2) rs nok r2(3) by (auto simp: handled_def)
      have fr': "framed P (frames_bytes P r)" using fok r(4) by (intro framed_frames [of P lim]) (auto simp: frames_ok_def)
      note qr = queued_ready [OF q(1) r2(1,2) fr']
      have "got (recv_queue s) n \<subseteq> got q n" using q(1) s1(3) r2(5) by (simp add: queued_def)
      then have "covered P n fs s'"
        using Cons.prems(4) fr q(2) qr(2) False by (auto simp: covered_def parts_Cons split: if_splits)
      then have "\<exists>len s''. get_message_again e s' = Some ((1, int (unat (fst (P n))), len), s'')"
        using qr r2(3,4) r(4) fok by (intro Cons.IH) (auto simp: to_come_def)
      moreover have "get_message_again e s = get_message_again e s'"
        using reassembled_Inl [of e s "((ok, err, l), s')"] res(1) rs nok by (subst get_message_again.simps) simp
      ultimately show ?thesis by simp
    qed
  qed
qed

subsection \<open>Properties\<close>

lemma start_ready:
  assumes "recv_ok P s" and "framed P (unread (world s))"
  shows "ready P unread (rseq s) (upd_d1 (\<lambda>d. d\<lparr>r_msg_hdr := hm_header_zero\<rparr>) s)"
  using assms by (simp add: ready_def recv_ok_def buffer_ok_def)

text \<open>
  C10.  Receiving a DTLS handshake message.  The peer's messages are fragmented in any way, and the record
  layer delivers the fragments in any order, any number of times, overlapping, mixed with fragments of
  other messages and several to a record.  If \<^verbatim>\<open>dtls_get_message\<close> returns success for anything but a
  ChangeCipherSpec, then it has delivered the message whose turn it is: type and length are right, the
  buffer holds the header of an unfragmented message followed by exactly the body that the peer sent,
  the sequence number is advanced by one modulo 65536, and the queue again agrees with the peer's messages.
\<close>

theorem dtls_message_correct:
  assumes "transport e unread P" and "alloc_ok (heap e)" and "recv_ok P s" and "framed P (unread (world s))"
    and "dtls_get_message e s = Some ((ret, mt, len), s')" and "ret \<noteq> 0" and "mt \<noteq> SSL3_MT_CHANGE_CIPHER_SPEC"
  shows "mt = int (unat (fst (P (rseq s)))) \<and> len = length (body P (rseq s)) \<and>
    init_bytes 0 (DTLS1_HM_HEADER_LENGTH + len) s' = frame P (rseq s) 0 len \<and>
    rseq s' = (rseq s + 1) mod 2 ^ 16 \<and> recv_ok P s' \<and> framed P (unread (world s'))"
proof -
  note rd = start_ready [of P s unread, OF assms(3,4)]
  have "delivered P unread (rseq s) mt len s'"
    using get_message_again_ok [OF assms(1,2) rd _ assms(6,7)] assms(5) by (simp add: dtls_get_message_def)
  then show ?thesis unfolding delivered_def by blast
qed

lemma get_message_returns:
  assumes "transport e unread P" and "feeds e unread todo P" and "alloc_ok (heap e)" and "heap_full e" and "macs_ok e"
    and "recv_ok P s" and "to_come P unread todo fs s" and "frames_ok P (dtls1_max_handshake_message_len s) fs"
    and "covered P (rseq s) fs s" and "length (body P (rseq s)) \<le> dtls1_max_handshake_message_len s"
    and "length (body P (rseq s)) < 2 ^ 24"
  shows "framed P (unread (world s)) \<and>
    (\<exists>len s'. dtls_get_message e s = Some ((1, int (unat (fst (P (rseq s)))), len), s'))"
proof -
  let ?s = "upd_d1 (\<lambda>d. d\<lparr>r_msg_hdr := hm_header_zero\<rparr>) s"
  obtain us where us: "unread (world s) = frames_bytes P us" "fs = us @ concat (todo (world s))"
    using assms(7) by (auto simp: to_come_def)
  have "frames_ok P (dtls1_max_handshake_message_len s) us" using assms(8) us(2) by (simp add: frames_ok_def)
  then have f: "framed P (unread (world s))" using us(1) framed_frames by metis
  note rd = start_ready [of P s unread, OF assms(6) f]
  have "to_come P unread todo fs ?s" "covered P (rseq s) fs ?s"
    using assms(7,9) by (simp_all add: to_come_def covered_def complete_in_queue_def)
  then show ?thesis
    using f progress [OF assms(1-5) assms(11,10) rd _ assms(8)] max_len_upd_d1
    unfolding dtls_get_message_def by blast
qed

lemma get_message_delivers:
  assumes "transport e unread P" and "feeds e unread todo P" and "alloc_ok (heap e)" and "heap_full e" and "macs_ok e"
    and "recv_ok P s" and "to_come P unread todo fs s" and "frames_ok P (dtls1_max_handshake_message_len s) fs"
    and "covered P (rseq s) fs s" and "length (body P (rseq s)) \<le> dtls1_max_handshake_message_len s"
    and "length (body P (rseq s)) < 2 ^ 24"
  shows "\<exists>s'. dtls_get_message e s = Some ((1, int (unat (fst (P (rseq s)))), length (body P (rseq s))), s') \<and>
    init_bytes 0 (DTLS1_HM_HEADER_LENGTH + length (body P (rseq s))) s' = frame P (rseq s) 0 (length (body P (rseq s)))"
proof -
  obtain len s' where f: "framed P (unread (world s))"
    and g: "dtls_get_message e s = Some ((1, int (unat (fst (P (rseq s)))), len), s')"
    using get_message_returns [OF assms] by blast
  note rd = start_ready [of P s unread, OF assms(6) f]
  have "delivered P unread (rseq s) (int (unat (fst (P (rseq s))))) len s'"
    using get_message_again_ok [OF assms(1,3) rd g [unfolded dtls_get_message_def]] type_not_ccs by simp
  then show ?thesis using g by (auto simp: delivered_def)
qed

text \<open>
  C11.  A DTLS handshake message whose fragments arrive is delivered.  Suppose that every byte of the message in
  turn has been received or is in a frame still to come, that the messages of all these frames
  respect the size limit and are not HelloRequests, and that allocations and the transcript hash do not fail.
  Then \<^verbatim>\<open>dtls_get_message\<close> returns, and it returns that message: no order, duplication or overlap of
  the fragments makes it fail, loop or wait for more.
\<close>

theorem dtls_message_arrives:
  assumes "transport e unread P" and "feeds e unread todo P" and "alloc_ok (heap e)" and "heap_full e" and "macs_ok e"
    and "recv_ok P s" and "to_come P unread todo fs s" and "frames_ok P (dtls1_max_handshake_message_len s) fs"
    and "covered P (rseq s) fs s" and "length (body P (rseq s)) \<le> dtls1_max_handshake_message_len s"
    and "length (body P (rseq s)) < 2 ^ 24"
  shows "\<exists>s'. dtls_get_message e s = Some ((1, int (unat (fst (P (rseq s)))), length (body P (rseq s))), s') \<and>
    init_bytes 0 (DTLS1_HM_HEADER_LENGTH + length (body P (rseq s))) s' = frame P (rseq s) 0 (length (body P (rseq s)))"
  using assms by (rule get_message_delivers)

text \<open>
  C39.  A fragment of length zero in sequence is taken for a whole message.  When its header claims a message with a
  non-empty body, none of which has arrived, the fragment is nevertheless accepted as complete: the
  reader reports a message of length zero, and the recorded header, with which the transcript is
  computed afterwards, keeps the claimed length.
\<close>

theorem empty_fragment_completes:
  fixes hdr :: msg_hdr
  assumes "hm_header_ok hdr" and "hm_seq hdr = rseq s" and "frag_len hdr = 0" and "frag_off hdr \<le> msg_len hdr"
    and "msg_len hdr \<le> dtls1_max_handshake_message_len s" and "hm_type hdr \<noteq> 0" and "heap_full e" and "alloc_ok (heap e)"
    and "buffer_ok s" and "r_msg_hdr (d1 s) = hm_header_zero" and "0 \<le> query e RECORD_LAYER_get_rrec_length s"
  shows "\<exists>s'. handle_fragment e (dtls1_write_message_header hdr) s = Some (Inl ((True, 0, 0), s')) \<and>
    init_num s' = 0 \<and> msg_len (r_msg_hdr (d1 s')) = msg_len hdr \<and> message_size (s3 s') = msg_len hdr"
proof -
  let ?w = "dtls1_write_message_header hdr" and ?h = "hdr\<lparr>is_ccs := False, saved_retransmit_state := None\<rparr>"
  have hdr: "dtls1_get_message_header ?w = ?h" using get_write_message_header [OF assms(1), of "[]"] by simp
  have w0: "?w ! 0 = hm_type hdr" by (simp add: dtls1_write_message_header_def)
  have nh: "\<not> hello_request_expected ?w s"
    unfolding hello_request_expected_def w0 using assms(6) by (simp add: unsigned_eq_0_iff)
  obtain b where b: "init_buf s = Some b" "buf_wf b" using assms(9) by (auto simp: buffer_ok_def)
  have z: "frag_off (r_msg_hdr (d1 s)) = 0" using assms(10) by (simp add: hm_header_zero_def)
  obtain ok s1 where p: "dtls1_preprocess_fragment e ?h s = (ok, s1)" by fastforce
  have "fst (BUF_MEM_grow_clean (heap e) b (msg_len hdr + 12)) \<noteq> 0"
    using assms(1,7) by (intro grow_clean_full) (simp_all add: hm_header_ok_def)
  then have ok: "dtls1_preprocess_fragment e ?h s = (True, s1)"
    using p b(1) z assms(3-5) by (auto simp: dtls1_preprocess_fragment_def Let_def split_beta split: if_splits)
  have "handle_fragment e ?w s = Some (Inl (receive_whole e ?h s))"
    unfolding handle_fragment_def hdr Let_def using assms(2,3,11) nh by simp
  moreover have "receive_whole e ?h s = ((True, 0, 0), (write_init_buf (12 + frag_off hdr) [] s1)\<lparr>init_num := 0\<rparr>)"
    using ok assms(3) by (simp add: receive_whole_def)
  moreover have "msg_len (r_msg_hdr (d1 s1)) = msg_len hdr" "message_size (s3 s1) = msg_len hdr"
    using preprocess_ok [OF assms(8) b z ok] by auto
  ultimately show ?thesis by (simp add: write_init_buf_def)
qed

subsection \<open>A sample record layer\<close>

text \<open>A record layer whose world is the unread part of the current record and the records to come.\<close>

type_synonym sample_world = "byte list \<times> frames list"

definition sample_peer :: peer where
  "sample_peer n = (if n = 0 then (2, [1, 2, 3]) else (11, [7]))"

definition clean :: "frames list \<Rightarrow> frames list" where
  "clean rs = filter (\<lambda>r. r \<noteq> []) (map (filter (\<lambda>(n, off, len). valid_frame sample_peer n off len)) rs)"

definition sample_read :: "nat \<Rightarrow> sample_world ssl \<Rightarrow> (int \<times> int \<times> byte list) \<times> sample_world ssl" where
  "sample_read n s =
     (if fst (world s) \<noteq> [] then
        ((1, SSL3_RT_HANDSHAKE, take n (fst (world s))), s\<lparr>world := (drop n (fst (world s)), snd (world s))\<rparr>)
      else case clean (snd (world s)) of [] \<Rightarrow> ((- 1, 0, []), s)
      | r # rs \<Rightarrow> ((1, SSL3_RT_HANDSHAKE, take n (frames_bytes sample_peer r)),
                  s\<lparr>world := (drop n (frames_bytes sample_peer r), rs)\<rparr>))"

definition dgram_env :: "sample_world env" where
  "dgram_env =
     \<lparr>io = (\<lambda>_ w. (1, w)),
      query = (\<lambda>q s. case q of RECORD_LAYER_get_rrec_length \<Rightarrow> int (length (fst (world s))) | _ \<Rightarrow> 0),
      call = (\<lambda>_ s. (1, s)), construct = (\<lambda>_ s. (1, s)), process = (\<lambda>_ _ s. (MSG_PROCESS_CONTINUE_READING, s)),
      post_process = (\<lambda>_ _ s. (WORK_FINISHED_CONTINUE, s)), get_header = (\<lambda>s. ((0, 0), s)), get_body = (\<lambda>s. ((0, 0), s)),
      get_dtls = (\<lambda>s. ((0, 0, 0), s)), read_bytes = sample_read, write_bytes = (\<lambda>_ bs s. ((1, length bs), s)),
      SSL_get_ciphers = (\<lambda>_. []), heap = (\<lambda>n. Some (replicate n 0))\<rparr>"

lemma clean_set: "r \<in> set (clean rs) \<Longrightarrow> r \<noteq> [] \<and> (\<forall>(n, off, len) \<in> set r. valid_frame sample_peer n off len)"
  by (auto simp: clean_def)

lemma clean_id:
  assumes "\<forall>r \<in> set rs. r \<noteq> [] \<and> (\<forall>(n, off, len) \<in> set r. valid_frame sample_peer n off len)"
  shows "clean rs = rs"
proof -
  have "map (filter (\<lambda>(n, off, len). valid_frame sample_peer n off len)) rs = rs"
    using assms by (intro map_idI filter_True) auto
  then show ?thesis using assms by (simp add: clean_def)
qed

lemma clean_tail: "clean rs = r # rs' \<Longrightarrow> clean rs' = rs'"
  by (rule clean_id) (metis clean_set list.set_intros(2))

lemma clean_frames:
  assumes "clean rs = r # rs'"
  shows "frames_bytes sample_peer r \<noteq> []" "framed sample_peer (frames_bytes sample_peer r)"
proof -
  have v: "\<forall>(n, off, len) \<in> set r. valid_frame sample_peer n off len" and r: "r \<noteq> []"
    using clean_set [of r rs] assms by auto
  show "frames_bytes sample_peer r \<noteq> []" using r by (cases r) (auto simp: frames_bytes_def)
  show "framed sample_peer (frames_bytes sample_peer r)"
    using v by (induction r) (auto intro: framed.intros)
qed

lemma sample_read_new:
  assumes "fst (world s) = []" and "clean (snd (world s)) = r # rs"
  shows "sample_read n s = ((1, SSL3_RT_HANDSHAKE, take n (frames_bytes sample_peer r)),
    s\<lparr>world := (drop n (frames_bytes sample_peer r), rs)\<rparr>)"
  using assms by (simp add: sample_read_def)

lemma dgram_transport: "transport dgram_env fst sample_peer"
  unfolding transport_def
proof (intro conjI allI impI)
  show "recv_view (snd (read_bytes dgram_env n s)) = recv_view s" for n s
    by (simp add: dgram_env_def sample_read_def recv_view_def split: list.split)
  show "rt = SSL3_RT_CHANGE_CIPHER_SPEC \<and> length bs \<le> n \<and> fst (world s') = [] \<or>
      rt = SSL3_RT_HANDSHAKE \<and> (\<exists>r. r \<noteq> [] \<and> framed sample_peer r \<and> bs = take n r \<and> fst (world s') = drop n r)"
    if "fst (world s) = []" "read_bytes dgram_env n s = ((i, rt, bs), s')" "0 < i" for n s i rt bs s'
  proof (cases "clean (snd (world s))")
    case Nil
    then show ?thesis using that by (simp add: dgram_env_def sample_read_def)
  next
    case (Cons r rs)
    then have "rt = SSL3_RT_HANDSHAKE" "bs = take n (frames_bytes sample_peer r)"
      "fst (world s') = drop n (frames_bytes sample_peer r)"
      using that sample_read_new [OF that(1) Cons, of n] by (auto simp: dgram_env_def)
    then show ?thesis using clean_frames [OF Cons] by blast
  qed
qed (auto simp: dgram_env_def sample_read_def)

lemma dgram_feeds: "feeds dgram_env fst (\<lambda>w. clean (snd w)) sample_peer"
  unfolding feeds_def
proof (intro conjI allI impI)
  show "\<exists>i s'. 0 < i \<and> read_bytes dgram_env n s = ((i, SSL3_RT_HANDSHAKE, take n (frames_bytes sample_peer r)), s') \<and>
      fst (world s') = drop n (frames_bytes sample_peer r) \<and> clean (snd (world s')) = rs"
    if "fst (world s) = []" "clean (snd (world s)) = r # rs" "0 < n" for s n r rs
    using sample_read_new [OF that(1,2), of n] clean_tail [OF that(2)] by (simp add: dgram_env_def)
qed (auto simp: dgram_env_def sample_read_def within_record_def io_keeps_def clean_def)

text \<open>A connection that has received nothing yet.\<close>

definition dtls_conn :: "'w \<Rightarrow> 'w ssl" where
  "dtls_conn w =
     \<lparr>version = DTLS1_2_VERSION,
      meth = \<lparr>method_version = DTLS1_2_VERSION, method_flags = 0, method_mask = 0, enc_flags = SSL_ENC_FLAG_DTLS,
              alert_value = tls1_alert_code\<rparr>,
      server = False, hit = False, shutdown = 0, early_data_state = SSL_EARLY_DATA_NONE,
      hello_retry_request = SSL_HRR_NONE, options = 0, mode = 0, min_proto_version = 0,
      max_proto_version = 0, client_version = DTLS1_2_VERSION, ctx_method_version = DTLS_ANY_VERSION, cert_flags = 0,
      renegotiate = False, new_session = False,
      key_update = SSL_KEY_UPDATE_NONE, post_handshake_auth = SSL_PHA_NONE, cookie_verified = False,
      psk_identity_hint = False, verify_mode = SSL_VERIFY_PEER, certreqs_sent = 0, num_tickets = 2, sent_tickets = 0,
      max_early_data = 0, max_cert_list = 102400, rwstate = SSL_NOTHING, first_packet = False,
      handshake_func = ossl_statem_connect_fn,
      statem = sample_statem TLS_ST_CW_CLNT_HELLO, s3 = sample_s3,
      ext = \<lparr>extflags = [], ticket_expected = False, status_expected = False, ext_early_data = 0,
             session_secret_cb = False\<rparr>,
      session_set = True,
      session = \<lparr>session_tick = False, session_peer = True, session_cipher = None, compress_meth = 0\<rparr>,
      d1 = sample_d1,
      wside = \<lparr>enc_write_ctx = None, write_hash = None, compress = None, max_send_fragment = 16384, init_off = 0,
            w_epoch = 0, write_sequence = replicate 8 0, last_write_sequence = replicate 8 0,
                curr_write_sequence = replicate 8 0\<rparr>,
      init_buf = Some \<lparr>buf_length = 0, buf_data = Some (replicate 16 0), buf_max = 16, buf_flags = 0\<rparr>,
      init_msg = 0, init_num = 0, counters = (\<lambda>_. 0), errs = [],
      world = w\<rparr>"

text \<open>Its record layer holds three records: message 1, which
  comes too early, and message 0 in three overlapping fragments in the wrong order.\<close>

definition sample_frames :: frames where
  "sample_frames = [(1, 0, 1), (0, 2, 1), (0, 0, 1), (0, 1, 2)]"

definition dgram_conn :: "sample_world ssl" where
  "dgram_conn = dtls_conn ([], [[(1, 0, 1)], [(0, 2, 1), (0, 0, 1)], [(0, 1, 2)]])"

lemma dgram_heap [simp]: "alloc_ok (heap dgram_env)" "heap_full dgram_env" "macs_ok dgram_env"
  by (simp_all add: dgram_env_def alloc_ok_def heap_full_def macs_ok_def)

lemma dgram_conn_simps [simp]:
  "rseq dgram_conn = 0" "recv_queue dgram_conn = []" "dtls1_max_handshake_message_len dgram_conn = 102400"
  "recv_ok sample_peer dgram_conn" "buffer_ok dgram_conn" "r_msg_hdr (d1 dgram_conn) = hm_header_zero"
  by (simp_all add: dgram_conn_def dtls_conn_def sample_d1_def dtls1_max_handshake_message_len_def recv_ok_def buffer_ok_def buf_wf_def
      queue_ok_def)

lemma dgram_to_come:
  "to_come sample_peer fst (\<lambda>w. clean (snd w)) sample_frames dgram_conn"
  "frames_ok sample_peer 102400 sample_frames" "covered sample_peer 0 sample_frames dgram_conn"
proof -
  have v: "valid_frame sample_peer 1 0 1" "valid_frame sample_peer 0 2 1" "valid_frame sample_peer 0 0 1"
    "valid_frame sample_peer 0 1 2" by (simp_all add: valid_frame_def sample_peer_def)
  have "world dgram_conn = ([], [[(1, 0, 1)], [(0, 2, 1), (0, 0, 1)], [(0, 1, 2)]])" by (simp add: dgram_conn_def dtls_conn_def)
  then show "to_come sample_peer fst (\<lambda>w. clean (snd w)) sample_frames dgram_conn"
    using v unfolding to_come_def sample_frames_def by (intro exI [of _ "[]"]) (simp add: clean_def)
  show "frames_ok sample_peer 102400 sample_frames"
    using v by (simp add: frames_ok_def sample_frames_def) (simp add: sample_peer_def)
  show "covered sample_peer 0 sample_frames dgram_conn"
    by (auto simp: covered_def sample_frames_def parts_Cons sample_peer_def)
qed

lemma l2n3_small: "n < 256 \<Longrightarrow> l2n3 n = [0, 0, of_nat n]" and s2n_small: "n < 256 \<Longrightarrow> s2n n = [0, of_nat n]"
  by (simp_all add: l2n3_def s2n_def drop_bit_eq_div of_nat_low_byte)

lemma sample_bodies: "body sample_peer 0 = [1, 2, 3]" "fst (sample_peer 0) = 2"
    "frame sample_peer 0 0 3 = [2, 0, 0, 3, 0, 0, 0, 0, 0, 0, 0, 3, 1, 2, 3]"
  by (simp_all add: frame_def sample_peer_def frame_header_def dtls1_write_message_header_def l2n3_small s2n_small
      hm_header_zero_def chunk_def)

lemmas dgram_facts = dgram_transport dgram_feeds dgram_heap dgram_conn_simps(4) dgram_to_come(1)

theorem dtls_message_arrives_witness:
  "\<exists>s'. dtls_get_message dgram_env dgram_conn = Some ((1, 2, 3), s') \<and>
    init_bytes 0 15 s' = [2, 0, 0, 3, 0, 0, 0, 0, 0, 0, 0, 3, 1, 2, 3]"
  using dtls_message_arrives [OF dgram_facts] dgram_to_come(2,3) by (simp add: sample_bodies flip: numeral_3_eq_3)

theorem dtls_message_correct_witness:
  "\<exists>s'. dtls_get_message dgram_env dgram_conn = Some ((1, 2, 3), s') \<and> rseq s' = 1"
proof -
  obtain len s' where f: "framed sample_peer (fst (world dgram_conn))"
    and g: "dtls_get_message dgram_env dgram_conn = Some ((1, 2, len), s')"
    using get_message_returns [OF dgram_facts] dgram_to_come(2,3) by (auto simp: sample_bodies)
  then show ?thesis
    using dtls_message_correct [OF dgram_transport dgram_heap(1) dgram_conn_simps(4) f g] by (auto simp: sample_bodies)
qed

theorem empty_fragment_completes_witness:
  "\<exists>s'. handle_fragment dgram_env (dtls1_write_message_header (hm_header_zero\<lparr>hm_type := 2, msg_len := 5\<rparr> :: msg_hdr)) dgram_conn =
      Some (Inl ((True, 0, 0), s')) \<and> msg_len (r_msg_hdr (d1 s')) = 5"
proof -
  let ?h = "hm_header_zero\<lparr>hm_type := 2, msg_len := 5\<rparr> :: msg_hdr"
  have "hm_header_ok ?h" "hm_seq ?h = 0" "frag_len ?h = 0" "frag_off ?h = 0" "msg_len ?h = 5" "hm_type ?h = 2"
    by (simp_all add: hm_header_ok_def hm_header_zero_def)
  moreover have "0 \<le> query dgram_env RECORD_LAYER_get_rrec_length dgram_conn" by (simp add: dgram_env_def)
  ultimately show ?thesis using empty_fragment_completes [of ?h dgram_conn dgram_env] by auto
qed

end
