(* ===== verification/Dtls_Write.thy ===== *)
theory Dtls_Write
  imports Dtls_Send Dtls_Deliver
begin

section \<open>A DTLS handshake message is written in fragments that fit\<close>

text \<open>
  What \<^verbatim>\<open>dtls1_do_write\<close> hands to the record layer, for every message and every MTU: a sequence of
  frames that tile the body of the message, each small enough for a datagram, while the transcript
  receives the unfragmented message.  The frames may reach the peer in any order and any number of
  times; \<^verbatim>\<open>Dtls_Deliver\<close> then says that the peer delivers the message that was written.
\<close>

subsection \<open>The record layer as the writer sees it\<close>

text \<open>What writing a record leaves alone: all but the state of the record layer, its sequence number and
  \<^verbatim>\<open>s->rwstate\<close>.  \<open>kept\<close> is the part of it that writing a message leaves alone.\<close>

definition kept :: "'w ssl \<Rightarrow> bool \<times> int \<times> nat \<times> byte list \<times> msg_frag pqueue \<times> nat \<times> nat \<times> nat \<times> ossl_statem" where
  "kept s = (retransmitting (d1 s), version s, w_epoch (wside s), curr_write_sequence (wside s), sent_messages (d1 s),
             link_mtu (d1 s), mtu (d1 s), max_send_fragment (wside s), statem s)"

definition write_view :: "'w ssl \<Rightarrow> d1_state \<times> buf_mem option \<times> nat \<times> int \<times> u32 \<times> nat \<times> nat \<times> nat \<times> byte list \<times> ossl_statem" where
  "write_view s =
     (d1 s, init_buf s, init_num s, version s, options s, init_off (wside s), max_send_fragment (wside s),
      w_epoch (wside s), curr_write_sequence (wside s), statem s)"

text \<open>
  \<open>sent\<close> are the records written so far, \<open>hashed\<close> is the transcript.  Records of 1 to 16384 bytes are
  written whole; flushing succeeds; the number of pending bytes is an \<^verbatim>\<open>int\<close> that is not negative.
\<close>

definition record_writer :: "'w env \<Rightarrow> ('w \<Rightarrow> (int \<times> byte list) list) \<Rightarrow> ('w \<Rightarrow> byte list) \<Rightarrow> bool" where
  "record_writer e sent hashed \<longleftrightarrow>
     (\<forall>typ bs s. 0 < length bs \<longrightarrow> length bs \<le> SSL3_RT_MAX_PLAIN_LENGTH \<longrightarrow>
        (\<exists>i s'. write_bytes e typ bs s = ((i, length bs), s') \<and> 0 \<le> i \<and> write_view s' = write_view s \<and>
           sent (world s') = sent (world s) @ [(typ, bs)] \<and> hashed (world s') = hashed (world s))) \<and>
     (\<forall>bs s. \<exists>i s'. call e (ssl3_finish_mac bs) s = (i, s') \<and> i \<noteq> 0 \<and> write_view s' = write_view s \<and>
           sent (world s') = sent (world s) \<and> hashed (world s') = hashed (world s) @ bs) \<and>
     (\<forall>opn w. sent (snd (io e opn w)) = sent w \<and> hashed (snd (io e opn w)) = hashed w) \<and>
     (\<forall>w. 0 < fst (io e BIO_flush w)) \<and>
     (\<forall>s. 0 \<le> query e BIO_wpending s \<and> query e BIO_wpending s < 2 ^ 31)"

lemma record_writerD:
  assumes "record_writer e sent hashed"
  shows "0 < length bs \<Longrightarrow> length bs \<le> SSL3_RT_MAX_PLAIN_LENGTH \<Longrightarrow>
      \<exists>i s'. write_bytes e typ bs s = ((i, length bs), s') \<and> 0 \<le> i \<and> write_view s' = write_view s \<and>
         sent (world s') = sent (world s) @ [(typ, bs)] \<and> hashed (world s') = hashed (world s)"
    and "\<exists>i s'. call e (ssl3_finish_mac bs) s = (i, s') \<and> i \<noteq> 0 \<and> write_view s' = write_view s \<and>
         sent (world s') = sent (world s) \<and> hashed (world s') = hashed (world s) @ bs"
    and "sent (snd (io e opn w)) = sent w" "hashed (snd (io e opn w)) = hashed w"
    and "0 < fst (io e BIO_flush w)"
    and "0 \<le> query e BIO_wpending s" "query e BIO_wpending s < 2 ^ 31"
  using assms unfolding record_writer_def by blast+

subsection \<open>The buffer\<close>

definition buf_is :: "'w ssl \<Rightarrow> byte list \<Rightarrow> bool" where
  "buf_is s d \<longleftrightarrow> (\<exists>b. init_buf s = Some b \<and> buf_data b = Some d)"

lemma buf_is_init_bytes: "buf_is s d \<Longrightarrow> init_bytes i n s = chunk i n d"
  by (auto simp: buf_is_def init_bytes_def)

lemma buf_is_write: "buf_is s d \<Longrightarrow> buf_is (write_init_buf off bs s) (overwrite off bs d)"
  by (auto simp: buf_is_def write_init_buf_def)

lemma buf_is_update [simp]:
  "buf_is (s\<lparr>d1 := d'\<rparr>) d = buf_is s d" "buf_is (s\<lparr>world := w\<rparr>) d = buf_is s d"
  "buf_is (s\<lparr>wside := x\<rparr>) d = buf_is s d" "buf_is (s\<lparr>init_num := n\<rparr>) d = buf_is s d"
  by (simp_all add: buf_is_def)

lemma buf_is_view: "write_view s' = write_view s \<Longrightarrow> buf_is s' d = buf_is s d"
  by (simp add: buf_is_def write_view_def)

lemma write_init_buf_frame [simp]:
  "d1 (write_init_buf off bs s) = d1 s" "wside (write_init_buf off bs s) = wside s"
  "init_num (write_init_buf off bs s) = init_num s" "world (write_init_buf off bs s) = world s"
  "version (write_init_buf off bs s) = version s" "kept (write_init_buf off bs s) = kept s"
  "statem (write_init_buf off bs s) = statem s"
  by (simp_all add: write_init_buf_def kept_def)

lemma fix_header_frame [simp]:
  "wside (dtls1_fix_message_header off l s) = wside s" "init_num (dtls1_fix_message_header off l s) = init_num s"
  "world (dtls1_fix_message_header off l s) = world s" "version (dtls1_fix_message_header off l s) = version s"
  "init_buf (dtls1_fix_message_header off l s) = init_buf s"
  "buf_is (dtls1_fix_message_header off l s) d = buf_is s d" "kept (dtls1_fix_message_header off l s) = kept s"
  "statem (dtls1_fix_message_header off l s) = statem s"
  by (simp_all add: dtls1_fix_message_header_def kept_def)

lemma d1_fix_header:
  "d1 (dtls1_fix_message_header off l s) = (d1 s)\<lparr>w_msg_hdr := (w_msg_hdr (d1 s))\<lparr>frag_off := off, frag_len := l\<rparr>\<rparr>"
  by (simp add: dtls1_fix_message_header_def)

subsection \<open>One fragment\<close>

text \<open>The header that is being written belongs to message \<open>n\<close> of \<open>P\<close>.\<close>

definition header_for :: "peer \<Rightarrow> nat \<Rightarrow> msg_hdr \<Rightarrow> bool" where
  "header_for P n h \<longleftrightarrow> hm_type h = fst (P n) \<and> msg_len h = length (body P n) \<and> hm_seq h = n"

lemma header_for_update [simp]:
  "header_for P n (h\<lparr>frag_off := off, frag_len := l\<rparr>) = header_for P n h"
  "header_for P n (h\<lparr>frag_len := l\<rparr>) = header_for P n h" "header_for P n (h\<lparr>frag_off := off\<rparr>) = header_for P n h"
  by (simp_all add: header_for_def)

lemma header_for_wire:
  "header_for P n h \<Longrightarrow> dtls1_write_message_header (h\<lparr>frag_off := off, frag_len := l\<rparr>) =
    dtls1_write_message_header (frame_header P n off l)"
  by (simp add: header_for_def dtls1_write_message_header_def)

text \<open>The rest of the body from offset \<open>off\<close> on is in its place in the block \<open>d\<close>.\<close>

definition rest_in :: "byte list \<Rightarrow> nat \<Rightarrow> byte list \<Rightarrow> bool" where
  "rest_in B off d \<longleftrightarrow> 12 + length B \<le> length d \<and> chunk (12 + off) (length B - off) d = drop off B"

text \<open>
  The state between two fragments: \<open>off\<close> bytes of the body have been written, the rest is in its place
  in the buffer.  \<open>M\<close> and \<open>F\<close> are the MTU and the largest fragment.
\<close>

definition writing :: "peer \<Rightarrow> nat \<Rightarrow> nat \<Rightarrow> nat \<Rightarrow> nat \<Rightarrow> 'w ssl \<Rightarrow> bool" where
  "writing P n M F off s \<longleftrightarrow>
     header_for P n (w_msg_hdr (d1 s)) \<and> mtu (d1 s) = M \<and> max_send_fragment (wside s) = F \<and>
     (\<exists>d. buf_is s d \<and> rest_in (body P n) off d) \<and>
     (off = 0 \<and> woff s = 0 \<and> init_num s = 12 + length (body P n) \<or>
      0 < off \<and> off < length (body P n) \<and> woff s = off + 12 \<and> init_num s = length (body P n) - off)"

lemma make_room_writing:
  assumes "writing P n M F off s"
  shows "make_room SSL3_RT_HANDSHAKE off s =
    Some (off, s\<lparr>wside := (wside s)\<lparr>init_off := off\<rparr>, init_num := 12 + (length (body P n) - off)\<rparr>)"
proof (cases "off = 0")
  case True
  then have v: "woff s = 0" "init_num s = 12 + length (body P n)" using assms by (simp_all add: writing_def)
  have "s\<lparr>wside := (wside s)\<lparr>init_off := woff s\<rparr>, init_num := init_num s\<rparr> = s" by simp
  then show ?thesis unfolding v True by (simp add: make_room_def v)
next
  case False
  then have v: "woff s = off + 12" "init_num s = length (body P n) - off" "0 < off"
    using assms by (simp_all add: writing_def)
  show ?thesis unfolding make_room_def v using v(3) by (simp add: add.commute)
qed

lemma room_in_datagram_ok:
  assumes "record_writer e sent hashed" and "mtu (d1 s) = M" and "25 + ov < M" and "M < 2 ^ 32"
  shows "\<exists>m w. room_in_datagram e ov s = (Inr m, s\<lparr>world := w\<rparr>) \<and> 12 < m \<and> m + 13 + ov \<le> M \<and>
    sent w = sent (world s) \<and> hashed w = hashed (world s)"
proof -
  note w = record_writerD [OF assms(1)]
  define p where "p = nat (query e BIO_wpending s)"
  have p: "size_of_int (query e BIO_wpending s) = p" "p < 2 ^ 31"
    using w(6,7) [of s] by (simp_all add: size_of_int_def p_def)
  have u: "uadd (uadd p 13) ov = p + 13 + ov" "uadd 13 ov = 13 + ov" "uadd (13 + ov) 12 = 25 + ov"
    using p(2) assms(3,4) by (simp_all add: uadd_def)
  show ?thesis
  proof (cases "12 < M - (p + 13 + ov)")
    case True
    then have "p + 13 + ov < M" by simp
    with True show ?thesis using assms(2)
      by (intro exI [of _ "M - (p + 13 + ov)"] exI [of _ "world s"]) (simp add: room_in_datagram_def Let_def p u)
  next
    case False
    moreover have "\<not> fst (io e BIO_flush (world s)) \<le> 0" using w(5) by (simp add: not_le)
    ultimately show ?thesis using assms(2,3) w(3,4)
      by (intro exI [of _ "M - (13 + ov)"] exI [of _ "snd (io e BIO_flush (world s))"])
        (auto simp: room_in_datagram_def Let_def p u do_io_eq)
  qed
qed

lemma chunk_chunk: "j + k \<le> n \<Longrightarrow> chunk (i + j) k xs = chunk j k (chunk i n xs)"
  by (simp add: chunk_def drop_take min_absorb1 add.commute)

lemma chunk_of_drop: "chunk i k (drop j xs) = chunk (i + j) k xs"
  by (simp add: chunk_def)

lemma rest_in_chunk: "rest_in B off d \<Longrightarrow> off + k \<le> length B \<Longrightarrow> chunk (12 + off) k d = chunk off k B"
  using chunk_chunk [of 0 k "length B - off" "12 + off" d] by (simp add: rest_in_def chunk_of_drop)

lemma rest_in_later:
  assumes "rest_in B off d" and "off + k \<le> length B"
  shows "rest_in B (off + k) d"
proof -
  have "chunk (12 + (off + k)) (length B - (off + k)) d = chunk k (length B - (off + k)) (chunk (12 + off) (length B - off) d)"
    using assms(2) chunk_chunk [of k "length B - (off + k)" "length B - off" "12 + off" d] by (simp add: add.assoc)
  also have "\<dots> = drop (off + k) B" using assms by (simp add: rest_in_def chunk_of_drop) (simp add: chunk_def add.commute)
  finally show ?thesis using assms(1) by (simp add: rest_in_def)
qed

lemma rest_in_overwrite:
  assumes "rest_in B off d" and "off \<le> length B" and "length h = 12"
  shows "rest_in B off (overwrite off h d)"
  using assms by (simp add: rest_in_def chunk_def add.commute)

lemma frame_in_block:
  assumes "rest_in (body P n) off d" and "off + k \<le> length (body P n)"
    and "h = dtls1_write_message_header (frame_header P n off' k')"
  shows "chunk off (12 + k) (overwrite off h d) = h @ chunk off k (body P n)"
proof -
  have l: "length h = 12" "off + 12 \<le> length d" "off \<le> length d" using assms by (auto simp: rest_in_def)
  then have "chunk off (12 + k) (overwrite off h d) = h @ chunk (12 + off) k d"
    by (simp add: chunk_def overwrite_def add.commute)
  then show ?thesis using rest_in_chunk [OF assms(1,2)] by simp
qed

text \<open>What a fragment adds to the transcript.\<close>

definition transcript_part :: "peer \<Rightarrow> nat \<Rightarrow> 'w ssl \<Rightarrow> nat \<Rightarrow> nat \<Rightarrow> byte list" where
  "transcript_part P n s off k =
     (if retransmitting (d1 s) then []
      else (if off = 0 \<and> version s \<noteq> DTLS1_BAD_VER
            then dtls1_write_message_header (frame_header P n 0 (length (body P n))) else []) @ chunk off k (body P n))"

text \<open>Equal but for the buffer and what other components keep.\<close>

definition same_but_buf :: "'w ssl \<Rightarrow> 'w ssl \<Rightarrow> bool" where
  "same_but_buf s s' \<longleftrightarrow> d1 s' = d1 s \<and> init_num s' = init_num s \<and> version s' = version s \<and>
     woff s' = woff s \<and> max_send_fragment (wside s') = max_send_fragment (wside s) \<and> kept s' = kept s"

lemma same_but_buf_view: "write_view s' = write_view s \<Longrightarrow> same_but_buf s s'"
  by (simp add: same_but_buf_def write_view_def kept_def)

lemma hash_fragment_ok:
  assumes "record_writer e sent hashed" and "header_for P n (w_msg_hdr (d1 s))" and "buf_is s d"
    and "rest_in (body P n) off d" and "off + k \<le> length (body P n)" and "length (body P n) < 2 ^ 24" and "woff s = off"
  shows "\<exists>s' d'. hash_fragment e SSL3_RT_HANDSHAKE off (12 + k) s = (True, s') \<and> same_but_buf s s' \<and> buf_is s' d' \<and>
    rest_in (body P n) off d' \<and> sent (world s') = sent (world s) \<and>
    hashed (world s') = hashed (world s) @ transcript_part P n s off k"
proof (cases "retransmitting (d1 s)")
  case True
  then have "hash_fragment e SSL3_RT_HANDSHAKE off (12 + k) s = (True, s)" by (simp add: hash_fragment_def)
  then show ?thesis using True assms(3,4) by (auto simp: same_but_buf_def transcript_part_def kept_def)
next
  case False
  let ?h = "dtls1_write_message_header (frame_header P n 0 (length (body P n)))"
  have u: "usub (12 + k) 12 = k" using assms(5,6) by simp
  note w = record_writerD(2) [OF assms(1)]
  show ?thesis
  proof (cases "off = 0 \<and> version s \<noteq> DTLS1_BAD_VER")
    case True
    let ?s = "write_init_buf 0 ?h s"
    have wire: "dtls1_write_message_header ((w_msg_hdr (d1 s))\<lparr>frag_off := 0, frag_len := msg_len (w_msg_hdr (d1 s))\<rparr>) = ?h"
      using header_for_wire [OF assms(2)] assms(2) by (simp add: header_for_def)
    have b: "buf_is ?s (overwrite 0 ?h d)" "rest_in (body P n) 0 (overwrite 0 ?h d)"
      using buf_is_write [OF assms(3)] rest_in_overwrite [OF assms(4)] True by simp_all
    have i: "init_bytes 0 (12 + k) ?s = transcript_part P n s off k"
      using True False frame_in_block [of P n 0 d k, OF _ _ refl] assms(4,5)
      by (simp add: buf_is_init_bytes [OF b(1)] transcript_part_def)
    obtain r s' where c: "call e (ssl3_finish_mac (transcript_part P n s off k)) ?s = (r, s')" "r \<noteq> 0"
      "write_view s' = write_view ?s" "sent (world s') = sent (world s)"
      "hashed (world s') = hashed (world s) @ transcript_part P n s off k"
      using w [of "transcript_part P n s off k" ?s] by auto
    have "hash_fragment e SSL3_RT_HANDSHAKE off (12 + k) s = (True, s')"
      using True False assms(7) c(1,2) i by (simp add: hash_fragment_def Let_def wire)
    moreover have "same_but_buf s s'" using c(3) by (simp add: same_but_buf_def write_view_def kept_def)
    ultimately show ?thesis using b buf_is_view [OF c(3)] c(4,5) True by blast
  next
    case no: False
    have i: "init_bytes (off + 12) k s = transcript_part P n s off k"
      using no False rest_in_chunk [OF assms(4,5)] by (auto simp: buf_is_init_bytes [OF assms(3)] transcript_part_def add.commute)
    obtain r s' where c: "call e (ssl3_finish_mac (transcript_part P n s off k)) s = (r, s')" "r \<noteq> 0"
      "write_view s' = write_view s" "sent (world s') = sent (world s)"
      "hashed (world s') = hashed (world s) @ transcript_part P n s off k"
      using w [of "transcript_part P n s off k" s] by auto
    have "hash_fragment e SSL3_RT_HANDSHAKE off (12 + k) s = (True, s')"
      using no False assms(7) c(1,2) i u by (auto simp: hash_fragment_def Let_def)
    then show ?thesis using same_but_buf_view [OF c(3)] assms(3,4) buf_is_view [OF c(3)] c(4,5) by blast
  qed
qed

lemma after_write_ok:
  assumes "record_writer e sent hashed" and "header_for P n (w_msg_hdr (d1 s))" and "mtu (d1 s) = M"
    and "max_send_fragment (wside s) = F" and "buf_is s d" and "rest_in (body P n) off d"
    and "off + k \<le> length (body P n)" and "k = 0 \<longrightarrow> body P n = []" and "length (body P n) < 2 ^ 24"
    and "woff s = off" and "init_num s = 12 + (length (body P n) - off)"
  shows "\<exists>r s'. after_write e SSL3_RT_HANDSHAKE off retry (12 + k) (12 + k) s = (r, s') \<and>
    kept s' = kept s \<and> sent (world s') = sent (world s) \<and>
    hashed (world s') = hashed (world s) @ transcript_part P n s off k \<and>
    (if off + k = length (body P n) then r = Inl 1 \<and> init_num s' = 0 \<and> woff s' = 0
     else r = Inr (off + k, retry) \<and> writing P n M F (off + k) s')"
proof -
  obtain s1 d1' where h: "hash_fragment e SSL3_RT_HANDSHAKE off (12 + k) s = (True, s1)" "same_but_buf s s1"
    "buf_is s1 d1'" "rest_in (body P n) off d1'" "sent (world s1) = sent (world s)"
    "hashed (world s1) = hashed (world s) @ transcript_part P n s off k"
    using hash_fragment_ok [OF assms(1,2,5,6,7,9,10)] by blast
  have v: "d1 s1 = d1 s" "init_num s1 = 12 + (length (body P n) - off)" "version s1 = version s" "woff s1 = off"
    "max_send_fragment (wside s1) = F" "kept s1 = kept s"
    using h(2) assms(4,10,11) by (simp_all add: same_but_buf_def)
  show ?thesis
  proof (cases "off + k = length (body P n)")
    case True
    then have l: "length (body P n) - off = k" by simp
    let ?s = "if query e has_msg_callback s1 \<noteq> 0
              then snd (do_io e (msg_callback SSL3_RT_HANDSHAKE (init_bytes 0 (woff s1 + init_num s1) s1)) s1) else s1"
    have "after_write e SSL3_RT_HANDSHAKE off retry (12 + k) (12 + k) s = (Inl 1, (set_init_off 0 ?s)\<lparr>init_num := 0\<rparr>)"
      using h(1) v(2) l by (simp add: after_write_def Let_def)
    moreover have "kept ((set_init_off 0 ?s)\<lparr>init_num := 0\<rparr>) = kept s" "sent (world ?s) = sent (world s1)"
      "hashed (world ?s) = hashed (world s1)"
      using v(6) record_writerD(3,4) [OF assms(1)] by (simp_all add: do_io_eq kept_def)
    ultimately show ?thesis using True h(5,6) by simp
  next
    case False
    let ?s = "(set_init_off (off + (12 + k)) s1)\<lparr>init_num := length (body P n) - (off + k)\<rparr>"
    have lt: "off + k < length (body P n)" "0 < k" using assms(7,8) False by auto
    have u: "usub (12 + k) 12 = k" "uadd off k = off + k" using assms(7,9) by simp_all
    have "after_write e SSL3_RT_HANDSHAKE off retry (12 + k) (12 + k) s =
        (Inr (off + k, retry), dtls1_fix_message_header (off + k) 0 ?s)"
      using h(1) v(2,4) lt(1) by (simp add: after_write_def Let_def u)
    moreover have "writing P n M F (off + k) (dtls1_fix_message_header (off + k) 0 ?s)"
      using lt v(1,5) assms(2,3) h(3) rest_in_later [OF h(4) assms(7)]
      by (auto simp: writing_def d1_fix_header)
    moreover have "kept ?s = kept s" using v(6) by (simp add: kept_def)
    ultimately show ?thesis using False h(5,6) by simp
  qed
qed

lemma write_fragment_step:
  assumes "make_room SSL3_RT_HANDSHAKE off s = Some (off', s1)" and "room_in_datagram e ov s1 = (Inr m, s2)"
    and "init_num s2 < 2 ^ 32" and "len = min (min (init_num s2) m) (max_send_fragment (wside s2))" and "12 \<le> len"
    and "dtls1_fix_message_header off' (len - 12) s2 = sh"
    and "write_bytes e SSL3_RT_HANDSHAKE
           (init_bytes (woff sh) len (write_init_buf (woff sh) (dtls1_write_message_header (w_msg_hdr (d1 sh))) sh))
           (write_init_buf (woff sh) (dtls1_write_message_header (w_msg_hdr (d1 sh))) sh) = ((i, written), s4)"
    and "0 \<le> i"
  shows "write_fragment e SSL3_RT_HANDSHAKE ov off retry s = after_write e SSL3_RT_HANDSHAKE off' retry len written s4"
proof -
  have "fragment_len m s2 = len" using assms(3,4) by (simp add: fragment_len_def Let_def)
  then show ?thesis using assms(1,2,5-8) by (simp add: write_fragment_def put_fragment_def)
qed

lemma write_fragment_ok:
  assumes "record_writer e sent hashed" and "writing P n M F off s" and "25 + ov < M" and "M < 2 ^ 32"
    and "12 < F" and "F \<le> SSL3_RT_MAX_PLAIN_LENGTH" and "length (body P n) < 2 ^ 24"
  shows "\<exists>k r s'. write_fragment e SSL3_RT_HANDSHAKE ov off retry s = (r, s') \<and>
    off + k \<le> length (body P n) \<and> (k = 0 \<longrightarrow> body P n = []) \<and> 25 + ov + k \<le> M \<and> 12 + k \<le> F \<and>
    sent (world s') = sent (world s) @ [(SSL3_RT_HANDSHAKE, frame P n off k)] \<and>
    hashed (world s') = hashed (world s) @ transcript_part P n s off k \<and>
    kept s' = kept s \<and>
    (if off + k = length (body P n) then r = Inl 1 \<and> init_num s' = 0 \<and> woff s' = 0
     else r = Inr (off + k, retry) \<and> writing P n M F (off + k) s')"
proof -
  let ?L = "length (body P n)"
  let ?s1 = "s\<lparr>wside := (wside s)\<lparr>init_off := off\<rparr>, init_num := 12 + (?L - off)\<rparr>"
  obtain d where d: "buf_is s d" "rest_in (body P n) off d" and hdr: "header_for P n (w_msg_hdr (d1 s))"
    and par: "mtu (d1 s) = M" "max_send_fragment (wside s) = F" and off: "off \<le> ?L" "off = ?L \<longrightarrow> body P n = []"
    using assms(2) by (auto simp: writing_def)
  obtain m w where m: "room_in_datagram e ov ?s1 = (Inr m, ?s1\<lparr>world := w\<rparr>)" "12 < m" "m + 13 + ov \<le> M"
    "sent w = sent (world s)" "hashed w = hashed (world s)"
    using room_in_datagram_ok [OF assms(1) _ assms(3,4), of ?s1] par by auto
  let ?s2 = "?s1\<lparr>world := w\<rparr>"
  define k where "k = min (min (12 + (?L - off)) m) F - 12"
  have k: "12 + k = min (min (12 + (?L - off)) m) F" using m(2) assms(5) by (simp add: k_def)
  then have kb: "off + k \<le> ?L" "12 + k \<le> m" "12 + k \<le> F" "k = 0 \<longrightarrow> body P n = []"
    using off m(2) assms(5) by auto
  let ?h = "dtls1_write_message_header (frame_header P n off k)"
  let ?s3 = "write_init_buf off ?h (dtls1_fix_message_header off k ?s2)"
  have b3: "buf_is ?s3 (overwrite off ?h d)" "rest_in (body P n) off (overwrite off ?h d)"
    using d by (auto intro: buf_is_write rest_in_overwrite [OF d(2) off(1)])
  have bytes: "init_bytes off (12 + k) ?s3 = frame P n off k"
    unfolding buf_is_init_bytes [OF b3(1)] frame_def using d(2) kb(1) by (rule frame_in_block) simp
  have len: "length (frame P n off k) = 12 + k" using kb(1) by (simp add: frame_def)
  obtain i s4 where w4: "write_bytes e SSL3_RT_HANDSHAKE (frame P n off k) ?s3 = ((i, 12 + k), s4)" "0 \<le> i"
    "write_view s4 = write_view ?s3" "sent (world s4) = sent (world s) @ [(SSL3_RT_HANDSHAKE, frame P n off k)]"
    "hashed (world s4) = hashed (world s)"
    using record_writerD(1) [OF assms(1), of "frame P n off k" SSL3_RT_HANDSHAKE ?s3, unfolded len] kb(3) assms(6) m(4,5)
    by fastforce
  have small: "12 + (?L - off) < 2 ^ 32" using assms(7) by simp
  have wf: "write_fragment e SSL3_RT_HANDSHAKE ov off retry s =
      after_write e SSL3_RT_HANDSHAKE off retry (12 + k) (12 + k) s4"
  proof (rule write_fragment_step [OF make_room_writing [OF assms(2)] m(1)])
    show "init_num ?s2 < 2 ^ 32" "12 \<le> 12 + k" "dtls1_fix_message_header off (12 + k - 12) ?s2 = dtls1_fix_message_header off k ?s2"
      using small by simp_all
    show "12 + k = min (min (init_num ?s2) m) (max_send_fragment (wside ?s2))" using k par(2) by simp
    have "dtls1_write_message_header (w_msg_hdr (d1 (dtls1_fix_message_header off k ?s2))) = ?h"
      using header_for_wire [OF hdr] by (simp add: d1_fix_header)
    moreover have "woff (dtls1_fix_message_header off k ?s2) = off" by simp
    ultimately show "write_bytes e SSL3_RT_HANDSHAKE
        (init_bytes (woff (dtls1_fix_message_header off k ?s2)) (12 + k)
          (write_init_buf (woff (dtls1_fix_message_header off k ?s2))
            (dtls1_write_message_header (w_msg_hdr (d1 (dtls1_fix_message_header off k ?s2)))) (dtls1_fix_message_header off k ?s2)))
        (write_init_buf (woff (dtls1_fix_message_header off k ?s2))
            (dtls1_write_message_header (w_msg_hdr (d1 (dtls1_fix_message_header off k ?s2)))) (dtls1_fix_message_header off k ?s2)) =
        ((i, 12 + k), s4)"
      using w4(1) bytes by (simp only:)
  qed (rule w4(2))
  have s4: "header_for P n (w_msg_hdr (d1 s4))" "mtu (d1 s4) = M" "max_send_fragment (wside s4) = F" "woff s4 = off"
    "init_num s4 = 12 + (?L - off)" "kept s4 = kept s"
    using w4(3) hdr par by (simp_all add: write_view_def d1_fix_header kept_def)
  have t: "transcript_part P n s4 off k = transcript_part P n s off k" using s4(6) by (simp add: transcript_part_def kept_def)
  have b4: "buf_is s4 (overwrite off ?h d)" using b3(1) buf_is_view [OF w4(3)] by simp
  obtain r s' where "after_write e SSL3_RT_HANDSHAKE off retry (12 + k) (12 + k) s4 = (r, s')"
    "kept s' = kept s" "sent (world s') = sent (world s4)"
    "hashed (world s') = hashed (world s) @ transcript_part P n s off k"
    "if off + k = ?L then r = Inl 1 \<and> init_num s' = 0 \<and> woff s' = 0
     else r = Inr (off + k, retry) \<and> writing P n M F (off + k) s'"
    using after_write_ok [OF assms(1) s4(1-3) b4 b3(2) kb(1,4) assms(7) s4(4,5), of retry] w4(5)
    unfolding t s4(6) by auto
  then show ?thesis using wf kb m(3) w4(4) by (intro exI [of _ k] exI [of _ r] exI [of _ s']) simp
qed

subsection \<open>The whole message\<close>

fun tiles :: "nat \<Rightarrow> (nat \<times> nat) list \<Rightarrow> nat \<Rightarrow> bool" where
  "tiles a [] b \<longleftrightarrow> a = b"
| "tiles a ((off, len) # fs) b \<longleftrightarrow> off = a \<and> tiles (a + len) fs b"

lemma do_write_loop_ok:
  assumes "record_writer e sent hashed" and "25 + ov < M" and "M < 2 ^ 32" and "12 < F"
    and "F \<le> SSL3_RT_MAX_PLAIN_LENGTH" and "length (body P n) < 2 ^ 24"
  shows "writing P n M F off s \<Longrightarrow>
    \<exists>s' fs. do_write_loop e SSL3_RT_HANDSHAKE ov off retry s = Some (1, s') \<and> init_num s' = 0 \<and> woff s' = 0 \<and>
      sent (world s') = sent (world s) @ map (\<lambda>(off, k). (SSL3_RT_HANDSHAKE, frame P n off k)) fs \<and>
      tiles off fs (length (body P n)) \<and> fs \<noteq> [] \<and>
      (\<forall>(off, k) \<in> set fs. off + k \<le> length (body P n) \<and> (k = 0 \<longrightarrow> body P n = []) \<and> 25 + ov + k \<le> M \<and> 12 + k \<le> F) \<and>
      hashed (world s') = hashed (world s) @ transcript_part P n s off (length (body P n) - off) \<and> kept s' = kept s"
proof (induction "length (body P n) - off" arbitrary: off s rule: less_induct)
  case less
  let ?L = "length (body P n)"
  obtain k r s1 where k: "write_fragment e SSL3_RT_HANDSHAKE ov off retry s = (r, s1)"
    "off + k \<le> ?L" "k = 0 \<longrightarrow> body P n = []" "25 + ov + k \<le> M" "12 + k \<le> F"
    "sent (world s1) = sent (world s) @ [(SSL3_RT_HANDSHAKE, frame P n off k)]"
    "hashed (world s1) = hashed (world s) @ transcript_part P n s off k"
    "kept s1 = kept s"
    "if off + k = ?L then r = Inl 1 \<and> init_num s1 = 0 \<and> woff s1 = 0
     else r = Inr (off + k, retry) \<and> writing P n M F (off + k) s1"
    using write_fragment_ok [OF assms(1) less.prems assms(2-6), of retry] by blast
  have "init_num s \<noteq> 0" using less.prems by (auto simp: writing_def)
  then have step: "do_write_loop e SSL3_RT_HANDSHAKE ov off retry s =
      (case r of Inl ret \<Rightarrow> Some (ret, s1) | Inr (off, retry) \<Rightarrow> do_write_loop e SSL3_RT_HANDSHAKE ov off retry s1)"
    using k(1) by (simp add: do_write_loop.simps [of e _ ov off] split: sum.split)
  show ?case
  proof (cases "off + k = ?L")
    case True
    then have "length (body P n) - off = k" by simp
    then show ?thesis using step k True by (intro exI [of _ s1] exI [of _ "[(off, k)]"]) simp
  next
    case False
    then have w: "r = Inr (off + k, retry)" "writing P n M F (off + k) s1" using k(9) by simp_all
    have lt: "?L - (off + k) < ?L - off" "0 < k" using False k(2,3) by auto
    obtain s' fs where s': "do_write_loop e SSL3_RT_HANDSHAKE ov (off + k) retry s1 = Some (1, s')" "init_num s' = 0"
      "woff s' = 0" "sent (world s') = sent (world s1) @ map (\<lambda>(off, k). (SSL3_RT_HANDSHAKE, frame P n off k)) fs"
      "tiles (off + k) fs ?L"
      "\<forall>(off, k) \<in> set fs. off + k \<le> ?L \<and> (k = 0 \<longrightarrow> body P n = []) \<and> 25 + ov + k \<le> M \<and> 12 + k \<le> F"
      "hashed (world s') = hashed (world s1) @ transcript_part P n s1 (off + k) (?L - (off + k))" "kept s' = kept s1"
      using less.hyps [OF lt(1) w(2)] by blast
    have "chunk off (?L - off) (body P n) = chunk off k (body P n) @ chunk (off + k) (?L - (off + k)) (body P n)"
      using chunk_split [of k "?L - off" "drop off (body P n)"] k(2) by (simp add: chunk_of_drop add.commute)
    then have "transcript_part P n s off k @ transcript_part P n s1 (off + k) (?L - (off + k)) =
        transcript_part P n s off (?L - off)"
      using lt(2) k(8) by (simp add: transcript_part_def kept_def)
    then show ?thesis using step w(1) s' k by (intro exI [of _ s'] exI [of _ "(off, k) # fs"]) simp
  qed
qed

text \<open>
  Message \<open>n\<close> of \<open>P\<close> is serialized in the buffer and about to be sent, as
  \<^verbatim>\<open>dtls1_close_construct_packet\<close> and \<^verbatim>\<open>dtls1_retransmit_message\<close> leave it.
\<close>

definition serialized :: "peer \<Rightarrow> nat \<Rightarrow> 'w ssl \<Rightarrow> bool" where
  "serialized P n s \<longleftrightarrow>
     header_for P n (w_msg_hdr (d1 s)) \<and> n < 2 ^ 16 \<and> length (body P n) < 2 ^ 24 \<and>
     woff s = 0 \<and> init_num s = 12 + length (body P n) \<and> (\<exists>d. buf_is s d \<and> rest_in (body P n) 0 d)"

text \<open>
  The MTU is known, a datagram has room for more than the headers and the record's overhead, and the
  fragment size is one that \<^verbatim>\<open>SSL_set_max_send_fragment\<close> accepts.
\<close>

definition mtu_settled :: "'w env \<Rightarrow> 'w ssl \<Rightarrow> bool" where
  "mtu_settled e s \<longleftrightarrow>
     link_mtu (d1 s) = 0 \<and> dtls1_min_mtu e s \<le> mtu (d1 s) \<and> 25 + record_overhead e s < mtu (d1 s) \<and>
     mtu (d1 s) < 2 ^ 32 \<and> 512 \<le> max_send_fragment (wside s) \<and>
     max_send_fragment (wside s) \<le> SSL3_RT_MAX_PLAIN_LENGTH"

lemma query_mtu_settled: "mtu_settled e s \<Longrightarrow> dtls1_query_mtu e s = (True, s)"
  by (simp add: mtu_settled_def dtls1_query_mtu_def)

definition message_transcript :: "peer \<Rightarrow> nat \<Rightarrow> 'w ssl \<Rightarrow> byte list" where
  "message_transcript P n s =
     (if retransmitting (d1 s) then []
      else if version s = DTLS1_BAD_VER then body P n else frame P n 0 (length (body P n)))"

lemma do_write_sends:
  assumes "record_writer e sent hashed" and "serialized P n s" and "mtu_settled e s"
  shows "\<exists>s' fs. dtls1_do_write e SSL3_RT_HANDSHAKE s = Some (1, s') \<and> init_num s' = 0 \<and> woff s' = 0 \<and>
    sent (world s') = sent (world s) @ map (\<lambda>(off, k). (SSL3_RT_HANDSHAKE, frame P n off k)) fs \<and>
    tiles 0 fs (length (body P n)) \<and> fs \<noteq> [] \<and>
    (\<forall>(off, k) \<in> set fs. valid_frame P n off k \<and>
       DTLS1_RT_HEADER_LENGTH + record_overhead e s + DTLS1_HM_HEADER_LENGTH + k \<le> mtu (d1 s) \<and>
       DTLS1_HM_HEADER_LENGTH + k \<le> max_send_fragment (wside s)) \<and>
    hashed (world s') = hashed (world s) @ message_transcript P n s \<and> kept s' = kept s"
proof -
  let ?s = "s\<lparr>rwstate := SSL_NOTHING\<rparr>"
  have m: "25 + record_overhead e s < mtu (d1 s)" "mtu (d1 s) < 2 ^ 32" "12 < max_send_fragment (wside s)"
    "max_send_fragment (wside s) \<le> SSL3_RT_MAX_PLAIN_LENGTH" "\<not> mtu (d1 s) < dtls1_min_mtu e s"
    using assms(3) by (simp_all add: mtu_settled_def)
  have L: "length (body P n) < 2 ^ 24" "n < 2 ^ 16" using assms(2) by (simp_all add: serialized_def)
  have "writing P n (mtu (d1 s)) (max_send_fragment (wside s)) 0 ?s"
    using assms(2) by (simp add: writing_def serialized_def buf_is_def)
  from do_write_loop_ok [OF assms(1) m(1-4) L(1) this, of True]
  obtain s' fs where r: "do_write_loop e SSL3_RT_HANDSHAKE (record_overhead e s) 0 True ?s = Some (1, s')"
    "init_num s' = 0" "woff s' = 0"
    "sent (world s') = sent (world s) @ map (\<lambda>(off, k). (SSL3_RT_HANDSHAKE, frame P n off k)) fs"
    "tiles 0 fs (length (body P n))" "fs \<noteq> []"
    "\<forall>(off, k) \<in> set fs. off + k \<le> length (body P n) \<and> (k = 0 \<longrightarrow> body P n = []) \<and>
       25 + record_overhead e s + k \<le> mtu (d1 s) \<and> 12 + k \<le> max_send_fragment (wside s)"
    "hashed (world s') = hashed (world s) @ transcript_part P n ?s 0 (length (body P n))" "kept s' = kept s"
    by (auto simp: kept_def)
  have "dtls1_do_write e SSL3_RT_HANDSHAKE s = Some (1, s')"
    using r(1) assms(2) m(5) by (simp add: dtls1_do_write_def query_mtu_settled [OF assms(3)] serialized_def header_for_def)
  moreover have "transcript_part P n ?s 0 (length (body P n)) = message_transcript P n s"
    by (simp add: transcript_part_def message_transcript_def frame_def chunk_0_take)
  moreover have "\<forall>(off, k) \<in> set fs. valid_frame P n off k \<and> 13 + record_overhead e s + 12 + k \<le> mtu (d1 s) \<and>
      12 + k \<le> max_send_fragment (wside s)"
    using r(7) L by (auto simp: valid_frame_def)
  ultimately show ?thesis using r(2-6,8,9) by (intro exI [of _ s'] exI [of _ fs]) simp
qed

text \<open>C12.  \<^verbatim>\<open>dtls1_do_write\<close> sends a serialized message completely and returns 1: the records it writes are the
  frames of consecutive fragments that tile the body, each record with its overhead fits the MTU and
  the fragment size, no fragment is empty unless the message is, nothing of the message remains to be
  sent, and the transcript grows by the unfragmented message, unless this is a retransmission.\<close>

theorem dtls1_do_write_correct:
  assumes "record_writer e sent hashed" and "serialized P n s" and "mtu_settled e s"
  shows "\<exists>s' fs. dtls1_do_write e SSL3_RT_HANDSHAKE s = Some (1, s') \<and> init_num s' = 0 \<and> woff s' = 0 \<and>
    sent (world s') = sent (world s) @ map (\<lambda>(off, k). (SSL3_RT_HANDSHAKE, frame P n off k)) fs \<and>
    tiles 0 fs (length (body P n)) \<and> fs \<noteq> [] \<and>
    (\<forall>(off, k) \<in> set fs. valid_frame P n off k \<and>
       DTLS1_RT_HEADER_LENGTH + record_overhead e s + DTLS1_HM_HEADER_LENGTH + k \<le> mtu (d1 s) \<and>
       DTLS1_HM_HEADER_LENGTH + k \<le> max_send_fragment (wside s)) \<and>
    hashed (world s') = hashed (world s) @ message_transcript P n s"
  using do_write_sends [OF assms] by blast

subsection \<open>From the sender's buffer to the receiver's\<close>

lemma tiles_cover:
  "tiles a fs b \<Longrightarrow> i \<in> {a..<b} \<Longrightarrow> \<exists>(off, k) \<in> set fs. i \<in> {off..<off + k}"
proof (induction fs arbitrary: a)
  case (Cons f fs)
  obtain off k where f: "f = (off, k)" by fastforce
  show ?case
  proof (cases "i < a + k")
    case True
    then show ?thesis using Cons.prems f by auto
  next
    case False
    then show ?thesis using Cons.IH [of "a + k"] Cons.prems f by auto
  qed
qed simp

lemma tiles_covered:
  assumes "tiles 0 fs (length (body P n))" and "fs \<noteq> []" and "\<And>off k. (off, k) \<in> set fs \<Longrightarrow> (n, off, k) \<in> set gs"
  shows "covered P n gs s"
  unfolding covered_def
proof (intro conjI subsetI impI)
  fix i assume "i \<in> {..<length (body P n)}"
  then obtain off k where "(off, k) \<in> set fs" "i \<in> {off..<off + k}" using tiles_cover [OF assms(1), of i] by auto
  then show "i \<in> got (recv_queue s) n \<union> parts n gs" using assms(3) by (force simp: parts_def)
next
  obtain off k where "(off, k) \<in> set fs" using assms(2) by (cases fs) auto
  then show "complete_in_queue s \<or> n \<in> fst ` set gs" using assms(3) by force
qed

text \<open>The records that a call has added to those written before it.\<close>

definition new_records :: "('w \<Rightarrow> (int \<times> byte list) list) \<Rightarrow> 'w ssl \<Rightarrow> 'w ssl \<Rightarrow> (int \<times> byte list) list" where
  "new_records sent s s' = drop (length (sent (world s))) (sent (world s'))"

text \<open>C13.  A message that \<^verbatim>\<open>dtls1_do_write\<close> sends reaches the peer: if every record of it arrives, in any order, any
  number of times and among fragments of other messages, then \<^verbatim>\<open>dtls_get_message\<close> returns it with its type and
  length, and the bytes in the receiver's buffer are the bytes that the sender added to its transcript.\<close>

theorem dtls_message_round_trip:
  assumes "record_writer e sent hashed" and "serialized P n s" and "mtu_settled e s" and "\<not> retransmitting (d1 s)"
    and "version s \<noteq> DTLS1_BAD_VER" and "dtls1_do_write e SSL3_RT_HANDSHAKE s = Some (ret, s')"
    and "transport e' unread P" and "feeds e' unread todo P" and "alloc_ok (heap e')" and "heap_full e'" and "macs_ok e'"
    and "recv_ok P r" and "to_come P unread todo fs r" and "frames_ok P (dtls1_max_handshake_message_len r) fs"
    and "rseq r = n" and "length (body P n) \<le> dtls1_max_handshake_message_len r"
    and "\<And>off k. valid_frame P n off k \<Longrightarrow> (SSL3_RT_HANDSHAKE, frame P n off k) \<in> set (new_records sent s s') \<Longrightarrow>
           (n, off, k) \<in> set fs"
  shows "ret = 1 \<and> (\<exists>r'. dtls_get_message e' r = Some ((1, int (unat (fst (P n))), length (body P n)), r') \<and>
    hashed (world s') = hashed (world s) @ init_bytes 0 (DTLS1_HM_HEADER_LENGTH + length (body P n)) r' \<and>
    init_bytes DTLS1_HM_HEADER_LENGTH (length (body P n)) r' = body P n)"
proof -
  obtain gs where g: "ret = 1" "sent (world s') = sent (world s) @ map (\<lambda>(off, k). (SSL3_RT_HANDSHAKE, frame P n off k)) gs"
    "tiles 0 gs (length (body P n))" "\<forall>(off, k) \<in> set gs. valid_frame P n off k"
    "hashed (world s') = hashed (world s) @ frame P n 0 (length (body P n))"
    "gs \<noteq> []"
    using do_write_sends [OF assms(1-3)] assms(4-6) by (force simp: message_transcript_def)
  have L: "length (body P n) < 2 ^ 24" using assms(2) by (simp add: serialized_def)
  have "covered P n fs r"
  proof (rule tiles_covered)
    show "tiles 0 gs (length (body P n))" "gs \<noteq> []" by (fact g)+
    fix off k assume "(off, k) \<in> set gs"
    then show "(n, off, k) \<in> set fs" using g(2,4) assms(17) by (force simp: new_records_def)
  qed
  then obtain r' where r': "dtls_get_message e' r = Some ((1, int (unat (fst (P n))), length (body P n)), r')"
    "init_bytes 0 (12 + length (body P n)) r' = frame P n 0 (length (body P n))"
    using get_message_delivers [OF assms(7-14)] assms(15,16) L by auto
  have "init_bytes 12 (length (body P n)) r' = drop 12 (init_bytes 0 (12 + length (body P n)) r')"
    by (simp add: init_bytes_def chunk_def drop_take split: option.split)
  then have "init_bytes 12 (length (body P n)) r' = body P n" unfolding r'(2) by (simp add: frame_def chunk_0_take)
  then show ?thesis using g(1,5) r' by simp
qed

subsection \<open>A fragment that is tried again after the MTU was exceeded\<close>

lemma room_in_datagram_world:
  assumes "fst (room_in_datagram e ov s) = Inr m"
  shows "\<exists>w. snd (room_in_datagram e ov s) = s\<lparr>world := w\<rparr>"
proof -
  obtain ret t where fl: "do_io e BIO_flush s = (ret, t)" by fastforce
  define u where "u = uadd (uadd (size_of_int (query e BIO_wpending s)) 13) ov"
  define c where "c = (if mtu (d1 s) > u then mtu (d1 s) - u else 0)"
  define v where "v = uadd 13 ov"
  have eq: "room_in_datagram e ov s =
      (if c \<le> 12 then
         if ret \<le> 0 then (Inl ret, t\<lparr>rwstate := 2\<rparr>)
         else if uadd v 12 < mtu (d1 t) then (Inr (mtu (d1 t) - v), t) else (Inl (- 1), t)
       else (Inr c, s))"
    unfolding room_in_datagram_def Let_def c_def u_def v_def fl prod.case ..
  show ?thesis
  proof (cases "c \<le> 12")
    case True
    have "\<not> ret \<le> 0" using assms unfolding eq using True by auto
    moreover have "t = s\<lparr>world := snd (io e BIO_flush (world s))\<rparr>" using fl unfolding do_io_eq by blast
    ultimately show ?thesis unfolding eq using True by auto
  next
    case False
    then have "snd (room_in_datagram e ov s) = s" unfolding eq by simp
    then show ?thesis by (intro exI [of _ "world s"]) simp
  qed
qed

text \<open>Two connections that differ at most in the MTU and in what other components keep.\<close>

definition same_but_mtu :: "'w ssl \<Rightarrow> 'w ssl \<Rightarrow> bool" where
  "same_but_mtu s s' \<longleftrightarrow> init_buf s' = init_buf s \<and> init_num s' = init_num s \<and> wside s' = wside s \<and>
     w_msg_hdr (d1 s') = w_msg_hdr (d1 s)"

lemma query_mtu_frame: "same_but_mtu s (snd (dtls1_query_mtu e s))"
  by (simp add: dtls1_query_mtu_def Let_def split_beta do_io_eq same_but_mtu_def)

lemma write_failed_again:
  assumes "write_failed e off retry s = (Inr r, s')"
  shows "r = (off, False) \<and> same_but_mtu s s'"
proof -
  obtain w where "snd (do_io e BIO_dgram_mtu_exceeded s) = s\<lparr>world := w\<rparr>" by (simp add: do_io_eq)
  moreover have "same_but_mtu (s\<lparr>world := w\<rparr>) t \<Longrightarrow> same_but_mtu s t" for t by (simp add: same_but_mtu_def)
  ultimately show ?thesis using assms query_mtu_frame [of "s\<lparr>world := w\<rparr>" e]
    by (auto simp: write_failed_def Let_def split_beta split: if_splits)
qed

lemma after_write_again: "after_write e typ off retry len written s = (Inr (off', retry'), s') \<Longrightarrow> retry' = retry"
  by (auto simp: after_write_def Let_def split_beta split: if_splits)

text \<open>C40.  A fragment other than the first that does not fit the network is written again from the wrong place.
  When the write of the fragment at offset \<open>off\<close> fails, the MTU was exceeded and a new one is known, the
  loop makes room for a header a second time: what goes out as the body from offset \<open>off\<close> on is the
  header of the failed attempt followed by the rest of the body, 12 bytes more than remain.\<close>

theorem mtu_retry_shifts_fragment:
  assumes "writing P n M F off s" and "DTLS1_HM_HEADER_LENGTH < off"
    and "\<And>typ bs t. write_view (snd (write_bytes e typ bs t)) = write_view t"
    and "write_fragment e SSL3_RT_HANDSHAKE ov off True s = (Inr (off, False), s')"
  shows "\<exists>k t. make_room SSL3_RT_HANDSHAKE off s' = Some (off, t) \<and> woff t + DTLS1_HM_HEADER_LENGTH = off \<and>
    init_num t = DTLS1_HM_HEADER_LENGTH + (DTLS1_HM_HEADER_LENGTH + (length (body P n) - off)) \<and>
    init_bytes (woff t + DTLS1_HM_HEADER_LENGTH) (DTLS1_HM_HEADER_LENGTH + (length (body P n) - off)) t =
      dtls1_write_message_header (frame_header P n off k) @ drop off (body P n)"
proof -
  let ?L = "length (body P n)"
  let ?s1 = "s\<lparr>wside := (wside s)\<lparr>init_off := off\<rparr>, init_num := 12 + (?L - off)\<rparr>"
  obtain d where d: "buf_is s d" "rest_in (body P n) off d" and hdr: "header_for P n (w_msg_hdr (d1 s))" and off: "off < ?L"
    using assms(1,2) by (auto simp: writing_def)
  obtain r s2 where rm: "room_in_datagram e ov ?s1 = (r, s2)" by fastforce
  have wf: "(case r of Inl ret \<Rightarrow> (Inl ret, s2) | Inr m \<Rightarrow> put_fragment e SSL3_RT_HANDSHAKE off True (fragment_len m s2) s2) =
      (Inr (off, False), s')"
    using assms(4) unfolding write_fragment_def make_room_writing [OF assms(1)] by (simp add: rm)
  then obtain m where r: "r = Inr m" by (cases r) auto
  obtain w where s2: "s2 = ?s1\<lparr>world := w\<rparr>" using room_in_datagram_world [of e ov ?s1 m] rm r by auto
  define len where "len = fragment_len m s2"
  have pf: "put_fragment e SSL3_RT_HANDSHAKE off True len s2 = (Inr (off, False), s')" using wf by (simp add: r len_def)
  let ?k = "len - 12"
  let ?h = "dtls1_write_message_header (frame_header P n off ?k)"
  let ?t = "write_init_buf off ?h (dtls1_fix_message_header off ?k s2)"
  have h: "dtls1_write_message_header (w_msg_hdr (d1 (dtls1_fix_message_header off ?k s2))) = ?h" "woff s2 = off"
    "init_num s2 = 12 + (?L - off)"
    using header_for_wire [OF hdr] s2 by (simp_all add: d1_fix_header)
  obtain i written t4 where w4: "write_bytes e SSL3_RT_HANDSHAKE (init_bytes off len ?t) ?t = ((i, written), t4)"
    by (metis prod.collapse)
  have "i < 0 \<and> write_failed e off True t4 = (Inr (off, False), s')"
    using pf w4 h after_write_again [of e _ off True len written t4 off False s']
    by (auto simp: put_fragment_def Let_def split: if_splits)
  then have same: "same_but_mtu t4 s'" using write_failed_again by metis
  have v: "init_buf t4 = init_buf ?t" "init_num t4 = init_num ?t" "woff t4 = woff ?t"
    using assms(3) [of SSL3_RT_HANDSHAKE "init_bytes off len ?t" ?t] by (simp_all add: w4 write_view_def)
  have b: "buf_is ?t (overwrite off ?h d)" "rest_in (body P n) off (overwrite off ?h d)"
    using d rest_in_overwrite [OF d(2)] off by (auto simp: s2 intro!: buf_is_write)
  have s': "buf_is s' (overwrite off ?h d)" "woff s' = off" "init_num s' = 12 + (?L - off)"
    using same b(1) v h(2,3) by (simp_all add: same_but_mtu_def buf_is_def)
  let ?u = "(set_init_off (off - 12) s')\<lparr>init_num := 12 + (12 + (?L - off))\<rparr>"
  have "make_room SSL3_RT_HANDSHAKE off s' = Some (off, ?u)"
    unfolding make_room_def s'(2,3) using assms(2) by (simp add: add.commute)
  moreover have "init_bytes off (12 + (?L - off)) ?u = ?h @ drop off (body P n)"
  proof -
    have "init_bytes off (12 + (?L - off)) ?u = chunk off (12 + (?L - off)) (overwrite off ?h d)"
      by (rule buf_is_init_bytes) (simp add: s'(1))
    also have "\<dots> = ?h @ chunk off (?L - off) (body P n)" using d(2) off by (intro frame_in_block) simp_all
    finally show ?thesis by (simp add: chunk_def)
  qed
  ultimately show ?thesis using assms(2) by (intro exI [of _ ?k] exI [of _ ?u]) simp
qed

subsection \<open>A sample writer\<close>

text \<open>A record layer that keeps the records and the transcript.  With its overhead of 229 bytes the smallest MTU is 27
  bytes, so that a fragment has room for two.\<close>

type_synonym sink = "(int \<times> byte list) list \<times> byte list"

definition sink_env :: "sink env" where
  "sink_env =
     \<lparr>io = (\<lambda>_ w. (1, w)), query = (\<lambda>q _. case q of BIO_dgram_get_mtu_overhead \<Rightarrow> 229 | _ \<Rightarrow> 0),
      call = (\<lambda>c s. case c of ssl3_finish_mac bs \<Rightarrow> (1, s\<lparr>world := (fst (world s), snd (world s) @ bs)\<rparr>) | _ \<Rightarrow> (1, s)),
      construct = (\<lambda>_ s. (1, s)), process = (\<lambda>_ _ s. (MSG_PROCESS_CONTINUE_READING, s)),
      post_process = (\<lambda>_ _ s. (WORK_FINISHED_CONTINUE, s)), get_header = (\<lambda>s. ((0, 0), s)), get_body = (\<lambda>s. ((0, 0), s)),
      get_dtls = (\<lambda>s. ((0, 0, 0), s)), read_bytes = (\<lambda>_ s. ((- 1, 0, []), s)),
      write_bytes = (\<lambda>typ bs s. ((1, length bs), s\<lparr>world := (fst (world s) @ [(typ, bs)], snd (world s))\<rparr>)),
      SSL_get_ciphers = (\<lambda>_. []), heap = (\<lambda>n. Some (replicate n 0))\<rparr>"

lemma sink_writer: "record_writer sink_env fst snd"
  by (auto simp: record_writer_def sink_env_def write_view_def)

definition sink_conn :: "byte \<Rightarrow> byte list \<Rightarrow> sink ssl" where
  "sink_conn t B =
     (dtls_conn ([], []))
       \<lparr>d1 := sample_d1\<lparr>mtu := 27, w_msg_hdr := hm_header_zero\<lparr>hm_type := t, msg_len := length B\<rparr>\<rparr>,
        init_buf := Some \<lparr>buf_length = 12 + length B, buf_data = Some (replicate 12 0 @ B), buf_max = 12 + length B,
                         buf_flags = 0\<rparr>,
        init_num := 12 + length B\<rparr>"

lemma sink_settled: "mtu_settled sink_env (sink_conn t B)"
  by (simp add: mtu_settled_def sink_conn_def dtls_conn_def sink_env_def sample_d1_def dtls1_min_mtu_def
      dtls1_link_min_mtu_def g_probable_mtu_def record_overhead_def size_of_int_def)

lemma sink_serialized: "length B < 2 ^ 24 \<Longrightarrow> P 0 = (t, B) \<Longrightarrow> serialized P 0 (sink_conn t B)"
  by (simp add: serialized_def sink_conn_def dtls_conn_def sample_d1_def hm_header_zero_def header_for_def buf_is_def
      rest_in_def chunk_def)

theorem dtls1_do_write_correct_witness:
  "\<exists>s' fs. dtls1_do_write sink_env SSL3_RT_HANDSHAKE (sink_conn 2 [1, 2, 3]) = Some (1, s') \<and> tiles 0 fs 3 \<and>
    (\<forall>(off, k) \<in> set fs. k \<le> 2) \<and> snd (world s') = frame sample_peer 0 0 3"
proof -
  have "serialized sample_peer 0 (sink_conn 2 [1, 2, 3])" by (rule sink_serialized) (simp_all add: sample_peer_def)
  from dtls1_do_write_correct [OF sink_writer this sink_settled]
  obtain s' fs where r: "dtls1_do_write sink_env SSL3_RT_HANDSHAKE (sink_conn 2 [1, 2, 3]) = Some (1, s')"
    "tiles 0 fs (length (body sample_peer 0))"
    "\<forall>(off, k) \<in> set fs. 13 + record_overhead sink_env (sink_conn 2 [1, 2, 3]) + 12 + k \<le> mtu (d1 (sink_conn 2 [1, 2, 3]))"
    "snd (world s') = snd (world (sink_conn 2 [1, 2, 3])) @ message_transcript sample_peer 0 (sink_conn 2 [1, 2, 3])"
    by fast
  have "\<forall>(off, k) \<in> set fs. k \<le> 2"
    using r(3) by (auto simp: sink_conn_def record_overhead_def)
  moreover have "snd (world s') = frame sample_peer 0 0 3"
    using r(4) by (simp add: sink_conn_def dtls_conn_def sample_d1_def message_transcript_def sample_bodies flip: numeral_3_eq_3)
  moreover have "tiles 0 fs 3" using r(2) by (simp add: sample_bodies flip: numeral_3_eq_3)
  ultimately show ?thesis using r(1) by blast
qed

text \<open>A receiver to which every fragment of message 0 arrives, the last ones first.\<close>

definition all_frames :: frames where
  "all_frames = [(0, 2, 1), (0, 1, 2), (0, 1, 1), (0, 0, 3), (0, 0, 2), (0, 0, 1)]"

definition all_conn :: "sample_world ssl" where
  "all_conn = dtls_conn ([], map (\<lambda>f. [f]) all_frames)"

lemma all_frames_valid: "(m, off, k) \<in> set all_frames \<Longrightarrow> m = 0 \<and> valid_frame sample_peer 0 off k"
  by (auto simp: all_frames_def valid_frame_def sample_peer_def)

lemma all_conn_facts:
  "recv_ok sample_peer all_conn" "to_come sample_peer fst (\<lambda>w. clean (snd w)) all_frames all_conn"
  "frames_ok sample_peer (dtls1_max_handshake_message_len all_conn) all_frames" "rseq all_conn = 0"
  "length (body sample_peer 0) \<le> dtls1_max_handshake_message_len all_conn"
proof -
  have "clean (map (\<lambda>f. [f]) all_frames) = map (\<lambda>f. [f]) all_frames"
    by (rule clean_id) (use all_frames_valid in fastforce)
  then show "to_come sample_peer fst (\<lambda>w. clean (snd w)) all_frames all_conn"
    unfolding to_come_def by (intro exI [of _ "[]"]) (simp add: all_conn_def dtls_conn_def)
  have "dtls1_max_handshake_message_len all_conn = 102400"
    by (simp add: all_conn_def dtls_conn_def dtls1_max_handshake_message_len_def)
  then show "frames_ok sample_peer (dtls1_max_handshake_message_len all_conn) all_frames"
    "length (body sample_peer 0) \<le> dtls1_max_handshake_message_len all_conn"
    using all_frames_valid by (fastforce simp: frames_ok_def sample_peer_def)+
qed (simp_all add: all_conn_def dtls_conn_def sample_d1_def recv_ok_def buffer_ok_def buf_wf_def queue_ok_def)

theorem dtls_message_round_trip_witness:
  "\<exists>s' r'. dtls1_do_write sink_env SSL3_RT_HANDSHAKE (sink_conn 2 [1, 2, 3]) = Some (1, s') \<and>
    dtls_get_message dgram_env all_conn = Some ((1, 2, 3), r') \<and> snd (world s') = init_bytes 0 15 r' \<and>
    init_bytes 12 3 r' = [1, 2, 3]"
proof -
  have z: "serialized sample_peer 0 (sink_conn 2 [1, 2, 3])" by (rule sink_serialized) (simp_all add: sample_peer_def)
  obtain s' where w: "dtls1_do_write sink_env SSL3_RT_HANDSHAKE (sink_conn 2 [1, 2, 3]) = Some (1, s')"
    using do_write_sends [OF sink_writer z sink_settled] by blast
  have "(0, off, k) \<in> set all_frames" if "valid_frame sample_peer 0 off k" for off k
    using that by (auto simp: valid_frame_def sample_peer_def all_frames_def)
  moreover have "\<not> retransmitting (d1 (sink_conn 2 [1, 2, 3]))" "version (sink_conn 2 [1, 2, 3]) \<noteq> DTLS1_BAD_VER"
    "world (sink_conn 2 [1, 2, 3]) = ([], [])"
    by (simp_all add: sink_conn_def dtls_conn_def sample_d1_def)
  ultimately show ?thesis
    using dtls_message_round_trip [OF sink_writer z sink_settled _ _ w dgram_transport dgram_feeds dgram_heap all_conn_facts] w
    by (auto simp: sample_bodies simp flip: numeral_3_eq_3)
qed

text \<open>A network that rejects every datagram: the fragment at offset 13 of a message of 20 bytes is written.\<close>

definition reject_env :: "sink env" where
  "reject_env = sink_env\<lparr>write_bytes := \<lambda>_ _ s. ((- 1, 0), s)\<rparr>"

definition reject_conn :: "sink ssl" where
  "reject_conn = (set_init_off 25 (sink_conn 11 (replicate 20 9)))\<lparr>init_num := 7\<rparr>"

theorem mtu_retry_shifts_fragment_witness:
  "\<exists>s' k t. write_fragment reject_env SSL3_RT_HANDSHAKE 0 13 True reject_conn = (Inr (13, False), s') \<and>
    make_room SSL3_RT_HANDSHAKE 13 s' = Some (13, t) \<and> init_num t = 31 \<and>
    init_bytes 13 19 t = dtls1_write_message_header (frame_header (\<lambda>_. (11, replicate 20 9)) 0 13 k) @ replicate 7 9"
proof -
  let ?P = "\<lambda>_ :: nat. (11 :: byte, replicate 20 (9 :: byte))"
  have w: "writing ?P 0 27 16384 13 reject_conn"
    by (simp add: writing_def reject_conn_def sink_conn_def dtls_conn_def sample_d1_def hm_header_zero_def header_for_def
        buf_is_def rest_in_def chunk_def)
  have d: "d1 reject_conn = sample_d1\<lparr>mtu := 27, w_msg_hdr := hm_header_zero\<lparr>hm_type := 11, msg_len := 20\<rparr>\<rparr>"
    "options reject_conn = 0" "max_send_fragment (wside reject_conn) = 16384"
    by (simp_all add: reject_conn_def sink_conn_def dtls_conn_def)
  have "\<exists>s'. write_fragment reject_env SSL3_RT_HANDSHAKE 0 13 True reject_conn = (Inr (13, False), s')"
    unfolding write_fragment_def make_room_writing [OF w]
    by (simp add: room_in_datagram_def fragment_len_def put_fragment_def write_failed_def dtls1_query_mtu_def Let_def
        do_io_eq reject_env_def sink_env_def size_of_int_def uadd_def d sample_d1_def dtls1_min_mtu_def
        dtls1_link_min_mtu_def g_probable_mtu_def dtls1_fix_message_header_def write_init_buf_def)
  then obtain s' where s': "write_fragment reject_env SSL3_RT_HANDSHAKE 0 13 True reject_conn = (Inr (13, False), s')" ..
  have "write_view (snd (write_bytes reject_env ty bs t)) = write_view t" for ty bs t by (simp add: reject_env_def)
  from mtu_retry_shifts_fragment [OF w _ this s']
  obtain k t where t: "make_room SSL3_RT_HANDSHAKE 13 s' = Some (13, t)" "woff t + 12 = 13" "init_num t = 12 + (12 + (20 - 13))"
    "init_bytes (woff t + 12) (12 + (20 - 13)) t = dtls1_write_message_header (frame_header ?P 0 13 k) @ drop 13 (replicate 20 9)"
    by auto
  have "init_bytes 13 19 t = dtls1_write_message_header (frame_header ?P 0 13 k) @ replicate 7 9"
    using t(4) unfolding t(2) by simp
  then show ?thesis using s' t(1,3) by (intro exI [of _ s'] exI [of _ k] exI [of _ t]) simp
qed

end
