(* ===== verification/Dtls_Flight.thy ===== *)
theory Dtls_Flight
  imports Dtls_Write
begin

section \<open>Termination of the writer, and retransmission\<close>

text \<open>
  \<^verbatim>\<open>dtls1_do_write\<close> returns whatever the record layer does: every iteration of its loop sends something, or
  uses up the only second attempt.  A flight of sent messages is kept in \<open>sent_messages\<close>; when the
  timer expires it is written again, message by message, in the order and under the write state of
  the first time, without adding to the transcript.
\<close>

subsection \<open>The loop ends\<close>

text \<open>What the iteration that is about to start finds in the buffer, with the header it makes room for.\<close>

definition remaining :: "int \<Rightarrow> nat \<Rightarrow> 'w ssl \<Rightarrow> nat" where
  "remaining ty off s =
     (if ty = SSL3_RT_HANDSHAKE \<and> woff s \<noteq> 0 \<and> off > 0 then init_num s + DTLS1_HM_HEADER_LENGTH else init_num s)"

definition keeps_view :: "'w env \<Rightarrow> bool" where
  "keeps_view e \<longleftrightarrow>
     (\<forall>ty bs s. write_view (snd (write_bytes e ty bs s)) = write_view s) \<and>
     (\<forall>bs s. write_view (snd (call e (ssl3_finish_mac bs) s)) = write_view s)"

lemma make_room_remaining:
  "make_room ty off s = Some (off', t) \<Longrightarrow>
    init_num t = remaining ty off s \<and> max_send_fragment (wside t) = max_send_fragment (wside s)"
  by (auto simp: make_room_def remaining_def split: if_splits)

lemma fragment_len_bounds:
  assumes "init_num s \<noteq> 0" and "12 < m" and "12 < max_send_fragment (wside s)"
  shows "0 < fragment_len m s" "fragment_len m s \<le> init_num s" "fragment_len m s \<le> 12 \<Longrightarrow> fragment_len m s = init_num s"
proof -
  obtain k where k: "init_num s mod 2 ^ 32 = k" "k \<le> init_num s" by simp
  show "0 < fragment_len m s" "fragment_len m s \<le> init_num s" "fragment_len m s \<le> 12 \<Longrightarrow> fragment_len m s = init_num s"
    using assms k(2) unfolding fragment_len_def Let_def k(1) by (simp_all split: if_splits)
qed

lemma room_in_datagram_header:
  assumes "fst (room_in_datagram e ov s) = Inr m" and "ov < 2 ^ 32"
  shows "12 < m"
proof -
  obtain ret t where fl: "do_io e BIO_flush s = (ret, t)" by fastforce
  define u where "u = uadd (uadd (size_of_int (query e BIO_wpending s)) 13) ov"
  define c where "c = (if mtu (d1 s) > u then mtu (d1 s) - u else 0)"
  have v: "uadd 13 ov = 13 + ov" "uadd (13 + ov) 12 = 25 + ov" using assms(2) by (simp_all add: uadd_def)
  have eq: "room_in_datagram e ov s =
      (if c \<le> 12 then
         if ret \<le> 0 then (Inl ret, t\<lparr>rwstate := 2\<rparr>)
         else if 25 + ov < mtu (d1 t) then (Inr (mtu (d1 t) - (13 + ov)), t) else (Inl (- 1), t)
       else (Inr c, s))"
    unfolding room_in_datagram_def Let_def c_def u_def v fl prod.case ..
  have "fst (room_in_datagram e ov s) =
      (if c \<le> 12 then if ret \<le> 0 then Inl ret else if 25 + ov < mtu (d1 t) then Inr (mtu (d1 t) - (13 + ov)) else Inl (- 1)
       else Inr c)"
    unfolding eq by (simp split: if_split)
  then show ?thesis using assms(1) by (simp split: if_splits)
qed

lemma hash_fragment_view:
  assumes "keeps_view e"
  shows "init_num (snd (hash_fragment e ty off len s)) = init_num s"
    "woff (snd (hash_fragment e ty off len s)) = woff s"
    "max_send_fragment (wside (snd (hash_fragment e ty off len s))) = max_send_fragment (wside s)"
proof -
  have c: "write_view (snd (call e (ssl3_finish_mac bs) t)) = write_view t" for bs t using assms by (simp add: keeps_view_def)
  then have "init_num (snd (call e (ssl3_finish_mac bs) t)) = init_num t"
    "woff (snd (call e (ssl3_finish_mac bs) t)) = woff t"
    "max_send_fragment (wside (snd (call e (ssl3_finish_mac bs) t))) = max_send_fragment (wside t)" for bs t
    using c [of bs t] by (simp_all add: write_view_def)
  then show "init_num (snd (hash_fragment e ty off len s)) = init_num s"
    "woff (snd (hash_fragment e ty off len s)) = woff s"
    "max_send_fragment (wside (snd (hash_fragment e ty off len s))) = max_send_fragment (wside s)"
    by (simp_all add: hash_fragment_def Let_def split_beta)
qed

lemma after_write_progress:
  assumes "keeps_view e" and "after_write e ty off retry len written s = (Inr (off', retry'), s')"
  shows "written = len \<and> len \<noteq> init_num s \<and> retry' = retry \<and> init_num s' = init_num s - len \<and>
    max_send_fragment (wside s') = max_send_fragment (wside s)"
proof -
  obtain ok t where h: "hash_fragment e ty off written s = (ok, t)" by fastforce
  have t: "init_num t = init_num s" "max_send_fragment (wside t) = max_send_fragment (wside s)"
    using hash_fragment_view [OF assms(1), of ty off written s] by (simp_all add: h)
  show ?thesis using assms(2) t by (auto simp: after_write_def h Let_def split: if_splits)
qed

lemma put_fragment_progress:
  assumes "keeps_view e" and "put_fragment e ty off retry len s = (Inr (off', retry'), s')"
  shows "max_send_fragment (wside s') = max_send_fragment (wside s) \<and>
    (retry \<and> \<not> retry' \<or>
     retry' = retry \<and> len \<noteq> init_num s \<and> (ty = SSL3_RT_HANDSHAKE \<longrightarrow> 12 \<le> len) \<and> init_num s' = init_num s - len)"
proof -
  define t where "t = (if ty = SSL3_RT_HANDSHAKE then
      write_init_buf (woff s) (dtls1_write_message_header (w_msg_hdr (d1 (dtls1_fix_message_header off (len - 12) s))))
        (dtls1_fix_message_header off (len - 12) s) else s)"
  have t: "init_num t = init_num s" "woff t = woff s" "max_send_fragment (wside t) = max_send_fragment (wside s)"
    by (simp_all add: t_def)
  obtain i written u where w: "write_bytes e ty (init_bytes (woff t) len t) t = ((i, written), u)" by (metis prod.collapse)
  have "write_view u = write_view t" using assms(1) w unfolding keeps_view_def by (metis snd_conv)
  then have u: "init_num u = init_num s" "max_send_fragment (wside u) = max_send_fragment (wside s)"
    using t by (simp_all add: write_view_def)
  have pf: "put_fragment e ty off retry len s =
      (if ty = SSL3_RT_HANDSHAKE \<and> len < 12 then (Inl (- 1), s)
       else if i < 0 then write_failed e off retry u else after_write e ty off retry len written u)"
    using w unfolding put_fragment_def Let_def t_def by (auto simp: Let_def split: if_splits)
  then have guard: "ty = SSL3_RT_HANDSHAKE \<longrightarrow> 12 \<le> len"
    and r: "(if i < 0 then write_failed e off retry u else after_write e ty off retry len written u) = (Inr (off', retry'), s')"
    using assms(2) by (auto split: if_splits)
  show ?thesis
  proof (cases "i < 0")
    case True
    then have wf: "write_failed e off retry u = (Inr (off', retry'), s')" using r by simp
    then have "retry" by (simp add: write_failed_def split: if_splits)
    then show ?thesis using write_failed_again [OF wf] u by (simp add: same_but_mtu_def)
  next
    case False
    then have "after_write e ty off retry len written u = (Inr (off', retry'), s')" using r by simp
    from after_write_progress [OF assms(1) this] show ?thesis using u guard by simp
  qed
qed

lemma write_fragment_progress:
  assumes "keeps_view e" and "12 < max_send_fragment (wside s)" and "init_num s \<noteq> 0" and "ov < 2 ^ 32"
    and "write_fragment e ty ov off retry s = (Inr (off', retry'), s')"
  shows "max_send_fragment (wside s') = max_send_fragment (wside s) \<and>
    (retry \<and> \<not> retry' \<or> retry' = retry \<and> remaining ty off' s' < remaining ty off s)"
proof -
  obtain off1 s1 where m: "make_room ty off s = Some (off1, s1)"
    using assms(5) by (auto simp: write_fragment_def split: option.splits)
  obtain r s2 where rm: "room_in_datagram e ov s1 = (r, s2)" by fastforce
  then obtain k where k: "r = Inr k" using assms(5) m by (cases r) (auto simp: write_fragment_def)
  obtain w where s2: "s2 = s1\<lparr>world := w\<rparr>" using room_in_datagram_world [of e ov s1 k] rm k by auto
  have k12: "12 < k" using room_in_datagram_header [of e ov s1 k] rm k assms(4) by simp
  have n: "init_num s2 = remaining ty off s" "max_send_fragment (wside s2) = max_send_fragment (wside s)"
    using make_room_remaining [OF m] s2 by simp_all
  have pos: "init_num s2 \<noteq> 0" using n(1) assms(3) by (simp add: remaining_def)
  note len = fragment_len_bounds [OF this k12, unfolded n(2), OF assms(2)]
  have "put_fragment e ty off1 retry (fragment_len k s2) s2 = (Inr (off', retry'), s')"
    using assms(5) m rm k by (simp add: write_fragment_def)
  note pf = put_fragment_progress [OF assms(1) this]
  have "remaining ty off' s' < remaining ty off s"
    if "fragment_len k s2 \<noteq> init_num s2" "init_num s' = init_num s2 - fragment_len k s2"
  proof -
    have "12 < fragment_len k s2" using len(3) that(1) by fastforce
    then have "init_num s' + 12 < init_num s2" using that len(2) by linarith
    moreover have "remaining ty off' s' \<le> init_num s' + 12" by (simp add: remaining_def)
    ultimately show ?thesis using n(1) by linarith
  qed
  then show ?thesis using pf n(2) by auto
qed

lemma loop_ends_aux:
  assumes "keeps_view e" and "ov < 2 ^ 32"
    and "\<And>off s. retry \<Longrightarrow> 12 < max_send_fragment (wside s) \<Longrightarrow> do_write_loop e ty ov off False s \<noteq> None"
  shows "12 < max_send_fragment (wside s) \<Longrightarrow> do_write_loop e ty ov off retry s \<noteq> None"
proof (induction "remaining ty off s" arbitrary: off s rule: less_induct)
  case less
  show ?case
  proof (cases "init_num s = 0")
    case True
    then have "do_write_loop e ty ov off retry s = Some (0, s)" by (subst do_write_loop.simps) simp
    then show ?thesis by (simp only: option.distinct not_False_eq_True)
  next
    case False
    obtain r s' where r: "write_fragment e ty ov off retry s = (r, s')" by fastforce
    show ?thesis
    proof (cases r)
      case (Inl ret)
      then have "do_write_loop e ty ov off retry s = Some (ret, s')"
        using r False by (subst do_write_loop.simps) (simp only: if_False prod.case sum.case)
      then show ?thesis by (simp only: option.distinct not_False_eq_True)
    next
      case (Inr p)
      obtain off' retry' where p: "p = (off', retry')" by fastforce
      have step: "do_write_loop e ty ov off retry s = do_write_loop e ty ov off' retry' s'"
        using r Inr p False by (subst do_write_loop.simps) simp
      note pr = write_fragment_progress [OF assms(1) less.prems False assms(2) r [unfolded Inr p]]
      then have F: "12 < max_send_fragment (wside s')" using less.prems by simp
      show ?thesis unfolding step
      proof (cases "retry' = retry")
        case True
        then show "do_write_loop e ty ov off' retry' s' \<noteq> None" using pr less.hyps [OF _ F, of off'] by auto
      next
        case False
        then show "do_write_loop e ty ov off' retry' s' \<noteq> None" using pr assms(3) [OF _ F, of off'] by auto
      qed
    qed
  qed
qed

lemma loop_ends:
  assumes "keeps_view e" and "ov < 2 ^ 32" and "12 < max_send_fragment (wside s)"
  shows "do_write_loop e ty ov off retry s \<noteq> None"
proof -
  have again: "do_write_loop e ty ov off False s \<noteq> None" if "12 < max_send_fragment (wside s)" for off and s :: "'a ssl"
    by (rule loop_ends_aux [OF assms(1,2) _ that]) (simp only: False_implies_equals simp_thms)
  show ?thesis by (rule loop_ends_aux [OF assms(1,2) again assms(3)])
qed

text \<open>C14.  \<^verbatim>\<open>dtls1_do_write\<close> returns for every message of every type, whatever the record layer and the datagram
  BIO answer (short writes, errors, exceeded MTUs and bogus MTUs included), provided only that they
  leave the message alone, the record overhead is a 32-bit number, and the largest fragment is longer
  than a handshake header.\<close>

theorem dtls1_do_write_terminates:
  assumes "keeps_view e" and "\<And>t. record_overhead e t < 2 ^ 32" and "DTLS1_HM_HEADER_LENGTH < max_send_fragment (wside s)"
  shows "\<exists>ret s'. dtls1_do_write e ty s = Some (ret, s')"
proof -
  obtain ok t where q: "dtls1_query_mtu e s = (ok, t)" by fastforce
  have "wside t = wside s" using query_mtu_frame [of s e] q by (simp add: same_but_mtu_def)
  then have "do_write_loop e ty (record_overhead e t) 0 True (t\<lparr>rwstate := SSL_NOTHING\<rparr>) \<noteq> None"
    using assms by (intro loop_ends) simp_all
  then show ?thesis by (auto simp: dtls1_do_write_def q)
qed

theorem dtls1_do_write_terminates_witness:
  "\<exists>ret s'. dtls1_do_write reject_env SSL3_RT_HANDSHAKE (sink_conn 11 (replicate 20 9)) = Some (ret, s')"
proof (rule dtls1_do_write_terminates)
  show "keeps_view reject_env" by (simp add: keeps_view_def reject_env_def sink_env_def write_view_def)
  show "record_overhead reject_env t < 2 ^ 32" for t
    by (simp add: record_overhead_def reject_env_def sink_env_def size_of_int_def uadd_def)
  show "12 < max_send_fragment (wside (sink_conn 11 (replicate 20 9)))" by (simp add: sink_conn_def dtls_conn_def)
qed

end
