(* ===== verification/Dtls_Resend.thy ===== *)
theory Dtls_Resend
  imports Dtls_Flight
begin

section \<open>Retransmission of a flight\<close>

text \<open>
  \<^verbatim>\<open>dtls1_retransmit_buffered_messages\<close> writes every message of \<open>sent_messages\<close> again.  The messages go out in the order
  in which they were sent, each under the write state of its first transmission; afterwards the
  current write state is back in place, and the transcript has not changed.
\<close>

subsection \<open>The buffer keeps its size\<close>

definition room_ge :: "nat \<Rightarrow> 'w ssl \<Rightarrow> bool" where
  "room_ge k s \<longleftrightarrow> (\<exists>d. buf_is s d \<and> k \<le> length d)"

lemma length_overwrite_ge: "length xs \<le> length (overwrite i ys xs)"
  by (simp add: overwrite_def)

lemma room_ge_write: "room_ge k s \<Longrightarrow> room_ge k (write_init_buf off bs s)"
  unfolding room_ge_def by (meson buf_is_write length_overwrite_ge order_trans)

lemma room_ge_same: "init_buf t = init_buf s \<Longrightarrow> room_ge k t = room_ge k s"
  by (simp add: room_ge_def buf_is_def)

lemma write_view_buf: "write_view t = write_view s \<Longrightarrow> init_buf t = init_buf s"
  by (simp add: write_view_def)

lemma do_io_buf [simp]: "init_buf (snd (do_io e opn s)) = init_buf s"
  by (simp add: do_io_eq)

lemma hash_fragment_room:
  assumes "keeps_view e" and "room_ge k s"
  shows "room_ge k (snd (hash_fragment e ty off len s))"
proof -
  have c: "room_ge k (snd (call e (ssl3_finish_mac bs) t)) = room_ge k t" for bs t
    using assms(1) room_ge_same [OF write_view_buf] by (metis keeps_view_def)
  show ?thesis using assms(2) by (simp add: hash_fragment_def Let_def split_beta c room_ge_write)
qed

lemma after_write_room:
  assumes "keeps_view e" and "room_ge k s"
  shows "room_ge k (snd (after_write e ty off retry len written s))"
proof -
  obtain ok t where h: "hash_fragment e ty off written s = (ok, t)" by fastforce
  then have t: "room_ge k t" using hash_fragment_room [OF assms, of ty off written] by simp
  have u: "room_ge k u" if "init_buf u = init_buf t" for u using t room_ge_same [OF that] by simp
  show ?thesis using assms(2) by (simp add: after_write_def h Let_def do_io_eq u)
qed

lemma write_failed_room: "room_ge k (snd (write_failed e off retry s)) = room_ge k s"
proof (rule room_ge_same)
  have q: "init_buf (snd (dtls1_query_mtu e t)) = init_buf t" for t using query_mtu_frame [of t e] by (simp add: same_but_mtu_def)
  show "init_buf (snd (write_failed e off retry s)) = init_buf s"
    by (simp add: write_failed_def Let_def split_beta q)
qed

lemma put_fragment_room:
  assumes "keeps_view e" and "room_ge k s"
  shows "room_ge k (snd (put_fragment e ty off retry len s))"
proof -
  have wb: "room_ge k (snd (write_bytes e ty bs t)) = room_ge k t" for bs t
    using assms(1) room_ge_same [OF write_view_buf] by (metis keeps_view_def)
  have "room_ge k (dtls1_fix_message_header off n s)" for n using assms(2) by (simp add: room_ge_def)
  then show ?thesis using assms
    by (simp add: put_fragment_def Let_def split_beta write_failed_room after_write_room wb room_ge_write)
qed

lemma write_fragment_room:
  assumes "keeps_view e" and "room_ge k s"
  shows "room_ge k (snd (write_fragment e ty ov off retry s))"
proof (cases "make_room ty off s")
  case (Some p)
  obtain off1 s1 where p: "p = (off1, s1)" by fastforce
  obtain r s2 where rm: "room_in_datagram e ov s1 = (r, s2)" by fastforce
  have "init_buf s1 = init_buf s" using Some p by (auto simp: make_room_def split: if_splits)
  moreover have "init_buf (snd (room_in_datagram e ov s1)) = init_buf s1"
    by (simp add: room_in_datagram_def Let_def split_beta)
  ultimately have "room_ge k s2" using room_ge_same [of s2 s k] rm assms(2) by simp
  then show ?thesis using Some p rm put_fragment_room [OF assms(1)]
    by (simp add: write_fragment_def split: sum.split)
qed (use assms(2) in \<open>simp add: write_fragment_def\<close>)

lemma loop_room:
  assumes "do_write_loop e ty ov off retry s = Some r" and "keeps_view e" and "room_ge k s"
  shows "room_ge k (snd r)"
proof -
  have "keeps_view e \<longrightarrow> room_ge k s \<longrightarrow> room_ge k (snd r)"
    if "do_write_loop e ty ov off retry s = Some r" for e ty ov off retry and s :: "'a ssl" and r
  proof (rule do_write_loop.raw_induct [OF _ that])
    fix loop :: "'a env \<Rightarrow> int \<Rightarrow> nat \<Rightarrow> nat \<Rightarrow> bool \<Rightarrow> 'a ssl \<Rightarrow> (int \<times> 'a ssl) option" and e ty ov off retry s r
    assume IH: "\<And>e ty ov off retry s r. loop e ty ov off retry s = Some r \<Longrightarrow> keeps_view e \<longrightarrow> room_ge k s \<longrightarrow> room_ge k (snd r)"
      and step: "(if init_num s = 0 then Some (0, s)
        else case write_fragment e ty ov off retry s of (Inl ret, s) \<Rightarrow> Some (ret, s)
             | (Inr (off, retry), s) \<Rightarrow> loop e ty ov off retry s) = Some r"
    show "keeps_view e \<longrightarrow> room_ge k s \<longrightarrow> room_ge k (snd r)"
    proof (intro impI)
      assume a: "keeps_view e" "room_ge k s"
      obtain p t where w: "write_fragment e ty ov off retry s = (p, t)" by fastforce
      have "room_ge k t" using write_fragment_room [OF a, of ty ov off retry] w by simp
      then show "room_ge k (snd r)" using step a w IH [of e ty ov _ _ t r] by (cases p) (auto split: if_splits)
    qed
  qed
  then show ?thesis using assms by blast
qed

lemma do_write_room:
  assumes "dtls1_do_write e ty s = Some (ret, s')" and "keeps_view e" and "room_ge k s"
  shows "room_ge k s'"
proof -
  obtain ok t where q: "dtls1_query_mtu e s = (ok, t)" by fastforce
  have "init_buf t = init_buf s" using query_mtu_frame [of s e] q by (simp add: same_but_mtu_def)
  then have "room_ge k t" "room_ge k (t\<lparr>rwstate := SSL_NOTHING\<rparr>)" using assms(3) by (simp_all add: room_ge_def buf_is_def)
  then show ?thesis using assms(1,2) loop_room [of e ty _ 0 True "t\<lparr>rwstate := SSL_NOTHING\<rparr>" "(ret, s')" k]
    by (auto simp: dtls1_do_write_def q split: if_splits)
qed

subsection \<open>The queue of sent messages\<close>

text \<open>
  A queued message: a ChangeCipherSpec, or message \<open>n\<close> of \<open>P\<close> as it was serialized, under the priority that
  \<^verbatim>\<open>dtls1_get_queue_priority\<close> gives it.
\<close>

definition sent_item :: "peer \<Rightarrow> msg_frag pitem \<Rightarrow> bool" where
  "sent_item P x \<longleftrightarrow>
     (let f = item_data x; h = msg_header f in
      saved_retransmit_state h \<noteq> None \<and> hm_seq h < 2 ^ 15 \<and>
      int (prio x) = dtls1_get_queue_priority (hm_seq h) (is_ccs h) \<and>
      (if is_ccs h then msg_len h = 0 \<and> 1 \<le> length (fragment f) \<and> hd (fragment f) = SSL3_MT_CCS
       else header_for P (hm_seq h) h \<and> msg_len h < 2 ^ 24 \<and> 12 \<le> length (fragment f) \<and>
            drop 12 (fragment f) = body P (hm_seq h)))"

definition flight_ok :: "peer \<Rightarrow> msg_frag pqueue \<Rightarrow> bool" where
  "flight_ok P q \<longleftrightarrow> pqueue_wf q \<and> (\<forall>x \<in> set q. sent_item P x)"

text \<open>The records that stand for a queued message.\<close>

definition resent :: "peer \<Rightarrow> msg_frag pitem \<Rightarrow> (int \<times> byte list) list \<Rightarrow> bool" where
  "resent P x recs \<longleftrightarrow>
     (let h = msg_header (item_data x) in
      if is_ccs h then recs = [(SSL3_RT_CHANGE_CIPHER_SPEC, [SSL3_MT_CCS])]
      else \<exists>fs. recs = map (\<lambda>(off, k). (SSL3_RT_HANDSHAKE, frame P (hm_seq h) off k)) fs \<and>
                tiles 0 fs (length (body P (hm_seq h))))"

text \<open>The MTU is known and leaves room under every write state.\<close>

definition mtu_fits :: "'w env \<Rightarrow> 'w ssl \<Rightarrow> bool" where
  "mtu_fits e s \<longleftrightarrow>
     link_mtu (d1 s) = 0 \<and> (\<forall>t. dtls1_min_mtu e t \<le> mtu (d1 s) \<and> 25 + record_overhead e t < mtu (d1 s)) \<and>
     mtu (d1 s) < 2 ^ 32 \<and> 512 \<le> max_send_fragment (wside s) \<and> max_send_fragment (wside s) \<le> SSL3_RT_MAX_PLAIN_LENGTH"

lemma mtu_fits_settled:
  assumes "mtu_fits e s" and "link_mtu (d1 t) = link_mtu (d1 s)" "mtu (d1 t) = mtu (d1 s)"
    "max_send_fragment (wside t) = max_send_fragment (wside s)"
  shows "mtu_settled e t" "mtu_fits e t"
  using assms by (simp_all add: mtu_fits_def mtu_settled_def)

lemma set_write_state_simps [simp]:
  "d1 (set_write_state r s) = d1 s" "init_buf (set_write_state r s) = init_buf s" "init_num (set_write_state r s) = init_num s"
  "world (set_write_state r s) = world s" "woff (set_write_state r s) = woff s" "version (set_write_state r s) = version s"
  "max_send_fragment (wside (set_write_state r s)) = max_send_fragment (wside s)"
  "current_write_state (set_write_state r s) = r" "statem (set_write_state r s) = statem s"
  by (simp_all add: set_write_state_def DTLS_RECORD_LAYER_set_saved_w_epoch_def Let_def current_write_state_def)

text \<open>Going to the previous epoch and back leaves the sequence number of the current one as it was.\<close>

lemma epoch_and_back:
  assumes "rs_epoch r + 1 = w_epoch (wside s)" and "w_epoch (wside t) = rs_epoch r" and "rs_epoch r' = w_epoch (wside s)"
    and "curr_write_sequence (wside t) = curr_write_sequence (wside (set_write_state r s))"
  shows "write_sequence (wside (set_write_state r' t)) = write_sequence (wside s)"
  using assms by (simp add: set_write_state_def DTLS_RECORD_LAYER_set_saved_w_epoch_def)

lemma epoch_set: "w_epoch (wside (set_write_state r s)) = rs_epoch r"
  by (simp add: set_write_state_def DTLS_RECORD_LAYER_set_saved_w_epoch_def Let_def)

lemma do_write_ccs:
  assumes "record_writer e sent hashed" and "mtu_settled e s" and "buf_is s d" and "1 \<le> length d" and "hd d = SSL3_MT_CCS"
    and "init_num s = 1" and "woff s = 0"
  shows "\<exists>s'. dtls1_do_write e SSL3_RT_CHANGE_CIPHER_SPEC s = Some (1, s') \<and> woff s' = 0 \<and>
    sent (world s') = sent (world s) @ [(SSL3_RT_CHANGE_CIPHER_SPEC, [SSL3_MT_CCS])] \<and>
    hashed (world s') = hashed (world s) \<and> kept s' = kept s"
proof -
  let ?s = "s\<lparr>rwstate := SSL_NOTHING\<rparr>" and ?T = SSL3_RT_CHANGE_CIPHER_SPEC
  have m: "25 + record_overhead e s < mtu (d1 s)" "mtu (d1 s) < 2 ^ 32" "512 \<le> max_send_fragment (wside s)"
    "\<not> mtu (d1 s) < dtls1_min_mtu e s"
    using assms(2) by (simp_all add: mtu_settled_def)
  obtain n w where r: "room_in_datagram e (record_overhead e s) ?s = (Inr n, ?s\<lparr>world := w\<rparr>)" "12 < n"
    "sent w = sent (world s)" "hashed w = hashed (world s)"
    using room_in_datagram_ok [OF assms(1) _ m(1,2), of ?s] by auto
  let ?t = "?s\<lparr>world := w\<rparr>"
  have bytes: "init_bytes 0 1 ?t = [SSL3_MT_CCS]"
    using assms(3-5) by (cases d) (auto simp: buf_is_def init_bytes_def chunk_def)
  have len: "fragment_len n ?t = 1" and woff: "woff ?t = 0"
    using assms(6,7) r(2) m(3) by (simp_all add: fragment_len_def Let_def)
  obtain i u where u: "write_bytes e ?T [SSL3_MT_CCS] ?t = ((i, 1), u)" "0 \<le> i" "write_view u = write_view ?t"
    "sent (world u) = sent w @ [(?T, [SSL3_MT_CCS])]" "hashed (world u) = hashed w"
    using record_writerD(1) [OF assms(1), of "[SSL3_MT_CCS]" ?T ?t] by auto
  have iu: "init_num u = 1" "kept u = kept s" using u(3) assms(6) by (simp_all add: write_view_def kept_def)
  let ?v = "if query e has_msg_callback u \<noteq> 0
            then snd (do_io e (msg_callback ?T (init_bytes 0 (woff u + init_num u) u)) u) else u"
  define z where "z = (set_init_off 0 ?v)\<lparr>init_num := 0\<rparr>"
  have aw: "after_write e ?T 0 True 1 1 u = (Inl 1, z)"
    using iu(1) by (simp add: after_write_def hash_fragment_def Let_def z_def)
  have "put_fragment e ?T 0 True 1 ?t = after_write e ?T 0 True 1 1 u"
    unfolding put_fragment_def Let_def using u(1,2) bytes woff by simp
  moreover have "make_room ?T 0 ?s = Some (0, ?s)" by (simp add: make_room_def)
  ultimately have "write_fragment e ?T (record_overhead e s) 0 True ?s = (Inl 1, z)"
    unfolding write_fragment_def using r(1) len aw by simp
  then have "dtls1_do_write e ?T s = Some (1, z)"
    using m(4) assms(6) by (simp add: dtls1_do_write_def query_mtu_settled [OF assms(2)] do_write_loop.simps [of _ _ _ 0])
  moreover have "kept z = kept s" "sent (world z) = sent (world u)" "hashed (world z) = hashed (world u)" "woff z = 0"
    using iu(2) record_writerD(3,4) [OF assms(1)] by (simp_all add: do_io_eq kept_def z_def)
  ultimately show ?thesis using u(4,5) r(3,4) by simp
qed

subsection \<open>Retransmitting a message\<close>

text \<open>The state in which \<^verbatim>\<open>dtls1_retransmit_message\<close> calls \<^verbatim>\<open>dtls1_do_write\<close>.\<close>

definition reinstated :: "msg_frag \<Rightarrow> 'w ssl \<Rightarrow> 'w ssl" where
  "reinstated f s =
     (let h = msg_header f; n = msg_len h + (if is_ccs h then 1 else 12);
          s = (write_init_buf 0 (take n (fragment f)) s)\<lparr>init_num := n\<rparr>;
          s = dtls1_set_message_header_int (hm_type h) (msg_len h) (hm_seq h) 0 (frag_len h) s;
          s = upd_d1 (\<lambda>d. d\<lparr>retransmitting := True\<rparr>) s
      in set_write_state (case saved_retransmit_state h of None \<Rightarrow> zero_write_state (session s) | Some r \<Rightarrow> r) s)"

lemma reinstated_simps [simp]:
  "woff (reinstated f s) = woff s" "max_send_fragment (wside (reinstated f s)) = max_send_fragment (wside s)"
  "world (reinstated f s) = world s" "version (reinstated f s) = version s" "retransmitting (d1 (reinstated f s))"
  "sent_messages (d1 (reinstated f s)) = sent_messages (d1 s)" "link_mtu (d1 (reinstated f s)) = link_mtu (d1 s)"
  "mtu (d1 (reinstated f s)) = mtu (d1 s)" "statem (reinstated f s) = statem s"
  "init_num (reinstated f s) = msg_len (msg_header f) + (if is_ccs (msg_header f) then 1 else 12)"
  by (simp_all add: reinstated_def Let_def dtls1_set_message_header_int_def)

lemma reinstated_header:
  "w_msg_hdr (d1 (reinstated f s)) = (w_msg_hdr (d1 s))\<lparr>hm_type := hm_type (msg_header f), msg_len := msg_len (msg_header f),
     hm_seq := hm_seq (msg_header f), frag_off := 0, frag_len := frag_len (msg_header f)\<rparr>"
  by (simp add: reinstated_def Let_def dtls1_set_message_header_int_def)

lemma buf_is_reinstated:
  assumes "buf_is s d"
  shows "buf_is (reinstated f s)
    (overwrite 0 (take (msg_len (msg_header f) + (if is_ccs (msg_header f) then 1 else 12)) (fragment f)) d)"
  using buf_is_write [OF assms, of 0] by (simp add: reinstated_def Let_def dtls1_set_message_header_int_def buf_is_def)

lemma retransmit_message_eq:
  assumes "pqueue_wf (sent_messages (d1 s))" and "x \<in> set (sent_messages (d1 s))" and "prio x < 2 ^ 16"
  shows "dtls1_retransmit_message e (prio x) s =
    (case dtls1_do_write e (if is_ccs (msg_header (item_data x)) then SSL3_RT_CHANGE_CIPHER_SPEC else SSL3_RT_HANDSHAKE)
            (reinstated (item_data x) s) of
       None \<Rightarrow> None
     | Some (ret, t) \<Rightarrow>
        Some ((ret, True), snd (do_io e BIO_flush (upd_d1 (\<lambda>d. d\<lparr>retransmitting := False\<rparr>)
                                                     (set_write_state (current_write_state s) t)))))"
proof -
  have "distinct (map prio (sent_messages (d1 s)))" using assms(1) by (simp add: pqueue_wf_def strict_sorted_iff)
  then have "pqueue_map (sent_messages (d1 s)) (prio x) = Some (item_data x)"
    using assms(2) unfolding pqueue_map_def by (intro map_of_is_SomeI) (auto simp: comp_def)
  then obtain p where p: "pqueue_find (sent_messages (d1 s)) (seq64be (prio x)) = Some p"
    "item_data (sent_messages (d1 s) ! p) = item_data x"
    using pqueue_find_ok [OF assms(1), of "seq64be (prio x)"] assms(3) by (auto split: option.splits)
  let ?f = "item_data x"
  let ?n = "msg_len (msg_header ?f) + (if is_ccs (msg_header ?f) then 1 else 12)"
  have cws: "current_write_state (dtls1_set_message_header_int a b c d' e' ((write_init_buf 0 bs s)\<lparr>init_num := n\<rparr>)) = current_write_state s"
    for a b c d' e' bs n
    by (simp add: current_write_state_def dtls1_set_message_header_int_def write_init_buf_def)
  show ?thesis unfolding dtls1_retransmit_message_def p(1) option.case p(2) Let_def reinstated_def cws ..
qed

lemma retransmit_message_ok:
  assumes "record_writer e sent hashed" and "keeps_view e" and "flight_ok P (sent_messages (d1 s))"
    and "x \<in> set (sent_messages (d1 s))" and "woff s = 0" and "room_ge (12 + msg_len (msg_header (item_data x))) s"
    and "mtu_fits e s"
  shows "\<exists>s' recs. dtls1_retransmit_message e (prio x) s = Some ((1, True), s') \<and> resent P x recs \<and>
    sent (world s') = sent (world s) @ recs \<and> hashed (world s') = hashed (world s) \<and>
    current_write_state s' = current_write_state s \<and> sent_messages (d1 s') = sent_messages (d1 s) \<and>
    \<not> retransmitting (d1 s') \<and> woff s' = 0 \<and> mtu_fits e s' \<and> (\<forall>k. room_ge k s \<longrightarrow> room_ge k s')"
proof -
  let ?f = "item_data x"
  let ?h = "msg_header ?f"
  let ?t = "reinstated ?f s"
  let ?T = "if is_ccs ?h then SSL3_RT_CHANGE_CIPHER_SPEC else SSL3_RT_HANDSHAKE"
  have x: "sent_item P x" "pqueue_wf (sent_messages (d1 s))" using assms(3,4) by (auto simp: flight_ok_def)
  then have small: "prio x < 2 ^ 16" by (auto simp: sent_item_def Let_def dtls1_get_queue_priority_def split: if_splits)
  have mt: "mtu_settled e ?t" by (rule mtu_fits_settled [OF assms(7)]) simp_all
  obtain d where d: "buf_is s d" "12 + msg_len ?h \<le> length d" using assms(6) by (auto simp: room_ge_def)
  note bt = buf_is_reinstated [OF d(1), of ?f]
  have "\<exists>u recs. dtls1_do_write e ?T ?t = Some (1, u) \<and> woff u = 0 \<and> resent P x recs \<and>
      sent (world u) = sent (world s) @ recs \<and> hashed (world u) = hashed (world s) \<and> kept u = kept ?t"
  proof (cases "is_ccs ?h")
    case True
    then have c: "msg_len ?h = 0" "1 \<le> length (fragment ?f)" "hd (fragment ?f) = SSL3_MT_CCS"
      using x(1) by (simp_all add: sent_item_def Let_def)
    obtain y ys where "fragment ?f = y # ys" using c(2) by (cases "fragment ?f") auto
    then have "1 \<le> length (overwrite 0 (take 1 (fragment ?f)) d)" "hd (overwrite 0 (take 1 (fragment ?f)) d) = SSL3_MT_CCS"
      using c(3) by (simp_all add: overwrite_def)
    then show ?thesis
      using do_write_ccs [OF assms(1) mt] bt c(1) True assms(5) by (simp add: resent_def)
  next
    case False
    let ?n = "hm_seq ?h"
    have h: "header_for P ?n ?h" "msg_len ?h < 2 ^ 24" "12 \<le> length (fragment ?f)" "drop 12 (fragment ?f) = body P ?n" "?n < 2 ^ 15"
      using x(1) False by (simp_all add: sent_item_def Let_def)
    have L: "msg_len ?h = length (body P ?n)" using h(1) by (simp add: header_for_def)
    then have lf: "length (fragment ?f) = 12 + length (body P ?n)" using h(3,4) by (metis le_add_diff_inverse length_drop)
    have "rest_in (body P ?n) 0 (overwrite 0 (fragment ?f) d)"
      using d(2) L lf h(4) by (simp add: rest_in_def overwrite_def chunk_def)
    moreover have "take (length (body P ?n) + 12) (fragment ?f) = fragment ?f" using lf by simp
    ultimately have "serialized P ?n ?t"
      using bt False L h(1,2,5) assms(5) by (auto simp: serialized_def reinstated_header header_for_def)
    from do_write_sends [OF assms(1) this mt] show ?thesis using False
      by (auto simp: resent_def message_transcript_def Let_def)
  qed
  then obtain u recs where u: "dtls1_do_write e ?T ?t = Some (1, u)" "woff u = 0" "resent P x recs"
    "sent (world u) = sent (world s) @ recs" "hashed (world u) = hashed (world s)" "kept u = kept ?t" by blast
  let ?v = "upd_d1 (\<lambda>d. d\<lparr>retransmitting := False\<rparr>) (set_write_state (current_write_state s) u)"
  have ku: "sent_messages (d1 u) = sent_messages (d1 s)" "link_mtu (d1 u) = link_mtu (d1 s)" "mtu (d1 u) = mtu (d1 s)"
    "max_send_fragment (wside u) = max_send_fragment (wside s)"
    using u(6) by (simp_all add: kept_def)
  have "room_ge k u" if "room_ge k s" for k
  proof -
    have "room_ge k ?t" using that length_overwrite_ge order_trans buf_is_reinstated unfolding room_ge_def by metis
    then show ?thesis using do_write_room [OF u(1) assms(2)] by blast
  qed
  then have "\<forall>k. room_ge k s \<longrightarrow> room_ge k (snd (do_io e BIO_flush ?v))" by (simp add: room_ge_def buf_is_def do_io_eq)
  moreover have "mtu_fits e (snd (do_io e BIO_flush ?v))"
    by (rule mtu_fits_settled [OF assms(7)]) (simp_all add: do_io_eq ku)
  moreover have "current_write_state (snd (do_io e BIO_flush ?v)) = current_write_state s"
    using set_write_state_simps(8) [of "current_write_state s" u] by (simp add: do_io_eq current_write_state_def)
  ultimately show ?thesis using u(1-5) ku(1) record_writerD(3,4) [OF assms(1)] retransmit_message_eq [OF x(2) assms(4) small, of e]
    by (intro exI [of _ "snd (do_io e BIO_flush ?v)"] exI [of _ recs]) (simp add: do_io_eq)
qed

subsection \<open>Retransmitting the flight\<close>

lemma sent_item_priority:
  assumes "sent_item P x"
  shows "nat (dtls1_get_queue_priority (hm_seq (msg_header (item_data x))) (is_ccs (msg_header (item_data x))) mod 2 ^ 16) = prio x"
proof -
  have "dtls1_get_queue_priority (hm_seq (msg_header (item_data x))) (is_ccs (msg_header (item_data x))) = int (prio x)"
    "hm_seq (msg_header (item_data x)) < 2 ^ 15"
    using assms by (simp_all add: sent_item_def Let_def)
  moreover from this have "prio x < 2 ^ 16" by (simp add: dtls1_get_queue_priority_def split: if_splits)
  ultimately show ?thesis by simp
qed

lemma retransmit_all_ok:
  assumes "record_writer e sent hashed" and "keeps_view e"
  shows "flight_ok P (sent_messages (d1 s)) \<Longrightarrow> set xs \<subseteq> set (sent_messages (d1 s)) \<Longrightarrow> woff s = 0 \<Longrightarrow> mtu_fits e s \<Longrightarrow>
    \<forall>x \<in> set xs. room_ge (12 + msg_len (msg_header (item_data x))) s \<Longrightarrow>
    \<exists>s' recs. retransmit_all e xs s = Some (1, s') \<and> list_all2 (resent P) xs recs \<and>
      sent (world s') = sent (world s) @ concat recs \<and> hashed (world s') = hashed (world s) \<and>
      current_write_state s' = current_write_state s \<and> sent_messages (d1 s') = sent_messages (d1 s)"
proof (induction xs arbitrary: s)
  case (Cons x xs)
  have x: "x \<in> set (sent_messages (d1 s))" "sent_item P x" using Cons.prems(1,2) by (auto simp: flight_ok_def)
  obtain s1 r where s1: "dtls1_retransmit_message e (prio x) s = Some ((1, True), s1)" "resent P x r"
    "sent (world s1) = sent (world s) @ r" "hashed (world s1) = hashed (world s)" "current_write_state s1 = current_write_state s"
    "sent_messages (d1 s1) = sent_messages (d1 s)" "woff s1 = 0" "mtu_fits e s1" "\<forall>k. room_ge k s \<longrightarrow> room_ge k s1"
    using retransmit_message_ok [OF assms Cons.prems(1) x(1) Cons.prems(3) _ Cons.prems(4)] Cons.prems(5) by auto
  obtain s' recs where s': "retransmit_all e xs s1 = Some (1, s')" "list_all2 (resent P) xs recs"
    "sent (world s') = sent (world s1) @ concat recs" "hashed (world s') = hashed (world s1)"
    "current_write_state s' = current_write_state s1" "sent_messages (d1 s') = sent_messages (d1 s1)"
    using Cons.IH [of s1] Cons.prems s1(6-9) by auto
  have "retransmit_all e (x # xs) s = Some (1, s')" using s1(1) s'(1) sent_item_priority [OF x(2)] by simp
  then show ?case using s1 s' by (intro exI [of _ s'] exI [of _ "r # recs"]) simp
qed simp

lemma flight_goes_out:
  assumes "record_writer e sent hashed" and "keeps_view e" and "flight_ok P (sent_messages (d1 s))" and "woff s = 0"
    and "mtu_fits e s" and "\<And>x. x \<in> set (sent_messages (d1 s)) \<Longrightarrow> room_ge (12 + msg_len (msg_header (item_data x))) s"
  shows "\<exists>s' recs. dtls1_retransmit_buffered_messages e s = Some (1, s') \<and>
    list_all2 (resent P) (sent_messages (d1 s)) recs \<and> sent (world s') = sent (world s) @ concat recs \<and>
    hashed (world s') = hashed (world s) \<and> current_write_state s' = current_write_state s \<and>
    sent_messages (d1 s') = sent_messages (d1 s) \<and>
    sorted_wrt (\<lambda>x y. hm_seq (msg_header (item_data x)) < hm_seq (msg_header (item_data y)) \<or>
        hm_seq (msg_header (item_data x)) = hm_seq (msg_header (item_data y)) \<and>
        is_ccs (msg_header (item_data x)) \<and> \<not> is_ccs (msg_header (item_data y))) (sent_messages (d1 s))"
proof -
  let ?q = "sent_messages (d1 s)"
  have "sorted_wrt (\<lambda>x y. hm_seq (msg_header (item_data x)) < hm_seq (msg_header (item_data y)) \<or>
        hm_seq (msg_header (item_data x)) = hm_seq (msg_header (item_data y)) \<and>
        is_ccs (msg_header (item_data x)) \<and> \<not> is_ccs (msg_header (item_data y))) ?q"
  proof (rule sorted_wrt_mono_rel)
    show "sorted_wrt (\<lambda>x y. prio x < prio y) ?q" using assms(3) by (simp add: flight_ok_def pqueue_wf_def sorted_wrt_map)
    fix x y assume xy: "x \<in> set ?q" "y \<in> set ?q" "prio x < prio y"
    then have "int (prio x) = dtls1_get_queue_priority (hm_seq (msg_header (item_data x))) (is_ccs (msg_header (item_data x)))"
      "int (prio y) = dtls1_get_queue_priority (hm_seq (msg_header (item_data y))) (is_ccs (msg_header (item_data y)))"
      using assms(3) by (simp_all add: flight_ok_def sent_item_def Let_def)
    then show "hm_seq (msg_header (item_data x)) < hm_seq (msg_header (item_data y)) \<or>
        hm_seq (msg_header (item_data x)) = hm_seq (msg_header (item_data y)) \<and>
        is_ccs (msg_header (item_data x)) \<and> \<not> is_ccs (msg_header (item_data y))"
      using xy(3) unfolding dtls1_get_queue_priority_def by (auto split: if_splits; presburger)
  qed
  then show ?thesis
    using retransmit_all_ok [OF assms(1,2,3) order_refl assms(4,5)] assms(6)
    unfolding dtls1_retransmit_buffered_messages_def pqueue_iterator_def by simp
qed

text \<open>C15.  When a flight is retransmitted, every message of it goes out again, in the order of the message sequence
  numbers with a ChangeCipherSpec just before the message that follows it: a handshake message as frames
  that tile it, a ChangeCipherSpec as its record of one byte.  The transcript does not change, the write
  state in force before (cipher, MAC, compression, session and epoch) is in force afterwards, the queue is
  as it was, and the call succeeds.\<close>

theorem flight_is_retransmitted:
  assumes "record_writer e sent hashed" and "keeps_view e" and "flight_ok P (sent_messages (d1 s))" and "woff s = 0"
    and "mtu_fits e s" and "\<And>x. x \<in> set (sent_messages (d1 s)) \<Longrightarrow> room_ge (12 + msg_len (msg_header (item_data x))) s"
  shows "\<exists>s' recs. dtls1_retransmit_buffered_messages e s = Some (1, s') \<and>
    list_all2 (resent P) (sent_messages (d1 s)) recs \<and> sent (world s') = sent (world s) @ concat recs \<and>
    hashed (world s') = hashed (world s) \<and> current_write_state s' = current_write_state s \<and>
    sent_messages (d1 s') = sent_messages (d1 s) \<and>
    sorted_wrt (\<lambda>x y. hm_seq (msg_header (item_data x)) < hm_seq (msg_header (item_data y)) \<or>
        hm_seq (msg_header (item_data x)) = hm_seq (msg_header (item_data y)) \<and>
        is_ccs (msg_header (item_data x)) \<and> \<not> is_ccs (msg_header (item_data y))) (sent_messages (d1 s))"
  using assms by (rule flight_goes_out)

subsection \<open>A message joins the flight\<close>

text \<open>What \<^verbatim>\<open>dtls1_close_construct_packet\<close> has serialized: a handshake message of \<open>P\<close>, or a ChangeCipherSpec of one byte
  that follows another message.\<close>

definition to_buffer :: "peer \<Rightarrow> bool \<Rightarrow> 'w ssl \<Rightarrow> bool" where
  "to_buffer P ccs s \<longleftrightarrow>
     hm_seq (w_msg_hdr (d1 s)) < 2 ^ 15 \<and>
     (if ccs then woff s = 0 \<and> init_num s = 1 \<and> msg_len (w_msg_hdr (d1 s)) = 0 \<and> 0 < hm_seq (w_msg_hdr (d1 s)) \<and>
                  (\<exists>d. buf_is s d \<and> 1 \<le> length d \<and> hd d = SSL3_MT_CCS)
      else serialized P (hm_seq (w_msg_hdr (d1 s))) s)"

lemma fragment_new_length:
  assumes "alloc_ok alloc" and "dtls1_hm_fragment_new alloc n False = Some f"
  shows "length (fragment f) = n"
  using assms by (auto simp: dtls1_hm_fragment_new_def alloc_ok_def split: option.splits if_splits)

lemma prio64be_ok [simp]:
  assumes "0 \<le> p" and "p < 2 ^ 16"
  shows "length (prio64be p) = 8" "be_val (prio64be p) = nat p"
proof -
  obtain m where m: "p = int m" using assms(1) by (metis nonneg_int_cases)
  have "drop_bit 8 (int m) = int (m div 256)" by (simp add: drop_bit_eq_div zdiv_int)
  then have "prio64be p = replicate 6 0 @ be_bytes 2 m" unfolding prio64be_def m by simp
  then show "length (prio64be p) = 8" "be_val (prio64be p) = nat p"
    using assms m by (simp_all add: be_val_append del: be_bytes_numeral)
qed

lemma new_item_ok:
  assumes "to_buffer P ccs s" and "length (fragment f) = init_num s"
    and "msg_header f = \<lparr>hm_type = hm_type (w_msg_hdr (d1 s)), msg_len = msg_len (w_msg_hdr (d1 s)),
           hm_seq = hm_seq (w_msg_hdr (d1 s)), frag_off = 0, frag_len = msg_len (w_msg_hdr (d1 s)), is_ccs = ccs,
           saved_retransmit_state = Some r\<rparr>"
    and "fragment f = init_bytes 0 (init_num s) s"
  shows "sent_item P \<lparr>priority = prio64be (dtls1_get_queue_priority (hm_seq (w_msg_hdr (d1 s))) ccs), item_data = f\<rparr>"
    and "length (prio64be (dtls1_get_queue_priority (hm_seq (w_msg_hdr (d1 s))) ccs)) = 8"
proof -
  let ?n = "hm_seq (w_msg_hdr (d1 s))" and ?p = "dtls1_get_queue_priority (hm_seq (w_msg_hdr (d1 s))) ccs"
  have "?n < 2 ^ 15" "ccs \<longrightarrow> 0 < ?n" using assms(1) by (simp_all add: to_buffer_def split: if_splits)
  then have p: "0 \<le> ?p" "?p < 2 ^ 16" by (auto simp: dtls1_get_queue_priority_def)
  then show "length (prio64be ?p) = 8" by simp
  have pr: "int (prio \<lparr>priority = prio64be ?p, item_data = f\<rparr>) = ?p" using p by (simp add: prio_def)
  show "sent_item P \<lparr>priority = prio64be ?p, item_data = f\<rparr>"
  proof (cases ccs)
    case True
    then obtain d where "buf_is s d" "1 \<le> length d" "hd d = SSL3_MT_CCS" "init_num s = 1" "msg_len (w_msg_hdr (d1 s)) = 0"
      using assms(1) by (auto simp: to_buffer_def)
    then show ?thesis using True assms(3,4) pr \<open>?n < 2 ^ 15\<close>
      by (cases d) (auto simp: sent_item_def buf_is_init_bytes chunk_def)
  next
    case False
    then have z: "serialized P ?n s" using assms(1) by (simp add: to_buffer_def)
    then obtain d where d: "buf_is s d" "rest_in (body P ?n) 0 d" by (auto simp: serialized_def)
    have "drop 12 (chunk 0 (12 + length (body P ?n)) d) = body P ?n"
      using d(2) by (simp add: rest_in_def chunk_def drop_take)
    then show ?thesis using False z assms(2-4) pr \<open>?n < 2 ^ 15\<close>
      by (simp add: sent_item_def Let_def serialized_def header_for_def buf_is_init_bytes [OF d(1)])
  qed
qed

text \<open>C16.  \<^verbatim>\<open>dtls1_buffer_message\<close> adds the message that was just serialized to the flight: if it succeeds, the queue is
  again a flight, every message queued before is still there, and the new one is found in it under its
  priority with its body, and with the write state in force, unless that priority was taken.\<close>

theorem buffered_message_joins_flight:
  assumes "alloc_ok (heap e)" and "flight_ok P (sent_messages (d1 s))" and "to_buffer P ccs s"
    and "dtls1_buffer_message e ccs s = (True, s')"
  shows "flight_ok P (sent_messages (d1 s')) \<and> pqueue_map (sent_messages (d1 s)) \<subseteq>\<^sub>m pqueue_map (sent_messages (d1 s')) \<and>
    (let p = nat (dtls1_get_queue_priority (hm_seq (w_msg_hdr (d1 s))) ccs) in
     pqueue_map (sent_messages (d1 s)) p = None \<longrightarrow>
       (\<exists>f. pqueue_map (sent_messages (d1 s')) p = Some f \<and> hm_seq (msg_header f) = hm_seq (w_msg_hdr (d1 s)) \<and>
          is_ccs (msg_header f) = ccs \<and> fragment f = init_bytes 0 (init_num s) s \<and>
          saved_retransmit_state (msg_header f) = Some (current_write_state s)))"
proof -
  let ?q = "sent_messages (d1 s)" and ?h = "w_msg_hdr (d1 s)"
  obtain frag where f: "dtls1_hm_fragment_new (heap e) (init_num s) False = Some frag"
    using assms(4) by (auto simp: dtls1_buffer_message_def split: option.splits if_splits)
  define g where "g = frag\<lparr>fragment := init_bytes 0 (init_num s) s,
    msg_header := \<lparr>hm_type = hm_type ?h, msg_len = msg_len ?h, hm_seq = hm_seq ?h, frag_off = 0, frag_len = msg_len ?h,
                   is_ccs = ccs, saved_retransmit_state = Some (current_write_state s)\<rparr>\<rparr>"
  have len: "length (init_bytes 0 (init_num s) s) = init_num s"
    using assms(3) by (auto simp: to_buffer_def serialized_def rest_in_def buf_is_init_bytes split: if_splits)
  then have ov: "overwrite 0 (init_bytes 0 (init_num s) s) (fragment frag) = init_bytes 0 (init_num s) s"
    using fragment_new_length [OF assms(1) f] by (simp add: overwrite_def)
  define x where "x = \<lparr>priority = prio64be (dtls1_get_queue_priority (hm_seq ?h) ccs), item_data = g\<rparr>"
  have x: "sent_item P x" "length (priority x) = 8"
    using new_item_ok [OF assms(3), of g] len by (simp_all add: g_def x_def)
  have q': "sent_messages (d1 s') = snd (pqueue_insert ?q x)"
    using assms(4) unfolding dtls1_buffer_message_def f option.case Let_def ov
    by (auto simp: x_def g_def pitem_new_def split: if_splits)
  have wf: "pqueue_wf ?q" using assms(2) by (simp add: flight_ok_def)
  note ins = pqueue_insert_ok [OF wf x(2)]
  have "\<forall>y \<in> set (snd (pqueue_insert ?q x)). sent_item P y"
    using pqueue_insert_set [of ?q x] x(1) assms(2) by (auto simp: flight_ok_def)
  moreover have hdr: "hm_seq (msg_header (item_data x)) = hm_seq ?h" "is_ccs (msg_header (item_data x)) = ccs"
    "saved_retransmit_state (msg_header (item_data x)) = Some (current_write_state s)"
    "fragment (item_data x) = init_bytes 0 (init_num s) s"
    by (simp_all add: x_def g_def)
  moreover have "int (prio x) = dtls1_get_queue_priority (hm_seq ?h) ccs" using x(1) hdr(1,2) by (simp add: sent_item_def Let_def)
  then have "nat (dtls1_get_queue_priority (hm_seq ?h) ccs) = prio x" by simp
  ultimately show ?thesis unfolding q' flight_ok_def Let_def
    using ins by (auto simp: map_le_def split: if_splits)
qed

text \<open>The priority does not fit an \<^verbatim>\<open>unsigned short\<close> for every sequence number: beyond 32767 two messages share one.\<close>

lemma queue_priority_collides:
  "prio64be (dtls1_get_queue_priority (n + 2 ^ 15) ccs) = prio64be (dtls1_get_queue_priority n ccs)"
proof -
  have p: "dtls1_get_queue_priority (n + 2 ^ 15) ccs = dtls1_get_queue_priority n ccs + 2 ^ 16"
    by (simp add: dtls1_get_queue_priority_def)
  have "drop_bit 8 (i + 2 ^ 16) = drop_bit 8 i + 2 ^ 8" for i :: int by (simp add: drop_bit_eq_div)
  moreover have "(2 ^ 8 :: byte) = 0" "(2 ^ 16 :: byte) = 0" by simp_all
  ultimately show ?thesis unfolding p prio64be_def by simp
qed

text \<open>A ChangeCipherSpec of \<^verbatim>\<open>DTLS1_BAD_VER\<close> is three bytes long, but only its first byte is sent again.\<close>

lemma bad_ver_ccs_truncated:
  "is_ccs (msg_header f) \<Longrightarrow> msg_len (msg_header f) = 0 \<Longrightarrow> init_num (reinstated f s) = 1"
  by simp

subsection \<open>The timer expires\<close>

text \<open>What the timer functions leave alone, as far as a retransmission is concerned.\<close>

definition flight_view :: "'w ssl \<Rightarrow> msg_frag pqueue \<times> nat \<times> nat \<times> write_side \<times> buf_mem option \<times> ossl_statem \<times> u32 \<times> bool \<times> ssl_session \<times> bool" where
  "flight_view s = (sent_messages (d1 s), link_mtu (d1 s), mtu (d1 s), wside s, init_buf s, statem s, options s,
                    session_set s, session s, has_timer_cb (d1 s))"

lemma flight_view_io [simp]:
  "flight_view (snd (do_io e opn s)) = flight_view s" "flight_view (s\<lparr>world := w\<rparr>) = flight_view s"
  by (simp_all add: do_io_eq flight_view_def)

lemma flight_view_timer:
  "flight_view (dtls1_start_timer e s) = flight_view s" "flight_view (snd (dtls1_is_timer_expired e s)) = flight_view s"
  "flight_view (dtls1_double_timeout e s) = flight_view s"
proof -
  show st: "flight_view (dtls1_start_timer e s) = flight_view s" for s :: "'a ssl"
    by (simp add: dtls1_start_timer_def get_current_time_def run_timer_cb_def Let_def split_beta do_io_eq flight_view_def)
  have "flight_view (snd (dtls1_get_timeout e s)) = flight_view s"
    by (simp add: dtls1_get_timeout_def get_current_time_def Let_def split_beta)
  then show "flight_view (snd (dtls1_is_timer_expired e s)) = flight_view s"
    by (simp add: dtls1_is_timer_expired_def Let_def split_beta split: option.split)
  show "flight_view (dtls1_double_timeout e s) = flight_view s"
    unfolding dtls1_double_timeout_def Let_def st by (simp add: flight_view_def)
qed

lemma timer_world:
  assumes "\<And>opn w. f (snd (io e opn w)) = f w"
  shows "f (world (dtls1_start_timer e s)) = f (world s)" "f (world (dtls1_double_timeout e s)) = f (world s)"
    "f (world (snd (dtls1_is_timer_expired e s))) = f (world s)"
proof -
  show st: "f (world (dtls1_start_timer e s)) = f (world s)" for s
    by (simp add: dtls1_start_timer_def get_current_time_def run_timer_cb_def Let_def split_beta do_io_eq assms)
  show "f (world (dtls1_double_timeout e s)) = f (world s)" unfolding dtls1_double_timeout_def Let_def st by simp
  have "f (world (snd (dtls1_get_timeout e s))) = f (world s)"
    by (simp add: dtls1_get_timeout_def get_current_time_def Let_def split_beta do_io_eq assms)
  then show "f (world (snd (dtls1_is_timer_expired e s))) = f (world s)"
    by (simp add: dtls1_is_timer_expired_def Let_def split_beta split: option.split)
qed

lemma timer_num_alerts:
  "num_alerts (d1 (dtls1_double_timeout e s)) = num_alerts (d1 s)"
  "num_alerts (d1 (snd (dtls1_is_timer_expired e s))) = num_alerts (d1 s)"
proof -
  have st: "num_alerts (d1 (dtls1_start_timer e s)) = num_alerts (d1 s)" for s :: "'a ssl"
    by (simp add: dtls1_start_timer_def get_current_time_def run_timer_cb_def Let_def split_beta do_io_eq)
  show "num_alerts (d1 (dtls1_double_timeout e s)) = num_alerts (d1 s)" unfolding dtls1_double_timeout_def Let_def st by simp
  have "num_alerts (d1 (snd (dtls1_get_timeout e s))) = num_alerts (d1 s)"
    by (simp add: dtls1_get_timeout_def get_current_time_def Let_def split_beta do_io_eq)
  then show "num_alerts (d1 (snd (dtls1_is_timer_expired e s))) = num_alerts (d1 s)"
    by (simp add: dtls1_is_timer_expired_def Let_def split_beta split: option.split)
qed

lemma flight_view_same:
  assumes "flight_view t = flight_view s"
  shows "sent_messages (d1 t) = sent_messages (d1 s)" "woff t = woff s" "room_ge k t = room_ge k s"
    "mtu_fits e t = mtu_fits e s" "current_write_state t = current_write_state s" "options t = options s"
    "has_timer_cb (d1 t) = has_timer_cb (d1 s)"
  using assms by (simp_all add: flight_view_def room_ge_def buf_is_def mtu_fits_def current_write_state_def)


subsection \<open>A sample flight\<close>

definition sample_write_state :: retransmit_state where
  "sample_write_state =
     \<lparr>rs_enc_write_ctx = None, rs_write_hash = None, rs_compress = None, rs_session_set = False,
      rs_session = \<lparr>session_tick = False, session_peer = False, session_cipher = None, compress_meth = 0\<rparr>, rs_epoch = 0\<rparr>"

definition sample_item :: "bool \<Rightarrow> nat \<Rightarrow> byte \<Rightarrow> byte list \<Rightarrow> nat \<Rightarrow> msg_frag pitem" where
  "sample_item ccs n t bs len =
     \<lparr>priority = prio64be (dtls1_get_queue_priority n ccs),
      item_data = \<lparr>msg_header = \<lparr>hm_type = t, msg_len = len, hm_seq = n, frag_off = 0, frag_len = len, is_ccs = ccs,
                               saved_retransmit_state = Some sample_write_state\<rparr>,
                   fragment = bs, reassembly = None\<rparr>\<rparr>"

text \<open>Message 0 followed by a ChangeCipherSpec; the timer runs out after a microsecond.\<close>

definition sample_flight :: "msg_frag pqueue" where
  "sample_flight = [sample_item False 0 2 (replicate 12 0 @ [1, 2, 3]) 3, sample_item True 1 1 [1] 0]"

definition flight_conn :: "sink ssl" where
  "flight_conn = upd_d1 (\<lambda>d. d\<lparr>sent_messages := sample_flight, next_timeout := (0, 1)\<rparr>) (sink_conn 2 [1, 2, 3])"

lemma sample_item_prio: "0 \<le> dtls1_get_queue_priority n ccs \<Longrightarrow> dtls1_get_queue_priority n ccs < 2 ^ 16 \<Longrightarrow>
    int (prio (sample_item ccs n t bs len)) = dtls1_get_queue_priority n ccs \<and>
    length (priority (sample_item ccs n t bs len)) = 8"
  by (simp add: sample_item_def prio_def)

lemma flight_conn_facts:
  "sent_messages (d1 flight_conn) = sample_flight" "woff flight_conn = 0" "mtu_fits sink_env flight_conn"
  "\<And>x. x \<in> set (sent_messages (d1 flight_conn)) \<Longrightarrow> room_ge (12 + msg_len (msg_header (item_data x))) flight_conn"
  "world flight_conn = ([], [])" "\<not> has_timer_cb (d1 flight_conn)" "num_alerts (d1 flight_conn) < 2"
  "fst (dtls1_is_timer_expired sink_env flight_conn)"
proof -
  show s: "sent_messages (d1 flight_conn) = sample_flight" "woff flight_conn = 0" "world flight_conn = ([], [])"
    "\<not> has_timer_cb (d1 flight_conn)" "num_alerts (d1 flight_conn) < 2"
    by (simp_all add: flight_conn_def sink_conn_def dtls_conn_def sample_d1_def)
  show "mtu_fits sink_env flight_conn"
    by (simp add: mtu_fits_def flight_conn_def sink_conn_def dtls_conn_def sink_env_def sample_d1_def dtls1_min_mtu_def
        dtls1_link_min_mtu_def g_probable_mtu_def record_overhead_def size_of_int_def uadd_def)
  show "room_ge (12 + msg_len (msg_header (item_data x))) flight_conn" if "x \<in> set (sent_messages (d1 flight_conn))" for x
    using that unfolding s(1) sample_flight_def
    by (auto simp: room_ge_def buf_is_def flight_conn_def sink_conn_def sample_item_def)
  have "next_timeout (d1 flight_conn) = (0, 1)" by (simp add: flight_conn_def)
  then show "fst (dtls1_is_timer_expired sink_env flight_conn)"
    by (simp add: dtls1_is_timer_expired_def dtls1_get_timeout_def get_current_time_def do_io_eq sink_env_def)
qed

lemma sample_flight_ok: "flight_ok sample_peer sample_flight"
proof -
  have p: "dtls1_get_queue_priority 0 False = 0" "dtls1_get_queue_priority 1 True = 1" by (simp_all add: dtls1_get_queue_priority_def)
  note q = sample_item_prio [of 0 False 2 "replicate 12 0 @ [1, 2, 3]" 3] sample_item_prio [of 1 True 1 "[1]" 0]
  have "pqueue_wf sample_flight" using q p by (simp add: sample_flight_def pqueue_wf_def)
  moreover have "sent_item sample_peer x" if "x \<in> set sample_flight" for x
    using that q p unfolding sample_flight_def
    by (auto simp: sent_item_def Let_def sample_item_def header_for_def sample_peer_def)
  ultimately show ?thesis by (simp add: flight_ok_def)
qed

lemma sink_keeps_view: "keeps_view sink_env"
  by (simp add: keeps_view_def sink_env_def write_view_def)

lemma resent_sample:
  assumes "list_all2 (resent sample_peer) sample_flight recs"
  shows "(SSL3_RT_CHANGE_CIPHER_SPEC, [1]) \<in> set (concat recs)"
  using assms by (auto simp: sample_flight_def list_all2_Cons1 resent_def sample_item_def Let_def)

theorem flight_is_retransmitted_witness:
  "\<exists>s'. dtls1_retransmit_buffered_messages sink_env flight_conn = Some (1, s') \<and>
    (SSL3_RT_CHANGE_CIPHER_SPEC, [1]) \<in> set (fst (world s')) \<and> snd (world s') = []"
proof -
  have "flight_ok sample_peer (sent_messages (d1 flight_conn))" using sample_flight_ok flight_conn_facts(1) by simp
  from flight_is_retransmitted [OF sink_writer sink_keeps_view this flight_conn_facts(2-4)]
  show ?thesis using resent_sample flight_conn_facts(1,5) by auto
qed


theorem buffered_message_joins_flight_witness:
  "\<exists>s'. dtls1_buffer_message sink_env False (sink_conn 2 [1, 2, 3]) = (True, s') \<and>
    flight_ok sample_peer (sent_messages (d1 s')) \<and> pqueue_map (sent_messages (d1 s')) 0 \<noteq> None"
proof -
  let ?s = "sink_conn 2 [1, 2, 3]"
  have h: "sent_messages (d1 ?s) = []" "hm_seq (w_msg_hdr (d1 ?s)) = 0" "woff ?s = 0" "init_num ?s = 15"
    "msg_len (w_msg_hdr (d1 ?s)) = 3"
    by (simp_all add: sink_conn_def dtls_conn_def sample_d1_def hm_header_zero_def)
  have "serialized sample_peer 0 ?s" by (rule sink_serialized) (simp_all add: sample_peer_def)
  then have b: "to_buffer sample_peer False ?s" by (simp add: to_buffer_def h)
  have a: "alloc_ok (heap sink_env)" by (simp add: sink_env_def alloc_ok_def)
  have "fst (dtls1_buffer_message sink_env False ?s)"
    by (simp add: dtls1_buffer_message_def h dtls1_hm_fragment_new_def sink_env_def pitem_new_def Let_def uadd_def)
  then obtain s' where s': "dtls1_buffer_message sink_env False ?s = (True, s')" by (metis prod.collapse)
  have "flight_ok sample_peer (sent_messages (d1 ?s))" by (simp add: h flight_ok_def)
  from buffered_message_joins_flight [OF a this b s'] show ?thesis
    using s' by (auto simp: h dtls1_get_queue_priority_def)
qed

end
