(* ===== verification/Base64.thy ===== *)
theory Base64
  imports Prelude "HOL-Library.Char_ord"
begin

unbundle bit_operations_syntax

section \<open>Base64\<close>

text \<open>
  Model of \<^verbatim>\<open>crypto/evp/encode.c\<close>: the block functions and the streaming interface
  \<^verbatim>\<open>EVP_EncodeInit/Update/Final\<close> and \<^verbatim>\<open>EVP_DecodeInit/Update/Final\<close>, for both alphabets.

  The memory behind the pointer \<^verbatim>\<open>out\<close> is a function from offsets to bytes, so that a theorem can say exactly
  which bytes a call writes.  A null-terminated result is part of it.  The result \<open>None\<close> of the encoder is
  \<^verbatim>\<open>OPENSSL_assert\<close> failing, or a loop that does not end (which takes a context that was not initialised for encoding).
\<close>

subsection \<open>Memory\<close>

type_synonym mem = "nat \<Rightarrow> byte"

definition put_mem :: "nat \<Rightarrow> byte list \<Rightarrow> mem \<Rightarrow> mem" where
  "put_mem off bs m = (\<lambda>i. if off \<le> i \<and> i < off + length bs then bs ! (i - off) else m i)"

definition fetch :: "mem \<Rightarrow> nat \<Rightarrow> byte list" where
  "fetch m n = map m [0..<n]"

subsection \<open>Alphabets\<close>

abbreviation (input) B64_EOLN :: byte where "B64_EOLN \<equiv> 0xF0"
abbreviation (input) B64_CR :: byte where "B64_CR \<equiv> 0xF1"
abbreviation (input) B64_EOF :: byte where "B64_EOF \<equiv> 0xF2"
abbreviation (input) B64_WS :: byte where "B64_WS \<equiv> 0xE0"
abbreviation (input) B64_ERROR :: byte where "B64_ERROR \<equiv> 0xFF"
abbreviation (input) EVP_ENCODE_CTX_NO_NEWLINES :: u32 where "EVP_ENCODE_CTX_NO_NEWLINES \<equiv> 1"
abbreviation (input) EVP_ENCODE_CTX_USE_SRP_ALPHABET :: u32 where "EVP_ENCODE_CTX_USE_SRP_ALPHABET \<equiv> 2"

text \<open>The characters \<^verbatim>\<open>'='\<close> and newline.\<close>

abbreviation (input) PAD :: byte where "PAD \<equiv> 0x3D"
abbreviation (input) NL :: byte where "NL \<equiv> 0x0A"

definition data_bin2ascii :: "byte list" where
  "data_bin2ascii = map of_char ''ABCDEFGHIJKLMNOPQRSTUVWXYZabcdefghijklmnopqrstuvwxyz0123456789+/''"

definition srpdata_bin2ascii :: "byte list" where
  "srpdata_bin2ascii = map of_char ''0123456789ABCDEFGHIJKLMNOPQRSTUVWXYZabcdefghijklmnopqrstuvwxyz./''"

definition data_ascii2bin :: "byte list" where
  "data_ascii2bin =
    [0xFF, 0xFF, 0xFF, 0xFF, 0xFF, 0xFF, 0xFF, 0xFF,
     0xFF, 0xE0, 0xF0, 0xFF, 0xFF, 0xF1, 0xFF, 0xFF,
     0xFF, 0xFF, 0xFF, 0xFF, 0xFF, 0xFF, 0xFF, 0xFF,
     0xFF, 0xFF, 0xFF, 0xFF, 0xFF, 0xFF, 0xFF, 0xFF,
     0xE0, 0xFF, 0xFF, 0xFF, 0xFF, 0xFF, 0xFF, 0xFF,
     0xFF, 0xFF, 0xFF, 0x3E, 0xFF, 0xF2, 0xFF, 0x3F,
     0x34, 0x35, 0x36, 0x37, 0x38, 0x39, 0x3A, 0x3B,
     0x3C, 0x3D, 0xFF, 0xFF, 0xFF, 0x00, 0xFF, 0xFF,
     0xFF, 0x00, 0x01, 0x02, 0x03, 0x04, 0x05, 0x06,
     0x07, 0x08, 0x09, 0x0A, 0x0B, 0x0C, 0x0D, 0x0E,
     0x0F, 0x10, 0x11, 0x12, 0x13, 0x14, 0x15, 0x16,
     0x17, 0x18, 0x19, 0xFF, 0xFF, 0xFF, 0xFF, 0xFF,
     0xFF, 0x1A, 0x1B, 0x1C, 0x1D, 0x1E, 0x1F, 0x20,
     0x21, 0x22, 0x23, 0x24, 0x25, 0x26, 0x27, 0x28,
     0x29, 0x2A, 0x2B, 0x2C, 0x2D, 0x2E, 0x2F, 0x30,
     0x31, 0x32, 0x33, 0xFF, 0xFF, 0xFF, 0xFF, 0xFF]"

definition srpdata_ascii2bin :: "byte list" where
  "srpdata_ascii2bin =
    [0xFF, 0xFF, 0xFF, 0xFF, 0xFF, 0xFF, 0xFF, 0xFF,
     0xFF, 0xE0, 0xF0, 0xFF, 0xFF, 0xF1, 0xFF, 0xFF,
     0xFF, 0xFF, 0xFF, 0xFF, 0xFF, 0xFF, 0xFF, 0xFF,
     0xFF, 0xFF, 0xFF, 0xFF, 0xFF, 0xFF, 0xFF, 0xFF,
     0xE0, 0xFF, 0xFF, 0xFF, 0xFF, 0xFF, 0xFF, 0xFF,
     0xFF, 0xFF, 0xFF, 0xFF, 0xFF, 0xF2, 0x3E, 0x3F,
     0x00, 0x01, 0x02, 0x03, 0x04, 0x05, 0x06, 0x07,
     0x08, 0x09, 0xFF, 0xFF, 0xFF, 0x00, 0xFF, 0xFF,
     0xFF, 0x0A, 0x0B, 0x0C, 0x0D, 0x0E, 0x0F, 0x10,
     0x11, 0x12, 0x13, 0x14, 0x15, 0x16, 0x17, 0x18,
     0x19, 0x1A, 0x1B, 0x1C, 0x1D, 0x1E, 0x1F, 0x20,
     0x21, 0x22, 0x23, 0xFF, 0xFF, 0xFF, 0xFF, 0xFF,
     0xFF, 0x24, 0x25, 0x26, 0x27, 0x28, 0x29, 0x2A,
     0x2B, 0x2C, 0x2D, 0x2E, 0x2F, 0x30, 0x31, 0x32,
     0x33, 0x34, 0x35, 0x36, 0x37, 0x38, 0x39, 0x3A,
     0x3B, 0x3C, 0x3D, 0xFF, 0xFF, 0xFF, 0xFF, 0xFF]"

text \<open>\<open>srp\<close> says which alphabet is used.\<close>

definition encode_table :: "bool \<Rightarrow> byte list" where
  "encode_table srp = (if srp then srpdata_bin2ascii else data_bin2ascii)"

definition decode_table :: "bool \<Rightarrow> byte list" where
  "decode_table srp = (if srp then srpdata_ascii2bin else data_ascii2bin)"

definition conv_bin2ascii :: "u64 \<Rightarrow> byte list \<Rightarrow> byte" where
  "conv_bin2ascii a table = table ! unat (a AND 0x3f)"

definition conv_ascii2bin :: "byte \<Rightarrow> byte list \<Rightarrow> byte" where
  "conv_ascii2bin a table = (if flag a 0x80 then B64_ERROR else table ! unat a)"

definition B64_NOT_BASE64 :: "byte \<Rightarrow> bool" where
  "B64_NOT_BASE64 a \<longleftrightarrow> a OR 0x13 = 0xF3"

abbreviation B64_BASE64 :: "byte \<Rightarrow> bool" where
  "B64_BASE64 a \<equiv> \<not> B64_NOT_BASE64 a"

subsection \<open>Blocks\<close>

text \<open>The loop of \<^verbatim>\<open>evp_encodeblock_int\<close>: the characters for the remaining bytes.\<close>

fun encode_groups :: "byte list \<Rightarrow> byte list \<Rightarrow> byte list" where
  "encode_groups table [] = []"
| "encode_groups table [a] =
     (let l = push_bit 16 (ucast a) :: u64
      in [conv_bin2ascii (drop_bit 18 l) table, conv_bin2ascii (drop_bit 12 l) table, PAD, PAD])"
| "encode_groups table [a, b] =
     (let l = push_bit 16 (ucast a) OR push_bit 8 (ucast b) :: u64
      in [conv_bin2ascii (drop_bit 18 l) table, conv_bin2ascii (drop_bit 12 l) table,
          conv_bin2ascii (drop_bit 6 l) table, PAD])"
| "encode_groups table (a # b # c # f) =
     (let l = push_bit 16 (ucast a) OR push_bit 8 (ucast b) OR ucast c :: u64
      in [conv_bin2ascii (drop_bit 18 l) table, conv_bin2ascii (drop_bit 12 l) table,
          conv_bin2ascii (drop_bit 6 l) table, conv_bin2ascii l table] @ encode_groups table f)"

text \<open>The result is the number of characters; the bytes are those written from \<^verbatim>\<open>t\<close> on.\<close>

definition evp_encodeblock_int :: "bool \<Rightarrow> byte list \<Rightarrow> int \<times> byte list" where
  "evp_encodeblock_int srp f =
     (let cs = encode_groups (encode_table srp) f in (int (length cs), cs @ [0]))"

definition EVP_EncodeBlock :: "byte list \<Rightarrow> int \<times> byte list" where
  "EVP_EncodeBlock f = evp_encodeblock_int False f"

text \<open>The loop of \<^verbatim>\<open>evp_decodeblock_int\<close>: whether it ran to its end, and the bytes it wrote.\<close>

fun decode_groups :: "byte list \<Rightarrow> byte list \<Rightarrow> bool \<times> byte list" where
  "decode_groups table (f0 # f1 # f2 # f3 # f) =
     (let a = conv_ascii2bin f0 table; b = conv_ascii2bin f1 table;
          c = conv_ascii2bin f2 table; d = conv_ascii2bin f3 table
      in if flag a 0x80 \<or> flag b 0x80 \<or> flag c 0x80 \<or> flag d 0x80 then (False, [])
         else
           let l = push_bit 18 (ucast a) OR push_bit 12 (ucast b) OR push_bit 6 (ucast c) OR ucast d :: u64;
               (ok, t) = decode_groups table f
           in (ok, [ucast (drop_bit 16 l) AND 0xff, ucast (drop_bit 8 l) AND 0xff, ucast l AND 0xff] @ t))"
| "decode_groups table f = (True, [])"

fun strip_end :: "byte list \<Rightarrow> byte list \<Rightarrow> byte list" where
  "strip_end table f =
     (if length f > 3 \<and> B64_NOT_BASE64 (conv_ascii2bin (last f) table) then strip_end table (butlast f) else f)"

declare strip_end.simps [simp del]

definition evp_decodeblock_int :: "bool \<Rightarrow> byte list \<Rightarrow> int \<times> byte list" where
  "evp_decodeblock_int srp f =
     (let table = decode_table srp;
          f = dropWhile (\<lambda>c. conv_ascii2bin c table = B64_WS) f;
          f = strip_end table f
      in if length f mod 4 \<noteq> 0 then (- 1, [])
         else let (ok, t) = decode_groups table f in (if ok then int (length t) else - 1, t))"

definition EVP_DecodeBlock :: "byte list \<Rightarrow> int \<times> byte list" where
  "EVP_DecodeBlock f = evp_decodeblock_int False f"

subsection \<open>Encoding a stream\<close>

record encode_ctx =
  ec_num :: int
  ec_length :: int
  enc_data :: "byte list"
  line_num :: int
  ec_flags :: u32

text \<open>The zeroed structure, and its allocation, which may fail.\<close>

definition zeroed_ctx :: encode_ctx where
  "zeroed_ctx = \<lparr>ec_num = 0, ec_length = 0, enc_data = replicate 80 0, line_num = 0, ec_flags = 0\<rparr>"

definition EVP_ENCODE_CTX_new :: "bool \<Rightarrow> encode_ctx option" where
  "EVP_ENCODE_CTX_new allocated = (if allocated then Some zeroed_ctx else None)"

definition EVP_ENCODE_CTX_copy :: "encode_ctx \<Rightarrow> int \<times> encode_ctx" where
  "EVP_ENCODE_CTX_copy sctx = (1, sctx)"

definition EVP_ENCODE_CTX_num :: "encode_ctx \<Rightarrow> int" where
  "EVP_ENCODE_CTX_num ctx = ec_num ctx"

definition evp_encode_ctx_set_flags :: "encode_ctx \<Rightarrow> u32 \<Rightarrow> encode_ctx" where
  "evp_encode_ctx_set_flags ctx fl = ctx\<lparr>ec_flags := fl\<rparr>"

definition EVP_EncodeInit :: "encode_ctx \<Rightarrow> encode_ctx" where
  "EVP_EncodeInit ctx = ctx\<lparr>ec_length := 48, ec_num := 0, line_num := 0, ec_flags := 0\<rparr>"

definition uses_srp :: "encode_ctx \<Rightarrow> bool" where
  "uses_srp ctx \<longleftrightarrow> flag (ec_flags ctx) EVP_ENCODE_CTX_USE_SRP_ALPHABET"

definition newlines :: "encode_ctx \<Rightarrow> bool" where
  "newlines ctx \<longleftrightarrow> \<not> flag (ec_flags ctx) EVP_ENCODE_CTX_NO_NEWLINES"

text \<open>A full line: the new offset of \<^verbatim>\<open>out\<close>, the new total and the memory.\<close>

definition encode_line :: "encode_ctx \<Rightarrow> byte list \<Rightarrow> nat \<Rightarrow> nat \<Rightarrow> mem \<Rightarrow> nat \<times> nat \<times> mem" where
  "encode_line ctx f out tot m =
     (let (j, t) = evp_encodeblock_int (uses_srp ctx) f;
          m = put_mem out t m; out = out + nat j; tot = uadd tot (nat j);
          (out, tot, m) = (if newlines ctx then (out + 1, uadd tot 1, put_mem out [NL] m) else (out, tot, m))
      in (out, tot, put_mem out [0] m))"

text \<open>What is left of the input, the total and the memory.\<close>

partial_function (option) encode_lines ::
  "encode_ctx \<Rightarrow> byte list \<Rightarrow> int \<Rightarrow> nat \<Rightarrow> nat \<Rightarrow> mem \<Rightarrow> (byte list \<times> int \<times> nat \<times> mem) option" where
  "encode_lines ctx inp inl out tot m =
     (if inl \<ge> ec_length ctx \<and> tot \<le> 2 ^ 31 - 1 then
        let (out, tot, m) = encode_line ctx (take (nat (ec_length ctx)) inp) out tot m
        in encode_lines ctx (drop (nat (ec_length ctx)) inp) (inl - ec_length ctx) out tot m
      else Some (inp, inl, tot, m))"

text \<open>The result and \<^verbatim>\<open>*outl\<close>, the context, the memory behind \<^verbatim>\<open>out\<close>.\<close>

definition EVP_EncodeUpdate ::
  "encode_ctx \<Rightarrow> mem \<Rightarrow> byte list \<Rightarrow> int \<Rightarrow> ((int \<times> int) \<times> encode_ctx \<times> mem) option" where
  "EVP_EncodeUpdate ctx m inp inl =
     (if inl \<le> 0 then Some ((0, 0), ctx, m)
      else if \<not> ec_length ctx \<le> 80 then None
      else if ec_length ctx - ec_num ctx > inl then
        Some ((1, 0), ctx\<lparr>enc_data := overwrite (nat (ec_num ctx)) (take (nat inl) inp) (enc_data ctx),
                         ec_num := ec_num ctx + inl\<rparr>, m)
      else
        let (ctx, inp, inl, out, tot, m) =
              (if ec_num ctx \<noteq> 0 then
                 let i = ec_length ctx - ec_num ctx;
                     ctx = ctx\<lparr>enc_data := overwrite (nat (ec_num ctx)) (take (nat i) inp) (enc_data ctx)\<rparr>;
                     (out, tot, m) = encode_line ctx (take (nat (ec_length ctx)) (enc_data ctx)) 0 0 m
                 in (ctx\<lparr>ec_num := 0\<rparr>, drop (nat i) inp, inl - i, out, tot, m)
               else (ctx, inp, inl, 0, 0, m))
        in case encode_lines ctx inp inl out tot m of None \<Rightarrow> None
           | Some (inp, inl, tot, m) \<Rightarrow>
              if tot > 2 ^ 31 - 1 then Some ((0, 0), ctx, m)
              else
                let ctx = (if inl \<noteq> 0 then ctx\<lparr>enc_data := overwrite 0 (take (nat inl) inp) (enc_data ctx)\<rparr> else ctx)
                in Some ((1, int tot), ctx\<lparr>ec_num := inl\<rparr>, m))"

definition EVP_EncodeFinal :: "encode_ctx \<Rightarrow> mem \<Rightarrow> int \<times> encode_ctx \<times> mem" where
  "EVP_EncodeFinal ctx m =
     (if ec_num ctx \<noteq> 0 then
        let (ret, t) = evp_encodeblock_int (uses_srp ctx) (take (nat (ec_num ctx)) (enc_data ctx));
            m = put_mem 0 t m;
            (ret, m) = (if newlines ctx then (ret + 1, put_mem (nat ret) [NL] m) else (ret, m))
        in (ret, ctx\<lparr>ec_num := 0\<rparr>, put_mem (nat ret) [0] m)
      else (0, ctx, m))"

subsection \<open>Decoding a stream\<close>

definition EVP_DecodeInit :: "encode_ctx \<Rightarrow> encode_ctx" where
  "EVP_DecodeInit ctx = ctx\<lparr>ec_num := 0, ec_length := 0, line_num := 0, ec_flags := 0\<rparr>"

text \<open>The variables of \<^verbatim>\<open>EVP_DecodeUpdate\<close>.\<close>

record dec_state =
  dn :: nat
  dd :: "byte list"
  eof :: int
  dret :: int
  dout :: nat
  dmem :: mem

text \<open>How the loop is left: to \<^verbatim>\<open>end\<close> with an error, to \<^verbatim>\<open>tail\<close> with \<^verbatim>\<open>seof\<close> set, or at the end of the input.\<close>

datatype dec_exit = Dec_error | Dec_seof | Dec_all

definition decode_flush :: "bool \<Rightarrow> dec_state \<Rightarrow> bool \<times> dec_state" where
  "decode_flush srp s =
     (let (decoded_len, t) = evp_decodeblock_int srp (take (dn s) (dd s));
          s = s\<lparr>dn := 0, dmem := put_mem (dout s) t (dmem s)\<rparr>
      in if decoded_len < 0 \<or> eof s > decoded_len then (False, s)
         else (True, s\<lparr>dret := dret s + (decoded_len - eof s), dout := dout s + nat (decoded_len - eof s)\<rparr>))"

fun decode_loop :: "bool \<Rightarrow> byte list \<Rightarrow> dec_state \<Rightarrow> dec_exit \<times> dec_state" where
  "decode_loop srp [] s = (Dec_all, s)"
| "decode_loop srp (tmp # inp) s =
     (let v = conv_ascii2bin tmp (decode_table srp) in
      if v = B64_ERROR then (Dec_error, s)
      else if tmp \<noteq> PAD \<and> eof s > 0 \<and> B64_BASE64 v then (Dec_error, s)
      else
        let s = (if tmp = PAD then s\<lparr>eof := eof s + 1\<rparr> else s) in
        if eof s > 2 then (Dec_error, s)
        else if v = B64_EOF then (Dec_seof, s)
        else if B64_BASE64 v \<and> dn s \<ge> 64 then (Dec_error, s)
        else
          let s = (if B64_BASE64 v then s\<lparr>dd := (dd s)[dn s := tmp], dn := dn s + 1\<rparr> else s) in
          if dn s = 64 then
            let (ok, s) = decode_flush srp s in if ok then decode_loop srp inp s else (Dec_error, s)
          else decode_loop srp inp s)"

definition initial_eof :: "nat \<Rightarrow> byte list \<Rightarrow> int" where
  "initial_eof n d =
     (if n > 0 \<and> d ! (n - 1) = PAD then (if n > 1 \<and> d ! (n - 2) = PAD then 2 else 1) else 0)"

definition decode_tail :: "bool \<Rightarrow> bool \<Rightarrow> dec_state \<Rightarrow> int \<times> dec_state" where
  "decode_tail srp seof s =
     (let (ok, s) = (if dn s > 0 then
                       if dn s mod 4 = 0 then decode_flush srp s
                       else (\<not> seof, s)
                     else (True, s))
      in if \<not> ok then (- 1, s)
         else (if seof \<or> dn s = 0 \<and> eof s \<noteq> 0 then 0 else 1, s))"

definition EVP_DecodeUpdate ::
  "encode_ctx \<Rightarrow> mem \<Rightarrow> byte list \<Rightarrow> int \<Rightarrow> (int \<times> int) \<times> encode_ctx \<times> mem" where
  "EVP_DecodeUpdate ctx m inp inl =
     (let s = \<lparr>dn = nat (ec_num ctx), dd = enc_data ctx, eof = initial_eof (nat (ec_num ctx)) (enc_data ctx),
               dret = 0, dout = 0, dmem = m\<rparr>;
          (rv, s) = (if inl = 0 then (0, s)
                     else case decode_loop (uses_srp ctx) (take (nat inl) inp) s of
                            (Dec_error, s) \<Rightarrow> (- 1, s)
                          | (Dec_seof, s) \<Rightarrow> decode_tail (uses_srp ctx) True s
                          | (Dec_all, s) \<Rightarrow> decode_tail (uses_srp ctx) False s)
      in ((rv, dret s), ctx\<lparr>ec_num := int (dn s), enc_data := dd s\<rparr>, dmem s))"

definition EVP_DecodeFinal :: "encode_ctx \<Rightarrow> mem \<Rightarrow> (int \<times> int) \<times> encode_ctx \<times> mem" where
  "EVP_DecodeFinal ctx m =
     (if ec_num ctx \<noteq> 0 then
        let (i, t) = evp_decodeblock_int (uses_srp ctx) (take (nat (ec_num ctx)) (enc_data ctx)); m = put_mem 0 t m
        in if i < 0 then ((- 1, 0), ctx, m) else ((1, i), ctx\<lparr>ec_num := 0\<rparr>, m)
      else ((1, 0), ctx, m))"

end
