(* ===== verification/Base64_Props.thy ===== *)
theory Base64_Props
  imports Base64
begin

unbundle bit_operations_syntax

section \<open>Base64 blocks\<close>

text \<open>
  The tables of \<^verbatim>\<open>encode.c\<close> are inverse to each other, and decoding the block that encodes some bytes gives them
  back, with zeros up to a multiple of three.
\<close>

subsection \<open>Tables\<close>

definition table_ok :: "bool \<Rightarrow> nat \<Rightarrow> bool" where
  "table_ok srp i \<longleftrightarrow>
     (let c = encode_table srp ! i; v = conv_ascii2bin c (decode_table srp)
      in v = of_nat i \<and> B64_BASE64 v \<and> c \<noteq> PAD)"

lemma six_bits: "unat v < 64 \<Longrightarrow> v AND 63 = v" for v :: byte
proof -
  assume "unat v < 64"
  then have "take_bit 6 v = v" by (simp add: word_unat_eq_iff unsigned_take_bit_eq take_bit_nat_eq_self)
  then show ?thesis by (simp add: take_bit_eq_mask mask_eq_exp_minus_1)
qed

lemma base64_value:
  fixes v :: byte
  assumes "unat v < 64"
  shows "B64_BASE64 v" "\<not> flag v 0x80"
proof -
  have v: "v = v AND 63" using six_bits [OF assms] by simp
  have "(v AND 63 OR 0x13) AND 0x40 = 0" by (simp add: bit.conj_disj_distrib2 and.assoc)
  with v have "(v OR 0x13) AND 0x40 \<noteq> 0xF3 AND 0x40" by simp
  then show "B64_BASE64 v" unfolding B64_NOT_BASE64_def by metis
  have "(v AND 63) AND 0x80 = 0" by (simp add: and.assoc)
  with v have "v AND 0x80 = 0" by metis
  then show "\<not> flag v 0x80" by (simp add: flag_def)
qed

lemma tables_inverse_all:
  "map (\<lambda>c. conv_ascii2bin c data_ascii2bin) data_bin2ascii = map of_nat [0..<64]"
  "map (\<lambda>c. conv_ascii2bin c srpdata_ascii2bin) srpdata_bin2ascii = map of_nat [0..<64]"
  "list_all (\<lambda>c. c \<noteq> PAD) data_bin2ascii" "list_all (\<lambda>c. c \<noteq> PAD) srpdata_bin2ascii"
  "length data_bin2ascii = 64" "length srpdata_bin2ascii = 64"
  by (simp_all add: data_bin2ascii_def srpdata_bin2ascii_def conv_ascii2bin_def flag_def data_ascii2bin_def
      srpdata_ascii2bin_def upt_conv_Cons)

lemma tables_inverse: "i < 64 \<Longrightarrow> table_ok srp i"
proof -
  assume i: "i < 64"
  have "(map (\<lambda>c. conv_ascii2bin c (decode_table srp)) (encode_table srp)) ! i = map of_nat [0..<64] ! i"
    and pad: "list_all (\<lambda>c. c \<noteq> PAD) (encode_table srp)" and len: "length (encode_table srp) = 64"
    by (cases srp; simp only: decode_table_def encode_table_def if_True if_False tables_inverse_all)+
  then have "conv_ascii2bin (encode_table srp ! i) (decode_table srp) = of_nat i" using i by simp
  with i pad len show ?thesis by (simp add: table_ok_def Let_def list_all_length base64_value unat_of_nat)
qed

lemma pad_value: "conv_ascii2bin PAD (decode_table srp) = 0"
proof -
  have "conv_ascii2bin PAD (decode_table False) = 0" "conv_ascii2bin PAD (decode_table True) = 0" by code_simp+
  then show ?thesis by (cases srp) simp_all
qed

lemma zero_base64 [simp]: "B64_BASE64 0"
  by (simp add: B64_NOT_BASE64_def)

subsection \<open>A group of three bytes\<close>

definition sextet :: "u64 \<Rightarrow> byte" where
  "sextet x = ucast (x AND 0x3f)"

lemma conv_back:
  fixes x :: u64
  shows "conv_ascii2bin (conv_bin2ascii x (encode_table srp)) (decode_table srp) = sextet x"
    and "B64_BASE64 (sextet x)" and "\<not> flag (sextet x) 0x80" and "conv_bin2ascii x (encode_table srp) \<noteq> PAD"
proof -
  have "unat (x AND 0x3f) \<le> unat (0x3f :: u64)" by (intro word_le_nat_alt [THEN iffD1] word_and_le1)
  then have lt: "unat (x AND 0x3f) < 64" by simp
  have u: "unat (sextet x) = unat (x AND 0x3f)" using lt by (simp add: sextet_def unsigned_ucast_eq take_bit_nat_eq_self)
  then have v: "of_nat (unat (x AND 0x3f)) = sextet x" by (simp flip: u)
  show "conv_ascii2bin (conv_bin2ascii x (encode_table srp)) (decode_table srp) = sextet x"
    "B64_BASE64 (sextet x)" "conv_bin2ascii x (encode_table srp) \<noteq> PAD"
    using tables_inverse [OF lt, of srp] unfolding table_ok_def conv_bin2ascii_def Let_def v by auto
  show "\<not> flag (sextet x) 0x80" using u lt by (intro base64_value) simp
qed

lemma ucast_sextet: "ucast (sextet x) = take_bit 6 x"
proof -
  have m: "(0x3f :: u64) = mask 6" by (simp add: mask_eq_exp_minus_1)
  show ?thesis unfolding sextet_def m by (rule bit_word_eqI) (auto simp: bit_simps)
qed

definition group_word :: "byte \<Rightarrow> byte \<Rightarrow> byte \<Rightarrow> u64" where
  "group_word a b c = push_bit 16 (ucast a) OR push_bit 8 (ucast b) OR ucast c"

lemma join_six: "push_bit k (take_bit 6 (drop_bit k l)) OR take_bit k l = take_bit (k + 6) l" for l :: u64
  by (rule bit_word_eqI) (auto simp: bit_simps)

lemma sextets_join:
  fixes l :: u64
  shows "push_bit 18 (ucast (sextet (drop_bit 18 l))) OR push_bit 12 (ucast (sextet (drop_bit 12 l))) OR
      push_bit 6 (ucast (sextet (drop_bit 6 l))) OR ucast (sextet l) = take_bit 24 l"
  using join_six [of 6 l] join_six [of 12 l] join_six [of 18 l] by (simp add: ucast_sextet or.assoc)

lemma group_bytes:
  "take_bit 24 (group_word a b c) = group_word a b c"
  "ucast (drop_bit 16 (group_word a b c)) AND 0xff = a"
  "ucast (drop_bit 8 (group_word a b c)) AND 0xff = b"
  "ucast (group_word a b c) AND 0xff = c"
proof -
  have m: "(0xff :: byte) = mask 8" by (simp add: mask_eq_exp_minus_1)
  have up: "bit (w :: byte) n \<Longrightarrow> n < 8" for w n using bit_imp_le_length by force
  show "take_bit 24 (group_word a b c) = group_word a b c"
    unfolding group_word_def by (rule bit_word_eqI) (auto simp: bit_simps dest: up)
  show "ucast (drop_bit 16 (group_word a b c)) AND 0xff = a"
    unfolding group_word_def m by (rule bit_word_eqI) (auto simp: bit_simps dest: up)
  show "ucast (drop_bit 8 (group_word a b c)) AND 0xff = b"
    unfolding group_word_def m by (rule bit_word_eqI) (auto simp: bit_simps dest: up)
  show "ucast (group_word a b c) AND 0xff = c"
    unfolding group_word_def m by (rule bit_word_eqI) (auto simp: bit_simps dest: up)
qed

subsection \<open>Blocks\<close>

text \<open>The bytes a block decodes to: those encoded, with zeros up to a multiple of three.\<close>

fun pad3 :: "byte list \<Rightarrow> byte list" where
  "pad3 [] = []"
| "pad3 [a] = [a, 0, 0]"
| "pad3 [a, b] = [a, b, 0]"
| "pad3 (a # b # c # f) = a # b # c # pad3 f"

lemma take_pad3 [simp]: "take (length bs) (pad3 bs) = bs"
  by (induction bs rule: pad3.induct) simp_all

lemma groups_step: "(5 + n) div 3 = Suc (Suc (Suc n) div 3)" for n :: nat
  by presburger

lemma length_pad3: "length (pad3 bs) = 3 * ((length bs + 2) div 3)"
  by (induction bs rule: pad3.induct) (simp_all add: groups_step)

lemma length_encode_groups: "length (encode_groups tab bs) = 4 * ((length bs + 2) div 3)"
  by (induction tab bs rule: encode_groups.induct) (simp_all add: Let_def groups_step)

lemma encode_groups_eq_Nil [simp]: "encode_groups tab bs = [] \<longleftrightarrow> bs = []"
  by (induction tab bs rule: encode_groups.induct) (simp_all add: Let_def)

lemma group_word_short:
  "push_bit 16 (ucast a) = group_word a 0 0"
  "push_bit 16 (ucast a) OR push_bit 8 (ucast b) = group_word a b 0"
  "push_bit 16 (ucast a) OR push_bit 8 (ucast b) OR ucast c = group_word a b c"
  by (simp_all add: group_word_def)

lemma pad_sextets: "sextet (drop_bit 6 (group_word a 0 0)) = 0" "sextet (group_word a b 0) = 0"
proof -
  have m: "(0x3f :: u64) = mask 6" by (simp add: mask_eq_exp_minus_1)
  show "sextet (drop_bit 6 (group_word a 0 0)) = 0" "sextet (group_word a b 0) = 0"
    unfolding sextet_def group_word_def m by (rule bit_word_eqI; auto simp: bit_simps)+
qed

lemma decode_group:
  fixes l :: u64
  assumes l: "l = group_word a b c"
    and "conv_ascii2bin w tab = sextet (drop_bit 18 l)" "conv_ascii2bin x tab = sextet (drop_bit 12 l)"
    and "conv_ascii2bin y tab = sextet (drop_bit 6 l)" "conv_ascii2bin z tab = sextet l"
  shows "decode_groups tab (w # x # y # z # f) = (fst (decode_groups tab f), a # b # c # snd (decode_groups tab f))"
proof -
  have "push_bit 18 (ucast (sextet (drop_bit 18 l))) OR push_bit 12 (ucast (sextet (drop_bit 12 l))) OR
      push_bit 6 (ucast (sextet (drop_bit 6 l))) OR ucast (sextet l) = group_word a b c"
    unfolding sextets_join by (simp add: l group_bytes)
  then show ?thesis
    by (simp add: assms(2-) conv_back Let_def group_bytes split: prod.split)
qed

lemma decode_encode_groups:
  "decode_groups (decode_table srp) (encode_groups (encode_table srp) bs) = (True, pad3 bs)"
proof (induction bs rule: pad3.induct)
  case (2 a)
  show ?case unfolding encode_groups.simps Let_def group_word_short
    by (subst decode_group [OF refl, of _ _ a 0 0]) (simp_all add: conv_back pad_value pad_sextets)
next
  case (3 a b)
  show ?case unfolding encode_groups.simps Let_def group_word_short(2)
    by (subst decode_group [OF refl, of _ _ a b 0]) (simp_all add: conv_back pad_value pad_sextets)
next
  case (4 a b c f)
  then show ?case unfolding encode_groups.simps Let_def group_word_short(3) append.simps
    by (subst decode_group [OF refl, of _ _ a b c]) (simp_all add: conv_back)
qed simp

text \<open>A character of the alphabet or a pad.\<close>

definition b64 :: "bool \<Rightarrow> byte \<Rightarrow> bool" where
  "b64 srp c \<longleftrightarrow> B64_BASE64 (conv_ascii2bin c (decode_table srp)) \<and> \<not> flag (conv_ascii2bin c (decode_table srp)) 0x80"

lemma b64_conv [simp]: "b64 srp (conv_bin2ascii x (encode_table srp))"
  by (simp add: b64_def conv_back)

lemma b64_pad [simp]: "b64 srp PAD"
  by (simp add: b64_def pad_value flag_def)

lemma encode_groups_b64: "c \<in> set (encode_groups (encode_table srp) bs) \<Longrightarrow> b64 srp c"
  by (induction "encode_table srp" bs rule: encode_groups.induct) (auto simp: Let_def)

lemma decodeblock_b64:
  assumes "\<And>c. c \<in> set f \<Longrightarrow> b64 srp c" and "length f mod 4 = 0"
  shows "evp_decodeblock_int srp f =
    (let (ok, t) = decode_groups (decode_table srp) f in (if ok then int (length t) else - 1, t))"
proof -
  have ws: "B64_NOT_BASE64 B64_WS" by (simp add: B64_NOT_BASE64_def)
  have "dropWhile (\<lambda>c. conv_ascii2bin c (decode_table srp) = B64_WS) f = f"
    using assms(1) ws by (cases f) (force simp: b64_def)+
  moreover have "strip_end (decode_table srp) f = f"
  proof (cases "length f > 3")
    case True
    then have "b64 srp (last f)" using assms(1) by (intro assms(1)) (cases f; simp)
    then show ?thesis by (subst strip_end.simps) (simp add: b64_def)
  qed (subst strip_end.simps, simp)
  ultimately show ?thesis using assms(2) by (simp add: evp_decodeblock_int_def Let_def)
qed

lemma decodeblock_encoded:
  "evp_decodeblock_int srp (encode_groups (encode_table srp) bs) = (int (length (pad3 bs)), pad3 bs)"
  by (subst decodeblock_b64) (auto dest: encode_groups_b64 simp: length_encode_groups decode_encode_groups)

text \<open>Blocks of whole groups are encoded one after the other.\<close>

lemma encode_groups_split:
  "take (4 * m) (encode_groups tab bs) = encode_groups tab (take (3 * m) bs) \<and>
   drop (4 * m) (encode_groups tab bs) = encode_groups tab (drop (3 * m) bs)"
proof (induction tab bs arbitrary: m rule: encode_groups.induct)
  case (4 tab a b c f)
  have four: "4 * Suc k = Suc (Suc (Suc (Suc (4 * k))))" "3 * Suc k = Suc (Suc (Suc (3 * k)))" for k :: nat by simp_all
  show ?case
  proof (cases m)
    case (Suc k)
    show ?thesis using 4 [OF refl, of k] unfolding Suc four by (simp add: Let_def)
  qed simp
qed (simp_all add: Let_def take_Cons' drop_Cons')

lemma take_encode_groups: "take (4 * m) (encode_groups tab bs) = encode_groups tab (take (3 * m) bs)"
  and drop_encode_groups: "drop (4 * m) (encode_groups tab bs) = encode_groups tab (drop (3 * m) bs)"
  using encode_groups_split by blast+

end
