(* ===== verification/Base64_Enc.thy ===== *)
theory Base64_Enc
  imports Base64_Props
begin

section \<open>The streaming encoder\<close>

text \<open>
  However the bytes are split into calls of \<^verbatim>\<open>EVP_EncodeUpdate\<close>, the text that comes out is that of encoding
  them at once, in lines of 48 bytes; and each call writes that text and its terminating null, nothing else.
\<close>

subsection \<open>The memory behind the output pointer\<close>

lemma put_mem_Nil [simp]: "put_mem off [] m = m"
  by (auto simp: put_mem_def fun_eq_iff)

lemma put_mem_over:
  assumes "length c \<le> length b"
  shows "put_mem (off + length a) b (put_mem off (a @ c) m) = put_mem off (a @ b) m"
proof
  fix i
  show "put_mem (off + length a) b (put_mem off (a @ c) m) i = put_mem off (a @ b) m i"
    using assms by (cases "i < off + length a") (auto simp: put_mem_def nth_append)
qed

lemma put_mem_fetch:
  assumes "length t \<le> length bs" and "take (length t) bs = t"
  shows "fetch (put_mem 0 bs m) (length t) = t"
proof (rule nth_equalityI)
  fix i assume "i < length (fetch (put_mem 0 bs m) (length t))"
  then have i: "i < length t" by (simp add: fetch_def)
  then have "bs ! i = t ! i" using assms(2) by (metis nth_take)
  with i assms(1) show "fetch (put_mem 0 bs m) (length t) ! i = t ! i" by (simp add: fetch_def put_mem_def)
qed (simp add: fetch_def)

subsection \<open>The text\<close>

definition line_text :: "bool \<Rightarrow> bool \<Rightarrow> byte list \<Rightarrow> byte list" where
  "line_text srp nl bs = encode_groups (encode_table srp) bs @ (if nl then [NL] else [])"

fun lines_text :: "bool \<Rightarrow> bool \<Rightarrow> byte list \<Rightarrow> byte list" where
  "lines_text srp nl bs =
     (if bs = [] then [] else line_text srp nl (take 48 bs) @ lines_text srp nl (drop 48 bs))"

declare lines_text.simps [simp del]

lemma lines_text_Nil [simp]: "lines_text srp nl [] = []"
  by (simp add: lines_text.simps)

lemma lines_text_append:
  assumes "length a mod 48 = 0"
  shows "lines_text srp nl (a @ b) = lines_text srp nl a @ lines_text srp nl b"
  using assms
proof (induction "length a" arbitrary: a rule: less_induct)
  case less
  show ?case
  proof (cases "a = []")
    case False
    with less(2) have len: "48 \<le> length a" by (metis length_0_conv mod_less not_le)
    with less(2) have "length (drop 48 a) mod 48 = 0" by (simp add: mod_if split: if_splits)
    with less(1) [of "drop 48 a"] len False show ?thesis
      by (subst (1 2) lines_text.simps) simp
  qed simp
qed

text \<open>What has been written and what is held back after \<open>bs\<close>.\<close>

definition full_lines :: "byte list \<Rightarrow> nat" where
  "full_lines bs = 48 * (length bs div 48)"

lemma length_take_whole: "length (take (full_lines bs) bs) = full_lines bs" "full_lines bs mod 48 = 0"
  by (simp_all add: full_lines_def min_absorb2)

lemma whole_step: "48 \<le> length bs \<Longrightarrow> full_lines bs = 48 + full_lines (drop 48 bs)"
  by (simp add: full_lines_def le_div_geq)

lemma lines_text_step:
  "48 \<le> length bs \<Longrightarrow>
    lines_text srp nl (take (full_lines bs) bs) =
      line_text srp nl (take 48 bs) @ lines_text srp nl (take (full_lines (drop 48 bs)) (drop 48 bs))"
  by (subst lines_text.simps) (auto simp: whole_step take_drop min_absorb1 add.commute)

lemma length_line_text: "length (line_text srp nl bs) = 4 * ((length bs + 2) div 3) + (if nl then 1 else 0)"
  by (simp add: line_text_def length_encode_groups)

lemma length_lines_text_whole: "length (lines_text srp nl (take (full_lines bs) bs)) \<le> 65 * (length bs div 48)"
proof (induction "length bs" arbitrary: bs rule: less_induct)
  case less
  show ?case
  proof (cases "48 \<le> length bs")
    case True
    then have "length (lines_text srp nl (take (full_lines (drop 48 bs)) (drop 48 bs))) \<le> 65 * (length (drop 48 bs) div 48)"
      by (intro less) simp
    moreover have "length (line_text srp nl (take 48 bs)) \<le> 65" using True by (simp add: length_line_text)
    ultimately show ?thesis using True by (simp only: lines_text_step length_append) (simp add: le_div_geq)
  qed (simp add: full_lines_def)
qed

subsection \<open>One call\<close>

lemma encode_line_text:
  assumes "tot + 65 < 2 ^ 64" and "length f = 48"
  shows "encode_line ctx f out tot m =
    (let t = line_text (uses_srp ctx) (newlines ctx) f in (out + length t, tot + length t, put_mem out (t @ [0]) m))"
proof -
  define cs where "cs = encode_groups (encode_table (uses_srp ctx)) f"
  have len: "length cs = 64" using assms(2) by (simp add: cs_def length_encode_groups)
  have "put_mem (out + 64) [0] (put_mem out (cs @ [0]) m) = put_mem out (cs @ [0]) m"
    using put_mem_over [of "[0]" "[0]" out cs m] by (simp add: len)
  moreover have "put_mem (out + 64) [NL] (put_mem out (cs @ [0]) m) = put_mem out (cs @ [NL]) m"
    using put_mem_over [of "[0]" "[NL]" out cs m] by (simp add: len)
  moreover have "put_mem (out + 65) [0] (put_mem out (cs @ [NL]) m) = put_mem out (cs @ [NL, 0]) m"
    using put_mem_over [of "[]" "[0]" out "cs @ [NL]" m] by (simp add: len)
  ultimately show ?thesis
    using assms(1) unfolding encode_line_def evp_encodeblock_int_def Let_def cs_def [symmetric]
    by (simp add: len uadd_def line_text_def Let_def add.commute flip: cs_def)
qed

lemma encode_lines_text:
  assumes "ec_length ctx = 48" and "tot + 65 * (length inp div 48) < 2 ^ 31"
    and "t = lines_text (uses_srp ctx) (newlines ctx) (take (full_lines inp) inp)"
  shows "encode_lines ctx inp (int (length inp)) out tot m =
    Some (drop (full_lines inp) inp, int (length inp) - int (full_lines inp), tot + length t,
      if t = [] then m else put_mem out (t @ [0]) m)"
  using assms(2,3)
proof (induction "length inp" arbitrary: inp out tot m t rule: less_induct)
  case less
  show ?case
  proof (cases "48 \<le> length inp")
    case True
    define f where "f = take 48 inp"
    define l where "l = line_text (uses_srp ctx) (newlines ctx) f"
    define r where "r = drop 48 inp"
    define u where "u = lines_text (uses_srp ctx) (newlines ctx) (take (full_lines r) r)"
    have t: "t = l @ u" using less(3) True by (simp add: lines_text_step l_def u_def f_def r_def)
    have f: "length f = 48" using True by (simp add: f_def)
    have l: "length l \<le> 65" using f by (simp add: l_def length_line_text)
    have lne: "l \<noteq> []" using f by (auto simp: l_def line_text_def)
    have bound: "tot + 65 + 65 * (length r div 48) < 2 ^ 31"
      using less(2) True by (simp add: r_def le_div_geq)
    have line: "encode_line ctx f out tot m = (out + length l, tot + length l, put_mem out (l @ [0]) m)"
      using bound by (subst encode_line_text) (simp_all add: f l_def Let_def)
    have "encode_lines ctx r (int (length r)) (out + length l) (tot + length l) (put_mem out (l @ [0]) m) =
      Some (drop (full_lines r) r, int (length r) - int (full_lines r), tot + length l + length u,
        if u = [] then put_mem out (l @ [0]) m else put_mem (out + length l) (u @ [0]) (put_mem out (l @ [0]) m))"
      using less(1) [of r "tot + length l" u] bound l lne True u_def by (simp add: r_def)
    moreover have "put_mem (out + length l) (u @ [0]) (put_mem out (l @ [0]) m) = put_mem out (t @ [0]) m"
      using put_mem_over [of "[0]" "u @ [0]" out l m] by (simp add: t)
    moreover have "int (length inp) - 48 = int (length r)" using True by (simp add: r_def)
    moreover have "drop (full_lines r) r = drop (full_lines inp) inp" "int (length r) - int (full_lines r) = int (length inp) - int (full_lines inp)"
      using True by (simp_all add: r_def whole_step add.commute)
    ultimately show ?thesis
      using True assms(1) bound lne
      by (subst encode_lines.simps) (simp add: line t r_def [symmetric] f_def [symmetric])
  next
    case False
    with less(3) show ?thesis by (subst encode_lines.simps) (simp add: assms(1) full_lines_def)
  qed
qed

text \<open>A context that holds back the bytes \<open>q\<close>.\<close>

definition holds :: "encode_ctx \<Rightarrow> byte list \<Rightarrow> bool" where
  "holds ctx q \<longleftrightarrow>
     ec_length ctx = 48 \<and> ec_num ctx = int (length q) \<and> length q < 48 \<and> length (enc_data ctx) = 80 \<and>
     take (length q) (enc_data ctx) = q"

lemma holds_store:
  assumes "holds ctx q" and "length q + length bs \<le> 48"
  shows "take (length q + length bs) (overwrite (length q) bs (enc_data ctx)) = q @ bs"
proof -
  have "length (take (length q) (enc_data ctx)) = length q" using assms by (simp add: holds_def)
  with assms show ?thesis by (simp add: overwrite_def holds_def)
qed

text \<open>How many bytes complete the line at hand, and the text of that line.\<close>

definition missing :: "byte list \<Rightarrow> nat" where
  "missing q = (if q = [] then 0 else 48 - length q)"

definition first_text :: "bool \<Rightarrow> bool \<Rightarrow> byte list \<Rightarrow> byte list \<Rightarrow> byte list" where
  "first_text srp nl q inp = (if q = [] then [] else line_text srp nl (q @ take (missing q) inp))"

lemma first_line_split:
  assumes "length q < 48" and "48 \<le> length q + length inp" and r: "r = drop (missing q) inp"
  shows "missing q \<le> length inp"
    and "q \<noteq> [] \<Longrightarrow> length (q @ take (missing q) inp) = 48"
    and "drop (full_lines (q @ inp)) (q @ inp) = drop (full_lines r) r"
    and "lines_text srp nl (take (full_lines (q @ inp)) (q @ inp)) =
      first_text srp nl q inp @ lines_text srp nl (take (full_lines r) r)"
    and "length (first_text srp nl q inp) + 65 * (length r div 48) \<le> 65 * ((length q + length inp) div 48)"
proof -
  show k: "missing q \<le> length inp" and full: "q \<noteq> [] \<Longrightarrow> length (q @ take (missing q) inp) = 48"
    using assms by (auto simp: missing_def)
  have w: "48 \<le> length (q @ inp)" and d: "q \<noteq> [] \<Longrightarrow> drop 48 (q @ inp) = r"
    and t: "q \<noteq> [] \<Longrightarrow> take 48 (q @ inp) = q @ take (missing q) inp"
    using assms by (simp_all add: missing_def)
  have wh: "full_lines (q @ inp) = 48 + full_lines r" if "q \<noteq> []"
    using whole_step [OF w] d [OF that] by simp
  show "drop (full_lines (q @ inp)) (q @ inp) = drop (full_lines r) r"
  proof (cases "q = []")
    case False
    have "drop (full_lines (q @ inp)) (q @ inp) = drop (full_lines r) (drop 48 (q @ inp))"
      unfolding wh [OF False] drop_drop by (simp only: add.commute)
    then show ?thesis unfolding d [OF False] .
  qed (simp add: r missing_def)
  show "lines_text srp nl (take (full_lines (q @ inp)) (q @ inp)) =
      first_text srp nl q inp @ lines_text srp nl (take (full_lines r) r)"
  proof (cases "q = []")
    case False
    then show ?thesis unfolding lines_text_step [OF w] d [OF False] t [OF False] first_text_def by simp
  qed (simp add: r missing_def first_text_def)
  show "length (first_text srp nl q inp) + 65 * (length r div 48) \<le> 65 * ((length q + length inp) div 48)"
  proof (cases "q = []")
    case False
    then have "length q + length inp = 48 + length r" using full k by (simp add: r)
    with full False show ?thesis by (simp add: le_div_geq first_text_def length_line_text)
  qed (simp add: first_text_def r missing_def)
qed

text \<open>The first part of a call, when the bytes suffice for a line.\<close>

lemma fill_line:
  assumes h: "holds ctx q" and len: "48 \<le> length q + length inp"
    and l: "l = first_text (uses_srp ctx) (newlines ctx) q inp"
  shows "(if ec_num ctx \<noteq> 0 then
        let i = ec_length ctx - ec_num ctx;
            ctx = ctx\<lparr>enc_data := overwrite (nat (ec_num ctx)) (take (nat i) inp) (enc_data ctx)\<rparr>;
            (out, tot, m) = encode_line ctx (take (nat (ec_length ctx)) (enc_data ctx)) 0 0 m
        in (ctx\<lparr>ec_num := 0\<rparr>, drop (nat i) inp, int (length inp) - i, out, tot, m)
      else (ctx, inp, int (length inp), 0, 0, m)) =
    (if q = [] then ctx
     else ctx\<lparr>enc_data := overwrite (length q) (take (missing q) inp) (enc_data ctx), ec_num := 0\<rparr>,
     drop (missing q) inp, int (length (drop (missing q) inp)), length l, length l,
     if q = [] then m else put_mem 0 (l @ [0]) m)"
proof (cases "q = []")
  case True
  then show ?thesis using h by (simp add: holds_def missing_def l first_text_def)
next
  case False
  have h': "ec_length ctx = 48" "ec_num ctx = int (length q)" "length q < 48" "length (enc_data ctx) = 80"
    using h by (simp_all add: holds_def)
  note parts = first_line_split [OF h'(3) len refl]
  define c where "c = ctx\<lparr>enc_data := overwrite (length q) (take (missing q) inp) (enc_data ctx)\<rparr>"
  have "take 48 (enc_data c) = q @ take (missing q) inp"
    using holds_store [OF h, of "take (missing q) inp"] parts(1) parts(2) [OF False] by (simp add: c_def)
  moreover have "uses_srp c = uses_srp ctx" "newlines c = newlines ctx" by (simp_all add: c_def uses_srp_def newlines_def)
  ultimately have "encode_line c (take 48 (enc_data c)) 0 0 m = (length l, length l, put_mem 0 (l @ [0]) m)"
    using parts(2) [OF False] False by (simp add: encode_line_text l first_text_def Let_def)
  moreover have "48 - int (length q) = int (missing q)" using False h' by (simp add: missing_def)
  ultimately show ?thesis
    using False h' parts(1) by (simp add: c_def Let_def of_nat_diff)
qed

lemma update_short:
  assumes "holds ctx q" and "inp \<noteq> []" and "length q + length inp < 48"
  shows "\<exists>ctx'. EVP_EncodeUpdate ctx m inp (int (length inp)) = Some ((1, 0), ctx', m) \<and>
    holds ctx' (q @ inp) \<and> ec_flags ctx' = ec_flags ctx"
  using assms holds_store [OF assms(1), of inp] by (simp add: EVP_EncodeUpdate_def holds_def nat_int_add)

lemma update_long:
  assumes h: "holds ctx q" and ne: "inp \<noteq> []" and len: "48 \<le> length q + length inp"
    and bound: "65 * ((length q + length inp) div 48) < 2 ^ 31"
    and t: "t = lines_text (uses_srp ctx) (newlines ctx) (take (full_lines (q @ inp)) (q @ inp))"
  shows "\<exists>ctx'. EVP_EncodeUpdate ctx m inp (int (length inp)) =
      Some ((1, int (length t)), ctx', if t = [] then m else put_mem 0 (t @ [0]) m) \<and>
    holds ctx' (drop (full_lines (q @ inp)) (q @ inp)) \<and> ec_flags ctx' = ec_flags ctx"
proof -
  define r where "r = drop (missing q) inp"
  define ctx1 where "ctx1 = (if q = [] then ctx
     else ctx\<lparr>enc_data := overwrite (length q) (take (missing q) inp) (enc_data ctx), ec_num := 0\<rparr>)"
  define l where "l = first_text (uses_srp ctx) (newlines ctx) q inp"
  define m1 where "m1 = (if q = [] then m else put_mem 0 (l @ [0]) m)"
  define u where "u = lines_text (uses_srp ctx) (newlines ctx) (take (full_lines r) r)"
  have h': "ec_length ctx = 48" "ec_num ctx = int (length q)" "length q < 48" "length (enc_data ctx) = 80"
    using h by (simp_all add: holds_def)
  note parts = first_line_split [OF h'(3) len r_def]
  note start = fill_line [OF h len l_def, of m, folded ctx1_def r_def m1_def]
  have tl: "t = l @ u" unfolding t l_def u_def by (rule parts(4))
  have lenr: "length l + 65 * (length r div 48) < 2 ^ 31"
    using bound parts(5) [of "uses_srp ctx" "newlines ctx"] by (simp add: l_def)
  have fl: "ec_length ctx1 = 48" "uses_srp ctx1 = uses_srp ctx" "newlines ctx1 = newlines ctx" "ec_flags ctx1 = ec_flags ctx"
    "length (enc_data ctx1) = 80"
    using h' parts(1) by (simp_all add: ctx1_def uses_srp_def newlines_def missing_def)
  have lines: "encode_lines ctx1 r (int (length r)) (length l) (length l) m1 =
      Some (drop (full_lines r) r, int (length r) - int (full_lines r), length l + length u,
        if u = [] then m1 else put_mem (length l) (u @ [0]) m1)"
    by (rule encode_lines_text) (use fl lenr in \<open>simp_all add: u_def\<close>)
  have mem: "(if u = [] then m1 else put_mem (length l) (u @ [0]) m1) = (if t = [] then m else put_mem 0 (t @ [0]) m)"
    using put_mem_over [of "[0]" "u @ [0]" 0 l m]
    by (auto simp: m1_def tl l_def first_text_def line_text_def)
  define ctx' where "ctx' = (if int (length r) - int (full_lines r) \<noteq> 0
      then ctx1\<lparr>enc_data := overwrite 0 (drop (full_lines r) r) (enc_data ctx1)\<rparr> else ctx1)
        \<lparr>ec_num := int (length r) - int (full_lines r)\<rparr>"
  have wr: "full_lines r \<le> length r" "length r - full_lines r < 48"
    by (simp_all add: full_lines_def minus_mult_div_eq_mod)
  have "length l + length u \<le> 2 ^ 31 - 1"
    using lenr length_lines_text_whole [of "uses_srp ctx" "newlines ctx" r] by (simp add: u_def)
  moreover have "\<not> int (length inp) \<le> 0" "\<not> ec_length ctx - ec_num ctx > int (length inp)" "ec_length ctx \<le> 80"
    using ne h' len by simp_all
  moreover have "take (nat (int (length r) - int (full_lines r))) (drop (full_lines r) r) = drop (full_lines r) r"
    by (simp add: nat_diff_distrib)
  ultimately have "EVP_EncodeUpdate ctx m inp (int (length inp)) =
      Some ((1, int (length t)), ctx', if t = [] then m else put_mem 0 (t @ [0]) m)"
    unfolding EVP_EncodeUpdate_def start
    unfolding Let_def prod.case lines option.case mem by (simp add: tl ctx'_def)
  moreover have "holds ctx' (drop (full_lines r) r)"
    using fl wr by (auto simp: holds_def ctx'_def overwrite_def of_nat_diff)
  moreover have "ec_flags ctx' = ec_flags ctx" by (simp add: ctx'_def fl)
  ultimately show ?thesis unfolding parts(3) by blast
qed

lemma update_correct:
  assumes "holds ctx q" and "inp \<noteq> []" and "65 * ((length q + length inp) div 48) < 2 ^ 31"
    and t: "t = lines_text (uses_srp ctx) (newlines ctx) (take (full_lines (q @ inp)) (q @ inp))"
  shows "\<exists>ctx'. EVP_EncodeUpdate ctx m inp (int (length inp)) =
      Some ((1, int (length t)), ctx', if t = [] then m else put_mem 0 (t @ [0]) m) \<and>
    holds ctx' (drop (full_lines (q @ inp)) (q @ inp)) \<and> ec_flags ctx' = ec_flags ctx"
proof (cases "length q + length inp < 48")
  case True
  then have "full_lines (q @ inp) = 0" by (simp add: full_lines_def)
  then show ?thesis using update_short [OF assms(1,2) True] t by simp
qed (use update_long [OF assms(1,2) _ assms(3) t] in simp)

lemma final_correct:
  assumes "holds ctx q" and t: "t = lines_text (uses_srp ctx) (newlines ctx) q"
  shows "EVP_EncodeFinal ctx m =
    (int (length t), ctx\<lparr>ec_num := 0\<rparr>, if t = [] then m else put_mem 0 (t @ [0]) m)"
proof (cases "q = []")
  case True
  with assms show ?thesis by (simp add: EVP_EncodeFinal_def holds_def)
next
  case False
  define cs where "cs = encode_groups (encode_table (uses_srp ctx)) q"
  have q: "ec_num ctx = int (length q)" "take (length q) (enc_data ctx) = q" "length q < 48"
    using assms by (simp_all add: holds_def)
  have tq: "t = cs @ (if newlines ctx then [NL] else [])"
    using False q(3) t by (simp add: cs_def lines_text.simps [of _ _ q] line_text_def)
  have "cs \<noteq> []" using False by (simp add: cs_def)
  moreover have "put_mem (length cs) [0] (put_mem 0 (cs @ [0]) m) = put_mem 0 (cs @ [0]) m"
    "put_mem (length cs) [NL] (put_mem 0 (cs @ [0]) m) = put_mem 0 (cs @ [NL]) m"
    "put_mem (Suc (length cs)) [0] (put_mem 0 (cs @ [NL]) m) = put_mem 0 (cs @ [NL, 0]) m"
    using put_mem_over [of "[0]" "[0]" 0 cs m] put_mem_over [of "[0]" "[NL]" 0 cs m]
      put_mem_over [of "[]" "[0]" 0 "cs @ [NL]" m] by simp_all
  ultimately show ?thesis
    using False unfolding EVP_EncodeFinal_def evp_encodeblock_int_def Let_def q(1) nat_int q(2) cs_def [symmetric]
    by (simp add: tq nat_add_distrib)
qed

subsection \<open>A whole stream\<close>

text \<open>The caller: every chunk goes through \<^verbatim>\<open>EVP_EncodeUpdate\<close>, what it writes is appended to the text, and
  \<^verbatim>\<open>EVP_EncodeFinal\<close> ends it.  \<open>m\<close> is what the output buffer holds before each call.\<close>

fun encode_chunks :: "mem \<Rightarrow> encode_ctx \<Rightarrow> byte list list \<Rightarrow> byte list option" where
  "encode_chunks m ctx [] = (let (outl, ctx', m') = EVP_EncodeFinal ctx m in Some (fetch m' (nat outl)))"
| "encode_chunks m ctx (c # cs) =
     (case EVP_EncodeUpdate ctx m c (int (length c)) of
        Some ((ret, outl), ctx', m') \<Rightarrow>
          if ret \<noteq> 1 then None else map_option ((@) (fetch m' (nat outl))) (encode_chunks m ctx' cs)
      | None \<Rightarrow> None)"

definition encode_stream :: "mem \<Rightarrow> u32 \<Rightarrow> byte list list \<Rightarrow> byte list option" where
  "encode_stream m fl cs = encode_chunks m (evp_encode_ctx_set_flags (EVP_EncodeInit zeroed_ctx) fl) cs"

lemma fetch_written: "fetch (if t = [] then m else put_mem 0 (t @ [0]) m) (length t) = t"
  using put_mem_fetch [of t "t @ [0]" m] by (simp add: fetch_def)

lemma encode_chunks_text:
  assumes "holds ctx q" and "\<And>c. c \<in> set cs \<Longrightarrow> c \<noteq> [] \<and> length c \<le> 2 ^ 30"
  shows "encode_chunks m ctx cs = Some (lines_text (uses_srp ctx) (newlines ctx) (q @ concat cs))"
  using assms
proof (induction cs arbitrary: ctx q)
  case Nil
  show ?case
    using final_correct [OF Nil(1) refl, of m]
      fetch_written [of "lines_text (uses_srp ctx) (newlines ctx) q" m] by simp
next
  case (Cons c cs)
  have c: "c \<noteq> []" "length c \<le> 2 ^ 30" and q: "length q < 48" using Cons(2,3) by (auto simp: holds_def)
  have "(length q + length c) div 48 \<le> (48 + 2 ^ 30) div 48" using c q by (intro div_le_mono) simp
  then have bound: "65 * ((length q + length c) div 48) < 2 ^ 31" by simp
  define t where "t = lines_text (uses_srp ctx) (newlines ctx) (take (full_lines (q @ c)) (q @ c))"
  define r where "r = drop (full_lines (q @ c)) (q @ c)"
  obtain ctx' where up: "EVP_EncodeUpdate ctx m c (int (length c)) =
      Some ((1, int (length t)), ctx', if t = [] then m else put_mem 0 (t @ [0]) m)"
    and h: "holds ctx' r" and fl: "ec_flags ctx' = ec_flags ctx"
    using update_correct [OF Cons(2) c(1) bound t_def, of m] r_def by blast
  have "encode_chunks m ctx' cs = Some (lines_text (uses_srp ctx) (newlines ctx) (r @ concat cs))"
    using Cons(1) [OF h] Cons(3) fl by (simp add: uses_srp_def newlines_def)
  moreover have "lines_text (uses_srp ctx) (newlines ctx) (q @ concat (c # cs)) =
      t @ lines_text (uses_srp ctx) (newlines ctx) (r @ concat cs)"
  proof -
    have "length (take (full_lines (q @ c)) (q @ c)) mod 48 = 0" by (simp only: length_take_whole)
    from lines_text_append [OF this] show ?thesis
      unfolding t_def r_def by (metis append.assoc append_take_drop_id concat.simps(2))
  qed
  ultimately show ?case using fetch_written [of t m] by (simp add: up)
qed

lemma encode_stream_text:
  assumes "\<And>c. c \<in> set cs \<Longrightarrow> c \<noteq> [] \<and> length c \<le> 2 ^ 30"
  shows "encode_stream m fl cs =
    Some (lines_text (flag fl EVP_ENCODE_CTX_USE_SRP_ALPHABET) (\<not> flag fl EVP_ENCODE_CTX_NO_NEWLINES) (concat cs))"
proof -
  let ?c = "evp_encode_ctx_set_flags (EVP_EncodeInit zeroed_ctx) fl"
  have "holds ?c []"
    by (simp add: holds_def evp_encode_ctx_set_flags_def EVP_EncodeInit_def zeroed_ctx_def)
  from encode_chunks_text [OF this assms, where m = m] show ?thesis
    by (simp add: encode_stream_def uses_srp_def newlines_def evp_encode_ctx_set_flags_def)
qed

end
