(* ===== verification/Base64_Dec.thy ===== *)
theory Base64_Dec
  imports Base64_Enc
begin

section \<open>The streaming decoder\<close>

text \<open>
  The text may be split anywhere and may have white space anywhere.  The decoder flushes its buffer after 64
  characters and at the end of a call that leaves whole groups; at every moment it has written the bytes of the
  first groups and holds the characters after them, and \<open>eof\<close> counts the pads among those read.
\<close>

subsection \<open>The encoded text by position\<close>

text \<open>How many pads end the encoding, and how many of them are among its first \<open>p\<close> characters.\<close>

definition pads :: "byte list \<Rightarrow> nat" where
  "pads bs = 3 * ((length bs + 2) div 3) - length bs"

definition pads_in :: "byte list \<Rightarrow> nat \<Rightarrow> nat" where
  "pads_in bs p = p - (4 * ((length bs + 2) div 3) - pads bs)"

lemma pads_le: "pads bs \<le> 2"
  unfolding pads_def by presburger

lemma pads_drop:
  assumes "3 * m \<le> length bs"
  shows "pads (drop (3 * m) bs) = pads bs"
proof -
  obtain k where k: "length bs = 3 * m + k" using assms le_Suc_ex by blast
  have "(3 * m + k + 2) div 3 = m + (k + 2) div 3" by simp
  then show ?thesis unfolding pads_def length_drop k by simp
qed

lemma below_4: "i < 4 \<Longrightarrow> i = 0 \<or> i = 1 \<or> i = 2 \<or> i = 3" for i :: nat
  by presburger

lemma encoded_pad:
  "i < length (encode_groups (encode_table srp) bs) \<Longrightarrow>
    encode_groups (encode_table srp) bs ! i = PAD \<longleftrightarrow> 4 * ((length bs + 2) div 3) - pads bs \<le> i"
proof (induction "encode_table srp" bs arbitrary: i rule: encode_groups.induct)
  case (2 a)
  have p: "4 * ((length [a] + 2) div 3) - pads [a] = 2" by (simp add: pads_def)
  have "i < 4" using 2 by (simp add: Let_def)
  with below_4 [OF this] show ?case unfolding p by (auto simp: Let_def conv_back)
next
  case (3 a b)
  have p: "4 * ((length [a, b] + 2) div 3) - pads [a, b] = 3" by (simp add: pads_def)
  have "i < 4" using 3 by (simp add: Let_def)
  with below_4 [OF this] show ?case unfolding p by (auto simp: Let_def conv_back)
next
  case (4 a b c f)
  show ?case
  proof (cases "i < 4")
    case True
    have "4 \<le> 4 * ((length (a # b # c # f) + 2) div 3) - pads (a # b # c # f)"
      unfolding pads_def by (simp add: groups_step)
    with below_4 [OF True] show ?thesis by (auto simp: Let_def conv_back)
  next
    case False
    then obtain k where i: "i = 4 + k" by (metis le_Suc_ex not_less)
    have "4 * ((length (a # b # c # f) + 2) div 3) - pads (a # b # c # f) = 4 + (4 * ((length f + 2) div 3) - pads f)"
      unfolding pads_def by (simp add: groups_step)
    with 4(1) [OF refl, of k] 4(2) show ?thesis by (simp add: Let_def i)
  qed
qed simp

abbreviation whole_text :: "bool \<Rightarrow> byte list \<Rightarrow> byte list" where
  "whole_text srp bs \<equiv> encode_groups (encode_table srp) bs"

lemma mult_4_div: "p mod 4 = 0 \<Longrightarrow> 4 * (p div 4) = p" for p :: nat
  by (metis add_0_right mult_div_mod_eq)

text \<open>The groups \<open>m\<close> to \<open>p div 4\<close>.\<close>

lemma pending_groups:
  assumes "p mod 4 = 0"
  shows "drop (4 * m) (take p (whole_text srp bs)) =
    whole_text srp (drop (3 * m) (take (3 * (p div 4)) bs))"
proof -
  have "take p (whole_text srp bs) = whole_text srp (take (3 * (p div 4)) bs)"
    by (metis take_encode_groups mult_4_div [OF assms])
  then show ?thesis by (simp only: drop_encode_groups)
qed

lemma pending_pads:
  assumes "p mod 4 = 0" and "4 * m < p" and "p \<le> length (whole_text srp bs)"
  shows "pads (drop (3 * m) (take (3 * (p div 4)) bs)) = pads_in bs p"
    and "3 * m \<le> length bs"
proof -
  define g where "g = (length bs + 2) div 3"
  define k where "k = p div 4"
  have p: "p = 4 * k" using mult_4_div [OF assms(1)] by (simp add: k_def)
  have le: "k \<le> g" "m < k" using assms(2,3) by (simp_all add: p length_encode_groups g_def)
  have g: "length bs \<le> 3 * g" "3 * g \<le> length bs + 2" unfolding g_def by (simp_all add: mult.commute)
  show m: "3 * m \<le> length bs" using le g by linarith
  show "pads (drop (3 * m) (take (3 * (p div 4)) bs)) = pads_in bs p"
  proof (cases "k = g")
    case True
    have "pads bs \<le> 4 * g" using pads_le [of bs] le by linarith
    with True show ?thesis
      unfolding pads_in_def g_def [symmetric] using g(1) m by (simp add: p pads_drop)
  next
    case False
    then have k3: "3 * k \<le> length bs" and k4: "4 * k + 4 \<le> 4 * g" using le g by linarith+
    have "3 * m \<le> length (take (3 * k) bs)" using k3 le by simp
    then have "pads (drop (3 * m) (take (3 * k) bs)) = pads (take (3 * k) bs)" by (rule pads_drop)
    also have "\<dots> = 0" using k3 by (simp add: pads_def min_absorb2)
    finally show ?thesis
      using k4 pads_le [of bs] unfolding pads_in_def g_def [symmetric] by (simp add: p)
  qed
qed

subsection \<open>The loop\<close>

text \<open>\<open>m0\<close> groups were written before this call and \<open>m\<close> so far; \<open>p\<close> characters have been read.\<close>

definition decoding :: "bool \<Rightarrow> byte list \<Rightarrow> nat \<Rightarrow> nat \<Rightarrow> nat \<Rightarrow> dec_state \<Rightarrow> bool" where
  "decoding srp bs m0 m p s \<longleftrightarrow>
     m0 \<le> m \<and> 4 * m \<le> p \<and> p \<le> length (whole_text srp bs) \<and> dn s = p - 4 * m \<and> dn s \<le> 64 \<and> length (dd s) = 80 \<and>
     take (dn s) (dd s) = drop (4 * m) (take p (whole_text srp bs)) \<and>
     fetch (dmem s) (dout s) = drop (3 * m0) (take (3 * m) bs) \<and> dret s = int (dout s) \<and> eof s \<le> 2 \<and>
     (p < length (whole_text srp bs) \<or> 0 < dn s \<longrightarrow> eof s = int (pads_in bs p))"

lemma fetch_store_append:
  assumes "length x \<le> length t" and "take (length x) t = x"
  shows "fetch (put_mem d t m) (d + length x) = fetch m d @ x"
proof (rule nth_equalityI)
  fix i assume "i < length (fetch (put_mem d t m) (d + length x))"
  then have i: "i < d + length x" by (simp add: fetch_def)
  then have "d \<le> i \<Longrightarrow> t ! (i - d) = x ! (i - d)" using assms(2) nth_take [of "i - d" "length x" t] by simp
  with i assms(1) show "fetch (put_mem d t m) (d + length x) ! i = (fetch m d @ x) ! i"
    by (auto simp: fetch_def put_mem_def nth_append)
qed (simp add: fetch_def)

lemma flush_correct:
  assumes d: "decoding srp bs m0 m p s" and "0 < dn s" and "dn s mod 4 = 0"
  shows "\<exists>s'. decode_flush srp s = (True, s') \<and> decoding srp bs m0 (p div 4) p s' \<and> dn s' = 0 \<and> eof s' = eof s"
proof -
  define x where "x = drop (3 * m) (take (3 * (p div 4)) bs)"
  have p: "p mod 4 = 0" "4 * m < p" "p \<le> length (whole_text srp bs)"
    using assms unfolding decoding_def by (auto, presburger)
  have lx: "length x \<le> length (pad3 x)" by (metis take_pad3 length_take min.cobounded1 nat_le_linear take_all)
  have x: "take (dn s) (dd s) = whole_text srp x"
    using d unfolding decoding_def x_def pending_groups [OF p(1), symmetric] by blast
  have eof: "eof s = int (pads x)" "int (length (pad3 x)) - eof s = int (length x)"
  proof -
    have "eof s = int (pads_in bs p)" using d assms(2) unfolding decoding_def by blast
    moreover have "pads x = pads_in bs p" unfolding x_def by (rule pending_pads(1) [OF p])
    moreover have "pads x = length (pad3 x) - length x" by (simp only: pads_def length_pad3)
    ultimately show "eof s = int (pads x)" "int (length (pad3 x)) - eof s = int (length x)" using lx by simp_all
  qed
  define s' where "s' = s\<lparr>dn := 0, dmem := put_mem (dout s) (pad3 x) (dmem s),
      dret := dret s + int (length x), dout := dout s + length x\<rparr>"
  have "decode_flush srp s = (True, s')"
    using eof by (simp add: decode_flush_def x decodeblock_encoded s'_def)
  moreover have "decoding srp bs m0 (p div 4) p s'"
  proof -
    have "m \<le> p div 4" using p(1,2) by presburger
    then have "take (3 * (p div 4)) bs = take (3 * m) bs @ x"
      unfolding x_def by (metis (no_types) append_take_drop_id min_absorb1 mult_le_mono2 take_take)
    moreover have "3 * m0 \<le> length (take (3 * m) bs)" using d pending_pads(2) [OF p] by (simp add: decoding_def)
    ultimately have "fetch (dmem s') (dout s') = drop (3 * m0) (take (3 * (p div 4)) bs)"
      using fetch_store_append [OF lx take_pad3, of "dout s" "dmem s"] d by (simp add: s'_def decoding_def)
    moreover note mult_4_div [OF p(1)]
    ultimately show ?thesis using d assms(2) p \<open>m \<le> p div 4\<close> by (simp add: decoding_def s'_def)
  qed
  ultimately show ?thesis by (intro exI [of _ s']) (simp add: s'_def)
qed

text \<open>White space and line ends, which the decoder skips.\<close>

definition ignorable :: "bool \<Rightarrow> byte \<Rightarrow> bool" where
  "ignorable srp c \<longleftrightarrow> conv_ascii2bin c (decode_table srp) \<in> {B64_WS, B64_EOLN, B64_CR}"

lemma ignorable_values:
  assumes "ignorable srp c"
  shows "\<not> b64 srp c" "B64_NOT_BASE64 (conv_ascii2bin c (decode_table srp))" "c \<noteq> PAD"
    "conv_ascii2bin c (decode_table srp) \<notin> {B64_ERROR, B64_EOF}"
proof -
  show n: "B64_NOT_BASE64 (conv_ascii2bin c (decode_table srp))"
    and "conv_ascii2bin c (decode_table srp) \<notin> {B64_ERROR, B64_EOF}"
    using assms by (auto simp: ignorable_def B64_NOT_BASE64_def)
  then show "\<not> b64 srp c" by (simp add: b64_def)
  then show "c \<noteq> PAD" using b64_pad by blast
qed

lemma b64_values:
  assumes "b64 srp c"
  shows "conv_ascii2bin c (decode_table srp) \<notin> {B64_ERROR, B64_EOF}"
  using assms by (auto simp: b64_def B64_NOT_BASE64_def flag_def)

text \<open>Reading the next character of the text.\<close>

definition put_char :: "byte \<Rightarrow> dec_state \<Rightarrow> dec_state" where
  "put_char c s = (let s = (if c = PAD then s\<lparr>eof := eof s + 1\<rparr> else s) in s\<lparr>dd := (dd s)[dn s := c], dn := dn s + 1\<rparr>)"

lemma put_char_correct:
  assumes d: "decoding srp bs m0 m p s" and "dn s < 64" and p: "p < length (whole_text srp bs)"
    and c: "c = whole_text srp bs ! p"
  shows "decoding srp bs m0 m (Suc p) (put_char c s)" and "eof (put_char c s) \<le> 2" and "c \<noteq> PAD \<Longrightarrow> eof s \<le> 0"
proof -
  have eof: "eof s = int (pads_in bs p)" using d p by (simp add: decoding_def)
  note pad = encoded_pad [OF p, folded c] pads_le [of bs]
  have L: "length (whole_text srp bs) = 4 * ((length bs + 2) div 3)" by (simp add: length_encode_groups)
  show "c \<noteq> PAD \<Longrightarrow> eof s \<le> 0" using pad(1) by (simp add: eof pads_in_def)
  have eof': "eof (put_char c s) = int (pads_in bs (Suc p))"
    using pad(1) by (auto simp: put_char_def Let_def eof pads_in_def)
  moreover show le: "eof (put_char c s) \<le> 2"
    using eof' p pads_le [of bs] unfolding L pads_in_def by linarith
  moreover have "take (Suc (dn s)) ((dd s)[dn s := c]) = drop (4 * m) (take (Suc p) (whole_text srp bs))"
  proof -
    have n: "dn s = p - 4 * m" "4 * m \<le> p" "dn s < length (dd s)"
      "take (dn s) (dd s) = drop (4 * m) (take p (whole_text srp bs))"
      using d assms(2) by (auto simp: decoding_def)
    have "take (Suc (dn s)) ((dd s)[dn s := c]) = take (dn s) (dd s) @ [c]"
      using n(3) by (simp add: take_Suc_conv_app_nth)
    also have "\<dots> = drop (4 * m) (take (Suc p) (whole_text srp bs))"
      unfolding n(4) using n(2) p by (simp add: take_Suc_conv_app_nth c)
    finally show ?thesis .
  qed
  ultimately show "decoding srp bs m0 m (Suc p) (put_char c s)"
    using d assms(2) p by (auto simp: decoding_def put_char_def Let_def)
qed

lemma decode_loop_b64:
  assumes "b64 srp c" and "dn s < 64" and "c \<noteq> PAD \<Longrightarrow> eof s \<le> 0" and "eof (put_char c s) \<le> 2"
  shows "decode_loop srp (c # inp) s =
    (if dn s + 1 = 64 then
       let (ok, s) = decode_flush srp (put_char c s) in if ok then decode_loop srp inp s else (Dec_error, s)
     else decode_loop srp inp (put_char c s))"
  using assms(2-4) b64_values [OF assms(1)] assms(1)
  by (cases "c = PAD") (simp_all add: b64_def put_char_def Let_def)

lemma decode_loop_ignorable:
  assumes "ignorable srp c" and "dn s < 64" and "eof s \<le> 2"
  shows "decode_loop srp (c # inp) s = decode_loop srp inp s"
  using assms ignorable_values [OF assms(1)] by (simp add: Let_def)

lemma decode_loop_correct:
  assumes "decoding srp bs m0 m p s" and "dn s < 64"
    and "\<And>c. c \<in> set inp \<Longrightarrow> b64 srp c \<or> ignorable srp c"
    and "filter (b64 srp) inp = take k (drop p (whole_text srp bs))" and "p + k \<le> length (whole_text srp bs)"
  shows "\<exists>m' s'. decode_loop srp inp s = (Dec_all, s') \<and> decoding srp bs m0 m' (p + k) s' \<and> dn s' < 64"
  using assms
proof (induction inp arbitrary: m p s k)
  case Nil
  then have "k = 0" by (cases k) (auto simp: drop_eq_Nil)
  with Nil show ?case by auto
next
  case (Cons c inp)
  show ?case
  proof (cases "ignorable srp c")
    case True
    then have "decode_loop srp (c # inp) s = decode_loop srp inp s"
      using Cons(2,3) by (intro decode_loop_ignorable) (auto simp: decoding_def)
    moreover have "filter (b64 srp) inp = take k (drop p (whole_text srp bs))"
      using Cons(5) ignorable_values(1) [OF True] by simp
    ultimately show ?thesis using Cons(1) [OF Cons(2,3) Cons(4)] Cons(6) by simp
  next
    case False
    then have b: "b64 srp c" using Cons(4) by auto
    then have "take k (drop p (whole_text srp bs)) = c # filter (b64 srp) inp" using Cons(5) by simp
    then obtain j where k: "k = Suc j" and p: "p < length (whole_text srp bs)" and c: "c = whole_text srp bs ! p"
      and rest: "filter (b64 srp) inp = take j (drop (Suc p) (whole_text srp bs))"
      by (cases k; cases "p < length (whole_text srp bs)") (auto simp: Cons_nth_drop_Suc [symmetric])
    note put = put_char_correct [OF Cons(2,3) p c]
    note step = decode_loop_b64 [OF b Cons(3) put(3,2), of inp]
    have n: "dn (put_char c s) = dn s + 1" by (simp add: put_char_def Let_def)
    have IH: "\<exists>m' s'. decode_loop srp inp t = (Dec_all, s') \<and> decoding srp bs m0 m' (p + k) s' \<and> dn s' < 64"
      if "decoding srp bs m0 m2 (Suc p) t" "dn t < 64" for m2 t
      using Cons(1) [OF that Cons(4) rest] Cons(6) by (simp add: k)
    show ?thesis
    proof (cases "dn s + 1 = 64")
      case True
      then obtain t where "decode_flush srp (put_char c s) = (True, t)" "decoding srp bs m0 (Suc p div 4) (Suc p) t" "dn t = 0"
        using flush_correct [OF put(1)] n by auto
      with step True IH [of "Suc p div 4" t] show ?thesis by simp
    next
      case False
      with step IH [OF put(1)] n Cons(3) show ?thesis by simp
    qed
  qed
qed

subsection \<open>One call\<close>

lemma tail_correct:
  assumes d: "decoding srp bs m0 m p s" and n: "dn s < 64"
  shows "\<exists>rv m' s'. decode_tail srp False s = (rv, s') \<and> 0 \<le> rv \<and> decoding srp bs m0 m' p s' \<and>
    dn s' < 64 \<and> (dn s' mod 4 = 0 \<longrightarrow> dn s' = 0)"
proof (cases "0 < dn s \<and> dn s mod 4 = 0")
  case True
  then obtain t where "decode_flush srp s = (True, t)" "decoding srp bs m0 (p div 4) p t" "dn t = 0"
    using flush_correct [OF d] by auto
  with True show ?thesis by (auto simp: decode_tail_def intro!: exI [of _ "p div 4"])
next
  case False
  then have "decode_tail srp False s = (if dn s = 0 \<and> eof s \<noteq> 0 then 0 else 1, s)"
    by (auto simp: decode_tail_def)
  with d n False show ?thesis by (auto intro!: exI [of _ m])
qed

text \<open>A context between two calls, with \<open>m\<close> groups written and \<open>p\<close> characters read.\<close>

definition decode_holds :: "encode_ctx \<Rightarrow> byte list \<Rightarrow> nat \<Rightarrow> nat \<Rightarrow> bool" where
  "decode_holds ctx bs m p \<longleftrightarrow>
     4 * m \<le> p \<and> p \<le> length (whole_text (uses_srp ctx) bs) \<and> ec_num ctx = int (p - 4 * m) \<and> p - 4 * m < 64 \<and>
     length (enc_data ctx) = 80 \<and>
     take (p - 4 * m) (enc_data ctx) = drop (4 * m) (take p (whole_text (uses_srp ctx) bs)) \<and>
     ((p - 4 * m) mod 4 = 0 \<longrightarrow> p = 4 * m)"

lemma initial_eof_correct:
  assumes h: "decode_holds ctx bs m p" and "0 < p - 4 * m"
  shows "initial_eof (p - 4 * m) (enc_data ctx) = int (pads_in bs p)"
proof -
  define n where "n = p - 4 * m"
  define L where "L = 4 * ((length bs + 2) div 3)"
  have p: "p \<le> L" "4 * m < p" "0 < n" "n < 64" using h assms(2)
    by (simp_all add: decode_holds_def L_def length_encode_groups n_def)
  have char: "enc_data ctx ! (n - j) = PAD \<longleftrightarrow> L - pads bs \<le> p - j" if "0 < j" "j \<le> n" for j
  proof -
    have t: "take n (enc_data ctx) = drop (4 * m) (take p (whole_text (uses_srp ctx) bs))"
      using h by (simp add: decode_holds_def n_def)
    have "enc_data ctx ! (n - j) = take n (enc_data ctx) ! (n - j)" using that by simp
    also have "\<dots> = whole_text (uses_srp ctx) bs ! (p - j)"
      unfolding t using that p by (simp add: n_def length_encode_groups L_def)
    finally have "enc_data ctx ! (n - j) = whole_text (uses_srp ctx) bs ! (p - j)" .
    moreover have "p - j < length (whole_text (uses_srp ctx) bs)" using that p by (simp add: length_encode_groups L_def)
    ultimately show ?thesis using encoded_pad [of "p - j" "uses_srp ctx" bs] by (simp add: L_def)
  qed
  have "4 * m < 4 * ((length bs + 2) div 3)" using p(1,2) unfolding L_def by (rule less_le_trans [rotated])
  then have "4 * m + 4 \<le> L" unfolding L_def by simp
  then have two: "1 < n" if "L - pads bs \<le> p - 1" "p \<noteq> Suc (L - pads bs)"
    using that p(1,2) pads_le [of bs] unfolding n_def by linarith
  have "initial_eof n (enc_data ctx) =
      (if L - pads bs \<le> p - 1 then if 1 < n \<and> L - pads bs \<le> p - 2 then 2 else 1 else 0)"
  proof -
    have "enc_data ctx ! (n - 2) = PAD \<longleftrightarrow> L - pads bs \<le> p - 2" if "1 < n" using char [of 2] that by simp
    moreover have "enc_data ctx ! (n - 1) = PAD \<longleftrightarrow> L - pads bs \<le> p - 1" using char [of 1] p(3) by simp
    ultimately show ?thesis using p(3) unfolding initial_eof_def by presburger
  qed
  also have "\<dots> = int (p - (L - pads bs))"
  proof -
    define a where "a = L - pads bs"
    have a: "0 < a" "p \<le> a + 2" using \<open>4 * m + 4 \<le> L\<close> pads_le [of bs] p(1) by (simp_all add: a_def)
    then consider "p \<le> a" | "p = a + 1" | "p = a + 2" by linarith
    then show ?thesis unfolding a_def [symmetric] using two [folded a_def] a(1) by cases auto
  qed
  finally show ?thesis by (simp add: n_def pads_in_def L_def)
qed

lemma pads_in_start:
  assumes "4 * m < length (whole_text srp bs)"
  shows "pads_in bs (4 * m) = 0"
proof -
  have "4 * m + 4 \<le> 4 * ((length bs + 2) div 3)" using assms by (simp add: length_encode_groups)
  then show ?thesis using pads_le [of bs] by (simp add: pads_in_def)
qed

lemma decode_update_correct:
  assumes h: "decode_holds ctx bs m p"
    and "\<And>c. c \<in> set inp \<Longrightarrow> b64 (uses_srp ctx) c \<or> ignorable (uses_srp ctx) c"
    and "filter (b64 (uses_srp ctx)) inp = take k (drop p (whole_text (uses_srp ctx) bs))"
    and k: "p + k \<le> length (whole_text (uses_srp ctx) bs)"
  shows "\<exists>rv outl ctx' m' mem'. EVP_DecodeUpdate ctx mem inp (int (length inp)) = ((rv, int outl), ctx', mem') \<and> 0 \<le> rv \<and>
    m \<le> m' \<and> fetch mem' outl = drop (3 * m) (take (3 * m') bs) \<and>
    decode_holds ctx' bs m' (p + k) \<and> ec_flags ctx' = ec_flags ctx"
proof -
  define srp where "srp = uses_srp ctx"
  define s0 where "s0 = \<lparr>dn = nat (ec_num ctx), dd = enc_data ctx, eof = initial_eof (nat (ec_num ctx)) (enc_data ctx),
               dret = 0, dout = 0, dmem = mem\<rparr>"
  have n: "nat (ec_num ctx) = p - 4 * m" using h by (simp add: decode_holds_def)
  have s0: "decoding srp bs m m p s0"
  proof -
    have "initial_eof (p - 4 * m) (enc_data ctx) \<le> 2" by (simp add: initial_eof_def)
    moreover have "p < length (whole_text srp bs) \<or> 0 < p - 4 * m \<Longrightarrow>
        initial_eof (p - 4 * m) (enc_data ctx) = int (pads_in bs p)"
      using initial_eof_correct [OF h] pads_in_start [of m srp bs] h
      by (cases "p = 4 * m") (simp_all add: initial_eof_def decode_holds_def)
    ultimately show ?thesis
      using h unfolding decoding_def s0_def dec_state.simps n by (simp add: decode_holds_def srp_def fetch_def)
  qed
  have n0: "dn s0 < 64" "dn s0 mod 4 = 0 \<longrightarrow> dn s0 = 0" using h n by (auto simp: s0_def decode_holds_def)
  define res where "res = (if int (length inp) = 0 then (0, s0)
       else case decode_loop srp (take (nat (int (length inp))) inp) s0 of
              (Dec_error, s) \<Rightarrow> (- 1, s)
            | (Dec_seof, s) \<Rightarrow> decode_tail srp True s
            | (Dec_all, s) \<Rightarrow> decode_tail srp False s)"
  have "\<exists>rv m' s'. res = (rv, s') \<and> 0 \<le> rv \<and> decoding srp bs m m' (p + k) s' \<and>
      dn s' < 64 \<and> (dn s' mod 4 = 0 \<longrightarrow> dn s' = 0)"
  proof (cases "inp = []")
    case True
    then have "k = 0" using assms(3) k by (cases k) (auto simp: drop_eq_Nil)
    with True s0 n0 show ?thesis by (auto simp: res_def)
  next
    case False
    obtain m1 s1 where "decode_loop srp inp s0 = (Dec_all, s1)" "decoding srp bs m m1 (p + k) s1" "dn s1 < 64"
      using decode_loop_correct [OF s0 n0(1)] assms(2,3) k unfolding srp_def by blast
    with False tail_correct [of srp bs m m1 "p + k" s1] show ?thesis by (simp add: res_def)
  qed
  then obtain rv m' s' where res: "res = (rv, s')" and "0 \<le> rv" and d: "decoding srp bs m m' (p + k) s'"
    and n': "dn s' < 64" "dn s' mod 4 = 0 \<longrightarrow> dn s' = 0"
    by (elim exE conjE) (rule that)
  define ctx' where "ctx' = ctx\<lparr>ec_num := int (dn s'), enc_data := dd s'\<rparr>"
  have "EVP_DecodeUpdate ctx mem inp (int (length inp)) = ((rv, int (dout s')), ctx', dmem s')"
    using d res unfolding EVP_DecodeUpdate_def Let_def s0_def [symmetric] srp_def [symmetric] res_def [symmetric]
    by (simp add: ctx'_def decoding_def)
  moreover have fl: "ec_flags ctx' = ec_flags ctx" by (simp add: ctx'_def)
  moreover have "decode_holds ctx' bs m' (p + k)"
  proof -
    have u: "uses_srp ctx' = srp" using fl by (simp add: uses_srp_def srp_def)
    have e: "ec_num ctx' = int (dn s')" "enc_data ctx' = dd s'" by (simp_all add: ctx'_def)
    from d have f: "dn s' = p + k - 4 * m'" "4 * m' \<le> p + k" "p + k \<le> length (whole_text srp bs)"
      "length (dd s') = 80" "take (dn s') (dd s') = drop (4 * m') (take (p + k) (whole_text srp bs))"
      unfolding decoding_def by blast+
    have "p + k = 4 * m'" if "dn s' mod 4 = 0"
      using mp [OF n'(2) that] f(1,2) by linarith
    with f(2-) n'(1) show ?thesis unfolding decode_holds_def u e f(1) [symmetric] by (intro conjI impI refl)
  qed
  moreover have "fetch (dmem s') (dout s') = drop (3 * m) (take (3 * m') bs)" "m \<le> m'"
    using d by (simp_all add: decoding_def)
  ultimately show ?thesis using \<open>0 \<le> rv\<close> by blast
qed

subsection \<open>A whole stream\<close>

text \<open>The caller of the decoder, which gives up when a call returns an error.\<close>

fun decode_chunks :: "mem \<Rightarrow> encode_ctx \<Rightarrow> byte list list \<Rightarrow> byte list option" where
  "decode_chunks m ctx [] =
     (let ((ret, outl), ctx', m') = EVP_DecodeFinal ctx m in if ret < 0 then None else Some (fetch m' (nat outl)))"
| "decode_chunks m ctx (c # cs) =
     (let ((rv, outl), ctx', m') = EVP_DecodeUpdate ctx m c (int (length c))
      in if rv < 0 then None else map_option ((@) (fetch m' (nat outl))) (decode_chunks m ctx' cs))"

definition decode_stream :: "mem \<Rightarrow> u32 \<Rightarrow> byte list list \<Rightarrow> byte list option" where
  "decode_stream m fl cs = decode_chunks m (evp_encode_ctx_set_flags (EVP_DecodeInit zeroed_ctx) fl) cs"

lemma drop_take_append: "a \<le> b \<Longrightarrow> drop a (take b xs) @ drop b xs = drop a xs"
  by (metis append_take_drop_id drop_drop drop_take le_add_diff_inverse2)

lemma decode_chunks_correct:
  assumes "decode_holds ctx bs m p"
    and "\<And>c. c \<in> set (concat cs) \<Longrightarrow> b64 (uses_srp ctx) c \<or> ignorable (uses_srp ctx) c"
    and "filter (b64 (uses_srp ctx)) (concat cs) = drop p (whole_text (uses_srp ctx) bs)"
  shows "decode_chunks mem ctx cs = Some (drop (3 * m) bs)"
  using assms
proof (induction cs arbitrary: ctx m p)
  case Nil
  have p: "p = 4 * ((length bs + 2) div 3)" and h: "4 * m \<le> p" "(p - 4 * m) mod 4 = 0 \<longrightarrow> p = 4 * m" "ec_num ctx = int (p - 4 * m)"
    using Nil(1,3) by (auto simp: decode_holds_def length_encode_groups)
  have "(p - 4 * m) mod 4 = 0" unfolding p by (simp flip: diff_mult_distrib2)
  with h(2) have "p = 4 * m" by blast
  then have "ec_num ctx = 0" "length bs \<le> 3 * m" using h(3) p by auto
  then show ?case by (simp add: EVP_DecodeFinal_def fetch_def)
next
  case (Cons c cs)
  define srp where "srp = uses_srp ctx"
  define k where "k = length (filter (b64 srp) c)"
  have all: "filter (b64 srp) c @ filter (b64 srp) (concat cs) = drop p (whole_text srp bs)"
    using Cons(4) by (simp add: srp_def)
  then have "filter (b64 srp) c = take k (drop p (whole_text srp bs))"
    "filter (b64 srp) (concat cs) = drop (p + k) (whole_text srp bs)"
    by (metis k_def append_eq_conv_conj, metis k_def append_eq_conv_conj add.commute drop_drop)
  note parts = this
  have "p \<le> length (whole_text srp bs)" using Cons(2) unfolding decode_holds_def srp_def by (elim conjE)
  moreover have "k \<le> length (drop p (whole_text srp bs))" unfolding k_def all [symmetric] by simp
  ultimately have le: "p + k \<le> length (whole_text srp bs)" by simp
  obtain rv outl ctx' m' mem' where up: "EVP_DecodeUpdate ctx mem c (int (length c)) = ((rv, int outl), ctx', mem')" "0 \<le> rv"
    and m: "m \<le> m'" and out: "fetch mem' outl = drop (3 * m) (take (3 * m') bs)"
    and h: "decode_holds ctx' bs m' (p + k)" and fl: "ec_flags ctx' = ec_flags ctx"
    using decode_update_correct [OF Cons(2), of c k mem] Cons(3) parts(1) le unfolding srp_def by auto
  have "decode_chunks mem ctx' cs = Some (drop (3 * m') bs)"
    using Cons(1) [OF h] Cons(3) parts(2) fl by (simp add: uses_srp_def srp_def)
  with up out m drop_take_append [of "3 * m" "3 * m'" bs] show ?case by simp
qed

lemma decode_stream_correct:
  fixes fl :: u32
  defines "srp \<equiv> flag fl EVP_ENCODE_CTX_USE_SRP_ALPHABET"
  assumes "\<And>c. c \<in> set (concat cs) \<Longrightarrow> b64 srp c \<or> ignorable srp c"
    and "filter (b64 srp) (concat cs) = whole_text srp bs"
  shows "decode_stream m fl cs = Some bs"
proof -
  let ?c = "evp_encode_ctx_set_flags (EVP_DecodeInit zeroed_ctx) fl"
  have u: "uses_srp ?c = srp" by (simp add: uses_srp_def evp_encode_ctx_set_flags_def srp_def)
  have "decode_holds ?c bs 0 0"
    by (simp add: decode_holds_def evp_encode_ctx_set_flags_def EVP_DecodeInit_def zeroed_ctx_def)
  from decode_chunks_correct [OF this, of cs m] assms(2,3) show ?thesis by (simp add: u decode_stream_def)
qed

end
