(* ===== verification/Base64_Stream.thy ===== *)
theory Base64_Stream
  imports Base64_Dec
begin

unbundle bit_operations_syntax

section \<open>The contract of the base64 streams\<close>

text \<open>
  The text of the encoder is that of RFC 4648, stated over bits; the decoder gives back the bytes however the text is
  split; and whatever input it is fed, it stays within its own buffer and within the caller's.
\<close>

subsection \<open>RFC 4648\<close>

text \<open>The bits of a byte, most significant first; the numbers that groups of six bits stand for; the text, filled up with
  pads to a multiple of four.\<close>

definition bits_of_byte :: "byte \<Rightarrow> bool list" where
  "bits_of_byte a = rev (map (bit a) [0..<8])"

fun sextets_of :: "bool list \<Rightarrow> nat list" where
  "sextets_of [] = []"
| "sextets_of [a] = [horner_sum of_bool 2 [False, False, False, False, False, a]]"
| "sextets_of [a, b] = [horner_sum of_bool 2 [False, False, False, False, b, a]]"
| "sextets_of [a, b, c] = [horner_sum of_bool 2 [False, False, False, c, b, a]]"
| "sextets_of [a, b, c, d] = [horner_sum of_bool 2 [False, False, d, c, b, a]]"
| "sextets_of [a, b, c, d, e] = [horner_sum of_bool 2 [False, e, d, c, b, a]]"
| "sextets_of (a # b # c # d # e # f # bs) = horner_sum of_bool 2 [f, e, d, c, b, a] # sextets_of bs"

definition rfc4648 :: "byte list \<Rightarrow> byte list \<Rightarrow> byte list" where
  "rfc4648 alphabet bs =
     (let cs = map ((!) alphabet) (sextets_of (concat (map bits_of_byte bs)))
      in cs @ replicate ((4 - length cs mod 4) mod 4) PAD)"

fun lines48 :: "byte list \<Rightarrow> byte list list" where
  "lines48 bs = (if bs = [] then [] else take 48 bs # lines48 (drop 48 bs))"

declare lines48.simps [simp del]

lemma lines48_Nil [simp]: "lines48 [] = []"
  by (simp add: lines48.simps)

lemma index_bits: "unat (x AND 0x3f) = horner_sum of_bool 2 (map (bit x) [0, 1, 2, 3, 4, 5])" for x :: u64
proof -
  have m: "(0x3f :: u64) = mask 6" by (simp add: mask_eq_exp_minus_1)
  have "unat (x AND 0x3f) = take_bit 6 (unat x)"
    unfolding m by (simp add: unsigned_take_bit_eq flip: take_bit_eq_mask)
  also have "\<dots> = horner_sum of_bool 2 (map (bit (unat x)) [0..<6])"
    by (simp add: horner_sum_bit_eq_take_bit)
  also have "[0..<6] = [0, 1, 2, 3, 4, 5]" by (simp add: upt_conv_Cons)
  finally show ?thesis by (simp add: bit_unsigned_iff del: horner_sum_simps)
qed

lemma bits_explicit: "bits_of_byte a = [bit a 7, bit a 6, bit a 5, bit a 4, bit a 3, bit a 2, bit a 1, bit a 0]"
  by (simp add: bits_of_byte_def upt_conv_Cons eval_nat_numeral)

lemma group_bits:
  "bit (group_word a b c) n \<longleftrightarrow> n < 24 \<and> (if n < 8 then bit c n else if n < 16 then bit b (n - 8) else bit a (n - 16))"
proof -
  have up: "bit (w :: byte) k \<Longrightarrow> k < 8" for w k using bit_imp_le_length by force
  show ?thesis by (auto simp: group_word_def bit_simps dest: up)
qed

lemma group_chars:
  "conv_bin2ascii (drop_bit 18 (group_word a b c)) tab = tab ! horner_sum of_bool 2 [bit a 2, bit a 3, bit a 4, bit a 5, bit a 6, bit a 7]"
  "conv_bin2ascii (drop_bit 12 (group_word a b c)) tab = tab ! horner_sum of_bool 2 [bit b 4, bit b 5, bit b 6, bit b 7, bit a 0, bit a 1]"
  "conv_bin2ascii (drop_bit 6 (group_word a b c)) tab = tab ! horner_sum of_bool 2 [bit c 6, bit c 7, bit b 0, bit b 1, bit b 2, bit b 3]"
  "conv_bin2ascii (group_word a b c) tab = tab ! horner_sum of_bool 2 [bit c 0, bit c 1, bit c 2, bit c 3, bit c 4, bit c 5]"
  unfolding conv_bin2ascii_def index_bits list.map by (simp_all add: bit_drop_bit_eq group_bits del: horner_sum_simps)

lemma encode_groups_rfc4648: "encode_groups tab bs = rfc4648 tab bs"
proof (induction tab bs rule: encode_groups.induct)
  case (1 tab)
  show ?case by (simp add: rfc4648_def)
next
  case (2 tab a)
  show ?case unfolding encode_groups.simps Let_def group_word_short(1) group_chars
    by (simp add: rfc4648_def bits_explicit numeral_2_eq_2 del: horner_sum_simps bit_0)
next
  case (3 tab a b)
  show ?case unfolding encode_groups.simps Let_def group_word_short(2) group_chars
    by (simp add: rfc4648_def bits_explicit del: horner_sum_simps bit_0)
next
  case (4 tab a b c f)
  show ?case unfolding encode_groups.simps Let_def group_word_short(3) group_chars 4 [OF refl]
    by (simp add: rfc4648_def bits_explicit del: horner_sum_simps bit_0)
qed

lemma lines_text_rfc4648:
  "lines_text srp nl bs =
    concat (map (\<lambda>l. rfc4648 (encode_table srp) l @ (if nl then [NL] else [])) (lines48 bs))"
proof (induction bs rule: lines48.induct)
  case (1 bs)
  then show ?case
    by (cases "bs = []") (simp_all add: lines48.simps [of bs] lines_text.simps [of _ _ bs] line_text_def encode_groups_rfc4648)
qed

text \<open>
  C29.  Encoding a stream in any chunks gives the text of RFC 4648, line by line: 48 bytes to a line,
  each ended by a newline unless the flags say otherwise, in the alphabet they choose.
\<close>

theorem base64_encodes_rfc4648:
  assumes "\<And>c. c \<in> set cs \<Longrightarrow> c \<noteq> [] \<and> length c \<le> 2 ^ 30"
  shows "encode_stream m fl cs =
    Some (concat (map (\<lambda>l. rfc4648 (encode_table (flag fl EVP_ENCODE_CTX_USE_SRP_ALPHABET)) l @
        (if \<not> flag fl EVP_ENCODE_CTX_NO_NEWLINES then [NL] else [])) (lines48 (concat cs))))"
  unfolding lines_text_rfc4648 [symmetric] by (rule encode_stream_text) (rule assms)

theorem base64_encodes_rfc4648_witness:
  "encode_stream (\<lambda>_. 0) 0 [[0x4D, 0x61], [0x6E, 0x20]] = Some [0x54, 0x57, 0x46, 0x75, 0x49, 0x41, 0x3D, 0x3D, 0x0A]"
proof -
  have r: "rfc4648 (encode_table False) [0x4D, 0x61, 0x6E, 0x20] = [0x54, 0x57, 0x46, 0x75, 0x49, 0x41, 0x3D, 0x3D]"
    by code_simp
  show ?thesis
    by (subst base64_encodes_rfc4648) (auto simp: lines48.simps flag_def r)
qed

subsection \<open>The round trip\<close>

lemma newline_ignorable: "ignorable srp NL"
  by (cases srp) (simp_all add: ignorable_def decode_table_def conv_ascii2bin_def flag_def data_ascii2bin_def srpdata_ascii2bin_def)

lemma lines_text_chars:
  "filter (\<lambda>c. \<not> ignorable srp c) (lines_text srp nl bs) = encode_groups (encode_table srp) bs"
proof (induction srp nl bs rule: lines_text.induct)
  case (1 srp nl bs)
  have all: "filter (\<lambda>c. \<not> ignorable srp c) (encode_groups (encode_table srp) l) = encode_groups (encode_table srp) l" for l
    using encode_groups_b64 ignorable_values(1) by (intro filter_True) blast
  show ?case
  proof (cases "bs = []")
    case False
    have "encode_groups (encode_table srp) bs =
        encode_groups (encode_table srp) (take 48 bs) @ encode_groups (encode_table srp) (drop 48 bs)"
      using take_encode_groups [of 16 "encode_table srp" bs] drop_encode_groups [of 16 "encode_table srp" bs]
        append_take_drop_id [of 64 "encode_groups (encode_table srp) bs"] by simp
    with 1 False show ?thesis
      by (subst lines_text.simps) (simp add: line_text_def all newline_ignorable)
  qed simp
qed

lemma round_trip:
  fixes fl fl' :: u32
  defines "srp \<equiv> flag fl EVP_ENCODE_CTX_USE_SRP_ALPHABET"
  assumes "\<And>c. c \<in> set cs \<Longrightarrow> c \<noteq> [] \<and> length c \<le> 2 ^ 30" and "encode_stream m fl cs = Some txt"
    and "filter (\<lambda>c. \<not> ignorable srp c) (concat pieces) = filter (\<lambda>c. \<not> ignorable srp c) txt"
    and "flag fl' EVP_ENCODE_CTX_USE_SRP_ALPHABET = srp"
  shows "decode_stream m' fl' pieces = Some (concat cs)"
proof -
  have t: "filter (\<lambda>c. \<not> ignorable srp c) (concat pieces) = encode_groups (encode_table srp) (concat cs)"
  proof -
    have "txt = lines_text srp (\<not> flag fl EVP_ENCODE_CTX_NO_NEWLINES) (concat cs)"
      using encode_stream_text [OF assms(2), where m = m and fl = fl] assms(3) unfolding srp_def by simp
    then show ?thesis unfolding assms(4) by (simp only: lines_text_chars)
  qed
  have ok: "b64 srp c \<or> ignorable srp c" if "c \<in> set (concat pieces)" for c
  proof (cases "ignorable srp c")
    case False
    with that have "c \<in> set (filter (\<lambda>c. \<not> ignorable srp c) (concat pieces))" by simp
    then show ?thesis unfolding t using encode_groups_b64 by blast
  qed simp
  have "filter (b64 srp) (concat pieces) = filter (\<lambda>c. \<not> ignorable srp c) (concat pieces)"
    using ok ignorable_values(1) by (intro filter_cong) auto
  with t ok show ?thesis
    using decode_stream_correct [of pieces fl' "concat cs" m'] assms(5) by simp
qed

text \<open>
  C28.  Decoding gives back what was encoded, however the bytes were split on the way in, however the text is split
  on the way out, and whatever white space and line ends are added to it or removed from it.
\<close>

theorem base64_round_trip:
  fixes fl fl' :: u32
  assumes "\<And>c. c \<in> set cs \<Longrightarrow> c \<noteq> [] \<and> length c \<le> 2 ^ 30" and "encode_stream m fl cs = Some txt"
    and "filter (\<lambda>c. \<not> ignorable (flag fl EVP_ENCODE_CTX_USE_SRP_ALPHABET) c) (concat pieces) =
      filter (\<lambda>c. \<not> ignorable (flag fl EVP_ENCODE_CTX_USE_SRP_ALPHABET) c) txt"
    and "flag fl' EVP_ENCODE_CTX_USE_SRP_ALPHABET = flag fl EVP_ENCODE_CTX_USE_SRP_ALPHABET"
  shows "decode_stream m' fl' pieces = Some (concat cs)"
  using assms by (rule round_trip)

theorem base64_round_trip_witness:
  "decode_stream (\<lambda>_. 0) 0 [[0x54, 0x57, 0x20], [], [0x46, 0x75, 0x49, 0x41, 0x3D], [0x0A, 0x3D]] = Some [0x4D, 0x61, 0x6E, 0x20]"
proof -
  let ?txt = "[0x54, 0x57, 0x46, 0x75, 0x49, 0x41, 0x3D, 0x3D, 0x0A] :: byte list"
  have f: "\<not> flag (0 :: u32) 2" "\<not> flag (0 :: u32) 1" by (simp_all add: flag_def)
  have e: "encode_groups (encode_table False) [0x4D, 0x61, 0x6E, 0x20] = butlast ?txt"
    unfolding encode_groups_rfc4648 by code_simp
  have t: "encode_stream (\<lambda>_. 0) 0 [[0x4D, 0x61], [0x6E, 0x20]] = Some ?txt"
    by (subst encode_stream_text) (auto simp: lines_text.simps line_text_def e f simp del: encode_groups.simps)
  have p: "c \<noteq> [] \<and> length c \<le> 2 ^ 30" if "c \<in> set [[0x4D, 0x61], [0x6E, 0x20] :: byte list]" for c
    using that by auto
  have "filter (\<lambda>c. \<not> ignorable False c) [0x54, 0x57, 0x20, 0x46, 0x75, 0x49, 0x41, 0x3D, 0x0A, 0x3D] =
      filter (\<lambda>c. \<not> ignorable False c) ?txt" by code_simp
  then have "decode_stream (\<lambda>_. 0) 0 [[0x54, 0x57, 0x20], [], [0x46, 0x75, 0x49, 0x41, 0x3D], [0x0A, 0x3D]] =
      Some (concat [[0x4D, 0x61], [0x6E, 0x20]])"
    by (intro base64_round_trip [OF p t]) (simp_all only: f concat.simps append.simps)
  then show ?thesis by simp
qed

subsection \<open>Bounds of the decoder\<close>

text \<open>Whatever it is fed, the decoder has written at most three bytes for four of the \<open>k\<close> characters it had, and
  holds the others in its buffer.\<close>

definition within :: "nat \<Rightarrow> mem \<Rightarrow> dec_state \<Rightarrow> bool" where
  "within k m s \<longleftrightarrow>
     length (dd s) = 80 \<and> 0 \<le> eof s \<and> dret s = int (dout s) \<and>
     (\<exists>g. dout s \<le> 3 * g \<and> 4 * g + dn s \<le> k \<and> (\<forall>i \<ge> 3 * g. dmem s i = m i))"

lemma within_mono: "within k m s \<Longrightarrow> k \<le> k' \<Longrightarrow> within k' m s"
  by (fastforce simp: within_def)

lemma length_decode_groups: "length (snd (decode_groups tab f)) \<le> 3 * (length f div 4)"
proof (induction tab f rule: decode_groups.induct)
  case (1 tab f0 f1 f2 f3 f)
  have "3 * (length (f0 # f1 # f2 # f3 # f) div 4) = 3 + 3 * (length f div 4)"
    using div_add_self1 [of 4 "length f"] by simp
  moreover note 1 [OF refl refl refl refl _ refl]
  ultimately show ?case by (auto simp: Let_def split: prod.splits)
qed simp_all

lemma length_strip_end: "length (strip_end tab f) \<le> length f"
  by (induction tab f rule: strip_end.induct) (subst strip_end.simps, force)

lemma decodeblock_bounds:
  assumes "evp_decodeblock_int srp f = (r, t)"
  shows "length t \<le> 3 * (length f div 4)" and "r \<le> int (length t)"
proof -
  let ?f = "strip_end (decode_table srp) (dropWhile (\<lambda>c. conv_ascii2bin c (decode_table srp) = B64_WS) f)"
  have "length ?f \<le> length f" using length_strip_end length_dropWhile_le le_trans by blast
  then have "3 * (length ?f div 4) \<le> 3 * (length f div 4)" by (simp add: div_le_mono)
  moreover have "length t \<le> 3 * (length ?f div 4) \<and> r \<le> int (length t)"
    using assms length_decode_groups [of "decode_table srp" ?f]
    by (auto simp: evp_decodeblock_int_def Let_def split: if_splits prod.splits)
  ultimately show "length t \<le> 3 * (length f div 4)" "r \<le> int (length t)" by auto
qed

lemma flush_within:
  assumes w: "within k m s" and n: "dn s \<le> 64" and f: "decode_flush srp s = (ok, s')"
  shows "within k m s'" and "dn s' = 0"
proof -
  obtain g where g: "dout s \<le> 3 * g" "4 * g + dn s \<le> k" "\<forall>i \<ge> 3 * g. dmem s i = m i"
    and s: "length (dd s) = 80" "0 \<le> eof s" "dret s = int (dout s)"
    using w by (auto simp: within_def)
  obtain r t where rt: "evp_decodeblock_int srp (take (dn s) (dd s)) = (r, t)" by fastforce
  define h where "h = g + dn s div 4"
  have t: "length t \<le> 3 * (dn s div 4)" "r \<le> int (length t)" using decodeblock_bounds [OF rt] n s(1) by simp_all
  have "\<forall>i \<ge> 3 * h. put_mem (dout s) t (dmem s) i = m i" "4 * h \<le> k" "dout s \<le> 3 * h"
    "dout s + nat (r - eof s) \<le> 3 * h"
    using g t s(2) by (auto simp: put_mem_def h_def)
  then show "within k m s'" "dn s' = 0"
    using f s by (auto simp: decode_flush_def rt within_def Let_def intro!: exI [of _ h] split: if_splits)
qed

lemma loop_within:
  assumes "within k m s" and "dn s < 64" and "decode_loop srp inp s = (x, s')"
  shows "within (k + length inp) m s' \<and> dn s' < 64"
  using assms
proof (induction inp arbitrary: k s)
  case (Cons c inp)
  define v where "v = conv_ascii2bin c (decode_table srp)"
  define s1 where "s1 = (if c = PAD then s\<lparr>eof := eof s + 1\<rparr> else s)"
  define s2 where "s2 = (if B64_BASE64 v then s1\<lparr>dd := (dd s1)[dn s1 := c], dn := dn s1 + 1\<rparr> else s1)"
  have w1: "within k m s1" "dn s1 < 64" using Cons(2,3) by (auto simp: s1_def within_def)
  have w2: "within (Suc k) m s2" "dn s2 \<le> 64"
    using w1 by (fastforce simp: s2_def within_def)+
  have w: "within (k + length (c # inp)) m s" "within (k + length (c # inp)) m s1"
    using within_mono [OF Cons(2)] within_mono [OF w1(1)] by simp_all
  have IH: "within (k + length (c # inp)) m s' \<and> dn s' < 64"
    if "within (Suc k) m t" "dn t < 64" "decode_loop srp inp t = (x, s')" for t
    using Cons(1) [OF that] by simp
  have step: "decode_loop srp (c # inp) s =
      (if v = B64_ERROR \<or> (c \<noteq> PAD \<and> eof s > 0 \<and> B64_BASE64 v) then (Dec_error, s)
       else if eof s1 > 2 then (Dec_error, s1) else if v = B64_EOF then (Dec_seof, s1)
       else if dn s2 = 64 then
         let (ok, s) = decode_flush srp s2 in if ok then decode_loop srp inp s else (Dec_error, s)
       else decode_loop srp inp s2)"
    using w1(2) unfolding decode_loop.simps(2) Let_def v_def [symmetric] s1_def [symmetric] s2_def [symmetric] by simp
  show ?case
  proof (cases "dn s2 = 64")
    case True
    obtain ok t where t: "decode_flush srp s2 = (ok, t)" by fastforce
    note fl = flush_within [OF w2 t]
    have "within (k + length (c # inp)) m t" using within_mono [OF fl(1)] by simp
    then show ?thesis
      using Cons(4) w w1(2) Cons(3) IH [OF fl(1)] fl(2) True unfolding step by (auto simp: t split: if_splits)
  next
    case False
    then show ?thesis
      using Cons(4) w w1(2) Cons(3) w2(2) IH [OF w2(1)] unfolding step by (auto split: if_splits)
  qed
qed simp

lemma tail_within:
  assumes w: "within k m s" and n: "dn s < 64" and "decode_tail srp e s = (rv, s')"
  shows "within k m s' \<and> dn s' < 64 \<and> rv \<in> {- 1, 0, 1}"
proof (cases "dn s > 0 \<and> dn s mod 4 = 0")
  case True
  obtain ok t where t: "decode_flush srp s = (ok, t)" by fastforce
  have "within k m t" "dn t = 0" using flush_within [OF w _ t] n by simp_all
  then show ?thesis using True assms(3) by (auto simp: decode_tail_def t split: if_splits)
next
  case False
  then show ?thesis using w n assms(3) by (auto simp: decode_tail_def split: if_splits)
qed

lemma update_within:
  assumes "0 \<le> ec_num ctx" "ec_num ctx < 64" "length (enc_data ctx) = 80"
    and run: "EVP_DecodeUpdate ctx m inp (int (length inp)) = ((rv, outl), ctx', m')"
  shows "0 \<le> ec_num ctx' \<and> ec_num ctx' < 64 \<and> length (enc_data ctx') = 80 \<and> rv \<in> {- 1, 0, 1} \<and>
    0 \<le> outl \<and> outl \<le> 3 * ((ec_num ctx + int (length inp)) div 4) \<and>
    (\<forall>i. 3 * ((ec_num ctx + int (length inp)) div 4) \<le> int i \<longrightarrow> m' i = m i)"
proof -
  define n where "n = nat (ec_num ctx)"
  define s where "s = \<lparr>dn = n, dd = enc_data ctx, eof = initial_eof n (enc_data ctx), dret = 0, dout = 0, dmem = m\<rparr>"
  define res where "res = (if int (length inp) = 0 then (0, s)
       else case decode_loop (uses_srp ctx) (take (nat (int (length inp))) inp) s of
              (Dec_error, s) \<Rightarrow> (- 1, s)
            | (Dec_seof, s) \<Rightarrow> decode_tail (uses_srp ctx) True s
            | (Dec_all, s) \<Rightarrow> decode_tail (uses_srp ctx) False s)"
  obtain r t where rt: "res = (r, t)" by fastforce
  have res: "rv = r" "outl = dret t" "ctx' = ctx\<lparr>ec_num := int (dn t), enc_data := dd t\<rparr>" "m' = dmem t"
    using run unfolding EVP_DecodeUpdate_def Let_def n_def [symmetric] s_def [symmetric] res_def [symmetric] rt by auto
  have s: "within n m s" "dn s < 64"
    using assms(2,3) by (auto simp: within_def s_def n_def initial_eof_def intro!: exI [of _ 0])
  have t: "within (n + length inp) m t \<and> dn t < 64 \<and> r \<in> {- 1, 0, 1}"
  proof (cases "inp = []")
    case True
    with s rt show ?thesis by (auto simp: res_def)
  next
    case False
    obtain x u where u: "decode_loop (uses_srp ctx) inp s = (x, u)" by fastforce
    note loop_within [OF s u]
    with rt False u tail_within [of "n + length inp" m u "uses_srp ctx"] show ?thesis
      by (cases x) (auto simp: res_def)
  qed
  then obtain g where g: "dout t \<le> 3 * g" "4 * g + dn t \<le> n + length inp" "\<forall>i \<ge> 3 * g. m' i = m i"
    and dt: "length (dd t) = 80" "dret t = int (dout t)"
    unfolding within_def res by blast
  have "int g \<le> (ec_num ctx + int (length inp)) div 4" using g(2) assms(1) by (simp add: n_def)
  then show ?thesis using g t dt res by auto
qed

text \<open>
  C30.  Whatever bytes the decoder is fed, a call keeps the context within its buffer of 80 characters, and writes at most
  three bytes for every four of the characters that were held back or are new; its result is -1, 0 or 1.
\<close>

theorem base64_decode_in_bounds:
  assumes "0 \<le> ec_num ctx" "ec_num ctx < 64" "length (enc_data ctx) = 80"
    and "EVP_DecodeUpdate ctx m inp (int (length inp)) = ((rv, outl), ctx', m')"
  shows "0 \<le> ec_num ctx' \<and> ec_num ctx' < 64 \<and> length (enc_data ctx') = 80 \<and> rv \<in> {- 1, 0, 1} \<and>
    0 \<le> outl \<and> outl \<le> 3 * ((ec_num ctx + int (length inp)) div 4) \<and>
    (\<forall>i. 3 * ((ec_num ctx + int (length inp)) div 4) \<le> int i \<longrightarrow> m' i = m i)"
  using assms by (rule update_within)

theorem base64_decode_in_bounds_witness:
  "let r = EVP_DecodeUpdate (EVP_DecodeInit zeroed_ctx) (\<lambda>_. 7) [0x54, 0x57, 0x46, 0x75, 0x3D] 5
   in ec_num (fst (snd r)) < 64 \<and> snd (fst r) \<le> 3 \<and> snd (snd r) 3 = 7"
proof -
  let ?r = "EVP_DecodeUpdate (EVP_DecodeInit zeroed_ctx) (\<lambda>_. 7) [0x54, 0x57, 0x46, 0x75, 0x3D] 5"
  have n: "ec_num (EVP_DecodeInit zeroed_ctx) = 0" "length (enc_data (EVP_DecodeInit zeroed_ctx)) = 80"
    by (simp_all add: EVP_DecodeInit_def zeroed_ctx_def)
  obtain rv outl ctx' m' where r: "?r = ((rv, outl), ctx', m')" by (metis surj_pair)
  from base64_decode_in_bounds [of "EVP_DecodeInit zeroed_ctx" "\<lambda>_. 7" "[0x54, 0x57, 0x46, 0x75, 0x3D]" rv outl ctx' m'] r
  show ?thesis by (auto simp: n dest: spec [of _ 3])
qed

text \<open>What is held back between two calls may be more than an incomplete group: whole groups stay in the
  buffer when an incomplete one follows them.\<close>

lemma whole_groups_held_back:
  "(case EVP_DecodeUpdate (EVP_DecodeInit zeroed_ctx) (\<lambda>_. 0) (replicate 61 0x41) 61 of
      (r, ctx', m') \<Rightarrow> r = (1, 0) \<and> ec_num ctx' = 61)"
  by code_simp

text \<open>Data after a pad is refused within one call, and accepted when the next call brings it.\<close>

lemma data_after_padding:
  "fst (EVP_DecodeUpdate (EVP_DecodeInit zeroed_ctx) (\<lambda>_. 0) [0x41, 0x41, 0x3D, 0x3D, 0x41] 5) = (- 1, 0)"
  "decode_stream (\<lambda>_. 0) 0 [[0x41, 0x41, 0x3D, 0x3D], [0x41, 0x41, 0x3D, 0x3D]] = Some [0, 0]"
  by code_simp+

end
