(* ===== verification/Bio_Pair.thy ===== *)
theory Bio_Pair
  imports Prelude "HOL-Library.Monad_Syntax"
begin

unbundle bit_operations_syntax

section \<open>BIO pairs\<close>

text \<open>
  Model of \<^verbatim>\<open>crypto/bio/bss_bio.c\<close> with the functions of \<^verbatim>\<open>bio_lib.c\<close> and \<^verbatim>\<open>bio_meth.c\<close> through which it is used.
  Two BIOs point to each other, and each owns the ring buffer it writes to and the other one reads from.

  The BIOs live in a heap, a map from addresses; a \<^verbatim>\<open>BIO\<close> and the \<^verbatim>\<open>struct bio_bio_st\<close> behind its member \<^verbatim>\<open>ptr\<close>
  form one object.  The result \<open>None\<close> of an operation is an assertion that fails, a null pointer that is followed,
  or a loop that does not end.  No callbacks are set.
\<close>

subsection \<open>Data\<close>

record bio_bio =
  bb_peer :: "nat option"
  bb_closed :: bool
  bb_len :: nat
  bb_offset :: nat
  bb_size :: nat
  bb_buf :: "byte list option"
  bb_request :: nat

record bio =
  b_init :: bool
  b_shutdown :: int
  b_flags :: u32
  b_num_read :: nat
  b_num_write :: nat
  b_ptr :: bio_bio

type_synonym heap = "nat \<Rightarrow> bio option"

abbreviation (input) BIO_FLAGS_READ :: u32 where "BIO_FLAGS_READ \<equiv> 1"
abbreviation (input) BIO_FLAGS_WRITE :: u32 where "BIO_FLAGS_WRITE \<equiv> 2"
abbreviation (input) BIO_FLAGS_IO_SPECIAL :: u32 where "BIO_FLAGS_IO_SPECIAL \<equiv> 4"
abbreviation (input) BIO_FLAGS_SHOULD_RETRY :: u32 where "BIO_FLAGS_SHOULD_RETRY \<equiv> 8"
abbreviation (input) OSSL_SSIZE_MAX :: nat where "OSSL_SSIZE_MAX \<equiv> 2 ^ 63 - 1"

definition upd_bio :: "nat \<Rightarrow> (bio \<Rightarrow> bio) \<Rightarrow> heap \<Rightarrow> heap" where
  "upd_bio i f h = h(i := map_option f (h i))"

definition set_ptr :: "nat \<Rightarrow> bio_bio \<Rightarrow> heap \<Rightarrow> heap" where
  "set_ptr i p h = upd_bio i (\<lambda>b. b\<lparr>b_ptr := p\<rparr>) h"

definition BIO_clear_retry_flags :: "nat \<Rightarrow> heap \<Rightarrow> heap" where
  "BIO_clear_retry_flags i h =
     upd_bio i (\<lambda>b. b\<lparr>b_flags := b_flags b AND
       NOT (BIO_FLAGS_READ OR BIO_FLAGS_WRITE OR BIO_FLAGS_IO_SPECIAL OR BIO_FLAGS_SHOULD_RETRY)\<rparr>) h"

definition BIO_set_retry_read :: "nat \<Rightarrow> heap \<Rightarrow> heap" where
  "BIO_set_retry_read i h = upd_bio i (\<lambda>b. b\<lparr>b_flags := b_flags b OR BIO_FLAGS_READ OR BIO_FLAGS_SHOULD_RETRY\<rparr>) h"

definition BIO_set_retry_write :: "nat \<Rightarrow> heap \<Rightarrow> heap" where
  "BIO_set_retry_write i h = upd_bio i (\<lambda>b. b\<lparr>b_flags := b_flags b OR BIO_FLAGS_WRITE OR BIO_FLAGS_SHOULD_RETRY\<rparr>) h"

text \<open>Conversions between \<^verbatim>\<open>size_t\<close> and the signed types of width \<open>w\<close>; assertions.\<close>

definition to_signed :: "nat \<Rightarrow> nat \<Rightarrow> int" where
  "to_signed w n = (let m = int n mod 2 ^ w in if m \<ge> 2 ^ (w - 1) then m - 2 ^ w else m)"

definition to_size :: "int \<Rightarrow> nat" where
  "to_size n = nat (n mod 2 ^ 64)"

definition check :: "bool \<Rightarrow> unit option" where
  "check P = (if P then Some () else None)"

subsection \<open>Reading and writing\<close>

definition bio_new :: "bool \<Rightarrow> bio \<Rightarrow> bio option" where
  "bio_new allocated b =
     (if allocated then
        Some (b\<lparr>b_ptr := \<lparr>bb_peer = None, bb_closed = False, bb_len = 0, bb_offset = 0, bb_size = 17 * 1024,
                          bb_buf = None, bb_request = 0\<rparr>\<rparr>)
      else None)"

text \<open>The loop of \<^verbatim>\<open>bio_read\<close>: the bytes copied so far, and the peer's buffer.\<close>

partial_function (option) ring_read_loop :: "bio_bio \<Rightarrow> nat \<Rightarrow> byte list \<Rightarrow> (byte list \<times> bio_bio) option" where
  "ring_read_loop p rest out = do {
     _ \<leftarrow> check (rest \<le> bb_len p);
     d \<leftarrow> bb_buf p;
     let chunk = (if bb_offset p + rest \<le> bb_size p then rest else bb_size p - bb_offset p);
     _ \<leftarrow> check (bb_offset p + chunk \<le> bb_size p);
     let out = out @ take chunk (drop (bb_offset p) d);
     let p = p\<lparr>bb_len := bb_len p - chunk\<rparr>;
     p \<leftarrow> (if bb_len p \<noteq> 0 then do {
             let off = bb_offset p + chunk;
             _ \<leftarrow> check (off \<le> bb_size p);
             Some (p\<lparr>bb_offset := if off = bb_size p then 0 else off\<rparr>)
           } else do {
             _ \<leftarrow> check (chunk = rest);
             Some (p\<lparr>bb_offset := 0\<rparr>)
           });
     if rest - chunk \<noteq> 0 then ring_read_loop p (rest - chunk) out else Some (out, p)
   }"

text \<open>\<open>given\<close> says that the caller's pointer is not null; the result has the bytes stored behind it.\<close>

definition bio_read :: "nat \<Rightarrow> bool \<Rightarrow> int \<Rightarrow> heap \<Rightarrow> ((int \<times> byte list) \<times> heap) option" where
  "bio_read i given size' h = do {
     let sz = to_size size';
     let h = BIO_clear_retry_flags i h;
     b \<leftarrow> h i;
     if \<not> b_init b then Some ((0, []), h)
     else do {
       j \<leftarrow> bb_peer (b_ptr b);
       pb \<leftarrow> h j;
       _ \<leftarrow> check (bb_buf (b_ptr pb) \<noteq> None);
       let p = (b_ptr pb)\<lparr>bb_request := 0\<rparr>;
       let h = set_ptr j p h;
       if \<not> given \<or> sz = 0 then Some ((0, []), h)
       else if bb_len p = 0 then
         if bb_closed p then Some ((0, []), h)
         else Some ((- 1, []), set_ptr j (p\<lparr>bb_request := if sz \<le> bb_size p then sz else bb_size p\<rparr>)
                                 (BIO_set_retry_read i h))
       else do {
         let sz = (if bb_len p < sz then bb_len p else sz);
         (out, p) \<leftarrow> ring_read_loop p sz [];
         Some ((to_signed 32 sz, out), set_ptr j p h)
       }
     }
   }"

text \<open>The second result is the pointer into the peer's buffer, as an offset.\<close>

definition bio_nread0 :: "nat \<Rightarrow> heap \<Rightarrow> ((int \<times> nat option) \<times> heap) option" where
  "bio_nread0 i h = do {
     let h = BIO_clear_retry_flags i h;
     b \<leftarrow> h i;
     if \<not> b_init b then Some ((0, None), h)
     else do {
       j \<leftarrow> bb_peer (b_ptr b);
       pb \<leftarrow> h j;
       _ \<leftarrow> check (bb_buf (b_ptr pb) \<noteq> None);
       let p = (b_ptr pb)\<lparr>bb_request := 0\<rparr>;
       let h = set_ptr j p h;
       if bb_len p = 0 then do {
         ((r, _), h) \<leftarrow> bio_read i True 1 h;
         Some ((r, None), h)
       } else do {
         let num = (if bb_size p < bb_offset p + bb_len p then bb_size p - bb_offset p else bb_len p);
         _ \<leftarrow> check (num > 0);
         Some ((to_signed 64 num, Some (bb_offset p)), h)
       }
     }
   }"

definition bio_nread :: "nat \<Rightarrow> nat \<Rightarrow> heap \<Rightarrow> ((int \<times> nat option) \<times> heap) option" where
  "bio_nread i num' h = do {
     let num = (if num' > OSSL_SSIZE_MAX then int OSSL_SSIZE_MAX else int num');
     ((available, at), h) \<leftarrow> bio_nread0 i h;
     let num = (if num > available then available else num);
     if num \<le> 0 then Some ((num, at), h)
     else do {
       b \<leftarrow> h i;
       j \<leftarrow> bb_peer (b_ptr b);
       pb \<leftarrow> h j;
       let p = (b_ptr pb)\<lparr>bb_len := bb_len (b_ptr pb) - nat num\<rparr>;
       p \<leftarrow> (if bb_len p \<noteq> 0 then do {
               let off = bb_offset p + nat num;
               _ \<leftarrow> check (off \<le> bb_size p);
               Some (p\<lparr>bb_offset := if off = bb_size p then 0 else off\<rparr>)
             } else Some (p\<lparr>bb_offset := 0\<rparr>));
       Some ((num, at), set_ptr j p h)
     }
   }"

text \<open>The first byte of a buffer that can be written to.\<close>

definition write_offset :: "bio_bio \<Rightarrow> nat" where
  "write_offset b =
     (let off = bb_offset b + bb_len b in if off \<ge> bb_size b then off - bb_size b else off)"

partial_function (option) ring_write_loop :: "bio_bio \<Rightarrow> byte list \<Rightarrow> nat \<Rightarrow> bio_bio option" where
  "ring_write_loop b src rest = do {
     _ \<leftarrow> check (bb_len b + rest \<le> bb_size b);
     d \<leftarrow> bb_buf b;
     let off = write_offset b;
     let chunk = (if off + rest \<le> bb_size b then rest else bb_size b - off);
     let b = b\<lparr>bb_buf := Some (overwrite off (take chunk src) d), bb_len := bb_len b + chunk\<rparr>;
     _ \<leftarrow> check (bb_len b \<le> bb_size b);
     if rest - chunk \<noteq> 0 then ring_write_loop b (drop chunk src) (rest - chunk) else Some b
   }"

definition bio_write :: "nat \<Rightarrow> byte list option \<Rightarrow> int \<Rightarrow> heap \<Rightarrow> (int \<times> heap) option" where
  "bio_write i src num' h = do {
     let num = to_size num';
     let h = BIO_clear_retry_flags i h;
     b \<leftarrow> h i;
     if \<not> b_init b \<or> src = None \<or> num = 0 then Some (0, h)
     else do {
       bs \<leftarrow> src;
       _ \<leftarrow> check (bb_peer (b_ptr b) \<noteq> None);
       _ \<leftarrow> check (bb_buf (b_ptr b) \<noteq> None);
       let p = (b_ptr b)\<lparr>bb_request := 0\<rparr>;
       let h = set_ptr i p h;
       if bb_closed p then Some (- 1, h)
       else do {
         _ \<leftarrow> check (bb_len p \<le> bb_size p);
         if bb_len p = bb_size p then Some (- 1, BIO_set_retry_write i h)
         else do {
           let num = (if num > bb_size p - bb_len p then bb_size p - bb_len p else num);
           p \<leftarrow> ring_write_loop p bs num;
           Some (to_signed 32 num, set_ptr i p h)
         }
       }
     }
   }"

definition bio_nwrite0 :: "nat \<Rightarrow> heap \<Rightarrow> ((int \<times> nat option) \<times> heap) option" where
  "bio_nwrite0 i h = do {
     let h = BIO_clear_retry_flags i h;
     b \<leftarrow> h i;
     if \<not> b_init b then Some ((0, None), h)
     else do {
       _ \<leftarrow> check (bb_peer (b_ptr b) \<noteq> None);
       _ \<leftarrow> check (bb_buf (b_ptr b) \<noteq> None);
       let p = (b_ptr b)\<lparr>bb_request := 0\<rparr>;
       let h = set_ptr i p h;
       if bb_closed p then Some ((- 1, None), h)
       else do {
         _ \<leftarrow> check (bb_len p \<le> bb_size p);
         if bb_len p = bb_size p then Some ((- 1, None), BIO_set_retry_write i h)
         else do {
           let num = bb_size p - bb_len p;
           let off = write_offset p;
           let num = (if off + num > bb_size p then bb_size p - off else num);
           _ \<leftarrow> check (off + num \<le> bb_size p);
           Some ((to_signed 64 num, Some off), h)
         }
       }
     }
   }"

definition bio_nwrite :: "nat \<Rightarrow> nat \<Rightarrow> heap \<Rightarrow> ((int \<times> nat option) \<times> heap) option" where
  "bio_nwrite i num' h = do {
     let num = (if num' > OSSL_SSIZE_MAX then int OSSL_SSIZE_MAX else int num');
     ((space, at), h) \<leftarrow> bio_nwrite0 i h;
     let num = (if num > space then space else num);
     if num \<le> 0 then Some ((num, at), h)
     else do {
       b \<leftarrow> h i;
       let p = (b_ptr b)\<lparr>bb_len := bb_len (b_ptr b) + nat num\<rparr>;
       _ \<leftarrow> check (bb_len p \<le> bb_size p);
       Some ((num, at), set_ptr i p h)
     }
   }"

definition bio_puts :: "nat \<Rightarrow> byte list \<Rightarrow> heap \<Rightarrow> (int \<times> heap) option" where
  "bio_puts i str h = bio_write i (Some str) (to_signed 32 (length str)) h"

subsection \<open>Making and destroying a pair\<close>

text \<open>\<open>malloc i n\<close> is the block of \<open>n\<close> bytes that the owner \<open>i\<close> gets, or \<open>None\<close>.\<close>

definition give_buffer :: "(nat \<Rightarrow> nat \<Rightarrow> byte list option) \<Rightarrow> nat \<Rightarrow> heap \<Rightarrow> (bool \<times> heap) option" where
  "give_buffer malloc i h = do {
     b \<leftarrow> h i;
     if bb_buf (b_ptr b) = None then
       case malloc i (bb_size (b_ptr b)) of
         None \<Rightarrow> Some (False, h)
       | Some d \<Rightarrow> Some (True, set_ptr i ((b_ptr b)\<lparr>bb_buf := Some d, bb_len := 0, bb_offset := 0\<rparr>) h)
     else Some (True, h)
   }"

definition join_pair :: "nat \<Rightarrow> nat \<Rightarrow> bio_bio \<Rightarrow> bio_bio" where
  "join_pair i j p = p\<lparr>bb_peer := Some j, bb_closed := False, bb_request := 0\<rparr>"

definition bio_make_pair :: "(nat \<Rightarrow> nat \<Rightarrow> byte list option) \<Rightarrow> nat \<Rightarrow> nat \<Rightarrow> heap \<Rightarrow> (int \<times> heap) option" where
  "bio_make_pair malloc i j h = do {
     b1 \<leftarrow> h i;
     b2 \<leftarrow> h j;
     if bb_peer (b_ptr b1) \<noteq> None \<or> bb_peer (b_ptr b2) \<noteq> None then Some (0, h)
     else do {
       (ok, h) \<leftarrow> give_buffer malloc i h;
       if \<not> ok then Some (0, h)
       else do {
         (ok, h) \<leftarrow> give_buffer malloc j h;
         if \<not> ok then Some (0, h)
         else do {
           let h = upd_bio i (\<lambda>b. b\<lparr>b_ptr := join_pair i j (b_ptr b)\<rparr>) h;
           let h = upd_bio j (\<lambda>b. b\<lparr>b_ptr := join_pair j i (b_ptr b)\<rparr>) h;
           let h = upd_bio i (\<lambda>b. b\<lparr>b_init := True\<rparr>) h;
           Some (1, upd_bio j (\<lambda>b. b\<lparr>b_init := True\<rparr>) h)
         }
       }
     }
   }"

definition leave_pair :: "bio \<Rightarrow> bio" where
  "leave_pair b = b\<lparr>b_ptr := (b_ptr b)\<lparr>bb_peer := None, bb_len := 0, bb_offset := 0\<rparr>, b_init := False\<rparr>"

definition bio_destroy_pair :: "nat \<Rightarrow> heap \<Rightarrow> heap option" where
  "bio_destroy_pair i h = do {
     b \<leftarrow> h i;
     case bb_peer (b_ptr b) of
       None \<Rightarrow> Some h
     | Some j \<Rightarrow> do {
         pb \<leftarrow> h j;
         _ \<leftarrow> check (bb_peer (b_ptr pb) = Some i);
         _ \<leftarrow> check (bb_buf (b_ptr pb) \<noteq> None);
         let h = upd_bio j leave_pair h;
         b \<leftarrow> h i;
         _ \<leftarrow> check (bb_buf (b_ptr b) \<noteq> None);
         Some (upd_bio i leave_pair h)
       }
   }"

text \<open>The BIO is freed together with its state.\<close>

definition bio_free :: "nat option \<Rightarrow> heap \<Rightarrow> (int \<times> heap) option" where
  "bio_free i h =
     (case i of None \<Rightarrow> Some (0, h)
      | Some i \<Rightarrow> do {
          b \<leftarrow> h i;
          h \<leftarrow> (if bb_peer (b_ptr b) \<noteq> None then bio_destroy_pair i h else Some h);
          Some (1, h(i := None))
        })"

subsection \<open>Control\<close>

datatype bio_cmd =
  BIO_C_SET_WRITE_BUF_SIZE int | BIO_C_GET_WRITE_BUF_SIZE
| BIO_C_MAKE_BIO_PAIR nat | BIO_C_DESTROY_BIO_PAIR
| BIO_C_GET_WRITE_GUARANTEE | BIO_C_GET_READ_REQUEST | BIO_C_RESET_READ_REQUEST | BIO_C_SHUTDOWN_WR
| BIO_C_NREAD0 | BIO_C_NREAD int | BIO_C_NWRITE0 | BIO_C_NWRITE int
| BIO_CTRL_RESET | BIO_CTRL_GET_CLOSE | BIO_CTRL_SET_CLOSE int | BIO_CTRL_PENDING | BIO_CTRL_WPENDING
| BIO_CTRL_DUP nat | BIO_CTRL_FLUSH | BIO_CTRL_EOF | BIO_CTRL_OTHER

text \<open>The commands that leave no pointer; those of the non-copying interface are the ones after them.\<close>

definition plain_ctrl ::
  "(nat \<Rightarrow> nat \<Rightarrow> byte list option) \<Rightarrow> nat \<Rightarrow> bio \<Rightarrow> bio_cmd \<Rightarrow> heap \<Rightarrow> (int \<times> heap) option" where
  "plain_ctrl malloc i b cmd h =
     (let p = b_ptr b in
      case cmd of
        BIO_C_SET_WRITE_BUF_SIZE num \<Rightarrow>
          if bb_peer p \<noteq> None then Some (0, h)
          else if num = 0 then Some (0, h)
          else if bb_size p \<noteq> to_size num then
            Some (1, set_ptr i (p\<lparr>bb_buf := None, bb_size := to_size num\<rparr>) h)
          else Some (1, h)
      | BIO_C_GET_WRITE_BUF_SIZE \<Rightarrow> Some (to_signed 64 (bb_size p), h)
      | BIO_C_MAKE_BIO_PAIR j \<Rightarrow> do {
          (r, h) \<leftarrow> bio_make_pair malloc i j h;
          Some (if r \<noteq> 0 then 1 else 0, h)
        }
      | BIO_C_DESTROY_BIO_PAIR \<Rightarrow> do { h \<leftarrow> bio_destroy_pair i h; Some (1, h) }
      | BIO_C_GET_WRITE_GUARANTEE \<Rightarrow>
          Some (if bb_peer p = None \<or> bb_closed p then 0 else to_signed 64 (usub (bb_size p) (bb_len p)), h)
      | BIO_C_GET_READ_REQUEST \<Rightarrow> Some (to_signed 64 (bb_request p), h)
      | BIO_C_RESET_READ_REQUEST \<Rightarrow> Some (1, set_ptr i (p\<lparr>bb_request := 0\<rparr>) h)
      | BIO_C_SHUTDOWN_WR \<Rightarrow> Some (1, set_ptr i (p\<lparr>bb_closed := True\<rparr>) h)
      | BIO_CTRL_RESET \<Rightarrow>
          Some (0, if bb_buf p \<noteq> None then set_ptr i (p\<lparr>bb_len := 0, bb_offset := 0\<rparr>) h else h)
      | BIO_CTRL_GET_CLOSE \<Rightarrow> Some (b_shutdown b, h)
      | BIO_CTRL_SET_CLOSE num \<Rightarrow> Some (1, upd_bio i (\<lambda>b. b\<lparr>b_shutdown := to_signed 32 (to_size num)\<rparr>) h)
      | BIO_CTRL_PENDING \<Rightarrow>
          (case bb_peer p of None \<Rightarrow> Some (0, h)
           | Some j \<Rightarrow> do { pb \<leftarrow> h j; Some (to_signed 64 (bb_len (b_ptr pb)), h) })
      | BIO_CTRL_WPENDING \<Rightarrow> Some (if bb_buf p \<noteq> None then to_signed 64 (bb_len p) else 0, h)
      | BIO_CTRL_DUP j \<Rightarrow> do {
          ob \<leftarrow> h j;
          _ \<leftarrow> check (bb_buf (b_ptr ob) = None);
          Some (1, set_ptr j ((b_ptr ob)\<lparr>bb_size := bb_size p\<rparr>) h)
        }
      | BIO_CTRL_FLUSH \<Rightarrow> Some (1, h)
      | BIO_CTRL_EOF \<Rightarrow>
          (case bb_peer p of None \<Rightarrow> Some (1, h)
           | Some j \<Rightarrow> do {
               pb \<leftarrow> h j;
               Some (if bb_len (b_ptr pb) = 0 \<and> bb_closed (b_ptr pb) then 1 else 0, h)
             })
      | _ \<Rightarrow> Some (0, h))"

definition bio_ctrl ::
  "(nat \<Rightarrow> nat \<Rightarrow> byte list option) \<Rightarrow> nat \<Rightarrow> bio_cmd \<Rightarrow> heap \<Rightarrow> ((int \<times> nat option) \<times> heap) option" where
  "bio_ctrl malloc i cmd h = do {
     b \<leftarrow> h i;
     case cmd of
       BIO_C_NREAD0 \<Rightarrow> bio_nread0 i h
     | BIO_C_NREAD num \<Rightarrow> bio_nread i (to_size num) h
     | BIO_C_NWRITE0 \<Rightarrow> bio_nwrite0 i h
     | BIO_C_NWRITE num \<Rightarrow> bio_nwrite i (to_size num) h
     | _ \<Rightarrow> do { (r, h) \<leftarrow> plain_ctrl malloc i b cmd h; Some ((r, None), h) }
   }"

subsection \<open>The functions of the library\<close>

text \<open>\<open>ok\<close> says which of the four allocations of \<^verbatim>\<open>BIO_new\<close> succeed; \<open>i\<close> is the address of the new BIO.\<close>

definition BIO_new :: "(nat \<Rightarrow> bool) \<Rightarrow> nat \<Rightarrow> heap \<Rightarrow> nat option \<times> heap" where
  "BIO_new ok i h =
     (if ok 0 \<and> ok 1 \<and> ok 2 then
        case bio_new (ok 3) \<lparr>b_init = False, b_shutdown = 1, b_flags = 0, b_num_read = 0, b_num_write = 0,
            b_ptr = \<lparr>bb_peer = None, bb_closed = False, bb_len = 0, bb_offset = 0, bb_size = 0, bb_buf = None, bb_request = 0\<rparr>\<rparr> of
          None \<Rightarrow> (None, h)
        | Some b \<Rightarrow> (Some i, h(i \<mapsto> b))
      else (None, h))"

definition BIO_ctrl ::
  "(nat \<Rightarrow> nat \<Rightarrow> byte list option) \<Rightarrow> nat option \<Rightarrow> bio_cmd \<Rightarrow> heap \<Rightarrow> ((int \<times> nat option) \<times> heap) option" where
  "BIO_ctrl malloc i cmd h = (case i of None \<Rightarrow> Some ((0, None), h) | Some i \<Rightarrow> bio_ctrl malloc i cmd h)"

definition BIO_new_bio_pair ::
  "(nat \<Rightarrow> nat \<Rightarrow> byte list option) \<Rightarrow> (nat \<Rightarrow> bool) \<Rightarrow> (nat \<Rightarrow> bool) \<Rightarrow> nat \<Rightarrow> nat \<Rightarrow> nat \<Rightarrow> nat \<Rightarrow> heap \<Rightarrow>
     ((int \<times> nat option \<times> nat option) \<times> heap) option" where
  "BIO_new_bio_pair malloc ok1 ok2 i1 i2 writebuf1 writebuf2 h = do {
     let (bio1, h) = BIO_new ok1 i1 h;
     let (bio2, h) = (if bio1 = None then (None, h) else BIO_new ok2 i2 h);
     (ok, h) \<leftarrow>
       (if bio1 = None \<or> bio2 = None then Some (False, h)
        else do {
          ((r, _), h) \<leftarrow> (if writebuf1 \<noteq> 0 then
             BIO_ctrl malloc bio1 (BIO_C_SET_WRITE_BUF_SIZE (to_signed 64 writebuf1)) h else Some ((1, None), h));
          if r = 0 then Some (False, h)
          else do {
            ((r, _), h) \<leftarrow> (if writebuf2 \<noteq> 0 then
               BIO_ctrl malloc bio2 (BIO_C_SET_WRITE_BUF_SIZE (to_signed 64 writebuf2)) h else Some ((1, None), h));
            if r = 0 then Some (False, h)
            else do {
              ((r, _), h) \<leftarrow> BIO_ctrl malloc bio1 (BIO_C_MAKE_BIO_PAIR i2) h;
              Some (r \<noteq> 0, h)
            }
          }
        });
     if ok then Some ((1, bio1, bio2), h)
     else do {
       (_, h) \<leftarrow> bio_free bio1 h;
       (_, h) \<leftarrow> bio_free bio2 h;
       Some ((0, None, None), h)
     }
   }"

text \<open>\<^verbatim>\<open>BIO_read\<close> and \<^verbatim>\<open>BIO_write\<close>, with the conversions of \<^verbatim>\<open>bio_meth.c\<close>.\<close>

definition bread_conv :: "nat \<Rightarrow> bool \<Rightarrow> nat \<Rightarrow> heap \<Rightarrow> ((int \<times> nat \<times> byte list) \<times> heap) option" where
  "bread_conv i given datal h = do {
     let datal = (if datal > 2 ^ 31 - 1 then 2 ^ 31 - 1 else datal);
     ((ret, out), h) \<leftarrow> bio_read i given (int datal) h;
     if ret \<le> 0 then Some ((ret, 0, out), h) else Some ((1, nat ret, out), h)
   }"

definition bio_read_intern :: "nat \<Rightarrow> bool \<Rightarrow> nat \<Rightarrow> heap \<Rightarrow> ((int \<times> nat \<times> byte list) \<times> heap) option" where
  "bio_read_intern i given dlen h = do {
     b \<leftarrow> h i;
     if \<not> b_init b then Some ((- 2, 0, []), h)
     else do {
       ((ret, readbytes, out), h) \<leftarrow> bread_conv i given dlen h;
       let h = (if ret > 0 then upd_bio i (\<lambda>b. b\<lparr>b_num_read := uadd (b_num_read b) readbytes\<rparr>) h else h);
       if ret > 0 \<and> readbytes > dlen then Some ((- 1, readbytes, out), h)
       else Some ((ret, readbytes, out), h)
     }
   }"

definition BIO_read :: "nat \<Rightarrow> bool \<Rightarrow> int \<Rightarrow> heap \<Rightarrow> ((int \<times> byte list) \<times> heap) option" where
  "BIO_read i given dlen h =
     (if dlen < 0 then Some ((0, []), h)
      else do {
        ((ret, readbytes, out), h) \<leftarrow> bio_read_intern i given (nat dlen) h;
        Some ((if ret > 0 then to_signed 32 readbytes else ret, out), h)
      })"

definition bwrite_conv :: "nat \<Rightarrow> byte list option \<Rightarrow> nat \<Rightarrow> heap \<Rightarrow> ((int \<times> nat) \<times> heap) option" where
  "bwrite_conv i src datal h = do {
     let datal = (if datal > 2 ^ 31 - 1 then 2 ^ 31 - 1 else datal);
     (ret, h) \<leftarrow> bio_write i src (int datal) h;
     if ret \<le> 0 then Some ((ret, 0), h) else Some ((1, nat ret), h)
   }"

definition bio_write_intern :: "nat \<Rightarrow> byte list option \<Rightarrow> nat \<Rightarrow> heap \<Rightarrow> ((int \<times> nat) \<times> heap) option" where
  "bio_write_intern i src dlen h = do {
     b \<leftarrow> h i;
     if \<not> b_init b then Some ((- 2, 0), h)
     else do {
       ((ret, written), h) \<leftarrow> bwrite_conv i src dlen h;
       Some ((ret, written),
         if ret > 0 then upd_bio i (\<lambda>b. b\<lparr>b_num_write := uadd (b_num_write b) written\<rparr>) h else h)
     }
   }"

definition BIO_write :: "nat \<Rightarrow> byte list option \<Rightarrow> int \<Rightarrow> heap \<Rightarrow> (int \<times> heap) option" where
  "BIO_write i src dlen h =
     (if dlen < 0 then Some (0, h)
      else do {
        ((ret, written), h) \<leftarrow> bio_write_intern i src (nat dlen) h;
        Some (if ret > 0 then to_signed 32 written else ret, h)
      })"

definition BIO_read_ex :: "nat \<Rightarrow> bool \<Rightarrow> nat \<Rightarrow> heap \<Rightarrow> ((int \<times> nat \<times> byte list) \<times> heap) option" where
  "BIO_read_ex i given dlen h = do {
     ((ret, readbytes, out), h) \<leftarrow> bio_read_intern i given dlen h;
     Some ((if ret > 0 then 1 else 0, readbytes, out), h)
   }"

definition BIO_write_ex :: "nat \<Rightarrow> byte list option \<Rightarrow> nat \<Rightarrow> heap \<Rightarrow> ((int \<times> nat) \<times> heap) option" where
  "BIO_write_ex i src dlen h = do {
     ((ret, written), h) \<leftarrow> bio_write_intern i src dlen h;
     Some ((if ret > 0 then 1 else 0, written), h)
   }"

definition BIO_puts :: "nat \<Rightarrow> byte list \<Rightarrow> heap \<Rightarrow> (int \<times> heap) option" where
  "BIO_puts i str h = do {
     b \<leftarrow> h i;
     if \<not> b_init b then Some (- 2, h)
     else do {
       (ret, h) \<leftarrow> bio_puts i str h;
       if ret > 0 then
         let h = upd_bio i (\<lambda>b. b\<lparr>b_num_write := uadd (b_num_write b) (nat ret)\<rparr>) h; written = nat ret
         in Some (if written > 2 ^ 31 - 1 then - 1 else int written, h)
       else Some (ret, h)
     }
   }"

text \<open>The non-copying interface.\<close>

definition BIO_nread0 :: "nat \<Rightarrow> heap \<Rightarrow> ((int \<times> nat option) \<times> heap) option" where
  "BIO_nread0 i h = do {
     b \<leftarrow> h i;
     if \<not> b_init b then Some ((- 2, None), h)
     else do {
       ((ret, at), h) \<leftarrow> BIO_ctrl (\<lambda>_ _. None) (Some i) BIO_C_NREAD0 h;
       Some ((if ret > 2 ^ 31 - 1 then 2 ^ 31 - 1 else ret, at), h)
     }
   }"

definition BIO_nread :: "nat \<Rightarrow> int \<Rightarrow> heap \<Rightarrow> ((int \<times> nat option) \<times> heap) option" where
  "BIO_nread i num h = do {
     b \<leftarrow> h i;
     if \<not> b_init b then Some ((- 2, None), h)
     else do {
       ((r, at), h) \<leftarrow> BIO_ctrl (\<lambda>_ _. None) (Some i) (BIO_C_NREAD num) h;
       let ret = to_signed 32 (to_size r);
       Some ((ret, at), if ret > 0 then upd_bio i (\<lambda>b. b\<lparr>b_num_read := uadd (b_num_read b) (nat ret)\<rparr>) h else h)
     }
   }"

definition BIO_nwrite0 :: "nat \<Rightarrow> heap \<Rightarrow> ((int \<times> nat option) \<times> heap) option" where
  "BIO_nwrite0 i h = do {
     b \<leftarrow> h i;
     if \<not> b_init b then Some ((- 2, None), h)
     else do {
       ((ret, at), h) \<leftarrow> BIO_ctrl (\<lambda>_ _. None) (Some i) BIO_C_NWRITE0 h;
       Some ((if ret > 2 ^ 31 - 1 then 2 ^ 31 - 1 else ret, at), h)
     }
   }"

definition BIO_nwrite :: "nat \<Rightarrow> int \<Rightarrow> heap \<Rightarrow> ((int \<times> nat option) \<times> heap) option" where
  "BIO_nwrite i num h = do {
     b \<leftarrow> h i;
     if \<not> b_init b then Some ((- 2, None), h)
     else do {
       ((r, at), h) \<leftarrow> BIO_ctrl (\<lambda>_ _. None) (Some i) (BIO_C_NWRITE num) h;
       let ret = to_signed 32 (to_size r);
       Some ((ret, at), if ret > 0 then upd_bio i (\<lambda>b. b\<lparr>b_num_write := uadd (b_num_write b) (nat ret)\<rparr>) h else h)
     }
   }"

definition BIO_ctrl_get_write_guarantee :: "nat option \<Rightarrow> heap \<Rightarrow> (nat \<times> heap) option" where
  "BIO_ctrl_get_write_guarantee i h = do {
     ((r, _), h) \<leftarrow> BIO_ctrl (\<lambda>_ _. None) i BIO_C_GET_WRITE_GUARANTEE h; Some (to_size r, h) }"

definition BIO_ctrl_get_read_request :: "nat option \<Rightarrow> heap \<Rightarrow> (nat \<times> heap) option" where
  "BIO_ctrl_get_read_request i h = do {
     ((r, _), h) \<leftarrow> BIO_ctrl (\<lambda>_ _. None) i BIO_C_GET_READ_REQUEST h; Some (to_size r, h) }"

definition BIO_ctrl_reset_read_request :: "nat option \<Rightarrow> heap \<Rightarrow> (int \<times> heap) option" where
  "BIO_ctrl_reset_read_request i h = do {
     ((r, _), h) \<leftarrow> BIO_ctrl (\<lambda>_ _. None) i BIO_C_RESET_READ_REQUEST h; Some (if r \<noteq> 0 then 1 else 0, h) }"

end
