(* ===== verification/Bio_Ring.thy ===== *)
theory Bio_Ring
  imports Bio_Pair
begin

section \<open>The ring buffer of a BIO pair\<close>

text \<open>
  The bytes that a ring buffer holds form a list: writing appends to it, reading removes from its front, wherever the buffer
  wraps around.  The invariant is the one stated in the comments of \<^verbatim>\<open>struct bio_bio_st\<close>.
\<close>

definition ring_ok :: "bio_bio \<Rightarrow> bool" where
  "ring_ok p \<longleftrightarrow>
     (\<exists>d. bb_buf p = Some d \<and> length d = bb_size p) \<and> bb_offset p < bb_size p \<and> bb_len p \<le> bb_size p \<and>
     bb_size p < 2 ^ 63 \<and> (bb_len p = 0 \<longrightarrow> bb_offset p = 0) \<and>
     (bb_len p \<noteq> 0 \<longrightarrow> bb_request p = 0) \<and> bb_request p \<le> bb_size p"

definition contents :: "bio_bio \<Rightarrow> byte list" where
  "contents p = map (\<lambda>i. the (bb_buf p) ! ((bb_offset p + i) mod bb_size p)) [0..<bb_len p]"

lemma length_contents [simp]: "length (contents p) = bb_len p"
  by (simp add: contents_def)

lemma nth_contents: "i < bb_len p \<Longrightarrow> contents p ! i = the (bb_buf p) ! ((bb_offset p + i) mod bb_size p)"
  by (simp add: contents_def)

lemma contents_request [simp]: "contents (p\<lparr>bb_request := r\<rparr>) = contents p"
  and contents_closed [simp]: "contents (p\<lparr>bb_closed := c\<rparr>) = contents p"
  by (simp_all add: contents_def)

lemma wrap: "o' < s \<Longrightarrow> i \<le> s \<Longrightarrow> (o' + i) mod s = (if o' + i < s then o' + i else o' + i - s)" for s :: nat
  by (simp add: mod_if)

subsection \<open>Removing from the front\<close>

definition pop :: "nat \<Rightarrow> bio_bio \<Rightarrow> bio_bio" where
  "pop n p =
     (if bb_len p = n then p\<lparr>bb_len := 0, bb_offset := 0\<rparr>
      else p\<lparr>bb_len := bb_len p - n, bb_offset := (if bb_offset p + n = bb_size p then 0 else bb_offset p + n)\<rparr>)"

lemma pop_correct:
  assumes ok: "ring_ok p" and n: "n \<le> bb_len p" "bb_offset p + n \<le> bb_size p"
  shows "ring_ok (pop n p)" and "contents (pop n p) = drop n (contents p)"
    and "take n (drop (bb_offset p) (the (bb_buf p))) = take n (contents p)"
proof -
  have r: "bb_offset p < bb_size p" "bb_len p \<le> bb_size p" "length (the (bb_buf p)) = bb_size p"
    using ok by (auto simp: ring_ok_def)
  show "ring_ok (pop n p)" using ok n by (auto simp: ring_ok_def pop_def)
  show "contents (pop n p) = drop n (contents p)"
  proof (rule nth_equalityI)
    fix i assume "i < length (contents (pop n p))"
    then have i: "i + n < bb_len p" by (auto simp: pop_def split: if_splits)
    then show "contents (pop n p) ! i = drop n (contents p) ! i"
      using n r by (auto simp: pop_def nth_contents add_ac)
  qed (use n in \<open>auto simp: pop_def\<close>)
  show "take n (drop (bb_offset p) (the (bb_buf p))) = take n (contents p)"
  proof (rule nth_equalityI)
    fix i assume "i < length (take n (drop (bb_offset p) (the (bb_buf p))))"
    then have "i < n" by simp
    with n r show "take n (drop (bb_offset p) (the (bb_buf p))) ! i = take n (contents p) ! i"
      by (simp add: nth_contents)
  qed (use n r in simp)
qed

lemma read_step:
  assumes ok: "ring_ok p" and n: "n \<le> bb_len p" "bb_offset p + n \<le> bb_size p"
  shows "(let p = p\<lparr>bb_len := bb_len p - n\<rparr> in
      if bb_len p \<noteq> 0 then
        let off = bb_offset p + n
        in check (off \<le> bb_size p) \<bind> (\<lambda>_. Some (p\<lparr>bb_offset := if off = bb_size p then 0 else off\<rparr>))
      else check (n = rest) \<bind> (\<lambda>_. Some (p\<lparr>bb_offset := 0\<rparr>))) =
    (if bb_len p = n \<and> n \<noteq> rest then None else Some (pop n p))"
  using n by (auto simp: Let_def check_def pop_def)

lemma ring_read_loop_correct:
  assumes "ring_ok p" and "0 < rest" and "rest \<le> bb_len p"
  shows "\<exists>p'. ring_read_loop p rest out = Some (out @ take rest (contents p), p') \<and> ring_ok p' \<and>
    contents p' = drop rest (contents p) \<and>
    bb_peer p' = bb_peer p \<and> bb_closed p' = bb_closed p \<and> bb_size p' = bb_size p \<and> bb_request p' = bb_request p"
  using assms
proof (induction rest arbitrary: p out rule: less_induct)
  case (less rest)
  define n where "n = (if bb_offset p + rest \<le> bb_size p then rest else bb_size p - bb_offset p)"
  have r: "bb_offset p < bb_size p" "bb_len p \<le> bb_size p" and buf: "bb_buf p = Some (the (bb_buf p))"
    using less(2) by (auto simp: ring_ok_def)
  have n: "0 < n" "n \<le> rest" "n \<le> bb_len p" "bb_offset p + n \<le> bb_size p"
    using less(3,4) r by (auto simp: n_def)
  note pop = pop_correct [OF less(2) n(3,4)]
  have pf: "bb_peer (pop n p) = bb_peer p" "bb_closed (pop n p) = bb_closed p" "bb_size (pop n p) = bb_size p"
    "bb_request (pop n p) = bb_request p" "bb_len (pop n p) = bb_len p - n"
    by (simp_all add: pop_def)
  have step: "ring_read_loop p rest out =
      (if rest - n \<noteq> 0 then ring_read_loop (pop n p) (rest - n) (out @ take n (contents p))
       else Some (out @ take n (contents p), pop n p))"
  proof -
    have c: "check (rest \<le> bb_len p) = Some ()" "check (bb_offset p + n \<le> bb_size p) = Some ()"
      using less(4) n by (simp_all add: check_def)
    have "bb_len p = n \<Longrightarrow> n = rest" using less(4) n by simp
    then show ?thesis
      using read_step [OF less(2) n(3,4), of rest]
      by (subst ring_read_loop.simps, subst buf) (simp add: c pop(3) Let_def n_def [symmetric])
  qed
  show ?case
  proof (cases "rest = n")
    case True
    with step pop pf show ?thesis by simp
  next
    case False
    then have m: "rest - n < rest" "0 < rest - n" "rest - n \<le> bb_len (pop n p)" using n less(4) pf by auto
    from less(1) [OF m(1) pop(1) m(2,3)] obtain p' where
      p': "ring_read_loop (pop n p) (rest - n) (out @ take n (contents p)) =
        Some ((out @ take n (contents p)) @ take (rest - n) (contents (pop n p)), p')"
      "ring_ok p'" "contents p' = drop (rest - n) (contents (pop n p))" "bb_peer p' = bb_peer (pop n p)"
      "bb_closed p' = bb_closed (pop n p)" "bb_size p' = bb_size (pop n p)" "bb_request p' = bb_request (pop n p)"
      by blast
    have "take n (contents p) @ take (rest - n) (contents (pop n p)) = take rest (contents p)"
      unfolding pop(2) using n(2) by (metis add_diff_inverse_nat not_less take_add)
    with p' step m(2) n(2) show ?thesis by (auto simp: pop(2) pf)
  qed
qed

subsection \<open>Appending to the end\<close>

definition push :: "byte list \<Rightarrow> bio_bio \<Rightarrow> bio_bio" where
  "push bs p = p\<lparr>bb_buf := Some (overwrite (write_offset p) bs (the (bb_buf p))), bb_len := bb_len p + length bs\<rparr>"

lemma push_correct:
  assumes ok: "ring_ok p" "bb_request p = 0" and n: "bb_len p + length bs \<le> bb_size p" "write_offset p + length bs \<le> bb_size p"
    and "bb_len p < bb_size p"
  shows "ring_ok (push bs p)" and "contents (push bs p) = contents p @ bs"
proof -
  obtain d where d: "bb_buf p = Some d" "length d = bb_size p" and r: "bb_offset p < bb_size p" "bb_len p \<le> bb_size p"
    using ok by (auto simp: ring_ok_def)
  define off where "off = write_offset p"
  have off: "off = (if bb_offset p + bb_len p < bb_size p then bb_offset p + bb_len p else bb_offset p + bb_len p - bb_size p)"
    by (simp add: off_def write_offset_def Let_def)
  have len: "length (overwrite off bs d) = bb_size p" using n d by (simp add: off_def)
  show "ring_ok (push bs p)"
    using ok n(1) d len by (auto simp: ring_ok_def push_def off_def [symmetric])
  show "contents (push bs p) = contents p @ bs"
  proof (rule nth_equalityI)
    fix i assume "i < length (contents (push bs p))"
    then have i: "i < bb_len p + length bs" by (simp add: push_def)
    then have "contents (push bs p) ! i = overwrite off bs d ! ((bb_offset p + i) mod bb_size p)"
      by (simp add: push_def nth_contents d off_def [symmetric])
    also have "\<dots> = (contents p @ bs) ! i"
    proof (cases "i < bb_len p")
      case True
      then have "(bb_offset p + i) mod bb_size p < off \<or> off + length bs \<le> (bb_offset p + i) mod bb_size p"
        using n(1) r wrap [OF r(1), of i] unfolding off by (auto split: if_splits)
      with True n d show ?thesis
        by (auto simp: nth_overwrite nth_append nth_contents off_def)
    next
      case False
      then obtain k where k: "i = bb_len p + k" by (metis le_Suc_ex not_less)
      then have "(bb_offset p + i) mod bb_size p = off + k"
        using n r i assms(5) by (auto simp: wrap off off_def [symmetric] split: if_splits)
      with n d i k show ?thesis by (simp add: nth_overwrite nth_append off_def)
    qed
    finally show "contents (push bs p) ! i = (contents p @ bs) ! i" .
  qed (simp add: push_def)
qed

lemma ring_write_loop_correct:
  assumes "ring_ok p" and "bb_request p = 0" and "0 < rest" and "bb_len p + rest \<le> bb_size p" and "rest \<le> length src"
  shows "\<exists>p'. ring_write_loop p src rest = Some p' \<and> ring_ok p' \<and> contents p' = contents p @ take rest src \<and>
    bb_peer p' = bb_peer p \<and> bb_closed p' = bb_closed p \<and> bb_size p' = bb_size p \<and> bb_request p' = 0"
  using assms
proof (induction rest arbitrary: p src rule: less_induct)
  case (less rest)
  define n where "n = (if write_offset p + rest \<le> bb_size p then rest else bb_size p - write_offset p)"
  have r: "bb_offset p < bb_size p" "bb_len p < bb_size p" and buf: "bb_buf p = Some (the (bb_buf p))"
    using less(2,4,5) by (auto simp: ring_ok_def)
  then have "write_offset p < bb_size p" by (auto simp: write_offset_def Let_def)
  then have n: "0 < n" "n \<le> rest" "bb_len p + n \<le> bb_size p" "write_offset p + n \<le> bb_size p"
    using less(4,5) by (auto simp: n_def)
  then have l: "length (take n src) = n" using less(6) by simp
  have push: "ring_ok (push (take n src) p)" "contents (push (take n src) p) = contents p @ take n src"
    using push_correct [OF less(2,3), of "take n src"] n(3,4) r(2) unfolding l by simp_all
  have pf: "bb_peer (push (take n src) p) = bb_peer p" "bb_closed (push (take n src) p) = bb_closed p"
    "bb_size (push (take n src) p) = bb_size p" "bb_request (push (take n src) p) = 0"
    "bb_len (push (take n src) p) = bb_len p + n"
    using l less(3) by (simp_all add: push_def)
  have step: "ring_write_loop p src rest =
      (if rest - n \<noteq> 0 then ring_write_loop (push (take n src) p) (drop n src) (rest - n) else Some (push (take n src) p))"
  proof -
    have c: "check (bb_len p + rest \<le> bb_size p) = Some ()" "check (bb_len p + n \<le> bb_size p) = Some ()"
      using less(5) n by (simp_all add: check_def)
    have "p\<lparr>bb_buf := Some (overwrite (write_offset p) (take n src) (the (bb_buf p))), bb_len := bb_len p + n\<rparr> =
        push (take n src) p" unfolding push_def l by simp
    then show ?thesis
      by (subst ring_write_loop.simps, subst buf) (simp add: c Let_def n_def [symmetric])
  qed
  show ?case
  proof (cases "rest = n")
    case True
    with step push pf show ?thesis by simp
  next
    case False
    then have m: "rest - n < rest" "0 < rest - n" "bb_len (push (take n src) p) + (rest - n) \<le> bb_size (push (take n src) p)"
      "rest - n \<le> length (drop n src)"
      using n less(5,6) pf by auto
    from less(1) [OF m(1) push(1) pf(4) m(2-4)] obtain p' where
      p': "ring_write_loop (push (take n src) p) (drop n src) (rest - n) = Some p'" "ring_ok p'"
        "contents p' = contents (push (take n src) p) @ take (rest - n) (drop n src)"
        "bb_peer p' = bb_peer (push (take n src) p)" "bb_closed p' = bb_closed (push (take n src) p)"
        "bb_size p' = bb_size (push (take n src) p)" "bb_request p' = 0"
      by blast
    have "take n src @ take (rest - n) (drop n src) = take rest src"
      using n(2) by (metis add_diff_inverse_nat not_less take_add)
    with p' step m(2) show ?thesis by (simp add: push(2) pf)
  qed
qed

end
