(* ===== verification/Bio_Props.thy ===== *)
theory Bio_Props
  imports Bio_Ring
begin

unbundle bit_operations_syntax

section \<open>A BIO pair is two byte queues\<close>

text \<open>
  Each operation on one half of a pair is described by what it does to the two lists of bytes under way; the
  copying and the non-copying interface share this contract, which is the locale \<open>fifo_system\<close>.
\<close>

subsection \<open>The invariant\<close>

abbreviation ring :: "heap \<Rightarrow> nat \<Rightarrow> bio_bio" where
  "ring h i \<equiv> b_ptr (the (h i))"

text \<open>The bytes that \<open>i\<close> has written and its peer has not read.\<close>

definition outq :: "heap \<Rightarrow> nat \<Rightarrow> byte list" where
  "outq h i = contents (ring h i)"

definition half :: "heap \<Rightarrow> nat \<Rightarrow> nat \<Rightarrow> bool" where
  "half h i j \<longleftrightarrow> (\<exists>x. h i = Some x \<and> b_init x \<and> bb_peer (b_ptr x) = Some j \<and> ring_ok (b_ptr x))"

definition paired :: "heap \<Rightarrow> nat \<Rightarrow> nat \<Rightarrow> bool" where
  "paired h i j \<longleftrightarrow> i \<noteq> j \<and> half h i j \<and> half h j i"

lemma paired_sym: "paired h i j \<Longrightarrow> paired h j i"
  by (auto simp: paired_def)

lemma upd_bio_apply: "upd_bio i f h k = (if k = i then map_option f (h i) else h k)"
  by (simp add: upd_bio_def)

lemmas heap_simps = upd_bio_apply set_ptr_def BIO_clear_retry_flags_def BIO_set_retry_read_def BIO_set_retry_write_def

lemma retry_flags:
  "\<not> flag (w AND NOT (BIO_FLAGS_READ OR BIO_FLAGS_WRITE OR BIO_FLAGS_IO_SPECIAL OR BIO_FLAGS_SHOULD_RETRY)) BIO_FLAGS_SHOULD_RETRY"
  "flag (w OR BIO_FLAGS_READ OR BIO_FLAGS_SHOULD_RETRY) BIO_FLAGS_SHOULD_RETRY"
  "flag (w OR BIO_FLAGS_WRITE OR BIO_FLAGS_SHOULD_RETRY) BIO_FLAGS_SHOULD_RETRY"
  by (simp_all add: flag_def and.assoc bit.conj_disj_distrib2 or_eq_0_iff)

lemma to_size_nat: "0 \<le> n \<Longrightarrow> n < 2 ^ 64 \<Longrightarrow> to_size n = nat n"
  by (simp add: to_size_def)

lemma to_size_0 [simp]: "to_size 0 = 0"
  by (simp add: to_size_def)

lemma to_signed_int: "n < 2 ^ 31 \<Longrightarrow> to_signed 32 n = int n" "n < 2 ^ 63 \<Longrightarrow> to_signed 64 n = int n"
  by (simp_all add: to_signed_def Let_def)

subsection \<open>Copying\<close>

text \<open>A call changes the BIO \<open>i\<close> into \<open>x'\<close>, which still is a half of the pair.\<close>

definition becomes :: "bio \<Rightarrow> bio \<Rightarrow> byte list \<Rightarrow> bool \<Rightarrow> bool" where
  "becomes x x' c retry \<longleftrightarrow>
     b_init x' = b_init x \<and> bb_peer (b_ptr x') = bb_peer (b_ptr x) \<and> ring_ok (b_ptr x') \<and>
     bb_size (b_ptr x') = bb_size (b_ptr x) \<and> bb_closed (b_ptr x') = bb_closed (b_ptr x) \<and>
     contents (b_ptr x') = c \<and> flag (b_flags x') BIO_FLAGS_SHOULD_RETRY = retry"

lemma upd_bio_Some: "h i = Some x \<Longrightarrow> upd_bio i f h = h(i \<mapsto> f x)"
  by (simp add: upd_bio_def)

lemma ring_ok_request: "ring_ok p \<Longrightarrow> ring_ok (p\<lparr>bb_request := 0\<rparr>)"
  by (auto simp: ring_ok_def)

definition cleared :: "bio \<Rightarrow> bio" where
  "cleared b = b\<lparr>b_flags := b_flags b AND
       NOT (BIO_FLAGS_READ OR BIO_FLAGS_WRITE OR BIO_FLAGS_IO_SPECIAL OR BIO_FLAGS_SHOULD_RETRY)\<rparr>"

lemma clear_Some: "h i = Some x \<Longrightarrow> BIO_clear_retry_flags i h = h(i \<mapsto> cleared x)"
  by (simp add: BIO_clear_retry_flags_def upd_bio_Some cleared_def)

lemma set_ptr_Some: "h i = Some x \<Longrightarrow> set_ptr i p h = h(i \<mapsto> x\<lparr>b_ptr := p\<rparr>)"
  by (simp add: set_ptr_def upd_bio_Some)

lemma cleared_sel [simp]:
  "b_init (cleared x) = b_init x" "b_ptr (cleared x) = b_ptr x" "\<not> flag (b_flags (cleared x)) BIO_FLAGS_SHOULD_RETRY"
  using retry_flags(1) by (simp_all add: cleared_def)

text \<open>Writing \<open>n\<close> bytes to a BIO: the result, and what is accepted.\<close>

definition put_result :: "bio_bio \<Rightarrow> nat \<Rightarrow> int" where
  "put_result p n = (if n = 0 then 0 else if bb_closed p \<or> bb_len p = bb_size p then - 1 else int (min n (bb_size p - bb_len p)))"

definition blocked :: "bio_bio \<Rightarrow> bool" where
  "blocked p \<longleftrightarrow> \<not> bb_closed p \<and> bb_len p = bb_size p"

lemma write_becomes:
  assumes x: "h i = Some x" "b_init x" "bb_peer (b_ptr x) = Some j" "ring_ok (b_ptr x)" and n: "n < 2 ^ 31" "n \<le> length bs"
  shows "\<exists>x'. bio_write i (Some bs) (int n) h = Some (put_result (b_ptr x) n, h(i \<mapsto> x')) \<and>
    becomes x x' (contents (b_ptr x) @ take (nat (put_result (b_ptr x) n)) bs) (n \<noteq> 0 \<and> blocked (b_ptr x))"
proof -
  define q where "q = (b_ptr x)\<lparr>bb_request := 0\<rparr>"
  have ok: "ring_ok q" and buf: "bb_buf (b_ptr x) \<noteq> None" and len: "bb_len (b_ptr x) \<le> bb_size (b_ptr x)"
    using x(4) ring_ok_request by (auto simp: q_def ring_ok_def)
  have qs: "bb_request q = 0" "bb_len q = bb_len (b_ptr x)" "bb_size q = bb_size (b_ptr x)" "bb_closed q = bb_closed (b_ptr x)"
    "bb_peer q = Some j" "contents q = contents (b_ptr x)"
    using x(3) by (simp_all add: q_def)
  have sz: "to_size (int n) = n" using n(1) by (simp add: to_size_def)
  note run = bio_write_def sz clear_Some [of h i, OF x(1)] Let_def check_def q_def [symmetric]
  consider "n = 0" | "n \<noteq> 0" "bb_closed q" | "n \<noteq> 0" "\<not> bb_closed q" "bb_len q = bb_size q"
    | "n \<noteq> 0" "\<not> bb_closed q" "bb_len q < bb_size q"
    using len qs by linarith
  then show ?thesis
  proof cases
    case 1
    then have "bio_write i (Some bs) (int n) h = Some (0, h(i \<mapsto> cleared x))" by (simp add: run)
    then show ?thesis using 1 x(4) by (intro exI [of _ "cleared x"]) (simp add: put_result_def becomes_def)
  next
    case 2
    define x' where "x' = (cleared x)\<lparr>b_ptr := q\<rparr>"
    have "bio_write i (Some bs) (int n) h = Some (- 1, h(i \<mapsto> x'))"
      using 2 x buf by (simp add: run set_ptr_Some x'_def)
    then show ?thesis using 2 x ok qs
      by (intro exI [of _ x']) (simp add: put_result_def becomes_def x'_def blocked_def)
  next
    case 3
    define x' where "x' = (cleared x)\<lparr>b_ptr := q, b_flags := b_flags (cleared x) OR BIO_FLAGS_WRITE OR BIO_FLAGS_SHOULD_RETRY\<rparr>"
    have "bio_write i (Some bs) (int n) h = Some (- 1, h(i \<mapsto> x'))"
      using 3 x buf by (simp add: run set_ptr_Some x'_def BIO_set_retry_write_def upd_bio_Some)
    then show ?thesis using 3 x ok qs retry_flags(3)
      by (intro exI [of _ x']) (simp add: put_result_def becomes_def x'_def blocked_def)
  next
    case 4
    define k where "k = min n (bb_size q - bb_len q)"
    have k: "0 < k" "bb_len q + k \<le> bb_size q" "k \<le> length bs" "k < 2 ^ 31"
      using 4 n by (auto simp: k_def)
    obtain q' where q': "ring_write_loop q bs k = Some q'" "ring_ok q'" "contents q' = contents q @ take k bs"
      "bb_peer q' = bb_peer q" "bb_closed q' = bb_closed q" "bb_size q' = bb_size q"
      using ring_write_loop_correct [OF ok qs(1) k(1-3)] by blast
    define x' where "x' = (cleared x)\<lparr>b_ptr := q'\<rparr>"
    have kk: "(if bb_size q - bb_len q < n then bb_size q - bb_len q else n) = k" by (simp add: k_def)
    have r: "put_result (b_ptr x) n = int k" using 4 qs by (simp add: put_result_def k_def)
    have "bio_write i (Some bs) (int n) h = Some (int k, h(i \<mapsto> x'))"
      using 4 x buf by (simp add: run set_ptr_Some x'_def kk q'(1) to_signed_int(1) [OF k(4)])
    then show ?thesis using 4 x q' qs unfolding r
      by (intro exI [of _ x']) (simp add: becomes_def x'_def blocked_def)
  qed
qed

text \<open>Reading \<open>n\<close> bytes from the peer's buffer.\<close>

definition get_result :: "bio_bio \<Rightarrow> nat \<Rightarrow> int" where
  "get_result p n =
     (if n = 0 then 0 else if bb_len p = 0 then if bb_closed p then 0 else - 1 else int (min n (bb_len p)))"

definition starved :: "bio_bio \<Rightarrow> bool" where
  "starved p \<longleftrightarrow> \<not> bb_closed p \<and> bb_len p = 0"

lemma becomes_request:
  assumes "ring_ok (b_ptr y)" and "r \<le> bb_size (b_ptr y)" "bb_len (b_ptr y) \<noteq> 0 \<Longrightarrow> r = 0"
  shows "becomes y (y\<lparr>b_ptr := (b_ptr y)\<lparr>bb_request := r\<rparr>\<rparr>) (contents (b_ptr y)) (flag (b_flags y) BIO_FLAGS_SHOULD_RETRY)"
  using assms by (auto simp: becomes_def ring_ok_def)

lemma read_becomes:
  assumes x: "h i = Some x" "b_init x" "bb_peer (b_ptr x) = Some j" "ring_ok (b_ptr x)"
    and y: "h j = Some y" "ring_ok (b_ptr y)" and ij: "i \<noteq> j" and n: "n < 2 ^ 31"
  shows "\<exists>x' y'. bio_read i True (int n) h =
      Some ((get_result (b_ptr y) n, take (nat (get_result (b_ptr y) n)) (contents (b_ptr y))), h(i \<mapsto> x', j \<mapsto> y')) \<and>
    becomes x x' (contents (b_ptr x)) (n \<noteq> 0 \<and> starved (b_ptr y)) \<and>
    becomes y y' (drop (nat (get_result (b_ptr y) n)) (contents (b_ptr y))) (flag (b_flags y) BIO_FLAGS_SHOULD_RETRY) \<and>
    bb_request (b_ptr y') = (if n \<noteq> 0 \<and> starved (b_ptr y) then min n (bb_size (b_ptr y)) else 0)"
proof -
  define q where "q = (b_ptr y)\<lparr>bb_request := 0\<rparr>"
  have ok: "ring_ok q" and buf: "bb_buf (b_ptr y) \<noteq> None"
    using y(2) ring_ok_request by (auto simp: q_def ring_ok_def)
  have qs: "bb_request q = 0" "bb_len q = bb_len (b_ptr y)" "bb_size q = bb_size (b_ptr y)" "bb_closed q = bb_closed (b_ptr y)"
    "bb_peer q = bb_peer (b_ptr y)" "contents q = contents (b_ptr y)"
    by (simp_all add: q_def)
  have sz: "to_size (int n) = n" using n(1) by (simp add: to_size_def)
  have yq: "becomes y (y\<lparr>b_ptr := q\<rparr>) (contents (b_ptr y)) (flag (b_flags y) BIO_FLAGS_SHOULD_RETRY)"
    unfolding q_def by (rule becomes_request [OF y(2)]) simp_all
  have xc: "becomes x (cleared x) (contents (b_ptr x)) False" using x(4) by (simp add: becomes_def)
  note run = bio_read_def sz clear_Some [of h i, OF x(1)] Let_def check_def q_def [symmetric]
  consider "n = 0 \<or> bb_len q = 0 \<and> bb_closed q" | "n \<noteq> 0" "bb_len q = 0" "\<not> bb_closed q" | "n \<noteq> 0" "0 < bb_len q"
    by blast
  then show ?thesis
  proof cases
    case 1
    then have "bio_read i True (int n) h = Some ((0, []), h(i \<mapsto> cleared x, j \<mapsto> y\<lparr>b_ptr := q\<rparr>))"
      using x y ij buf by (auto simp: run set_ptr_Some)
    then show ?thesis using 1 xc yq qs
      by (intro exI [of _ "cleared x"] exI [of _ "y\<lparr>b_ptr := q\<rparr>"]) (auto simp: get_result_def starved_def)
  next
    case 2
    define x' where "x' = (cleared x)\<lparr>b_flags := b_flags (cleared x) OR BIO_FLAGS_READ OR BIO_FLAGS_SHOULD_RETRY\<rparr>"
    define y' where "y' = y\<lparr>b_ptr := (b_ptr y)\<lparr>bb_request := min n (bb_size (b_ptr y))\<rparr>\<rparr>"
    have yp: "y\<lparr>b_ptr := q\<lparr>bb_request := if n \<le> bb_size q then n else bb_size q\<rparr>\<rparr> = y'"
      by (simp add: q_def y'_def)
    have "bio_read i True (int n) h =
        Some ((- 1, []), h(i \<mapsto> x', j \<mapsto> y\<lparr>b_ptr := q\<lparr>bb_request := if n \<le> bb_size q then n else bb_size q\<rparr>\<rparr>))"
      using 2 x y ij buf
      by (simp add: run set_ptr_Some BIO_set_retry_read_def upd_bio_Some x'_def fun_upd_twist)
    note this [unfolded yp]
    moreover have "becomes x x' (contents (b_ptr x)) True"
      using x(4) retry_flags(2) by (simp add: becomes_def x'_def)
    moreover have "becomes y y' (contents (b_ptr y)) (flag (b_flags y) BIO_FLAGS_SHOULD_RETRY)"
      unfolding y'_def using 2 qs by (intro becomes_request [OF y(2)]) simp_all
    ultimately show ?thesis using 2 qs
      by (intro exI [of _ x'] exI [of _ y']) (simp add: get_result_def starved_def y'_def)
  next
    case 3
    define k where "k = min n (bb_len q)"
    have k: "0 < k" "k \<le> bb_len q" "k < 2 ^ 31"
      using 3 n by (auto simp: k_def)
    obtain q' where q': "ring_read_loop q k [] = Some (take k (contents q), q')" "ring_ok q'" "contents q' = drop k (contents q)"
      "bb_peer q' = bb_peer q" "bb_closed q' = bb_closed q" "bb_size q' = bb_size q" "bb_request q' = bb_request q"
      using ring_read_loop_correct [OF ok k(1,2), of "[]"] by auto
    define y' where "y' = y\<lparr>b_ptr := q'\<rparr>"
    have r: "get_result (b_ptr y) n = int k" using 3 qs by (simp add: get_result_def k_def)
    have "bio_read i True (int n) h = Some ((int k, take k (contents q)), h(i \<mapsto> cleared x, j \<mapsto> y'))"
    proof (cases "bb_len q < n")
      case True
      then have "k = bb_len q" by (simp add: k_def)
      with True show ?thesis
        using 3 x y ij buf k(3) q'(1) by (simp add: run set_ptr_Some y'_def to_signed_int(1))
    next
      case False
      then have "k = n" by (simp add: k_def)
      with False show ?thesis
        using 3 x y ij buf k(3) q'(1) by (simp add: run set_ptr_Some y'_def to_signed_int(1))
    qed
    then show ?thesis using 3 xc q' qs unfolding r
      by (intro exI [of _ "cleared x"] exI [of _ y']) (simp add: becomes_def y'_def starved_def)
  qed
qed

text \<open>The library functions add the counters.\<close>

lemma becomes_counters [simp]:
  "becomes x (x'\<lparr>b_num_read := v\<rparr>) c r = becomes x x' c r" "becomes x (x'\<lparr>b_num_write := v\<rparr>) c r = becomes x x' c r"
  by (simp_all add: becomes_def)

lemma put_result_less: "n < 2 ^ 31 \<Longrightarrow> put_result p n < 2 ^ 31"
  and get_result_less: "n < 2 ^ 31 \<Longrightarrow> get_result p n < 2 ^ 31"
  by (auto simp: put_result_def get_result_def min_def)

lemma BIO_write_becomes:
  assumes x: "h i = Some x" "b_init x" "bb_peer (b_ptr x) = Some j" "ring_ok (b_ptr x)" and n: "n < 2 ^ 31" "n \<le> length bs"
  shows "\<exists>x'. BIO_write i (Some bs) (int n) h = Some (put_result (b_ptr x) n, h(i \<mapsto> x')) \<and>
    becomes x x' (contents (b_ptr x) @ take (nat (put_result (b_ptr x) n)) bs) (n \<noteq> 0 \<and> blocked (b_ptr x))"
proof -
  define r where "r = put_result (b_ptr x) n"
  obtain x' where w: "bio_write i (Some bs) (int n) h = Some (r, h(i \<mapsto> x'))"
    and b: "becomes x x' (contents (b_ptr x) @ take (nat r) bs) (n \<noteq> 0 \<and> blocked (b_ptr x))"
    using write_becomes [of h i x j n bs, OF x n] unfolding r_def by blast
  have r: "r < 2 ^ 31" unfolding r_def by (rule put_result_less [OF n(1)])
  have s: "0 < r \<Longrightarrow> to_signed 32 (nat r) = r" using r by (simp add: to_signed_int(1))
  have d: "\<not> 2 ^ 31 - 1 < n" using n(1) by simp
  define x2 where "x2 = (if 0 < r then x'\<lparr>b_num_write := uadd (b_num_write x') (nat r)\<rparr> else x')"
  have "BIO_write i (Some bs) (int n) h = Some (r, h(i \<mapsto> x2))"
    using x(1,2) w s d by (auto simp: BIO_write_def bio_write_intern_def bwrite_conv_def Let_def upd_bio_Some x2_def)
  moreover have "becomes x x2 (contents (b_ptr x) @ take (nat r) bs) (n \<noteq> 0 \<and> blocked (b_ptr x))"
    using b by (cases "0 < r") (simp_all add: x2_def)
  ultimately show ?thesis unfolding r_def by blast
qed

lemma BIO_read_becomes:
  assumes x: "h i = Some x" "b_init x" "bb_peer (b_ptr x) = Some j" "ring_ok (b_ptr x)"
    and y: "h j = Some y" "ring_ok (b_ptr y)" and ij: "i \<noteq> j" and n: "n < 2 ^ 31"
  shows "\<exists>x' y'. BIO_read i True (int n) h =
      Some ((get_result (b_ptr y) n, take (nat (get_result (b_ptr y) n)) (contents (b_ptr y))), h(i \<mapsto> x', j \<mapsto> y')) \<and>
    becomes x x' (contents (b_ptr x)) (n \<noteq> 0 \<and> starved (b_ptr y)) \<and>
    becomes y y' (drop (nat (get_result (b_ptr y) n)) (contents (b_ptr y))) (flag (b_flags y) BIO_FLAGS_SHOULD_RETRY) \<and>
    bb_request (b_ptr y') = (if n \<noteq> 0 \<and> starved (b_ptr y) then min n (bb_size (b_ptr y)) else 0)"
proof -
  define r where "r = get_result (b_ptr y) n"
  obtain x' y' where w: "bio_read i True (int n) h = Some ((r, take (nat r) (contents (b_ptr y))), h(i \<mapsto> x', j \<mapsto> y'))"
    and b: "becomes x x' (contents (b_ptr x)) (n \<noteq> 0 \<and> starved (b_ptr y))"
      "becomes y y' (drop (nat r) (contents (b_ptr y))) (flag (b_flags y) BIO_FLAGS_SHOULD_RETRY)"
      "bb_request (b_ptr y') = (if n \<noteq> 0 \<and> starved (b_ptr y) then min n (bb_size (b_ptr y)) else 0)"
    using read_becomes [of h i x j y n, OF x y ij n] unfolding r_def by blast
  have r: "r < 2 ^ 31" "r \<le> int n"
    using get_result_less [OF n] unfolding r_def by (auto simp: get_result_def)
  have s: "0 < r \<Longrightarrow> to_signed 32 (nat r) = r" "\<not> n < nat r" using r by (simp_all add: to_signed_int(1))
  have d: "\<not> 2 ^ 31 - 1 < n" using n(1) by simp
  define x2 where "x2 = (if 0 < r then x'\<lparr>b_num_read := uadd (b_num_read x') (nat r)\<rparr> else x')"
  have "BIO_read i True (int n) h = Some ((r, take (nat r) (contents (b_ptr y))), h(i \<mapsto> x2, j \<mapsto> y'))"
    using x(1,2) w s d ij
    by (auto simp: BIO_read_def bio_read_intern_def bread_conv_def Let_def upd_bio_Some x2_def fun_upd_twist)
  moreover have "becomes x x2 (contents (b_ptr x)) (n \<noteq> 0 \<and> starved (b_ptr y))"
    using b by (simp add: x2_def)
  ultimately show ?thesis using b unfolding r_def by blast
qed

subsection \<open>Without copying\<close>

text \<open>How much of a buffer can be written or read in one piece.\<close>

definition space_result :: "bio_bio \<Rightarrow> nat \<Rightarrow> int" where
  "space_result p n =
     (if bb_closed p \<or> bb_len p = bb_size p then - 1
      else int (min n (min (bb_size p - bb_len p) (bb_size p - write_offset p))))"

definition piece_result :: "bio_bio \<Rightarrow> nat \<Rightarrow> int" where
  "piece_result p n =
     (if bb_len p = 0 then if bb_closed p then 0 else - 1
      else int (min n (min (bb_len p) (bb_size p - bb_offset p))))"

text \<open>The caller of \<^verbatim>\<open>BIO_nwrite\<close> stores its bytes where the pointer tells it to, the caller of \<^verbatim>\<open>BIO_nread\<close> takes
  them from there.\<close>

definition nwrite_fill :: "nat \<Rightarrow> byte list \<Rightarrow> heap \<Rightarrow> (int \<times> heap) option" where
  "nwrite_fill i bs h = do {
     ((r, at), h) \<leftarrow> BIO_nwrite i (int (length bs)) h;
     if r \<le> 0 then Some (r, h)
     else do {
       off \<leftarrow> at;
       b \<leftarrow> h i;
       d \<leftarrow> bb_buf (b_ptr b);
       Some (r, set_ptr i ((b_ptr b)\<lparr>bb_buf := Some (overwrite off (take (nat r) bs) d)\<rparr>) h)
     }
   }"

definition nread_take :: "nat \<Rightarrow> nat \<Rightarrow> heap \<Rightarrow> ((int \<times> byte list) \<times> heap) option" where
  "nread_take i n h = do {
     ((r, at), h) \<leftarrow> BIO_nread i (int n) h;
     if r \<le> 0 then Some ((r, []), h)
     else do {
       off \<leftarrow> at;
       b \<leftarrow> h i;
       j \<leftarrow> bb_peer (b_ptr b);
       pb \<leftarrow> h j;
       d \<leftarrow> bb_buf (b_ptr pb);
       Some ((r, take (nat r) (drop off d)), h)
     }
   }"

lemma write_offset_less: "ring_ok p \<Longrightarrow> bb_len p \<noteq> bb_size p \<Longrightarrow> write_offset p < bb_size p"
  by (auto simp: ring_ok_def write_offset_def Let_def)

lemma nwrite0_run:
  assumes x: "h i = Some x" "b_init x" "bb_peer (b_ptr x) = Some j" "ring_ok (b_ptr x)"
    and x1: "x1 = (cleared x)\<lparr>b_ptr := (b_ptr x)\<lparr>bb_request := 0\<rparr>\<rparr>"
  shows "bio_nwrite0 i h =
    (if bb_closed (b_ptr x) then Some ((- 1, None), h(i \<mapsto> x1))
     else if bb_len (b_ptr x) = bb_size (b_ptr x) then
       Some ((- 1, None), h(i \<mapsto> x1\<lparr>b_flags := b_flags x1 OR BIO_FLAGS_WRITE OR BIO_FLAGS_SHOULD_RETRY\<rparr>))
     else Some ((int (min (bb_size (b_ptr x) - bb_len (b_ptr x)) (bb_size (b_ptr x) - write_offset (b_ptr x))),
        Some (write_offset (b_ptr x))), h(i \<mapsto> x1)))"
proof -
  define q where "q = (b_ptr x)\<lparr>bb_request := 0\<rparr>"
  define m where "m = min (bb_size q - bb_len q) (bb_size q - write_offset q)"
  have buf: "bb_buf (b_ptr x) \<noteq> None" and len: "bb_len q \<le> bb_size q" and s: "bb_size q < 2 ^ 63"
    using x(4) by (auto simp: q_def ring_ok_def)
  have qs: "bb_len q = bb_len (b_ptr x)" "bb_size q = bb_size (b_ptr x)" "bb_closed q = bb_closed (b_ptr x)"
    "write_offset q = write_offset (b_ptr x)"
    by (simp_all add: q_def write_offset_def Let_def)
  have off: "bb_len q \<noteq> bb_size q \<Longrightarrow> write_offset q < bb_size q"
    using write_offset_less [OF x(4)] by (simp add: qs)
  note run = bio_nwrite0_def clear_Some [of h i, OF x(1)] Let_def check_def q_def [symmetric] x1
  show ?thesis
  proof (cases "bb_closed q \<or> bb_len q = bb_size q")
    case True
    then show ?thesis using x buf
      by (auto simp: run set_ptr_Some BIO_set_retry_write_def upd_bio_Some qs [symmetric])
  next
    case False
    then have o': "write_offset q < bb_size q" using off by simp
    have m': "write_offset q + m \<le> bb_size q" "to_signed 64 m = int m"
      using o' s to_signed_int(2) [of m] by (auto simp: m_def)
    have "bio_nwrite0 i h = Some ((int m, Some (write_offset q)), h(i \<mapsto> x1))"
    proof (cases "bb_size q < write_offset q + (bb_size q - bb_len q)")
      case True
      then have "m = bb_size q - write_offset q" by (simp add: m_def)
      with True show ?thesis using False x buf len m' by (simp add: run set_ptr_Some)
    next
      case wrap: False
      then have "m = bb_size q - bb_len q" using o' by (simp add: m_def)
      with wrap show ?thesis using False x buf len m' by (simp add: run set_ptr_Some)
    qed
    with False show ?thesis by (simp add: qs m_def)
  qed
qed

lemma int_of_long: "- 1 \<le> r \<Longrightarrow> r < 2 ^ 31 \<Longrightarrow> to_signed 32 (to_size r) = r"
proof -
  assume r: "- 1 \<le> r" "r < 2 ^ 31"
  have "to_signed 32 (to_size (- 1)) = - 1" by (simp add: to_signed_def to_size_def Let_def)
  moreover have "0 \<le> r \<Longrightarrow> to_signed 32 (to_size r) = r" using r by (simp add: to_size_nat to_signed_int)
  ultimately show ?thesis using r(1) by (cases "r = - 1") auto
qed

lemma BIO_nwrite_run:
  assumes "h i = Some x" "b_init x" and n: "n < 2 ^ 31" and "bio_nwrite i n h = Some ((r, at), h')" "- 1 \<le> r" "r < 2 ^ 31"
  shows "BIO_nwrite i (int n) h =
    Some ((r, at), if r > 0 then upd_bio i (\<lambda>b. b\<lparr>b_num_write := uadd (b_num_write b) (nat r)\<rparr>) h' else h')"
  using assms int_of_long [of r] to_size_nat [of "int n"] by (simp add: BIO_nwrite_def BIO_ctrl_def bio_ctrl_def Let_def)

lemma BIO_nread_run:
  assumes "h i = Some x" "b_init x" and n: "n < 2 ^ 31" and "bio_nread i n h = Some ((r, at), h')" "- 1 \<le> r" "r < 2 ^ 31"
  shows "BIO_nread i (int n) h =
    Some ((r, at), if r > 0 then upd_bio i (\<lambda>b. b\<lparr>b_num_read := uadd (b_num_read b) (nat r)\<rparr>) h' else h')"
  using assms int_of_long [of r] to_size_nat [of "int n"] by (simp add: BIO_nread_def BIO_ctrl_def bio_ctrl_def Let_def)

lemma push_swap:
  "push bs p = p\<lparr>bb_len := bb_len p + length bs, bb_buf := Some (overwrite (write_offset p) bs (the (bb_buf p)))\<rparr>"
  by (rule bio_bio.equality) (simp_all add: push_def)

lemma nwrite_becomes:
  assumes x: "h i = Some x" "b_init x" "bb_peer (b_ptr x) = Some j" "ring_ok (b_ptr x)" and n: "length bs < 2 ^ 31"
  shows "\<exists>x'. nwrite_fill i bs h = Some (space_result (b_ptr x) (length bs), h(i \<mapsto> x')) \<and>
    becomes x x' (contents (b_ptr x) @ take (nat (space_result (b_ptr x) (length bs))) bs) (blocked (b_ptr x))"
proof -
  define q where "q = (b_ptr x)\<lparr>bb_request := 0\<rparr>"
  define x1 where "x1 = (cleared x)\<lparr>b_ptr := q\<rparr>"
  define r where "r = space_result (b_ptr x) (length bs)"
  have ok: "ring_ok q" using x(4) ring_ok_request by (simp add: q_def)
  have qs: "bb_request q = 0" "bb_len q = bb_len (b_ptr x)" "bb_size q = bb_size (b_ptr x)" "bb_closed q = bb_closed (b_ptr x)"
    "bb_peer q = Some j" "contents q = contents (b_ptr x)" "write_offset q = write_offset (b_ptr x)" "bb_buf q = bb_buf (b_ptr x)"
    using x(3) by (simp_all add: q_def write_offset_def Let_def)
  have r: "- 1 \<le> r" "r < 2 ^ 31" "r \<le> int (length bs)" using n by (auto simp: r_def space_result_def)
  have lt: "\<not> OSSL_SSIZE_MAX < length bs" using n by simp
  note run0 = nwrite0_run [of h i x j x1, OF x x1_def [unfolded q_def]]
  show ?thesis
  proof (cases "r \<le> 0")
    case True
    define x2 where "x2 = (if blocked (b_ptr x)
        then x1\<lparr>b_flags := b_flags x1 OR BIO_FLAGS_WRITE OR BIO_FLAGS_SHOULD_RETRY\<rparr> else x1)"
    obtain at where "bio_nwrite i (length bs) h = Some ((r, at), h(i \<mapsto> x2))"
    proof (cases "bb_closed (b_ptr x) \<or> bb_len (b_ptr x) = bb_size (b_ptr x)")
      case True
      then show ?thesis using that lt by (auto simp: bio_nwrite_def run0 Let_def x2_def r_def space_result_def blocked_def)
    next
      case False
      then have "write_offset (b_ptr x) < bb_size (b_ptr x)" using write_offset_less [OF x(4)] by simp
      moreover have "bb_len (b_ptr x) < bb_size (b_ptr x)" using False x(4) by (simp add: ring_ok_def)
      ultimately have "length bs = 0"
        using True False by (auto simp: r_def space_result_def min_def split: if_splits)
      then show ?thesis using False that
        by (auto simp: bio_nwrite_def run0 Let_def x2_def r_def space_result_def blocked_def)
    qed
    from BIO_nwrite_run [of h i x "length bs", OF x(1,2) n this r(1,2)] True
    have "nwrite_fill i bs h = Some (r, h(i \<mapsto> x2))" by (simp add: nwrite_fill_def)
    moreover have "becomes x x2 (contents (b_ptr x)) (blocked (b_ptr x))"
      using x ok qs retry_flags(3) by (simp add: becomes_def x2_def x1_def)
    ultimately show ?thesis using True unfolding r_def by auto
  next
    case False
    then have opn: "\<not> bb_closed q" "bb_len q \<noteq> bb_size q" by (auto simp: r_def space_result_def qs)
    define k where "k = min (length bs) (min (bb_size q - bb_len q) (bb_size q - write_offset q))"
    have rk: "r = int k" using opn by (simp add: r_def space_result_def qs k_def)
    have less: "bb_len q < bb_size q" "write_offset q < bb_size q"
      using ok write_offset_less [OF ok opn(2)] opn(2) by (simp_all add: ring_ok_def)
    have k: "r = int k" "0 < k" "k \<le> length bs" "bb_len q + k \<le> bb_size q" "write_offset q + k \<le> bb_size q"
      "k = min (length bs) (min (bb_size q - bb_len q) (bb_size q - write_offset q))"
      using rk False less by (simp_all add: k_def)
    have push: "ring_ok (push (take k bs) q)" "contents (push (take k bs) q) = contents q @ take k bs"
      using push_correct [OF ok qs(1), of "take k bs"] k(3-5) less(1) by simp_all
    obtain d where d: "bb_buf q = Some d" using ok by (auto simp: ring_ok_def)
    have "bio_nwrite i (length bs) h =
        Some ((r, Some (write_offset q)), h(i \<mapsto> x1\<lparr>b_ptr := q\<lparr>bb_len := bb_len q + k\<rparr>\<rparr>))"
    proof -
      define m where "m = min (bb_size q - bb_len q) (bb_size q - write_offset q)"
      have run: "bio_nwrite0 i h = Some ((int m, Some (write_offset q)), h(i \<mapsto> x1))"
        using opn by (simp add: run0 qs m_def)
      have km: "k = min (length bs) m" unfolding k_def m_def ..
      have x1q: "b_ptr x1 = q" by (simp add: x1_def)
      show ?thesis
      proof (cases "m < length bs")
        case True
        then have "k = m" using km by simp
        with True show ?thesis
          using lt k(1,2,4) by (simp add: bio_nwrite_def run Let_def check_def set_ptr_Some x1q)
      next
        case False
        then have "k = length bs" using km by simp
        with False show ?thesis
          using lt k(1,2,4) by (simp add: bio_nwrite_def run Let_def check_def set_ptr_Some x1q)
      qed
    qed
    from BIO_nwrite_run [of h i x "length bs", OF x(1,2) n this r(1,2)] False
    have "nwrite_fill i bs h = Some (r, h(i \<mapsto> x1\<lparr>b_num_write := uadd (b_num_write x) k, b_ptr := push (take k bs) q\<rparr>))"
      using k(1,3) d
      by (simp add: nwrite_fill_def upd_bio_Some set_ptr_Some push_swap x1_def cleared_def)
    moreover have "becomes x (x1\<lparr>b_num_write := uadd (b_num_write x) k, b_ptr := push (take k bs) q\<rparr>)
        (contents (b_ptr x) @ take k bs) (blocked (b_ptr x))"
      using x push opn qs by (simp add: becomes_def x1_def blocked_def) (simp add: push_def)
    ultimately show ?thesis using k(1) unfolding r_def [symmetric] by auto
  qed
qed

lemma nread0_empty:
  assumes x: "h i = Some x" "b_init x" "bb_peer (b_ptr x) = Some j" "ring_ok (b_ptr x)"
    and y: "h j = Some y" "ring_ok (b_ptr y)" and ij: "i \<noteq> j" and e: "bb_len (b_ptr y) = 0"
  shows "\<exists>x' y'. bio_nread0 i h = Some ((get_result (b_ptr y) 1, None), h(i \<mapsto> x', j \<mapsto> y')) \<and>
    becomes x x' (contents (b_ptr x)) (starved (b_ptr y)) \<and>
    becomes y y' (contents (b_ptr y)) (flag (b_flags y) BIO_FLAGS_SHOULD_RETRY)"
proof -
  define q where "q = (b_ptr y)\<lparr>bb_request := 0\<rparr>"
  define y1 where "y1 = y\<lparr>b_ptr := q\<rparr>"
  define h2 where "h2 = h(i \<mapsto> cleared x, j \<mapsto> y1)"
  have q: "ring_ok q" "get_result q 1 = get_result (b_ptr y) 1" "starved q = starved (b_ptr y)" "contents q = contents (b_ptr y)"
    using y(2) ring_ok_request by (simp_all add: q_def get_result_def starved_def)
  have c: "h2 i = Some (cleared x)" "b_init (cleared x)" "bb_peer (b_ptr (cleared x)) = Some j" "ring_ok (b_ptr (cleared x))"
    "h2 j = Some y1" "ring_ok (b_ptr y1)"
    using x ij q(1) by (simp_all add: h2_def y1_def)
  have buf: "bb_buf (b_ptr y) \<noteq> None" using y(2) by (auto simp: ring_ok_def)
  have g: "nat (get_result q 1) = 0" using e by (simp add: get_result_def q_def)
  obtain x' y' where r: "bio_read i True (int 1) h2 = Some ((get_result q 1, []), h2(i \<mapsto> x', j \<mapsto> y'))"
    and b: "becomes (cleared x) x' (contents (b_ptr x)) (starved q)"
      "becomes y1 y' (contents q) (flag (b_flags y1) BIO_FLAGS_SHOULD_RETRY)"
    using read_becomes [of h2 i "cleared x" j y1 1, OF c ij] g by (auto simp: y1_def)
  have "bio_nread0 i h = Some ((get_result (b_ptr y) 1, None), h(i \<mapsto> x', j \<mapsto> y'))"
    using x y ij buf e r q(2)
    by (simp add: bio_nread0_def clear_Some [of h i, OF x(1)] Let_def check_def set_ptr_Some q_def [symmetric]
        y1_def [symmetric] h2_def [symmetric]) (simp add: h2_def fun_upd_twist)
  moreover have "becomes x x' (contents (b_ptr x)) (starved (b_ptr y))"
    using b(1) q(3) by (simp add: becomes_def)
  moreover have "becomes y y' (contents (b_ptr y)) (flag (b_flags y) BIO_FLAGS_SHOULD_RETRY)"
    using b(2) by (simp add: becomes_def y1_def q_def)
  ultimately show ?thesis by blast
qed

lemma nread_becomes:
  assumes x: "h i = Some x" "b_init x" "bb_peer (b_ptr x) = Some j" "ring_ok (b_ptr x)"
    and y: "h j = Some y" "ring_ok (b_ptr y)" and ij: "i \<noteq> j" and n: "n < 2 ^ 31"
  shows "\<exists>x' y'. nread_take i n h =
      Some ((piece_result (b_ptr y) n, take (nat (piece_result (b_ptr y) n)) (contents (b_ptr y))), h(i \<mapsto> x', j \<mapsto> y')) \<and>
    becomes x x' (contents (b_ptr x)) (starved (b_ptr y)) \<and>
    becomes y y' (drop (nat (piece_result (b_ptr y) n)) (contents (b_ptr y))) (flag (b_flags y) BIO_FLAGS_SHOULD_RETRY)"
proof -
  define r where "r = piece_result (b_ptr y) n"
  have r: "- 1 \<le> r" "r < 2 ^ 31" using n by (auto simp: r_def piece_result_def)
  have lt: "\<not> OSSL_SSIZE_MAX < n" using n by simp
  show ?thesis
  proof (cases "bb_len (b_ptr y) = 0")
    case True
    then have r0: "r \<le> 0" "r = get_result (b_ptr y) 1" by (auto simp: r_def piece_result_def get_result_def)
    obtain x' y' where run: "bio_nread0 i h = Some ((r, None), h(i \<mapsto> x', j \<mapsto> y'))"
      and b: "becomes x x' (contents (b_ptr x)) (starved (b_ptr y))"
        "becomes y y' (contents (b_ptr y)) (flag (b_flags y) BIO_FLAGS_SHOULD_RETRY)"
      using nread0_empty [of h i x j y, OF x y ij True] unfolding r0(2) by blast
    have "bio_nread i n h = Some ((r, None), h(i \<mapsto> x', j \<mapsto> y'))"
      using r0(1) by (auto simp: bio_nread_def run Let_def)
    from BIO_nread_run [of h i x n, OF x(1,2) n this r] r0(1)
    have "nread_take i n h = Some ((r, []), h(i \<mapsto> x', j \<mapsto> y'))" by (simp add: nread_take_def)
    with b r0(1) show ?thesis unfolding r_def [symmetric] by auto
  next
    case False
    define q where "q = (b_ptr y)\<lparr>bb_request := 0\<rparr>"
    define m where "m = min (bb_len q) (bb_size q - bb_offset q)"
    define k where "k = min n m"
    have ok: "ring_ok q" and buf: "bb_buf (b_ptr y) \<noteq> None"
      using y(2) ring_ok_request by (auto simp: q_def ring_ok_def)
    have s: "bb_size q < 2 ^ 63" "bb_offset q < bb_size q" "bb_len q \<le> bb_size q" using ok by (simp_all add: ring_ok_def)
    have qs: "bb_len q = bb_len (b_ptr y)" "bb_size q = bb_size (b_ptr y)" "bb_closed q = bb_closed (b_ptr y)"
      "bb_peer q = bb_peer (b_ptr y)" "contents q = contents (b_ptr y)" "bb_offset q = bb_offset (b_ptr y)"
      by (simp_all add: q_def)
    have rk: "r = int k" using False by (simp add: r_def piece_result_def k_def m_def qs)
    have m: "0 < m" "to_signed 64 m = int m" using s False to_signed_int(2) [of m] by (auto simp: m_def qs)
    have km: "k \<le> m" "k \<le> bb_len q" "bb_offset q + k \<le> bb_size q" using s by (auto simp: k_def m_def)
    note pop = pop_correct [OF ok km(2,3)]
    have run: "bio_nread0 i h = Some ((int m, Some (bb_offset q)), h(i \<mapsto> cleared x, j \<mapsto> y\<lparr>b_ptr := q\<rparr>))"
    proof (cases "bb_size q < bb_offset q + bb_len q")
      case True
      then have "m = bb_size q - bb_offset q" by (simp add: m_def)
      with True show ?thesis using False x y ij buf m
        by (simp add: bio_nread0_def clear_Some [of h i, OF x(1)] Let_def check_def set_ptr_Some q_def [symmetric] qs)
    next
      case wrap: False
      then have "m = bb_len q" using s by (simp add: m_def)
      with wrap show ?thesis using False x y ij buf m
        by (simp add: bio_nread0_def clear_Some [of h i, OF x(1)] Let_def check_def set_ptr_Some q_def [symmetric] qs)
    qed
    define y' where "y' = y\<lparr>b_ptr := (if k = 0 then q else pop k q)\<rparr>"
    have "bio_nread i n h = Some ((int k, Some (bb_offset q)), h(i \<mapsto> cleared x, j \<mapsto> y'))"
    proof (cases "k = 0")
      case True
      then have "n = 0" using m by (simp add: k_def)
      then show ?thesis using m True by (simp add: bio_nread_def run Let_def y'_def)
    next
      case k0: False
      have len: "bb_len q \<noteq> 0" using False by (simp add: qs)
      show ?thesis
      proof (cases "m < n")
        case True
        then have "k = m" by (simp add: k_def)
        with True show ?thesis using x ij lt k0 km len
          by (cases "bb_len q = k") (auto simp: bio_nread_def run Let_def check_def set_ptr_Some pop_def y'_def)
      next
        case False
        then have "k = n" by (simp add: k_def)
        with False show ?thesis using x ij lt k0 km len
          by (cases "bb_len q = k") (auto simp: bio_nread_def run Let_def check_def set_ptr_Some pop_def y'_def)
      qed
    qed
    note run2 = BIO_nread_run [of h i x n, OF x(1,2) n this [folded rk] r]
    define x' where "x' = (if k = 0 then cleared x else (cleared x)\<lparr>b_num_read := uadd (b_num_read (cleared x)) k\<rparr>)"
    obtain d where d: "bb_buf q = Some d" using ok by (auto simp: ring_ok_def)
    have "nread_take i n h = Some ((int k, take k (contents q)), h(i \<mapsto> x', j \<mapsto> y'))"
    proof (cases "k = 0")
      case True
      then show ?thesis using run2 rk by (simp add: nread_take_def x'_def)
    next
      case False
      then have "bb_buf (b_ptr y') = Some d" using d by (simp add: y'_def pop_def)
      then show ?thesis using False run2 rk x(3) ij pop(3) d
        by (simp add: nread_take_def x'_def upd_bio_Some fun_upd_twist)
    qed
    moreover have "becomes x x' (contents (b_ptr x)) (starved (b_ptr y))"
      using x False by (simp add: becomes_def x'_def starved_def)
    moreover have "becomes y y' (drop k (contents (b_ptr y))) (flag (b_flags y) BIO_FLAGS_SHOULD_RETRY)"
    proof -
      have "bb_closed (pop k q) = bb_closed q" "bb_peer (pop k q) = bb_peer q" "bb_size (pop k q) = bb_size q"
        by (simp_all add: pop_def)
      then show ?thesis using pop ok qs by (simp add: becomes_def y'_def)
    qed
    ultimately show ?thesis unfolding r_def [symmetric] rk by (intro exI [of _ x'] exI [of _ y']) (simp add: qs)
  qed
qed

end
