(* ===== verification/Bio_Fifo.thy ===== *)
theory Bio_Fifo
  imports Bio_Props
begin

section \<open>The contract of a BIO pair\<close>

text \<open>
  Whatever the two halves do, in any order and through either interface, the bytes that one half receives are those the
  other one sent, in order; what is missing is what the buffer holds.
\<close>

subsection \<open>Queues\<close>

fun run_ops :: "('op \<Rightarrow> 's \<Rightarrow> ('a list \<times> 'a list \<times> 's) option) \<Rightarrow> 'op list \<Rightarrow> 's \<Rightarrow> ('a list \<times> 'a list \<times> 's) option" where
  "run_ops step [] s = Some ([], [], s)"
| "run_ops step (x # xs) s =
     (case step x s of None \<Rightarrow> None
      | Some (sent, got, s') \<Rightarrow>
          (case run_ops step xs s' of None \<Rightarrow> None
           | Some (sent', got', s'') \<Rightarrow> Some (sent @ sent', got @ got', s'')))"

text \<open>A bounded queue: an operation takes what it gets from the front and puts what it sends at the end.\<close>

locale fifo_system =
  fixes step :: "'op \<Rightarrow> 's \<Rightarrow> ('a list \<times> 'a list \<times> 's) option"
    and ok :: "'s \<Rightarrow> bool" and valid :: "'op \<Rightarrow> bool" and queue :: "'s \<Rightarrow> 'a list" and capacity :: "'s \<Rightarrow> nat"
  assumes step_fifo: "ok s \<Longrightarrow> valid x \<Longrightarrow>
      \<exists>sent got s'. step x s = Some (sent, got, s') \<and> ok s' \<and> capacity s' = capacity s \<and> queue s @ sent = got @ queue s'"
    and bounded: "ok s \<Longrightarrow> length (queue s) \<le> capacity s"
begin

lemma run_fifo:
  assumes "ok s" and "\<And>x. x \<in> set xs \<Longrightarrow> valid x"
  shows "\<exists>sent got s'. run_ops step xs s = Some (sent, got, s') \<and> ok s' \<and> capacity s' = capacity s \<and>
    queue s @ sent = got @ queue s'"
  using assms
proof (induction xs arbitrary: s)
  case (Cons x xs)
  then obtain a b t where 1: "step x s = Some (a, b, t)" "ok t" "capacity t = capacity s" "queue s @ a = b @ queue t"
    using step_fifo [of s x] by auto
  obtain a' b' u where 2: "run_ops step xs t = Some (a', b', u)" "ok u" "capacity u = capacity t" "queue t @ a' = b' @ queue u"
    using Cons(1) [OF 1(2)] Cons(3) by auto
  have "queue s @ a @ a' = b @ b' @ queue u" using 1(4) 2(4) by (metis append.assoc)
  with 1 2 show ?case by simp
qed simp

lemma run_bounded:
  assumes "ok s" and "\<And>x. x \<in> set xs \<Longrightarrow> valid x" and "run_ops step xs s = Some (sent, got, s')" and "queue s = []"
  shows "sent = got @ queue s' \<and> length sent \<le> length got + capacity s"
proof -
  have "ok s'" "capacity s' = capacity s" "queue s @ sent = got @ queue s'"
    using run_fifo [of s xs] assms by auto
  with bounded [of s'] assms(4) show ?thesis by simp
qed

end

subsection \<open>The operations of one half\<close>

datatype pair_op =
  Op_write "byte list" | Op_read nat | Op_nwrite "byte list" | Op_nread nat
| Op_shutdown | Op_reset_request | Op_query bio_cmd

definition queries :: "bio_cmd set" where
  "queries = {BIO_C_GET_WRITE_BUF_SIZE, BIO_C_GET_WRITE_GUARANTEE, BIO_C_GET_READ_REQUEST, BIO_CTRL_GET_CLOSE,
     BIO_CTRL_PENDING, BIO_CTRL_WPENDING, BIO_CTRL_FLUSH, BIO_CTRL_EOF}"

fun valid_op :: "pair_op \<Rightarrow> bool" where
  "valid_op (Op_write bs) = (length bs < 2 ^ 31)"
| "valid_op (Op_nwrite bs) = (length bs < 2 ^ 31)"
| "valid_op (Op_read n) = (n < 2 ^ 31)"
| "valid_op (Op_nread n) = (n < 2 ^ 31)"
| "valid_op (Op_query cmd) = (cmd \<in> queries)"
| "valid_op _ = True"

text \<open>The bytes sent, the bytes got, and the heap.\<close>

fun do_op :: "nat \<Rightarrow> pair_op \<Rightarrow> heap \<Rightarrow> (byte list \<times> byte list \<times> heap) option" where
  "do_op i (Op_write bs) h = do { (r, h) \<leftarrow> BIO_write i (Some bs) (int (length bs)) h; Some (take (nat r) bs, [], h) }"
| "do_op i (Op_nwrite bs) h = do { (r, h) \<leftarrow> nwrite_fill i bs h; Some (take (nat r) bs, [], h) }"
| "do_op i (Op_read n) h = do { ((r, bs), h) \<leftarrow> BIO_read i True (int n) h; Some ([], bs, h) }"
| "do_op i (Op_nread n) h = do { ((r, bs), h) \<leftarrow> nread_take i n h; Some ([], bs, h) }"
| "do_op i Op_shutdown h = do { (_, h) \<leftarrow> BIO_ctrl (\<lambda>_ _. None) (Some i) BIO_C_SHUTDOWN_WR h; Some ([], [], h) }"
| "do_op i Op_reset_request h = do { (_, h) \<leftarrow> BIO_ctrl_reset_read_request (Some i) h; Some ([], [], h) }"
| "do_op i (Op_query cmd) h = do { (_, h) \<leftarrow> BIO_ctrl (\<lambda>_ _. None) (Some i) cmd h; Some ([], [], h) }"

lemma pairedE:
  assumes "paired h i j"
  obtains x y where "i \<noteq> j" "h i = Some x" "b_init x" "bb_peer (b_ptr x) = Some j" "ring_ok (b_ptr x)"
    "h j = Some y" "b_init y" "bb_peer (b_ptr y) = Some i" "ring_ok (b_ptr y)"
  using assms by (auto simp: paired_def half_def)

lemma becomes_paired:
  assumes "paired h i j" and "h i = Some x" "h j = Some y" and "becomes x x' c r" "becomes y y' d s"
  shows "paired (h(i \<mapsto> x', j \<mapsto> y')) i j"
  using assms by (auto simp: paired_def half_def becomes_def)

lemma becomes_refl: "ring_ok (b_ptr y) \<Longrightarrow> becomes y y (contents (b_ptr y)) (flag (b_flags y) BIO_FLAGS_SHOULD_RETRY)"
  by (simp add: becomes_def)

text \<open>The common conclusion: the buffers after a call, given what became of the two BIOs.\<close>

lemma op_done:
  assumes p: "paired h i j" and h: "h i = Some x" "h j = Some y"
    and b: "becomes x x' (contents (b_ptr x) @ sent) r" "becomes y y' d s" "contents (b_ptr y) = got @ d"
  shows "paired (h(i \<mapsto> x', j \<mapsto> y')) i j \<and> outq (h(i \<mapsto> x', j \<mapsto> y')) i = outq h i @ sent \<and>
    outq h j = got @ outq (h(i \<mapsto> x', j \<mapsto> y')) j \<and>
    bb_size (ring (h(i \<mapsto> x', j \<mapsto> y')) i) = bb_size (ring h i) \<and>
    bb_size (ring (h(i \<mapsto> x', j \<mapsto> y')) j) = bb_size (ring h j)"
  using becomes_paired [OF p h b(1,2)] assms by (auto simp: outq_def becomes_def paired_def)

lemma do_op_correct:
  assumes p: "paired h i j" and v: "valid_op op"
  shows "\<exists>sent got h'. do_op i op h = Some (sent, got, h') \<and> paired h' i j \<and> outq h' i = outq h i @ sent \<and>
    outq h j = got @ outq h' j \<and> bb_size (ring h' i) = bb_size (ring h i) \<and> bb_size (ring h' j) = bb_size (ring h j)"
proof -
  obtain x y where x: "h i = Some x" "b_init x" "bb_peer (b_ptr x) = Some j" "ring_ok (b_ptr x)"
    and y: "h j = Some y" "b_init y" "bb_peer (b_ptr y) = Some i" "ring_ok (b_ptr y)" and ij: "i \<noteq> j"
    using p by (elim pairedE) blast
  have hj: "h(i \<mapsto> x', j \<mapsto> y) = h(i \<mapsto> x')" for x' using y(1) ij by (auto simp: fun_eq_iff)
  have hij: "h(i \<mapsto> x, j \<mapsto> y) = h" using x(1) y(1) by (auto simp: fun_eq_iff)
  note stay = becomes_refl [OF y(4)]
  show ?thesis
  proof (cases op)
    case (Op_write bs)
    then obtain x' where "BIO_write i (Some bs) (int (length bs)) h = Some (put_result (b_ptr x) (length bs), h(i \<mapsto> x'))"
      and b: "becomes x x' (contents (b_ptr x) @ take (nat (put_result (b_ptr x) (length bs))) bs) (length bs \<noteq> 0 \<and> blocked (b_ptr x))"
      using BIO_write_becomes [of h i x j "length bs" bs, OF x] v by auto
    with op_done [OF p x(1) y(1) b stay, of "[]"] show ?thesis by (simp add: Op_write hj)
  next
    case (Op_nwrite bs)
    then obtain x' where "nwrite_fill i bs h = Some (space_result (b_ptr x) (length bs), h(i \<mapsto> x'))"
      and b: "becomes x x' (contents (b_ptr x) @ take (nat (space_result (b_ptr x) (length bs))) bs) (blocked (b_ptr x))"
      using nwrite_becomes [of h i x j bs, OF x] v by auto
    with op_done [OF p x(1) y(1) b stay, of "[]"] show ?thesis by (simp add: Op_nwrite hj)
  next
    case (Op_read n)
    define r where "r = nat (get_result (b_ptr y) n)"
    obtain x' y' where "BIO_read i True (int n) h =
        Some ((get_result (b_ptr y) n, take r (contents (b_ptr y))), h(i \<mapsto> x', j \<mapsto> y'))"
      and b: "becomes x x' (contents (b_ptr x)) (n \<noteq> 0 \<and> starved (b_ptr y))"
        "becomes y y' (drop r (contents (b_ptr y))) (flag (b_flags y) BIO_FLAGS_SHOULD_RETRY)"
      using BIO_read_becomes [of h i x j y n, OF x y(1,4) ij] v Op_read unfolding r_def by auto
    with op_done [OF p x(1) y(1) _ b(2), of x' "[]" _ "take r (contents (b_ptr y))"] b(1)
    show ?thesis by (simp add: Op_read)
  next
    case (Op_nread n)
    define r where "r = nat (piece_result (b_ptr y) n)"
    obtain x' y' where "nread_take i n h =
        Some ((piece_result (b_ptr y) n, take r (contents (b_ptr y))), h(i \<mapsto> x', j \<mapsto> y'))"
      and b: "becomes x x' (contents (b_ptr x)) (starved (b_ptr y))"
        "becomes y y' (drop r (contents (b_ptr y))) (flag (b_flags y) BIO_FLAGS_SHOULD_RETRY)"
      using nread_becomes [of h i x j y n, OF x y(1,4) ij] v Op_nread unfolding r_def by auto
    with op_done [OF p x(1) y(1) _ b(2), of x' "[]" _ "take r (contents (b_ptr y))"] b(1)
    show ?thesis by (simp add: Op_nread)
  next
    case Op_shutdown
    define x' where "x' = x\<lparr>b_ptr := (b_ptr x)\<lparr>bb_closed := True\<rparr>\<rparr>"
    have "do_op i Op_shutdown h = Some ([], [], h(i \<mapsto> x'))"
      using x(1) by (simp add: BIO_ctrl_def bio_ctrl_def plain_ctrl_def set_ptr_Some x'_def Let_def)
    moreover have "paired (h(i \<mapsto> x')) i j" using p x y ij by (auto simp: paired_def half_def x'_def ring_ok_def)
    ultimately show ?thesis using x(1) ij by (simp add: Op_shutdown outq_def x'_def)
  next
    case Op_reset_request
    define x' where "x' = x\<lparr>b_ptr := (b_ptr x)\<lparr>bb_request := 0\<rparr>\<rparr>"
    have "do_op i Op_reset_request h = Some ([], [], h(i \<mapsto> x'))"
      using x(1) by (simp add: BIO_ctrl_reset_read_request_def BIO_ctrl_def bio_ctrl_def plain_ctrl_def set_ptr_Some x'_def Let_def)
    moreover have "paired (h(i \<mapsto> x')) i j" using p x y ij by (auto simp: paired_def half_def x'_def ring_ok_def)
    ultimately show ?thesis using x(1) ij by (simp add: Op_reset_request outq_def x'_def)
  next
    case (Op_query cmd)
    with v have "\<exists>r. BIO_ctrl (\<lambda>_ _. None) (Some i) cmd h = Some (r, h)"
      using x y by (auto simp: queries_def BIO_ctrl_def bio_ctrl_def plain_ctrl_def Let_def)
    with p show ?thesis by (auto simp: Op_query)
  qed
qed

text \<open>One direction: what \<open>i\<close> sends and what \<open>j\<close> gets; each step is taken by \<open>i\<close> (\<open>True\<close>) or by \<open>j\<close>.\<close>

fun transfer :: "nat \<Rightarrow> nat \<Rightarrow> bool \<times> pair_op \<Rightarrow> heap \<Rightarrow> (byte list \<times> byte list \<times> heap) option" where
  "transfer i j (by_i, op) h =
     (if by_i then do { (sent, _, h) \<leftarrow> do_op i op h; Some (sent, [], h) }
      else do { (_, got, h) \<leftarrow> do_op j op h; Some ([], got, h) })"

interpretation channel: fifo_system "transfer i j" "\<lambda>h. paired h i j" "\<lambda>x. valid_op (snd x)" "\<lambda>h. outq h i"
    "\<lambda>h. bb_size (ring h i)" for i j
proof (unfold_locales, goal_cases)
  case (1 h x)
  obtain by_i op where x: "x = (by_i, op)" by fastforce
  show ?case
  proof (cases by_i)
    case True
    with do_op_correct [of h i j op] 1 show ?thesis by (auto simp: x)
  next
    case False
    with do_op_correct [of h j i op, OF paired_sym] 1 paired_sym show ?thesis by (fastforce simp: x)
  qed
next
  case (2 h)
  then show ?case by (auto simp: outq_def ring_ok_def elim!: pairedE)
qed

lemmas bio_ctrl_simps = BIO_ctrl_def bio_ctrl_def plain_ctrl_def

subsection \<open>A new pair\<close>

definition new_bio :: "nat \<Rightarrow> bio" where
  "new_bio n = \<lparr>b_init = False, b_shutdown = 1, b_flags = 0, b_num_read = 0, b_num_write = 0,
     b_ptr = \<lparr>bb_peer = None, bb_closed = False, bb_len = 0, bb_offset = 0, bb_size = n, bb_buf = None, bb_request = 0\<rparr>\<rparr>"

definition buf_size :: "nat \<Rightarrow> nat" where
  "buf_size w = (if w = 0 then 17 * 1024 else w)"

definition four :: "(nat \<Rightarrow> bool) \<Rightarrow> bool" where
  "four ok \<longleftrightarrow> ok 0 \<and> ok 1 \<and> ok 2 \<and> ok 3"

lemma BIO_new_result: "BIO_new ok i h = (if four ok then (Some i, h(i \<mapsto> new_bio (17 * 1024))) else (None, h))"
  by (auto simp: BIO_new_def bio_new_def four_def new_bio_def)

lemma set_write_buf_size:
  assumes "h i = Some (new_bio (17 * 1024))" and "w < 2 ^ 63"
  shows "(if w \<noteq> 0 then BIO_ctrl malloc (Some i) (BIO_C_SET_WRITE_BUF_SIZE (to_signed 64 w)) h else Some ((1, None), h)) =
    Some ((1, None), h(i \<mapsto> new_bio (buf_size w)))"
proof -
  have w: "to_signed 64 w = int w" "to_size (int w) = w" using assms(2) by (simp_all add: to_signed_int to_size_def)
  have same: "h(i \<mapsto> new_bio (17 * 1024)) = h" using assms(1) by (auto simp: fun_eq_iff)
  show ?thesis
    using assms(1) same by (auto simp: bio_ctrl_simps w Let_def buf_size_def new_bio_def set_ptr_Some)
qed

lemma give_buffer_new:
  "h i = Some (new_bio n) \<Longrightarrow> give_buffer malloc i h =
    (case malloc i n of None \<Rightarrow> Some (False, h)
     | Some d \<Rightarrow> Some (True, h(i \<mapsto> (new_bio n)\<lparr>b_ptr := (b_ptr (new_bio n))\<lparr>bb_buf := Some d\<rparr>\<rparr>)))"
  by (simp add: give_buffer_def set_ptr_Some new_bio_def split: option.split)

definition joined :: "nat \<Rightarrow> byte list \<Rightarrow> nat \<Rightarrow> bio" where
  "joined n d j = \<lparr>b_init = True, b_shutdown = 1, b_flags = 0, b_num_read = 0, b_num_write = 0,
     b_ptr = \<lparr>bb_peer = Some j, bb_closed = False, bb_len = 0, bb_offset = 0, bb_size = n, bb_buf = Some d, bb_request = 0\<rparr>\<rparr>"

lemma make_pair_new:
  assumes "i \<noteq> j" "h i = Some (new_bio n)" "h j = Some (new_bio k)"
  shows "\<exists>h'. bio_make_pair malloc i j h =
    (case (malloc i n, malloc j k) of
       (Some d, Some e) \<Rightarrow> Some (1, h(i \<mapsto> joined n d j, j \<mapsto> joined k e i))
     | _ \<Rightarrow> Some (0, h')) \<and> (\<forall>l. l \<noteq> i \<and> l \<noteq> j \<longrightarrow> h' l = h l) \<and>
    (\<exists>x y. h' i = Some x \<and> bb_peer (b_ptr x) = None \<and> h' j = Some y \<and> bb_peer (b_ptr y) = None)"
proof (cases "malloc i n")
  case None
  then show ?thesis using assms
    by (intro exI [of _ h]) (simp add: bio_make_pair_def give_buffer_new [of h i n] , simp add: new_bio_def)
next
  case (Some d)
  define h1 where "h1 = h(i \<mapsto> (new_bio n)\<lparr>b_ptr := (b_ptr (new_bio n))\<lparr>bb_buf := Some d\<rparr>\<rparr>)"
  have g1: "give_buffer malloc i h = Some (True, h1)" using give_buffer_new [of h i n] assms(2) Some by (simp add: h1_def)
  have h1j: "h1 j = Some (new_bio k)" using assms(1,3) by (simp add: h1_def)
  note run = bio_make_pair_def assms(2,3) g1 give_buffer_new [of h1 j k, OF h1j] Some
  have np: "bb_peer (b_ptr (new_bio m)) = None" for m by (simp add: new_bio_def)
  show ?thesis
  proof (cases "malloc j k")
    case None
    then show ?thesis using assms
      by (intro exI [of _ h1]) (simp add: run np, simp add: h1_def new_bio_def assms(3))
  next
    case (Some e)
    then show ?thesis using assms(1,2,3)
      by (intro exI [of _ h1])
        (simp add: run np Let_def upd_bio_Some, simp add: h1_def upd_bio_def new_bio_def joined_def join_pair_def fun_upd_twist assms(3))
  qed
qed

lemma free_unpaired: "h i = Some x \<Longrightarrow> bb_peer (b_ptr x) = None \<Longrightarrow> bio_free (Some i) h = Some (1, h(i := None))"
  by (simp add: bio_free_def)

lemma joined_paired:
  assumes "i \<noteq> j" "length d = n" "length e = k" "0 < n" "0 < k" "n < 2 ^ 63" "k < 2 ^ 63"
  shows "paired (h(i \<mapsto> joined n d j, j \<mapsto> joined k e i)) i j"
  using assms by (auto simp: paired_def half_def joined_def ring_ok_def)

text \<open>Whether everything that \<^verbatim>\<open>BIO_new_bio_pair\<close> needs can be allocated.\<close>

definition affordable :: "(nat \<Rightarrow> nat \<Rightarrow> byte list option) \<Rightarrow> (nat \<Rightarrow> bool) \<Rightarrow> (nat \<Rightarrow> bool) \<Rightarrow> nat \<Rightarrow> nat \<Rightarrow> nat \<Rightarrow> nat \<Rightarrow> bool" where
  "affordable malloc ok1 ok2 i j w1 w2 \<longleftrightarrow>
     four ok1 \<and> four ok2 \<and> malloc i (buf_size w1) \<noteq> None \<and> malloc j (buf_size w2) \<noteq> None"

lemma new_pair:
  assumes "i \<noteq> j" "h i = None" "h j = None" "w1 < 2 ^ 63" "w2 < 2 ^ 63"
    and "\<And>k n d. malloc k n = Some d \<Longrightarrow> length d = n"
  shows "if affordable malloc ok1 ok2 i j w1 w2
    then \<exists>h'. BIO_new_bio_pair malloc ok1 ok2 i j w1 w2 h = Some ((1, Some i, Some j), h') \<and> paired h' i j \<and>
      outq h' i = [] \<and> outq h' j = [] \<and> bb_size (ring h' i) = buf_size w1 \<and> bb_size (ring h' j) = buf_size w2 \<and>
      (\<forall>k. k \<noteq> i \<and> k \<noteq> j \<longrightarrow> h' k = h k)
    else BIO_new_bio_pair malloc ok1 ok2 i j w1 w2 h = Some ((0, None, None), h)"
proof (cases "four ok1 \<and> four ok2")
  case False
  have "h(i := None) = h" using assms(2) by (auto simp: fun_eq_iff)
  then show ?thesis using False assms(1,2)
    by (auto simp: BIO_new_bio_pair_def BIO_new_result Let_def affordable_def new_bio_def bio_free_def)
next
  case True
  define h2 where "h2 = h(i \<mapsto> new_bio (17 * 1024), j \<mapsto> new_bio (17 * 1024))"
  define h3 where "h3 = h2(i \<mapsto> new_bio (buf_size w1))"
  define h4 where "h4 = h3(j \<mapsto> new_bio (buf_size w2))"
  have s1: "(if w1 \<noteq> 0 then BIO_ctrl malloc (Some i) (BIO_C_SET_WRITE_BUF_SIZE (to_signed 64 w1)) h2 else Some ((1, None), h2)) =
      Some ((1, None), h3)"
    unfolding h3_def using assms(1,4) by (intro set_write_buf_size) (simp_all add: h2_def)
  have s2: "(if w2 \<noteq> 0 then BIO_ctrl malloc (Some j) (BIO_C_SET_WRITE_BUF_SIZE (to_signed 64 w2)) h3 else Some ((1, None), h3)) =
      Some ((1, None), h4)"
    unfolding h4_def using assms(1,5) by (intro set_write_buf_size) (simp_all add: h3_def h2_def)
  have h4: "h4 i = Some (new_bio (buf_size w1))" "h4 j = Some (new_bio (buf_size w2))"
    using assms(1) by (simp_all add: h4_def h3_def)
  obtain h' where mk: "bio_make_pair malloc i j h4 =
      (case (malloc i (buf_size w1), malloc j (buf_size w2)) of
         (Some d, Some e) \<Rightarrow> Some (1, h4(i \<mapsto> joined (buf_size w1) d j, j \<mapsto> joined (buf_size w2) e i))
       | _ \<Rightarrow> Some (0, h'))"
    and h': "\<forall>l. l \<noteq> i \<and> l \<noteq> j \<longrightarrow> h' l = h4 l"
      "\<exists>x y. h' i = Some x \<and> bb_peer (b_ptr x) = None \<and> h' j = Some y \<and> bb_peer (b_ptr y) = None"
    using make_pair_new [of i j h4, OF assms(1) h4] by blast
  have ctrl: "BIO_ctrl malloc (Some i) (BIO_C_MAKE_BIO_PAIR j) h4 =
      bio_make_pair malloc i j h4 \<bind> (\<lambda>(r, h). Some ((if r \<noteq> 0 then 1 else 0, None), h))"
    using h4(1) by (simp add: bio_ctrl_simps Let_def split: prod.splits Option.bind_split)
  have run: "BIO_new_bio_pair malloc ok1 ok2 i j w1 w2 h =
      bio_make_pair malloc i j h4 \<bind> (\<lambda>(r, h). if r \<noteq> 0 then Some ((1, Some i, Some j), h)
        else bio_free (Some i) h \<bind> (\<lambda>(_, h). bio_free (Some j) h \<bind> (\<lambda>(_, h). Some ((0, None, None), h))))"
  proof -
    have b1: "BIO_new ok1 i h = (Some i, h(i \<mapsto> new_bio (17 * 1024)))" using True by (simp add: BIO_new_result)
    have b2: "BIO_new ok2 j (h(i \<mapsto> new_bio (17 * 1024))) = (Some j, h2)" using True by (simp add: BIO_new_result h2_def)
    show ?thesis
      unfolding BIO_new_bio_pair_def
      by (simp only: b1 b2 Let_def prod.case option.simps if_False simp_thms s1 s2 ctrl Option.bind_lunit)
        (simp add: Option.bind_assoc split: Option.bind_split prod.split)
  qed
  show ?thesis
  proof (cases "affordable malloc ok1 ok2 i j w1 w2")
    case af: True
    then obtain d e where de: "malloc i (buf_size w1) = Some d" "malloc j (buf_size w2) = Some e"
      by (auto simp: affordable_def)
    define h5 where "h5 = h4(i \<mapsto> joined (buf_size w1) d j, j \<mapsto> joined (buf_size w2) e i)"
    have sizes: "0 < buf_size w" "w < 2 ^ 63 \<Longrightarrow> buf_size w < 2 ^ 63" for w by (auto simp: buf_size_def)
    have "BIO_new_bio_pair malloc ok1 ok2 i j w1 w2 h = Some ((1, Some i, Some j), h5)"
      by (simp add: run mk de h5_def)
    moreover have "paired h5 i j"
      unfolding h5_def using assms(1,4-6) de sizes by (intro joined_paired) auto
    moreover have "outq h5 i = []" "outq h5 j = []" "bb_size (ring h5 i) = buf_size w1" "bb_size (ring h5 j) = buf_size w2"
      using assms(1) by (simp_all add: h5_def joined_def outq_def contents_def)
    moreover have "h5 k = h k" if "k \<noteq> i" "k \<noteq> j" for k using that by (simp add: h5_def h4_def h3_def h2_def)
    ultimately show ?thesis using af by auto
  next
    case poor: False
    then have "bio_make_pair malloc i j h4 = Some (0, h')"
      using True mk by (auto simp: affordable_def split: option.splits)
    moreover obtain x y where xy: "h' i = Some x" "bb_peer (b_ptr x) = None" "h' j = Some y" "bb_peer (b_ptr y) = None"
      using h'(2) by blast
    moreover have "bio_free (Some j) (h'(i := None)) = Some (1, h'(i := None, j := None))"
      using xy assms(1) by (intro free_unpaired [of _ _ y]) simp_all
    moreover have "h'(i := None, j := None) = h"
      using h'(1) assms(1-3) by (auto simp: fun_eq_iff h4_def h3_def h2_def)
    ultimately show ?thesis using poor free_unpaired [of h' i x, OF xy(1,2)] by (simp add: run)
  qed
qed

text \<open>
  C33.  \<^verbatim>\<open>BIO_new_bio_pair\<close> makes a pair with empty buffers of the sizes asked for; if any of its allocations fails, it
  returns 0, two null pointers, and leaves no BIO behind.
\<close>

theorem new_bio_pair_all_or_nothing:
  assumes "i \<noteq> j" "h i = None" "h j = None" "w1 < 2 ^ 63" "w2 < 2 ^ 63"
    and "\<And>k n d. malloc k n = Some d \<Longrightarrow> length d = n"
  shows "if affordable malloc ok1 ok2 i j w1 w2
    then \<exists>h'. BIO_new_bio_pair malloc ok1 ok2 i j w1 w2 h = Some ((1, Some i, Some j), h') \<and> paired h' i j \<and>
      outq h' i = [] \<and> outq h' j = [] \<and> bb_size (ring h' i) = buf_size w1 \<and> bb_size (ring h' j) = buf_size w2 \<and>
      (\<forall>k. k \<noteq> i \<and> k \<noteq> j \<longrightarrow> h' k = h k)
    else BIO_new_bio_pair malloc ok1 ok2 i j w1 w2 h = Some ((0, None, None), h)"
  using assms by (rule new_pair)

theorem new_bio_pair_all_or_nothing_witness:
  "BIO_new_bio_pair (\<lambda>k n. if k = 0 then Some (replicate n 0) else None) (\<lambda>_. True) (\<lambda>_. True) 0 1 16 0 (\<lambda>_. None) =
    Some ((0, None, None), \<lambda>_. None)"
proof -
  let ?m = "\<lambda>k n. if k = 0 then Some (replicate n 0) else None :: byte list option"
  have "\<not> affordable ?m (\<lambda>_. True) (\<lambda>_. True) 0 1 16 0" by (simp add: affordable_def)
  moreover have "length d = n" if "?m k n = Some d" for k n :: nat and d using that by (auto split: if_splits)
  ultimately show ?thesis
    using new_bio_pair_all_or_nothing [of 0 1 "\<lambda>_. None" 16 0 ?m "\<lambda>_. True" "\<lambda>_. True"] by simp
qed

subsection \<open>The stream of bytes\<close>

text \<open>A pair with buffers of four bytes.\<close>

definition small_pair :: heap where
  "small_pair = (\<lambda>_. None)(0 \<mapsto> joined 4 [0, 0, 0, 0] 1, 1 \<mapsto> joined 4 [0, 0, 0, 0] 0)"

lemma small_pair_ok: "paired small_pair 0 1" "outq small_pair 0 = []" "bb_size (ring small_pair 0) = 4"
  unfolding small_pair_def by (rule joined_paired) (simp_all add: outq_def contents_def joined_def)

text \<open>
  C31.  Let both halves of a pair write, read, write and read without copying, query and shut down, in any
  order: every call returns, and the bytes one half has sent are those the other one got, in order,
  followed by those in the buffer, which never holds more than its size.
\<close>

theorem bio_pair_is_fifo:
  assumes "paired h i j" and "outq h i = []" and "\<And>x. x \<in> set xs \<Longrightarrow> valid_op (snd x)"
  shows "\<exists>sent got h'. run_ops (transfer i j) xs h = Some (sent, got, h') \<and> paired h' i j \<and>
    sent = got @ outq h' i \<and> length sent \<le> length got + bb_size (ring h i)"
proof -
  obtain sent got h' where run: "run_ops (transfer i j) xs h = Some (sent, got, h')" "paired h' i j"
    using channel.run_fifo [of h i j xs] assms(1,3) by blast
  from channel.run_bounded [OF assms(1) assms(3) run(1) assms(2)] run show ?thesis by blast
qed

theorem bio_pair_is_fifo_witness:
  "\<exists>sent got h'. run_ops (transfer 0 1) [(True, Op_write [1, 2, 3]), (False, Op_read 2), (True, Op_nwrite [4, 5]),
      (False, Op_nread 9), (True, Op_shutdown), (False, Op_query BIO_CTRL_EOF)] small_pair = Some (sent, got, h') \<and>
    paired h' 0 1 \<and> sent = got @ outq h' 0 \<and> length sent \<le> length got + 4"
proof -
  have v: "valid_op (snd x)" if "x \<in> set [(True, Op_write [1, 2, 3]), (False, Op_read 2), (True, Op_nwrite [4, 5]),
      (False, Op_nread 9), (True, Op_shutdown), (False, Op_query BIO_CTRL_EOF)]" for x
    using that by (auto simp: queries_def)
  show ?thesis using bio_pair_is_fifo [OF small_pair_ok(1,2) v] unfolding small_pair_ok(3) .
qed

text \<open>
  C32.  As many bytes as \<^verbatim>\<open>BIO_ctrl_get_write_guarantee\<close> promises are accepted by one write; a read at the other half
  that asks for enough then returns everything that is under way.
\<close>

theorem guaranteed_write_arrives:
  assumes "paired h i j" and "BIO_ctrl_get_write_guarantee (Some i) h = Some (g, h)"
    and "0 < n" "n \<le> g" "n \<le> length bs" "length (outq h i) + n \<le> k" "k < 2 ^ 31"
  shows "\<exists>h' h''. BIO_write i (Some bs) (int n) h = Some (int n, h') \<and>
    BIO_read j True (int k) h' = Some ((int (length (outq h i) + n), outq h i @ take n bs), h'') \<and>
    paired h'' i j \<and> outq h'' i = []"
proof -
  obtain x y where x: "h i = Some x" "b_init x" "bb_peer (b_ptr x) = Some j" "ring_ok (b_ptr x)"
    and y: "h j = Some y" "b_init y" "bb_peer (b_ptr y) = Some i" "ring_ok (b_ptr y)" and ij: "i \<noteq> j"
    using assms(1) by (elim pairedE) blast
  have len: "bb_len (b_ptr x) \<le> bb_size (b_ptr x)" "bb_size (b_ptr x) < 2 ^ 63" using x(4) by (simp_all add: ring_ok_def)
  have g: "\<not> bb_closed (b_ptr x)" "g = bb_size (b_ptr x) - bb_len (b_ptr x)"
    using assms(2-4) x(1,3) len
    by (auto simp: BIO_ctrl_get_write_guarantee_def bio_ctrl_simps Let_def to_signed_int to_size_def split: if_splits)
  have n: "n < 2 ^ 31" "put_result (b_ptr x) n = int n"
    using assms(3,4,6,7) g by (simp_all add: put_result_def min_def)
  obtain x' where w: "BIO_write i (Some bs) (int n) h = Some (int n, h(i \<mapsto> x'))"
    and bx: "becomes x x' (contents (b_ptr x) @ take n bs) (n \<noteq> 0 \<and> blocked (b_ptr x))"
    using BIO_write_becomes [of h i x j n bs, OF x n(1) assms(5)] n(2) by auto
  define h' where "h' = h(i \<mapsto> x')"
  have x': "h' i = Some x'" "ring_ok (b_ptr x')" "contents (b_ptr x') = outq h i @ take n bs"
    using bx x(1) by (simp_all add: h'_def becomes_def outq_def)
  have y': "h' j = Some y" using y(1) ij by (simp add: h'_def)
  have l: "bb_len (b_ptr x') = length (outq h i) + n"
    using x'(3) assms(5) by (metis length_append length_contents length_take min_absorb2)
  have r: "get_result (b_ptr x') k = int (length (outq h i) + n)"
    using l assms(3,6) by (simp add: get_result_def)
  obtain y2 x2 where rd: "BIO_read j True (int k) h' = Some ((int (length (outq h i) + n), outq h i @ take n bs), h'(j \<mapsto> y2, i \<mapsto> x2))"
    and b: "becomes y y2 (contents (b_ptr y)) (k \<noteq> 0 \<and> starved (b_ptr x'))"
      "becomes x' x2 [] (flag (b_flags x') BIO_FLAGS_SHOULD_RETRY)"
    using BIO_read_becomes [of h' j y i x' k, OF y' y(2-4) x'(1,2) _ assms(7)] ij assms(5) by (auto simp: r x'(3) simp del: of_nat_add)
  have "becomes x x2 [] (flag (b_flags x') BIO_FLAGS_SHOULD_RETRY)" using bx b(2) by (simp add: becomes_def)
  then have "paired (h(i \<mapsto> x2, j \<mapsto> y2)) i j" using b(1) by (intro becomes_paired [OF assms(1) x(1) y(1)])
  moreover have "h'(j \<mapsto> y2, i \<mapsto> x2) = h(i \<mapsto> x2, j \<mapsto> y2)" using ij by (auto simp: h'_def fun_eq_iff)
  moreover have "outq (h(i \<mapsto> x2, j \<mapsto> y2)) i = []" using b(2) ij by (simp add: outq_def becomes_def)
  ultimately show ?thesis using w rd by (simp add: h'_def)
qed

theorem guaranteed_write_arrives_witness:
  "\<exists>h' h''. BIO_write 0 (Some [7, 8, 9]) (int 3) small_pair = Some (int 3, h') \<and>
    BIO_read 1 True (int 5) h' = Some ((3, [7, 8, 9]), h'') \<and> outq h'' 0 = []"
proof -
  have "BIO_ctrl_get_write_guarantee (Some 0) small_pair = Some (4, small_pair)"
    by (simp add: BIO_ctrl_get_write_guarantee_def bio_ctrl_simps Let_def small_pair_def joined_def to_signed_def to_size_def usub_def)
  from guaranteed_write_arrives [OF small_pair_ok(1) this, of 3 "[7, 8, 9]" 5] show ?thesis
    by (auto simp: small_pair_ok(2))
qed

text \<open>The manual says that the amount requested by the peer is never larger than the write guarantee.  It is larger once
  the half that is asked has been shut down.\<close>

lemma request_exceeds_guarantee:
  "\<exists>h h'. do_op 1 (Op_read 3) small_pair = Some ([], [], h) \<and> do_op 0 Op_shutdown h = Some ([], [], h') \<and> paired h' 0 1 \<and>
    BIO_ctrl_get_read_request (Some 0) h' = Some (3, h') \<and> BIO_ctrl_get_write_guarantee (Some 0) h' = Some (0, h')"
  by (simp add: small_pair_def joined_def BIO_read_def bio_read_intern_def bread_conv_def bio_read_def Let_def check_def
      heap_simps to_size_def BIO_ctrl_get_read_request_def BIO_ctrl_get_write_guarantee_def bio_ctrl_simps to_signed_def
      paired_def half_def ring_ok_def)

end
