(* ===== verification/Spec2Isabelle.thy ===== *)
theory Spec2Isabelle
  imports Bitmap Statem_Props Version Lhash Stack Dtls_Resend Base64_Stream Bio_Fifo
begin

text \<open>
  \<^bold>\<open>A verification library for the TLS core of OpenSSL 1.1.1\<close>

  The repository packages OpenSSL; its program is the C code under \<^verbatim>\<open>src/src\<close>.  The development
  models the part of \<^verbatim>\<open>libssl\<close> that decides which handshake message may come next, and the data
  structures below it, as executable HOL functions, and proves what makes them correct.

  \<^bold>\<open>The parts of the program and how they interact.\<close>  An application calls
  \<^verbatim>\<open>SSL_do_handshake\<close>, which runs \<^verbatim>\<open>state_machine\<close> (\<^verbatim>\<open>ssl/statem/statem.c\<close>).  It alternates between two
  sub-machines.  The reading one gets a message header, asks the client's or the server's read
  transition whether the message is allowed in the current handshake state, reads the body into the
  connection's \<^verbatim>\<open>BUF_MEM\<close>, and dispatches to the message's handler.  The writing one asks the write
  transition for the next state, does the work before the message, constructs it, sends it, and does
  the work after it.  \<^verbatim>\<open>statem_clnt.c\<close> and \<^verbatim>\<open>statem_srvr.c\<close> hold the two sides, \<^verbatim>\<open>statem_lib.c\<close> what they
  share.  Every error goes through \<^verbatim>\<open>ossl_statem_fatal\<close>, which sends an alert (\<^verbatim>\<open>s3_msg.c\<close>) and leaves the
  machine in its error state for good.  Messages are parsed with \<^verbatim>\<open>PACKET\<close> and built with \<^verbatim>\<open>WPACKET\<close>
  (\<^verbatim>\<open>ssl/packet_local.h\<close>, \<^verbatim>\<open>ssl/packet.c\<close>), which writes into a \<^verbatim>\<open>BUF_MEM\<close> (\<^verbatim>\<open>crypto/buffer\<close>).  For DTLS
  the record layer filters replayed records with a bitmap (\<^verbatim>\<open>ssl/record/dtls1_bitmap.c\<close>), and
  \<^verbatim>\<open>ssl/statem/statem_dtls.c\<close> cuts handshake messages into fragments that fit a datagram, puts received fragments
  together again in any order, keeps the messages of the last flight in a priority queue
  (\<^verbatim>\<open>ssl/pqueue.c\<close>) and sends them again when the timer of \<^verbatim>\<open>ssl/d1_lib.c\<close> expires.  Next to this core stand
  BIO pairs (\<^verbatim>\<open>crypto/bio/bss_bio.c\<close>), two ring buffers through which an application puts its own transport
  under a connection, and the base64 codec of \<^verbatim>\<open>libcrypto\<close> (\<^verbatim>\<open>crypto/evp/encode.c\<close>), with which keys and certificates are read.

  \<^bold>\<open>Theories.\<close>
  \<^item> \<^verbatim>\<open>Prelude\<close>: integer types, flag tests, big-endian numbers, slices of lists.
  \<^item> \<^verbatim>\<open>Bitmap\<close>: \<^verbatim>\<open>dtls1_bitmap.c\<close>, with the record's sequence number as eight bytes and the window as a
    64-bit word.  A record passes the replay check exactly when it is new and not older than the
    window, and no record is accepted twice.
  \<^item> \<^verbatim>\<open>Buffer\<close>: \<^verbatim>\<open>buffer.c\<close> over an allocator parameter.  The locale \<^verbatim>\<open>grow_contract\<close> is what clients
    of a growable buffer rely on; it is interpreted for \<^verbatim>\<open>BUF_MEM_grow\<close> and \<^verbatim>\<open>BUF_MEM_grow_clean\<close>.
  \<^item> \<^verbatim>\<open>Packet\<close>: the \<^verbatim>\<open>PACKET\<close> reader of \<^verbatim>\<open>packet_local.h\<close> over a received buffer; an access outside it is the outcome
    \<^verbatim>\<open>Fault\<close>.  The locale \<^verbatim>\<open>fixed_reader\<close> is the contract of a reader of a number, interpreted for the four
    widths; the length-prefixed readers rest on it.  Reads are exact and never fault.
  \<^item> \<^verbatim>\<open>Wpacket\<close>: \<^verbatim>\<open>packet.c\<close>, the writer with nested sub-packets over a growable or a fixed buffer.  A finished packet
    is the rendering of the items written; with room enough no write fails; the reader reads back what
    was written.
  \<^item> \<^verbatim>\<open>Lhash\<close>, \<^verbatim>\<open>Stack\<close>: the containers \<^verbatim>\<open>crypto/lhash\<close> and \<^verbatim>\<open>crypto/stack\<close>.  A hash table is a dictionary (locale
    \<^verbatim>\<open>dictionary\<close>) however it grows and shrinks; a stack is a list, and searching it finds the first
    equal element.
  \<^item> \<^verbatim>\<open>Alerts\<close>: the three alert translation tables.
  \<^item> \<^verbatim>\<open>Statem_Base\<close>: the enumerations of \<^verbatim>\<open>statem.h\<close>, \<^verbatim>\<open>statem_local.h\<close> and \<^verbatim>\<open>ssl_local.h\<close>, the members of
    the connection that the state machine reads or writes as the record \<^verbatim>\<open>ssl_conn\<close>, and the
    environment.
  \<^item> \<^verbatim>\<open>Proto_Version\<close>: protocol predicates, the version tables of \<^verbatim>\<open>statem_lib.c\<close> and the methods they list, which
    versions are enabled, and the contiguous range of them that \<^verbatim>\<open>ssl_get_min_max_version\<close> computes.
  \<^item> \<^verbatim>\<open>Version\<close>: the choice of the version by server and client, the \<^verbatim>\<open>supported_versions\<close> extension, written with
    \<^verbatim>\<open>Wpacket\<close> and read with \<^verbatim>\<open>Packet\<close>, and the downgrade sentinel.  Endpoints with a common version agree
    on the highest one, and no downgrade goes unnoticed.
  \<^item> \<^verbatim>\<open>Samples\<close>: the connection and the environment on which properties are evaluated.
  \<^item> \<^verbatim>\<open>Statem_Lib\<close>: alerts, the fatal error, the start and the end of a handshake
    (\<^verbatim>\<open>tls_setup_handshake\<close>, \<^verbatim>\<open>tls_finish_handshake\<close>), and the inductive relations \<^verbatim>\<open>reads\<close> and
    \<^verbatim>\<open>writes\<close> that chain transitions into flights.  The locale \<^verbatim>\<open>handshake_side\<close> states what the message
    flow needs of a side.
  \<^item> \<^verbatim>\<open>Statem_Clnt\<close>, \<^verbatim>\<open>Statem_Srvr\<close>: all transition, work and dispatch functions of the two sides, one
    definition per function and one per large switch case, and the interpretations of
    \<^verbatim>\<open>handshake_side\<close>.
  \<^item> \<^verbatim>\<open>Statem_Flow\<close>: \<^verbatim>\<open>statem.c\<close>, the two sub-machines and \<^verbatim>\<open>state_machine\<close>.
  \<^item> \<^verbatim>\<open>Statem_Props\<close>: the properties of one endpoint: the exact flights each side accepts,
    refusal of everything else, message size limits, refinement of the diagrams in the source's
    comments, the nesting counter, the permanence of a fatal error.
  \<^item> \<^verbatim>\<open>Pqueue\<close>: \<^verbatim>\<open>pqueue.c\<close>, the sorted chain of a priority queue.
  \<^item> \<^verbatim>\<open>Dtls_Frag\<close>, \<^verbatim>\<open>Dtls_Timer\<close>, \<^verbatim>\<open>Dtls_Recv\<close>: message headers, fragments and their bitmask of received bytes, the
    message queues and the timer, and the receiving half of \<^verbatim>\<open>statem_dtls.c\<close>.
  \<^item> \<^verbatim>\<open>Dtls_Reasm\<close>, \<^verbatim>\<open>Dtls_Deliver\<close>: a peer fixes the messages; fragments of them may arrive in any
    order, be repeated, overlap or be lost.  What is delivered is the message whose turn it is, byte for byte, and it
    is delivered once its fragments cover it.
  \<^item> \<^verbatim>\<open>Dtls_Send\<close>: the sending half of \<^verbatim>\<open>statem_dtls.c\<close>: MTU, fragmentation, buffering, retransmission, time-outs.
  \<^item> \<^verbatim>\<open>Dtls_Write\<close>, \<^verbatim>\<open>Dtls_Flight\<close>: for every MTU the fragments written are the message in order, and the
    peer's receiver puts them together again; \<^verbatim>\<open>dtls1_do_write\<close> returns whatever the record layer does.
  \<^item> \<^verbatim>\<open>Dtls_Resend\<close>: a flight that is buffered and sent again goes out in the order in which it was first sent,
    each message under the epoch of its first transmission.
  \<^item> \<^verbatim>\<open>Base64\<close>: \<^verbatim>\<open>encode.c\<close>, the codec of blocks and of streams, over a model of the memory behind the output
    pointer.
  \<^item> \<^verbatim>\<open>Base64_Props\<close>, \<^verbatim>\<open>Base64_Enc\<close>, \<^verbatim>\<open>Base64_Dec\<close>: the tables and blocks are inverse to each other; what one call
    of the encoder and of the decoder does to its context and to the memory.
  \<^item> \<^verbatim>\<open>Base64_Stream\<close>: the encoder writes the text of RFC 4648; decoding it gives the bytes back however both
    are split into calls; the decoder stays in bounds on any input.
  \<^item> \<^verbatim>\<open>Bio_Pair\<close>: \<^verbatim>\<open>bss_bio.c\<close> over a heap of BIOs that point to each other, with the functions of
    \<^verbatim>\<open>bio_lib.c\<close> that lead to it.
  \<^item> \<^verbatim>\<open>Bio_Ring\<close>, \<^verbatim>\<open>Bio_Props\<close>, \<^verbatim>\<open>Bio_Fifo\<close>: a ring buffer is a list; what each operation does to the two
    lists; the locale \<open>fifo_system\<close>, interpreted for each direction of a pair, says that the bytes got are the bytes
    sent, in order, whatever the two halves do.
  \<^item> This theory: agreement of the two sides, that is, the client accepts every flight the server writes.

  \<^bold>\<open>State and effects.\<close>  A C function that changes the connection becomes a function from the state
  to a result and the new state.  What the modelled code calls outside itself (construction and
  parsing of message bodies, the record layer, cryptography, callbacks of the application) is
  the record \<^verbatim>\<open>env\<close>: a function for every callee that may change an opaque world
  (the extra field of the state record) and the connection, and queries that only look.  No law is assumed about it
  unless a theorem says so: \<^verbatim>\<open>env_balanced\<close> (a callee leaves the nesting counter as it found it) and
  \<^verbatim>\<open>policy_stable\<close> (the security policy does not look at the version negotiated so far).  For the
  DTLS transport a theorem may assume that the record layer hands out the fragments of the peer's messages
  (\<^verbatim>\<open>transport\<close>, \<^verbatim>\<open>feeds\<close>), that the Finished computations succeed (\<^verbatim>\<open>macs_ok\<close>), that a record that fits
  is written whole (\<^verbatim>\<open>record_writer\<close>), that the callees leave the buffer, the fragment limit and the MTU of the
  connection alone (\<^verbatim>\<open>keeps_view\<close>), and that the MTU is known and leaves room for a header (\<^verbatim>\<open>mtu_settled\<close>,
  \<^verbatim>\<open>mtu_fits\<close>).  \<^verbatim>\<open>qsort\<close> is constrained by \<^verbatim>\<open>qsort_ok\<close>, the random generator by \<^verbatim>\<open>rand_ok\<close>.  The allocator is constrained by \<^verbatim>\<open>alloc_ok\<close> alone: a block has the size asked for.

  \<^bold>\<open>Loops.\<close>  The three loops of \<^verbatim>\<open>statem.c\<close> end only if the peer and the callees let them, so they are
  \<^theory_text>\<open>partial_function (option)\<close> with \<^term>\<open>None\<close> for a run that does not end; every theorem about them
  speaks about one iteration, or about the state in which a run that ends leaves the connection.  The
  receive loops of \<^verbatim>\<open>statem_dtls.c\<close> go on as long as the peer sends fragments of other messages and are partial
  functions as well; the write loop of \<^verbatim>\<open>dtls1_do_write\<close> is one that is proved to end.  The growth loop of a stack would run forever from a size below two; it is a partial function too, and
  is proved to end from every size a stack can have.  All other loops end by structural recursion or
  by a measure.

  \<^bold>\<open>Configuration.\<close>  The model fixes the build without SCTP, compression and SSL 3.0, with PSK, SRP
  and next protocol negotiation, on a platform with a 64-bit \<^verbatim>\<open>size_t\<close>.

  \<^bold>\<open>Not modelled.\<close>  The record layer, the other extensions, sessions, cryptography,
  ASN.1, PEM, X.509, the other kinds of BIO and the command line tools; the state machine sees them through \<^verbatim>\<open>env\<close>.

  \<^bold>\<open>Plan.\<close>  Next are the reading and writing of TLS handshake messages
  (\<^verbatim>\<open>tls_get_message_header\<close>, \<^verbatim>\<open>ssl3_do_write\<close>), the collection of extensions, the client's second flight against
  the server's acceptance, and a full handshake of two endpoints.
\<close>

unbundle bit_operations_syntax

section \<open>Agreement of the two sides\<close>

text \<open>The client expects a ServerKeyExchange exactly when the server always sends one, and accepts
  one whenever the server may send it.\<close>

lemma ske_agreement:
  assumes "new_cipher_mkey cs = new_cipher_mkey ss"
  shows "key_exchange_expected cs \<Longrightarrow> send_server_key_exchange ss"
    "send_server_key_exchange ss \<Longrightarrow> key_exchange_expected cs \<or> flag (new_cipher_mkey cs) SSL_PSK"
proof -
  have exp: "flag w 0x1A6 \<longleftrightarrow> flag w 6 \<or> flag w 0x180 \<or> flag w 0x20" for w :: u32
    by (simp flip: flag_or)
  have psk: "flag w 0x1C8 \<longleftrightarrow> flag w 0x48 \<or> flag w 0x180" for w :: u32
    by (simp flip: flag_or)
  show "key_exchange_expected cs \<Longrightarrow> send_server_key_exchange ss"
    using assms by (auto simp: key_exchange_expected_def send_server_key_exchange_def exp Let_def split: if_splits)
  show "send_server_key_exchange ss \<Longrightarrow> key_exchange_expected cs \<or> flag (new_cipher_mkey cs) SSL_PSK"
    using assms by (auto simp: key_exchange_expected_def send_server_key_exchange_def exp psk Let_def
        split: if_splits)
qed

lemma request_agreement:
  assumes "new_cipher_auth cs = new_cipher_auth ss" and "send_certificate_request ss"
    and "\<not> (flag (new_cipher_auth ss) SSL_aNULL \<and> flag (verify_mode ss) SSL_VERIFY_FAIL_IF_NO_PEER_CERT)"
  shows "cert_req_allowed cs"
proof -
  have "flag w 0x50 \<longleftrightarrow> flag w 0x40 \<or> flag w 0x10" for w :: u32 by (simp flip: flag_or)
  with assms show ?thesis by (auto simp: cert_req_allowed_def send_certificate_request_def split: if_splits)
qed

lemma flight_written12_accepted:
  assumes "new_cipher (s3 cs) = new_cipher (s3 ss)" and "status_expected (ext ss) \<longrightarrow> status_expected (ext cs)"
    and "\<not> (flag (new_cipher_auth ss) SSL_aNULL \<and> flag (verify_mode ss) SSL_VERIFY_FAIL_IF_NO_PEER_CERT)"
    and "hand_state (statem ss) = TLS_ST_SW_SRVR_HELLO" and "flight_written12 ss = Some ms"
  shows "ms \<in> set (flights12 (suite_of cs) TLS_ST_CR_SRVR_HELLO)"
proof -
  have m: "new_cipher_mkey cs = new_cipher_mkey ss" and a: "new_cipher_auth cs = new_cipher_auth ss"
    using assms(1) by (simp_all add: new_cipher_mkey_def new_cipher_auth_def)
  define req where "req = (if send_certificate_request ss then [SSL3_MT_CERTIFICATE_REQUEST] else []) @
    [SSL3_MT_SERVER_DONE]"
  define ske where "ske = (if send_server_key_exchange ss then [SSL3_MT_SERVER_KEY_EXCHANGE] else []) @ req"
  have req: "req \<in> set (flights_req (suite_of cs))"
    using request_agreement [OF a _ assms(3)] by (simp add: req_def flights_req_def)
  have ske: "ske \<in> set (flights_ske (suite_of cs))"
    using ske_agreement [OF m] req by (auto simp: ske_def flights_ske_def)
  have "(if status_expected (ext ss) then [SSL3_MT_CERTIFICATE_STATUS] else []) @ ske
      \<in> set (flights_status (suite_of cs))"
    using ske assms(2) by (auto simp: flights_status_def)
  moreover have "ms = (if \<not> flag (new_cipher_auth ss) (SSL_aNULL OR SSL_aSRP OR SSL_aPSK)
      then SSL3_MT_CERTIFICATE # (if status_expected (ext ss) then [SSL3_MT_CERTIFICATE_STATUS] else []) @ ske
      else ske)"
    using assms(4,5) by (simp add: flight_written12_def written12_def ske_def req_def Let_def split: if_splits)
  ultimately show ?thesis using ske a by (simp add: flights12_def)
qed

text \<open>
  C5.  Up to TLS 1.2, in a full handshake, every flight that the server writes after its ServerHello is
  accepted by a client that agreed on the same cipher suite (and asked for the certificate status if
  the server sends it): the decisions of \<^verbatim>\<open>statem_srvr.c\<close> about which messages to send and those of
  \<^verbatim>\<open>statem_clnt.c\<close> about which to accept fit together.  The one combination that is left out is a server
  that insists on a client certificate in an anonymous suite, which the sources call against the
  specification.
\<close>

theorem server_flight_accepted12:
  assumes "\<not> SSL_IS_TLS13 ss" and "\<not> hit ss" and "hand_state (statem ss) = TLS_ST_SW_SRVR_HELLO"
    and "writes (ossl_statem_server_write_transition es) (server_con es) keeps_write12 ss mts ss'"
    and "plain_full cs" and "hand_state (statem cs) = TLS_ST_CR_SRVR_HELLO"
    and "new_cipher (s3 cs) = new_cipher (s3 ss)" and "status_expected (ext ss) \<longrightarrow> status_expected (ext cs)"
    and "\<not> (flag (new_cipher_auth ss) SSL_aNULL \<and> flag (verify_mode ss) SSL_VERIFY_FAIL_IF_NO_PEER_CERT)"
  shows "\<exists>cs'. reads (ossl_statem_client_read_transition ec) keeps12 cs mts cs' \<and>
    hand_state (statem cs') = TLS_ST_CR_SRVR_DONE"
proof -
  obtain ms where ms: "flight_written12 ss = Some ms"
    using assms(3) by (auto simp: flight_written12_def written12_def Let_def)
  have "mts = ms" using writes_server12 [OF assms(4,1,2) ms] .
  with flight_written12_accepted [OF assms(7,8,9,3) ms] show ?thesis
    using reads_client12_complete [OF assms(5), of mts ec] assms(6) by simp
qed

lemma sample_server_flight12:
  "flight_written12 (sample_conn TLS1_2_VERSION TLS_ST_SW_SRVR_HELLO) =
     Some [SSL3_MT_CERTIFICATE, SSL3_MT_SERVER_KEY_EXCHANGE, SSL3_MT_CERTIFICATE_REQUEST, SSL3_MT_SERVER_DONE]"
  by (simp add: flight_written12_def written12_def send_server_key_exchange_def
      send_certificate_request_def flag_def)

theorem server_flight_accepted12_witness:
  "\<exists>cs'. reads (ossl_statem_client_read_transition sample_env) keeps12
      (sample_conn TLS1_2_VERSION TLS_ST_CR_SRVR_HELLO)
      [SSL3_MT_CERTIFICATE, SSL3_MT_SERVER_KEY_EXCHANGE, SSL3_MT_CERTIFICATE_REQUEST, SSL3_MT_SERVER_DONE] cs' \<and>
    hand_state (statem cs') = TLS_ST_CR_SRVR_DONE"
proof -
  obtain ss' where "writes (ossl_statem_server_write_transition sample_env) (server_con sample_env)
      keeps_write12 (sample_conn TLS1_2_VERSION TLS_ST_SW_SRVR_HELLO)
      [SSL3_MT_CERTIFICATE, SSL3_MT_SERVER_KEY_EXCHANGE, SSL3_MT_CERTIFICATE_REQUEST, SSL3_MT_SERVER_DONE] ss'"
    using writes_server12_complete [OF _ _ sample_server_flight12] by auto
  from this show ?thesis
    by (rule server_flight_accepted12 [rotated 3]) (simp_all add: plain_full_def flag_def)
qed

text \<open>
  C6.  In TLS 1.3 every flight that the server writes after its ServerHello and the compatibility
  ChangeCipherSpec ends with its Finished (followed by the pseudo message of \<^verbatim>\<open>TLS_ST_EARLY_DATA\<close>,
  which is not sent), and a client that agrees on whether the session is resumed accepts it up to that
  Finished.
\<close>

theorem server_flight_accepted13:
  assumes "plain13 ss" and "hand_state (statem ss) = TLS_ST_SW_CHANGE"
    and "writes (ossl_statem_server_write_transition es) (server_con es) keeps_write13 ss mts ss'"
    and "SSL_IS_TLS13 cs" and "hand_state (statem cs) = TLS_ST_CR_SRVR_HELLO" and "hit cs = hit ss"
  shows "\<exists>flight cs'. mts = flight @ [SSL3_MT_DUMMY] \<and>
    reads (ossl_statem_client_read_transition ec) keeps13 cs flight cs' \<and>
    hand_state (statem cs') = TLS_ST_CR_FINISHED"
proof -
  obtain ms where ms: "flight_written13 ss = Some ms"
    using assms(2) by (auto simp: flight_written13_def written13_def Let_def)
  have mts: "mts = ms" using writes_server13 [OF assms(3,1) ms] .
  have "\<exists>flight. ms = flight @ [SSL3_MT_DUMMY] \<and> flight \<in> set (flights13 (hit cs) TLS_ST_CR_SRVR_HELLO)"
    using ms assms(2,6)
    by (auto simp: flight_written13_def written13_def flights13_def Let_def split: if_splits)
  then obtain flight where f: "ms = flight @ [SSL3_MT_DUMMY]"
    "flight \<in> set (flights13 (hit cs) (hand_state (statem cs)))" using assms(5) by auto
  from reads_client13_complete [OF assms(4) f(2), of ec] show ?thesis using f(1) mts by blast
qed

lemma sample_server_flight13:
  "flight_written13 (sample_conn TLS1_3_VERSION TLS_ST_SW_CHANGE) =
     Some [SSL3_MT_ENCRYPTED_EXTENSIONS, SSL3_MT_CERTIFICATE_REQUEST, SSL3_MT_CERTIFICATE,
       SSL3_MT_CERTIFICATE_VERIFY, SSL3_MT_FINISHED, SSL3_MT_DUMMY]"
  by (simp add: flight_written13_def written13_def send_certificate_request_def flag_def)

theorem server_flight_accepted13_witness:
  "\<exists>flight cs'. [SSL3_MT_ENCRYPTED_EXTENSIONS, SSL3_MT_CERTIFICATE_REQUEST, SSL3_MT_CERTIFICATE,
       SSL3_MT_CERTIFICATE_VERIFY, SSL3_MT_FINISHED, SSL3_MT_DUMMY] = flight @ [SSL3_MT_DUMMY] \<and>
    reads (ossl_statem_client_read_transition sample_env) keeps13
      (sample_conn TLS1_3_VERSION TLS_ST_CR_SRVR_HELLO) flight cs' \<and>
    hand_state (statem cs') = TLS_ST_CR_FINISHED"
proof -
  obtain ss' where "writes (ossl_statem_server_write_transition sample_env) (server_con sample_env)
      keeps_write13 (sample_conn TLS1_3_VERSION TLS_ST_SW_CHANGE)
      [SSL3_MT_ENCRYPTED_EXTENSIONS, SSL3_MT_CERTIFICATE_REQUEST, SSL3_MT_CERTIFICATE,
       SSL3_MT_CERTIFICATE_VERIFY, SSL3_MT_FINISHED, SSL3_MT_DUMMY] ss'"
    using writes_server13_complete [OF _ sample_server_flight13] by (auto simp: plain13_def)
  from this show ?thesis by (rule server_flight_accepted13 [rotated 2]) (simp_all add: plain13_def)
qed

end
